(* ===== verification/Prelude.thy ===== *)
theory Prelude
  imports Main "HOL-Library.Word"
begin

text \<open>
  Shared vocabulary of the development: the error values that stand for the exceptions the
  TypeScript sources throw, the result type of operations that may throw and its sequencing
  operator, the byte type, and the generic list lemmas that the codecs and the session
  machines use.  The collections \<open>codec_simps\<close>, \<open>inv_intros\<close> and \<open>step_simps\<close> gather the facts
  that later theories pass to the simplifier as a group.
\<close>

named_theorems codec_simps \<open>rewrite rules that push a decoder through encoded bytes\<close>
named_theorems inv_intros \<open>operations keep the invariant of their component\<close>
named_theorems step_simps \<open>characteristic equations of the state changing operations\<close>

section \<open>Errors and results\<close>

text \<open>
  One constructor per class of exception the modelled code throws.  The message strings of the
  exceptions are diagnostics and are not kept.  Two constructors are no exceptions: \<open>OutOfFuel\<close> of bounded recursions, and
  \<open>ObjectPrototypeMember\<close>, which marks that a property inherited from \<^verbatim>\<open>Object.prototype\<close> was reached instead of a stored one.
\<close>

datatype matter_error =
    RangeError
  | UnexpectedDataError
  | NotImplementedError
  | InternalError
  | ImplementationError
  | ValidationError
  | DuplicateMessageError
  | MatterFlowError
  | RetransmissionLimitReachedError
  | UnexpectedMessageError
  | StatusResponseError
  | BtpProtocolError
  | BtpFlowError
  | BleError
  | TransactionFlowError
  | TransactionDestroyedError
  | TransactionDeadlockError
  | SynchronousTransactionConflictError
  | FinalizationError
  | ReadOnlyError
  | EndOfStreamError
  | NoResponseTimeoutError
  | StorageError
  | NoChannelError
  | ChannelStatusResponseError
  | AttributeError
  | FabricNotFoundError
  | FabricTableFullError
  | MatterFabricConflictError
  | PublicKeyError
  | TypeError
  | PlainError
  | ObjectPrototypeMember
  | OutOfFuel

type_synonym 'a result = "matter_error + 'a"

type_synonym byte = "8 word"

text \<open>Sequencing: the first exception ends the computation.\<close>

fun rbind :: "'a result \<Rightarrow> ('a \<Rightarrow> 'b result) \<Rightarrow> 'b result" where
  "rbind (Inl e) f = Inl e"
| "rbind (Inr a) f = f a"

text \<open>A guard that throws when its condition holds, \<^verbatim>\<open>if (c) throw e\<close>.\<close>

definition throw_if :: "bool \<Rightarrow> matter_error \<Rightarrow> unit result" where
  "throw_if c e = (if c then Inl e else Inr ())"

definition is_ok :: "'a result \<Rightarrow> bool" where
  "is_ok r = (case r of Inl _ \<Rightarrow> False | Inr _ \<Rightarrow> True)"

lemma throw_if_simps [simp]:
  "throw_if True e = Inl e"
  "throw_if False e = Inr ()"
  by (simp_all add: throw_if_def)

lemma is_ok_simps [simp]:
  "\<not> is_ok (Inl e)"
  "is_ok (Inr a)"
  by (simp_all add: is_ok_def)

lemma is_ok_iff: "is_ok r \<longleftrightarrow> (\<exists>a. r = Inr a)"
  by (cases r) auto

lemma throw_if_eq_Inr [simp]: "throw_if c e = Inr u \<longleftrightarrow> \<not> c"
  by (simp add: throw_if_def)

lemma throw_if_eq_Inl [simp]: "throw_if c e = Inl e' \<longleftrightarrow> c \<and> e' = e"
  by (auto simp: throw_if_def)

lemma rbind_eq_Inr: "rbind r f = Inr b \<longleftrightarrow> (\<exists>a. r = Inr a \<and> f a = Inr b)"
  by (cases r) auto

lemma rbind_eq_Inl: "rbind r f = Inl e \<longleftrightarrow> r = Inl e \<or> (\<exists>a. r = Inr a \<and> f a = Inl e)"
  by (cases r) auto

lemma rbind_throw_if: "rbind (throw_if c e) f = (if c then Inl e else f ())"
  by simp

lemma rbind_assoc: "rbind (rbind r f) g = rbind r (\<lambda>a. rbind (f a) g)"
  by (cases r) auto

lemma rbind_cong [fundef_cong]:
  "r = r' \<Longrightarrow> (\<And>a. r' = Inr a \<Longrightarrow> f a = g a) \<Longrightarrow> rbind r f = rbind r' g"
  by (cases r') auto

lemma rbind_split: "P (rbind r f) \<longleftrightarrow> (\<forall>e. r = Inl e \<longrightarrow> P (Inl e)) \<and> (\<forall>a. r = Inr a \<longrightarrow> P (f a))"
  by (cases r) auto

text \<open>The effectful \<^verbatim>\<open>forEach\<close> of a throwing body over a list, threading a state.\<close>

fun rfold :: "('a \<Rightarrow> 's \<Rightarrow> 's result) \<Rightarrow> 'a list \<Rightarrow> 's \<Rightarrow> 's result" where
  "rfold f [] s = Inr s"
| "rfold f (x # xs) s = rbind (f x s) (rfold f xs)"

lemma rfold_append: "rfold f (xs @ ys) s = rbind (rfold f xs s) (rfold f ys)"
  by (induction xs arbitrary: s) (auto simp: rbind_assoc cong: rbind_cong)

lemma rfold_cong [fundef_cong]:
  "xs = ys \<Longrightarrow> s = t \<Longrightarrow> (\<And>x u. x \<in> set ys \<Longrightarrow> f x u = g x u) \<Longrightarrow> rfold f xs s = rfold g ys t"
proof (induction ys arbitrary: xs s t)
  case Nil
  then show ?case by simp
next
  case (Cons y ys)
  have "rfold f ys u = rfold g ys u" for u
    using Cons.prems(3) by (intro Cons.IH) auto
  with Cons.prems show ?case
    by (simp cong: rbind_cong)
qed

lemma rfold_invariant:
  assumes "rfold f xs s = Inr t" and "P s"
    and "\<And>x u v. x \<in> set xs \<Longrightarrow> P u \<Longrightarrow> f x u = Inr v \<Longrightarrow> P v"
  shows "P t"
  using assms by (induction xs arbitrary: s) (auto simp: rbind_eq_Inr)

section \<open>Lists\<close>

lemma take_append_exact [simp]: "n = length xs \<Longrightarrow> take n (xs @ ys) = xs"
  by simp

lemma drop_append_exact [simp]: "n = length xs \<Longrightarrow> drop n (xs @ ys) = ys"
  by simp

lemma list_all_nth_less: "list_all P xs \<Longrightarrow> i < length xs \<Longrightarrow> P (xs ! i)"
  by (simp add: list_all_length)

lemma length_2_conv: "length xs = 2 \<longleftrightarrow> (\<exists>a b. xs = [a, b])"
  by (auto simp: numeral_2_eq_2 length_Suc_conv)

text \<open>\<^verbatim>\<open>Uint8Array.prototype.set\<close>: overwrite a slice, or throw when it does not fit.\<close>

definition set_slice :: "'a list \<Rightarrow> 'a list \<Rightarrow> nat \<Rightarrow> 'a list result" where
  "set_slice arr chunk off =
     (if length arr < off + length chunk then Inl RangeError
      else Inr (take off arr @ chunk @ drop (off + length chunk) arr))"

lemma set_slice_length:
  "set_slice arr chunk off = Inr arr' \<Longrightarrow> length arr' = length arr"
  by (auto simp: set_slice_def split: if_splits)

end
