(* ===== verification/JsNumber.thy ===== *)
theory JsNumber
  imports Prelude
begin

text \<open>
  The arithmetic of the source language.  A JavaScript number that holds an integer, and a
  \<^verbatim>\<open>bigint\<close>, are \<open>int\<close> values; the bitwise operators convert their operands to 32 bits first, as
  ECMAScript prescribes, so shifts count modulo 32 and results are signed unless \<^verbatim>\<open>>>>\<close> is used.
  The limits and helpers are those of \<^verbatim>\<open>util/Number.ts\<close>.
\<close>

unbundle bit_operations_syntax

section \<open>Bitwise operators\<close>

definition to_int32 :: "int \<Rightarrow> int" where
  "to_int32 x = signed_take_bit 31 x"

definition to_uint32 :: "int \<Rightarrow> int" where
  "to_uint32 x = take_bit 32 x"

definition js_and :: "int \<Rightarrow> int \<Rightarrow> int" where
  "js_and a b = to_int32 a AND to_int32 b"

definition js_or :: "int \<Rightarrow> int \<Rightarrow> int" where
  "js_or a b = to_int32 a OR to_int32 b"

definition js_shl :: "int \<Rightarrow> int \<Rightarrow> int" where
  "js_shl a n = to_int32 (push_bit (nat (n mod 32)) a)"

definition js_shr :: "int \<Rightarrow> int \<Rightarrow> int" where
  "js_shr a n = drop_bit (nat (n mod 32)) (to_int32 a)"

definition js_ushr :: "int \<Rightarrow> int \<Rightarrow> int" where
  "js_ushr a n = drop_bit (nat (n mod 32)) (to_uint32 a)"

lemma to_int32_id: "- (2 ^ 31) \<le> x \<Longrightarrow> x < 2 ^ 31 \<Longrightarrow> to_int32 x = x"
  by (simp add: to_int32_def signed_take_bit_int_eq_self)

lemma to_uint32_id: "0 \<le> x \<Longrightarrow> x < 2 ^ 32 \<Longrightarrow> to_uint32 x = x"
  by (simp add: to_uint32_def take_bit_int_eq_self)

lemma to_uint32_range: "0 \<le> to_uint32 x \<and> to_uint32 x < 2 ^ 32"
  by (simp add: to_uint32_def take_bit_int_less_exp [of 32, simplified])

lemma to_uint32_to_int32 [simp]: "to_uint32 (to_int32 x) = to_uint32 x"
  by (simp add: to_uint32_def to_int32_def take_bit_signed_take_bit)

lemma to_int32_to_uint32 [simp]: "to_int32 (to_uint32 x) = to_int32 x"
  by (simp add: to_uint32_def to_int32_def signed_take_bit_take_bit)

text \<open>On operands that fit 31 bits the operators are the mathematical ones.\<close>

lemma js_and_small: "0 \<le> a \<Longrightarrow> a < 2 ^ 31 \<Longrightarrow> 0 \<le> b \<Longrightarrow> b < 2 ^ 31 \<Longrightarrow> js_and a b = a AND b"
  by (simp add: js_and_def to_int32_id)

lemma js_or_small: "0 \<le> a \<Longrightarrow> a < 2 ^ 31 \<Longrightarrow> 0 \<le> b \<Longrightarrow> b < 2 ^ 31 \<Longrightarrow> js_or a b = a OR b"
  by (simp add: js_or_def to_int32_id)

lemma js_shl_small:
  "0 \<le> n \<Longrightarrow> n < 32 \<Longrightarrow> 0 \<le> a \<Longrightarrow> a * 2 ^ nat n < 2 ^ 31 \<Longrightarrow> js_shl a n = a * 2 ^ nat n"
  by (simp add: js_shl_def push_bit_eq_mult to_int32_id order.trans [of "- 2147483648" 0])

lemma js_shr_small:
  "0 \<le> n \<Longrightarrow> n < 32 \<Longrightarrow> 0 \<le> a \<Longrightarrow> a < 2 ^ 31 \<Longrightarrow> js_shr a n = a div 2 ^ nat n"
  by (simp add: js_shr_def drop_bit_eq_div to_int32_id)

lemma bit_to_uint32: "bit (to_uint32 x) k \<longleftrightarrow> k < 32 \<and> bit x k"
  by (simp add: to_uint32_def bit_take_bit_iff)

lemma bit_to_int32: "bit (to_int32 x) k \<longleftrightarrow> bit x (min k 31)"
  by (simp add: to_int32_def bit_signed_take_bit_iff min_def)

text \<open>The operators bit by bit.\<close>

lemma js_ushr_0: "js_ushr b 0 = to_uint32 b"
  by (simp add: js_ushr_def)

lemma bit_js_ushr0: "bit (js_ushr a 0) k \<longleftrightarrow> k < 32 \<and> bit a k"
  by (simp add: js_ushr_def bit_to_uint32)

lemma bit_js_or: "k < 32 \<Longrightarrow> bit (js_or a b) k \<longleftrightarrow> bit a k \<or> bit b k"
  by (simp add: js_or_def bit_or_iff bit_to_int32 min_def)

lemma bit_js_shl: "k < 32 \<Longrightarrow> bit (js_shl a n) k \<longleftrightarrow> nat (n mod 32) \<le> k \<and> bit a (k - nat (n mod 32))"
  by (auto simp: js_shl_def bit_to_int32 min_def bit_push_bit_iff)

lemma bit_js_shl_1: "k < 32 \<Longrightarrow> 0 \<le> n \<Longrightarrow> n < 32 \<Longrightarrow> bit (js_shl 1 n) k \<longleftrightarrow> k = nat n"
  by (auto simp: bit_js_shl bit_1_iff)

lemma js_and_bit: "0 \<le> n \<Longrightarrow> n < 32 \<Longrightarrow> js_and b (js_shl 1 n) \<noteq> 0 \<longleftrightarrow> bit b (nat n)"
proof -
  assume n: "0 \<le> n" "n < 32"
  have "js_and b (js_shl 1 n) = 0 \<longleftrightarrow> (\<forall>k. \<not> bit (js_and b (js_shl 1 n)) k)"
    by (auto simp: bit_eq_iff)
  also have "\<dots> \<longleftrightarrow> (\<forall>k. \<not> (bit b (min k 31) \<and> bit (js_shl 1 n) (min k 31)))"
    by (simp add: js_and_def bit_and_iff bit_to_int32)
  also have "\<dots> \<longleftrightarrow> \<not> bit b (nat n)"
    using n by (auto simp: bit_js_shl_1 min_def nat_less_iff dest: spec [of _ "nat n"])
  finally show ?thesis by simp
qed

lemma bit_js_and: "k < 32 \<Longrightarrow> bit (js_and a b) k \<longleftrightarrow> bit a k \<and> bit b k"
  by (simp add: js_and_def bit_and_iff bit_to_int32 min_def)

lemma bit_js_shr: "k < 32 \<Longrightarrow> 0 \<le> n \<Longrightarrow> n < 32 \<Longrightarrow> bit (js_shr a n) k \<longleftrightarrow> bit a (min (k + nat n) 31)"
  by (simp add: js_shr_def bit_drop_bit_eq bit_to_int32 add.commute)

lemmas bit_js_simps = bit_js_ushr0 bit_js_or bit_js_and bit_js_shl bit_js_shr

lemma to_int32_idem [simp]:
  "to_int32 (to_int32 a) = to_int32 a"
  "to_int32 (js_and a b) = js_and a b"
  "to_int32 (js_or a b) = js_or a b"
  "to_int32 (js_shl a n) = js_shl a n"
  by (auto intro!: bit_eqI simp: js_and_def js_or_def js_shl_def bit_to_int32 bit_and_iff bit_or_iff)

lemma to_int32_js_shr [simp]: "to_int32 (js_shr a n) = js_shr a n"
proof (rule bit_eqI)
  fix k
  have "min (nat (n mod 32) + min k 31) 31 = min (nat (n mod 32) + k) 31"
    by (simp add: min_def)
  then show "bit (to_int32 (js_shr a n)) k \<longleftrightarrow> bit (js_shr a n) k"
    by (simp add: js_shr_def bit_to_int32 bit_drop_bit_eq)
qed

text \<open>Two 32 bit numbers are equal when their 32 bits are.\<close>

lemma int32_eqI:
  assumes "to_int32 a = a" and "to_int32 b = b" and "\<And>k. k < 32 \<Longrightarrow> bit a k \<longleftrightarrow> bit b k"
  shows "a = b"
proof -
  have "bit (to_int32 a) k \<longleftrightarrow> bit (to_int32 b) k" for k
    using assms(3) [of "min k 31"] by (simp add: bit_to_int32)
  then have "to_int32 a = to_int32 b" by (intro bit_eqI) simp
  then show ?thesis by (simp only: assms(1,2))
qed

text \<open>Bits above the magnitude of a number, and numbers put together from disjoint fields.\<close>

lemma not_bit_small: "0 \<le> (v :: int) \<Longrightarrow> v < 2 ^ n \<Longrightarrow> n \<le> k \<Longrightarrow> \<not> bit v k"
proof -
  assume v: "0 \<le> v" "v < 2 ^ n" and "n \<le> k"
  from \<open>v < 2 ^ n\<close> have "v < 2 ^ k"
    by (rule less_le_trans) (simp add: \<open>n \<le> k\<close>)
  with v show ?thesis by (simp add: bit_iff_odd)
qed

lemma or_shifted: "0 \<le> (v :: int) \<Longrightarrow> v < 2 ^ n \<Longrightarrow> push_bit n p OR v = p * 2 ^ n + v"
proof -
  assume v: "0 \<le> v" "v < 2 ^ n"
  have "push_bit n p AND v = 0"
    using not_bit_small [OF v] by (intro bit_eqI) (auto simp: bit_and_iff bit_push_bit_iff)
  then show ?thesis
    by (simp add: disjunctive_add_eq_or [symmetric] push_bit_eq_mult)
qed

section \<open>Limits\<close>

definition UINT8_MAX :: int where "UINT8_MAX = 255"
definition UINT16_MAX :: int where "UINT16_MAX = 65535"
definition UINT24_MAX :: int where "UINT24_MAX = 16777215"
definition UINT32_MAX :: int where "UINT32_MAX = 4294967295"
definition UINT64_MAX :: int where "UINT64_MAX = 18446744073709551615"
definition INT8_MIN :: int where "INT8_MIN = - 128"
definition INT16_MIN :: int where "INT16_MIN = - 32768"
definition INT32_MIN :: int where "INT32_MIN = - 2147483648"
definition INT64_MIN :: int where "INT64_MIN = - 9223372036854775808"
definition INT8_MAX :: int where "INT8_MAX = 127"
definition INT16_MAX :: int where "INT16_MAX = 32767"
definition INT32_MAX :: int where "INT32_MAX = 2147483647"
definition INT64_MAX :: int where "INT64_MAX = 9223372036854775807"

lemmas int_limit_defs =
  UINT8_MAX_def UINT16_MAX_def UINT24_MAX_def UINT32_MAX_def UINT64_MAX_def
  INT8_MIN_def INT16_MIN_def INT32_MIN_def INT64_MIN_def
  INT8_MAX_def INT16_MAX_def INT32_MAX_def INT64_MAX_def

section \<open>Conversions\<close>

text \<open>
  \<^verbatim>\<open>Number(b)\<close> of a bigint rounds to 53 significant bits, half to even.  Integers that are already
  numbers are fixed points, so \<open>toNumber\<close> needs no case distinction on the JavaScript type.
\<close>

fun bit_length :: "nat \<Rightarrow> nat" where
  "bit_length n = (if n = 0 then 0 else Suc (bit_length (n div 2)))"

declare bit_length.simps [simp del]

definition round_shift :: "int \<Rightarrow> nat \<Rightarrow> int" where
  "round_shift x s =
     (let q = x div 2 ^ s; r = x mod 2 ^ s in
      if 2 ^ s < 2 * r \<or> (2 ^ s = 2 * r \<and> odd q) then q + 1 else q)"

definition toNumber :: "int \<Rightarrow> int" where
  "toNumber v =
     (if \<bar>v\<bar> \<le> 2 ^ 53 then v
      else let s = bit_length (nat \<bar>v\<bar>) - 53 in sgn v * (round_shift \<bar>v\<bar> s * 2 ^ s))"

definition toBigInt :: "int \<Rightarrow> int" where
  "toBigInt v = v"

lemma toNumber_small: "\<bar>v\<bar> \<le> 2 ^ 53 \<Longrightarrow> toNumber v = v"
  by (simp add: toNumber_def)

lemma toNumber_range: "- (2 ^ 53) \<le> v \<Longrightarrow> v \<le> 2 ^ 53 \<Longrightarrow> toNumber v = v"
  by (rule toNumber_small) (simp add: abs_le_iff)

definition minValue :: "int option \<Rightarrow> int option \<Rightarrow> int option" where
  "minValue a b = (case a of None \<Rightarrow> b | Some x \<Rightarrow>
     (case b of None \<Rightarrow> a | Some y \<Rightarrow> if x < y then a else b))"

definition maxValue :: "int option \<Rightarrow> int option \<Rightarrow> int option" where
  "maxValue a b = (case a of None \<Rightarrow> b | Some x \<Rightarrow>
     (case b of None \<Rightarrow> a | Some y \<Rightarrow> if x > y then a else b))"

lemma minValue_Some_iff:
  "(\<forall>m. minValue a b = Some m \<longrightarrow> v \<le> m) \<longleftrightarrow>
     (\<forall>x. a = Some x \<longrightarrow> v \<le> x) \<and> (\<forall>y. b = Some y \<longrightarrow> v \<le> y)"
  by (auto simp: minValue_def split: option.splits)

lemma maxValue_Some_iff:
  "(\<forall>m. maxValue a b = Some m \<longrightarrow> m \<le> v) \<longleftrightarrow>
     (\<forall>x. a = Some x \<longrightarrow> x \<le> v) \<and> (\<forall>y. b = Some y \<longrightarrow> y \<le> v)"
  by (auto simp: maxValue_def split: option.splits)

end
