(* ===== verification/MessageCounters.thy ===== *)
theory MessageCounters
  imports JsNumber
begin

text \<open>
  The sender's and the receiver's view of message counters: \<^verbatim>\<open>protocol/MessageCounter.ts\<close> issues
  them, in memory or persisted, and \<^verbatim>\<open>protocol/MessageReceptionState.ts\<close> keeps the window that
  recognises duplicates, in its three variants.  The locale \<open>replay_filter\<close> states what a
  receiver needs from such a window; the variants without rollover and, on unrolled counters,
  with rollover are shown to provide it.
\<close>

unbundle bit_operations_syntax

section \<open>Issuing counters\<close>

definition MAX_COUNTER_VALUE_32BIT :: int where
  "MAX_COUNTER_VALUE_32BIT = 0xfffffffe"

definition ROLLOVER_INFO_DIFFERENCE :: int where
  "ROLLOVER_INFO_DIFFERENCE = 1000"

record MessageCounter =
  mc_messageCounter :: int
  mc_hasCallback :: bool
  mc_rolloverInfoDifference :: int

text \<open>\<open>rnd\<close> is the value of \<^verbatim>\<open>Crypto.getRandomUInt32()\<close>.\<close>

definition new_MessageCounter :: "int \<Rightarrow> bool \<Rightarrow> int \<Rightarrow> MessageCounter" where
  "new_MessageCounter rnd hasCallback infoDifference =
     \<lparr>mc_messageCounter = js_ushr rnd 4 + 1, mc_hasCallback = hasCallback,
      mc_rolloverInfoDifference = infoDifference\<rparr>"

text \<open>
  The outcome of a call: the counter object afterwards (it is changed even when the call
  throws), whether the rollover callback was invoked, and the value returned or thrown.
\<close>

type_synonym 'c counter_call = "'c \<times> bool \<times> int result"

definition getIncrementedCounter :: "MessageCounter \<Rightarrow> MessageCounter counter_call" where
  "getIncrementedCounter c =
     (let v = mc_messageCounter c + 1; c1 = c\<lparr>mc_messageCounter := v\<rparr> in
      if v > MAX_COUNTER_VALUE_32BIT then
        (if mc_hasCallback c then (c\<lparr>mc_messageCounter := 0\<rparr>, False, Inr 0)
         else (c1, False, Inl InternalError))
      else if mc_hasCallback c \<and> v = MAX_COUNTER_VALUE_32BIT - mc_rolloverInfoDifference c then
        (c1, True, Inr v)
      else (c1, False, Inr v))"

text \<open>
  The persisted counter: the storage context is a map from keys to numbers.  Construction reads
  the stored value, checks its range and calls the callback when it is close to the limit.
\<close>

record PersistedMessageCounter =
  pc_counter :: MessageCounter
  pc_storageKey :: string

type_synonym counter_storage = "string \<rightharpoonup> int"

definition new_PersistedMessageCounter ::
  "counter_storage \<Rightarrow> string \<Rightarrow> int \<Rightarrow> bool \<Rightarrow> int \<Rightarrow> (PersistedMessageCounter \<times> bool) result" where
  "new_PersistedMessageCounter storage key rnd hasCallback infoDifference =
     (let c = new_MessageCounter rnd hasCallback infoDifference in
      case storage key of
        None \<Rightarrow> Inr (\<lparr>pc_counter = c, pc_storageKey = key\<rparr>, False)
      | Some v \<Rightarrow>
          if v < 0 \<or> v > MAX_COUNTER_VALUE_32BIT then Inl InternalError
          else Inr (\<lparr>pc_counter = c\<lparr>mc_messageCounter := v\<rparr>, pc_storageKey = key\<rparr>,
                    hasCallback \<and> v \<ge> MAX_COUNTER_VALUE_32BIT - infoDifference))"

definition persisted_getIncrementedCounter ::
  "counter_storage \<Rightarrow> PersistedMessageCounter \<Rightarrow> counter_storage \<times> PersistedMessageCounter counter_call" where
  "persisted_getIncrementedCounter storage p =
     (case getIncrementedCounter (pc_counter p) of
        (c, cb, Inl e) \<Rightarrow> (storage, p\<lparr>pc_counter := c\<rparr>, cb, Inl e)
      | (c, cb, Inr v) \<Rightarrow> (storage(pc_storageKey p \<mapsto> v), p\<lparr>pc_counter := c\<rparr>, cb, Inr v))"

subsection \<open>The sequence of issued counters\<close>

definition mc_inv :: "MessageCounter \<Rightarrow> bool" where
  "mc_inv c \<longleftrightarrow> 0 \<le> mc_messageCounter c"

fun issue :: "nat \<Rightarrow> MessageCounter \<Rightarrow> MessageCounter \<times> int result list" where
  "issue 0 c = (c, [])"
| "issue (Suc n) c =
     (let (c1, _, v) = getIncrementedCounter c; (c2, vs) = issue n c1 in (c2, v # vs))"

lemma getIncrementedCounter_inv [inv_intros]:
  "getIncrementedCounter c = (c', cb, v) \<Longrightarrow> mc_inv c \<Longrightarrow> mc_inv c'"
  by (auto simp: getIncrementedCounter_def mc_inv_def Let_def split: if_splits)

lemma getIncrementedCounter_callback:
  "getIncrementedCounter c = (c', cb, v) \<Longrightarrow>
     mc_hasCallback c' = mc_hasCallback c \<and> mc_rolloverInfoDifference c' = mc_rolloverInfoDifference c"
  by (auto simp: getIncrementedCounter_def Let_def split: if_splits)

lemma getIncrementedCounter_range:
  "getIncrementedCounter c = (c', cb, Inr v) \<Longrightarrow> mc_inv c \<Longrightarrow>
     0 \<le> v \<and> v \<le> MAX_COUNTER_VALUE_32BIT \<and> mc_messageCounter c' = v"
  by (auto simp: getIncrementedCounter_def mc_inv_def MAX_COUNTER_VALUE_32BIT_def Let_def split: if_splits)

lemma new_MessageCounter_range:
  "0 < mc_messageCounter (new_MessageCounter rnd cb d) \<and>
   mc_messageCounter (new_MessageCounter rnd cb d) \<le> 2 ^ 28"
proof -
  have "0 \<le> to_uint32 rnd div 16" and "to_uint32 rnd div 16 < 2 ^ 28"
    using to_uint32_range [of rnd] by auto
  then show ?thesis
    by (simp add: new_MessageCounter_def js_ushr_def drop_bit_eq_div)
qed

text \<open>With a rollover callback the counters run through the whole range and start over at 0.\<close>

lemma issue_rollover:
  assumes "mc_hasCallback c" and "0 \<le> mc_messageCounter c"
    and "mc_messageCounter c \<le> MAX_COUNTER_VALUE_32BIT"
  shows "snd (issue n c) =
    map (\<lambda>i. Inr ((mc_messageCounter c + 1 + int i) mod (MAX_COUNTER_VALUE_32BIT + 1))) [0..<n]"
  using assms
proof (induction n arbitrary: c)
  case 0
  then show ?case by simp
next
  case (Suc n)
  let ?N = "MAX_COUNTER_VALUE_32BIT + 1" and ?v = "mc_messageCounter c"
  obtain c1 cb v where g: "getIncrementedCounter c = (c1, cb, v)" by (cases "getIncrementedCounter c")
  from g Suc.prems have v: "v = Inr ((?v + 1) mod ?N)" and c1: "mc_messageCounter c1 = (?v + 1) mod ?N"
    by (auto simp: getIncrementedCounter_def MAX_COUNTER_VALUE_32BIT_def Let_def split: if_splits)
  have "snd (issue n c1) = map (\<lambda>i. Inr ((mc_messageCounter c1 + 1 + int i) mod ?N)) [0..<n]"
    using Suc.prems g c1 getIncrementedCounter_callback [OF g]
    by (intro Suc.IH) (auto simp: MAX_COUNTER_VALUE_32BIT_def)
  also have "\<dots> = map (\<lambda>i. Inr ((?v + 1 + int (Suc i)) mod ?N)) [0..<n]"
  proof -
    have "((?v + 1) mod ?N + 1 + int i) mod ?N = (?v + 1 + int (Suc i)) mod ?N" for i
      using mod_add_left_eq [of "?v + 1" ?N "1 + int i"] by (simp add: algebra_simps)
    then show ?thesis by (simp add: c1)
  qed
  finally show ?case
    using v by (simp add: g split_beta map_upt_Suc del: upt_Suc)
qed

text \<open>Without one, they count up to the limit and every later call throws.\<close>

lemma issue_no_rollover:
  assumes "\<not> mc_hasCallback c"
  shows "snd (issue n c) =
    map (\<lambda>i. if mc_messageCounter c + 1 + int i \<le> MAX_COUNTER_VALUE_32BIT
             then Inr (mc_messageCounter c + 1 + int i) else Inl InternalError) [0..<n]"
  using assms
proof (induction n arbitrary: c)
  case 0
  then show ?case by simp
next
  case (Suc n)
  obtain c1 cb v where g: "getIncrementedCounter c = (c1, cb, v)" by (cases "getIncrementedCounter c")
  from g Suc.prems have c1: "mc_messageCounter c1 = mc_messageCounter c + 1"
    and v: "v = (if mc_messageCounter c + 1 \<le> MAX_COUNTER_VALUE_32BIT
                 then Inr (mc_messageCounter c + 1) else Inl InternalError)"
    by (auto simp: getIncrementedCounter_def Let_def split: if_splits)
  have "snd (issue n c1) = map (\<lambda>i. if mc_messageCounter c1 + 1 + int i \<le> MAX_COUNTER_VALUE_32BIT
             then Inr (mc_messageCounter c1 + 1 + int i) else Inl InternalError) [0..<n]"
    using Suc.prems getIncrementedCounter_callback [OF g] by (intro Suc.IH) simp
  then show ?case
    using v by (simp add: g c1 split_beta map_upt_Suc algebra_simps del: upt_Suc)
qed

section \<open>Recognising duplicates\<close>

definition MAX_COUNTER_INCREASE_2POW31 :: int where
  "MAX_COUNTER_INCREASE_2POW31 = 2 ^ 31"

definition MSG_COUNTER_WINDOW_SIZE :: int where
  "MSG_COUNTER_WINDOW_SIZE = 32"

text \<open>The three subclasses differ in \<^verbatim>\<open>calculateDiff\<close> only.\<close>

datatype reception_kind = EncryptedWithoutRollover | EncryptedWithRollover | UnencryptedWithRollover

record MessageReceptionState =
  rs_kind :: reception_kind
  rs_maximumMessageCounter :: "int option"
  rs_messageCounterBitmap :: int

definition rs_initialize :: "int \<Rightarrow> MessageReceptionState \<Rightarrow> MessageReceptionState" where
  "rs_initialize messageCounter s =
     s\<lparr>rs_maximumMessageCounter := Some messageCounter, rs_messageCounterBitmap := 0xffffffff\<rparr>"

definition new_MessageReceptionState :: "reception_kind \<Rightarrow> int option \<Rightarrow> MessageReceptionState" where
  "new_MessageReceptionState kind messageCounter =
     (let s = \<lparr>rs_kind = kind, rs_maximumMessageCounter = None, rs_messageCounterBitmap = 0xffffffff\<rparr>
      in case messageCounter of None \<Rightarrow> s | Some c \<Rightarrow> rs_initialize c s)"

definition diff_EncryptedWithoutRollover :: "int \<Rightarrow> int option \<Rightarrow> int" where
  "diff_EncryptedWithoutRollover messageCounter maximum =
     (case maximum of None \<Rightarrow> 0 | Some m \<Rightarrow> messageCounter - m)"

definition diff_EncryptedWithRollover :: "int \<Rightarrow> int option \<Rightarrow> int" where
  "diff_EncryptedWithRollover messageCounter maximum =
     (case maximum of None \<Rightarrow> 0
      | Some m \<Rightarrow>
          let diff = messageCounter - m in
          if diff > 0 then
            (if diff < MAX_COUNTER_INCREASE_2POW31 then diff
             else diff - MAX_COUNTER_VALUE_32BIT - 1)
          else if diff < 0 then
            (if diff \<ge> - MAX_COUNTER_INCREASE_2POW31 then diff
             else diff + MAX_COUNTER_VALUE_32BIT + 1)
          else 0)"

definition diff_UnencryptedWithRollover :: "int \<Rightarrow> int option \<Rightarrow> int" where
  "diff_UnencryptedWithRollover messageCounter maximum =
     (case maximum of None \<Rightarrow> 0
      | Some m \<Rightarrow>
          let diff = messageCounter - m in
          if diff > 0 then
            (if - diff + MAX_COUNTER_VALUE_32BIT < MSG_COUNTER_WINDOW_SIZE
             then diff - MAX_COUNTER_VALUE_32BIT - 1 else diff)
          else if diff < 0 then
            (if diff < - MSG_COUNTER_WINDOW_SIZE then MAX_COUNTER_VALUE_32BIT + diff else diff)
          else 0)"

definition calculateDiff :: "int \<Rightarrow> MessageReceptionState \<Rightarrow> int" where
  "calculateDiff messageCounter s =
     (case rs_kind s of
        EncryptedWithoutRollover \<Rightarrow> diff_EncryptedWithoutRollover messageCounter (rs_maximumMessageCounter s)
      | EncryptedWithRollover \<Rightarrow> diff_EncryptedWithRollover messageCounter (rs_maximumMessageCounter s)
      | UnencryptedWithRollover \<Rightarrow> diff_UnencryptedWithRollover messageCounter (rs_maximumMessageCounter s))"

definition calculateMessageCounterBitmap :: "int \<Rightarrow> int \<Rightarrow> int result" where
  "calculateMessageCounterBitmap bitmap diff =
     (if diff < 0 then
        (if diff < - MSG_COUNTER_WINDOW_SIZE then Inl InternalError
         else Inr (js_ushr (js_or bitmap (js_shl 1 (- diff - 1))) 0))
      else if diff > 0 then
        (if diff \<le> MSG_COUNTER_WINDOW_SIZE
         then Inr (js_ushr (js_or (js_ushr (js_shl bitmap diff) 0) (js_shl 1 (diff - 1))) 0)
         else Inr (js_ushr 0 0))
      else Inr (js_ushr bitmap 0))"

definition updateMessageCounterAndBitmap :: "int \<Rightarrow> int \<Rightarrow> MessageReceptionState \<Rightarrow> MessageReceptionState result" where
  "updateMessageCounterAndBitmap messageCounter diff s =
     (if rs_maximumMessageCounter s = None then Inr (rs_initialize messageCounter s)
      else rbind (calculateMessageCounterBitmap (rs_messageCounterBitmap s) diff) (\<lambda>b.
        let s1 = s\<lparr>rs_messageCounterBitmap := b\<rparr> in
        if diff > 0 \<or> diff < - MSG_COUNTER_WINDOW_SIZE
        then Inr (s1\<lparr>rs_maximumMessageCounter := Some messageCounter\<rparr>)
        else Inr s1))"

definition isCounterKnownInBitmap :: "int \<Rightarrow> MessageReceptionState \<Rightarrow> bool result" where
  "isCounterKnownInBitmap diff s =
     (if diff < - MSG_COUNTER_WINDOW_SIZE \<or> diff \<ge> 0 then Inl InternalError
      else Inr (js_and (rs_messageCounterBitmap s) (js_shl 1 (- diff - 1)) \<noteq> 0))"

text \<open>No assignment precedes a \<^verbatim>\<open>throw\<close>, so the state is unchanged when the result is an error.\<close>

definition updateMessageCounter :: "int \<Rightarrow> MessageReceptionState \<Rightarrow> MessageReceptionState result" where
  "updateMessageCounter messageCounter s =
     (if messageCounter < 0 \<or> messageCounter > MAX_COUNTER_VALUE_32BIT then Inl InternalError
      else if rs_maximumMessageCounter s = None then updateMessageCounterAndBitmap messageCounter 0 s
      else if rs_maximumMessageCounter s = Some messageCounter then Inl DuplicateMessageError
      else
        let diff = calculateDiff messageCounter s in
        if diff < 0 then
          (if diff < - MSG_COUNTER_WINDOW_SIZE then Inl DuplicateMessageError
           else rbind (isCounterKnownInBitmap diff s) (\<lambda>known.
             if known then Inl DuplicateMessageError
             else updateMessageCounterAndBitmap messageCounter diff s))
        else updateMessageCounterAndBitmap messageCounter diff s)"

text \<open>A receiver that goes on after a rejected message: the final state and what it accepted.\<close>

fun receive_all :: "('m \<Rightarrow> 's \<Rightarrow> 's result) \<Rightarrow> 's \<Rightarrow> 'm list \<Rightarrow> 's \<times> 'm list" where
  "receive_all upd s [] = (s, [])"
| "receive_all upd s (m # ms) =
     (case upd m s of
        Inl e \<Rightarrow> receive_all upd s ms
      | Inr s' \<Rightarrow> let (t, acc) = receive_all upd s' ms in (t, m # acc))"

subsection \<open>The bitmap\<close>

lemma calculateMessageCounterBitmap_back:
  assumes "- 32 \<le> d" and "d < 0"
  shows "\<exists>b'. calculateMessageCounterBitmap b d = Inr b' \<and>
    (\<forall>k < 32. bit b' k \<longleftrightarrow> bit b k \<or> k = nat (- d - 1))"
  using assms
  by (auto simp: calculateMessageCounterBitmap_def MSG_COUNTER_WINDOW_SIZE_def bit_js_ushr0 bit_js_or bit_js_shl_1)

lemma calculateMessageCounterBitmap_ahead:
  assumes "0 < d"
  shows "\<exists>b'. calculateMessageCounterBitmap b d = Inr b' \<and>
    (\<forall>k < 32. bit b' k \<longleftrightarrow>
       d \<le> 32 \<and> (k = nat (d - 1) \<or> (nat (d mod 32) \<le> k \<and> bit b (k - nat (d mod 32)))))"
  using assms
  by (auto simp: calculateMessageCounterBitmap_def MSG_COUNTER_WINDOW_SIZE_def bit_js_ushr0 bit_js_or
      bit_js_shl_1 bit_js_shl bit_1_iff)

text \<open>One equation for the update of a window whose diff is not zero.\<close>

lemma updateMessageCounter_window [step_simps]:
  assumes "rs_maximumMessageCounter s = Some m" and "m \<noteq> c"
    and "0 \<le> c" and "c \<le> MAX_COUNTER_VALUE_32BIT" and "d = calculateDiff c s" and "d \<noteq> 0"
  shows "updateMessageCounter c s =
     (if d < - 32 \<or> (d < 0 \<and> bit (rs_messageCounterBitmap s) (nat (- d - 1))) then Inl DuplicateMessageError
      else rbind (calculateMessageCounterBitmap (rs_messageCounterBitmap s) d) (\<lambda>b.
        Inr (s\<lparr>rs_messageCounterBitmap := b,
               rs_maximumMessageCounter := Some (if d > 0 then c else m)\<rparr>)))"
  using assms js_and_bit [of "- d - 1" "rs_messageCounterBitmap s"]
  by (cases s) (auto simp: updateMessageCounter_def isCounterKnownInBitmap_def
      updateMessageCounterAndBitmap_def MSG_COUNTER_WINDOW_SIZE_def Let_def cong: rbind_cong)

subsection \<open>The interface of a duplicate filter\<close>

locale replay_filter =
  fixes upd :: "'m \<Rightarrow> 's \<Rightarrow> 's result"
    and known :: "'s \<Rightarrow> 'm set \<Rightarrow> bool"
  assumes fresh: "known s A \<Longrightarrow> upd m s = Inr s' \<Longrightarrow> m \<notin> A"
    and recorded: "known s A \<Longrightarrow> upd m s = Inr s' \<Longrightarrow> known s' (insert m A)"
begin

lemma no_replay:
  "known s A \<Longrightarrow> receive_all upd s ms = (t, acc) \<Longrightarrow>
     distinct acc \<and> set acc \<inter> A = {} \<and> set acc \<subseteq> set ms \<and> known t (A \<union> set acc)"
proof (induction ms arbitrary: s A acc)
  case Nil
  then show ?case by simp
next
  case (Cons m ms)
  show ?case
  proof (cases "upd m s")
    case (Inl e)
    with Cons show ?thesis by fastforce
  next
    case (Inr s')
    with Cons.prems obtain acc' where r: "receive_all upd s' ms = (t, acc')" and acc: "acc = m # acc'"
      by (auto split: prod.splits)
    have "m \<notin> A" and "known s' (insert m A)"
      using fresh [OF Cons.prems(1) Inr] recorded [OF Cons.prems(1) Inr] by simp_all
    with Cons.IH [OF _ r] acc show ?thesis by fastforce
  qed
qed

lemma rejects_known: "known s A \<Longrightarrow> m \<in> A \<Longrightarrow> \<exists>e. upd m s = Inl e"
  using fresh by (cases "upd m s") auto

end

text \<open>
  \<open>window b M A\<close>: the bitmap \<open>b\<close> below the maximum \<open>M\<close> remembers at least the counters of \<open>A\<close>.
\<close>

definition window :: "int \<Rightarrow> int \<Rightarrow> int set \<Rightarrow> bool" where
  "window b M A \<longleftrightarrow> M \<in> A \<and> (\<forall>v \<in> A. v \<le> M \<and> (M - 32 \<le> v \<and> v < M \<longrightarrow> bit b (nat (M - v - 1))))"

lemma window_back:
  assumes "window b M A" and "- 32 \<le> d" and "d < 0" and "\<not> bit b (nat (- d - 1))"
    and "calculateMessageCounterBitmap b d = Inr b'"
  shows "M + d \<notin> A" and "window b' M (insert (M + d) A)"
proof -
  have b': "bit b' k \<longleftrightarrow> bit b k \<or> k = nat (- d - 1)" if "k < 32" for k
    using calculateMessageCounterBitmap_back [of d b] assms that by auto
  show "M + d \<notin> A"
    using assms by (auto simp: window_def)
  show "window b' M (insert (M + d) A)"
    using assms(1-3) by (auto simp: window_def b' nat_less_iff)
qed

lemma window_ahead:
  assumes "window b M A" and "0 < d" and "calculateMessageCounterBitmap b d = Inr b'"
  shows "M + d \<notin> A" and "window b' (M + d) (insert (M + d) A)"
proof -
  have b': "bit b' k \<longleftrightarrow>
      d \<le> 32 \<and> (k = nat (d - 1) \<or> (nat (d mod 32) \<le> k \<and> bit b (k - nat (d mod 32))))" if "k < 32" for k
    using calculateMessageCounterBitmap_ahead [of d b] assms that by auto
  show "M + d \<notin> A"
    using assms by (auto simp: window_def)
  have "bit b' (nat (M + d - v - 1))" if v: "v \<in> A" "M + d - 32 \<le> v" for v
  proof -
    from assms(1) v have "v \<le> M" and old: "v < M \<Longrightarrow> bit b (nat (M - v - 1))"
      using assms(2) by (auto simp: window_def)
    show ?thesis
    proof (cases "v = M")
      case True
      with v assms(2) show ?thesis by (simp add: b' nat_less_iff)
    next
      case False
      with v \<open>v \<le> M\<close> assms(2) have "d < 32" and "nat (M + d - v - 1) - nat d = nat (M - v - 1)"
        by auto
      with False v \<open>v \<le> M\<close> assms(2) old show ?thesis
        by (auto simp: b' nat_less_iff)
    qed
  qed
  with assms(1,2) show "window b' (M + d) (insert (M + d) A)"
    by (auto simp: window_def)
qed

subsection \<open>Without rollover\<close>

definition known_without_rollover :: "MessageReceptionState \<Rightarrow> int set \<Rightarrow> bool" where
  "known_without_rollover s A \<longleftrightarrow> rs_kind s = EncryptedWithoutRollover \<and>
     (case rs_maximumMessageCounter s of None \<Rightarrow> A = {}
      | Some m \<Rightarrow> window (rs_messageCounterBitmap s) m A)"

lemma update_range: "updateMessageCounter c s = Inr s' \<Longrightarrow> 0 \<le> c \<and> c \<le> MAX_COUNTER_VALUE_32BIT"
  by (auto simp: updateMessageCounter_def split: if_splits)

lemma update_first:
  "rs_maximumMessageCounter s = None \<Longrightarrow> updateMessageCounter c s = Inr s' \<Longrightarrow> s' = rs_initialize c s"
  by (auto simp: updateMessageCounter_def updateMessageCounterAndBitmap_def split: if_splits)

lemma update_not_maximum:
  "updateMessageCounter c s = Inr s' \<Longrightarrow> rs_maximumMessageCounter s \<noteq> Some c"
  by (auto simp: updateMessageCounter_def split: if_splits)

lemma window_initialize [simp]: "window b c {c}"
  by (simp add: window_def)

text \<open>An accepted counter with a nonzero diff moves the window to the greater of the two positions.\<close>

lemma update_window:
  assumes "window (rs_messageCounterBitmap s) M A" and "rs_maximumMessageCounter s = Some m"
    and "updateMessageCounter c s = Inr s'" and "d = calculateDiff c s" and "d \<noteq> 0"
  shows "M + d \<notin> A"
    and "window (rs_messageCounterBitmap s') (max M (M + d)) (insert (M + d) A)"
    and "rs_maximumMessageCounter s' = Some (if d > 0 then c else m)"
    and "rs_kind s' = rs_kind s"
proof -
  note eq = updateMessageCounter_window [OF assms(2) _ _ _ assms(4,5)]
  from assms(3) update_range [OF assms(3)] update_not_maximum [OF assms(3)] assms(2)
  have d: "\<not> (d < - 32 \<or> (d < 0 \<and> bit (rs_messageCounterBitmap s) (nat (- d - 1))))"
    and ex: "\<exists>b'. calculateMessageCounterBitmap (rs_messageCounterBitmap s) d = Inr b' \<and>
      s' = s\<lparr>rs_messageCounterBitmap := b', rs_maximumMessageCounter := Some (if d > 0 then c else m)\<rparr>"
    by (auto simp: eq rbind_eq_Inr split: if_splits)
  from ex obtain b' where b': "calculateMessageCounterBitmap (rs_messageCounterBitmap s) d = Inr b'"
    and s': "s' = s\<lparr>rs_messageCounterBitmap := b', rs_maximumMessageCounter := Some (if d > 0 then c else m)\<rparr>"
    by blast
  show "rs_maximumMessageCounter s' = Some (if d > 0 then c else m)" and "rs_kind s' = rs_kind s"
    by (simp_all add: s')
  have "M + d \<notin> A \<and> window (rs_messageCounterBitmap s') (max M (M + d)) (insert (M + d) A)"
  proof (cases "d > 0")
    case True
    then show ?thesis
      using window_ahead [OF assms(1) _ b'] s' by (simp add: max_def)
  next
    case False
    with d assms(5) have "- 32 \<le> d" "d < 0" "\<not> bit (rs_messageCounterBitmap s) (nat (- d - 1))"
      by auto
    then show ?thesis
      using window_back [OF assms(1) _ _ _ b'] s' by (simp add: max_def)
  qed
  then show "M + d \<notin> A" and "window (rs_messageCounterBitmap s') (max M (M + d)) (insert (M + d) A)"
    by simp_all
qed

lemma known_without_rollover_step:
  assumes "known_without_rollover s A" and "updateMessageCounter c s = Inr s'"
  shows "c \<notin> A \<and> known_without_rollover s' (insert c A)"
proof (cases "rs_maximumMessageCounter s")
  case None
  with assms update_first [OF None assms(2)] show ?thesis
    by (simp add: known_without_rollover_def rs_initialize_def)
next
  case (Some m)
  let ?d = "calculateDiff c s"
  have d: "?d = c - m" and "?d \<noteq> 0"
    using assms(1) Some update_not_maximum [OF assms(2)]
    by (auto simp: known_without_rollover_def calculateDiff_def diff_EncryptedWithoutRollover_def)
  note u = update_window [of s m A m c s' ?d]
  from assms Some u \<open>?d \<noteq> 0\<close> d show ?thesis
    by (auto simp: known_without_rollover_def max_def)
qed

interpretation without_rollover: replay_filter updateMessageCounter known_without_rollover
  by unfold_locales (simp_all add: known_without_rollover_step)

subsection \<open>With rollover\<close>

text \<open>
  The counters of a sender that rolls over, unrolled: message number \<open>v\<close> carries the counter
  \<open>v mod 0xffffffff\<close>.  The receiver's state is paired with the unrolled position of its maximum;
  a message is delivered while it is less than half the counter range away from it.
\<close>

abbreviation counter_modulus :: int where
  "counter_modulus \<equiv> MAX_COUNTER_VALUE_32BIT + 1"

definition deliver_unrolled :: "int \<Rightarrow> int \<times> MessageReceptionState \<Rightarrow> (int \<times> MessageReceptionState) result" where
  "deliver_unrolled v p =
     (case p of (M, s) \<Rightarrow>
        if rs_maximumMessageCounter s = None then
          rbind (updateMessageCounter (v mod counter_modulus) s) (\<lambda>s'. Inr (v, s'))
        else if v - M < - (2 ^ 31 - 1) \<or> 2 ^ 31 - 1 \<le> v - M then Inl UnexpectedDataError
        else rbind (updateMessageCounter (v mod counter_modulus) s) (\<lambda>s'. Inr (max M v, s')))"

definition known_with_rollover :: "int \<times> MessageReceptionState \<Rightarrow> int set \<Rightarrow> bool" where
  "known_with_rollover p A \<longleftrightarrow> (case p of (M, s) \<Rightarrow> rs_kind s = EncryptedWithRollover \<and>
     (case rs_maximumMessageCounter s of None \<Rightarrow> A = {}
      | Some m \<Rightarrow> m = M mod counter_modulus \<and> window (rs_messageCounterBitmap s) M A))"

text \<open>Half the range away, \<^verbatim>\<open>calculateDiff\<close> recovers the unrolled distance.\<close>

lemma diff_EncryptedWithRollover_unrolled:
  assumes "- (2 ^ 31 - 1) \<le> v - M" and "v - M < 2 ^ 31 - 1"
  shows "diff_EncryptedWithRollover (v mod counter_modulus) (Some (M mod counter_modulus)) = v - M"
proof -
  let ?N = counter_modulus
  have N: "?N = 2 ^ 32 - 1" by (simp add: MAX_COUNTER_VALUE_32BIT_def)
  define c m where "c = v mod ?N" and "m = M mod ?N"
  have r: "0 \<le> c" "c < ?N" "0 \<le> m" "m < ?N"
    unfolding c_def m_def by (simp_all add: MAX_COUNTER_VALUE_32BIT_def)
  define k where "k = M div ?N - v div ?N"
  have "c - m = v - M + k * ?N"
    unfolding c_def m_def k_def
    by (simp add: minus_mult_div_eq_mod [symmetric] algebra_simps)
  with r assms have "- 2 < k" and "k < 2"
    unfolding N by simp_all
  then have "k \<in> {- 1, 0, 1}" by auto
  then show ?thesis
    using \<open>c - m = v - M + k * ?N\<close> assms
    unfolding c_def [symmetric] m_def [symmetric] diff_EncryptedWithRollover_def
    by (auto simp: MAX_COUNTER_INCREASE_2POW31_def MAX_COUNTER_VALUE_32BIT_def Let_def)
qed

lemma known_with_rollover_step:
  assumes "known_with_rollover p A" and "deliver_unrolled v p = Inr p'"
  shows "v \<notin> A \<and> known_with_rollover p' (insert v A)"
proof -
  obtain M s where p: "p = (M, s)" by (cases p)
  let ?c = "v mod counter_modulus"
  show ?thesis
  proof (cases "rs_maximumMessageCounter s")
    case None
    with assms p show ?thesis
      by (auto simp: known_with_rollover_def deliver_unrolled_def rbind_eq_Inr rs_initialize_def
          dest!: update_first)
  next
    case (Some m)
    from assms(2) p Some obtain s' where u: "updateMessageCounter ?c s = Inr s'" and p': "p' = (max M v, s')"
      and near: "- (2 ^ 31 - 1) \<le> v - M" "v - M < 2 ^ 31 - 1"
      by (auto simp: deliver_unrolled_def rbind_eq_Inr split: if_splits)
    from assms(1) p Some have k: "rs_kind s = EncryptedWithRollover" and m: "m = M mod counter_modulus"
      and w: "window (rs_messageCounterBitmap s) M A"
      by (simp_all add: known_with_rollover_def)
    have d: "calculateDiff ?c s = v - M"
      using diff_EncryptedWithRollover_unrolled [OF near] k m Some by (simp add: calculateDiff_def)
    have "v \<noteq> M"
      using update_not_maximum [OF u] Some m by auto
    with update_window [OF w Some u d [symmetric]] k m p' show ?thesis
      by (auto simp: known_with_rollover_def max_def)
  qed
qed

interpretation with_rollover: replay_filter deliver_unrolled known_with_rollover
  by unfold_locales (simp_all add: known_with_rollover_step)

subsection \<open>Unencrypted messages\<close>

text \<open>A counter well behind the window is taken as a restarted sender: the window starts over there.\<close>

lemma unencrypted_behind_window:
  assumes "rs_kind s = UnencryptedWithRollover" and "rs_maximumMessageCounter s = Some m"
    and "0 \<le> c" and "c < m - 32" and "m \<le> MAX_COUNTER_VALUE_32BIT" and "32 < MAX_COUNTER_VALUE_32BIT - (m - c)"
  shows "updateMessageCounter c s = Inr (s\<lparr>rs_maximumMessageCounter := Some c, rs_messageCounterBitmap := 0\<rparr>)"
proof -
  have "calculateDiff c s = MAX_COUNTER_VALUE_32BIT + (c - m)"
    using assms by (simp add: calculateDiff_def diff_UnencryptedWithRollover_def MSG_COUNTER_WINDOW_SIZE_def)
  with assms show ?thesis
    by (simp add: step_simps calculateMessageCounterBitmap_def MSG_COUNTER_WINDOW_SIZE_def
        js_ushr_0 to_uint32_def)
qed

text \<open>
  At the rollover itself the distance is off by one.  With the maximum at its limit, the next
  counter, 0, has distance 0: it is accepted, and nothing is recorded.
\<close>

theorem unencrypted_rollover_not_recorded:
  assumes "rs_kind s = UnencryptedWithRollover"
    and "rs_maximumMessageCounter s = Some MAX_COUNTER_VALUE_32BIT"
    and "0 \<le> rs_messageCounterBitmap s" and "rs_messageCounterBitmap s < 2 ^ 32"
  shows "updateMessageCounter 0 s = Inr s"
proof -
  have "calculateDiff 0 s = 0"
    using assms by (simp add: calculateDiff_def diff_UnencryptedWithRollover_def MSG_COUNTER_WINDOW_SIZE_def
        MAX_COUNTER_VALUE_32BIT_def)
  with assms show ?thesis
    by (simp add: updateMessageCounter_def updateMessageCounterAndBitmap_def
        calculateMessageCounterBitmap_def MSG_COUNTER_WINDOW_SIZE_def
        MAX_COUNTER_VALUE_32BIT_def js_ushr_0 to_uint32_id)
qed

theorem unencrypted_rollover_not_recorded_witness:
  "updateMessageCounter 0 \<lparr>rs_kind = UnencryptedWithRollover,
     rs_maximumMessageCounter = Some MAX_COUNTER_VALUE_32BIT, rs_messageCounterBitmap = 5\<rparr> =
   Inr \<lparr>rs_kind = UnencryptedWithRollover,
     rs_maximumMessageCounter = Some MAX_COUNTER_VALUE_32BIT, rs_messageCounterBitmap = 5\<rparr>"
  by (rule unencrypted_rollover_not_recorded) simp_all

subsection \<open>A gap of exactly the window size\<close>

text \<open>
  JavaScript shifts count modulo 32, so for a diff of 32 the bitmap is not shifted at all: the
  bits of the old window stay and now stand for counters that were never received.
\<close>

lemma bitmap_gap_32:
  assumes "0 \<le> b" and "b < 2 ^ 32"
  shows "\<exists>b'. calculateMessageCounterBitmap b 32 = Inr b' \<and> (\<forall>k < 32. bit b' k \<longleftrightarrow> bit b k \<or> k = 31)"
  using calculateMessageCounterBitmap_ahead [of 32 b] by auto

text \<open>
  After a gap of exactly 32, every one of the 31 counters in the gap is rejected as a duplicate
  although it was never received.
\<close>

theorem gap_32_false_duplicates:
  assumes "rs_kind s = EncryptedWithoutRollover" and "rs_maximumMessageCounter s = Some m"
    and "rs_messageCounterBitmap s = 0xffffffff" and "0 \<le> m" and "m + 32 \<le> MAX_COUNTER_VALUE_32BIT"
    and "m < c" and "c < m + 32"
  shows "\<exists>s'. updateMessageCounter (m + 32) s = Inr s' \<and>
    updateMessageCounter c s' = Inl DuplicateMessageError"
proof -
  obtain b' where b: "calculateMessageCounterBitmap 0xffffffff 32 = Inr b'"
    and b': "\<And>k. k < 32 \<Longrightarrow> bit b' k \<longleftrightarrow> bit (0xffffffff :: int) k \<or> k = 31"
    using bitmap_gap_32 [of "0xffffffff"] by auto
  have ones: "bit (0xffffffff :: int) k" if "k < 32" for k
  proof -
    have "(0xffffffff :: int) = mask 32" by (simp add: mask_eq_exp_minus_1)
    with that show ?thesis by (simp only: bit_mask_iff) simp
  qed
  let ?s' = "s\<lparr>rs_messageCounterBitmap := b', rs_maximumMessageCounter := Some (m + 32)\<rparr>"
  have "calculateDiff (m + 32) s = 32" and "calculateDiff c ?s' = c - m - 32"
    using assms by (simp_all add: calculateDiff_def diff_EncryptedWithoutRollover_def)
  moreover have "bit b' (nat (- (c - m - 32) - 1))"
    using assms b' [of "nat (31 + m - c)"] ones [of "nat (31 + m - c)"]
    by (simp add: nat_less_iff algebra_simps)
  ultimately have "updateMessageCounter (m + 32) s = Inr ?s'"
    and "updateMessageCounter c ?s' = Inl DuplicateMessageError"
    using assms b updateMessageCounter_window [of ?s' "m + 32" c "c - m - 32"]
    by (simp_all add: step_simps)
  then show ?thesis by blast
qed

theorem gap_32_false_duplicates_witness:
  "\<exists>s'. updateMessageCounter 132 (new_MessageReceptionState EncryptedWithoutRollover (Some 100)) = Inr s' \<and>
     updateMessageCounter 117 s' = Inl DuplicateMessageError"
  using gap_32_false_duplicates [of "new_MessageReceptionState EncryptedWithoutRollover (Some 100)" 100 117]
  by (simp add: new_MessageReceptionState_def rs_initialize_def MAX_COUNTER_VALUE_32BIT_def)

section \<open>Properties\<close>

text \<open>The counters a restart sees: run \<open>n\<close> calls of the persisted counter against its storage.\<close>

fun persisted_issue ::
  "nat \<Rightarrow> counter_storage \<Rightarrow> PersistedMessageCounter \<Rightarrow>
     counter_storage \<times> PersistedMessageCounter \<times> int result list" where
  "persisted_issue 0 st p = (st, p, [])"
| "persisted_issue (Suc n) st p =
     (let (st1, p1, _, v) = persisted_getIncrementedCounter st p;
          (st2, p2, vs) = persisted_issue n st1 p1
      in (st2, p2, v # vs))"

lemma persisted_step:
  assumes "getIncrementedCounter (pc_counter p) = (c1, cb, v)"
  shows "persisted_getIncrementedCounter st p =
    (case v of Inl e \<Rightarrow> st | Inr x \<Rightarrow> st(pc_storageKey p \<mapsto> x), p\<lparr>pc_counter := c1\<rparr>, cb, v)"
  using assms by (simp add: persisted_getIncrementedCounter_def split: sum.split)

lemma persisted_issue_eq:
  "persisted_issue n st p = (st', p', vs) \<Longrightarrow>
     pc_storageKey p' = pc_storageKey p \<and> pc_counter p' = fst (issue n (pc_counter p)) \<and>
     vs = snd (issue n (pc_counter p))"
proof (induction n arbitrary: st p st' p' vs)
  case 0
  then show ?case by simp
next
  case (Suc n)
  obtain c1 cb v where g: "getIncrementedCounter (pc_counter p) = (c1, cb, v)"
    by (cases "getIncrementedCounter (pc_counter p)")
  obtain st1 p1 where q: "persisted_getIncrementedCounter st p = (st1, p1, cb, v)"
      and p1: "pc_counter p1 = c1" "pc_storageKey p1 = pc_storageKey p"
    by (rule that [OF persisted_step [OF g]]) simp_all
  obtain st2 p2 ws where r: "persisted_issue n st1 p1 = (st2, p2, ws)"
    by (cases "persisted_issue n st1 p1")
  from Suc.IH [OF r] p1 g q r Suc.prems show ?case
    by (simp add: split_beta)
qed

lemma persisted_issue_stored:
  assumes "mc_hasCallback (pc_counter p)" and "mc_inv (pc_counter p)"
    and "persisted_issue (Suc n) st p = (st', p', vs)"
  shows "st' (pc_storageKey p) = Some (mc_messageCounter (pc_counter p'))"
  using assms
proof (induction n arbitrary: st p st' p' vs)
  case 0
  then show ?case
    by (auto simp: persisted_getIncrementedCounter_def getIncrementedCounter_def Let_def split: if_splits)
next
  case (Suc n)
  obtain c1 cb v where g: "getIncrementedCounter (pc_counter p) = (c1, cb, v)"
    by (cases "getIncrementedCounter (pc_counter p)")
  obtain st1 p1 where q: "persisted_getIncrementedCounter st p = (st1, p1, cb, v)"
      and p1: "pc_counter p1 = c1" "pc_storageKey p1 = pc_storageKey p"
    by (rule that [OF persisted_step [OF g]]) simp_all
  obtain st2 p2 ws where r: "persisted_issue (Suc n) st1 p1 = (st2, p2, ws)"
    by (cases "persisted_issue (Suc n) st1 p1")
  from q r Suc.prems(3) have "st' = st2" "p' = p2"
    by (simp_all add: split_beta)
  with Suc.IH [OF _ _ r] p1 g Suc.prems(1,2) getIncrementedCounter_callback [OF g]
    getIncrementedCounter_inv [OF g] show ?case by simp
qed

lemma issue_callback: "mc_hasCallback (fst (issue n c)) = mc_hasCallback c \<and>
    mc_rolloverInfoDifference (fst (issue n c)) = mc_rolloverInfoDifference c"
proof (induction n arbitrary: c)
  case 0
  then show ?case by simp
next
  case (Suc n)
  obtain c1 cb v where g: "getIncrementedCounter c = (c1, cb, v)"
    by (cases "getIncrementedCounter c")
  with Suc [of c1] getIncrementedCounter_callback [OF g] show ?case
    by (simp add: split_beta)
qed

lemma issue_counter_range:
  "mc_hasCallback c \<Longrightarrow> mc_inv c \<Longrightarrow>
     mc_inv (fst (issue (Suc n) c)) \<and> mc_messageCounter (fst (issue (Suc n) c)) \<le> MAX_COUNTER_VALUE_32BIT"
proof (induction n arbitrary: c)
  case 0
  then show ?case
    by (auto simp: getIncrementedCounter_def mc_inv_def MAX_COUNTER_VALUE_32BIT_def Let_def split_beta)
next
  case (Suc n)
  obtain c1 cb v where g: "getIncrementedCounter c = (c1, cb, v)"
    by (cases "getIncrementedCounter c")
  have "mc_hasCallback c1" "mc_inv c1"
    using getIncrementedCounter_callback [OF g] getIncrementedCounter_inv [OF g] Suc.prems by auto
  from Suc.IH [OF this] show ?case
    by (simp add: g split_beta)
qed

lemma known_new: "known_without_rollover (new_MessageReceptionState EncryptedWithoutRollover start) (set_option start)"
  by (cases start)
    (simp_all add: known_without_rollover_def new_MessageReceptionState_def rs_initialize_def)

text \<open>
  The next counter of a sender as the receiver understands it: any greater one without rollover, one less than half the range ahead
  of a rolling counter, and for unencrypted messages one that is not within the window below the end of the range.
\<close>

fun in_order :: "reception_kind \<Rightarrow> int \<Rightarrow> int \<Rightarrow> bool" where
  "in_order EncryptedWithoutRollover m c = (m < c)"
| "in_order EncryptedWithRollover m c = (0 < (c - m) mod counter_modulus \<and> (c - m) mod counter_modulus < 2 ^ 31 - 1)"
| "in_order UnencryptedWithRollover m c = (m < c \<and> c - m \<le> MAX_COUNTER_VALUE_32BIT - MSG_COUNTER_WINDOW_SIZE)"

lemma counter_distance:
  assumes "0 \<le> m" and "m \<le> MAX_COUNTER_VALUE_32BIT" and "0 \<le> c" and "c \<le> MAX_COUNTER_VALUE_32BIT"
  shows "(c - m) mod counter_modulus = (if m \<le> c then c - m else c - m + counter_modulus)"
proof (cases "m \<le> c")
  case True
  with assms show ?thesis by (simp add: MAX_COUNTER_VALUE_32BIT_def)
next
  case False
  have "(c - m) mod counter_modulus = (c - m + counter_modulus) mod counter_modulus" by simp
  also have "\<dots> = c - m + counter_modulus" using assms False by (intro mod_pos_pos_trivial) simp_all
  finally show ?thesis using False by simp
qed

lemma in_order_diff:
  assumes "in_order (rs_kind s) m c" and "rs_maximumMessageCounter s = Some m"
    and "0 \<le> m" and "m \<le> MAX_COUNTER_VALUE_32BIT" and "0 \<le> c" and "c \<le> MAX_COUNTER_VALUE_32BIT"
  shows "m \<noteq> c \<and> 0 < calculateDiff c s"
  using assms counter_distance [OF assms(3-6)]
  by (cases "rs_kind s")
    (auto simp: calculateDiff_def diff_EncryptedWithoutRollover_def diff_EncryptedWithRollover_def diff_UnencryptedWithRollover_def
      MAX_COUNTER_INCREASE_2POW31_def MAX_COUNTER_VALUE_32BIT_def MSG_COUNTER_WINDOW_SIZE_def Let_def split: if_splits)

lemma in_order_accepted:
  assumes "\<forall>m. rs_maximumMessageCounter s = Some m \<longrightarrow> 0 \<le> m \<and> m \<le> MAX_COUNTER_VALUE_32BIT \<and> in_order (rs_kind s) m c"
    and "0 \<le> c" and "c \<le> MAX_COUNTER_VALUE_32BIT"
  shows "\<exists>s'. updateMessageCounter c s = Inr s' \<and> rs_kind s' = rs_kind s \<and> rs_maximumMessageCounter s' = Some c"
proof (cases "rs_maximumMessageCounter s")
  case None
  with assms show ?thesis
    by (simp add: updateMessageCounter_def updateMessageCounterAndBitmap_def rs_initialize_def)
next
  case (Some m)
  with assms in_order_diff [of s m c] have d: "m \<noteq> c" "0 < calculateDiff c s" by simp_all
  obtain b' where "calculateMessageCounterBitmap (rs_messageCounterBitmap s) (calculateDiff c s) = Inr b'"
    using calculateMessageCounterBitmap_ahead [OF d(2), of "rs_messageCounterBitmap s"] by blast
  with Some d assms(2,3) updateMessageCounter_window [OF Some d(1) assms(2,3) refl] show ?thesis by auto
qed

lemma ahead_accepted:
  assumes "rs_kind s = EncryptedWithoutRollover" and "\<forall>m. rs_maximumMessageCounter s = Some m \<longrightarrow> m < c"
    and "0 \<le> c" and "c \<le> MAX_COUNTER_VALUE_32BIT"
  shows "\<exists>s'. updateMessageCounter c s = Inr s' \<and> rs_kind s' = EncryptedWithoutRollover \<and>
    rs_maximumMessageCounter s' = Some c"
proof (cases "rs_maximumMessageCounter s")
  case None
  with assms in_order_accepted [of s c] show ?thesis by simp
next
  case (Some m)
  have d: "calculateDiff c s = c - m"
    using assms(1) Some by (simp add: calculateDiff_def diff_EncryptedWithoutRollover_def)
  obtain b' where "calculateMessageCounterBitmap (rs_messageCounterBitmap s) (c - m) = Inr b'"
    using calculateMessageCounterBitmap_ahead [of "c - m" "rs_messageCounterBitmap s"] assms(2) Some by auto
  with Some d assms updateMessageCounter_window [OF Some, of c "c - m"] show ?thesis
    by auto
qed

lemma receive_increasing:
  assumes "list_all (\<lambda>c. 0 \<le> c \<and> c \<le> MAX_COUNTER_VALUE_32BIT) (case rs_maximumMessageCounter s of None \<Rightarrow> ms | Some m \<Rightarrow> m # ms)"
    and "successively (in_order (rs_kind s)) (case rs_maximumMessageCounter s of None \<Rightarrow> ms | Some m \<Rightarrow> m # ms)"
  shows "snd (receive_all updateMessageCounter s ms) = ms"
  using assms
proof (induction ms arbitrary: s)
  case Nil
  then show ?case by simp
next
  case (Cons c ms)
  then obtain s' where s': "updateMessageCounter c s = Inr s'" "rs_kind s' = rs_kind s" "rs_maximumMessageCounter s' = Some c"
    using in_order_accepted [of s c] by (auto split: option.splits)
  with Cons.prems have "snd (receive_all updateMessageCounter s' ms) = ms"
    by (intro Cons.IH) (auto split: option.splits simp: successively_Cons)
  with s' show ?case by (simp add: split_beta)
qed

text \<open>
  C2. A receiver whose state has the kind \<^verbatim>\<open>MessageReceptionStateEncryptedWithoutRollover\<close> accepts no
  message counter twice, in whatever order and however often messages arrive: the accepted
  counters are pairwise distinct, were sent, and differ from the counter it started with.
\<close>

theorem receive_without_rollover:
  "distinct (snd (receive_all updateMessageCounter (new_MessageReceptionState EncryptedWithoutRollover start) ms)) \<and>
   set (snd (receive_all updateMessageCounter (new_MessageReceptionState EncryptedWithoutRollover start) ms))
     \<subseteq> set ms - set_option start"
  using without_rollover.no_replay [OF known_new, of start ms] by (fastforce simp: prod_eq_iff)

text \<open>
  C3. The same holds for \<^verbatim>\<open>MessageReceptionStateEncryptedWithRollover\<close> and a sender whose counter rolls
  over: of the messages, numbered without rollover, none is accepted twice as long as each is
  delivered within half the counter range of the highest one.
\<close>

theorem receive_with_rollover:
  "distinct (snd (receive_all deliver_unrolled (0, new_MessageReceptionState EncryptedWithRollover None) ms))"
proof -
  have "known_with_rollover (0, new_MessageReceptionState EncryptedWithRollover None) {}"
    by (simp add: known_with_rollover_def new_MessageReceptionState_def)
  from with_rollover.no_replay [OF this, of ms] show ?thesis
    by (fastforce simp: prod_eq_iff)
qed

text \<open>
  C24. Messages that arrive in the order of their counters are all accepted, by each of the three kinds of reception state, whether
  it starts empty or with a counter.  Without rollover the gaps do not matter; a rolling counter may be less than \<open>2 ^ 31 - 1\<close> ahead of the one before, across the
  rollover too; and an unencrypted one must not jump to within 32 of a whole range ahead.
\<close>

theorem receive_in_order:
  assumes "sent = (case start of None \<Rightarrow> ms | Some m \<Rightarrow> m # ms)" and "successively (in_order kind) sent"
    and "list_all (\<lambda>c. 0 \<le> c \<and> c \<le> MAX_COUNTER_VALUE_32BIT) sent"
  shows "snd (receive_all updateMessageCounter (new_MessageReceptionState kind start) ms) = ms"
proof -
  have "rs_kind (new_MessageReceptionState kind start) = kind \<and> rs_maximumMessageCounter (new_MessageReceptionState kind start) = start"
    by (cases start) (simp_all add: new_MessageReceptionState_def rs_initialize_def)
  with assms show ?thesis by (intro receive_increasing) simp_all
qed

theorem receive_in_order_witness:
  "snd (receive_all updateMessageCounter (new_MessageReceptionState EncryptedWithoutRollover None) [3, 7, 4000]) = [3, 7, 4000] \<and>
   snd (receive_all updateMessageCounter (new_MessageReceptionState EncryptedWithRollover (Some 0xfffffffd)) [0xfffffffe, 0, 2]) = [0xfffffffe, 0, 2] \<and>
   snd (receive_all updateMessageCounter (new_MessageReceptionState UnencryptedWithRollover (Some 5)) [6, 0x80000000]) = [6, 0x80000000]"
  using receive_in_order [OF refl, where kind = EncryptedWithoutRollover and start = None and ms = "[3, 7, 4000]"]
    receive_in_order [OF refl, where kind = EncryptedWithRollover and start = "Some 0xfffffffd" and ms = "[0xfffffffe, 0, 2]"]
    receive_in_order [OF refl, where kind = UnencryptedWithRollover and start = "Some 5" and ms = "[6, 0x80000000]"]
  by (simp add: MAX_COUNTER_VALUE_32BIT_def MSG_COUNTER_WINDOW_SIZE_def)

text \<open>
  A counter whose state was persisted goes on after a restart as if there had been none: with a
  rollover callback, the counters issued after the restart continue the sequence.
\<close>

theorem persisted_restart:
  assumes "persisted_issue (Suc n) st p = (st', p', vs)" and "mc_hasCallback (pc_counter p)"
    and "0 \<le> mc_messageCounter (pc_counter p)"
  shows "\<exists>q cb. new_PersistedMessageCounter st' (pc_storageKey p) rnd True
      (mc_rolloverInfoDifference (pc_counter p)) = Inr (q, cb) \<and> q = p'"
proof -
  let ?c = "fst (issue (Suc n) (pc_counter p))"
  have p': "pc_storageKey p' = pc_storageKey p" "pc_counter p' = ?c"
    using persisted_issue_eq [OF assms(1)] by simp_all
  have "st' (pc_storageKey p) = Some (mc_messageCounter ?c)"
    using persisted_issue_stored [OF assms(2) _ assms(1)] assms(3) p' by (simp add: mc_inv_def)
  moreover have "mc_inv ?c" "mc_messageCounter ?c \<le> MAX_COUNTER_VALUE_32BIT"
    using issue_counter_range [of "pc_counter p" n] assms(2,3) by (simp_all add: mc_inv_def)
  moreover have "mc_hasCallback ?c" "mc_rolloverInfoDifference ?c = mc_rolloverInfoDifference (pc_counter p)"
    using issue_callback [of "Suc n" "pc_counter p"] assms(2) by simp_all
  ultimately show ?thesis
    using p' by (cases p'; cases "pc_counter p'")
      (auto simp: new_PersistedMessageCounter_def new_MessageCounter_def mc_inv_def)
qed

theorem persisted_restart_witness:
  "\<exists>q cb st' p' vs.
     persisted_issue (Suc 0) Map.empty
       \<lparr>pc_counter = \<lparr>mc_messageCounter = 7, mc_hasCallback = True, mc_rolloverInfoDifference = 1000\<rparr>,
        pc_storageKey = ''k''\<rparr> = (st', p', vs) \<and>
     new_PersistedMessageCounter st' ''k'' 0 True 1000 = Inr (q, cb) \<and> q = p'"
proof -
  let ?p = "\<lparr>pc_counter = \<lparr>mc_messageCounter = 7, mc_hasCallback = True, mc_rolloverInfoDifference = 1000\<rparr>,
    pc_storageKey = ''k''\<rparr>"
  obtain st' p' vs where i: "persisted_issue (Suc 0) Map.empty ?p = (st', p', vs)"
    by (cases "persisted_issue (Suc 0) Map.empty ?p")
  from persisted_restart [OF i, of 0] i show ?thesis
    by simp
qed

end
