(* ===== verification/JsFloat.thy ===== *)
theory JsFloat
  imports JsNumber
begin

text \<open>
  Non-integral numbers, which the sources only move between a \<^verbatim>\<open>DataView\<close> and their values: a
  number is held by the bits of its binary64 representation, and \<^verbatim>\<open>setFloat32\<close>/\<^verbatim>\<open>getFloat32\<close>
  convert to and from binary32 as IEEE 754 prescribes (exact widening, rounding half to even).
  JavaScript has one NaN value; it is held by its canonical quiet bit pattern.
\<close>

definition NAN64 :: int where "NAN64 = 0x7ff8000000000000"
definition NAN32 :: int where "NAN32 = 0x7fc00000"

definition f32_widen :: "int \<Rightarrow> int" where
  "f32_widen x =
     (let s = x div 2 ^ 31; e = x div 2 ^ 23 mod 2 ^ 8; m = x mod 2 ^ 23 in
      if e = 255 then (if m = 0 then s * 2 ^ 63 + 2047 * 2 ^ 52 else NAN64)
      else if e = 0 then
        (if m = 0 then s * 2 ^ 63
         else let k = bit_length (nat m) - 1 in
              s * 2 ^ 63 + (int k + 874) * 2 ^ 52 + (m - 2 ^ k) * 2 ^ (52 - k))
      else s * 2 ^ 63 + (e + 896) * 2 ^ 52 + m * 2 ^ 29)"

definition f64_narrow :: "int \<Rightarrow> int" where
  "f64_narrow x =
     (let s = x div 2 ^ 63; e = x div 2 ^ 52 mod 2 ^ 11; m = x mod 2 ^ 52 in
      if e = 2047 then (if m = 0 then s * 2 ^ 31 + 255 * 2 ^ 23 else NAN32)
      else
        let sig = (if e = 0 then m else 2 ^ 52 + m);
            E = max e 1 - 1023;
            q = max (E - 23) (- 149);
            n = round_shift sig (nat (q - E + 52))
        in s * 2 ^ 31 + min ((q + 149) * 2 ^ 23 + n) (255 * 2 ^ 23))"

definition f64_canonical :: "int \<Rightarrow> int" where
  "f64_canonical x =
     (if x div 2 ^ 52 mod 2 ^ 11 = 2047 \<and> x mod 2 ^ 52 \<noteq> 0 then NAN64 else x)"

lemma round_shift_exact: "round_shift (x * 2 ^ s) s = x"
  by (simp add: round_shift_def Let_def)

lemma div_split_fields:
  fixes a b c :: int
  assumes "0 \<le> c" and "c < 2 ^ k" and "0 \<le> b" and "b < 2 ^ l"
  shows "(a * 2 ^ (l + k) + b * 2 ^ k + c) div 2 ^ (l + k) = a"
    and "(a * 2 ^ (l + k) + b * 2 ^ k + c) div 2 ^ k mod 2 ^ l = b"
    and "(a * 2 ^ (l + k) + b * 2 ^ k + c) mod 2 ^ k = c"
proof -
  have eq: "a * 2 ^ (l + k) + b * 2 ^ k + c = c + (a * 2 ^ l + b) * 2 ^ k"
    by (simp add: power_add algebra_simps)
  have q: "(a * 2 ^ (l + k) + b * 2 ^ k + c) div 2 ^ k = b + a * 2 ^ l"
    unfolding eq using assms by simp
  show "(a * 2 ^ (l + k) + b * 2 ^ k + c) div 2 ^ k mod 2 ^ l = b"
    using assms by (simp add: q)
  show "(a * 2 ^ (l + k) + b * 2 ^ k + c) mod 2 ^ k = c"
    unfolding eq using assms by simp
  have "(a * 2 ^ (l + k) + b * 2 ^ k + c) div 2 ^ (l + k)
      = (a * 2 ^ (l + k) + b * 2 ^ k + c) div 2 ^ k div 2 ^ l"
    by (simp add: power_add zdiv_zmult2_eq mult.commute)
  then show "(a * 2 ^ (l + k) + b * 2 ^ k + c) div 2 ^ (l + k) = a"
    using assms by (simp add: q)
qed

lemma bit_length_bounds: "0 < n \<Longrightarrow> 2 ^ (bit_length n - 1) \<le> n \<and> n < 2 ^ bit_length n"
proof (induction n rule: bit_length.induct)
  case (1 n)
  show ?case
  proof (cases "n = 1")
    case True
    then show ?thesis by (simp add: bit_length.simps [of "Suc 0"] bit_length.simps [of 0])
  next
    case False
    with 1 have pos: "0 < n div 2" by simp
    let ?l = "bit_length (n div 2)"
    have l: "bit_length n = Suc ?l" using 1 by (simp add: bit_length.simps [of n])
    have "?l \<noteq> 0" using pos by (simp add: bit_length.simps [of "n div 2"])
    then obtain j where j: "?l = Suc j" by (cases ?l) auto
    have "2 ^ j \<le> n div 2 \<and> n div 2 < 2 ^ Suc j"
      using 1 pos j by simp
    then show ?thesis by (simp add: l j) linarith
  qed
qed

lemma f64_narrow_fields:
  assumes "0 \<le> m" and "m < 2 ^ 52" and "0 \<le> e" and "e < 2047"
    and sig: "(if e = 0 then m else 2 ^ 52 + m) = n * 2 ^ nat (q - E + 52)"
    and E: "E = max e 1 - 1023" and q: "q = max (E - 23) (- 149)"
  shows "f64_narrow (s * 2 ^ (11 + 52) + e * 2 ^ 52 + m) =
    s * 2 ^ 31 + min ((q + 149) * 2 ^ 23 + n) (255 * 2 ^ 23)"
proof -
  let ?x = "s * 2 ^ (11 + 52) + e * 2 ^ 52 + m"
  have "?x div 2 ^ 63 = s" and "?x div 2 ^ 52 mod 2 ^ 11 = e" and "?x mod 2 ^ 52 = m"
    using div_split_fields [of m 52 e 11 s] assms(1-4) by simp_all
  then show ?thesis
    using assms(4) by (simp only: f64_narrow_def Let_def sig round_shift_exact flip: E q) simp
qed

text \<open>Narrowing a widened single returns its bits, for every single that is not a NaN.\<close>

theorem f64_narrow_widen:
  assumes "0 \<le> x" and "x < 2 ^ 32" and "\<not> (x div 2 ^ 23 mod 2 ^ 8 = 255 \<and> x mod 2 ^ 23 \<noteq> 0)"
  shows "f64_narrow (f32_widen x) = x"
proof -
  define s e m where "s = x div 2 ^ 31" and "e = x div 2 ^ 23 mod 2 ^ 8" and "m = x mod 2 ^ 23"
  have "x div 2 ^ 31 = x div 2 ^ 23 div 2 ^ 8"
    by (simp add: zdiv_zmult2_eq [symmetric])
  then have "x div 2 ^ 23 = s * 2 ^ 8 + e" and "x = x div 2 ^ 23 * 2 ^ 23 + m"
    by (simp_all add: s_def e_def m_def)
  then have "x = (s * 2 ^ 8 + e) * 2 ^ 23 + m" by simp
  then have x: "x = s * 2 ^ 31 + e * 2 ^ 23 + m" by simp
  have m: "0 \<le> m" "m < 2 ^ 23" and e: "0 \<le> e" "e < 2 ^ 8"
    unfolding m_def e_def by simp_all
  have w: "f32_widen x =
     (if e = 255 then (if m = 0 then s * 2 ^ 63 + 2047 * 2 ^ 52 else NAN64)
      else if e = 0 then
        (if m = 0 then s * 2 ^ 63
         else let k = bit_length (nat m) - 1 in
              s * 2 ^ 63 + (int k + 874) * 2 ^ 52 + (m - 2 ^ k) * 2 ^ (52 - k))
      else s * 2 ^ 63 + (e + 896) * 2 ^ 52 + m * 2 ^ 29)"
    unfolding f32_widen_def Let_def s_def e_def m_def by (rule refl)
  have nan: "e = 255 \<Longrightarrow> m = 0"
    using assms(3) unfolding e_def m_def by simp
  consider "e = 255" | "e = 0" "m = 0" | "e = 0" "m \<noteq> 0" | "0 < e" "e < 255"
    using e by fastforce
  then show ?thesis
  proof cases
    case 1
    have "f64_narrow (s * 2 ^ 63 + 2047 * 2 ^ 52) = s * 2 ^ 31 + 255 * 2 ^ 23"
      using div_split_fields [of 0 52 2047 11 s] by (simp add: f64_narrow_def)
    with 1 nan w x show ?thesis by simp
  next
    case 2
    have "f64_narrow (s * 2 ^ (11 + 52) + 0 * 2 ^ 52 + 0) =
        s * 2 ^ 31 + min ((- 149 + 149) * 2 ^ 23 + 0) (255 * 2 ^ 23)"
      by (rule f64_narrow_fields [where E = "- 1022"]) auto
    moreover from 2 w have "f32_widen x = s * 2 ^ 63" and "x = s * 2 ^ 31"
      using x by simp_all
    ultimately show ?thesis by simp
  next
    case 3
    define k where "k = bit_length (nat m) - 1"
    have "2 ^ k \<le> nat m" and "nat m < 2 ^ Suc k"
      using bit_length_bounds [of "nat m"] 3 m
      by (auto simp: k_def bit_length.simps [of "nat m"])
    then have mk: "2 ^ k \<le> m" "m < 2 ^ Suc k"
      using m by (simp_all add: nat_le_iff le_nat_iff nat_less_iff)
    have k: "k \<le> 22"
    proof (rule ccontr)
      assume "\<not> k \<le> 22"
      then have "(2::int) ^ 23 \<le> 2 ^ k" by (intro power_increasing) auto
      with mk m show False by simp
    qed
    then have p: "(2::int) ^ k * 2 ^ (52 - k) = 2 ^ 52"
      by (simp flip: power_add)
    have "(m - 2 ^ k) * 2 ^ (52 - k) < 2 ^ k * 2 ^ (52 - k)"
      using mk by (intro mult_strict_right_mono) auto
    moreover have "2 ^ k * 2 ^ (52 - k) \<le> m * 2 ^ (52 - k)"
      using mk by (intro mult_right_mono) auto
    ultimately have "f64_narrow (s * 2 ^ (11 + 52) + (int k + 874) * 2 ^ 52 + (m - 2 ^ k) * 2 ^ (52 - k))
        = s * 2 ^ 31 + min ((- 149 + 149) * 2 ^ 23 + m) (255 * 2 ^ 23)"
      using mk k p
      by (intro f64_narrow_fields [where E = "int k - 149"])
        (auto simp: algebra_simps nat_diff_distrib nat_add_distrib)
    with 3 w x m show ?thesis by (simp add: k_def Let_def)
  next
    case 4
    have "f64_narrow (s * 2 ^ (11 + 52) + (e + 896) * 2 ^ 52 + m * 2 ^ 29)
        = s * 2 ^ 31 + min ((e - 150 + 149) * 2 ^ 23 + (2 ^ 23 + m)) (255 * 2 ^ 23)"
      using 4 m by (intro f64_narrow_fields [where E = "e - 127"]) auto
    with 4 w x m show ?thesis by (simp add: min_def)
  qed
qed

end
