(* ===== verification/Utf8.thy ===== *)
theory Utf8
  imports Prelude
begin

text \<open>
  The text encoding the sources reach through \<^verbatim>\<open>TextEncoder\<close> and \<^verbatim>\<open>TextDecoder\<close>, as the WHATWG
  encoding standard defines it.  A string is the list of its Unicode scalar values; its
  JavaScript length counts UTF-16 code units.  The decoder is the standard's state machine in
  its replacement mode, with the byte order mark removed, as \<^verbatim>\<open>new TextDecoder()\<close> does.
\<close>

type_synonym jsstring = "nat list"

definition scalar :: "nat \<Rightarrow> bool" where
  "scalar c \<longleftrightarrow> c < 0xD800 \<or> (0xE000 \<le> c \<and> c < 0x110000)"

definition utf16_units :: "nat \<Rightarrow> nat" where
  "utf16_units c = (if c < 0x10000 then 1 else 2)"

definition js_length :: "jsstring \<Rightarrow> nat" where
  "js_length s = sum_list (map utf16_units s)"

definition utf8_units :: "nat \<Rightarrow> nat list" where
  "utf8_units c =
     (if c < 0x80 then [c]
      else if c < 0x800 then [0xC0 + c div 64, 0x80 + c mod 64]
      else if c < 0x10000 then [0xE0 + c div 4096, 0x80 + c div 64 mod 64, 0x80 + c mod 64]
      else [0xF0 + c div 262144, 0x80 + c div 4096 mod 64, 0x80 + c div 64 mod 64, 0x80 + c mod 64])"

definition utf8_encode :: "jsstring \<Rightarrow> byte list" where
  "utf8_encode s = map of_nat (concat (map utf8_units s))"

definition replacement :: nat where
  "replacement = 0xFFFD"

text \<open>
  \<open>utf8_dec needed cp lower upper bytes\<close>: \<open>needed\<close> continuation bytes are outstanding for the
  code point collected in \<open>cp\<close>, and the next one has to lie between the two boundaries.
\<close>

fun utf8_dec :: "nat \<Rightarrow> nat \<Rightarrow> nat \<Rightarrow> nat \<Rightarrow> nat list \<Rightarrow> nat list" where
  "utf8_dec 0 cp lower upper [] = []"
| "utf8_dec (Suc k) cp lower upper [] = [replacement]"
| "utf8_dec 0 cp lower upper (b # bs) =
     (if b < 0x80 then b # utf8_dec 0 0 0x80 0xBF bs
      else if 0xC2 \<le> b \<and> b \<le> 0xDF then utf8_dec 1 (b - 0xC0) 0x80 0xBF bs
      else if 0xE0 \<le> b \<and> b \<le> 0xEF then
        utf8_dec 2 (b - 0xE0) (if b = 0xE0 then 0xA0 else 0x80) (if b = 0xED then 0x9F else 0xBF) bs
      else if 0xF0 \<le> b \<and> b \<le> 0xF4 then
        utf8_dec 3 (b - 0xF0) (if b = 0xF0 then 0x90 else 0x80) (if b = 0xF4 then 0x8F else 0xBF) bs
      else replacement # utf8_dec 0 0 0x80 0xBF bs)"
| "utf8_dec (Suc k) cp lower upper (b # bs) =
     (if b < lower \<or> upper < b then replacement # utf8_dec 0 0 0x80 0xBF (b # bs)
      else if k = 0 then (cp * 64 + b mod 64) # utf8_dec 0 0 0x80 0xBF bs
      else utf8_dec k (cp * 64 + b mod 64) 0x80 0xBF bs)"

definition strip_bom :: "nat list \<Rightarrow> nat list" where
  "strip_bom bs = (if take 3 bs = [0xEF, 0xBB, 0xBF] then drop 3 bs else bs)"

definition utf8_decode :: "byte list \<Rightarrow> jsstring" where
  "utf8_decode bs = utf8_dec 0 0 0x80 0xBF (strip_bom (map unat bs))"

section \<open>Encoding and decoding are inverse\<close>

lemma utf8_units_byte: "c < 0x110000 \<Longrightarrow> b \<in> set (utf8_units c) \<Longrightarrow> b < 256"
  by (auto simp: utf8_units_def split: if_splits)

lemma utf8_dec_1:
  assumes "0x80 \<le> c" and "c < 0x800"
  shows "utf8_dec 0 cp lo up (utf8_units c @ bs) = c # utf8_dec 0 0 0x80 0xBF bs"
proof -
  have "c div 64 < 32" and "2 \<le> c div 64" using assms by auto
  moreover have "c div 64 * 64 + (0x80 + c mod 64) mod 64 = c"
    by (simp add: mod_add_eq [symmetric])
  ultimately show ?thesis
    using assms by (simp add: utf8_units_def)
qed

text \<open>The base 64 digits of a code point.\<close>

lemma base64_digits:
  fixes c :: nat
  shows "c = (c div 4096 * 64 + c div 64 mod 64) * 64 + c mod 64"
    and "c = ((c div 262144 * 64 + c div 4096 mod 64) * 64 + c div 64 mod 64) * 64 + c mod 64"
proof -
  have "c div 4096 = c div 64 div 64" and "c div 262144 = c div 4096 div 64"
    by (simp_all add: div_mult2_eq [symmetric])
  then have q: "c div 64 = c div 4096 * 64 + c div 64 mod 64"
    and l: "c div 4096 = c div 262144 * 64 + c div 4096 mod 64"
    by simp_all
  have "c = c div 64 * 64 + c mod 64" by simp
  also have "c div 64 = c div 4096 * 64 + c div 64 mod 64" by (rule q)
  finally show 1: "c = (c div 4096 * 64 + c div 64 mod 64) * 64 + c mod 64" .
  also have "c div 4096 = c div 262144 * 64 + c div 4096 mod 64" by (rule l)
  finally show "c = ((c div 262144 * 64 + c div 4096 mod 64) * 64 + c div 64 mod 64) * 64 + c mod 64" .
qed

lemma utf8_dec_2:
  assumes "0x800 \<le> c" and "c < 0x10000" and "scalar c"
  shows "utf8_dec 0 cp lo up (utf8_units c @ bs) = c # utf8_dec 0 0 0x80 0xBF bs"
proof -
  define b m r where "b = c div 4096" and "m = c div 64 mod 64" and "r = c mod 64"
  have c: "c = (b * 64 + m) * 64 + r" and lt: "m < 64" "r < 64"
    unfolding b_def m_def r_def by (rule base64_digits) simp_all
  have b: "b < 16" using assms(2) c by simp
  have lo: "32 \<le> m" if "b = 0" using assms(1) c lt that by simp
  have up: "m < 32" if "b = 13" using assms(3) c lt that by (auto simp: scalar_def)
  have "utf8_units c = [0xE0 + b, 0x80 + m, 0x80 + r]"
    using assms by (simp add: utf8_units_def b_def m_def r_def)
  then show ?thesis
    using b lo up lt by (auto simp: numeral_2_eq_2 c mod_add_eq [of "128::nat" 64, symmetric])
qed

lemma utf8_dec_3:
  assumes "0x10000 \<le> c" and "c < 0x110000"
  shows "utf8_dec 0 cp lo up (utf8_units c @ bs) = c # utf8_dec 0 0 0x80 0xBF bs"
proof -
  define b l m r where "b = c div 262144" and "l = c div 4096 mod 64" and "m = c div 64 mod 64"
    and "r = c mod 64"
  have c: "c = ((b * 64 + l) * 64 + m) * 64 + r" and lt: "l < 64" "m < 64" "r < 64"
    unfolding b_def l_def m_def r_def by (rule base64_digits) simp_all
  have b: "b < 5" using assms(2) c by simp
  have lo: "16 \<le> l" if "b = 0" using assms(1) c lt that by simp
  have up: "l < 16" if "b = 4" using assms(2) c lt that by simp
  have "utf8_units c = [0xF0 + b, 0x80 + l, 0x80 + m, 0x80 + r]"
    using assms by (simp add: utf8_units_def b_def l_def m_def r_def)
  then show ?thesis
    using b lo up lt by (auto simp: numeral_3_eq_3 c mod_add_eq [of "128::nat" 64, symmetric])
qed

lemma utf8_dec_units:
  assumes "scalar c"
  shows "utf8_dec 0 cp lo up (utf8_units c @ bs) = c # utf8_dec 0 0 0x80 0xBF bs"
proof -
  consider "c < 0x80" | "0x80 \<le> c" "c < 0x800" | "0x800 \<le> c" "c < 0x10000" | "0x10000 \<le> c"
    by linarith
  then show ?thesis
  proof cases
    case 1
    then show ?thesis by (simp add: utf8_units_def)
  next
    case 2
    then show ?thesis by (rule utf8_dec_1)
  next
    case 3
    then show ?thesis using assms by (rule utf8_dec_2)
  next
    case 4
    then show ?thesis using assms by (intro utf8_dec_3) (auto simp: scalar_def)
  qed
qed

lemma utf8_dec_concat:
  "list_all scalar s \<Longrightarrow> utf8_dec 0 cp lo up (concat (map utf8_units s)) = s"
  by (induction s arbitrary: cp lo up) (auto simp: utf8_dec_units)

lemma map_unat_utf8_encode:
  assumes "list_all scalar s"
  shows "map unat (utf8_encode s) = concat (map utf8_units s)"
proof -
  have "b < 256" if "b \<in> set (concat (map utf8_units s))" for b
  proof -
    from that obtain c where "c \<in> set s" and "b \<in> set (utf8_units c)"
      by auto
    with assms show ?thesis
      by (intro utf8_units_byte [of c]) (auto simp: list_all_iff scalar_def)
  qed
  then have "map (unat \<circ> (of_nat :: nat \<Rightarrow> byte)) (concat (map utf8_units s)) = concat (map utf8_units s)"
    by (intro map_idI) (simp add: unat_of_nat)
  then show ?thesis
    by (simp add: utf8_encode_def)
qed

text \<open>Only the byte order mark itself encodes to the three bytes the decoder strips.\<close>

lemma utf8_units_bom:
  assumes "scalar c" and "take 3 (utf8_units c @ bs) = [0xEF, 0xBB, 0xBF]"
  shows "c = 0xFEFF"
proof -
  note c = base64_digits(1) [of c]
  show ?thesis
  proof (cases "0x800 \<le> c \<and> c < 0x10000")
    case True
    then have "c div 4096 = 15 \<and> c div 64 mod 64 = 59 \<and> c mod 64 = 63"
      using assms(2) by (simp add: utf8_units_def numeral_3_eq_3)
    with c show ?thesis by simp
  next
    case False
    then show ?thesis
      using assms by (auto simp: utf8_units_def scalar_def numeral_3_eq_3 split: if_splits)
  qed
qed

theorem utf8_decode_encode:
  assumes "list_all scalar s" and "s = [] \<or> hd s \<noteq> 0xFEFF"
  shows "utf8_decode (utf8_encode s) = s"
proof -
  have "strip_bom (concat (map utf8_units s)) = concat (map utf8_units s)"
    using assms by (cases s) (auto simp: strip_bom_def dest: utf8_units_bom)
  then show ?thesis
    using assms by (simp add: utf8_decode_def map_unat_utf8_encode utf8_dec_concat)
qed

lemma js_length_le_utf8: "js_length s \<le> length (utf8_encode s)"
proof (induction s)
  case Nil
  then show ?case by (simp add: js_length_def utf8_encode_def)
next
  case (Cons c s)
  have "utf16_units c \<le> length (utf8_units c)"
    by (simp add: utf16_units_def utf8_units_def)
  with Cons show ?case by (simp add: js_length_def utf8_encode_def)
qed

lemma utf8_encode_ascii: "list_all (\<lambda>c. c < 0x80) s \<Longrightarrow> length (utf8_encode s) = js_length s"
  by (induction s) (auto simp: js_length_def utf8_encode_def utf8_units_def utf16_units_def)

end
