(* ===== verification/ByteIO.thy ===== *)
theory ByteIO
  imports JsFloat Utf8
begin

text \<open>
  Byte arrays, \<^verbatim>\<open>util/ByteArray.ts\<close>, and the two cursors every codec of the program is written
  with: \<^verbatim>\<open>DataReader\<close> (\<^verbatim>\<open>util/DataReader.ts\<close>) and \<^verbatim>\<open>DataWriter\<close> (\<^verbatim>\<open>util/DataWriter.ts\<close>).  The cursors
  are records; an operation that moves them returns the new record.  The locale \<open>field_codec\<close>
  states the law the codecs rely on, that reading a field returns what was written and leaves
  the bytes behind it, and is interpreted for every pair of field operations.
\<close>

section \<open>Byte arrays\<close>

definition hex_digit :: "nat \<Rightarrow> char" where
  "hex_digit d = (if d < 10 then char_of (48 + d) else char_of (87 + d))"

text \<open>\<^verbatim>\<open>byte.toString(16).padStart(2, "0")\<close>\<close>

definition hex_byte :: "byte \<Rightarrow> string" where
  "hex_byte b = [hex_digit (unat b div 16), hex_digit (unat b mod 16)]"

definition toHex :: "byte list \<Rightarrow> string" where
  "toHex bs = concat (map hex_byte bs)"

definition byte_equals :: "byte list \<Rightarrow> byte list \<Rightarrow> bool" where
  "byte_equals this other =
     (if length other \<noteq> length this then False
      else list_all (\<lambda>i. other ! i = this ! i) [0..<length this])"

text \<open>The matches of \<^verbatim>\<open>/.{1,2}/g\<close>: pairs of characters, where a line terminator matches nothing.\<close>

definition line_terminator :: "char \<Rightarrow> bool" where
  "line_terminator c \<longleftrightarrow> c = CHR 0x0A \<or> c = CHR 0x0D"

fun match_pairs :: "string \<Rightarrow> string list" where
  "match_pairs [] = []"
| "match_pairs [c] = (if line_terminator c then [] else [[c]])"
| "match_pairs (c # d # cs) =
     (if line_terminator c then match_pairs (d # cs)
      else if line_terminator d then [c] # match_pairs cs
      else [c, d] # match_pairs cs)"

definition hex_value :: "char \<Rightarrow> nat option" where
  "hex_value c =
     (let n = of_char c :: nat in
      if 48 \<le> n \<and> n \<le> 57 then Some (n - 48)
      else if 97 \<le> n \<and> n \<le> 102 then Some (n - 87)
      else if 65 \<le> n \<and> n \<le> 70 then Some (n - 55)
      else None)"

fun parse_hex_digits :: "string \<Rightarrow> nat option \<Rightarrow> nat option" where
  "parse_hex_digits [] acc = acc"
| "parse_hex_digits (c # cs) acc =
     (case hex_value c of None \<Rightarrow> acc
      | Some d \<Rightarrow> parse_hex_digits cs (Some ((case acc of None \<Rightarrow> 0 | Some a \<Rightarrow> a) * 16 + d)))"

definition js_space :: "char \<Rightarrow> bool" where
  "js_space c \<longleftrightarrow> c \<in> {CHR 0x09, CHR 0x0A, CHR 0x0B, CHR 0x0C, CHR 0x0D, CHR 0x20, CHR 0xA0}"

text \<open>\<^verbatim>\<open>parseInt(s, 16)\<close>: leading blanks, a sign and a \<^verbatim>\<open>0x\<close> prefix are skipped; \<open>None\<close> is NaN.\<close>

definition parseInt16 :: "string \<Rightarrow> int option" where
  "parseInt16 s =
     (let t = dropWhile js_space s;
          neg = (t \<noteq> [] \<and> hd t = CHR ''-'');
          u = (if t \<noteq> [] \<and> (hd t = CHR ''-'' \<or> hd t = CHR ''+'') then tl t else t);
          v = (if take 2 u = ''0x'' \<or> take 2 u = ''0X'' then drop 2 u else u)
      in map_option (\<lambda>n. if neg then - int n else int n) (parse_hex_digits v None))"

text \<open>Storing NaN into a \<^verbatim>\<open>Uint8Array\<close> stores 0, other numbers are stored modulo 256.\<close>

definition to_uint8 :: "int option \<Rightarrow> byte" where
  "to_uint8 v = (case v of None \<Rightarrow> 0 | Some n \<Rightarrow> word_of_int n)"

definition fromHex :: "string \<Rightarrow> byte list result" where
  "fromHex s =
     (if s = [] then Inr []
      else if length s mod 2 \<noteq> 0 then Inl UnexpectedDataError
      else let bytes = match_pairs s in
           if bytes = [] then Inl UnexpectedDataError
           else Inr (map (\<lambda>p. to_uint8 (parseInt16 p)) bytes))"

definition fromString :: "jsstring \<Rightarrow> byte list" where
  "fromString s = utf8_encode s"

text \<open>\<^verbatim>\<open>Uint8Array.concat\<close>: allocate the sum of the lengths, then copy array after array.\<close>

fun copy_all :: "byte list list \<Rightarrow> nat \<Rightarrow> byte list \<Rightarrow> byte list result" where
  "copy_all [] off result = Inr result"
| "copy_all (a # as) off result =
     rbind (set_slice result a off) (copy_all as (off + length a))"

definition concat_arrays :: "byte list list \<Rightarrow> byte list result" where
  "concat_arrays arrays =
     (let len = fold (\<lambda>a n. n + length a) arrays 0
      in copy_all arrays 0 (replicate len 0))"

lemma fold_length: "fold (\<lambda>a n. n + length a) as n = n + length (concat as)"
  by (induction as arbitrary: n) auto

lemma copy_all_concat:
  "length rest = length (concat as) \<Longrightarrow>
     copy_all as (length done) (done @ rest) = Inr (done @ concat as)"
proof (induction as arbitrary: "done" rest)
  case Nil
  then show ?case by simp
next
  case (Cons a as)
  have "copy_all as (length (done @ a)) ((done @ a) @ drop (length a) rest) = Inr ((done @ a) @ concat as)"
    using Cons.prems by (intro Cons.IH) simp
  with Cons.prems show ?case
    by (simp add: set_slice_def)
qed

text \<open>The allocate-and-copy loop never runs out of its array and computes the concatenation.\<close>

theorem concat_arrays_eq [simp]: "concat_arrays arrays = Inr (concat arrays)"
  using copy_all_concat [of "replicate (length (concat arrays)) 0" arrays "[]"]
  by (simp add: concat_arrays_def fold_length)

lemma byte_equals_iff: "byte_equals a b \<longleftrightarrow> a = b"
  unfolding byte_equals_def list_eq_iff_nth_eq [of a b] by (auto simp: list_all_iff)

section \<open>Numbers as bytes\<close>

text \<open>
  The bytes \<^verbatim>\<open>DataView.setUint*\<close> and \<^verbatim>\<open>setInt*\<close> store for a number, least significant first; both
  convert the number modulo the width, so they store the same bytes.  \<open>le_uint\<close> and \<open>le_int\<close> are
  the values \<^verbatim>\<open>getUint*\<close> and \<^verbatim>\<open>getInt*\<close> read back.
\<close>

fun le_bytes :: "nat \<Rightarrow> int \<Rightarrow> byte list" where
  "le_bytes 0 v = []"
| "le_bytes (Suc n) v = word_of_int v # le_bytes n (v div 256)"

fun le_uint :: "byte list \<Rightarrow> int" where
  "le_uint [] = 0"
| "le_uint (b # bs) = uint b + 256 * le_uint bs"

definition le_int :: "byte list \<Rightarrow> int" where
  "le_int bs = signed_take_bit (8 * length bs - 1) (le_uint bs)"

lemma length_le_bytes [simp]: "length (le_bytes n v) = n"
  by (induction n arbitrary: v) auto

lemma le_uint_le_bytes: "le_uint (le_bytes n v) = take_bit (8 * n) v"
proof (induction n arbitrary: v)
  case 0
  then show ?case by simp
next
  case (Suc n)
  have "take_bit (8 + 8 * n) v = v mod 256 + 256 * (v div 256 mod 2 ^ (8 * n))"
    by (simp add: take_bit_eq_mod power_add zmod_zmult2_eq)
  with Suc show ?case
    by (simp add: uint_word_of_int take_bit_eq_mod)
qed

lemma le_uint_le_bytes_id: "0 \<le> v \<Longrightarrow> v < 2 ^ (8 * n) \<Longrightarrow> le_uint (le_bytes n v) = v"
  by (simp add: le_uint_le_bytes take_bit_int_eq_self)

lemma le_int_le_bytes_id:
  assumes "0 < n" and "- (2 ^ (8 * n - 1)) \<le> v" and "v < 2 ^ (8 * n - 1)"
  shows "le_int (le_bytes n v) = v"
proof -
  have "signed_take_bit (8 * n - 1) (take_bit (8 * n) v) = signed_take_bit (8 * n - 1) v"
    using assms(1) by (cases n) (simp_all add: signed_take_bit_take_bit)
  with assms show ?thesis
    by (simp add: le_int_def le_uint_le_bytes signed_take_bit_int_eq_self)
qed

lemma le_uint_range: "0 \<le> le_uint bs \<and> le_uint bs < 2 ^ (8 * length bs)"
proof (induction bs)
  case Nil
  then show ?case by simp
next
  case (Cons b bs)
  have "0 \<le> uint b" and "uint b < 256"
    using uint_lt2p [of b] by simp_all
  with Cons show ?case
    by (simp add: power_add)
qed

lemma le_bytes_le_uint: "length bs = n \<Longrightarrow> le_bytes n (le_uint bs) = bs"
proof (induction bs arbitrary: n)
  case Nil
  then show ?case by simp
next
  case (Cons b bs)
  have "uint b < 256" "0 \<le> uint b" using uint_lt2p [of b] by simp_all
  then have "(uint b + 256 * le_uint bs) div 256 = le_uint bs" by simp
  moreover have "(word_of_int (uint b + 256 * le_uint bs) :: byte) = b"
  proof -
    have "(256::byte) = 0" by simp
    then have "256 * x = 0" for x :: byte by (metis mult_zero_left)
    then show ?thesis by simp
  qed
  ultimately show ?case using Cons by auto
qed

section \<open>DataReader\<close>

datatype Endian = Little | Big

record DataReader =
  dr_buffer :: "byte list"
  dr_offset :: nat
  dr_littleEndian :: bool

definition new_DataReader :: "byte list \<Rightarrow> Endian \<Rightarrow> DataReader" where
  "new_DataReader bs endian =
     \<lparr>dr_buffer = bs, dr_offset = 0, dr_littleEndian = (endian = Little)\<rparr>"

definition getOffsetAndAdvance :: "nat \<Rightarrow> DataReader \<Rightarrow> nat \<times> DataReader" where
  "getOffsetAndAdvance sz r =
     (let result = dr_offset r;
          off = dr_offset r + sz;
          off' = (if off > length (dr_buffer r) then length (dr_buffer r) else off)
      in (result, r\<lparr>dr_offset := off'\<rparr>))"

text \<open>A \<^verbatim>\<open>DataView\<close> access of \<open>n\<close> bytes, in little endian order, or its \<^verbatim>\<open>RangeError\<close>.\<close>

definition dv_get :: "DataReader \<Rightarrow> nat \<Rightarrow> nat \<Rightarrow> byte list result" where
  "dv_get r off n =
     (if length (dr_buffer r) < off + n then Inl RangeError
      else let bs = take n (drop off (dr_buffer r))
           in Inr (if dr_littleEndian r then bs else rev bs))"

definition dv_read :: "nat \<Rightarrow> (byte list \<Rightarrow> 'a) \<Rightarrow> DataReader \<Rightarrow> ('a \<times> DataReader) result" where
  "dv_read n f r =
     (let (off, r') = getOffsetAndAdvance n r
      in rbind (dv_get r off n) (\<lambda>bs. Inr (f bs, r')))"

definition readUInt8 :: "DataReader \<Rightarrow> (int \<times> DataReader) result" where
  "readUInt8 = dv_read 1 le_uint"

definition readUInt16 :: "DataReader \<Rightarrow> (int \<times> DataReader) result" where
  "readUInt16 = dv_read 2 le_uint"

definition readUInt32 :: "DataReader \<Rightarrow> (int \<times> DataReader) result" where
  "readUInt32 = dv_read 4 le_uint"

definition readUInt64 :: "DataReader \<Rightarrow> (int \<times> DataReader) result" where
  "readUInt64 = dv_read 8 le_uint"

definition readInt8 :: "DataReader \<Rightarrow> (int \<times> DataReader) result" where
  "readInt8 = dv_read 1 le_int"

definition readInt16 :: "DataReader \<Rightarrow> (int \<times> DataReader) result" where
  "readInt16 = dv_read 2 le_int"

definition readInt32 :: "DataReader \<Rightarrow> (int \<times> DataReader) result" where
  "readInt32 = dv_read 4 le_int"

definition readInt64 :: "DataReader \<Rightarrow> (int \<times> DataReader) result" where
  "readInt64 = dv_read 8 le_int"

definition readFloat :: "DataReader \<Rightarrow> (int \<times> DataReader) result" where
  "readFloat = dv_read 4 (\<lambda>bs. f32_widen (le_uint bs))"

definition readDouble :: "DataReader \<Rightarrow> (int \<times> DataReader) result" where
  "readDouble = dv_read 8 (\<lambda>bs. f64_canonical (le_uint bs))"

text \<open>\<^verbatim>\<open>subarray\<close> clamps to the end of the buffer, so the two reads below never throw.\<close>

definition readUtf8String :: "nat \<Rightarrow> DataReader \<Rightarrow> jsstring \<times> DataReader" where
  "readUtf8String len r =
     (let (off, r') = getOffsetAndAdvance len r
      in (utf8_decode (take len (drop off (dr_buffer r))), r'))"

definition readByteArray :: "nat \<Rightarrow> DataReader \<Rightarrow> byte list \<times> DataReader" where
  "readByteArray len r =
     (let (off, r') = getOffsetAndAdvance len r
      in (take len (drop off (dr_buffer r)), r'))"

definition getRemainingBytesCount :: "DataReader \<Rightarrow> int" where
  "getRemainingBytesCount r = int (length (dr_buffer r)) - int (dr_offset r)"

definition getRemainingBytes :: "DataReader \<Rightarrow> byte list" where
  "getRemainingBytes r = drop (dr_offset r) (dr_buffer r)"

definition getLength :: "DataReader \<Rightarrow> nat" where
  "getLength r = length (dr_buffer r)"

definition setOffset :: "nat \<Rightarrow> DataReader \<Rightarrow> DataReader result" where
  "setOffset off r =
     (if off > length (dr_buffer r) then Inl PlainError else Inr (r\<lparr>dr_offset := off\<rparr>))"

subsection \<open>The bytes still to be read\<close>

definition dr_inv :: "DataReader \<Rightarrow> bool" where
  "dr_inv r \<longleftrightarrow> dr_offset r \<le> length (dr_buffer r)"

definition skip :: "nat \<Rightarrow> DataReader \<Rightarrow> DataReader" where
  "skip n r = snd (getOffsetAndAdvance n r)"

lemma getOffsetAndAdvance_eq: "getOffsetAndAdvance n r = (dr_offset r, skip n r)"
  by (simp add: skip_def getOffsetAndAdvance_def Let_def)

lemma skip_simps [simp]:
  "dr_buffer (skip n r) = dr_buffer r"
  "dr_offset (skip n r) = min (dr_offset r + n) (length (dr_buffer r))"
  "dr_littleEndian (skip n r) = dr_littleEndian r"
  by (simp_all add: skip_def getOffsetAndAdvance_def Let_def min_def)

lemma dr_inv_skip [inv_intros, simp]: "dr_inv (skip n r)"
  by (simp add: dr_inv_def)

lemma dr_inv_new [inv_intros, simp]: "dr_inv (new_DataReader bs e)"
  by (simp add: dr_inv_def new_DataReader_def)

lemma littleEndian_new [simp]: "dr_littleEndian (new_DataReader bs e) = (e = Little)"
  by (simp add: new_DataReader_def)

lemma getRemainingBytes_new [simp]: "getRemainingBytes (new_DataReader bs e) = bs"
  by (simp add: getRemainingBytes_def new_DataReader_def)

lemma getRemainingBytes_skip [simp]:
  "getRemainingBytes (skip n r) = drop n (getRemainingBytes r)"
  by (simp add: getRemainingBytes_def min_def add.commute)

lemma skip_skip [simp]: "dr_inv r \<Longrightarrow> skip m (skip n r) = skip (n + m) r"
  by (intro DataReader.equality) (auto simp: dr_inv_def min_def)

text \<open>Reads of a little endian cursor as functions of the remaining bytes.\<close>

lemma dv_read_eq:
  assumes "dr_littleEndian r" and "dr_inv r"
  shows "dv_read n f r =
     (if length (getRemainingBytes r) < n then Inl RangeError
      else Inr (f (take n (getRemainingBytes r)), skip n r))"
  using assms
  by (auto simp: dv_read_def getOffsetAndAdvance_eq dv_get_def getRemainingBytes_def dr_inv_def)

lemma readByteArray_eq [simp]:
  "readByteArray n r = (take n (getRemainingBytes r), skip n r)"
  by (simp add: readByteArray_def getOffsetAndAdvance_eq getRemainingBytes_def)

lemma readUtf8String_eq [simp]:
  "readUtf8String n r = (utf8_decode (take n (getRemainingBytes r)), skip n r)"
  by (simp add: readUtf8String_def getOffsetAndAdvance_eq getRemainingBytes_def)

lemma getRemainingBytesCount_eq:
  "dr_inv r \<Longrightarrow> getRemainingBytesCount r = int (length (getRemainingBytes r))"
  by (simp add: getRemainingBytesCount_def getRemainingBytes_def dr_inv_def of_nat_diff)

lemmas reader_defs =
  readUInt8_def readUInt16_def readUInt32_def readUInt64_def
  readInt8_def readInt16_def readInt32_def readInt64_def readFloat_def readDouble_def

section \<open>DataWriter\<close>

record DataWriter =
  dw_littleEndian :: bool
  dw_length :: nat
  dw_chunks :: "byte list list"

definition new_DataWriter :: "Endian \<Rightarrow> DataWriter" where
  "new_DataWriter endian = \<lparr>dw_littleEndian = (endian = Little), dw_length = 0, dw_chunks = []\<rparr>"

definition push_chunk :: "byte list \<Rightarrow> DataWriter \<Rightarrow> DataWriter" where
  "push_chunk chunk w = w\<lparr>dw_chunks := dw_chunks w @ [chunk], dw_length := dw_length w + length chunk\<rparr>"

text \<open>A chunk of \<open>n\<close> bytes filled through a \<^verbatim>\<open>DataView\<close> setter.\<close>

definition dv_set :: "DataWriter \<Rightarrow> nat \<Rightarrow> int \<Rightarrow> byte list" where
  "dv_set w n v = (if dw_littleEndian w then le_bytes n v else rev (le_bytes n v))"

definition writeUInt8 :: "int \<Rightarrow> DataWriter \<Rightarrow> DataWriter" where
  "writeUInt8 v w = push_chunk [word_of_int (toNumber v)] w"

definition writeUInt16 :: "int \<Rightarrow> DataWriter \<Rightarrow> DataWriter" where
  "writeUInt16 v w = push_chunk (dv_set w 2 (toNumber v)) w"

definition writeUInt32 :: "int \<Rightarrow> DataWriter \<Rightarrow> DataWriter" where
  "writeUInt32 v w = push_chunk (dv_set w 4 (toNumber v)) w"

definition writeUInt64 :: "int \<Rightarrow> DataWriter \<Rightarrow> DataWriter" where
  "writeUInt64 v w = push_chunk (dv_set w 8 (toBigInt v)) w"

definition writeInt8 :: "int \<Rightarrow> DataWriter \<Rightarrow> DataWriter" where
  "writeInt8 v w = push_chunk (dv_set w 1 (toNumber v)) w"

definition writeInt16 :: "int \<Rightarrow> DataWriter \<Rightarrow> DataWriter" where
  "writeInt16 v w = push_chunk (dv_set w 2 (toNumber v)) w"

definition writeInt32 :: "int \<Rightarrow> DataWriter \<Rightarrow> DataWriter" where
  "writeInt32 v w = push_chunk (dv_set w 4 (toNumber v)) w"

definition writeInt64 :: "int \<Rightarrow> DataWriter \<Rightarrow> DataWriter" where
  "writeInt64 v w = push_chunk (dv_set w 8 (toBigInt v)) w"

definition writeFloat :: "int \<Rightarrow> DataWriter \<Rightarrow> DataWriter" where
  "writeFloat v w = push_chunk (dv_set w 4 (f64_narrow v)) w"

definition writeDouble :: "int \<Rightarrow> DataWriter \<Rightarrow> DataWriter" where
  "writeDouble v w = push_chunk (dv_set w 8 v) w"

definition writeByteArray :: "byte list \<Rightarrow> DataWriter \<Rightarrow> DataWriter" where
  "writeByteArray bs w = push_chunk bs w"

definition toByteArray :: "DataWriter \<Rightarrow> (byte list \<times> DataWriter) result" where
  "toByteArray w =
     (case dw_chunks w of
        [] \<Rightarrow> Inr ([], w)
      | [c] \<Rightarrow> Inr (c, w)
      | chunks \<Rightarrow>
          rbind (copy_all chunks 0 (replicate (dw_length w) 0))
            (\<lambda>result. Inr (result, w\<lparr>dw_chunks := [result]\<rparr>)))"

definition dw_inv :: "DataWriter \<Rightarrow> bool" where
  "dw_inv w \<longleftrightarrow> dw_length w = length (concat (dw_chunks w))"

definition dw_bytes :: "DataWriter \<Rightarrow> byte list" where
  "dw_bytes w = concat (dw_chunks w)"

lemmas writer_defs =
  writeUInt8_def writeUInt16_def writeUInt32_def writeUInt64_def
  writeInt8_def writeInt16_def writeInt32_def writeInt64_def
  writeFloat_def writeDouble_def writeByteArray_def

lemma push_chunk_simps [simp]:
  "dw_inv (push_chunk c w) = dw_inv w"
  "dw_bytes (push_chunk c w) = dw_bytes w @ c"
  "dw_littleEndian (push_chunk c w) = dw_littleEndian w"
  by (auto simp: push_chunk_def dw_inv_def dw_bytes_def)

lemma new_DataWriter_simps [simp]:
  "dw_inv (new_DataWriter e)"
  "dw_bytes (new_DataWriter e) = []"
  "dw_littleEndian (new_DataWriter e) = (e = Little)"
  by (simp_all add: new_DataWriter_def dw_inv_def dw_bytes_def)

text \<open>
  Every write keeps the invariant that the counted length is the length of the chunks, so
  \<^verbatim>\<open>toByteArray\<close> never throws: it returns the bytes in writing order and, called again, returns
  the same bytes from the merged chunk.
\<close>

lemma write_inv [inv_intros, simp]:
  "dw_inv (writeUInt8 v w) = dw_inv w" "dw_inv (writeUInt16 v w) = dw_inv w"
  "dw_inv (writeUInt32 v w) = dw_inv w" "dw_inv (writeUInt64 v w) = dw_inv w"
  "dw_inv (writeInt8 v w) = dw_inv w" "dw_inv (writeInt16 v w) = dw_inv w"
  "dw_inv (writeInt32 v w) = dw_inv w" "dw_inv (writeInt64 v w) = dw_inv w"
  "dw_inv (writeFloat v w) = dw_inv w" "dw_inv (writeDouble v w) = dw_inv w"
  "dw_inv (writeByteArray bs w) = dw_inv w"
  by (simp_all add: writer_defs)

lemma write_endian [simp]:
  "dw_littleEndian (writeUInt8 v w) = dw_littleEndian w"
  "dw_littleEndian (writeUInt16 v w) = dw_littleEndian w"
  "dw_littleEndian (writeUInt32 v w) = dw_littleEndian w"
  "dw_littleEndian (writeUInt64 v w) = dw_littleEndian w"
  "dw_littleEndian (writeInt8 v w) = dw_littleEndian w"
  "dw_littleEndian (writeInt16 v w) = dw_littleEndian w"
  "dw_littleEndian (writeInt32 v w) = dw_littleEndian w"
  "dw_littleEndian (writeInt64 v w) = dw_littleEndian w"
  "dw_littleEndian (writeFloat v w) = dw_littleEndian w"
  "dw_littleEndian (writeDouble v w) = dw_littleEndian w"
  "dw_littleEndian (writeByteArray bs w) = dw_littleEndian w"
  by (simp_all add: writer_defs)

lemma write_bytes [simp]:
  "dw_littleEndian w \<Longrightarrow> dw_bytes (writeUInt8 v w) = dw_bytes w @ le_bytes 1 (toNumber v)"
  "dw_littleEndian w \<Longrightarrow> dw_bytes (writeUInt16 v w) = dw_bytes w @ le_bytes 2 (toNumber v)"
  "dw_littleEndian w \<Longrightarrow> dw_bytes (writeUInt32 v w) = dw_bytes w @ le_bytes 4 (toNumber v)"
  "dw_littleEndian w \<Longrightarrow> dw_bytes (writeUInt64 v w) = dw_bytes w @ le_bytes 8 v"
  "dw_littleEndian w \<Longrightarrow> dw_bytes (writeInt8 v w) = dw_bytes w @ le_bytes 1 (toNumber v)"
  "dw_littleEndian w \<Longrightarrow> dw_bytes (writeInt16 v w) = dw_bytes w @ le_bytes 2 (toNumber v)"
  "dw_littleEndian w \<Longrightarrow> dw_bytes (writeInt32 v w) = dw_bytes w @ le_bytes 4 (toNumber v)"
  "dw_littleEndian w \<Longrightarrow> dw_bytes (writeInt64 v w) = dw_bytes w @ le_bytes 8 v"
  "dw_littleEndian w \<Longrightarrow> dw_bytes (writeFloat v w) = dw_bytes w @ le_bytes 4 (f64_narrow v)"
  "dw_littleEndian w \<Longrightarrow> dw_bytes (writeDouble v w) = dw_bytes w @ le_bytes 8 v"
  "dw_bytes (writeByteArray bs w) = dw_bytes w @ bs"
  by (simp_all add: writer_defs dv_set_def toBigInt_def)

lemma copy_chunks:
  "dw_inv w \<Longrightarrow> copy_all (dw_chunks w) 0 (replicate (dw_length w) 0) = Inr (dw_bytes w)"
  using copy_all_concat [of "replicate (dw_length w) 0" "dw_chunks w" "[]"]
  by (simp add: dw_inv_def dw_bytes_def)

lemma toByteArray_bytes:
  "dw_inv w \<Longrightarrow> \<exists>w'. toByteArray w = Inr (dw_bytes w, w') \<and> dw_bytes w' = dw_bytes w \<and> dw_inv w'"
  using copy_chunks [of w]
  by (cases "dw_chunks w" rule: remdups_adj.cases)
    (auto simp: toByteArray_def dw_bytes_def dw_inv_def)

text \<open>What callers that drop the writer obtain from \<^verbatim>\<open>writer.toByteArray()\<close>.\<close>

definition written :: "DataWriter \<Rightarrow> byte list result" where
  "written w = rbind (toByteArray w) (\<lambda>(bs, _). Inr bs)"

lemma written_eq [simp]: "dw_inv w \<Longrightarrow> written w = Inr (dw_bytes w)"
  using toByteArray_bytes [of w] by (auto simp: written_def)

section \<open>The interface of a field\<close>

fun read_times :: "nat \<Rightarrow> (DataReader \<Rightarrow> ('v \<times> DataReader) result) \<Rightarrow> DataReader \<Rightarrow> ('v list \<times> DataReader) result" where
  "read_times 0 rd r = Inr ([], r)"
| "read_times (Suc n) rd r =
     rbind (rd r) (\<lambda>(v, r). rbind (read_times n rd r) (\<lambda>(vs, r). Inr (v # vs, r)))"

locale field_codec =
  fixes rd :: "DataReader \<Rightarrow> ('v \<times> DataReader) result"
    and wr :: "'v \<Rightarrow> DataWriter \<Rightarrow> DataWriter"
    and enc :: "'v \<Rightarrow> byte list"
    and valid :: "'v \<Rightarrow> bool"
    and width :: nat
  assumes wr_inv: "dw_inv w \<Longrightarrow> dw_inv (wr v w)"
    and wr_endian: "dw_littleEndian (wr v w) = dw_littleEndian w"
    and wr_bytes: "dw_littleEndian w \<Longrightarrow> dw_bytes (wr v w) = dw_bytes w @ enc v"
    and length_enc: "length (enc v) = width"
    and rd_enc: "valid v \<Longrightarrow> dr_littleEndian r \<Longrightarrow> dr_inv r \<Longrightarrow> getRemainingBytes r = enc v @ rest \<Longrightarrow>
        rd r = Inr (v, skip width r)"
    and rd_short: "dr_littleEndian r \<Longrightarrow> dr_inv r \<Longrightarrow> length (getRemainingBytes r) < width \<Longrightarrow>
        rd r = Inl RangeError"
begin

lemma rd_remaining:
  "valid v \<Longrightarrow> dr_littleEndian r \<Longrightarrow> dr_inv r \<Longrightarrow> getRemainingBytes r = enc v @ rest \<Longrightarrow>
    \<exists>r'. rd r = Inr (v, r') \<and> getRemainingBytes r' = rest \<and> dr_littleEndian r' \<and> dr_inv r'"
  using rd_enc [of v r rest] by (simp add: length_enc)

lemma write_read:
  assumes "valid v"
  shows "\<exists>bs r'. written (wr v (new_DataWriter Little)) = Inr bs \<and>
    rd (new_DataReader (bs @ rest) Little) = Inr (v, r') \<and> getRemainingBytes r' = rest"
proof -
  let ?w = "wr v (new_DataWriter Little)" and ?r = "new_DataReader (enc v @ rest) Little"
  have "written ?w = Inr (enc v)"
    using wr_inv [of "new_DataWriter Little" v] wr_bytes [of "new_DataWriter Little" v] by simp
  moreover have "rd ?r = Inr (v, skip width ?r)"
    using assms by (intro rd_enc) auto
  ultimately show ?thesis
    by (auto simp: length_enc)
qed

lemma read_times_enc:
  "list_all valid vs \<Longrightarrow> dr_littleEndian r \<Longrightarrow> dr_inv r \<Longrightarrow>
     getRemainingBytes r = concat (map enc vs) @ rest \<Longrightarrow>
     \<exists>r'. read_times (length vs) rd r = Inr (vs, r') \<and> getRemainingBytes r' = rest"
proof (induction vs arbitrary: r)
  case Nil
  then show ?case by simp
next
  case (Cons v vs)
  then have "rd r = Inr (v, skip width r)"
    by (intro rd_enc [where rest = "concat (map enc vs) @ rest"]) auto
  moreover have "\<exists>r'. read_times (length vs) rd (skip width r) = Inr (vs, r') \<and> getRemainingBytes r' = rest"
    using Cons.prems by (intro Cons.IH) (auto simp: length_enc)
  ultimately show ?case by auto
qed

end

text \<open>
  Reading the remaining bytes of a little endian cursor, one rewrite rule per field operation:
  the decoders' proofs run by these and never unfold the cursors again.
\<close>

lemma le_bytes_byte: "le_bytes 1 v = [word_of_int v]"
  by (simp add: numeral_nat)

lemma uint_byte [codec_simps]: "0 \<le> v \<Longrightarrow> v < 256 \<Longrightarrow> uint (word_of_int v :: byte) = v"
  by (simp add: uint_word_of_int)

lemma read_eqs [codec_simps]:
  assumes "dr_littleEndian r" and "dr_inv r"
  shows "readUInt8 r = (if length (getRemainingBytes r) < 1 then Inl RangeError
      else Inr (le_uint (take 1 (getRemainingBytes r)), skip 1 r))"
    and "readUInt16 r = (if length (getRemainingBytes r) < 2 then Inl RangeError
      else Inr (le_uint (take 2 (getRemainingBytes r)), skip 2 r))"
    and "readUInt32 r = (if length (getRemainingBytes r) < 4 then Inl RangeError
      else Inr (le_uint (take 4 (getRemainingBytes r)), skip 4 r))"
    and "readUInt64 r = (if length (getRemainingBytes r) < 8 then Inl RangeError
      else Inr (le_uint (take 8 (getRemainingBytes r)), skip 8 r))"
    and "readInt8 r = (if length (getRemainingBytes r) < 1 then Inl RangeError
      else Inr (le_int (take 1 (getRemainingBytes r)), skip 1 r))"
    and "readInt16 r = (if length (getRemainingBytes r) < 2 then Inl RangeError
      else Inr (le_int (take 2 (getRemainingBytes r)), skip 2 r))"
    and "readInt32 r = (if length (getRemainingBytes r) < 4 then Inl RangeError
      else Inr (le_int (take 4 (getRemainingBytes r)), skip 4 r))"
    and "readInt64 r = (if length (getRemainingBytes r) < 8 then Inl RangeError
      else Inr (le_int (take 8 (getRemainingBytes r)), skip 8 r))"
    and "readFloat r = (if length (getRemainingBytes r) < 4 then Inl RangeError
      else Inr (f32_widen (le_uint (take 4 (getRemainingBytes r))), skip 4 r))"
    and "readDouble r = (if length (getRemainingBytes r) < 8 then Inl RangeError
      else Inr (f64_canonical (le_uint (take 8 (getRemainingBytes r))), skip 8 r))"
  using assms by (simp_all add: reader_defs dv_read_eq)

abbreviation uint_valid :: "nat \<Rightarrow> int \<Rightarrow> bool" where
  "uint_valid n v \<equiv> 0 \<le> v \<and> v < 2 ^ (8 * n)"

abbreviation sint_valid :: "nat \<Rightarrow> int \<Rightarrow> bool" where
  "sint_valid n v \<equiv> - (2 ^ (8 * n - 1)) \<le> v \<and> v < 2 ^ (8 * n - 1)"

interpretation u8: field_codec readUInt8 writeUInt8 "\<lambda>v. le_bytes 1 (toNumber v)" "uint_valid 1" 1
  by unfold_locales (simp_all add: codec_simps toNumber_range le_uint_le_bytes_id [of _ 1, simplified])

interpretation u16: field_codec readUInt16 writeUInt16 "\<lambda>v. le_bytes 2 (toNumber v)" "uint_valid 2" 2
  by unfold_locales (simp_all add: codec_simps toNumber_range le_uint_le_bytes_id [of _ 2, simplified])

interpretation u32: field_codec readUInt32 writeUInt32 "\<lambda>v. le_bytes 4 (toNumber v)" "uint_valid 4" 4
  by unfold_locales (simp_all add: codec_simps toNumber_range le_uint_le_bytes_id [of _ 4, simplified])

interpretation u64: field_codec readUInt64 writeUInt64 "le_bytes 8" "uint_valid 8" 8
  by unfold_locales (simp_all add: codec_simps le_uint_le_bytes_id [of _ 8, simplified])

interpretation i8: field_codec readInt8 writeInt8 "\<lambda>v. le_bytes 1 (toNumber v)" "sint_valid 1" 1
  by unfold_locales (simp_all add: codec_simps toNumber_range le_int_le_bytes_id [of 1, simplified])

interpretation i16: field_codec readInt16 writeInt16 "\<lambda>v. le_bytes 2 (toNumber v)" "sint_valid 2" 2
  by unfold_locales (simp_all add: codec_simps toNumber_range le_int_le_bytes_id [of 2, simplified])

interpretation i32: field_codec readInt32 writeInt32 "\<lambda>v. le_bytes 4 (toNumber v)" "sint_valid 4" 4
  by unfold_locales (simp_all add: codec_simps toNumber_range le_int_le_bytes_id [of 4, simplified])

interpretation i64: field_codec readInt64 writeInt64 "le_bytes 8" "sint_valid 8" 8
  by unfold_locales (simp_all add: codec_simps le_int_le_bytes_id [of 8, simplified])

end
