(* ===== verification/MessageCodec.thy ===== *)
theory MessageCodec
  imports ByteIO
begin

text \<open>
  The message layer's wire format, \<^verbatim>\<open>codec/MessageCodec.ts\<close>: the packet header in the clear, the
  payload header inside the encrypted part, and the packets and messages built from them.
\<close>

section \<open>Data\<close>

datatype SessionType = Group | Unicast

fun session_type_number :: "SessionType \<Rightarrow> int" where
  "session_type_number Group = 1"
| "session_type_number Unicast = 0"

definition HEADER_VERSION :: int where "HEADER_VERSION = 0"
definition COMMON_VENDOR_ID :: int where "COMMON_VENDOR_ID = 0"

definition flag_HasDestNodeId :: int where "flag_HasDestNodeId = 1"
definition flag_HasDestGroupId :: int where "flag_HasDestGroupId = 2"
definition flag_HasSourceNodeId :: int where "flag_HasSourceNodeId = 4"
definition flag_VersionMask :: int where "flag_VersionMask = 0xf0"

definition flag_IsInitiatorMessage :: int where "flag_IsInitiatorMessage = 1"
definition flag_IsAckMessage :: int where "flag_IsAckMessage = 2"
definition flag_RequiresAck :: int where "flag_RequiresAck = 4"
definition flag_HasSecureExtension :: int where "flag_HasSecureExtension = 8"
definition flag_HasVendorId :: int where "flag_HasVendorId = 16"

definition flag_HasPrivacyEnhancements :: int where "flag_HasPrivacyEnhancements = 0x80"
definition flag_IsControlMessage :: int where "flag_IsControlMessage = 0x40"
definition flag_HasMessageExtension :: int where "flag_HasMessageExtension = 0x20"

lemmas header_flag_defs =
  flag_HasDestNodeId_def flag_HasDestGroupId_def flag_HasSourceNodeId_def flag_VersionMask_def
  flag_IsInitiatorMessage_def flag_IsAckMessage_def flag_RequiresAck_def
  flag_HasSecureExtension_def flag_HasVendorId_def
  flag_HasPrivacyEnhancements_def flag_IsControlMessage_def flag_HasMessageExtension_def
  HEADER_VERSION_def COMMON_VENDOR_ID_def

record PacketHeader =
  ph_sessionId :: int
  ph_sessionType :: SessionType
  ph_hasPrivacyEnhancements :: bool
  ph_isControlMessage :: bool
  ph_hasMessageExtensions :: bool
  ph_messageId :: int
  ph_sourceNodeId :: "int option"
  ph_destNodeId :: "int option"
  ph_destGroupId :: "int option"

record DecodedPacketHeader = PacketHeader +
  ph_securityFlags :: int

record PayloadHeader =
  pl_exchangeId :: int
  pl_protocolId :: int
  pl_messageType :: int
  pl_isInitiatorMessage :: bool
  pl_requiresAck :: bool
  pl_ackedMessageId :: "int option"
  pl_hasSecuredExtension :: bool

text \<open>A packet and a message, over the plain or the decoded packet header.\<close>

record 'h Packet =
  pk_header :: 'h
  pk_messageExtension :: "byte list option"
  pk_applicationPayload :: "byte list"

record 'h Message =
  msg_packetHeader :: 'h
  msg_payloadHeader :: PayloadHeader
  msg_securityExtension :: "byte list option"
  msg_payload :: "byte list"

section \<open>Decoding\<close>

text \<open>\<^verbatim>\<open>c ? reader.read() : undefined\<close>\<close>

definition read_if ::
  "bool \<Rightarrow> (DataReader \<Rightarrow> ('v \<times> DataReader) result) \<Rightarrow> DataReader \<Rightarrow> ('v option \<times> DataReader) result" where
  "read_if c rd r = (if c then rbind (rd r) (\<lambda>(v, r). Inr (Some v, r)) else Inr (None, r))"

definition session_type_of :: "int \<Rightarrow> SessionType result" where
  "session_type_of n = (if n = 1 then Inr Group else if n = 0 then Inr Unicast else Inl UnexpectedDataError)"

definition decodePacketHeader :: "DataReader \<Rightarrow> (DecodedPacketHeader \<times> DataReader) result" where
  "decodePacketHeader r =
     rbind (readUInt8 r) (\<lambda>(flags, r).
     let version = js_shr (js_and flags flag_VersionMask) 4;
         hasDestNodeId = (js_and flags flag_HasDestNodeId \<noteq> 0);
         hasDestGroupId = (js_and flags flag_HasDestGroupId \<noteq> 0);
         hasSourceNodeId = (js_and flags flag_HasSourceNodeId \<noteq> 0) in
     rbind (throw_if (hasDestNodeId \<and> hasDestGroupId) UnexpectedDataError) (\<lambda>_.
     rbind (throw_if (version \<noteq> HEADER_VERSION) NotImplementedError) (\<lambda>_.
     rbind (readUInt16 r) (\<lambda>(sessionId, r).
     rbind (readUInt8 r) (\<lambda>(securityFlags, r).
     rbind (readUInt32 r) (\<lambda>(messageId, r).
     rbind (read_if hasSourceNodeId readUInt64 r) (\<lambda>(sourceNodeId, r).
     rbind (read_if hasDestNodeId readUInt64 r) (\<lambda>(destNodeId, r).
     rbind (read_if hasDestGroupId readUInt16 r) (\<lambda>(destGroupId, r).
     rbind (session_type_of (js_and securityFlags 3)) (\<lambda>sessionType.
     let hasPrivacyEnhancements = (js_and securityFlags flag_HasPrivacyEnhancements \<noteq> 0) in
     rbind (throw_if hasPrivacyEnhancements NotImplementedError) (\<lambda>_.
     let isControlMessage = (js_and securityFlags flag_IsControlMessage \<noteq> 0) in
     rbind (throw_if isControlMessage NotImplementedError) (\<lambda>_.
     let hasMessageExtensions = (js_and securityFlags flag_HasMessageExtension \<noteq> 0) in
     Inr (\<lparr>ph_sessionId = sessionId, ph_sessionType = sessionType,
           ph_hasPrivacyEnhancements = hasPrivacyEnhancements, ph_isControlMessage = isControlMessage,
           ph_hasMessageExtensions = hasMessageExtensions, ph_messageId = messageId,
           ph_sourceNodeId = sourceNodeId, ph_destNodeId = destNodeId, ph_destGroupId = destGroupId,
           ph_securityFlags = securityFlags\<rparr>, r)))))))))))))"

definition decodePacket :: "byte list \<Rightarrow> DecodedPacketHeader Packet result" where
  "decodePacket data =
     rbind (decodePacketHeader (new_DataReader data Little)) (\<lambda>(header, r).
     rbind (if ph_hasMessageExtensions header
            then rbind (readUInt16 r) (\<lambda>(extensionLength, r).
                   let (ext, r) = readByteArray (nat extensionLength) r in Inr (Some ext, r))
            else Inr (None, r)) (\<lambda>(messageExtension, r).
     Inr \<lparr>pk_header = header, pk_messageExtension = messageExtension,
          pk_applicationPayload = getRemainingBytes r\<rparr>))"

definition decodePayloadHeader :: "DataReader \<Rightarrow> (PayloadHeader \<times> DataReader) result" where
  "decodePayloadHeader r =
     rbind (readUInt8 r) (\<lambda>(exchangeFlags, r).
     let isInitiatorMessage = (js_and exchangeFlags flag_IsInitiatorMessage \<noteq> 0);
         isAckMessage = (js_and exchangeFlags flag_IsAckMessage \<noteq> 0);
         requiresAck = (js_and exchangeFlags flag_RequiresAck \<noteq> 0);
         hasSecuredExtension = (js_and exchangeFlags flag_HasSecureExtension \<noteq> 0);
         hasVendorId = (js_and exchangeFlags flag_HasVendorId \<noteq> 0) in
     rbind (readUInt8 r) (\<lambda>(messageType, r).
     rbind (readUInt16 r) (\<lambda>(exchangeId, r).
     rbind (if hasVendorId then readUInt16 r else Inr (COMMON_VENDOR_ID, r)) (\<lambda>(vendorId, r).
     rbind (readUInt16 r) (\<lambda>(protocol, r).
     let protocolId = js_or (js_shl vendorId 16) protocol in
     rbind (read_if isAckMessage readUInt32 r) (\<lambda>(ackedMessageId, r).
     Inr (\<lparr>pl_exchangeId = exchangeId, pl_protocolId = protocolId, pl_messageType = messageType,
           pl_isInitiatorMessage = isInitiatorMessage, pl_requiresAck = requiresAck,
           pl_ackedMessageId = ackedMessageId, pl_hasSecuredExtension = hasSecuredExtension\<rparr>, r)))))))"

definition decodePayload :: "DecodedPacketHeader Packet \<Rightarrow> DecodedPacketHeader Message result" where
  "decodePayload packet =
     rbind (decodePayloadHeader (new_DataReader (pk_applicationPayload packet) Little)) (\<lambda>(payloadHeader, r).
     rbind (if pl_hasSecuredExtension payloadHeader
            then rbind (readUInt16 r) (\<lambda>(extensionLength, r).
                   let (ext, r) = readByteArray (nat extensionLength) r in Inr (Some ext, r))
            else Inr (None, r)) (\<lambda>(securityExtension, r).
     Inr \<lparr>msg_packetHeader = pk_header packet, msg_payloadHeader = payloadHeader,
          msg_securityExtension = securityExtension, msg_payload = getRemainingBytes r\<rparr>))"

section \<open>Encoding\<close>

definition write_opt :: "('v \<Rightarrow> DataWriter \<Rightarrow> DataWriter) \<Rightarrow> 'v option \<Rightarrow> DataWriter \<Rightarrow> DataWriter" where
  "write_opt wr v w = (case v of None \<Rightarrow> w | Some x \<Rightarrow> wr x w)"

definition packet_flags :: "('a) PacketHeader_scheme \<Rightarrow> int" where
  "packet_flags h =
     js_or (js_or (js_or (js_shl HEADER_VERSION 4)
       (if ph_destGroupId h \<noteq> None then flag_HasDestGroupId else 0))
       (if ph_destNodeId h \<noteq> None then flag_HasDestNodeId else 0))
       (if ph_sourceNodeId h \<noteq> None then flag_HasSourceNodeId else 0)"

definition encodePacketHeader :: "('a) PacketHeader_scheme \<Rightarrow> byte list result" where
  "encodePacketHeader h =
     (let flags = packet_flags h;
          securityFlags = session_type_number (ph_sessionType h);
          w = new_DataWriter Little;
          w = writeUInt8 flags w;
          w = writeUInt16 (ph_sessionId h) w;
          w = writeUInt8 securityFlags w;
          w = writeUInt32 (ph_messageId h) w;
          w = write_opt writeUInt64 (ph_sourceNodeId h) w;
          w = write_opt writeUInt64 (ph_destNodeId h) w;
          w = write_opt writeUInt32 (ph_destGroupId h) w
      in written w)"

definition payload_vendorId :: "PayloadHeader \<Rightarrow> int" where
  "payload_vendorId h = js_shr (js_and (pl_protocolId h) 0xffff0000) 16"

definition payload_flags :: "PayloadHeader \<Rightarrow> int" where
  "payload_flags h =
     js_or (js_or (js_or
       (if pl_isInitiatorMessage h then flag_IsInitiatorMessage else 0)
       (if pl_ackedMessageId h \<noteq> None then flag_IsAckMessage else 0))
       (if pl_requiresAck h then flag_RequiresAck else 0))
       (if payload_vendorId h \<noteq> COMMON_VENDOR_ID then flag_HasVendorId else 0)"

definition encodePayloadHeader :: "PayloadHeader \<Rightarrow> byte list result" where
  "encodePayloadHeader h =
     (let w = new_DataWriter Little;
          w = writeUInt8 (payload_flags h) w;
          w = writeUInt8 (pl_messageType h) w;
          w = writeUInt16 (pl_exchangeId h) w;
          w = (if payload_vendorId h \<noteq> COMMON_VENDOR_ID then writeUInt32 (pl_protocolId h) w
               else writeUInt16 (pl_protocolId h) w);
          w = write_opt writeUInt32 (pl_ackedMessageId h) w
      in written w)"

definition encodePayload :: "('a) PacketHeader_scheme Message \<Rightarrow> ('a) PacketHeader_scheme Packet result" where
  "encodePayload m =
     (if msg_securityExtension m \<noteq> None \<or> pl_hasSecuredExtension (msg_payloadHeader m)
      then Inl NotImplementedError
      else rbind (encodePayloadHeader (msg_payloadHeader m)) (\<lambda>h.
           rbind (concat_arrays [h, msg_payload m]) (\<lambda>payload.
           Inr \<lparr>pk_header = msg_packetHeader m, pk_messageExtension = None,
                pk_applicationPayload = payload\<rparr>)))"

definition encodePacket :: "('a) PacketHeader_scheme Packet \<Rightarrow> byte list result" where
  "encodePacket p =
     (if pk_messageExtension p \<noteq> None \<or> ph_hasMessageExtensions (pk_header p)
      then Inl NotImplementedError
      else rbind (encodePacketHeader (pk_header p)) (\<lambda>h. concat_arrays [h, pk_applicationPayload p]))"

section \<open>The flag bytes\<close>

lemmas js_eval = js_and_def js_or_def js_shl_def js_shr_def js_ushr_def to_int32_def to_uint32_def

lemma packet_flags_bits:
  "js_and (packet_flags h) flag_HasDestNodeId \<noteq> 0 \<longleftrightarrow> ph_destNodeId h \<noteq> None"
  "js_and (packet_flags h) flag_HasDestGroupId \<noteq> 0 \<longleftrightarrow> ph_destGroupId h \<noteq> None"
  "js_and (packet_flags h) flag_HasSourceNodeId \<noteq> 0 \<longleftrightarrow> ph_sourceNodeId h \<noteq> None"
  "js_shr (js_and (packet_flags h) flag_VersionMask) 4 = HEADER_VERSION"
  "0 \<le> packet_flags h \<and> packet_flags h < 2 ^ 8"
  by (simp_all add: packet_flags_def header_flag_defs js_eval)

lemma payload_flags_bits:
  "js_and (payload_flags h) flag_IsInitiatorMessage \<noteq> 0 \<longleftrightarrow> pl_isInitiatorMessage h"
  "js_and (payload_flags h) flag_IsAckMessage \<noteq> 0 \<longleftrightarrow> pl_ackedMessageId h \<noteq> None"
  "js_and (payload_flags h) flag_RequiresAck \<noteq> 0 \<longleftrightarrow> pl_requiresAck h"
  "js_and (payload_flags h) flag_HasSecureExtension = 0"
  "js_and (payload_flags h) flag_HasVendorId \<noteq> 0 \<longleftrightarrow> payload_vendorId h \<noteq> COMMON_VENDOR_ID"
  "0 \<le> payload_flags h \<and> payload_flags h < 2 ^ 8"
  by (simp_all add: payload_flags_def header_flag_defs js_eval)

lemma session_type_roundtrip:
  "session_type_of (js_and (session_type_number t) 3) = Inr t"
  "js_and (session_type_number t) flag_HasPrivacyEnhancements = 0"
  "js_and (session_type_number t) flag_IsControlMessage = 0"
  "js_and (session_type_number t) flag_HasMessageExtension = 0"
  "0 \<le> session_type_number t \<and> session_type_number t < 2 ^ 8"
  by (cases t; simp add: header_flag_defs session_type_of_def js_eval)+

section \<open>Round trips\<close>

definition opt_bytes :: "nat \<Rightarrow> int option \<Rightarrow> byte list" where
  "opt_bytes n v = (case v of None \<Rightarrow> [] | Some x \<Rightarrow> le_bytes n x)"

lemma opt_bytes_simps [simp]:
  "opt_bytes n None = []"
  "opt_bytes n (Some x) = le_bytes n x"
  by (simp_all add: opt_bytes_def)

definition opt_valid :: "nat \<Rightarrow> int option \<Rightarrow> bool" where
  "opt_valid n v = (case v of None \<Rightarrow> True | Some x \<Rightarrow> uint_valid n x)"

lemma opt_valid_simps [simp]:
  "opt_valid n None"
  "opt_valid n (Some x) = uint_valid n x"
  by (simp_all add: opt_valid_def)

lemma write_opt_simps [simp]:
  "write_opt wr None w = w"
  "write_opt wr (Some v) w = wr v w"
  by (simp_all add: write_opt_def)

lemma read_if_simps [simp]:
  "read_if False rd r = Inr (None, r)"
  "read_if True rd r = rbind (rd r) (\<lambda>(v, r). Inr (Some v, r))"
  by (simp_all add: read_if_def)

definition packet_header_ok :: "('a) PacketHeader_scheme \<Rightarrow> bool" where
  "packet_header_ok h \<longleftrightarrow> uint_valid 2 (ph_sessionId h) \<and> uint_valid 4 (ph_messageId h) \<and>
     opt_valid 8 (ph_sourceNodeId h) \<and> opt_valid 8 (ph_destNodeId h) \<and> opt_valid 2 (ph_destGroupId h) \<and>
     \<not> ph_hasPrivacyEnhancements h \<and> \<not> ph_isControlMessage h \<and> \<not> ph_hasMessageExtensions h"

lemma encodePacketHeader_bytes:
  assumes "packet_header_ok h"
  shows "encodePacketHeader h = Inr (le_bytes 1 (packet_flags h) @ le_bytes 2 (ph_sessionId h) @
    le_bytes 1 (session_type_number (ph_sessionType h)) @ le_bytes 4 (ph_messageId h) @
    opt_bytes 8 (ph_sourceNodeId h) @ opt_bytes 8 (ph_destNodeId h) @ opt_bytes 4 (ph_destGroupId h))"
  using assms packet_flags_bits(5) [of h] session_type_roundtrip(5) [of "ph_sessionType h"]
  by (cases "ph_sourceNodeId h"; cases "ph_destNodeId h"; cases "ph_destGroupId h")
    (simp_all add: encodePacketHeader_def packet_header_ok_def toNumber_range Let_def)

lemma decodePacketHeader_bytes:
  assumes "packet_header_ok h" and "dr_littleEndian r" and "dr_inv r"
    and "ph_destNodeId h = None \<or> ph_destGroupId h = None"
    and "getRemainingBytes r = le_bytes 1 (packet_flags h) @ le_bytes 2 (ph_sessionId h) @
      le_bytes 1 (session_type_number (ph_sessionType h)) @ le_bytes 4 (ph_messageId h) @
      opt_bytes 8 (ph_sourceNodeId h) @ opt_bytes 8 (ph_destNodeId h) @ opt_bytes 2 (ph_destGroupId h) @ rest"
  shows "\<exists>r'. decodePacketHeader r =
      Inr (PacketHeader.extend (PacketHeader.truncate h)
        \<lparr>ph_securityFlags = session_type_number (ph_sessionType h)\<rparr>, r') \<and>
      getRemainingBytes r' = rest \<and> dr_littleEndian r' \<and> dr_inv r'"
  using assms packet_flags_bits [of h] session_type_roundtrip [of "ph_sessionType h"]
  by (cases "ph_sourceNodeId h"; cases "ph_destNodeId h"; cases "ph_destGroupId h")
    (simp_all add: decodePacketHeader_def packet_header_ok_def codec_simps le_uint_le_bytes_id Let_def
      PacketHeader.defs DecodedPacketHeader.defs)

definition decoded_header :: "('a) PacketHeader_scheme \<Rightarrow> DecodedPacketHeader" where
  "decoded_header h = PacketHeader.extend (PacketHeader.truncate h)
     \<lparr>ph_securityFlags = session_type_number (ph_sessionType h)\<rparr>"

lemma decoded_header_simps [simp]:
  "ph_sessionId (decoded_header h) = ph_sessionId h"
  "ph_sessionType (decoded_header h) = ph_sessionType h"
  "ph_messageId (decoded_header h) = ph_messageId h"
  "ph_sourceNodeId (decoded_header h) = ph_sourceNodeId h"
  "ph_destNodeId (decoded_header h) = ph_destNodeId h"
  "ph_destGroupId (decoded_header h) = ph_destGroupId h"
  "ph_hasMessageExtensions (decoded_header h) = ph_hasMessageExtensions h"
  by (simp_all add: decoded_header_def PacketHeader.defs)

lemma decodePacket_bytes:
  assumes "packet_header_ok h" and "ph_destNodeId h = None \<or> ph_destGroupId h = None"
    and "bs = le_bytes 1 (packet_flags h) @ le_bytes 2 (ph_sessionId h) @
      le_bytes 1 (session_type_number (ph_sessionType h)) @ le_bytes 4 (ph_messageId h) @
      opt_bytes 8 (ph_sourceNodeId h) @ opt_bytes 8 (ph_destNodeId h) @ opt_bytes 2 (ph_destGroupId h) @ rest"
  shows "decodePacket bs = Inr \<lparr>pk_header = decoded_header h, pk_messageExtension = None,
    pk_applicationPayload = rest\<rparr>"
proof -
  obtain r' where "decodePacketHeader (new_DataReader bs Little) = Inr (decoded_header h, r')"
    and "getRemainingBytes r' = rest"
    using decodePacketHeader_bytes [of h "new_DataReader bs Little" rest] assms
    unfolding decoded_header_def by auto
  with assms(1) show ?thesis
    by (simp add: decodePacket_def packet_header_ok_def)
qed

lemma encodePacket_bytes:
  assumes "packet_header_ok (pk_header p)" and "pk_messageExtension p = None"
  shows "encodePacket p = Inr (le_bytes 1 (packet_flags (pk_header p)) @ le_bytes 2 (ph_sessionId (pk_header p)) @
    le_bytes 1 (session_type_number (ph_sessionType (pk_header p))) @ le_bytes 4 (ph_messageId (pk_header p)) @
    opt_bytes 8 (ph_sourceNodeId (pk_header p)) @ opt_bytes 8 (ph_destNodeId (pk_header p)) @
    opt_bytes 4 (ph_destGroupId (pk_header p)) @ pk_applicationPayload p)"
proof -
  have "\<not> ph_hasMessageExtensions (pk_header p)"
    using assms(1) by (simp add: packet_header_ok_def)
  with assms show ?thesis
    by (simp add: encodePacket_def encodePacketHeader_bytes)
qed

lemma decode_encode_packet:
  assumes "packet_header_ok (pk_header p)" and "pk_messageExtension p = None" and "ph_destGroupId (pk_header p) = None"
  shows "rbind (encodePacket p) decodePacket = Inr \<lparr>pk_header = decoded_header (pk_header p),
    pk_messageExtension = None, pk_applicationPayload = pk_applicationPayload p\<rparr>"
  using assms by (simp add: encodePacket_bytes decodePacket_bytes)

lemma le_bytes_add: "le_bytes (m + n) v = le_bytes m v @ le_bytes n (v div 256 ^ m)"
  by (induction m arbitrary: v) (simp_all add: zdiv_zmult2_eq)

lemma le_bytes_take_bit: "le_bytes n (take_bit (8 * n) v) = le_bytes n v"
  using le_bytes_le_uint [of "le_bytes n v" n] by (simp add: le_uint_le_bytes)

text \<open>
  The destination group is written with four bytes and read with two: the receiver of a packet
  for a group finds the upper half of the group, two zero bytes, in front of the payload.
\<close>

theorem group_destination_payload:
  assumes "packet_header_ok (pk_header p)" and "pk_messageExtension p = None"
    and "ph_destNodeId (pk_header p) = None" and "ph_destGroupId (pk_header p) = Some g"
  shows "rbind (encodePacket p) decodePacket = Inr \<lparr>pk_header = decoded_header (pk_header p),
    pk_messageExtension = None, pk_applicationPayload = [0, 0] @ pk_applicationPayload p\<rparr>"
proof -
  have "0 \<le> g" and "g < 65536"
    using assms(1,4) by (simp_all add: packet_header_ok_def)
  moreover have "le_bytes 2 0 = [0, 0]"
    by (simp add: numeral_2_eq_2)
  ultimately have "le_bytes 4 g = le_bytes 2 g @ [0, 0]"
    using le_bytes_add [of 2 2 g] by simp
  with assms show ?thesis
    by (simp add: encodePacket_bytes decodePacket_bytes)
qed

lemma two_destinations_rejected:
  assumes "packet_header_ok (pk_header p)" and "pk_messageExtension p = None"
    and "ph_destNodeId (pk_header p) = Some n" and "ph_destGroupId (pk_header p) = Some g"
  shows "rbind (encodePacket p) decodePacket = Inl UnexpectedDataError"
  using assms packet_flags_bits [of "pk_header p"]
  by (simp add: encodePacket_bytes decodePacket_def decodePacketHeader_def codec_simps)

subsection \<open>Payloads\<close>

definition payload_header_ok :: "PayloadHeader \<Rightarrow> bool" where
  "payload_header_ok h \<longleftrightarrow> uint_valid 2 (pl_exchangeId h) \<and> uint_valid 4 (pl_protocolId h) \<and>
     uint_valid 1 (pl_messageType h) \<and> opt_valid 4 (pl_ackedMessageId h) \<and> \<not> pl_hasSecuredExtension h"

lemma payload_vendorId_eq: "payload_vendorId h = to_int32 (pl_protocolId h) div 65536"
proof -
  have "to_int32 0xffff0000 = push_bit 16 (- 1)"
    by (simp add: to_int32_def not_int_def mask_eq_exp_minus_1)
  then have "payload_vendorId h = drop_bit 16 (to_int32 (pl_protocolId h))"
    by (intro bit_eqI)
      (simp add: payload_vendorId_def js_shr_def js_and_def bit_drop_bit_eq bit_and_iff bit_to_int32
        bit_not_iff bit_mask_iff min_def)
  then show ?thesis by (simp add: drop_bit_eq_div)
qed

lemma payload_vendorId_common_iff:
  assumes "uint_valid 4 (pl_protocolId h)"
  shows "payload_vendorId h = COMMON_VENDOR_ID \<longleftrightarrow> pl_protocolId h < 65536"
proof (cases "pl_protocolId h < 2 ^ 31")
  case True
  with assms have "payload_vendorId h = pl_protocolId h div 65536"
    by (simp add: payload_vendorId_eq to_int32_id)
  with assms show ?thesis
    by (auto simp: COMMON_VENDOR_ID_def div_eq_0_iff)
next
  case False
  have "pl_protocolId h div 2 ^ 31 = 1"
    using False assms by (intro int_div_pos_eq [where r = "pl_protocolId h - 2 ^ 31"]) auto
  then have "bit (pl_protocolId h) 31"
    by (simp add: bit_iff_odd)
  then have "to_int32 (pl_protocolId h) < 0"
    by (simp add: to_int32_def signed_take_bit_negative_iff)
  with False show ?thesis
    by (simp add: payload_vendorId_eq COMMON_VENDOR_ID_def div_eq_0_iff)
qed

lemma encodePayloadHeader_bytes:
  assumes "payload_header_ok h"
  shows "encodePayloadHeader h = Inr (le_bytes 1 (payload_flags h) @ le_bytes 1 (pl_messageType h) @
    le_bytes 2 (pl_exchangeId h) @
    (if payload_vendorId h \<noteq> COMMON_VENDOR_ID then le_bytes 4 (pl_protocolId h) else le_bytes 2 (pl_protocolId h)) @
    opt_bytes 4 (pl_ackedMessageId h))"
  using assms payload_flags_bits(6) [of h]
  by (cases "pl_ackedMessageId h")
    (simp_all add: encodePayloadHeader_def payload_header_ok_def toNumber_range Let_def)

lemma decodePayloadHeader_bytes:
  assumes "payload_header_ok h" and "dr_littleEndian r" and "dr_inv r"
    and "proto = (if payload_vendorId h \<noteq> COMMON_VENDOR_ID
                  then js_or (js_shl (pl_protocolId h mod 65536) 16) (pl_protocolId h div 65536)
                  else js_or 0 (pl_protocolId h mod 65536))"
    and "getRemainingBytes r = le_bytes 1 (payload_flags h) @ le_bytes 1 (pl_messageType h) @
      le_bytes 2 (pl_exchangeId h) @
      (if payload_vendorId h \<noteq> COMMON_VENDOR_ID then le_bytes 4 (pl_protocolId h) else le_bytes 2 (pl_protocolId h)) @
      opt_bytes 4 (pl_ackedMessageId h) @ rest"
  shows "\<exists>r'. decodePayloadHeader r = Inr (h\<lparr>pl_protocolId := proto\<rparr>, r') \<and> getRemainingBytes r' = rest"
proof -
  let ?p = "pl_protocolId h"
  have p: "0 \<le> ?p" "?p < 2 ^ 32"
    using assms(1) by (simp_all add: payload_header_ok_def)
  have "le_bytes 4 ?p = le_bytes 2 (?p mod 65536) @ le_bytes 2 (?p div 65536)"
    using le_bytes_add [of 2 2 ?p] le_bytes_take_bit [of 2 ?p] by (simp add: take_bit_eq_mod)
  moreover have "le_bytes 2 ?p = le_bytes 2 (?p mod 65536)"
    using le_bytes_take_bit [of 2 ?p] by (simp add: take_bit_eq_mod)
  moreover have "?p div 65536 < 65536" "0 \<le> ?p div 65536"
    using p by (simp_all add: div_less_iff_less_mult [symmetric])
  moreover have "js_shl 0 16 = 0" by (simp add: js_eval)
  ultimately show ?thesis
    using assms payload_flags_bits [of h]
    by (cases "payload_vendorId h = COMMON_VENDOR_ID"; cases "pl_ackedMessageId h")
      (simp_all add: decodePayloadHeader_def payload_header_ok_def codec_simps le_uint_le_bytes_id Let_def
        COMMON_VENDOR_ID_def)
qed

lemma js_or_0_id: "0 \<le> x \<Longrightarrow> x < 2 ^ 31 \<Longrightarrow> js_or 0 x = x"
  by (simp add: js_or_small)

lemma decode_encode_payload:
  assumes "payload_header_ok (msg_payloadHeader m)" and "msg_securityExtension m = None"
  shows "\<exists>p. encodePayload m = Inr p \<and> pk_header p = msg_packetHeader m \<and> pk_messageExtension p = None \<and>
    (\<forall>h. decodePayload \<lparr>pk_header = h, pk_messageExtension = None,
            pk_applicationPayload = pk_applicationPayload p\<rparr> =
       Inr \<lparr>msg_packetHeader = h,
            msg_payloadHeader = (msg_payloadHeader m)\<lparr>pl_protocolId :=
              (if pl_protocolId (msg_payloadHeader m) < 65536 then pl_protocolId (msg_payloadHeader m)
               else js_or (js_shl (pl_protocolId (msg_payloadHeader m) mod 65536) 16)
                          (pl_protocolId (msg_payloadHeader m) div 65536))\<rparr>,
            msg_securityExtension = None, msg_payload = msg_payload m\<rparr>)"
proof -
  let ?h = "msg_payloadHeader m" and ?p = "pl_protocolId (msg_payloadHeader m)"
  let ?bs = "le_bytes 1 (payload_flags ?h) @ le_bytes 1 (pl_messageType ?h) @ le_bytes 2 (pl_exchangeId ?h) @
    (if payload_vendorId ?h \<noteq> COMMON_VENDOR_ID then le_bytes 4 ?p else le_bytes 2 ?p) @
    opt_bytes 4 (pl_ackedMessageId ?h)"
  let ?proto = "if payload_vendorId ?h \<noteq> COMMON_VENDOR_ID
    then js_or (js_shl (?p mod 65536) 16) (?p div 65536) else js_or 0 (?p mod 65536)"
  have p: "0 \<le> ?p" and sec: "\<not> pl_hasSecuredExtension ?h"
    using assms(1) by (simp_all add: payload_header_ok_def)
  have proto: "?proto = (if ?p < 65536 then ?p else js_or (js_shl (?p mod 65536) 16) (?p div 65536))"
    using payload_vendorId_common_iff [of ?h] assms(1) p
    by (simp add: payload_header_ok_def js_or_0_id)
  have "\<exists>r'. decodePayloadHeader (new_DataReader (?bs @ msg_payload m) Little) =
      Inr (?h\<lparr>pl_protocolId := ?proto\<rparr>, r') \<and> getRemainingBytes r' = msg_payload m"
    using assms(1) by (intro decodePayloadHeader_bytes) simp_all
  then show ?thesis
    using assms sec unfolding proto
    by (auto simp: encodePayload_def encodePayloadHeader_bytes decodePayload_def)
qed

text \<open>The encoder looks at neither of two flags of the packet header.\<close>

definition plain_header :: "('a) PacketHeader_scheme \<Rightarrow> ('a) PacketHeader_scheme" where
  "plain_header h = h\<lparr>ph_hasPrivacyEnhancements := False, ph_isControlMessage := False\<rparr>"

definition packet_header_fits :: "('a) PacketHeader_scheme \<Rightarrow> bool" where
  "packet_header_fits h \<longleftrightarrow> uint_valid 2 (ph_sessionId h) \<and> uint_valid 4 (ph_messageId h) \<and>
     opt_valid 8 (ph_sourceNodeId h) \<and> opt_valid 8 (ph_destNodeId h) \<and> opt_valid 2 (ph_destGroupId h)"

definition payload_header_fits :: "PayloadHeader \<Rightarrow> bool" where
  "payload_header_fits h \<longleftrightarrow> uint_valid 2 (pl_exchangeId h) \<and> uint_valid 4 (pl_protocolId h) \<and>
     uint_valid 1 (pl_messageType h) \<and> opt_valid 4 (pl_ackedMessageId h)"

lemma encodePacket_plain: "encodePacket (p\<lparr>pk_header := plain_header (pk_header p)\<rparr>) = encodePacket p"
  by (simp add: encodePacket_def encodePacketHeader_def packet_flags_def plain_header_def)

text \<open>
  C5. The whole path of a message: encoding the payload, then the packet, and decoding both again.  For every message without
  destination group, of a standard protocol and with fields in their ranges, the encoder refuses it if it has a security extension or
  if its headers announce extensions; otherwise the headers, with all optional fields, and the payload come back, except for the flags
  of control messages and of privacy enhancements, which the encoder drops.
\<close>

theorem decode_encode_message:
  assumes "packet_header_fits (msg_packetHeader m)" and "ph_destGroupId (msg_packetHeader m) = None"
    and "payload_header_fits (msg_payloadHeader m)" and "pl_protocolId (msg_payloadHeader m) < 65536"
  shows "rbind (encodePayload m) (\<lambda>p. rbind (encodePacket p) (\<lambda>bs. rbind (decodePacket bs) decodePayload)) =
    (if msg_securityExtension m \<noteq> None \<or> pl_hasSecuredExtension (msg_payloadHeader m) \<or> ph_hasMessageExtensions (msg_packetHeader m)
     then Inl NotImplementedError
     else Inr \<lparr>msg_packetHeader = decoded_header (plain_header (msg_packetHeader m)), msg_payloadHeader = msg_payloadHeader m,
            msg_securityExtension = None, msg_payload = msg_payload m\<rparr>)"
proof (cases "msg_securityExtension m \<noteq> None \<or> pl_hasSecuredExtension (msg_payloadHeader m)")
  case True
  then show ?thesis by (auto simp: encodePayload_def)
next
  case False
  then have ok: "payload_header_ok (msg_payloadHeader m)" "msg_securityExtension m = None"
    using assms(3) by (simp_all add: payload_header_ok_def payload_header_fits_def)
  obtain p where p: "encodePayload m = Inr p" "pk_header p = msg_packetHeader m" "pk_messageExtension p = None"
    and d: "\<And>h. decodePayload \<lparr>pk_header = h, pk_messageExtension = None,
        pk_applicationPayload = pk_applicationPayload p\<rparr> =
      Inr \<lparr>msg_packetHeader = h, msg_payloadHeader = msg_payloadHeader m,
        msg_securityExtension = None, msg_payload = msg_payload m\<rparr>"
    using decode_encode_payload [OF ok] assms(4) by auto
  show ?thesis
  proof (cases "ph_hasMessageExtensions (msg_packetHeader m)")
    case True
    then show ?thesis using p by (simp add: encodePacket_def)
  next
    case no_ext: False
    let ?p = "p\<lparr>pk_header := plain_header (pk_header p)\<rparr>"
    have "packet_header_ok (pk_header ?p)"
      using assms(1) no_ext p(2) by (simp add: packet_header_ok_def packet_header_fits_def plain_header_def)
    then have "rbind (encodePacket ?p) decodePacket = Inr \<lparr>pk_header = decoded_header (pk_header ?p),
        pk_messageExtension = None, pk_applicationPayload = pk_applicationPayload p\<rparr>"
      using decode_encode_packet [of ?p] p assms(2) by (simp add: plain_header_def)
    then have "rbind (encodePacket p) (\<lambda>bs. rbind (decodePacket bs) decodePayload) =
        decodePayload \<lparr>pk_header = decoded_header (plain_header (msg_packetHeader m)),
          pk_messageExtension = None, pk_applicationPayload = pk_applicationPayload p\<rparr>"
      unfolding encodePacket_plain rbind_assoc [symmetric] by (simp add: p(2))
    then show ?thesis using p(1) d False no_ext by simp
  qed
qed

theorem decode_encode_message_witness:
  "let m = \<lparr>msg_packetHeader = \<lparr>ph_sessionId = 258, ph_sessionType = Unicast,
              ph_hasPrivacyEnhancements = False, ph_isControlMessage = True, ph_hasMessageExtensions = False,
              ph_messageId = 77, ph_sourceNodeId = Some 5, ph_destNodeId = None, ph_destGroupId = None\<rparr>,
            msg_payloadHeader = \<lparr>pl_exchangeId = 3, pl_protocolId = 1, pl_messageType = 2,
              pl_isInitiatorMessage = True, pl_requiresAck = True, pl_ackedMessageId = Some 9,
              pl_hasSecuredExtension = False\<rparr>,
            msg_securityExtension = None, msg_payload = [1, 2, 3]\<rparr>
   in rbind (encodePayload m) (\<lambda>p. rbind (encodePacket p) (\<lambda>bs. rbind (decodePacket bs) decodePayload)) =
      Inr \<lparr>msg_packetHeader = decoded_header (plain_header (msg_packetHeader m)), msg_payloadHeader = msg_payloadHeader m,
         msg_securityExtension = None, msg_payload = msg_payload m\<rparr>"
  unfolding Let_def
  by (subst decode_encode_message) (simp_all add: packet_header_fits_def payload_header_fits_def opt_valid_def)

theorem group_destination_payload_witness:
  "let p = \<lparr>pk_header = \<lparr>ph_sessionId = 258, ph_sessionType = Group,
              ph_hasPrivacyEnhancements = False, ph_isControlMessage = False, ph_hasMessageExtensions = False,
              ph_messageId = 77, ph_sourceNodeId = Some 5, ph_destNodeId = None, ph_destGroupId = Some 6\<rparr>,
            pk_messageExtension = None, pk_applicationPayload = [1, 2, 3]\<rparr>
   in rbind (encodePacket p) decodePacket = Inr \<lparr>pk_header = decoded_header (pk_header p),
    pk_messageExtension = None, pk_applicationPayload = [0, 0] @ pk_applicationPayload p\<rparr>"
  unfolding Let_def
  by (rule group_destination_payload [where g = 6]) (simp_all add: packet_header_ok_def opt_valid_def)

lemma swapped_halves:
  assumes "0 < v" and "v < 2 ^ 15" and "0 \<le> p" and "p < 2 ^ 15"
  shows "js_or (js_shl ((v * 65536 + p) mod 65536) 16) ((v * 65536 + p) div 65536) = p * 65536 + v"
proof -
  have "(v * 65536 + p) mod 65536 = p" and d: "(v * 65536 + p) div 65536 = v"
    using assms by simp_all
  moreover have "js_shl p 16 = p * 65536"
    using assms by (subst js_shl_small) simp_all
  moreover have "js_or (p * 65536) v = p * 65536 + v"
  proof -
    have "push_bit 16 p OR v = p * 65536 + v"
      using or_shifted [of v 16 p] assms by simp
    moreover have "p * 65536 < 2 ^ 31" "v < 2 ^ 31"
      using assms by simp_all
    ultimately show ?thesis
      using assms by (simp add: js_or_small push_bit_eq_mult)
  qed
  ultimately show ?thesis by simp
qed

text \<open>
  A vendor specific protocol does not survive the payload header: the encoder writes the
  protocol number as one little endian 32 bit number, the decoder takes the first half for the
  vendor, so vendor and protocol come back exchanged.
\<close>

theorem vendor_protocol_swapped:
  assumes "payload_header_ok (msg_payloadHeader m)" and "msg_securityExtension m = None"
    and "pl_protocolId (msg_payloadHeader m) = vendor * 65536 + proto"
    and "0 < vendor" and "vendor < 2 ^ 15" and "0 \<le> proto" and "proto < 2 ^ 15"
  shows "\<exists>p. encodePayload m = Inr p \<and>
    (\<forall>h. \<exists>m'. decodePayload \<lparr>pk_header = h, pk_messageExtension = None,
            pk_applicationPayload = pk_applicationPayload p\<rparr> = Inr m' \<and>
          pl_protocolId (msg_payloadHeader m') = proto * 65536 + vendor)"
proof -
  have "\<not> vendor * 65536 + proto < 65536"
    using assms(4,6) by simp
  with decode_encode_payload [OF assms(1,2)] swapped_halves [OF assms(4-7)] assms(3)
  show ?thesis by auto
qed

theorem vendor_protocol_swapped_witness:
  "\<exists>p. encodePayload \<lparr>msg_packetHeader = \<lparr>ph_sessionId = 258, ph_sessionType = Unicast,
        ph_hasPrivacyEnhancements = False, ph_isControlMessage = False, ph_hasMessageExtensions = False,
        ph_messageId = 77, ph_sourceNodeId = None, ph_destNodeId = None, ph_destGroupId = None\<rparr>,
      msg_payloadHeader = \<lparr>pl_exchangeId = 3, pl_protocolId = 7 * 65536 + 1, pl_messageType = 2,
        pl_isInitiatorMessage = True, pl_requiresAck = True, pl_ackedMessageId = None,
        pl_hasSecuredExtension = False\<rparr>,
      msg_securityExtension = None, msg_payload = [1]\<rparr> = Inr p \<and>
    (\<forall>h. \<exists>m'. decodePayload \<lparr>pk_header = h, pk_messageExtension = None,
            pk_applicationPayload = pk_applicationPayload p\<rparr> = Inr m' \<and>
          pl_protocolId (msg_payloadHeader m') = 1 * 65536 + 7)"
  by (rule vendor_protocol_swapped) (simp_all add: payload_header_ok_def opt_valid_def)

end
