(* ===== verification/BtpCodec.thy ===== *)
theory BtpCodec
  imports MessageCodec
begin

text \<open>
  The packets of the Bluetooth transport protocol, \<^verbatim>\<open>codec/BtpCodec.ts\<close>: handshake request and
  response, data packets with their flag byte, and the advertisement of a commissionable device.
  \<^verbatim>\<open>BtpPacketPayload\<close> and \<^verbatim>\<open>DecodedBtpPacketPayload\<close> differ only in whether the segment may be
  absent, so the record is polymorphic in the type of that field.
\<close>

section \<open>Data\<close>

record BtpHandshakeRequest =
  hq_versions :: "int list"
  hq_attMtu :: int
  hq_clientWindowSize :: int

record BtpHandshakeResponse =
  hp_version :: int
  hp_attMtu :: int
  hp_windowSize :: int

record 's BtpPacketPayload =
  pp_ackNumber :: "int option"
  pp_sequenceNumber :: int
  pp_messageLength :: "int option"
  pp_segmentPayload :: 's

type_synonym DecodedBtpPacketPayload = "byte list BtpPacketPayload"

record BtpHeader =
  bh_isHandshakeRequest :: bool
  bh_hasManagementOpcode :: bool
  bh_hasAckNumber :: bool
  bh_isEndingSegment :: bool
  bh_isContinuingSegment :: bool
  bh_isBeginningSegment :: bool

record 's BtpPacket =
  bp_header :: BtpHeader
  bp_payload :: "'s BtpPacketPayload"

type_synonym DecodedBtpPacket = "byte list BtpPacket"

record BleAdvertisement =
  ad_discriminator :: int
  ad_vendorId :: int
  ad_productId :: int
  ad_hasAdditionalAdvertisementData :: bool

definition bit_HandshakeBit :: int where "bit_HandshakeBit = 0b01000000"
definition bit_ManagementMsg :: int where "bit_ManagementMsg = 0b00100000"
definition bit_AckMsg :: int where "bit_AckMsg = 0b00001000"
definition bit_EndSegment :: int where "bit_EndSegment = 0b00000100"
definition bit_ContinuingSegment :: int where "bit_ContinuingSegment = 0b00000010"
definition bit_BeginSegment :: int where "bit_BeginSegment = 0b00000001"
definition HandshakeManagementOpcode :: int where "HandshakeManagementOpcode = 0x6c"
definition HANDSHAKE_HEADER :: int where "HANDSHAKE_HEADER = 0b01100101"

lemmas btp_constant_defs =
  bit_HandshakeBit_def bit_ManagementMsg_def bit_AckMsg_def bit_EndSegment_def
  bit_ContinuingSegment_def bit_BeginSegment_def HandshakeManagementOpcode_def HANDSHAKE_HEADER_def

section \<open>Packets\<close>

definition decodeBtpPacketHeader :: "DataReader \<Rightarrow> (BtpHeader \<times> DataReader) result" where
  "decodeBtpPacketHeader r =
     rbind (readUInt8 r) (\<lambda>(headerBits, r).
     let isHandshakeRequest = (js_and headerBits bit_HandshakeBit \<noteq> 0);
         hasManagementOpcode = (js_and headerBits bit_ManagementMsg \<noteq> 0);
         hasAckNumber = (js_and headerBits bit_AckMsg \<noteq> 0);
         isEndingSegment = (js_and headerBits bit_EndSegment \<noteq> 0);
         isContinuingSegment = (js_and headerBits bit_ContinuingSegment \<noteq> 0);
         isBeginningSegment = (js_and headerBits bit_BeginSegment \<noteq> 0) in
     rbind (throw_if hasManagementOpcode BtpProtocolError) (\<lambda>_.
     Inr (\<lparr>bh_isHandshakeRequest = isHandshakeRequest, bh_hasManagementOpcode = hasManagementOpcode,
           bh_hasAckNumber = hasAckNumber, bh_isEndingSegment = isEndingSegment,
           bh_isContinuingSegment = isContinuingSegment, bh_isBeginningSegment = isBeginningSegment\<rparr>, r)))"

definition decodeBtpPacketPayload :: "DataReader \<Rightarrow> BtpHeader \<Rightarrow> DecodedBtpPacketPayload result" where
  "decodeBtpPacketPayload r h =
     rbind (read_if (bh_hasAckNumber h) readUInt8 r) (\<lambda>(ackNumber, r).
     rbind (readUInt8 r) (\<lambda>(sequenceNumber, r).
     rbind (read_if (bh_isBeginningSegment h) readUInt16 r) (\<lambda>(messageLength, r).
     Inr \<lparr>pp_ackNumber = ackNumber, pp_sequenceNumber = sequenceNumber,
          pp_messageLength = messageLength, pp_segmentPayload = getRemainingBytes r\<rparr>)))"

definition decodeBtpPacket :: "byte list \<Rightarrow> DecodedBtpPacket result" where
  "decodeBtpPacket data =
     rbind (decodeBtpPacketHeader (new_DataReader data Little)) (\<lambda>(header, r).
     rbind (decodeBtpPacketPayload r header) (\<lambda>payload.
     Inr \<lparr>bp_header = header, bp_payload = payload\<rparr>))"

definition btp_header_bits :: "BtpHeader \<Rightarrow> int" where
  "btp_header_bits h =
     js_or (js_or (js_or
       (if bh_hasAckNumber h then bit_AckMsg else 0)
       (if bh_isEndingSegment h then bit_EndSegment else 0))
       (if bh_isContinuingSegment h then bit_ContinuingSegment else 0))
       (if bh_isBeginningSegment h then bit_BeginSegment else 0)"

definition encodeBtpPacketHeader :: "BtpHeader \<Rightarrow> byte list result" where
  "encodeBtpPacketHeader h =
     rbind (throw_if (bh_isHandshakeRequest h \<or> bh_hasManagementOpcode h) BtpProtocolError) (\<lambda>_.
     written (writeUInt8 (btp_header_bits h) (new_DataWriter Little)))"

definition encodeBtpPacketPayload :: "BtpHeader \<Rightarrow> byte list option BtpPacketPayload \<Rightarrow> byte list result" where
  "encodeBtpPacketPayload h p =
     rbind (throw_if (\<not> bh_hasAckNumber h \<and> pp_ackNumber p \<noteq> None) BtpProtocolError) (\<lambda>_.
     rbind (throw_if (bh_hasAckNumber h \<and> pp_ackNumber p = None) BtpProtocolError) (\<lambda>_.
     rbind (throw_if (bh_isBeginningSegment h \<and> bh_isContinuingSegment h) BtpProtocolError) (\<lambda>_.
     rbind (throw_if (bh_isEndingSegment h \<and> \<not> bh_isContinuingSegment h \<and> \<not> bh_isBeginningSegment h)
              BtpProtocolError) (\<lambda>_.
     rbind (throw_if ((bh_isBeginningSegment h \<or> bh_isContinuingSegment h) \<and>
                (pp_segmentPayload p = None \<or> pp_segmentPayload p = Some [])) BtpProtocolError) (\<lambda>_.
     rbind (throw_if (bh_isBeginningSegment h \<and> pp_messageLength p = None) BtpProtocolError) (\<lambda>_.
     rbind (throw_if (\<not> bh_isBeginningSegment h \<and> pp_messageLength p \<noteq> None) BtpProtocolError) (\<lambda>_.
     let w = new_DataWriter Little;
         w = write_opt writeUInt8 (pp_ackNumber p) w;
         w = writeUInt8 (pp_sequenceNumber p) w;
         w = write_opt writeUInt16 (pp_messageLength p) w;
         w = write_opt writeByteArray (pp_segmentPayload p) w
     in written w)))))))"

definition encodeBtpPacket :: "byte list option BtpPacket \<Rightarrow> byte list result" where
  "encodeBtpPacket p =
     rbind (encodeBtpPacketHeader (bp_header p)) (\<lambda>h.
     rbind (encodeBtpPacketPayload (bp_header p) (bp_payload p)) (\<lambda>pl.
     concat_arrays [h, pl]))"

section \<open>Handshake\<close>

text \<open>\<^verbatim>\<open>versions[i]\<close> as the operand of a bitwise operator: an absent entry counts as 0.\<close>

definition version_at :: "int list \<Rightarrow> nat \<Rightarrow> int" where
  "version_at vs i = (if i < length vs then vs ! i else 0)"

definition version_byte :: "int list \<Rightarrow> nat \<Rightarrow> int" where
  "version_byte vs i = js_or (js_shl (version_at vs (i + 1)) 4) (version_at vs i)"

definition encodeBtpHandshakeRequest :: "BtpHandshakeRequest \<Rightarrow> byte list result" where
  "encodeBtpHandshakeRequest q =
     (let w = new_DataWriter Little;
          w = writeUInt8 HANDSHAKE_HEADER w;
          w = writeUInt8 HandshakeManagementOpcode w;
          w = writeUInt8 (version_byte (hq_versions q) 0) w;
          w = writeUInt8 (version_byte (hq_versions q) 2) w;
          w = writeUInt8 (version_byte (hq_versions q) 4) w;
          w = writeUInt8 (version_byte (hq_versions q) 6) w;
          w = writeUInt16 (hq_attMtu q) w;
          w = writeUInt8 (hq_clientWindowSize q) w
      in written w)"

definition encodeBtpHandshakeResponse :: "BtpHandshakeResponse \<Rightarrow> byte list result" where
  "encodeBtpHandshakeResponse p =
     (let w = new_DataWriter Little;
          w = writeUInt8 HANDSHAKE_HEADER w;
          w = writeUInt8 HandshakeManagementOpcode w;
          w = writeUInt8 (js_and (hp_version p) 0x0f) w;
          w = writeUInt16 (hp_attMtu p) w;
          w = writeUInt8 (hp_windowSize p) w
      in written w)"

text \<open>The two versions of a version byte, the high half first.\<close>

definition version_pair :: "int \<Rightarrow> int list" where
  "version_pair v = [js_shr (js_and v 0xf0) 4, js_and v 0x0f]"

definition decodeHandshakeRequestPayload :: "DataReader \<Rightarrow> BtpHandshakeRequest result" where
  "decodeHandshakeRequestPayload r =
     rbind (readUInt8 r) (\<lambda>(header, r).
     rbind (readUInt8 r) (\<lambda>(opcode, r).
     rbind (readUInt8 r) (\<lambda>(v0, r).
     rbind (throw_if (header \<noteq> HANDSHAKE_HEADER) BtpProtocolError) (\<lambda>_.
     rbind (throw_if (opcode \<noteq> HandshakeManagementOpcode) BtpProtocolError) (\<lambda>_.
     rbind (readUInt8 r) (\<lambda>(v1, r).
     rbind (readUInt8 r) (\<lambda>(v2, r).
     rbind (readUInt8 r) (\<lambda>(v3, r).
     let ver = version_pair v0 @ version_pair v1 @ version_pair v2 @ version_pair v3;
         versions = filter (\<lambda>v. v \<noteq> 0) ver in
     rbind (throw_if (versions = []) BtpProtocolError) (\<lambda>_.
     rbind (readUInt16 r) (\<lambda>(attMtu, r).
     rbind (readUInt8 r) (\<lambda>(clientWindowSize, r).
     Inr \<lparr>hq_versions = versions, hq_attMtu = attMtu, hq_clientWindowSize = clientWindowSize\<rparr>)))))))))))"

definition decodeBtpHandshakeRequest :: "byte list \<Rightarrow> BtpHandshakeRequest result" where
  "decodeBtpHandshakeRequest data = decodeHandshakeRequestPayload (new_DataReader data Little)"

definition decodeBtpHandshakeResponsePayload :: "byte list \<Rightarrow> BtpHandshakeResponse result" where
  "decodeBtpHandshakeResponsePayload data =
     rbind (readUInt8 (new_DataReader data Little)) (\<lambda>(header, r).
     rbind (throw_if (header \<noteq> HANDSHAKE_HEADER) BtpProtocolError) (\<lambda>_.
     rbind (readUInt8 r) (\<lambda>(opcode, r).
     rbind (throw_if (opcode \<noteq> HandshakeManagementOpcode) BtpProtocolError) (\<lambda>_.
     rbind (readUInt8 r) (\<lambda>(v, r).
     let version = js_and v 0x0f in
     rbind (readUInt16 r) (\<lambda>(attMtu, r).
     rbind (readUInt8 r) (\<lambda>(windowSize, r).
     Inr \<lparr>hp_version = version, hp_attMtu = attMtu, hp_windowSize = windowSize\<rparr>)))))))"

section \<open>Advertisement\<close>

definition encodeBleAdvertisementData :: "int \<Rightarrow> int \<Rightarrow> int \<Rightarrow> bool \<Rightarrow> byte list result" where
  "encodeBleAdvertisementData discriminator vendorId productId hasAdditionalAdvertisementData =
     (let w = new_DataWriter Little;
          w = writeUInt8 0x02 w;
          w = writeUInt8 0x01 w;
          w = writeUInt8 0x06 w;
          w = writeUInt8 0x0b w;
          w = writeUInt8 0x16 w;
          w = writeUInt16 0xfff6 w;
          w = writeUInt8 0x00 w;
          w = writeUInt16 discriminator w;
          w = writeUInt16 vendorId w;
          w = writeUInt16 productId w;
          w = writeUInt8 (if hasAdditionalAdvertisementData then 0x01 else 0x00) w
      in written w)"

definition decodeBleAdvertisementServiceData :: "byte list \<Rightarrow> BleAdvertisement result" where
  "decodeBleAdvertisementServiceData data =
     rbind (readUInt8 (new_DataReader data Little)) (\<lambda>(opcode, r).
     rbind (throw_if (opcode \<noteq> 0x00) BleError) (\<lambda>_.
     rbind (readUInt16 r) (\<lambda>(discriminator, r).
     rbind (readUInt16 r) (\<lambda>(vendorId, r).
     rbind (readUInt16 r) (\<lambda>(productId, r).
     rbind (readUInt8 r) (\<lambda>(additional, r).
     Inr \<lparr>ad_discriminator = discriminator, ad_vendorId = vendorId, ad_productId = productId,
          ad_hasAdditionalAdvertisementData = (additional \<noteq> 0)\<rparr>))))))"

text \<open>The condition \<^verbatim>\<open>reader.readUInt8() !== b || ...\<close>: reading stops at the first byte that differs.\<close>

fun expect_bytes :: "int list \<Rightarrow> DataReader \<Rightarrow> DataReader result" where
  "expect_bytes [] r = Inr r"
| "expect_bytes (b # bs) r =
     rbind (readUInt8 r) (\<lambda>(v, r). if v \<noteq> b then Inl BleError else expect_bytes bs r)"

definition decodeBleAdvertisementData :: "byte list \<Rightarrow> BleAdvertisement result" where
  "decodeBleAdvertisementData data =
     rbind (expect_bytes [0x02, 0x01, 0x06, 0x0b, 0x16] (new_DataReader data Little)) (\<lambda>r.
     rbind (readUInt16 r) (\<lambda>(serviceUuid, r).
     rbind (throw_if (serviceUuid \<noteq> 0xfff6) BleError) (\<lambda>_.
     decodeBleAdvertisementServiceData (getRemainingBytes r))))"

section \<open>Lemmas\<close>

lemma btp_header_bits:
  "js_and (btp_header_bits h) bit_HandshakeBit = 0"
  "js_and (btp_header_bits h) bit_ManagementMsg = 0"
  "js_and (btp_header_bits h) bit_AckMsg \<noteq> 0 \<longleftrightarrow> bh_hasAckNumber h"
  "js_and (btp_header_bits h) bit_EndSegment \<noteq> 0 \<longleftrightarrow> bh_isEndingSegment h"
  "js_and (btp_header_bits h) bit_ContinuingSegment \<noteq> 0 \<longleftrightarrow> bh_isContinuingSegment h"
  "js_and (btp_header_bits h) bit_BeginSegment \<noteq> 0 \<longleftrightarrow> bh_isBeginningSegment h"
  "0 \<le> btp_header_bits h \<and> btp_header_bits h < 2 ^ 8"
  by (simp_all add: btp_header_bits_def btp_constant_defs js_eval)

text \<open>
  The packets the encoder accepts: flags and optional fields agree, and the numbers fit their
  fields.
\<close>

definition btp_packet_ok :: "byte list option BtpPacket \<Rightarrow> bool" where
  "btp_packet_ok p \<longleftrightarrow>
     (let h = bp_header p; pl = bp_payload p in
      \<not> bh_isHandshakeRequest h \<and> \<not> bh_hasManagementOpcode h \<and>
      bh_hasAckNumber h = (pp_ackNumber pl \<noteq> None) \<and>
      \<not> (bh_isBeginningSegment h \<and> bh_isContinuingSegment h) \<and>
      (bh_isEndingSegment h \<longrightarrow> bh_isContinuingSegment h \<or> bh_isBeginningSegment h) \<and>
      (bh_isBeginningSegment h \<or> bh_isContinuingSegment h \<longrightarrow>
         pp_segmentPayload pl \<noteq> None \<and> pp_segmentPayload pl \<noteq> Some []) \<and>
      bh_isBeginningSegment h = (pp_messageLength pl \<noteq> None) \<and>
      uint_valid 1 (pp_sequenceNumber pl) \<and> opt_valid 1 (pp_ackNumber pl) \<and>
      opt_valid 2 (pp_messageLength pl))"

definition btp_packet_bytes :: "byte list option BtpPacket \<Rightarrow> byte list" where
  "btp_packet_bytes p =
     le_bytes 1 (btp_header_bits (bp_header p)) @ opt_bytes 1 (pp_ackNumber (bp_payload p)) @
     le_bytes 1 (pp_sequenceNumber (bp_payload p)) @ opt_bytes 2 (pp_messageLength (bp_payload p)) @
     (case pp_segmentPayload (bp_payload p) of None \<Rightarrow> [] | Some s \<Rightarrow> s)"

lemma encodeBtpPacket_bytes:
  "btp_packet_ok p \<Longrightarrow> encodeBtpPacket p = Inr (btp_packet_bytes p)"
  using btp_header_bits(7) [of "bp_header p"]
  by (cases "pp_ackNumber (bp_payload p)"; cases "pp_messageLength (bp_payload p)";
      cases "pp_segmentPayload (bp_payload p)")
    (auto simp: encodeBtpPacket_def encodeBtpPacketHeader_def encodeBtpPacketPayload_def btp_packet_ok_def
      btp_packet_bytes_def Let_def toNumber_range)

definition decoded_btp_packet :: "byte list option BtpPacket \<Rightarrow> DecodedBtpPacket" where
  "decoded_btp_packet p =
     \<lparr>bp_header = bp_header p, bp_payload =
       \<lparr>pp_ackNumber = pp_ackNumber (bp_payload p), pp_sequenceNumber = pp_sequenceNumber (bp_payload p),
        pp_messageLength = pp_messageLength (bp_payload p),
        pp_segmentPayload = (case pp_segmentPayload (bp_payload p) of None \<Rightarrow> [] | Some s \<Rightarrow> s)\<rparr>\<rparr>"

lemma decodeBtpPacket_bytes:
  "btp_packet_ok p \<Longrightarrow> decodeBtpPacket (btp_packet_bytes p) = Inr (decoded_btp_packet p)"
  using btp_header_bits [of "bp_header p"]
  by (cases "pp_ackNumber (bp_payload p)"; cases "pp_messageLength (bp_payload p)")
    (auto simp: decodeBtpPacket_def decodeBtpPacketHeader_def decodeBtpPacketPayload_def btp_packet_ok_def
      btp_packet_bytes_def decoded_btp_packet_def Let_def codec_simps le_uint_le_bytes_id)

text \<open>
  C27. A BTP packet survives the wire: what the encoder accepts, the decoder returns, flags,
  acknowledgement, sequence number, message length and segment, an absent segment as an empty one.
\<close>

theorem btp_packet_roundtrip:
  assumes "btp_packet_ok p"
  shows "rbind (encodeBtpPacket p) decodeBtpPacket = Inr (decoded_btp_packet p)"
  using assms by (simp add: encodeBtpPacket_bytes decodeBtpPacket_bytes)

theorem btp_packet_roundtrip_witness:
  "let p = \<lparr>bp_header = \<lparr>bh_isHandshakeRequest = False, bh_hasManagementOpcode = False, bh_hasAckNumber = True,
              bh_isEndingSegment = True, bh_isContinuingSegment = False, bh_isBeginningSegment = True\<rparr>,
            bp_payload = \<lparr>pp_ackNumber = Some 7, pp_sequenceNumber = 255, pp_messageLength = Some 3,
              pp_segmentPayload = Some [1, 2, 3]\<rparr>\<rparr>
   in rbind (encodeBtpPacket p) decodeBtpPacket = Inr (decoded_btp_packet p)"
  unfolding Let_def by (rule btp_packet_roundtrip) (simp add: btp_packet_ok_def)

section \<open>Handshake and advertisement\<close>

lemma version_byte_eq:
  assumes "0 \<le> a" "a < 16" "0 \<le> b" "b < 16"
  shows "js_or (js_shl a 4) b = a * 16 + b"
proof -
  have "js_shl a 4 = push_bit 4 a"
    using assms by (subst js_shl_small) (simp_all add: push_bit_eq_mult)
  moreover have "push_bit 4 a OR b = a * 16 + b"
    using or_shifted [of b 4 a] assms by simp
  moreover have "0 \<le> push_bit 4 a" "push_bit 4 a < 2 ^ 31"
    using assms by (simp_all add: push_bit_eq_mult)
  ultimately show ?thesis
    using assms by (simp add: js_or_small)
qed

lemma js_and_15: "0 \<le> v \<Longrightarrow> v < 2 ^ 31 \<Longrightarrow> js_and v 15 = v mod 16"
  using take_bit_eq_mask [of 4 v] by (simp add: js_and_small mask_eq_exp_minus_1 take_bit_eq_mod)

lemma version_pair_eq:
  assumes "0 \<le> a" "a < 16" "0 \<le> b" "b < 16"
  shows "version_pair (a * 16 + b) = [a, b]"
proof -
  let ?v = "a * 16 + b"
  have r: "0 \<le> ?v" "?v < 256" and d: "?v div 16 = a"
    using assms by simp_all
  have "js_and ?v 240 = ?v AND 240"
    using r by (simp add: js_and_small)
  moreover have "to_int32 (?v AND 240) = ?v AND 240"
  proof -
    have "to_int32 x = x" if "x < 256" "0 \<le> x" for x
      using that by (simp add: to_int32_id)
    then show ?thesis
      using r(2) AND_upper1 [OF r(1), of 240] AND_lower [OF r(1), of 240] by simp
  qed
  ultimately have "js_shr (js_and ?v 240) 4 = drop_bit 4 (?v AND 240)"
    by (simp add: js_shr_def)
  also have "\<dots> = drop_bit 4 ?v AND drop_bit 4 240"
    by (rule drop_bit_and)
  also have "\<dots> = (?v div 16) AND 15"
    by (simp add: drop_bit_eq_div)
  also have "\<dots> = a"
    using take_bit_eq_mask [of 4 a] assms d
    by (simp add: mask_eq_exp_minus_1 take_bit_eq_mod)
  finally show ?thesis
    using r assms by (simp add: version_pair_def js_and_15)
qed

definition versions_ok :: "int list \<Rightarrow> bool" where
  "versions_ok vs \<longleftrightarrow> vs \<noteq> [] \<and> length vs \<le> 8 \<and> list_all (\<lambda>v. 0 < v \<and> v < 16) vs"

lemma version_at_range: "versions_ok vs \<Longrightarrow> 0 \<le> version_at vs i \<and> version_at vs i < 16"
  by (auto simp: version_at_def versions_ok_def list_all_length order_less_imp_le)

lemma version_byte_pair:
  assumes "versions_ok vs"
  shows "version_pair (version_byte vs i) = [version_at vs (i + 1), version_at vs i]"
    and "0 \<le> version_byte vs i" and "version_byte vs i < 256"
  using version_at_range [OF assms, of i] version_at_range [OF assms, of "i + 1"]
  by (simp_all add: version_byte_def version_byte_eq version_pair_eq)

text \<open>The versions as the decoder lists them: each byte's pair comes back exchanged.\<close>

definition swapped_versions :: "int list \<Rightarrow> int list" where
  "swapped_versions vs = filter (\<lambda>v. v \<noteq> 0) (map (version_at vs) [1, 0, 3, 2, 5, 4, 7, 6])"

lemma set_swapped_versions:
  assumes "versions_ok vs"
  shows "set (swapped_versions vs) = set vs"
proof -
  have pos: "i < length vs \<Longrightarrow> vs ! i \<noteq> 0" for i
    using assms by (auto simp: versions_ok_def list_all_length)
  have "set [1, 0, 3, 2, 5, 4, 7, 6 :: nat] = {0..<8}"
    by (intro set_eqI) (simp, arith)
  then have "set (swapped_versions vs) = {v. v \<noteq> 0 \<and> (\<exists>i < 8. v = version_at vs i)}"
    unfolding swapped_versions_def set_filter set_map by auto
  also have "\<dots> = {v. \<exists>i < length vs. v = vs ! i}"
    using assms pos by (auto simp: version_at_def versions_ok_def)
  finally show ?thesis by (auto simp: in_set_conv_nth)
qed

lemma handshake_request_bytes:
  assumes "versions_ok (hq_versions q)" and "uint_valid 2 (hq_attMtu q)" and "uint_valid 1 (hq_clientWindowSize q)"
  shows "rbind (encodeBtpHandshakeRequest q) decodeBtpHandshakeRequest =
    Inr (q\<lparr>hq_versions := swapped_versions (hq_versions q)\<rparr>)"
proof -
  have ne: "swapped_versions (hq_versions q) \<noteq> []"
    using set_swapped_versions [OF assms(1)] assms(1) by (metis set_empty versions_ok_def)
  let ?b = "version_byte (hq_versions q)"
  have sw: "filter (\<lambda>v. v \<noteq> 0) (version_pair (?b 0) @ version_pair (?b 2) @ version_pair (?b 4) @ version_pair (?b 6))
      = swapped_versions (hq_versions q)"
    by (simp add: version_byte_pair [OF assms(1)] swapped_versions_def numeral_eq_Suc)
  have b: "uint (word_of_int (toNumber (?b i)) :: byte) = ?b i" for i
    using version_byte_pair(2,3) [OF assms(1), of i] by (simp add: toNumber_range codec_simps)
  show ?thesis
    using assms(2,3) ne
    by (simp add: encodeBtpHandshakeRequest_def decodeBtpHandshakeRequest_def decodeHandshakeRequestPayload_def
        toNumber_range codec_simps le_uint_le_bytes_id btp_constant_defs Let_def b sw del: filter_append)
qed

text \<open>
  The handshake finds a common version: of the at most eight versions a central offers, the
  peripheral decodes the same set, with the MTU and the window size unchanged.
\<close>

theorem handshake_request_roundtrip:
  assumes "versions_ok (hq_versions q)" and "uint_valid 2 (hq_attMtu q)" and "uint_valid 1 (hq_clientWindowSize q)"
  shows "\<exists>q'. rbind (encodeBtpHandshakeRequest q) decodeBtpHandshakeRequest = Inr q' \<and>
    set (hq_versions q') = set (hq_versions q) \<and> hq_attMtu q' = hq_attMtu q \<and>
    hq_clientWindowSize q' = hq_clientWindowSize q"
  using handshake_request_bytes [OF assms] set_swapped_versions [OF assms(1)] by simp

theorem handshake_request_roundtrip_witness:
  "\<exists>q'. rbind (encodeBtpHandshakeRequest \<lparr>hq_versions = [4, 3, 2], hq_attMtu = 247, hq_clientWindowSize = 8\<rparr>)
      decodeBtpHandshakeRequest = Inr q' \<and>
    set (hq_versions q') = {4, 3, 2} \<and> hq_attMtu q' = 247 \<and> hq_clientWindowSize q' = 8"
  using handshake_request_roundtrip
    [of "\<lparr>hq_versions = [4, 3, 2], hq_attMtu = 247, hq_clientWindowSize = 8\<rparr>"]
  by (simp add: versions_ok_def)

lemma handshake_response_roundtrip:
  assumes "0 \<le> hp_version p" "hp_version p < 16" and "uint_valid 2 (hp_attMtu p)" and "uint_valid 1 (hp_windowSize p)"
  shows "rbind (encodeBtpHandshakeResponse p) decodeBtpHandshakeResponsePayload = Inr p"
  using assms
  by (simp add: encodeBtpHandshakeResponse_def decodeBtpHandshakeResponsePayload_def js_and_15
      toNumber_range codec_simps le_uint_le_bytes_id btp_constant_defs Let_def)

lemma advertisement_roundtrip:
  assumes "uint_valid 2 d" and "uint_valid 2 v" and "uint_valid 2 p"
  shows "rbind (encodeBleAdvertisementData d v p a) decodeBleAdvertisementData =
    Inr \<lparr>ad_discriminator = d, ad_vendorId = v, ad_productId = p, ad_hasAdditionalAdvertisementData = a\<rparr>"
  using assms
  by (simp add: encodeBleAdvertisementData_def decodeBleAdvertisementData_def decodeBleAdvertisementServiceData_def
      toNumber_range codec_simps le_uint_le_bytes_id Let_def)

end
