(* ===== verification/BtpSession.thy ===== *)
theory BtpSession
  imports BtpCodec
begin

text \<open>
  The Bluetooth transport session, \<^verbatim>\<open>ble/BtpSessionHandler.ts\<close>: segmentation of outgoing Matter
  messages, reassembly of incoming ones, sequence numbers, acknowledgements and the receive window.

  The three callbacks of a session are the outputs of an operation.  JavaScript runs an operation
  without interruption up to its next \<^verbatim>\<open>await\<close>; each such section is one function here, and the
  relation \<open>btp_step\<close> interleaves the sections of all operations the way the event loop may.  A timer
  is the flag whether it runs.  \<^verbatim>\<open>fragmentSize - btpHeaderLength\<close> is taken as a number of bytes, so
  sessions with a fragment size below the header length are outside the model; the handshake
  never negotiates one (\<open>handshake_bounds\<close>).
\<close>

section \<open>State\<close>

datatype btp_output = WriteBle "byte list" | DisconnectBle | MatterMessage "byte list"

datatype btp_role = Central | Peripheral

record BtpSessionHandler =
  ss_fragmentSize :: int
  ss_clientWindowSize :: int
  ss_currentIncomingSegmentedMsgLength :: "int option"
  ss_currentIncomingSegmentedPayload :: "byte list option"
  ss_prevIncomingSequenceNumber :: int
  ss_prevIncomingAckNumber :: int
  ss_ackReceiveTimer :: bool
  ss_sequenceNumber :: int
  ss_prevAckedSequenceNumber :: int
  ss_queuedOutgoingMatterMessages :: "DataReader list"
  ss_sendInProgress :: bool
  ss_sendAckTimer :: bool
  ss_isActive :: bool

definition BLE_MINIMUM_ATT_MTU :: int where "BLE_MINIMUM_ATT_MTU = 23"
definition BLE_MAXIMUM_BTP_MTU :: int where "BLE_MAXIMUM_BTP_MTU = 247"
definition BTP_MAXIMUM_WINDOW_SIZE :: int where "BTP_MAXIMUM_WINDOW_SIZE = 255"
definition BTP_SUPPORTED_VERSIONS :: "int list" where "BTP_SUPPORTED_VERSIONS = [4]"
definition MAXIMUM_SEQUENCE_NUMBER :: int where "MAXIMUM_SEQUENCE_NUMBER = 255"

lemmas btp_session_constants = BLE_MINIMUM_ATT_MTU_def BLE_MAXIMUM_BTP_MTU_def
  BTP_MAXIMUM_WINDOW_SIZE_def BTP_SUPPORTED_VERSIONS_def

section \<open>Creation\<close>

definition new_BtpSessionHandler :: "btp_role \<Rightarrow> int \<Rightarrow> int \<Rightarrow> int \<Rightarrow> BtpSessionHandler result" where
  "new_BtpSessionHandler role btpVersion fragmentSize clientWindowSize =
     (let s = \<lparr>ss_fragmentSize = fragmentSize, ss_clientWindowSize = clientWindowSize,
               ss_currentIncomingSegmentedMsgLength = None, ss_currentIncomingSegmentedPayload = None,
               ss_prevIncomingSequenceNumber = 255, ss_prevIncomingAckNumber = - 1,
               ss_ackReceiveTimer = False, ss_sequenceNumber = 0, ss_prevAckedSequenceNumber = - 1,
               ss_queuedOutgoingMatterMessages = [], ss_sendInProgress = False,
               ss_sendAckTimer = False, ss_isActive = True\<rparr> in
      if btpVersion \<noteq> 4 then Inl BtpProtocolError
      else case role of
          Peripheral \<Rightarrow> Inr (s\<lparr>ss_ackReceiveTimer := True\<rparr>)
        | Central \<Rightarrow> Inr (s\<lparr>ss_sendAckTimer := True, ss_prevIncomingSequenceNumber := 0,
                         ss_prevIncomingAckNumber := - 1, ss_sequenceNumber := - 1\<rparr>))"

definition negotiated_attMtu :: "int option \<Rightarrow> int \<Rightarrow> int" where
  "negotiated_attMtu maxDataSize handshakeMtu =
     (case maxDataSize of
        None \<Rightarrow> BLE_MINIMUM_ATT_MTU
      | Some m \<Rightarrow>
          let m = m + 3 in
          if m > BLE_MINIMUM_ATT_MTU then
            (if handshakeMtu \<le> BLE_MINIMUM_ATT_MTU then min m BLE_MAXIMUM_BTP_MTU
             else min (min handshakeMtu m) BLE_MAXIMUM_BTP_MTU)
          else BLE_MINIMUM_ATT_MTU)"

definition createFromHandshakeRequest ::
  "int option \<Rightarrow> byte list \<Rightarrow> BtpSessionHandler result \<times> btp_output list" where
  "createFromHandshakeRequest maxDataSize handshakeRequestPayload =
     (case decodeBtpHandshakeRequest handshakeRequestPayload of
        Inl e \<Rightarrow> (Inl e, [])
      | Inr request \<Rightarrow>
          (case find (\<lambda>version. version \<in> set (hq_versions request)) BTP_SUPPORTED_VERSIONS of
             None \<Rightarrow> (Inl BtpProtocolError, [DisconnectBle])
           | Some version \<Rightarrow>
               let attMtu = negotiated_attMtu maxDataSize (hq_attMtu request);
                   fragmentSize = attMtu - 3;
                   windowSize = min BTP_MAXIMUM_WINDOW_SIZE (hq_clientWindowSize request) in
               (case rbind (encodeBtpHandshakeResponse
                              \<lparr>hp_version = version, hp_attMtu = attMtu, hp_windowSize = windowSize\<rparr>)
                      (\<lambda>handshakeResponse.
                       rbind (new_BtpSessionHandler Peripheral version fragmentSize windowSize)
                         (\<lambda>btpSession. Inr (handshakeResponse, btpSession))) of
                  Inl e \<Rightarrow> (Inl e, [])
                | Inr (handshakeResponse, btpSession) \<Rightarrow> (Inr btpSession, [WriteBle handshakeResponse]))))"

definition createAsCentral :: "byte list \<Rightarrow> BtpSessionHandler result" where
  "createAsCentral handshakeResponsePayload =
     rbind (decodeBtpHandshakeResponsePayload handshakeResponsePayload) (\<lambda>response.
     let fragmentSize = hp_attMtu response - 3 in
     new_BtpSessionHandler Central (hp_version response) fragmentSize (hp_windowSize response))"

section \<open>Sequence numbers and window\<close>

definition getNextSequenceNumber :: "BtpSessionHandler \<Rightarrow> int \<times> BtpSessionHandler" where
  "getNextSequenceNumber s =
     (let n = ss_sequenceNumber s + 1;
          n = (if n > MAXIMUM_SEQUENCE_NUMBER then 0 else n)
      in (n, s\<lparr>ss_sequenceNumber := n\<rparr>))"

definition exceedsWindowSize :: "BtpSessionHandler \<Rightarrow> int \<Rightarrow> int \<Rightarrow> bool" where
  "exceedsWindowSize s prevIncomingAckNumber currentSequenceNumber =
     (let prev = (if prevIncomingAckNumber > currentSequenceNumber
                  then prevIncomingAckNumber mod MAXIMUM_SEQUENCE_NUMBER - 1
                  else prevIncomingAckNumber)
      in currentSequenceNumber - prev > ss_clientWindowSize s - 1)"

section \<open>Closing\<close>

definition btp_close :: "BtpSessionHandler \<Rightarrow> btp_output list \<times> BtpSessionHandler" where
  "btp_close s =
     (let s = s\<lparr>ss_sendAckTimer := False, ss_ackReceiveTimer := False\<rparr> in
      if ss_isActive s then ([DisconnectBle], s\<lparr>ss_isActive := False\<rparr>) else ([], s))"

section \<open>Receiving\<close>

text \<open>
  The body of the \<^verbatim>\<open>try\<close> block in pieces: an exception leaves the assignments made before it in
  place, so each piece returns the exception, if any, beside the state.
\<close>

definition incoming_ack :: "DecodedBtpPacket \<Rightarrow> BtpSessionHandler \<Rightarrow> matter_error option \<times> BtpSessionHandler" where
  "incoming_ack p s =
     (case (bh_hasAckNumber (bp_header p), pp_ackNumber (bp_payload p)) of
        (True, Some ackNumber) \<Rightarrow>
          if ackNumber > ss_sequenceNumber s \<or> exceedsWindowSize s (ss_prevIncomingAckNumber s) ackNumber
          then (Some BtpProtocolError, s)
          else let s = s\<lparr>ss_ackReceiveTimer := False, ss_prevIncomingAckNumber := ackNumber\<rparr>;
                   s = (if ackNumber \<noteq> ss_sequenceNumber s then s\<lparr>ss_ackReceiveTimer := True\<rparr> else s)
               in (None, s)
      | _ \<Rightarrow> (None, s))"

definition incoming_segment :: "DecodedBtpPacket \<Rightarrow> BtpSessionHandler \<Rightarrow> matter_error option \<times> BtpSessionHandler" where
  "incoming_segment p s =
     (let h = bp_header p; segmentPayload = pp_segmentPayload (bp_payload p) in
      if bh_isBeginningSegment h then
        (if ss_currentIncomingSegmentedPayload s \<noteq> None then (Some BtpProtocolError, s)
         else (None, s\<lparr>ss_currentIncomingSegmentedMsgLength := pp_messageLength (bp_payload p),
                       ss_currentIncomingSegmentedPayload := Some segmentPayload\<rparr>))
      else if bh_isContinuingSegment h \<or> bh_isEndingSegment h then
        (case ss_currentIncomingSegmentedPayload s of
           None \<Rightarrow> (Some BtpProtocolError, s)
         | Some payload \<Rightarrow>
             if segmentPayload = [] then (Some BtpProtocolError, s)
             else (case concat_arrays [payload, segmentPayload] of
                     Inl e \<Rightarrow> (Some e, s)
                   | Inr joined \<Rightarrow> (None, s\<lparr>ss_currentIncomingSegmentedPayload := Some joined\<rparr>)))
      else (None, s))"

definition incoming_end ::
  "(byte list \<Rightarrow> unit result) \<Rightarrow> DecodedBtpPacket \<Rightarrow> BtpSessionHandler \<Rightarrow>
   matter_error option \<times> btp_output list \<times> BtpSessionHandler" where
  "incoming_end handleMatterMessagePayload p s =
     (if bh_isEndingSegment (bp_header p) then
        (case (ss_currentIncomingSegmentedMsgLength s, ss_currentIncomingSegmentedPayload s) of
           (Some len, Some payloadToProcess) \<Rightarrow>
             if int (length payloadToProcess) \<noteq> len then (Some BtpProtocolError, [], s)
             else let s = s\<lparr>ss_currentIncomingSegmentedMsgLength := None,
                           ss_currentIncomingSegmentedPayload := None\<rparr>
                  in (case handleMatterMessagePayload payloadToProcess of
                        Inl e \<Rightarrow> (Some e, [MatterMessage payloadToProcess], s)
                      | Inr _ \<Rightarrow> (None, [MatterMessage payloadToProcess], s))
         | _ \<Rightarrow> (Some BtpProtocolError, [], s))
      else (None, [], s))"

definition incoming_packet ::
  "(byte list \<Rightarrow> unit result) \<Rightarrow> DecodedBtpPacket \<Rightarrow> BtpSessionHandler \<Rightarrow>
   matter_error option \<times> btp_output list \<times> BtpSessionHandler" where
  "incoming_packet handleMatterMessagePayload p s =
     (let h = bp_header p; pl = bp_payload p in
      if bh_isHandshakeRequest h \<or> bh_hasManagementOpcode h then (Some BtpProtocolError, [], s)
      else if pp_segmentPayload pl = [] \<and> \<not> bh_hasAckNumber h then (Some BtpProtocolError, [], s)
      else if pp_sequenceNumber pl \<noteq> (ss_prevIncomingSequenceNumber s + 1) mod 256
      then (Some BtpProtocolError, [], s)
      else let s = s\<lparr>ss_prevIncomingSequenceNumber := pp_sequenceNumber pl, ss_sendAckTimer := True\<rparr> in
      (case incoming_ack p s of
         (Some e, s) \<Rightarrow> (Some e, [], s)
       | (None, s) \<Rightarrow>
           (case incoming_segment p s of
              (Some e, s) \<Rightarrow> (Some e, [], s)
            | (None, s) \<Rightarrow> incoming_end handleMatterMessagePayload p s)))"

definition handleIncomingBleData ::
  "(byte list \<Rightarrow> unit result) \<Rightarrow> byte list \<Rightarrow> BtpSessionHandler \<Rightarrow>
   unit result \<times> btp_output list \<times> BtpSessionHandler" where
  "handleIncomingBleData handleMatterMessagePayload data s =
     (if \<not> ss_isActive s then (Inr (), [], s)
      else
        let (error, out, s) =
          (if int (length data) > ss_fragmentSize s \<and> int (length data) > ss_fragmentSize s + 3
           then (Some BtpProtocolError, [], s)
           else (case decodeBtpPacket data of
                   Inl e \<Rightarrow> (Some e, [], s)
                 | Inr p \<Rightarrow> incoming_packet handleMatterMessagePayload p s)) in
        (case error of
           None \<Rightarrow> (Inr (), out, s)
         | Some e \<Rightarrow>
             let (closed, s) = btp_close s in
             (if e = BtpProtocolError then Inr () else Inl e, out @ closed, s)))"

section \<open>Sending\<close>

text \<open>
  The loop of \<^verbatim>\<open>processSendQueue\<close> up to \<^verbatim>\<open>await this.writeBleCallback(packet)\<close>.  The result is the value
  of \<^verbatim>\<open>isEndingSegment\<close>, which the section after the \<^verbatim>\<open>await\<close> needs.
\<close>

definition send_fragment :: "BtpSessionHandler \<Rightarrow> bool result \<times> btp_output list \<times> BtpSessionHandler" where
  "send_fragment s =
     (let currentProcessedMessage = hd (ss_queuedOutgoingMatterMessages s);
          remainingMessageLength = getRemainingBytesCount currentProcessedMessage;
          hasAckNumber = (ss_prevIncomingSequenceNumber s \<noteq> ss_prevAckedSequenceNumber s);
          s = (if hasAckNumber
               then s\<lparr>ss_prevAckedSequenceNumber := ss_prevIncomingSequenceNumber s, ss_sendAckTimer := False\<rparr>
               else s);
          isBeginningSegment = (remainingMessageLength = int (getLength currentProcessedMessage));
          btpHeaderLength = 2 + (if isBeginningSegment then 2 else 0) + (if hasAckNumber then 1 else 0);
          isEndingSegment = (remainingMessageLength \<le> ss_fragmentSize s - btpHeaderLength);
          packetHeader = \<lparr>bh_isHandshakeRequest = False, bh_hasManagementOpcode = False,
              bh_hasAckNumber = hasAckNumber, bh_isEndingSegment = isEndingSegment,
              bh_isContinuingSegment = \<not> isBeginningSegment, bh_isBeginningSegment = isBeginningSegment\<rparr>;
          (segmentPayload, reader) =
              readByteArray (nat (ss_fragmentSize s - btpHeaderLength)) currentProcessedMessage;
          s = s\<lparr>ss_queuedOutgoingMatterMessages := reader # tl (ss_queuedOutgoingMatterMessages s)\<rparr>;
          ackNumber = (if hasAckNumber then Some (ss_prevIncomingSequenceNumber s) else None);
          (sequenceNumber, s) = getNextSequenceNumber s;
          btpPacket = \<lparr>bp_header = packetHeader, bp_payload = \<lparr>pp_ackNumber = ackNumber,
              pp_sequenceNumber = sequenceNumber,
              pp_messageLength = (if isBeginningSegment then Some remainingMessageLength else None),
              pp_segmentPayload = Some segmentPayload\<rparr>\<rparr>
      in (case encodeBtpPacket btpPacket of
            Inl e \<Rightarrow> (Inl e, [], s)
          | Inr packet \<Rightarrow> (Inr isEndingSegment, [WriteBle packet], s)))"

text \<open>The rest of the loop body and the loop condition: whether the loop goes on.\<close>

definition fragment_written :: "bool \<Rightarrow> BtpSessionHandler \<Rightarrow> bool \<times> BtpSessionHandler" where
  "fragment_written isEndingSegment s =
     (let s = s\<lparr>ss_ackReceiveTimer := True\<rparr>;
          s = (if isEndingSegment
               then s\<lparr>ss_queuedOutgoingMatterMessages := tl (ss_queuedOutgoingMatterMessages s)\<rparr>
               else s)
      in if exceedsWindowSize s (ss_prevIncomingAckNumber s) (ss_sequenceNumber s)
         then (False, s\<lparr>ss_sendInProgress := False\<rparr>)
         else if ss_queuedOutgoingMatterMessages s = [] then (False, s\<lparr>ss_sendInProgress := False\<rparr>)
         else (True, s))"

text \<open>
  Sections of \<^verbatim>\<open>processSendQueue\<close>: \<open>Some isEndingSegment\<close> when it waits for a write, \<open>None\<close> when it
  has returned.
\<close>

type_synonym send_section = "bool option result \<times> btp_output list \<times> BtpSessionHandler"

definition suspended :: "bool result \<times> btp_output list \<times> BtpSessionHandler \<Rightarrow> send_section" where
  "suspended r = (case r of (res, out, s) \<Rightarrow> (rbind res (\<lambda>e. Inr (Some e)), out, s))"

definition processSendQueue :: "BtpSessionHandler \<Rightarrow> send_section" where
  "processSendQueue s =
     (if ss_sendInProgress s then (Inr None, [], s)
      else if exceedsWindowSize s (ss_prevIncomingAckNumber s) (ss_sequenceNumber s) then (Inr None, [], s)
      else if ss_queuedOutgoingMatterMessages s = [] then (Inr None, [], s)
      else suspended (send_fragment (s\<lparr>ss_sendInProgress := True\<rparr>)))"

definition processSendQueue_resume :: "bool \<Rightarrow> BtpSessionHandler \<Rightarrow> send_section" where
  "processSendQueue_resume isEndingSegment s =
     (let (again, s) = fragment_written isEndingSegment s in
      if again then suspended (send_fragment s) else (Inr None, [], s))"

definition sendMatterMessage :: "byte list \<Rightarrow> BtpSessionHandler \<Rightarrow> send_section" where
  "sendMatterMessage data s =
     (if \<not> ss_isActive s then (Inl BtpFlowError, [], s)
      else if data = [] then (Inl BtpFlowError, [], s)
      else processSendQueue (s\<lparr>ss_queuedOutgoingMatterMessages :=
             ss_queuedOutgoingMatterMessages s @ [new_DataReader data Little]\<rparr>))"

section \<open>Timers\<close>

text \<open>The callback up to its \<^verbatim>\<open>await\<close>; the flag says whether it waits for a write.\<close>

definition btpSendAckTimeoutTriggered ::
  "BtpSessionHandler \<Rightarrow> bool result \<times> btp_output list \<times> BtpSessionHandler" where
  "btpSendAckTimeoutTriggered s =
     (if ss_prevIncomingSequenceNumber s > ss_prevAckedSequenceNumber s then
        let header = \<lparr>bh_isHandshakeRequest = False, bh_hasManagementOpcode = False, bh_hasAckNumber = True,
              bh_isEndingSegment = False, bh_isContinuingSegment = False, bh_isBeginningSegment = False\<rparr>;
            ackNumber = ss_prevIncomingSequenceNumber s;
            (sequenceNumber, s) = getNextSequenceNumber s;
            btpPacket = \<lparr>bp_header = header, bp_payload = \<lparr>pp_ackNumber = Some ackNumber,
              pp_sequenceNumber = sequenceNumber, pp_messageLength = None, pp_segmentPayload = None\<rparr>\<rparr>;
            s = s\<lparr>ss_prevAckedSequenceNumber := ss_prevIncomingSequenceNumber s\<rparr>
        in (case encodeBtpPacket btpPacket of
              Inl e \<Rightarrow> (Inl e, [], s)
            | Inr packet \<Rightarrow> (Inr True, [WriteBle packet], s))
      else (Inr False, [], s))"

definition ack_written :: "BtpSessionHandler \<Rightarrow> BtpSessionHandler" where
  "ack_written s = s\<lparr>ss_ackReceiveTimer := True\<rparr>"

definition btpAckTimeoutTriggered :: "BtpSessionHandler \<Rightarrow> btp_output list \<times> BtpSessionHandler" where
  "btpAckTimeoutTriggered s =
     (if ss_prevIncomingAckNumber s \<noteq> ss_sequenceNumber s then btp_close s else ([], s))"

end
