(* ===== verification/BtpDelivery.thy ===== *)
theory BtpDelivery
  imports BtpSession "HOL-Library.Sublist"
begin

text \<open>
  What a Bluetooth transport session promises.  The specification of a connection is a byte stream
  cut into packets, \<open>wire_spec\<close>: packets no longer than the fragment size, numbered consecutively
  modulo 256, whose segments put together give complete messages.  \<open>btp_step\<close> interleaves the
  sections of the session's operations; the invariant \<open>send_inv\<close> of every reachable configuration
  says that the packets written so far satisfy the specification and that the messages they
  contain, with those still queued, are the messages submitted, in order.  A receiver implements
  the same specification, so the two ends compose.
\<close>

section \<open>The specification of a connection\<close>

type_synonym reassembly = "byte list list \<times> (int \<times> byte list) option"

definition reasm_segment :: "DecodedBtpPacket \<Rightarrow> (int \<times> byte list) option \<Rightarrow> (int \<times> byte list) option option" where
  "reasm_segment p cur =
     (let h = bp_header p; seg = pp_segmentPayload (bp_payload p) in
      if bh_isBeginningSegment h then
        (case (cur, pp_messageLength (bp_payload p)) of (None, Some l) \<Rightarrow> Some (Some (l, seg)) | _ \<Rightarrow> None)
      else if bh_isContinuingSegment h \<or> bh_isEndingSegment h then
        (case cur of Some (l, b) \<Rightarrow> if seg = [] then None else Some (Some (l, b @ seg)) | None \<Rightarrow> None)
      else Some cur)"

definition reasm_step :: "DecodedBtpPacket \<Rightarrow> reassembly \<Rightarrow> reassembly option" where
  "reasm_step p st =
     (case reasm_segment p (snd st) of
        None \<Rightarrow> None
      | Some cur \<Rightarrow>
          if bh_isEndingSegment (bp_header p) then
            (case cur of
               Some (l, b) \<Rightarrow> if int (length b) = l then Some (fst st @ [b], None) else None
             | None \<Rightarrow> None)
          else Some (fst st, cur))"

definition packet_shape :: "DecodedBtpPacket \<Rightarrow> bool" where
  "packet_shape p \<longleftrightarrow> \<not> bh_isHandshakeRequest (bp_header p) \<and> \<not> bh_hasManagementOpcode (bp_header p) \<and>
     (bh_hasAckNumber (bp_header p) \<or> pp_segmentPayload (bp_payload p) \<noteq> [])"

definition wire_step :: "int \<Rightarrow> byte list \<Rightarrow> int \<times> reassembly \<Rightarrow> (int \<times> reassembly) option" where
  "wire_step fs pkt st =
     (case decodeBtpPacket pkt of
        Inl _ \<Rightarrow> None
      | Inr p \<Rightarrow>
          if int (length pkt) \<le> fs \<and> packet_shape p \<and> pp_sequenceNumber (bp_payload p) = (fst st + 1) mod 256
          then map_option (\<lambda>r. (pp_sequenceNumber (bp_payload p), r)) (reasm_step p (snd st))
          else None)"

fun wire_spec :: "int \<Rightarrow> byte list list \<Rightarrow> int \<times> reassembly \<Rightarrow> (int \<times> reassembly) option" where
  "wire_spec fs [] st = Some st"
| "wire_spec fs (pkt # pkts) st = Option.bind (wire_step fs pkt st) (wire_spec fs pkts)"

lemma wire_spec_append:
  "wire_spec fs (a @ b) st = Option.bind (wire_spec fs a st) (wire_spec fs b)"
  by (induction a arbitrary: st) (auto split: Option.bind_split)

section \<open>Interleaved operations\<close>

record btp_config =
  cf_handler :: BtpSessionHandler
  cf_sending :: "bool option"
  cf_acking :: nat
  cf_wire :: "byte list list"
  cf_submitted :: "byte list list"
  cf_delivered :: "byte list list"

datatype btp_event =
    Incoming "byte list" | Submit "byte list" | WriteDone | WriteFailed
  | SendAckTimeout | AckWritten | AckTimeout | Close

fun writes :: "btp_output list \<Rightarrow> byte list list" where
  "writes [] = []"
| "writes (WriteBle b # out) = b # writes out"
| "writes (_ # out) = writes out"

fun messages :: "btp_output list \<Rightarrow> byte list list" where
  "messages [] = []"
| "messages (MatterMessage b # out) = b # messages out"
| "messages (_ # out) = messages out"

lemma writes_append [simp]: "writes (a @ b) = writes a @ writes b"
  by (induction a rule: writes.induct) auto

lemma messages_append [simp]: "messages (a @ b) = messages a @ messages b"
  by (induction a rule: messages.induct) auto

definition emit :: "btp_output list \<Rightarrow> BtpSessionHandler \<Rightarrow> btp_config \<Rightarrow> btp_config" where
  "emit out s c = c\<lparr>cf_handler := s, cf_wire := cf_wire c @ writes out,
     cf_delivered := cf_delivered c @ messages out\<rparr>"

text \<open>
  One rule per section.  \<open>cf_sending\<close> is the suspended \<^verbatim>\<open>processSendQueue\<close>, \<open>cf_acking\<close> counts suspended
  acknowledgement timer callbacks.  A failed write ends \<^verbatim>\<open>processSendQueue\<close> with the exception and
  leaves \<^verbatim>\<open>sendInProgress\<close> set.  Messages fit the 16 bit length field of a beginning segment.
\<close>

inductive btp_step :: "(byte list \<Rightarrow> unit result) \<Rightarrow> btp_config \<Rightarrow> btp_event \<Rightarrow> btp_config \<Rightarrow> bool"
  for handle :: "byte list \<Rightarrow> unit result" where
  incoming: "handleIncomingBleData handle data (cf_handler c) = (res, out, s) \<Longrightarrow>
    btp_step handle c (Incoming data) (emit out s c)"
| submit: "length data < 65536 \<Longrightarrow> sendMatterMessage data (cf_handler c) = (Inr k, out, s) \<Longrightarrow>
    btp_step handle c (Submit data)
      ((emit out s c)\<lparr>cf_submitted := cf_submitted c @ [data],
         cf_sending := (if k = None then cf_sending c else k)\<rparr>)"
| submit_rejected: "sendMatterMessage data (cf_handler c) = (Inl e, out, s) \<Longrightarrow> length data < 65536 \<Longrightarrow>
    btp_step handle c (Submit data) (emit out s c)"
| write_done: "cf_sending c = Some e \<Longrightarrow> processSendQueue_resume e (cf_handler c) = (res, out, s) \<Longrightarrow>
    btp_step handle c WriteDone
      ((emit out s c)\<lparr>cf_sending := (case res of Inl _ \<Rightarrow> None | Inr k \<Rightarrow> k)\<rparr>)"
| write_failed: "cf_sending c = Some e \<Longrightarrow> btp_step handle c WriteFailed (c\<lparr>cf_sending := None\<rparr>)"
| send_ack_timeout: "ss_sendAckTimer (cf_handler c) \<Longrightarrow>
    btpSendAckTimeoutTriggered ((cf_handler c)\<lparr>ss_sendAckTimer := False\<rparr>) = (res, out, s) \<Longrightarrow>
    btp_step handle c SendAckTimeout
      ((emit out s c)\<lparr>cf_acking := cf_acking c + (if res = Inr True then 1 else 0)\<rparr>)"
| ack_write_done: "0 < cf_acking c \<Longrightarrow>
    btp_step handle c AckWritten (c\<lparr>cf_handler := ack_written (cf_handler c), cf_acking := cf_acking c - 1\<rparr>)"
| ack_timeout: "ss_ackReceiveTimer (cf_handler c) \<Longrightarrow>
    btpAckTimeoutTriggered ((cf_handler c)\<lparr>ss_ackReceiveTimer := False\<rparr>) = (out, s) \<Longrightarrow>
    btp_step handle c AckTimeout (emit out s c)"
| close: "btp_close (cf_handler c) = (out, s) \<Longrightarrow> btp_step handle c Close (emit out s c)"

inductive btp_run :: "(byte list \<Rightarrow> unit result) \<Rightarrow> btp_config \<Rightarrow> btp_event list \<Rightarrow> btp_config \<Rightarrow> bool"
  for handle :: "byte list \<Rightarrow> unit result" where
  run_nil: "btp_run handle c [] c"
| run_snoc: "btp_run handle c es c' \<Longrightarrow> btp_step handle c' e c'' \<Longrightarrow> btp_run handle c (es @ [e]) c''"

definition initial_config :: "BtpSessionHandler \<Rightarrow> btp_config" where
  "initial_config s = \<lparr>cf_handler = s, cf_sending = None, cf_acking = 0, cf_wire = [],
     cf_submitted = [], cf_delivered = []\<rparr>"

section \<open>The invariant of the sending side\<close>

abbreviation rd_len :: "DataReader \<Rightarrow> nat" where "rd_len r \<equiv> length (dr_buffer r)"

definition partial_message :: "DataReader list \<Rightarrow> (int \<times> byte list) option" where
  "partial_message q =
     (case q of [] \<Rightarrow> None
      | r # _ \<Rightarrow> if dr_offset r = 0 \<or> dr_offset r = rd_len r then None
                else Some (int (rd_len r), take (dr_offset r) (dr_buffer r)))"

definition pending_messages :: "DataReader list \<Rightarrow> byte list list" where
  "pending_messages q =
     (case q of [] \<Rightarrow> []
      | r # rs \<Rightarrow> (if dr_offset r = rd_len r then [] else [dr_buffer r]) @ map dr_buffer rs)"

definition queue_ok :: "DataReader list \<Rightarrow> bool" where
  "queue_ok q \<longleftrightarrow> list_all (\<lambda>r. 0 < rd_len r \<and> rd_len r < 65536 \<and> dr_inv r) q \<and>
     list_all (\<lambda>r. dr_offset r = 0) (tl q)"

definition head_ready :: "DataReader list \<Rightarrow> bool" where
  "head_ready q \<longleftrightarrow> (case q of [] \<Rightarrow> True | r # _ \<Rightarrow> dr_offset r < rd_len r)"

definition numbers_ok :: "BtpSessionHandler \<Rightarrow> bool" where
  "numbers_ok s \<longleftrightarrow> 6 \<le> ss_fragmentSize s \<and> - 1 \<le> ss_sequenceNumber s \<and> ss_sequenceNumber s \<le> 255 \<and>
     0 \<le> ss_prevIncomingSequenceNumber s \<and> ss_prevIncomingSequenceNumber s \<le> 255"

definition control_ok :: "btp_config \<Rightarrow> bool" where
  "control_ok c \<longleftrightarrow>
     (let s = cf_handler c; q = ss_queuedOutgoingMatterMessages s in
      (\<not> ss_sendInProgress s \<longrightarrow> cf_sending c = None \<and> head_ready q) \<and>
      (case cf_sending c of None \<Rightarrow> True | Some e \<Rightarrow> q \<noteq> [] \<and> e = (\<not> head_ready q)))"

definition wire_inv :: "int \<Rightarrow> btp_config \<Rightarrow> bool" where
  "wire_inv start c \<longleftrightarrow>
     (let s = cf_handler c; q = ss_queuedOutgoingMatterMessages s in
      \<exists>finished. wire_spec (ss_fragmentSize s) (cf_wire c) (start, [], None) =
          Some (ss_sequenceNumber s, finished, partial_message q) \<and>
        finished @ pending_messages q = cf_submitted c)"

definition send_inv :: "int \<Rightarrow> btp_config \<Rightarrow> bool" where
  "send_inv start c \<longleftrightarrow> numbers_ok (cf_handler c) \<and>
     queue_ok (ss_queuedOutgoingMatterMessages (cf_handler c)) \<and> control_ok c \<and> wire_inv start c"

section \<open>What the sections write\<close>

lemma getNextSequenceNumber_eq:
  "numbers_ok s \<Longrightarrow> getNextSequenceNumber s =
     ((ss_sequenceNumber s + 1) mod 256, s\<lparr>ss_sequenceNumber := (ss_sequenceNumber s + 1) mod 256\<rparr>)"
  by (auto simp: getNextSequenceNumber_def numbers_ok_def MAXIMUM_SEQUENCE_NUMBER_def Let_def
      intro!: arg_cong [where f = "\<lambda>n. s\<lparr>ss_sequenceNumber := n\<rparr>"])

lemma seq_mod_range: "0 \<le> (n + 1) mod (256 :: int)" "(n + 1) mod (256 :: int) \<le> 255"
  by simp_all

text \<open>The packet that carries the next segment of the message \<open>r\<close>.\<close>

definition fragment_packet :: "int \<Rightarrow> int option \<Rightarrow> int \<Rightarrow> DataReader \<Rightarrow> byte list option BtpPacket" where
  "fragment_packet fs ack n r =
     (let room = nat (fs - (2 + (if dr_offset r = 0 then 2 else 0) + (if ack = None then 0 else 1))) in
      \<lparr>bp_header = \<lparr>bh_isHandshakeRequest = False, bh_hasManagementOpcode = False,
          bh_hasAckNumber = (ack \<noteq> None), bh_isEndingSegment = (rd_len r \<le> dr_offset r + room),
          bh_isContinuingSegment = (dr_offset r \<noteq> 0), bh_isBeginningSegment = (dr_offset r = 0)\<rparr>,
       bp_payload = \<lparr>pp_ackNumber = ack, pp_sequenceNumber = n,
          pp_messageLength = (if dr_offset r = 0 then Some (int (rd_len r)) else None),
          pp_segmentPayload = Some (take room (getRemainingBytes r))\<rparr>\<rparr>)"

definition fragment_room :: "int \<Rightarrow> int option \<Rightarrow> DataReader \<Rightarrow> nat" where
  "fragment_room fs ack r = nat (fs - (2 + (if dr_offset r = 0 then 2 else 0) + (if ack = None then 0 else 1)))"

lemma fragment_room_pos: "6 \<le> fs \<Longrightarrow> 0 < fragment_room fs ack r"
  by (simp add: fragment_room_def)

lemma fragment_packet_ok:
  assumes "6 \<le> fs" and "dr_offset r < rd_len r" and "rd_len r < 65536" and "0 \<le> n" "n \<le> 255"
    and "case ack of None \<Rightarrow> True | Some a \<Rightarrow> 0 \<le> a \<and> a \<le> 255"
  shows "btp_packet_ok (fragment_packet fs ack n r)"
  using assms
  by (auto simp: btp_packet_ok_def fragment_packet_def getRemainingBytes_def Let_def split: option.splits)

lemma fragment_packet_length:
  assumes "6 \<le> fs"
  shows "int (length (btp_packet_bytes (fragment_packet fs ack n r))) \<le> fs"
  using assms
  by (auto simp: btp_packet_bytes_def fragment_packet_def Let_def opt_bytes_def min_def split: option.splits)

lemma fragment_reasm:
  assumes "6 \<le> fs" and "dr_offset r < rd_len r"
  shows "reasm_step (decoded_btp_packet (fragment_packet fs ack n r)) (finished, partial_message (r # rs)) =
    Some (finished @ (if rd_len r \<le> dr_offset r + fragment_room fs ack r then [dr_buffer r] else []),
      partial_message (skip (fragment_room fs ack r) r # rs))"
proof -
  let ?k = "fragment_room fs ack r"
  have ne: "take ?k (drop (dr_offset r) (dr_buffer r)) \<noteq> []"
    using assms fragment_room_pos [OF assms(1), of ack r] by simp
  have "take (dr_offset r) (dr_buffer r) @ take ?k (drop (dr_offset r) (dr_buffer r)) =
      take (dr_offset r + ?k) (dr_buffer r)"
    by (simp add: take_add)
  with ne assms(2) fragment_room_pos [OF assms(1), of ack r] show ?thesis
    by (auto simp: reasm_step_def reasm_segment_def decoded_btp_packet_def fragment_packet_def
        fragment_room_def [symmetric] partial_message_def getRemainingBytes_def Let_def min_def)
qed

lemma wire_spec_snoc:
  assumes "wire_spec fs w st = Some st'" and "btp_packet_ok p" and "int (length (btp_packet_bytes p)) \<le> fs"
    and "pp_sequenceNumber (bp_payload p) = (fst st' + 1) mod 256"
    and "bh_hasAckNumber (bp_header p) \<or> pp_segmentPayload (bp_payload p) \<notin> {None, Some []}"
    and "reasm_step (decoded_btp_packet p) (snd st') = Some r"
  shows "wire_spec fs (w @ [btp_packet_bytes p]) st = Some (pp_sequenceNumber (bp_payload p), r)"
proof -
  have "packet_shape (decoded_btp_packet p)"
    using assms(2,5) by (auto simp: packet_shape_def decoded_btp_packet_def btp_packet_ok_def Let_def split: option.splits)
  with assms show ?thesis
    by (simp add: wire_spec_append wire_step_def decodeBtpPacket_bytes decoded_btp_packet_def)
qed

text \<open>The next segment of the head message, with the acknowledgement that is due.\<close>

definition due_ack :: "BtpSessionHandler \<Rightarrow> int option" where
  "due_ack s = (if ss_prevIncomingSequenceNumber s \<noteq> ss_prevAckedSequenceNumber s
     then Some (ss_prevIncomingSequenceNumber s) else None)"

lemma send_fragment_eq:
  assumes "numbers_ok s" and "ss_queuedOutgoingMatterMessages s = r # rs" and "queue_ok (r # rs)"
    and "dr_offset r < rd_len r"
  defines "p \<equiv> fragment_packet (ss_fragmentSize s) (due_ack s) ((ss_sequenceNumber s + 1) mod 256) r"
    and "k \<equiv> fragment_room (ss_fragmentSize s) (due_ack s) r"
  shows "\<exists>s'. send_fragment s = (Inr (rd_len r \<le> dr_offset r + k), [WriteBle (btp_packet_bytes p)], s') \<and>
    btp_packet_ok p \<and>
    ss_queuedOutgoingMatterMessages s' = skip k r # rs \<and>
    ss_sequenceNumber s' = (ss_sequenceNumber s + 1) mod 256 \<and>
    ss_fragmentSize s' = ss_fragmentSize s \<and> ss_sendInProgress s' = ss_sendInProgress s \<and>
    ss_prevIncomingSequenceNumber s' = ss_prevIncomingSequenceNumber s"
proof -
  have inv: "dr_offset r \<le> rd_len r" "rd_len r < 65536"
    using assms(3,4) by (simp_all add: queue_ok_def)
  have "case due_ack s of None \<Rightarrow> True | Some a \<Rightarrow> 0 \<le> a \<and> a \<le> 255"
    using assms(1) by (simp add: due_ack_def numbers_ok_def)
  then have ok: "btp_packet_ok p"
    unfolding p_def using assms(1,4) inv seq_mod_range by (intro fragment_packet_ok) (auto simp: numbers_ok_def)
  have n: "getNextSequenceNumber t = ((ss_sequenceNumber s + 1) mod 256,
      t\<lparr>ss_sequenceNumber := (ss_sequenceNumber s + 1) mod 256\<rparr>)"
    if "ss_sequenceNumber t = ss_sequenceNumber s" for t
    using assms(1) that
    by (auto simp: getNextSequenceNumber_def numbers_ok_def MAXIMUM_SEQUENCE_NUMBER_def Let_def
      intro!: arg_cong [where f = "\<lambda>n. t\<lparr>ss_sequenceNumber := n\<rparr>"])
  have enc: "encodeBtpPacket p = Inr (btp_packet_bytes p)"
    by (rule encodeBtpPacket_bytes [OF ok])
  have fs: "6 \<le> ss_fragmentSize s" using assms(1) by (simp add: numbers_ok_def)
  have e: "(int (rd_len r) - int (dr_offset r) \<le> ss_fragmentSize s - c) = (rd_len r \<le> dr_offset r + nat (ss_fragmentSize s - c))"
    if "c \<le> 5" for c
    using fs that by arith
  have e0: "(int m \<le> ss_fragmentSize s - c) = (m \<le> nat (ss_fragmentSize s - c))" if "c \<le> 5" for c m
    using fs that by arith
  have b: "(int (rd_len r) - int (dr_offset r) = int (rd_len r)) = (dr_offset r = 0)"
    by simp
  let ?s = "if due_ack s = None then s
    else s\<lparr>ss_prevAckedSequenceNumber := ss_prevIncomingSequenceNumber s, ss_sendAckTimer := False\<rparr>"
  let ?s' = "?s\<lparr>ss_queuedOutgoingMatterMessages := skip k r # rs,
    ss_sequenceNumber := (ss_sequenceNumber s + 1) mod 256\<rparr>"
  have "send_fragment s = (case encodeBtpPacket p of Inl e \<Rightarrow> (Inl e, [], ?s')
        | Inr packet \<Rightarrow> (Inr (rd_len r \<le> dr_offset r + k), [WriteBle packet], ?s'))"
    by (cases "dr_offset r = 0"; cases "ss_prevIncomingSequenceNumber s = ss_prevAckedSequenceNumber s")
      (simp_all add: send_fragment_def assms(2) n p_def k_def fragment_packet_def fragment_room_def due_ack_def
        getRemainingBytesCount_def getLength_def b e e0 Let_def cong del: sum.case_cong_weak)
  with enc ok show ?thesis by auto
qed

section \<open>Every step keeps the invariant\<close>

lemmas send_inv_defs = send_inv_def control_ok_def wire_inv_def

definition same_sender :: "BtpSessionHandler \<Rightarrow> BtpSessionHandler \<Rightarrow> bool" where
  "same_sender s s' \<longleftrightarrow> ss_fragmentSize s' = ss_fragmentSize s \<and> ss_sequenceNumber s' = ss_sequenceNumber s \<and>
     ss_queuedOutgoingMatterMessages s' = ss_queuedOutgoingMatterMessages s \<and>
     ss_sendInProgress s' = ss_sendInProgress s \<and> (numbers_ok s \<longrightarrow> numbers_ok s')"

lemma send_inv_frame:
  "send_inv start c \<Longrightarrow> same_sender (cf_handler c) s \<Longrightarrow> writes out = [] \<Longrightarrow> send_inv start (emit out s c)"
  by (cases "cf_sending c") (simp_all add: send_inv_defs same_sender_def emit_def Let_def)

lemma same_sender_refl [simp]: "same_sender s s"
  by (simp add: same_sender_def)

lemma same_sender_trans: "same_sender s t \<Longrightarrow> same_sender t u \<Longrightarrow> same_sender s u"
  by (simp add: same_sender_def)

lemma same_sender_updates [simp]:
  "same_sender s (s\<lparr>ss_sendAckTimer := a\<rparr>)" "same_sender s (s\<lparr>ss_ackReceiveTimer := b\<rparr>)"
  "same_sender s (ack_written s)"
  by (simp_all add: same_sender_def numbers_ok_def ack_written_def)

lemma btp_close_frame: "btp_close s = (out, s') \<Longrightarrow> same_sender s s' \<and> writes out = [] \<and> messages out = []"
  by (auto simp: btp_close_def same_sender_def numbers_ok_def Let_def split: if_splits)

lemma incoming_ack_frame: "incoming_ack p s = (e, s') \<Longrightarrow> same_sender s s'"
  by (auto simp: incoming_ack_def same_sender_def numbers_ok_def Let_def split: if_splits bool.splits option.splits prod.splits)

lemma incoming_segment_frame: "incoming_segment p s = (e, s') \<Longrightarrow> same_sender s s'"
  by (auto simp: incoming_segment_def same_sender_def numbers_ok_def Let_def split: if_splits option.splits)

lemma incoming_end_frame: "incoming_end handle p s = (e, out, s') \<Longrightarrow> same_sender s s' \<and> writes out = []"
  by (auto simp: incoming_end_def same_sender_def numbers_ok_def Let_def split: if_splits option.splits sum.splits)

lemma incoming_packet_frame:
  assumes "incoming_packet handle p s = (e, out, s')"
  shows "same_sender s s' \<and> writes out = []"
proof -
  let ?s = "s\<lparr>ss_prevIncomingSequenceNumber := pp_sequenceNumber (bp_payload p), ss_sendAckTimer := True\<rparr>"
  have 0: "same_sender s ?s" if "pp_sequenceNumber (bp_payload p) = (ss_prevIncomingSequenceNumber s + 1) mod 256"
    using that seq_mod_range by (auto simp: same_sender_def numbers_ok_def)
  obtain e1 s1 where 1: "incoming_ack p ?s = (e1, s1)" by fastforce
  obtain e2 s2 where 2: "incoming_segment p s1 = (e2, s2)" by fastforce
  note frames = incoming_ack_frame [OF 1] incoming_segment_frame [OF 2]
  from frames have 3: "same_sender ?s s2" by (rule same_sender_trans)
  let ?h = "bp_header p" and ?pl = "bp_payload p"
  define bad where "bad \<longleftrightarrow> bh_isHandshakeRequest ?h \<or> bh_hasManagementOpcode ?h \<or>
    (pp_segmentPayload ?pl = [] \<and> \<not> bh_hasAckNumber ?h) \<or>
    pp_sequenceNumber ?pl \<noteq> (ss_prevIncomingSequenceNumber s + 1) mod 256"
  have eq: "incoming_packet handle p s = (if bad then (Some BtpProtocolError, [], s)
      else case e1 of Some e \<Rightarrow> (Some e, [], s1)
      | None \<Rightarrow> (case e2 of Some e \<Rightarrow> (Some e, [], s2) | None \<Rightarrow> incoming_end handle p s2))"
    unfolding incoming_packet_def Let_def 1 bad_def by (auto simp: 2 split: option.split)
  show ?thesis
  proof (cases bad)
    case True
    with assms eq show ?thesis by simp
  next
    case False
    then have "same_sender s s1" "same_sender s s2"
      using 0 frames(1) 3 same_sender_trans by (auto simp: bad_def)
    with assms eq False incoming_end_frame [of handle p s2 e out s'] show ?thesis
      by (auto split: option.splits intro: same_sender_trans)
  qed
qed

lemma handleIncomingBleData_frame:
  assumes "handleIncomingBleData handle data s = (res, out, s')"
  shows "same_sender s s' \<and> writes out = []"
  using assms
  by (auto simp: handleIncomingBleData_def Let_def split: if_splits prod.splits option.splits sum.splits
      dest!: incoming_packet_frame btp_close_frame intro: same_sender_trans)

lemma btpAckTimeoutTriggered_frame:
  "btpAckTimeoutTriggered s = (out, s') \<Longrightarrow> same_sender s s' \<and> writes out = []"
  by (auto simp: btpAckTimeoutTriggered_def split: if_splits dest: btp_close_frame)

text \<open>A segment: whenever the head message has bytes left, the next packet continues it.\<close>

lemma partial_message_Cons_skip:
  "pending_messages (skip k r # rs) = (if rd_len r \<le> dr_offset r + k then [] else [dr_buffer r]) @ map dr_buffer rs"
  by (auto simp: pending_messages_def min_def)

lemma send_fragment_inv:
  assumes num: "numbers_ok (cf_handler c)" and q: "ss_queuedOutgoingMatterMessages (cf_handler c) = r # rs"
    and qok: "queue_ok (r # rs)" and ready: "dr_offset r < rd_len r" and wire: "wire_inv start c"
    and progress: "ss_sendInProgress (cf_handler c)"
  shows "\<exists>e out s'. send_fragment (cf_handler c) = (Inr e, out, s') \<and> messages out = [] \<and>
    send_inv start ((emit out s' c)\<lparr>cf_sending := Some e\<rparr>)"
proof -
  let ?s = "cf_handler c" and ?k = "fragment_room (ss_fragmentSize (cf_handler c)) (due_ack (cf_handler c)) r"
  let ?p = "fragment_packet (ss_fragmentSize ?s) (due_ack ?s) ((ss_sequenceNumber ?s + 1) mod 256) r"
  obtain s' where s': "send_fragment ?s = (Inr (rd_len r \<le> dr_offset r + ?k), [WriteBle (btp_packet_bytes ?p)], s')"
    "btp_packet_ok ?p" "ss_queuedOutgoingMatterMessages s' = skip ?k r # rs"
    "ss_sequenceNumber s' = (ss_sequenceNumber ?s + 1) mod 256" "ss_fragmentSize s' = ss_fragmentSize ?s"
    "ss_sendInProgress s' = ss_sendInProgress ?s" "ss_prevIncomingSequenceNumber s' = ss_prevIncomingSequenceNumber ?s"
    using send_fragment_eq [OF num q qok ready] by blast
  have fs: "6 \<le> ss_fragmentSize ?s" using num by (simp add: numbers_ok_def)
  from wire q obtain finished where
    w: "wire_spec (ss_fragmentSize ?s) (cf_wire c) (start, [], None) = Some (ss_sequenceNumber ?s, finished, partial_message (r # rs))"
    and sub: "finished @ pending_messages (r # rs) = cf_submitted c"
    by (auto simp: wire_inv_def Let_def)
  have seg: "pp_segmentPayload (bp_payload ?p) \<notin> {None, Some []}"
    using ready fragment_room_pos [OF fs, of "due_ack ?s" r]
    by (auto simp: fragment_packet_def getRemainingBytes_def fragment_room_def Let_def)
  have seqn: "pp_sequenceNumber (bp_payload ?p) = (ss_sequenceNumber ?s + 1) mod 256"
    by (simp add: fragment_packet_def Let_def)
  have "wire_spec (ss_fragmentSize ?s) (cf_wire c @ [btp_packet_bytes ?p]) (start, [], None) =
      Some (pp_sequenceNumber (bp_payload ?p), finished @ (if rd_len r \<le> dr_offset r + ?k then [dr_buffer r] else []),
        partial_message (skip ?k r # rs))"
    using fragment_reasm [OF fs ready, of "due_ack ?s" _ finished rs] seg
    by (intro wire_spec_snoc [OF w s'(2)] fragment_packet_length [OF fs]) (auto simp: seqn)
  moreover have "(finished @ (if rd_len r \<le> dr_offset r + ?k then [dr_buffer r] else [])) @
      pending_messages (skip ?k r # rs) = cf_submitted c"
    using sub ready by (auto simp: partial_message_Cons_skip) (simp_all add: pending_messages_def)
  ultimately have "wire_inv start ((emit [WriteBle (btp_packet_bytes ?p)] s' c)\<lparr>cf_sending := Some e\<rparr>)" for e
    by (simp add: wire_inv_def emit_def s' seqn)
  moreover have "numbers_ok s'" using num s' seq_mod_range [of "ss_sequenceNumber ?s"] by (simp add: numbers_ok_def)
  moreover have "queue_ok (skip ?k r # rs)" using qok by (simp add: queue_ok_def)
  moreover have "control_ok ((emit [WriteBle (btp_packet_bytes ?p)] s' c)\<lparr>cf_sending := Some (rd_len r \<le> dr_offset r + ?k)\<rparr>)"
    using progress by (auto simp: control_ok_def emit_def s' head_ready_def min_def)
  ultimately show ?thesis
    using s'(1,3) by (auto simp: send_inv_def emit_def)
qed

lemma head_ready_Cons [simp]: "head_ready (r # rs) = (dr_offset r < rd_len r)" "head_ready []"
  by (simp_all add: head_ready_def)

lemma processSendQueue_inv:
  assumes "send_inv start c" and "processSendQueue (cf_handler c) = (res, out, s)"
  shows "\<exists>k. res = Inr k \<and> messages out = [] \<and> (k = None \<longrightarrow> out = [] \<and> s = cf_handler c) \<and>
    send_inv start ((emit out s c)\<lparr>cf_sending := (if k = None then cf_sending c else k)\<rparr>)"
proof -
  let ?s = "cf_handler c" and ?q = "ss_queuedOutgoingMatterMessages (cf_handler c)"
  consider (idle) "res = Inr None" "out = []" "s = ?s"
    | (send) "\<not> ss_sendInProgress ?s" "?q \<noteq> []" "(res, out, s) = suspended (send_fragment (?s\<lparr>ss_sendInProgress := True\<rparr>))"
    using assms(2) by (auto simp: processSendQueue_def split: if_splits)
  then show ?thesis
  proof cases
    case idle
    with assms(1) show ?thesis by (simp add: emit_def)
  next
    case send
    let ?c = "c\<lparr>cf_handler := ?s\<lparr>ss_sendInProgress := True\<rparr>\<rparr>"
    obtain r rs where q: "?q = r # rs" using send(2) by (cases ?q) auto
    have "numbers_ok (cf_handler ?c)" "queue_ok (r # rs)" "dr_offset r < rd_len r" "wire_inv start ?c"
      using assms(1) send(1) q by (auto simp: send_inv_defs numbers_ok_def Let_def)
    then obtain e out' s' where "send_fragment (cf_handler ?c) = (Inr e, out', s')" "messages out' = []"
      "send_inv start ((emit out' s' ?c)\<lparr>cf_sending := Some e\<rparr>)"
      using send_fragment_inv [of ?c r rs start] q by auto
    with send(3) show ?thesis by (simp add: suspended_def emit_def)
  qed
qed

lemma push_message:
  assumes "send_inv start c" and "data \<noteq> []" and "length data < 65536"
  shows "send_inv start (c\<lparr>cf_handler := (cf_handler c)\<lparr>ss_queuedOutgoingMatterMessages :=
      ss_queuedOutgoingMatterMessages (cf_handler c) @ [new_DataReader data Little]\<rparr>,
    cf_submitted := cf_submitted c @ [data]\<rparr>)"
proof -
  let ?d = "new_DataReader data Little"
  have d: "dr_offset ?d = 0" "dr_buffer ?d = data" by (simp_all add: new_DataReader_def)
  have "partial_message (q @ [?d]) = partial_message q" "pending_messages (q @ [?d]) = pending_messages q @ [data]"
    "queue_ok q \<Longrightarrow> queue_ok (q @ [?d])" "head_ready q \<Longrightarrow> head_ready (q @ [?d])"
    "q \<noteq> [] \<Longrightarrow> head_ready (q @ [?d]) = head_ready q" for q
    using assms(2,3) d by (cases q; simp add: partial_message_def pending_messages_def queue_ok_def)+
  with assms(1) show ?thesis
    by (auto simp: send_inv_defs numbers_ok_def Let_def split: option.splits)
qed

lemma sendMatterMessage_inv:
  assumes "send_inv start c" and "length data < 65536" and "sendMatterMessage data (cf_handler c) = (Inr k, out, s)"
  shows "send_inv start ((emit out s c)\<lparr>cf_submitted := cf_submitted c @ [data],
         cf_sending := (if k = None then cf_sending c else k)\<rparr>)"
proof -
  let ?c = "c\<lparr>cf_handler := (cf_handler c)\<lparr>ss_queuedOutgoingMatterMessages :=
      ss_queuedOutgoingMatterMessages (cf_handler c) @ [new_DataReader data Little]\<rparr>,
    cf_submitted := cf_submitted c @ [data]\<rparr>"
  have "data \<noteq> []" "processSendQueue (cf_handler ?c) = (Inr k, out, s)"
    using assms(3) by (auto simp: sendMatterMessage_def split: if_splits)
  then have "send_inv start ((emit out s ?c)\<lparr>cf_sending := (if k = None then cf_sending ?c else k)\<rparr>)"
    using processSendQueue_inv [OF push_message [OF assms(1) _ assms(2)], of "Inr k" out s] by auto
  then show ?thesis
    by (rule back_subst [of "send_inv start"]) (auto simp: emit_def intro!: btp_config.equality)
qed

lemma sendMatterMessage_rejected:
  assumes "send_inv start c" and "length data < 65536" and "sendMatterMessage data (cf_handler c) = (Inl e, out, s)"
  shows "out = [] \<and> s = cf_handler c"
proof (rule ccontr)
  let ?c = "c\<lparr>cf_handler := (cf_handler c)\<lparr>ss_queuedOutgoingMatterMessages :=
      ss_queuedOutgoingMatterMessages (cf_handler c) @ [new_DataReader data Little]\<rparr>,
    cf_submitted := cf_submitted c @ [data]\<rparr>"
  assume "\<not> ?thesis"
  then have "data \<noteq> []" "processSendQueue (cf_handler ?c) = (Inl e, out, s)"
    using assms(3) by (auto simp: sendMatterMessage_def split: if_splits)
  then show False
    using processSendQueue_inv [OF push_message [OF assms(1) _ assms(2)], of "Inl e" out s] by auto
qed

lemma processSendQueue_resume_inv:
  assumes inv: "send_inv start c" and sending: "cf_sending c = Some e"
    and resume: "processSendQueue_resume e (cf_handler c) = (res, out, s)"
  shows "\<exists>k. res = Inr k \<and> send_inv start ((emit out s c)\<lparr>cf_sending := k\<rparr>)"
proof -
  let ?s = "cf_handler c" and ?q = "ss_queuedOutgoingMatterMessages (cf_handler c)"
  obtain again t where t: "fragment_written e ?s = (again, t)" by fastforce
  from inv sending obtain r rs where q: "?q = r # rs" and e: "e = (\<not> dr_offset r < rd_len r)"
    by (cases ?q) (auto simp: send_inv_defs Let_def)
  have progress: "ss_sendInProgress ?s"
    using inv sending by (auto simp: send_inv_defs Let_def)
  let ?q' = "if e then rs else r # rs"
  have tq: "ss_queuedOutgoingMatterMessages t = ?q'" and tp: "ss_sendInProgress t = again" and tne: "again \<Longrightarrow> ?q' \<noteq> []"
    and tn: "numbers_ok ?s \<Longrightarrow> numbers_ok t" and tf: "ss_fragmentSize t = ss_fragmentSize ?s" "ss_sequenceNumber t = ss_sequenceNumber ?s"
    using t q progress by (auto simp: fragment_written_def numbers_ok_def Let_def split: if_splits)
  let ?c = "c\<lparr>cf_handler := t, cf_sending := None\<rparr>"
  have qok: "queue_ok ?q'" and ready: "head_ready ?q'"
    using inv q e by (cases rs; auto simp: send_inv_def queue_ok_def)+
  have "partial_message ?q' = partial_message (r # rs)" "pending_messages ?q' = pending_messages (r # rs)"
    using inv q e by (cases rs; auto simp: send_inv_def queue_ok_def partial_message_def pending_messages_def dr_inv_def)+
  then have wire: "wire_inv start ?c"
    using inv q by (simp add: send_inv_def wire_inv_def tq tf Let_def)
  have num: "numbers_ok t" using inv tn by (simp add: send_inv_def)
  show ?thesis
  proof (cases again)
    case False
    then have "res = Inr None" "out = []" "s = t"
      using resume t by (simp_all add: processSendQueue_resume_def)
    moreover have "send_inv start ((emit [] t c)\<lparr>cf_sending := None\<rparr>)"
      using False qok ready wire num tq tp by (simp add: send_inv_def control_ok_def emit_def wire_inv_def)
    ultimately show ?thesis by simp
  next
    case True
    then obtain r' rs' where q': "?q' = r' # rs'" using tne by (cases ?q') auto
    then obtain e' out' s' where "send_fragment t = (Inr e', out', s')"
      "send_inv start ((emit out' s' ?c)\<lparr>cf_sending := Some e'\<rparr>)"
      using send_fragment_inv [of ?c r' rs' start] num qok ready wire tq tp True by auto
    then show ?thesis
      using resume t True by (auto simp: processSendQueue_resume_def suspended_def emit_def)
  qed
qed

lemma ack_reasm:
  "reasm_step (decoded_btp_packet
     \<lparr>bp_header = \<lparr>bh_isHandshakeRequest = False, bh_hasManagementOpcode = False, bh_hasAckNumber = True,
        bh_isEndingSegment = False, bh_isContinuingSegment = False, bh_isBeginningSegment = False\<rparr>,
      bp_payload = \<lparr>pp_ackNumber = Some a, pp_sequenceNumber = n, pp_messageLength = None,
        pp_segmentPayload = None\<rparr>\<rparr>) st = Some st"
  by (simp add: reasm_step_def reasm_segment_def decoded_btp_packet_def)

lemma btpSendAckTimeoutTriggered_inv:
  assumes inv: "send_inv start c" and run: "btpSendAckTimeoutTriggered ((cf_handler c)\<lparr>ss_sendAckTimer := False\<rparr>) = (res, out, s)"
  shows "send_inv start (emit out s c)"
proof (cases "ss_prevIncomingSequenceNumber (cf_handler c) > ss_prevAckedSequenceNumber (cf_handler c)")
  case False
  with run have "out = []" "same_sender (cf_handler c) s"
    by (auto simp: btpSendAckTimeoutTriggered_def)
  with inv show ?thesis by (simp add: send_inv_frame)
next
  case True
  let ?s = "cf_handler c" and ?n = "(ss_sequenceNumber (cf_handler c) + 1) mod 256"
  let ?p = "\<lparr>bp_header = \<lparr>bh_isHandshakeRequest = False, bh_hasManagementOpcode = False, bh_hasAckNumber = True,
        bh_isEndingSegment = False, bh_isContinuingSegment = False, bh_isBeginningSegment = False\<rparr>,
      bp_payload = \<lparr>pp_ackNumber = Some (ss_prevIncomingSequenceNumber ?s), pp_sequenceNumber = ?n,
        pp_messageLength = None, pp_segmentPayload = None\<rparr>\<rparr>"
  have num: "numbers_ok ?s" using inv by (simp add: send_inv_def)
  have num': "numbers_ok (?s\<lparr>ss_sendAckTimer := False\<rparr>)" using num by (simp add: numbers_ok_def)
  have ok: "btp_packet_ok ?p"
    using num seq_mod_range [of "ss_sequenceNumber ?s"] by (simp add: btp_packet_ok_def numbers_ok_def Let_def)
  have s: "out = [WriteBle (btp_packet_bytes ?p)]"
    "s = ?s\<lparr>ss_sendAckTimer := False, ss_sequenceNumber := ?n, ss_prevAckedSequenceNumber := ss_prevIncomingSequenceNumber ?s\<rparr>"
    using run True encodeBtpPacket_bytes [OF ok]
    by (simp_all add: btpSendAckTimeoutTriggered_def getNextSequenceNumber_eq [OF num'])
  have "int (length (btp_packet_bytes ?p)) \<le> ss_fragmentSize ?s"
    using num by (simp add: btp_packet_bytes_def numbers_ok_def)
  then have "wire_spec (ss_fragmentSize ?s) w st = Some (ss_sequenceNumber ?s, r) \<Longrightarrow>
      wire_spec (ss_fragmentSize ?s) (w @ [btp_packet_bytes ?p]) st = Some (?n, r)" for w st r
    using wire_spec_snoc [of "ss_fragmentSize ?s" w st "(ss_sequenceNumber ?s, r)" ?p r] ok ack_reasm by simp
  moreover have "numbers_ok s" using num seq_mod_range [of "ss_sequenceNumber ?s"] by (simp add: s numbers_ok_def)
  ultimately show ?thesis
    using inv by (cases "cf_sending c") (auto simp: send_inv_defs emit_def s Let_def)
qed

lemma btp_step_inv: "btp_step handle c e c' \<Longrightarrow> send_inv start c \<Longrightarrow> send_inv start c'"
proof (induction rule: btp_step.induct)
  case (incoming data c res out s)
  then show ?case using handleIncomingBleData_frame send_inv_frame by blast
next
  case (submit data c k out s)
  then show ?case using sendMatterMessage_inv by blast
next
  case (submit_rejected data c e out s)
  then show ?case using sendMatterMessage_rejected [of start c data e out s] by (simp add: emit_def)
next
  case (write_done c e res out s)
  then show ?case using processSendQueue_resume_inv [of start c e res out s] by auto
next
  case (write_failed c e)
  then show ?case by (auto simp: send_inv_defs Let_def)
next
  case (send_ack_timeout c res out s)
  then have "send_inv start (emit out s c)" using btpSendAckTimeoutTriggered_inv by blast
  then show ?case by (simp add: send_inv_defs)
next
  case (ack_write_done c)
  then have "send_inv start (emit [] (ack_written (cf_handler c)) c)" by (intro send_inv_frame) auto
  then show ?case by (simp add: send_inv_defs emit_def)
next
  case (ack_timeout c out s)
  then show ?case
    using btpAckTimeoutTriggered_frame same_sender_trans [OF same_sender_updates(2)] send_inv_frame by blast
next
  case (close c out s)
  then show ?case using btp_close_frame send_inv_frame by blast
qed

lemma btp_run_inv: "btp_run handle c es c' \<Longrightarrow> send_inv start c \<Longrightarrow> send_inv start c'"
  by (induction rule: btp_run.induct) (auto intro: btp_step_inv)

lemma send_inv_initial:
  assumes "new_BtpSessionHandler role v fs w = Inr s" and "6 \<le> fs"
  shows "send_inv (ss_sequenceNumber s) (initial_config s)"
  using assms
  by (auto simp: new_BtpSessionHandler_def send_inv_defs initial_config_def numbers_ok_def queue_ok_def
      partial_message_def pending_messages_def Let_def split: if_splits btp_role.splits)

section \<open>The receiving side\<close>

fun receive_all ::
  "(byte list \<Rightarrow> unit result) \<Rightarrow> byte list list \<Rightarrow> BtpSessionHandler \<Rightarrow> byte list list \<times> BtpSessionHandler" where
  "receive_all handle [] s = ([], s)"
| "receive_all handle (pkt # pkts) s =
     (case handleIncomingBleData handle pkt s of (_, out, s) \<Rightarrow>
        (case receive_all handle pkts s of (ms, s) \<Rightarrow> (messages out @ ms, s)))"

text \<open>The acknowledgements in a row of packets are ones the receiver accepts while it sends nothing.\<close>

fun acks_ok :: "BtpSessionHandler \<Rightarrow> int \<Rightarrow> byte list list \<Rightarrow> bool" where
  "acks_ok s prev [] = True"
| "acks_ok s prev (pkt # pkts) =
     (case decodeBtpPacket pkt of
        Inl _ \<Rightarrow> False
      | Inr p \<Rightarrow>
          (case (bh_hasAckNumber (bp_header p), pp_ackNumber (bp_payload p)) of
             (True, Some a) \<Rightarrow> a \<le> ss_sequenceNumber s \<and> \<not> exceedsWindowSize s prev a \<and> acks_ok s a pkts
           | _ \<Rightarrow> acks_ok s prev pkts))"

definition holds_partial :: "BtpSessionHandler \<Rightarrow> (int \<times> byte list) option \<Rightarrow> bool" where
  "holds_partial s cur \<longleftrightarrow>
     ss_currentIncomingSegmentedPayload s = map_option snd cur \<and>
     (\<forall>l b. cur = Some (l, b) \<longrightarrow> ss_currentIncomingSegmentedMsgLength s = Some l)"

definition receiver_like :: "BtpSessionHandler \<Rightarrow> BtpSessionHandler \<Rightarrow> bool" where
  "receiver_like s s' \<longleftrightarrow> ss_fragmentSize s' = ss_fragmentSize s \<and> ss_clientWindowSize s' = ss_clientWindowSize s \<and>
     ss_sequenceNumber s' = ss_sequenceNumber s \<and> ss_isActive s' = ss_isActive s"

lemma receiver_like_refl [simp]: "receiver_like s s"
  by (simp add: receiver_like_def)

lemma receiver_like_trans: "receiver_like s t \<Longrightarrow> receiver_like t u \<Longrightarrow> receiver_like s u"
  by (simp add: receiver_like_def)

lemma exceedsWindowSize_like: "receiver_like s s' \<Longrightarrow> exceedsWindowSize s' = exceedsWindowSize s"
  by (intro ext) (simp add: exceedsWindowSize_def receiver_like_def)

lemma acks_ok_like: "receiver_like s s' \<Longrightarrow> acks_ok s' prev w = acks_ok s prev w"
proof (induction w arbitrary: prev)
  case Nil
  then show ?case by simp
next
  case (Cons pkt w)
  have "exceedsWindowSize s' = exceedsWindowSize s" "ss_sequenceNumber s' = ss_sequenceNumber s"
    using Cons.prems exceedsWindowSize_like [OF Cons.prems] by (simp_all add: receiver_like_def)
  with Cons show ?case by (simp cong: sum.case_cong option.case_cong bool.case_cong prod.case_cong)
qed

text \<open>The two pieces of the receiver, acknowledgement and segment.\<close>

lemma incoming_ack_ok:
  assumes "acks_ok s (ss_prevIncomingAckNumber s) (pkt # pkts)" and "decodeBtpPacket pkt = Inr p"
  shows "\<exists>s'. incoming_ack p s = (None, s') \<and> receiver_like s s' \<and>
    ss_prevIncomingSequenceNumber s' = ss_prevIncomingSequenceNumber s \<and>
    ss_currentIncomingSegmentedPayload s' = ss_currentIncomingSegmentedPayload s \<and>
    ss_currentIncomingSegmentedMsgLength s' = ss_currentIncomingSegmentedMsgLength s \<and>
    acks_ok s' (ss_prevIncomingAckNumber s') pkts"
proof -
  obtain s' where s': "incoming_ack p s = (None, s')" "receiver_like s s'"
    "ss_prevIncomingSequenceNumber s' = ss_prevIncomingSequenceNumber s"
    "ss_currentIncomingSegmentedPayload s' = ss_currentIncomingSegmentedPayload s"
    "ss_currentIncomingSegmentedMsgLength s' = ss_currentIncomingSegmentedMsgLength s"
    "acks_ok s (ss_prevIncomingAckNumber s') pkts"
    using assms
    by (cases "bh_hasAckNumber (bp_header p)"; cases "pp_ackNumber (bp_payload p)";
        cases "pp_ackNumber (bp_payload p) = Some (ss_sequenceNumber s)")
      (auto simp: incoming_ack_def receiver_like_def Let_def)
  then show ?thesis using acks_ok_like by auto
qed

lemma incoming_segment_ok:
  assumes "reasm_segment p cur = Some cur'" and "holds_partial s cur"
  shows "\<exists>s'. incoming_segment p s = (None, s') \<and> receiver_like s s' \<and> holds_partial s' cur' \<and>
    ss_prevIncomingSequenceNumber s' = ss_prevIncomingSequenceNumber s \<and>
    ss_prevIncomingAckNumber s' = ss_prevIncomingAckNumber s"
  using assms
  by (auto simp: reasm_segment_def incoming_segment_def holds_partial_def receiver_like_def Let_def
      split: if_splits option.splits)

lemma incoming_end_ok:
  assumes "reasm_segment p cur = Some cur'" and "reasm_step p (finished, cur) = Some (finished', cur'')"
    and "holds_partial s cur'" and "\<And>m. handle m = Inr ()"
  shows "\<exists>out s'. incoming_end handle p s = (None, out, s') \<and> receiver_like s s' \<and> holds_partial s' cur'' \<and>
    finished' = finished @ messages out \<and>
    ss_prevIncomingSequenceNumber s' = ss_prevIncomingSequenceNumber s \<and>
    ss_prevIncomingAckNumber s' = ss_prevIncomingAckNumber s"
  using assms
  by (auto simp: reasm_step_def incoming_end_def holds_partial_def receiver_like_def Let_def
      split: if_splits option.splits)

lemma handleIncomingBleData_ok:
  assumes step: "wire_step fs pkt (prev, finished, cur) = Some (n, finished', cur')"
    and sync: "(ss_prevIncomingSequenceNumber s + 1) mod 256 = (prev + 1) mod 256"
    and s: "ss_isActive s" "fs \<le> ss_fragmentSize s" "holds_partial s cur"
    and acks: "acks_ok s (ss_prevIncomingAckNumber s) (pkt # pkts)" and handle: "\<And>m. handle m = Inr ()"
  shows "\<exists>out s'. handleIncomingBleData handle pkt s = (Inr (), out, s') \<and> receiver_like s s' \<and> holds_partial s' cur' \<and>
    finished' = finished @ messages out \<and> ss_prevIncomingSequenceNumber s' = n \<and>
    acks_ok s' (ss_prevIncomingAckNumber s') pkts"
proof -
  from step obtain p where p: "decodeBtpPacket pkt = Inr p" "int (length pkt) \<le> fs" "packet_shape p"
    "n = (prev + 1) mod 256" "pp_sequenceNumber (bp_payload p) = n" "reasm_step p (finished, cur) = Some (finished', cur')"
    by (auto simp: wire_step_def split: sum.splits if_splits)
  then obtain cur1 where cur1: "reasm_segment p cur = Some cur1"
    by (auto simp: reasm_step_def split: option.splits)
  let ?s = "s\<lparr>ss_prevIncomingSequenceNumber := n, ss_sendAckTimer := True\<rparr>"
  have "receiver_like s ?s" by (simp add: receiver_like_def)
  then have "acks_ok ?s (ss_prevIncomingAckNumber ?s) (pkt # pkts)"
    using acks acks_ok_like [of s ?s "ss_prevIncomingAckNumber s" "pkt # pkts"] by simp
  from incoming_ack_ok [OF this p(1)] obtain s1 where s1: "incoming_ack p ?s = (None, s1)" "receiver_like ?s s1"
    "ss_prevIncomingSequenceNumber s1 = n" "ss_currentIncomingSegmentedPayload s1 = ss_currentIncomingSegmentedPayload s"
    "ss_currentIncomingSegmentedMsgLength s1 = ss_currentIncomingSegmentedMsgLength s"
    "acks_ok s1 (ss_prevIncomingAckNumber s1) pkts" by auto
  have "holds_partial s1 cur" using s(3) s1(4,5) by (simp add: holds_partial_def)
  from incoming_segment_ok [OF cur1 this] obtain s2 where s2: "incoming_segment p s1 = (None, s2)" "receiver_like s1 s2"
    "holds_partial s2 cur1" "ss_prevIncomingSequenceNumber s2 = n" "ss_prevIncomingAckNumber s2 = ss_prevIncomingAckNumber s1"
    using s1(3) by auto
  from incoming_end_ok [where handle = handle, OF cur1 p(6) s2(3) handle] obtain out s3 where s3: "incoming_end handle p s2 = (None, out, s3)"
    "receiver_like s2 s3" "holds_partial s3 cur'" "finished' = finished @ messages out"
    "ss_prevIncomingSequenceNumber s3 = n" "ss_prevIncomingAckNumber s3 = ss_prevIncomingAckNumber s1"
    using s2(4,5) by auto
  have "incoming_packet handle p s = (None, out, s3)"
    using p(3-5) sync s1(1) s2(1) s3(1) by (auto simp: incoming_packet_def packet_shape_def Let_def)
  moreover have "receiver_like s s3"
    using \<open>receiver_like s ?s\<close> s1(2) s2(2) s3(2) receiver_like_trans by blast
  moreover have "acks_ok s3 (ss_prevIncomingAckNumber s3) pkts"
    using s1(6) s3(6) acks_ok_like [OF receiver_like_trans [OF s2(2) s3(2)]] by simp
  ultimately show ?thesis
    using s(1,2) p(1,2) s3(3-5) by (simp add: handleIncomingBleData_def)
qed

lemma receive_all_ok:
  assumes "wire_spec fs pkts (prev, finished, cur) = Some (n, finished', cur')"
    and "(ss_prevIncomingSequenceNumber s + 1) mod 256 = (prev + 1) mod 256"
    and "ss_isActive s" "fs \<le> ss_fragmentSize s" "holds_partial s cur"
    and "acks_ok s (ss_prevIncomingAckNumber s) pkts" and "\<And>m. handle m = Inr ()"
  shows "\<exists>ms s'. receive_all handle pkts s = (ms, s') \<and> ss_isActive s' \<and> holds_partial s' cur' \<and> finished' = finished @ ms"
  using assms
proof (induction pkts arbitrary: prev finished cur s)
  case Nil
  then show ?case by auto
next
  case (Cons pkt pkts)
  obtain n1 f1 c1 where 1: "wire_step fs pkt (prev, finished, cur) = Some (n1, f1, c1)"
    "wire_spec fs pkts (n1, f1, c1) = Some (n, finished', cur')"
    using Cons.prems(1) by (cases "wire_step fs pkt (prev, finished, cur)") auto
  from handleIncomingBleData_ok [where handle = handle, OF 1(1) Cons.prems(2-7)] obtain out s1 where s1:
    "handleIncomingBleData handle pkt s = (Inr (), out, s1)" "receiver_like s s1" "holds_partial s1 c1"
    "f1 = finished @ messages out" "ss_prevIncomingSequenceNumber s1 = n1" "acks_ok s1 (ss_prevIncomingAckNumber s1) pkts"
    by blast
  have "\<exists>ms s'. receive_all handle pkts s1 = (ms, s') \<and> ss_isActive s' \<and> holds_partial s' cur' \<and> finished' = f1 @ ms"
    using s1 1(2) Cons.prems(3,4,7) by (intro Cons.IH) (auto simp: receiver_like_def)
  with s1(1,4) show ?case by auto
qed

section \<open>Delivery\<close>

lemma new_BtpSessionHandler_simps:
  assumes "new_BtpSessionHandler role v fs w = Inr s"
  shows "ss_fragmentSize s = fs" "ss_clientWindowSize s = w" "ss_isActive s" "ss_queuedOutgoingMatterMessages s = []"
    "ss_currentIncomingSegmentedPayload s = None"
    "ss_sequenceNumber s = (case role of Central \<Rightarrow> - 1 | Peripheral \<Rightarrow> 0)"
    "ss_prevIncomingSequenceNumber s = (case role of Central \<Rightarrow> 0 | Peripheral \<Rightarrow> 255)"
  using assms by (auto simp: new_BtpSessionHandler_def Let_def split: if_splits btp_role.splits)

lemma send_fragment_fragmentSize: "send_fragment s = (res, out, s') \<Longrightarrow> ss_fragmentSize s' = ss_fragmentSize s"
  by (auto simp: send_fragment_def getNextSequenceNumber_def Let_def split: sum.splits)

lemma processSendQueue_fragmentSize: "processSendQueue s = (res, out, s') \<Longrightarrow> ss_fragmentSize s' = ss_fragmentSize s"
  by (auto simp: processSendQueue_def suspended_def split: if_splits prod.splits dest!: send_fragment_fragmentSize)

lemma processSendQueue_resume_fragmentSize:
  "processSendQueue_resume e s = (res, out, s') \<Longrightarrow> ss_fragmentSize s' = ss_fragmentSize s"
  by (auto simp: processSendQueue_resume_def suspended_def fragment_written_def Let_def
      split: if_splits prod.splits dest!: send_fragment_fragmentSize)

lemma sendMatterMessage_fragmentSize: "sendMatterMessage data s = (res, out, s') \<Longrightarrow> ss_fragmentSize s' = ss_fragmentSize s"
  by (auto simp: sendMatterMessage_def split: if_splits dest!: processSendQueue_fragmentSize)

lemma btpSendAckTimeoutTriggered_fragmentSize:
  "btpSendAckTimeoutTriggered s = (res, out, s') \<Longrightarrow> ss_fragmentSize s' = ss_fragmentSize s"
  by (auto simp: btpSendAckTimeoutTriggered_def getNextSequenceNumber_def Let_def split: if_splits sum.splits)

lemmas fragmentSize_facts = processSendQueue_resume_fragmentSize sendMatterMessage_fragmentSize
  btpSendAckTimeoutTriggered_fragmentSize

lemma btp_step_fragmentSize:
  "btp_step handle c e c' \<Longrightarrow> ss_fragmentSize (cf_handler c') = ss_fragmentSize (cf_handler c)"
  by (induction rule: btp_step.induct)
    (auto simp: emit_def same_sender_def ack_written_def
      dest!: fragmentSize_facts handleIncomingBleData_frame btpAckTimeoutTriggered_frame btp_close_frame)

lemma btp_run_fragmentSize:
  "btp_run handle c es c' \<Longrightarrow> ss_fragmentSize (cf_handler c') = ss_fragmentSize (cf_handler c)"
  by (induction rule: btp_run.induct) (auto dest: btp_step_fragmentSize)

lemma run_wire:
  assumes "new_BtpSessionHandler role v fs w = Inr s" and "6 \<le> fs" and "btp_run handle (initial_config s) es c"
  shows "\<exists>n finished cur. wire_spec fs (cf_wire c) (ss_sequenceNumber s, [], None) = Some (n, finished, cur) \<and>
    prefix finished (cf_submitted c) \<and>
    (ss_queuedOutgoingMatterMessages (cf_handler c) = [] \<longrightarrow> finished = cf_submitted c)"
proof -
  have "send_inv (ss_sequenceNumber s) c"
    using btp_run_inv [OF assms(3) send_inv_initial [OF assms(1,2)]] .
  moreover have "ss_fragmentSize (cf_handler c) = fs"
    using btp_run_fragmentSize [OF assms(3)] new_BtpSessionHandler_simps(1) [OF assms(1)]
    by (simp add: initial_config_def)
  ultimately obtain finished where
    "wire_spec fs (cf_wire c) (ss_sequenceNumber s, [], None) = Some (ss_sequenceNumber (cf_handler c), finished,
       partial_message (ss_queuedOutgoingMatterMessages (cf_handler c)))"
    and sub: "finished @ pending_messages (ss_queuedOutgoingMatterMessages (cf_handler c)) = cf_submitted c"
    by (auto simp: send_inv_def wire_inv_def Let_def)
  moreover have "prefix finished (cf_submitted c)"
    by (rule prefixI [OF sub [symmetric]])
  ultimately show ?thesis
    by (auto simp: pending_messages_def)
qed

text \<open>
  C10. Whatever the interleaving of submitted messages, completed or failed writes, incoming packets
  and timers, the packets a session has written follow the protocol: none is longer than the fragment
  size, the sequence numbers count modulo 256, and the segments put together give the submitted
  messages, complete and in order; all of them when the queue is empty.
\<close>

theorem wire_refines_fifo:
  assumes "new_BtpSessionHandler role 4 fs w = Inr s" and "6 \<le> fs" and "btp_run handle (initial_config s) es c"
  shows "\<exists>n finished cur. wire_spec fs (cf_wire c) (ss_sequenceNumber s, [], None) = Some (n, finished, cur) \<and>
    prefix finished (cf_submitted c) \<and>
    (ss_queuedOutgoingMatterMessages (cf_handler c) = [] \<longrightarrow> finished = cf_submitted c)"
  using assms by (rule run_wire)

definition opposite :: "btp_role \<Rightarrow> btp_role" where
  "opposite role = (case role of Central \<Rightarrow> Peripheral | Peripheral \<Rightarrow> Central)"

text \<open>
  C16. Two ends of a connection: a session of the other role that is handed the packets any run of
  the sender has written, and that finds their acknowledgements acceptable, stays open and hands over
  the messages submitted to the sender, complete, in order, none twice; all of them once the sender's
  queue is empty.
\<close>

theorem btp_end_to_end:
  assumes "new_BtpSessionHandler role 4 fs w = Inr s" and "new_BtpSessionHandler (opposite role) 4 fs w' = Inr r"
    and "6 \<le> fs" and "btp_run handle (initial_config s) es c"
    and "acks_ok r (ss_prevIncomingAckNumber r) (cf_wire c)" and "\<And>m. handle' m = Inr ()"
  shows "\<exists>ms r'. receive_all handle' (cf_wire c) r = (ms, r') \<and> ss_isActive r' \<and> prefix ms (cf_submitted c) \<and>
    (ss_queuedOutgoingMatterMessages (cf_handler c) = [] \<longrightarrow> ms = cf_submitted c)"
proof -
  obtain n finished cur where w: "wire_spec fs (cf_wire c) (ss_sequenceNumber s, [], None) = Some (n, finished, cur)"
    "prefix finished (cf_submitted c)" "ss_queuedOutgoingMatterMessages (cf_handler c) = [] \<longrightarrow> finished = cf_submitted c"
    using run_wire [OF assms(1,3,4)] by blast
  have "(ss_prevIncomingSequenceNumber r + 1) mod 256 = (ss_sequenceNumber s + 1) mod 256"
    using new_BtpSessionHandler_simps(7) [OF assms(2)] new_BtpSessionHandler_simps(6) [OF assms(1)]
    by (cases role) (simp_all add: opposite_def)
  moreover have "holds_partial r None" "ss_isActive r" "fs \<le> ss_fragmentSize r"
    using new_BtpSessionHandler_simps [OF assms(2)] by (simp_all add: holds_partial_def)
  ultimately show ?thesis
    using receive_all_ok [OF w(1), of r handle'] assms(5,6) w(2,3) by auto
qed

text \<open>A concrete connection: a central sends one message of three bytes.\<close>

definition sample_session :: "bool \<Rightarrow> int \<Rightarrow> int \<Rightarrow> DataReader list \<Rightarrow> bool \<Rightarrow> bool \<Rightarrow> BtpSessionHandler" where
  "sample_session ackTimer n acked q progress sendTimer =
     \<lparr>ss_fragmentSize = 20, ss_clientWindowSize = 4, ss_currentIncomingSegmentedMsgLength = None,
      ss_currentIncomingSegmentedPayload = None, ss_prevIncomingSequenceNumber = 0, ss_prevIncomingAckNumber = - 1,
      ss_ackReceiveTimer = ackTimer, ss_sequenceNumber = n, ss_prevAckedSequenceNumber = acked,
      ss_queuedOutgoingMatterMessages = q, ss_sendInProgress = progress, ss_sendAckTimer = sendTimer,
      ss_isActive = True\<rparr>"

lemma sample_central: "new_BtpSessionHandler Central 4 20 4 = Inr (sample_session False (- 1) (- 1) [] False True)"
  by (simp add: new_BtpSessionHandler_def sample_session_def)

lemma sample_run:
  "\<exists>c. btp_run (\<lambda>_. Inr ()) (initial_config (sample_session False (- 1) (- 1) [] False True)) [Submit [1, 2, 3], WriteDone] c \<and>
     cf_wire c = [[13, 0, 0, 3, 0, 1, 2, 3]] \<and> cf_submitted c = [[1, 2, 3]] \<and>
     ss_queuedOutgoingMatterMessages (cf_handler c) = []"
proof -
  let ?s0 = "sample_session False (- 1) (- 1) [] False True"
  let ?s1 = "sample_session False 0 0 [\<lparr>dr_buffer = [1, 2, 3], dr_offset = 3, dr_littleEndian = True\<rparr>] True False"
  let ?s2 = "sample_session True 0 0 [] False False"
  have 1: "sendMatterMessage [1, 2, 3] ?s0 = (Inr (Some True), [WriteBle [13, 0, 0, 3, 0, 1, 2, 3]], ?s1)"
    by code_simp
  have 2: "processSendQueue_resume True ?s1 = (Inr None, [], ?s2)"
    by code_simp
  let ?c0 = "initial_config ?s0"
  let ?c1 = "(emit [WriteBle [13, 0, 0, 3, 0, 1, 2, 3]] ?s1 ?c0)\<lparr>cf_submitted := [[1, 2, 3]], cf_sending := Some True\<rparr>"
  have "btp_step (\<lambda>_. Inr ()) ?c0 (Submit [1, 2, 3]) ?c1"
    using btp_step.submit [of "[1, 2, 3]" ?c0 "Some True" _ ?s1] 1 by (simp add: initial_config_def)
  then have "btp_run (\<lambda>_. Inr ()) ?c0 [Submit [1, 2, 3]] ?c1"
    using btp_run.run_snoc [OF btp_run.run_nil] by fastforce
  moreover have "btp_step (\<lambda>_. Inr ()) ?c1 WriteDone ((emit [] ?s2 ?c1)\<lparr>cf_sending := None\<rparr>)"
    using btp_step.write_done [of ?c1 True "Inr None" "[]" ?s2] 2 by (simp add: emit_def)
  ultimately have "btp_run (\<lambda>_. Inr ()) ?c0 ([Submit [1, 2, 3]] @ [WriteDone]) ((emit [] ?s2 ?c1)\<lparr>cf_sending := None\<rparr>)"
    by (rule btp_run.run_snoc)
  then show ?thesis
    by (intro exI [of _ "(emit [] ?s2 ?c1)\<lparr>cf_sending := None\<rparr>"]) (simp add: emit_def initial_config_def sample_session_def)
qed

theorem wire_refines_fifo_witness:
  "\<exists>s c. btp_run (\<lambda>_. Inr ()) (initial_config s) [Submit [1, 2, 3], WriteDone] c \<and> cf_submitted c = [[1, 2, 3]] \<and>
    (\<exists>n cur. wire_spec 20 (cf_wire c) (ss_sequenceNumber s, [], None) = Some (n, [[1, 2, 3]], cur))"
proof -
  obtain c where c: "btp_run (\<lambda>_. Inr ()) (initial_config (sample_session False (- 1) (- 1) [] False True)) [Submit [1, 2, 3], WriteDone] c"
    "cf_submitted c = [[1, 2, 3]]" "ss_queuedOutgoingMatterMessages (cf_handler c) = []"
    using sample_run by blast
  then show ?thesis
    using wire_refines_fifo [OF sample_central _ c(1)] by auto
qed

theorem btp_end_to_end_witness:
  "\<exists>r r'. new_BtpSessionHandler Peripheral 4 20 6 = Inr r \<and>
    receive_all (\<lambda>_. Inr ()) [[13, 0, 0, 3, 0, 1, 2, 3]] r = ([[1, 2, 3]], r') \<and> ss_isActive r'"
proof -
  obtain r where r: "new_BtpSessionHandler (opposite Central) 4 20 6 = Inr r"
    by (simp add: new_BtpSessionHandler_def opposite_def)
  obtain c where c: "btp_run (\<lambda>_. Inr ()) (initial_config (sample_session False (- 1) (- 1) [] False True)) [Submit [1, 2, 3], WriteDone] c"
    "cf_wire c = [[13, 0, 0, 3, 0, 1, 2, 3]]" "cf_submitted c = [[1, 2, 3]]" "ss_queuedOutgoingMatterMessages (cf_handler c) = []"
    using sample_run by blast
  have "case new_BtpSessionHandler Peripheral 4 20 6 of Inl _ \<Rightarrow> False
      | Inr r \<Rightarrow> acks_ok r (ss_prevIncomingAckNumber r) [[13, 0, 0, 3, 0, 1, 2, 3]]"
    by code_simp
  with r c(2) have "acks_ok r (ss_prevIncomingAckNumber r) (cf_wire c)"
    by (simp add: opposite_def)
  with btp_end_to_end [OF sample_central r _ c(1), of "\<lambda>_. Inr ()"] c(2-4) r show ?thesis
    by (auto simp: opposite_def)
qed

end
