(* ===== verification/BtpLimits.thy ===== *)
theory BtpLimits
  imports BtpDelivery
begin

text \<open>
  Negotiation and limits of the Bluetooth transport session: the bounds the handshake guarantees,
  the end of the send loop, and what happens when the window is full and when the sequence
  numbers pass 255.
\<close>

section \<open>Handshake\<close>

lemma dv_read_le_uint:
  assumes "dv_read n le_uint r = Inr (v, r')"
  shows "0 \<le> v \<and> v < 2 ^ (8 * n)"
proof -
  obtain bs where bs: "dv_get r (dr_offset r) n = Inr bs" "v = le_uint bs"
    using assms by (auto simp: dv_read_def getOffsetAndAdvance_eq rbind_eq_Inr)
  then have "length bs = n"
    by (auto simp: dv_get_def Let_def split: if_splits)
  with le_uint_range [of bs] bs(2) show ?thesis by simp
qed

lemma read_ranges:
  "readUInt8 r = Inr (v, r') \<Longrightarrow> 0 \<le> v \<and> v < 256"
  "readUInt16 r = Inr (v, r') \<Longrightarrow> 0 \<le> v \<and> v < 65536"
  using dv_read_le_uint [of 1 r v r'] dv_read_le_uint [of 2 r v r'] by (simp_all add: reader_defs)

lemma decodeBtpHandshakeRequest_range:
  "decodeBtpHandshakeRequest bs = Inr q \<Longrightarrow> 0 \<le> hq_clientWindowSize q \<and> hq_clientWindowSize q < 256"
  by (auto simp: decodeBtpHandshakeRequest_def decodeHandshakeRequestPayload_def rbind_eq_Inr Let_def
      dest: read_ranges)

lemma negotiated_attMtu_range:
  "23 \<le> negotiated_attMtu m h \<and> negotiated_attMtu m h \<le> 247"
  by (auto simp: negotiated_attMtu_def btp_session_constants Let_def split: option.split)

text \<open>
  C31. Whatever request a central sends and whatever data size the platform reports, a session the
  peripheral creates has a fragment size between 20 and 244 bytes and a window of at most 255
  packets, and the response it writes makes the central create a session with the same two values.
\<close>

theorem handshake_bounds:
  assumes "createFromHandshakeRequest maxDataSize payload = (Inr s, out)"
  shows "20 \<le> ss_fragmentSize s \<and> ss_fragmentSize s \<le> 244 \<and> ss_clientWindowSize s \<le> 255 \<and>
    (\<exists>response c. out = [WriteBle response] \<and> createAsCentral response = Inr c \<and>
       ss_fragmentSize c = ss_fragmentSize s \<and> ss_clientWindowSize c = ss_clientWindowSize s)"
proof -
  obtain q where q: "decodeBtpHandshakeRequest payload = Inr q"
    using assms by (auto simp: createFromHandshakeRequest_def split: sum.splits)
  let ?mtu = "negotiated_attMtu maxDataSize (hq_attMtu q)" and ?w = "min 255 (hq_clientWindowSize q)"
  let ?p = "\<lparr>hp_version = 4, hp_attMtu = ?mtu, hp_windowSize = ?w\<rparr>"
  note mtu = negotiated_attMtu_range [of maxDataSize "hq_attMtu q"]
  have rt: "rbind (encodeBtpHandshakeResponse ?p) decodeBtpHandshakeResponsePayload = Inr ?p"
    using mtu decodeBtpHandshakeRequest_range [OF q] by (intro handshake_response_roundtrip) auto
  then obtain bs where bs: "encodeBtpHandshakeResponse ?p = Inr bs" "decodeBtpHandshakeResponsePayload bs = Inr ?p"
    by (auto simp: rbind_eq_Inr)
  have 4: "4 \<in> set (hq_versions q)"
    using assms q by (auto simp: createFromHandshakeRequest_def btp_session_constants split: if_splits)
  obtain t where t: "new_BtpSessionHandler Peripheral 4 (?mtu - 3) ?w = Inr t"
    by (simp add: new_BtpSessionHandler_def)
  have "createFromHandshakeRequest maxDataSize payload = (Inr t, [WriteBle bs])"
    using q 4 bs(1) t by (simp add: createFromHandshakeRequest_def btp_session_constants)
  then have st: "s = t" "out = [WriteBle bs]" using assms by simp_all
  obtain c where c: "new_BtpSessionHandler Central 4 (?mtu - 3) ?w = Inr c"
    by (simp add: new_BtpSessionHandler_def)
  then have "createAsCentral bs = Inr c"
    by (simp add: createAsCentral_def bs(2))
  then show ?thesis
    using mtu new_BtpSessionHandler_simps(1,2) [OF t] new_BtpSessionHandler_simps(1,2) [OF c]
    by (auto simp: st)
qed

theorem handshake_bounds_witness:
  "\<exists>s out. createFromHandshakeRequest (Some 100) [0x65, 0x6c, 4, 0, 0, 0, 247, 0, 8] = (Inr s, out) \<and>
    20 \<le> ss_fragmentSize s \<and> ss_fragmentSize s \<le> 244"
proof -
  have "case createFromHandshakeRequest (Some 100) [0x65, 0x6c, 4, 0, 0, 0, 247, 0, 8] of
      (Inl _, _) \<Rightarrow> False | (Inr _, _) \<Rightarrow> True"
    by code_simp
  then obtain s out where "createFromHandshakeRequest (Some 100) [0x65, 0x6c, 4, 0, 0, 0, 247, 0, 8] = (Inr s, out)"
    by (auto split: prod.splits sum.splits)
  with handshake_bounds [OF this] show ?thesis by blast
qed

section \<open>The send loop ends\<close>

definition unsent :: "btp_config \<Rightarrow> nat" where
  "unsent c = sum_list (map (\<lambda>r. rd_len r - dr_offset r) (ss_queuedOutgoingMatterMessages (cf_handler c))) +
     (if cf_sending c = None then 0 else 1)"

lemma write_done_unsent:
  assumes inv: "send_inv start c" and step: "btp_step handle c WriteDone c'"
  shows "unsent c' < unsent c"
proof -
  from step obtain e res out s where e: "cf_sending c = Some e" and
    resume: "processSendQueue_resume e (cf_handler c) = (res, out, s)" and
    c': "c' = (emit out s c)\<lparr>cf_sending := (case res of Inl _ \<Rightarrow> None | Inr k \<Rightarrow> k)\<rparr>"
    by (auto elim: btp_step.cases)
  let ?s = "cf_handler c" and ?q = "ss_queuedOutgoingMatterMessages (cf_handler c)"
  obtain again t where t: "fragment_written e ?s = (again, t)" by fastforce
  from inv e obtain r rs where q: "?q = r # rs" and er: "e = (\<not> dr_offset r < rd_len r)"
    by (cases ?q) (auto simp: send_inv_defs Let_def)
  let ?q' = "if e then rs else r # rs"
  have tq: "ss_queuedOutgoingMatterMessages t = ?q'" "again \<Longrightarrow> ?q' \<noteq> []" "numbers_ok t"
    using t q inv by (auto simp: fragment_written_def send_inv_def numbers_ok_def Let_def split: if_splits)
  have qok: "queue_ok ?q'" and ready: "head_ready ?q'"
    using inv q er by (cases rs; auto simp: send_inv_def queue_ok_def)+
  show ?thesis
  proof (cases again)
    case False
    then show ?thesis
      using resume t e q tq by (auto simp: processSendQueue_resume_def c' unsent_def emit_def)
  next
    case True
    then obtain r' rs' where q': "?q' = r' # rs'" using tq(2) by (cases ?q') auto
    define k where "k = fragment_room (ss_fragmentSize t) (due_ack t) r'"
    obtain e' out' s' where s': "send_fragment t = (Inr e', out', s')" "ss_queuedOutgoingMatterMessages s' = skip k r' # rs'"
      using send_fragment_eq [of t r' rs'] tq qok ready q' by (auto simp: k_def)
    have "0 < k" using tq(3) fragment_room_pos by (simp add: k_def numbers_ok_def)
    moreover have "dr_offset r' < rd_len r'" using ready q' by simp
    ultimately have "sum_list (map (\<lambda>r. rd_len r - dr_offset r) (skip k r' # rs')) <
        sum_list (map (\<lambda>r. rd_len r - dr_offset r) ?q')"
      unfolding q' by simp
    then show ?thesis
      using resume t True e q s' by (auto simp: processSendQueue_resume_def suspended_def c' unsent_def emit_def split: if_splits)
  qed
qed

text \<open>
  The send loop ends: while only writes complete, \<^verbatim>\<open>processSendQueue\<close> goes round at most once
  per unsent byte, so every run of completed writes is finite and leaves the loop.
\<close>

theorem send_loop_ends:
  assumes "new_BtpSessionHandler role 4 fs w = Inr s" and "6 \<le> fs" and "btp_run handle (initial_config s) es c"
    and "btp_run handle c (replicate n WriteDone) c'"
  shows "n + unsent c' \<le> unsent c"
proof -
  have inv: "send_inv (ss_sequenceNumber s) c"
    using btp_run_inv [OF assms(3) send_inv_initial [OF assms(1,2)]] .
  have "es' = replicate n WriteDone \<Longrightarrow> btp_run handle c es' c' \<Longrightarrow> n + unsent c' \<le> unsent c \<and> send_inv (ss_sequenceNumber s) c'" for es' n c'
  proof (induction n arbitrary: es' c')
    case 0
    then show ?case using inv by (auto elim: btp_run.cases)
  next
    case (Suc n)
    then obtain c1 where "btp_run handle c (replicate n WriteDone) c1" "btp_step handle c1 WriteDone c'"
      by (auto elim: btp_run.cases simp: replicate_append_same [symmetric])
    with Suc.IH [OF refl this(1)] write_done_unsent [of "ss_sequenceNumber s" c1 handle c'] btp_step_inv show ?case
      by fastforce
  qed
  with assms(4) show ?thesis by blast
qed

theorem send_loop_ends_witness:
  "\<exists>s c c'. btp_run (\<lambda>_. Inr ()) (initial_config s) [Submit [1, 2, 3]] c \<and> btp_run (\<lambda>_. Inr ()) c [WriteDone] c' \<and>
     1 + unsent c' \<le> unsent c"
proof -
  let ?s = "sample_session False (- 1) (- 1) [] False True"
  obtain c' where "btp_run (\<lambda>_. Inr ()) (initial_config ?s) ([Submit [1, 2, 3]] @ [WriteDone]) c'"
    using sample_run by auto
  then obtain c where c: "btp_run (\<lambda>_. Inr ()) (initial_config ?s) [Submit [1, 2, 3]] c" "btp_step (\<lambda>_. Inr ()) c WriteDone c'"
    by (auto elim: btp_run.cases)
  then have "btp_run (\<lambda>_. Inr ()) c (replicate 1 WriteDone) c'"
    using btp_run.run_snoc [OF btp_run.run_nil c(2)] by simp
  with send_loop_ends [OF sample_central _ c(1) this] c(1) show ?thesis by auto
qed

section \<open>A full window\<close>

lemma quiet_step:
  assumes "btp_step handle c e c'" and "cf_sending c = None" and "\<And>data. e \<noteq> Submit data"
  shows "cf_sending c' = None \<and> ss_queuedOutgoingMatterMessages (cf_handler c') = ss_queuedOutgoingMatterMessages (cf_handler c)"
  using assms
proof (induction rule: btp_step.induct)
  case (send_ack_timeout c res out s)
  then show ?case
    by (auto simp: btpSendAckTimeoutTriggered_def getNextSequenceNumber_def emit_def Let_def split: if_splits sum.splits)
next
  case (incoming data c res out s)
  then show ?case using handleIncomingBleData_frame by (fastforce simp: emit_def same_sender_def)
next
  case (ack_timeout c out s)
  then show ?case using btpAckTimeoutTriggered_frame by (fastforce simp: emit_def same_sender_def)
next
  case (close c out s)
  then show ?case using btp_close_frame by (fastforce simp: emit_def same_sender_def)
qed (auto simp: ack_written_def)

lemma quiet_run:
  "btp_run handle c es c' \<Longrightarrow> cf_sending c = None \<Longrightarrow> list_all (\<lambda>e. \<forall>data. e \<noteq> Submit data) es \<Longrightarrow>
    cf_sending c' = None \<and> ss_queuedOutgoingMatterMessages (cf_handler c') = ss_queuedOutgoingMatterMessages (cf_handler c)"
  by (induction rule: btp_run.induct) (auto dest: quiet_step)

text \<open>
  A full window is not reopened: once \<^verbatim>\<open>processSendQueue\<close> has returned, no incoming
  packet, whatever it acknowledges, and no timer sends anything of the queued messages; the queue
  stays as it is until the next message is submitted.
\<close>

theorem full_window_stalls:
  assumes "cf_sending c = None" and "btp_run handle c es c'" and "list_all (\<lambda>e. \<forall>data. e \<noteq> Submit data) es"
  shows "ss_queuedOutgoingMatterMessages (cf_handler c') = ss_queuedOutgoingMatterMessages (cf_handler c)"
  using quiet_run [OF assms(2,1,3)] by simp

text \<open>
  An instance: window 2, two packets of a message are out, and the peer's acknowledgement of the
  first arrives.  The window is open again and five bytes stay queued.
\<close>

definition stalled_session :: "BtpSessionHandler" where
  "stalled_session = (sample_session True 1 0
     [\<lparr>dr_buffer = replicate 20 7, dr_offset = 15, dr_littleEndian = True\<rparr>] False False)\<lparr>ss_clientWindowSize := 2\<rparr>"

theorem full_window_stalls_witness:
  "\<exists>c. btp_run (\<lambda>_. Inr ()) (initial_config stalled_session) [Incoming [8, 0, 1]] c \<and>
    exceedsWindowSize stalled_session (ss_prevIncomingAckNumber stalled_session) (ss_sequenceNumber stalled_session) \<and>
    \<not> exceedsWindowSize (cf_handler c) (ss_prevIncomingAckNumber (cf_handler c)) (ss_sequenceNumber (cf_handler c)) \<and>
    ss_queuedOutgoingMatterMessages (cf_handler c) = ss_queuedOutgoingMatterMessages stalled_session"
proof -
  obtain res out s where h: "handleIncomingBleData (\<lambda>_. Inr ()) [8, 0, 1] stalled_session = (res, out, s)"
    using prod_cases3 by blast
  have "case handleIncomingBleData (\<lambda>_. Inr ()) [8, 0, 1] stalled_session of (_, _, s) \<Rightarrow>
      \<not> exceedsWindowSize s (ss_prevIncomingAckNumber s) (ss_sequenceNumber s)"
    by code_simp
  with h have open': "\<not> exceedsWindowSize s (ss_prevIncomingAckNumber s) (ss_sequenceNumber s)" by simp
  let ?c = "emit out s (initial_config stalled_session)"
  have "btp_step (\<lambda>_. Inr ()) (initial_config stalled_session) (Incoming [8, 0, 1]) ?c"
    using h by (intro btp_step.incoming) (simp add: initial_config_def)
  then have run: "btp_run (\<lambda>_. Inr ()) (initial_config stalled_session) [Incoming [8, 0, 1]] ?c"
    using btp_run.run_snoc [OF btp_run.run_nil] by fastforce
  have "exceedsWindowSize stalled_session (ss_prevIncomingAckNumber stalled_session) (ss_sequenceNumber stalled_session)"
    by code_simp
  with full_window_stalls [OF _ run] run open' show ?thesis
    by (intro exI [of _ ?c]) (simp add: emit_def initial_config_def)
qed

lemma rejected_ack_closes:
  assumes "ss_isActive s" and "3 \<le> ss_fragmentSize s" and "0 \<le> ack" "ack \<le> 255"
    and "n = (ss_prevIncomingSequenceNumber s + 1) mod 256"
    and "ss_sequenceNumber s < ack \<or> exceedsWindowSize s (ss_prevIncomingAckNumber s) ack"
  shows "\<exists>s'. handleIncomingBleData handle [8, word_of_int ack, word_of_int n] s =
    (Inr (), [DisconnectBle], s') \<and> \<not> ss_isActive s'"
proof -
  let ?p = "\<lparr>bp_header = \<lparr>bh_isHandshakeRequest = False, bh_hasManagementOpcode = False, bh_hasAckNumber = True,
        bh_isEndingSegment = False, bh_isContinuingSegment = False, bh_isBeginningSegment = False\<rparr>,
      bp_payload = \<lparr>pp_ackNumber = Some ack, pp_sequenceNumber = n,
        pp_messageLength = None, pp_segmentPayload = None\<rparr>\<rparr>"
  have ok: "btp_packet_ok ?p"
    using assms(3-5) seq_mod_range by (simp add: btp_packet_ok_def)
  have bytes: "btp_packet_bytes ?p = [8, word_of_int ack, word_of_int n]"
    by (simp add: btp_packet_bytes_def btp_header_bits_def btp_constant_defs js_eval le_bytes_byte [unfolded One_nat_def])
  have "decodeBtpPacket [8, word_of_int ack, word_of_int n] = Inr (decoded_btp_packet ?p)"
    using decodeBtpPacket_bytes [OF ok] by (simp only: bytes)
  moreover have "exceedsWindowSize (s\<lparr>ss_prevIncomingSequenceNumber := a, ss_sendAckTimer := b\<rparr>) = exceedsWindowSize s" for a b
    by (rule exceedsWindowSize_like) (simp add: receiver_like_def)
  ultimately show ?thesis
    using assms(1,2,5,6)
    by (auto simp: handleIncomingBleData_def incoming_packet_def incoming_ack_def decoded_btp_packet_def btp_close_def)
qed

text \<open>
  A session that has filled its window closes when the peer acknowledges everything at once:
  the loop stops with as many unacknowledged packets as the window allows, and the check of an
  incoming acknowledgement rejects one that covers that many.
\<close>

theorem full_window_ack_closes:
  assumes "ss_isActive s" and "3 \<le> ss_fragmentSize s"
    and "0 \<le> ss_sequenceNumber s" "ss_sequenceNumber s \<le> 255"
    and "ss_sequenceNumber s - ss_prevIncomingAckNumber s = ss_clientWindowSize s" and "1 \<le> ss_clientWindowSize s"
    and "n = (ss_prevIncomingSequenceNumber s + 1) mod 256"
  shows "\<exists>s'. handleIncomingBleData handle [8, word_of_int (ss_sequenceNumber s), word_of_int n] s =
    (Inr (), [DisconnectBle], s') \<and> \<not> ss_isActive s'"
  using assms by (intro rejected_ack_closes) (auto simp: exceedsWindowSize_def)

theorem full_window_ack_closes_witness:
  "\<exists>s'. handleIncomingBleData (\<lambda>_. Inr ()) [8, word_of_int 3, word_of_int 1] (sample_session True 3 0 [] False False) =
    (Inr (), [DisconnectBle], s') \<and> \<not> ss_isActive s'"
  using full_window_ack_closes [of "sample_session True 3 0 [] False False" 1 "\<lambda>_. Inr ()"]
  by (simp add: sample_session_def)

section \<open>Sequence numbers that pass 255\<close>

text \<open>
  The window check measures the distance modulo 256 only while the sequence number has not
  wrapped past the last acknowledged one: after a wrap it never reports a full window, unless the last
  acknowledged number was 255.
\<close>

theorem exceedsWindowSize_wrap:
  assumes "0 \<le> prev" "prev \<le> 255" and "0 \<le> cur" "cur \<le> 255" and "1 \<le> ss_clientWindowSize s"
  shows "exceedsWindowSize s prev cur \<longleftrightarrow>
    (prev \<le> cur \<or> prev = 255) \<and> (cur - prev) mod 256 \<ge> ss_clientWindowSize s"
proof -
  consider "prev \<le> cur" | "cur < prev" "prev = 255" | "cur < prev" "prev < 255"
    using assms(2) by linarith
  then show ?thesis
  proof cases
    case 1
    with assms show ?thesis by (auto simp: exceedsWindowSize_def)
  next
    case 2
    have "(cur - 255) mod 256 = cur + 1"
      using assms(3) 2 by (intro int_mod_pos_eq [of _ _ "- 1"]) auto
    with 2 show ?thesis by (auto simp: exceedsWindowSize_def MAXIMUM_SEQUENCE_NUMBER_def)
  next
    case 3
    with assms show ?thesis by (simp add: exceedsWindowSize_def MAXIMUM_SEQUENCE_NUMBER_def)
  qed
qed

theorem exceedsWindowSize_wrap_witness:
  "exceedsWindowSize (sample_session True 3 0 [] False False) 250 3 \<longleftrightarrow>
    (250 \<le> (3::int) \<or> (250::int) = 255) \<and> (3 - 250) mod 256 \<ge> (4::int)"
  using exceedsWindowSize_wrap [of 250 3 "sample_session True 3 0 [] False False"]
  by (simp add: sample_session_def)

text \<open>
  A correct peer is disconnected after a wrap: an acknowledgement of a packet sent just
  before the sequence number wrapped is outstanding and legal, but it is larger than the current
  sequence number, and the session closes.
\<close>

theorem wrapped_ack_closes:
  assumes "ss_isActive s" and "3 \<le> ss_fragmentSize s" and "ss_sequenceNumber s < ack" and "0 \<le> ack" "ack \<le> 255"
    and "n = (ss_prevIncomingSequenceNumber s + 1) mod 256"
  shows "\<exists>s'. handleIncomingBleData handle [8, word_of_int ack, word_of_int n] s =
    (Inr (), [DisconnectBle], s') \<and> \<not> ss_isActive s'"
  using assms by (intro rejected_ack_closes) auto

text \<open>An instance: packets 254, 255, 0, 1 and 2 are outstanding, and the peer acknowledges 254.\<close>

theorem wrapped_ack_closes_witness:
  "\<exists>s'. handleIncomingBleData (\<lambda>_. Inr ()) [8, word_of_int 254, word_of_int 1]
      ((sample_session True 2 0 [] False False)\<lparr>ss_clientWindowSize := 8, ss_prevIncomingAckNumber := 253\<rparr>) =
    (Inr (), [DisconnectBle], s') \<and> \<not> ss_isActive s'"
  using wrapped_ack_closes
    [of "(sample_session True 2 0 [] False False)\<lparr>ss_clientWindowSize := 8, ss_prevIncomingAckNumber := 253\<rparr>"
      254 1 "\<lambda>_. Inr ()"]
  by (simp add: sample_session_def)

text \<open>The acknowledgement timer sends nothing once the peer's sequence number has wrapped.\<close>

lemma wrapped_ack_not_sent:
  "ss_prevIncomingSequenceNumber s < ss_prevAckedSequenceNumber s \<Longrightarrow> btpSendAckTimeoutTriggered s = (Inr False, [], s)"
  by (simp add: btpSendAckTimeoutTriggered_def)

end
