(* ===== verification/Base38.thy ===== *)
theory Base38
  imports ByteIO
begin

text \<open>
  The base 38 text encoding of \<^verbatim>\<open>schema/Base38Schema.ts\<close>: three bytes become five characters, a last
  group of two or one bytes becomes four or two characters.
\<close>

unbundle bit_operations_syntax

section \<open>Operations\<close>

definition BASE38_ALPHABET :: string where
  "BASE38_ALPHABET = ''0123456789ABCDEFGHIJKLMNOPQRSTUVWXYZ-.''"

fun encodeBase38 :: "int \<Rightarrow> nat \<Rightarrow> string" where
  "encodeBase38 value 0 = []"
| "encodeBase38 value (Suc charCount) =
     (let remainder = value mod 38
      in (BASE38_ALPHABET ! nat remainder) # encodeBase38 ((value - remainder) div 38) charCount)"

text \<open>\<^verbatim>\<open>encodeInternal\<close> over the bytes that remain.\<close>

fun base38_encode :: "byte list \<Rightarrow> string" where
  "base38_encode [] = []"
| "base38_encode [a] = encodeBase38 (uint a) 2"
| "base38_encode [a, b] = encodeBase38 (js_or (uint a) (js_shl (uint b) 8)) 4"
| "base38_encode (a # b # c # rest) =
     encodeBase38 (js_or (js_or (uint a) (js_shl (uint b) 8)) (js_shl (uint c) 16)) 5 @ base38_encode rest"

text \<open>\<^verbatim>\<open>indexOf\<close>; \<open>None\<close> stands for -1.\<close>

fun indexOf :: "string \<Rightarrow> char \<Rightarrow> nat option" where
  "indexOf [] ch = None"
| "indexOf (a # as) ch = (if a = ch then Some 0 else map_option Suc (indexOf as ch))"

text \<open>
  The loop of \<^verbatim>\<open>decodeBase38\<close> with \<^verbatim>\<open>i\<close> running from \<open>charCount - 1\<close> down to 0; a position past the end
  of the text is \<^verbatim>\<open>undefined\<close>, which is not in the alphabet.
\<close>

fun decodeBase38_loop :: "string \<Rightarrow> nat \<Rightarrow> nat \<Rightarrow> int \<Rightarrow> int result" where
  "decodeBase38_loop encoded off 0 acc = Inr acc"
| "decodeBase38_loop encoded off (Suc i) acc =
     (if off + i < length encoded then
        (case indexOf BASE38_ALPHABET (encoded ! (off + i)) of
           None \<Rightarrow> Inl UnexpectedDataError
         | Some code \<Rightarrow> decodeBase38_loop encoded off i (acc * 38 + int code))
      else Inl UnexpectedDataError)"

definition decodeBase38 :: "string \<Rightarrow> nat \<Rightarrow> nat \<Rightarrow> int result" where
  "decodeBase38 encoded off charCount = decodeBase38_loop encoded off charCount 0"

text \<open>An element store of a \<^verbatim>\<open>Uint8Array\<close>: modulo 256, and ignored past the end.\<close>

definition put_byte :: "byte list \<Rightarrow> nat \<Rightarrow> int \<Rightarrow> byte list" where
  "put_byte result i v = result[i := word_of_int v]"

function base38_decode_loop :: "string \<Rightarrow> nat \<Rightarrow> nat \<Rightarrow> byte list \<Rightarrow> byte list result" where
  "base38_decode_loop encoded encodedOffset decodedOffset result =
     (if encodedOffset < length encoded then
        let remaining = length encoded - encodedOffset in
        if remaining > 5 then
          rbind (decodeBase38 encoded encodedOffset 5) (\<lambda>value.
          base38_decode_loop encoded (encodedOffset + 5) (decodedOffset + 3)
            (put_byte (put_byte (put_byte result decodedOffset (js_and value 0xff))
               (decodedOffset + 1) (js_and (js_shr value 8) 0xff))
               (decodedOffset + 2) (js_and (js_shr value 16) 0xff)))
        else if remaining = 4 then
          rbind (decodeBase38 encoded encodedOffset 4) (\<lambda>value.
          Inr (put_byte (put_byte result decodedOffset (js_and value 0xff))
               (decodedOffset + 1) (js_and (js_shr value 8) 0xff)))
        else
          rbind (decodeBase38 encoded encodedOffset 2) (\<lambda>value.
          Inr (put_byte result decodedOffset (js_and value 0xff)))
      else Inr result)"
  by pat_completeness auto
termination
  by (relation "measure (\<lambda>(encoded, encodedOffset, _, _). length encoded - encodedOffset)") auto

declare base38_decode_loop.simps [simp del]

definition base38_decode :: "string \<Rightarrow> byte list result" where
  "base38_decode encoded =
     (let encodedLength = length encoded;
          remainderEncodedLength = encodedLength mod 5;
          decodeLength = (encodedLength - remainderEncodedLength) div 5 * 3 in
      if remainderEncodedLength = 4 then base38_decode_loop encoded 0 0 (replicate (decodeLength + 2) 0)
      else if remainderEncodedLength = 2 then base38_decode_loop encoded 0 0 (replicate (decodeLength + 1) 0)
      else Inl UnexpectedDataError)"

section \<open>One group of characters\<close>

lemma length_encodeBase38 [simp]: "length (encodeBase38 v n) = n"
  by (induction n arbitrary: v) (auto simp: Let_def)

lemma alphabet_index:
  assumes "n < 38"
  shows "indexOf BASE38_ALPHABET (BASE38_ALPHABET ! n) = Some n"
proof -
  have "\<forall>n \<in> set [0..<38]. indexOf BASE38_ALPHABET (BASE38_ALPHABET ! n) = Some n"
    by code_simp
  with assms show ?thesis by simp
qed

lemma encodeBase38_nth: "i < n \<Longrightarrow> encodeBase38 v n ! i = BASE38_ALPHABET ! nat (v div 38 ^ i mod 38)"
proof (induction n arbitrary: v i)
  case 0
  then show ?case by simp
next
  case (Suc n)
  have "(v - v mod 38) div 38 = v div 38"
    by (simp add: minus_mod_eq_mult_div)
  with Suc show ?case
    by (cases i) (simp_all add: Let_def zdiv_zmult2_eq)
qed

text \<open>The value of a group, least significant character first.\<close>

lemma decodeBase38_loop_digits:
  assumes "off + n \<le> length encoded"
    and "\<And>i. i < n \<Longrightarrow> encoded ! (off + i) = BASE38_ALPHABET ! nat (v div 38 ^ i mod 38)"
  shows "decodeBase38_loop encoded off n acc = Inr (acc * 38 ^ n + v mod 38 ^ n)"
  using assms
proof (induction n arbitrary: acc)
  case 0
  then show ?case by simp
next
  case (Suc n)
  let ?d = "v div 38 ^ n mod 38"
  have d: "0 \<le> ?d" "?d < 38" by simp_all
  have ix: "indexOf BASE38_ALPHABET (encoded ! (off + n)) = Some (nat ?d)"
    using Suc.prems(2) [of n] alphabet_index [of "nat ?d"] d by simp
  have "decodeBase38_loop encoded off (Suc n) acc = decodeBase38_loop encoded off n (acc * 38 + ?d)"
    using Suc.prems(1) ix by simp
  also have "\<dots> = Inr ((acc * 38 + ?d) * 38 ^ n + v mod 38 ^ n)"
    using Suc.prems by (intro Suc.IH) auto
  also have "(acc * 38 + ?d) * 38 ^ n + v mod 38 ^ n = acc * 38 ^ Suc n + v mod 38 ^ Suc n"
    using zmod_zmult2_eq [of 38 v "38 ^ n"] by (simp add: algebra_simps)
  finally show ?case .
qed

lemma decodeBase38_encode:
  assumes "encoded = pre @ encodeBase38 v n @ post" and "0 \<le> v" and "v < 38 ^ n"
  shows "decodeBase38 encoded (length pre) n = Inr v"
proof -
  have "encoded ! (length pre + i) = BASE38_ALPHABET ! nat (v div 38 ^ i mod 38)" if "i < n" for i
    using that by (simp add: assms(1) nth_append encodeBase38_nth)
  then have "decodeBase38_loop encoded (length pre) n 0 = Inr (0 * 38 ^ n + v mod 38 ^ n)"
    by (intro decodeBase38_loop_digits) (simp_all add: assms(1))
  with assms(2,3) show ?thesis by (simp add: decodeBase38_def)
qed

section \<open>Bytes of a group\<close>

lemma uint_byte_range: "0 \<le> uint (b :: byte)" "uint (b :: byte) < 256"
  using uint_lt2p [of b] by simp_all

lemma or_byte: "0 \<le> a \<Longrightarrow> a < 2 ^ n \<Longrightarrow> 0 \<le> b \<Longrightarrow> b < 256 \<Longrightarrow> n < 23 \<Longrightarrow>
    js_or a (js_shl b (int n)) = a + b * 2 ^ n"
proof -
  assume a: "0 \<le> a" "a < 2 ^ n" and b: "0 \<le> b" "b < 256" and n: "n < 23"
  have p: "(2 :: int) ^ n \<le> 2 ^ 22" using n by (intro power_increasing) auto
  have "b * 2 ^ n \<le> 255 * 2 ^ 22" using b p by (intro mult_mono) auto
  then have lt: "b * 2 ^ n < 2 ^ 31" by simp
  then have "js_shl b (int n) = push_bit n b"
    using b n js_shl_small [of "int n" b] by (simp add: push_bit_eq_mult)
  moreover have "js_or a (push_bit n b) = a OR push_bit n b"
    using a b p lt by (intro js_or_small) (auto simp: push_bit_eq_mult intro: order.strict_trans2 [of a "2 ^ n"])
  moreover have "a OR push_bit n b = b * 2 ^ n + a"
    using or_shifted [OF a, of b] by (simp add: or.commute)
  ultimately show ?thesis by simp
qed

lemma group_values:
  "js_or (uint a) (js_shl (uint b) 8) = uint (a :: byte) + uint (b :: byte) * 256"
  "js_or (js_or (uint a) (js_shl (uint b) 8)) (js_shl (uint c) 16) =
     uint a + uint b * 256 + uint (c :: byte) * 65536"
proof -
  show 1: "js_or (uint a) (js_shl (uint b) 8) = uint a + uint b * 256"
    using or_byte [of "uint a" 8 "uint b"] uint_byte_range [of a] uint_byte_range [of b] by simp
  show "js_or (js_or (uint a) (js_shl (uint b) 8)) (js_shl (uint c) 16) = uint a + uint b * 256 + uint c * 65536"
    unfolding 1
    using or_byte [of "uint a + uint b * 256" 16 "uint c"] uint_byte_range [of a] uint_byte_range [of b] uint_byte_range [of c]
    by simp
qed

lemma js_and_255: "0 \<le> v \<Longrightarrow> v < 2 ^ 31 \<Longrightarrow> js_and v 255 = v mod 256"
  using take_bit_eq_mask [of 8 v] by (simp add: js_and_small mask_eq_exp_minus_1 take_bit_eq_mod)

lemma word_of_int_mod_256: "(word_of_int (x mod 256) :: byte) = word_of_int x"
  by transfer (simp add: take_bit_eq_mod)

lemma byte_of_value:
  assumes "0 \<le> v" and "v < 2 ^ 31"
  shows "(word_of_int (js_and v 255) :: byte) = word_of_int v"
    and "(word_of_int (js_and (js_shr v 8) 255) :: byte) = word_of_int (v div 256)"
    and "(word_of_int (js_and (js_shr v 16) 255) :: byte) = word_of_int (v div 65536)"
proof -
  have k: "0 \<le> v div k \<and> v div k < 2 ^ 31" if "0 < k" for k :: int
  proof -
    have "v div k \<le> v div 1" using assms(1) that by (intro zdiv_mono2) auto
    with assms that show ?thesis by (simp add: pos_imp_zdiv_nonneg_iff)
  qed
  have "js_shr v 8 = v div 256" "js_shr v 16 = v div 65536"
    using assms by (simp_all add: js_shr_small)
  then show "(word_of_int (js_and v 255) :: byte) = word_of_int v"
    "(word_of_int (js_and (js_shr v 8) 255) :: byte) = word_of_int (v div 256)"
    "(word_of_int (js_and (js_shr v 16) 255) :: byte) = word_of_int (v div 65536)"
    using assms k [of 256] k [of 65536] by (simp_all add: js_and_255 word_of_int_mod_256)
qed

lemma word_of_int_sum: "(word_of_int (uint (a :: byte) + 256 * x) :: byte) = a"
  using word_of_int_mod_256 [of "uint a + 256 * x"] uint_byte_range [of a] by simp

text \<open>The bytes the decoder stores for the value of a group are the bytes it was made from.\<close>

lemma group_bytes:
  fixes a b c :: byte
  shows "(word_of_int (js_and (uint a) 255) :: byte) = a"
    and "let v = uint a + uint b * 256 in
      (word_of_int (js_and v 255) :: byte) = a \<and> (word_of_int (js_and (js_shr v 8) 255) :: byte) = b"
    and "let v = uint a + uint b * 256 + uint c * 65536 in
      (word_of_int (js_and v 255) :: byte) = a \<and> (word_of_int (js_and (js_shr v 8) 255) :: byte) = b \<and>
      (word_of_int (js_and (js_shr v 16) 255) :: byte) = c"
proof -
  note r = uint_byte_range [of a] uint_byte_range [of b] uint_byte_range [of c]
  show "(word_of_int (js_and (uint a) 255) :: byte) = a"
    using r by (subst byte_of_value) simp_all
  let ?v = "uint a + uint b * 256" and ?w = "uint a + uint b * 256 + uint c * 65536"
  have "?v = uint a + 256 * uint b" "?v div 256 = uint b"
    "?w = uint a + 256 * (uint b + 256 * uint c)" "?w div 65536 = uint c"
    using r by simp_all
  moreover from this(3) have "?w div 256 = uint b + 256 * uint c"
    using r(1,2) by (metis add.commute div_mult_self2 div_pos_pos_trivial add_0_right zero_neq_numeral)
  ultimately show "let v = ?v in (word_of_int (js_and v 255) :: byte) = a \<and> (word_of_int (js_and (js_shr v 8) 255) :: byte) = b"
    "let v = ?w in (word_of_int (js_and v 255) :: byte) = a \<and> (word_of_int (js_and (js_shr v 8) 255) :: byte) = b \<and>
      (word_of_int (js_and (js_shr v 16) 255) :: byte) = c"
    using r word_of_int_sum [of a "uint b"] word_of_int_sum [of a "uint b + 256 * uint c"] word_of_int_sum [of b "uint c"]
    by (simp_all add: byte_of_value Let_def algebra_simps del: of_int_add of_int_mult word_of_int_uint)
qed

section \<open>Round trip\<close>

lemma length_base38_encode:
  "length (base38_encode bs) = length bs div 3 * 5 + (if length bs mod 3 = 0 then 0 else if length bs mod 3 = 1 then 2 else 4)"
proof (induction bs rule: base38_encode.induct)
  case (4 a b c rest)
  have "length (a # b # c # rest) = length rest + 3" by simp
  then have "length (a # b # c # rest) div 3 = length rest div 3 + 1" "length (a # b # c # rest) mod 3 = length rest mod 3"
    by (simp_all only: div_add_self2 mod_add_self2 zero_neq_numeral [symmetric] simp_thms)
  with 4 show ?case by simp
qed auto

lemma put_byte_at: "put_byte (pre @ x # post) (length pre) v = pre @ word_of_int v # post"
  by (simp add: put_byte_def)

lemma base38_decode_loop_encode:
  assumes "length bs mod 3 \<noteq> 0" and "length zs = length bs"
  shows "base38_decode_loop (pre @ base38_encode bs) (length pre) (length out) (out @ zs) = Inr (out @ bs)"
  using assms
proof (induction bs arbitrary: pre out zs rule: base38_encode.induct)
  case 1
  then show ?case by simp
next
  case (2 a)
  then obtain z where zs: "zs = [z]" by (auto simp: length_Suc_conv)
  have "decodeBase38 (pre @ encodeBase38 (uint a) 2) (length pre) 2 = Inr (uint a)"
    using uint_byte_range [of a] by (intro decodeBase38_encode) auto
  then show ?case
    using group_bytes(1) [of a] by (subst base38_decode_loop.simps) (simp add: zs put_byte_at)
next
  case (3 a b)
  let ?v = "uint a + uint b * 256"
  from 3 obtain y z where zs: "zs = [y, z]" by (auto simp: length_Suc_conv)
  have "decodeBase38 (pre @ encodeBase38 ?v 4) (length pre) 4 = Inr ?v"
    using uint_byte_range [of a] uint_byte_range [of b] by (intro decodeBase38_encode) auto
  then show ?case
    using group_bytes(2) [of a b] put_byte_at [of "out @ [a]" z "[]"]
    by (subst base38_decode_loop.simps) (simp add: zs put_byte_at group_values Let_def)
next
  case (4 a b c rest)
  let ?v = "uint a + uint b * 256 + uint c * 65536" and ?e = "base38_encode rest"
  from 4 obtain x y z zs' where zs: "zs = x # y # z # zs'" "length zs' = length rest" by (auto simp: length_Suc_conv)
  have "length (a # b # c # rest) = length rest + 3" by simp
  then have mod3: "length rest mod 3 \<noteq> 0" using 4(2) by (metis mod_add_self2)
  then have "length ?e \<noteq> 0" by (simp add: length_base38_encode)
  then have "?e \<noteq> []" by auto
  have dec: "decodeBase38 (pre @ encodeBase38 ?v 5 @ ?e) (length pre) 5 = Inr ?v"
    using uint_byte_range [of a] uint_byte_range [of b] uint_byte_range [of c] by (intro decodeBase38_encode) auto
  have "base38_decode_loop ((pre @ encodeBase38 ?v 5) @ ?e) (length (pre @ encodeBase38 ?v 5))
      (length (out @ [a, b, c])) ((out @ [a, b, c]) @ zs') = Inr ((out @ [a, b, c]) @ rest)"
    using mod3 zs(2) by (intro 4(1)) auto
  then have IH: "base38_decode_loop (pre @ encodeBase38 ?v 5 @ ?e) (length pre + 5) (length out + 3) (out @ a # b # c # zs') =
      Inr (out @ a # b # c # rest)" by (simp add: numeral_3_eq_3)
  have "base38_encode (a # b # c # rest) = encodeBase38 ?v 5 @ ?e" by (simp add: group_values(2))
  with \<open>?e \<noteq> []\<close> dec IH show ?case
    using group_bytes(3) [of a b c] put_byte_at [of "out @ [a]" y "z # zs'"] put_byte_at [of "out @ [a, b]" z zs']
    by (subst base38_decode_loop.simps) (simp add: zs put_byte_at Let_def del: base38_encode.simps)
qed

lemma base38_mod:
  "length bs mod 3 = 1 \<Longrightarrow> length (base38_encode bs) = length bs div 3 * 5 + 2"
  "length bs mod 3 = 2 \<Longrightarrow> length (base38_encode bs) = length bs div 3 * 5 + 4"
  "length bs mod 3 = 0 \<Longrightarrow> length (base38_encode bs) = length bs div 3 * 5"
  by (simp_all add: length_base38_encode)

lemma base38_decode_loop_start:
  "length encoded = k * 5 + 2 \<Longrightarrow> base38_decode encoded = base38_decode_loop encoded 0 0 (replicate (k * 3 + 1) 0)"
  "length encoded = k * 5 + 4 \<Longrightarrow> base38_decode encoded = base38_decode_loop encoded 0 0 (replicate (k * 3 + 2) 0)"
proof -
  assume l: "length encoded = k * 5 + 2"
  then have "length encoded mod 5 = 2" "(length encoded - 2) div 5 = k" by presburger+
  then show "base38_decode encoded = base38_decode_loop encoded 0 0 (replicate (k * 3 + 1) 0)"
    by (simp add: base38_decode_def Let_def)
next
  assume l: "length encoded = k * 5 + 4"
  then have "length encoded mod 5 = 4" "(length encoded - 4) div 5 = k" by presburger+
  then show "base38_decode encoded = base38_decode_loop encoded 0 0 (replicate (k * 3 + 2) 0)"
    by (simp add: base38_decode_def Let_def)
qed

lemma base38_decode_encode:
  assumes "length bs mod 3 \<noteq> 0"
  shows "base38_decode (base38_encode bs) = Inr bs"
proof -
  have loop: "base38_decode_loop (base38_encode bs) 0 0 (replicate (length bs) 0) = Inr bs"
    using base38_decode_loop_encode [of bs "replicate (length bs) 0" "[]" "[]"] assms by simp
  consider "length bs mod 3 = 1" | "length bs mod 3 = 2" using assms by linarith
  then show ?thesis
  proof cases
    case 1
    then have "length bs div 3 * 3 + 1 = length bs" by (metis div_mult_mod_eq)
    with loop base38_decode_loop_start(1) [OF base38_mod(1) [OF 1]] show ?thesis by (simp only:)
  next
    case 2
    then have "length bs div 3 * 3 + 2 = length bs" by (metis div_mult_mod_eq)
    with loop base38_decode_loop_start(2) [OF base38_mod(2) [OF 2]] show ?thesis by (simp only:)
  qed
qed

text \<open>
  \<^verbatim>\<open>Base38\<close> gives back the bytes it encoded exactly when their number is not a multiple of
  three; for a multiple of three the encoder produces a text without a short last group, and the decoder
  refuses every text of such a length.
\<close>

theorem base38_roundtrip:
  "base38_decode (base38_encode bs) = (if length bs mod 3 = 0 then Inl UnexpectedDataError else Inr bs)"
  using base38_decode_encode [of bs] base38_mod(3) [of bs] by (simp add: base38_decode_def)

end
