(* ===== verification/Verhoeff.thy ===== *)
theory Verhoeff
  imports ByteIO
begin

text \<open>
  The check digit of manual pairing codes, \<^verbatim>\<open>math/Verhoeff.ts\<close>, with the tables of the source.  A
  character that is no digit makes a table lookup \<^verbatim>\<open>undefined\<close>: the checksum of the step is then
  undefined and the next step throws a \<^verbatim>\<open>TypeError\<close>.
\<close>

section \<open>Tables\<close>

definition multiply :: "nat list list" where
  "multiply = [
     [0, 1, 2, 3, 4, 5, 6, 7, 8, 9],
     [1, 2, 3, 4, 0, 6, 7, 8, 9, 5],
     [2, 3, 4, 0, 1, 7, 8, 9, 5, 6],
     [3, 4, 0, 1, 2, 8, 9, 5, 6, 7],
     [4, 0, 1, 2, 3, 9, 5, 6, 7, 8],
     [5, 9, 8, 7, 6, 0, 4, 3, 2, 1],
     [6, 5, 9, 8, 7, 1, 0, 4, 3, 2],
     [7, 6, 5, 9, 8, 2, 1, 0, 4, 3],
     [8, 7, 6, 5, 9, 3, 2, 1, 0, 4],
     [9, 8, 7, 6, 5, 4, 3, 2, 1, 0]]"

definition verhoeff_inverse :: "nat list" where
  "verhoeff_inverse = [0, 4, 3, 2, 1, 5, 6, 7, 8, 9]"

definition permute :: "nat list list" where
  "permute = [
     [0, 1, 2, 3, 4, 5, 6, 7, 8, 9],
     [1, 5, 7, 6, 2, 8, 3, 0, 9, 4],
     [5, 8, 0, 3, 7, 9, 6, 1, 4, 2],
     [8, 9, 1, 6, 0, 4, 3, 5, 2, 7],
     [9, 4, 5, 3, 1, 2, 6, 8, 7, 0],
     [4, 2, 8, 6, 5, 7, 3, 9, 0, 1],
     [2, 7, 9, 3, 8, 0, 6, 4, 1, 5],
     [7, 0, 4, 6, 9, 1, 3, 2, 5, 8]]"

section \<open>The checksum\<close>

text \<open>\<^verbatim>\<open>Number.parseInt\<close> of one character; \<open>None\<close> is NaN.\<close>

definition digit_value :: "char \<Rightarrow> nat option" where
  "digit_value ch = (let n = of_char ch :: nat in if 48 \<le> n \<and> n \<le> 57 then Some (n - 48) else None)"

text \<open>One round of the loop; the checksum \<open>None\<close> is \<^verbatim>\<open>undefined\<close>.\<close>

definition checksum_step :: "nat \<Rightarrow> char \<Rightarrow> nat option \<Rightarrow> nat option result" where
  "checksum_step i ch checksum =
     (case checksum of
        None \<Rightarrow> Inl TypeError
      | Some c \<Rightarrow> Inr (map_option (\<lambda>d. multiply ! c ! (permute ! (i mod 8) ! d)) (digit_value ch)))"

fun checksum_loop :: "string \<Rightarrow> nat \<Rightarrow> nat option \<Rightarrow> nat option result" where
  "checksum_loop [] i checksum = Inr checksum"
| "checksum_loop (ch # rest) i checksum = rbind (checksum_step i ch checksum) (checksum_loop rest (i + 1))"

text \<open>The loop reads the digits from the last to the first.\<close>

definition computeChecksum :: "string \<Rightarrow> nat option result" where
  "computeChecksum digits =
     rbind (checksum_loop (rev digits) 1 (Some 0)) (\<lambda>checksum.
     Inr (map_option (\<lambda>c. verhoeff_inverse ! c) checksum))"

section \<open>The tables form a check\<close>

abbreviation verhoeff_step :: "nat \<Rightarrow> nat \<Rightarrow> nat \<Rightarrow> nat" where
  "verhoeff_step i d c \<equiv> multiply ! c ! (permute ! (i mod 8) ! d)"

lemma table_range:
  assumes "c < 10" and "d < 10"
  shows "verhoeff_step i d c < 10"
proof -
  have "\<forall>j \<in> set [0..<8]. \<forall>d \<in> set [0..<10]. permute ! j ! d < 10" by code_simp
  moreover have "\<forall>c \<in> set [0..<10]. \<forall>d \<in> set [0..<10]. multiply ! c ! d < 10" by code_simp
  ultimately show ?thesis using assms by simp
qed

text \<open>A step is injective in the digit and in the checksum so far.\<close>

lemma step_injective:
  assumes "c < 10" "c' < 10" "d < 10" "d' < 10"
  shows "verhoeff_step i d c = verhoeff_step i d' c \<Longrightarrow> d = d'"
    and "verhoeff_step i d c = verhoeff_step i d c' \<Longrightarrow> c = c'"
proof -
  have p: "\<forall>j \<in> set [0..<8]. \<forall>d \<in> set [0..<10]. \<forall>d' \<in> set [0..<10]. permute ! j ! d = permute ! j ! d' \<longrightarrow> d = d'"
    by code_simp
  have p10: "\<forall>j \<in> set [0..<8]. \<forall>d \<in> set [0..<10]. permute ! j ! d < 10" by code_simp
  have m: "\<forall>c \<in> set [0..<10]. \<forall>x \<in> set [0..<10]. \<forall>y \<in> set [0..<10].
      (multiply ! c ! x = multiply ! c ! y \<longrightarrow> x = y) \<and> (multiply ! x ! c = multiply ! y ! c \<longrightarrow> x = y)"
    by code_simp
  have i: "i mod 8 < 8" by simp
  show "verhoeff_step i d c = verhoeff_step i d' c \<Longrightarrow> d = d'"
    using assms p [rule_format, of "i mod 8" d d'] p10 [rule_format, of "i mod 8" d] p10 [rule_format, of "i mod 8" d']
      m [rule_format, of c "permute ! (i mod 8) ! d" "permute ! (i mod 8) ! d'"] i by simp
  show "verhoeff_step i d c = verhoeff_step i d c' \<Longrightarrow> c = c'"
    using assms p10 [rule_format, of "i mod 8" d] m [rule_format, of "permute ! (i mod 8) ! d" c c'] i by simp
qed

text \<open>Two neighbouring digits cannot be exchanged without changing the checksum.\<close>

lemma step_transposition:
  assumes "c < 10" "a < 10" "b < 10" "a \<noteq> b"
  shows "verhoeff_step (i + 1) b (verhoeff_step i a c) \<noteq> verhoeff_step (i + 1) a (verhoeff_step i b c)"
proof -
  have comp: "\<forall>j \<in> set [0..<8]. \<forall>d \<in> set [0..<10]. permute ! (Suc j mod 8) ! d = permute ! 1 ! (permute ! j ! d)"
    by code_simp
  have t: "\<forall>c \<in> set [0..<10]. \<forall>x \<in> set [0..<10]. \<forall>y \<in> set [0..<10]. x \<noteq> y \<longrightarrow>
      multiply ! (multiply ! c ! x) ! (permute ! 1 ! y) \<noteq> multiply ! (multiply ! c ! y) ! (permute ! 1 ! x)"
    by code_simp
  have p: "\<forall>j \<in> set [0..<8]. \<forall>d \<in> set [0..<10]. permute ! j ! d < 10 \<and>
      (\<forall>d' \<in> set [0..<10]. permute ! j ! d = permute ! j ! d' \<longrightarrow> d = d')"
    by code_simp
  let ?j = "i mod 8"
  have j: "?j \<in> set [0..<8]" and s: "Suc ?j mod 8 = Suc i mod 8" by (simp_all add: mod_Suc_eq)
  have ab: "a \<in> set [0..<10]" "b \<in> set [0..<10]" "c \<in> set [0..<10]" using assms by simp_all
  have "permute ! ?j ! a \<noteq> permute ! ?j ! b" "permute ! ?j ! a \<in> set [0..<10]" "permute ! ?j ! b \<in> set [0..<10]"
    using p [rule_format, OF j ab(1)] p [rule_format, OF j ab(2)] ab assms(4) by auto
  then have "multiply ! (multiply ! c ! (permute ! ?j ! a)) ! (permute ! 1 ! (permute ! ?j ! b)) \<noteq>
      multiply ! (multiply ! c ! (permute ! ?j ! b)) ! (permute ! 1 ! (permute ! ?j ! a))"
    using t ab(3) by blast
  then have "multiply ! verhoeff_step i a c ! (permute ! (Suc i mod 8) ! b) \<noteq>
      multiply ! verhoeff_step i b c ! (permute ! (Suc i mod 8) ! a)"
    using comp [rule_format, OF j ab(1), unfolded s] comp [rule_format, OF j ab(2), unfolded s] by (simp only: not_False_eq_True)
  then show ?thesis by (simp only: Suc_eq_plus1 not_False_eq_True)
qed

section \<open>Errors are detected\<close>

definition digits_only :: "string \<Rightarrow> bool" where
  "digits_only s = list_all (\<lambda>ch. digit_value ch \<noteq> None) s"

fun verhoeff_value :: "string \<Rightarrow> nat \<Rightarrow> nat \<Rightarrow> nat" where
  "verhoeff_value [] i c = c"
| "verhoeff_value (ch # rest) i c = verhoeff_value rest (i + 1) (verhoeff_step i (the (digit_value ch)) c)"

lemma digit_value_range: "digit_value ch = Some d \<Longrightarrow> d < 10"
  by (auto simp: digit_value_def Let_def split: if_splits)

lemma digit_value_inject: "digit_value a = Some d \<Longrightarrow> digit_value b = Some d \<Longrightarrow> a = b"
proof -
  assume "digit_value a = Some d" "digit_value b = Some d"
  then have r: "48 \<le> (of_char a :: nat)" "48 \<le> (of_char b :: nat)" "of_char a - 48 = d" "of_char b - 48 = d"
    by (auto simp: digit_value_def Let_def split: if_splits)
  then have "(of_char a :: nat) = of_char b" by linarith
  then show ?thesis by simp
qed

lemma verhoeff_value_range: "digits_only s \<Longrightarrow> c < 10 \<Longrightarrow> verhoeff_value s i c < 10"
proof (induction s arbitrary: i c)
  case Nil
  then show ?case by simp
next
  case (Cons ch s)
  then obtain d where "digit_value ch = Some d" "d < 10" using digit_value_range by (auto simp: digits_only_def)
  moreover have "verhoeff_value s (i + 1) (verhoeff_step i d c) < 10"
    using Cons table_range [OF Cons.prems(2) \<open>d < 10\<close>] by (simp add: digits_only_def)
  ultimately show ?case by simp
qed

lemma verhoeff_value_append:
  "verhoeff_value (s @ t) i c = verhoeff_value t (i + length s) (verhoeff_value s i c)"
  by (induction s arbitrary: i c) auto

lemma verhoeff_value_injective:
  assumes "digits_only s" "c < 10" "c' < 10" "verhoeff_value s i c = verhoeff_value s i c'"
  shows "c = c'"
  using assms
proof (induction s arbitrary: i c c')
  case Nil
  then show ?case by simp
next
  case (Cons ch s)
  then obtain d where d: "digit_value ch = Some d" "d < 10" using digit_value_range by (auto simp: digits_only_def)
  then have "verhoeff_step i d c = verhoeff_step i d c'"
    using Cons by (intro Cons.IH [of "verhoeff_step i d c" "verhoeff_step i d c'" "i + 1"])
      (auto simp: digits_only_def intro: table_range)
  then show ?case using step_injective(2) [of c c' d d i] Cons.prems(2,3) d by simp
qed

lemma checksum_loop_digits: "digits_only s \<Longrightarrow> checksum_loop s i (Some c) = Inr (Some (verhoeff_value s i c))"
  by (induction s arbitrary: i c) (auto simp: digits_only_def checksum_step_def)

lemma computeChecksum_digits:
  "digits_only s \<Longrightarrow> computeChecksum s = Inr (Some (verhoeff_inverse ! verhoeff_value (rev s) 1 0))"
  by (simp add: computeChecksum_def checksum_loop_digits digits_only_def list.pred_set)

lemma verhoeff_inverse_injective:
  assumes "c < 10" "c' < 10" "verhoeff_inverse ! c = verhoeff_inverse ! c'"
  shows "c = c'"
proof -
  have "\<forall>c \<in> set [0..<10]. \<forall>c' \<in> set [0..<10]. verhoeff_inverse ! c = verhoeff_inverse ! c' \<longrightarrow> c = c'"
    by code_simp
  with assms show ?thesis by simp
qed

lemma computeChecksum_differs:
  assumes "digits_only s" "digits_only s'" "verhoeff_value (rev s) 1 0 \<noteq> verhoeff_value (rev s') 1 0"
  shows "computeChecksum s \<noteq> computeChecksum s'"
  using assms verhoeff_inverse_injective verhoeff_value_range [of "rev s" 0 1] verhoeff_value_range [of "rev s'" 0 1]
  by (auto simp: computeChecksum_digits digits_only_def)

lemma digits_only_append [simp]: "digits_only (s @ t) = (digits_only s \<and> digits_only t)"
  by (simp add: digits_only_def)

lemma digits_only_Cons [simp]: "digits_only (a # t) = (digit_value a \<noteq> None \<and> digits_only t)"
  by (simp add: digits_only_def)

lemma digits_only_rev [simp]: "digits_only (rev s) = digits_only s"
  by (simp add: digits_only_def list.pred_set)

lemma single_digit_error:
  assumes "digits_only pre" "digits_only post" "digit_value a \<noteq> None" "digit_value b \<noteq> None" "a \<noteq> b"
  shows "verhoeff_value (rev (pre @ a # post)) 1 0 \<noteq> verhoeff_value (rev (pre @ b # post)) 1 0"
proof -
  let ?c = "verhoeff_value (rev post) 1 0" and ?i = "1 + length post"
  obtain x y where xy: "digit_value a = Some x" "digit_value b = Some y" using assms(3,4) by auto
  have c: "?c < 10" using assms(2) by (intro verhoeff_value_range) auto
  have "x \<noteq> y" using xy assms(5) digit_value_inject by blast
  then have "verhoeff_step ?i x ?c \<noteq> verhoeff_step ?i y ?c"
    using step_injective(1) [of ?c ?c x y ?i] c digit_value_range xy by blast
  then show ?thesis
    using verhoeff_value_injective [of "rev pre" "verhoeff_step ?i x ?c" "verhoeff_step ?i y ?c" "?i + 1"]
      c xy assms(1) table_range digit_value_range
    by (auto simp: verhoeff_value_append)
qed

lemma transposition_error:
  assumes "digits_only pre" "digits_only post" "digit_value a \<noteq> None" "digit_value b \<noteq> None" "a \<noteq> b"
  shows "verhoeff_value (rev (pre @ a # b # post)) 1 0 \<noteq> verhoeff_value (rev (pre @ b # a # post)) 1 0"
proof -
  let ?c = "verhoeff_value (rev post) 1 0" and ?i = "1 + length post"
  obtain x y where xy: "digit_value a = Some x" "digit_value b = Some y" using assms(3,4) by auto
  have c: "?c < 10" using assms(2) by (intro verhoeff_value_range) auto
  have r: "x < 10" "y < 10" "x \<noteq> y" using xy assms(5) digit_value_inject digit_value_range by blast+
  have "verhoeff_step (?i + 1) x (verhoeff_step ?i y ?c) \<noteq> verhoeff_step (?i + 1) y (verhoeff_step ?i x ?c)"
    using step_transposition [of ?c y x ?i] c r by auto
  then show ?thesis
    using verhoeff_value_injective [of "rev pre" "verhoeff_step (?i + 1) x (verhoeff_step ?i y ?c)"
        "verhoeff_step (?i + 1) y (verhoeff_step ?i x ?c)" "?i + 1 + 1"]
      c xy r assms(1) table_range
    by (auto simp: verhoeff_value_append)
qed

text \<open>
  The check digit itself exchanged with its neighbour: the multiplication is associative, so that the checksum of a text is a product with
  that of its beginning.
\<close>

lemma multiply_assoc:
  assumes "a < 10" "b < 10" "c < 10"
  shows "multiply ! (multiply ! a ! b) ! c = multiply ! a ! (multiply ! b ! c)"
proof -
  have "\<forall>a \<in> set [0..<10]. \<forall>b \<in> set [0..<10]. \<forall>c \<in> set [0..<10].
      multiply ! (multiply ! a ! b) ! c = multiply ! a ! (multiply ! b ! c)"
    by code_simp
  with assms show ?thesis by simp
qed

lemma verhoeff_value_product:
  assumes "digits_only s" "c < 10"
  shows "verhoeff_value s i c = multiply ! c ! verhoeff_value s i 0"
proof -
  have unit: "multiply ! 0 ! d = d \<and> multiply ! d ! 0 = d" if "d < 10" for d
  proof -
    have "\<forall>d \<in> set [0..<10]. multiply ! 0 ! d = d \<and> multiply ! d ! 0 = d" by code_simp
    with that show ?thesis by simp
  qed
  show ?thesis
    using assms
  proof (induction s arbitrary: i c)
    case Nil
    then show ?case using unit [of c] by simp
  next
    case (Cons ch s)
    then obtain d where d: "digit_value ch = Some d" "d < 10" using digit_value_range by auto
    have s: "digits_only s" using Cons.prems(1) by simp
    let ?e = "verhoeff_step i d 0" and ?g = "verhoeff_value s (i + 1) 0"
    have p: "permute ! (i mod 8) ! d < 10"
    proof -
      have "\<forall>j \<in> set [0..<8]. \<forall>d \<in> set [0..<10]. permute ! j ! d < 10" by code_simp
      with d(2) show ?thesis by simp
    qed
    then have e: "?e = permute ! (i mod 8) ! d" "?e < 10" using unit by simp_all
    have g: "?g < 10" using verhoeff_value_range [OF s] by simp
    have "verhoeff_value (ch # s) i c = verhoeff_value s (i + 1) (verhoeff_step i d c)" by (simp add: d)
    also have "\<dots> = multiply ! (multiply ! c ! ?e) ! ?g"
      unfolding e(1) using Cons.IH [OF s table_range [OF Cons.prems(2) d(2)], of "i + 1" i] by simp
    also have "\<dots> = multiply ! c ! (multiply ! ?e ! ?g)" by (rule multiply_assoc [OF Cons.prems(2) e(2) g])
    also have "multiply ! ?e ! ?g = verhoeff_value (ch # s) i 0" using Cons.IH [OF s e(2), of "i + 1"] by (simp add: d)
    finally show ?case .
  qed
qed

lemma check_digit_transposition:
  assumes "digits_only pre" "digit_value a = Some x" "digit_value b = Some y" "a \<noteq> b" "computeChecksum (pre @ [a]) = Inr (Some y)"
  shows "computeChecksum (pre @ [b]) \<noteq> Inr (Some x)"
proof
  assume "computeChecksum (pre @ [b]) = Inr (Some x)"
  let ?g = "verhoeff_value (rev pre) 2 0"
  have r: "x < 10" "y < 10" "x \<noteq> y" using assms(2-4) digit_value_inject digit_value_range by blast+
  have g: "?g < 10" using verhoeff_value_range [of "rev pre"] assms(1) by simp
  have val: "computeChecksum (pre @ [ch]) = Inr (Some (verhoeff_inverse ! (multiply ! (verhoeff_step 1 z 0) ! ?g)))" if "digit_value ch = Some z" for ch z
    using that computeChecksum_digits [of "pre @ [ch]"] assms(1) digit_value_range [OF that]
      verhoeff_value_product [of "rev pre" "verhoeff_step 1 z 0" 2] table_range [of 0 z 1]
    by (simp add: numeral_2_eq_2 digits_only_def [of "[]"])
  have anti: "\<forall>g \<in> set [0..<10]. \<forall>x \<in> set [0..<10]. \<forall>y \<in> set [0..<10]. x \<noteq> y \<longrightarrow>
      \<not> (verhoeff_inverse ! (multiply ! (verhoeff_step 1 x 0) ! g) = y \<and> verhoeff_inverse ! (multiply ! (verhoeff_step 1 y 0) ! g) = x)"
    by code_simp
  have "?g \<in> set [0..<10]" "x \<in> set [0..<10]" "y \<in> set [0..<10]" using r g by simp_all
  moreover have "verhoeff_inverse ! (multiply ! (verhoeff_step 1 x 0) ! ?g) = y" "verhoeff_inverse ! (multiply ! (verhoeff_step 1 y 0) ! ?g) = x"
    using val [OF assms(2)] val [OF assms(3)] assms(5) \<open>computeChecksum (pre @ [b]) = Inr (Some x)\<close> by simp_all
  ultimately show False using anti r(3) by blast
qed

text \<open>
  C34. The check digit of \<^verbatim>\<open>computeChecksum\<close> changes whenever one digit is replaced by another and
  whenever two different neighbouring digits are exchanged, at any place of a text of any length.
\<close>

theorem checksum_detects:
  assumes "digits_only pre" "digits_only post" "digit_value a \<noteq> None" "digit_value b \<noteq> None" "a \<noteq> b"
  shows "computeChecksum (pre @ a # post) \<noteq> computeChecksum (pre @ b # post) \<and>
    computeChecksum (pre @ a # b # post) \<noteq> computeChecksum (pre @ b # a # post)"
  using assms single_digit_error [OF assms] transposition_error [OF assms]
  by (intro conjI computeChecksum_differs) auto

theorem checksum_detects_witness:
  "computeChecksum (''12'' @ CHR ''3'' # ''45'') \<noteq> computeChecksum (''12'' @ CHR ''7'' # ''45'') \<and>
   computeChecksum (''12'' @ CHR ''3'' # CHR ''7'' # ''45'') \<noteq> computeChecksum (''12'' @ CHR ''7'' # CHR ''3'' # ''45'')"
  by (rule checksum_detects) (simp_all add: digits_only_def digit_value_def)

end
