(* ===== verification/BitmapSchema.thy ===== *)
theory BitmapSchema
  imports ByteIO
begin

text \<open>
  Named bit ranges packed into a number or into a byte array, \<^verbatim>\<open>schema/BitmapSchema.ts\<close>.  A bit
  schema is the list of its named ranges in declaration order, a bitmap value a finite map from
  names to flags and numbers; a name that is absent is \<^verbatim>\<open>undefined\<close>.
\<close>

unbundle bit_operations_syntax

section \<open>Data\<close>

datatype BitRangeType = BitFlagType | BitNumberType | BitEnumType

record BitRange =
  br_type :: BitRangeType
  br_offset :: nat
  br_length :: nat

definition BitFlag :: "nat \<Rightarrow> BitRange" where
  "BitFlag off = \<lparr>br_type = BitFlagType, br_offset = off, br_length = 1\<rparr>"

definition BitField :: "nat \<Rightarrow> nat \<Rightarrow> BitRange" where
  "BitField off len = \<lparr>br_type = BitNumberType, br_offset = off, br_length = len\<rparr>"

definition BitFieldEnum :: "nat \<Rightarrow> nat \<Rightarrow> BitRange" where
  "BitFieldEnum off len = \<lparr>br_type = BitEnumType, br_offset = off, br_length = len\<rparr>"

type_synonym bit_schema = "(string \<times> BitRange) list"

datatype bit_value = BFlag bool | BNum int

type_synonym bitmap = "string \<rightharpoonup> bit_value"

fun truthy :: "bit_value option \<Rightarrow> bool" where
  "truthy None = False"
| "truthy (Some (BFlag b)) = b"
| "truthy (Some (BNum n)) = (n \<noteq> 0)"

text \<open>The operand an absent or boolean field is for a shift.\<close>

fun operand :: "bit_value option \<Rightarrow> int" where
  "operand None = 0"
| "operand (Some (BFlag b)) = of_bool b"
| "operand (Some (BNum n)) = n"

section \<open>Bitmaps in a number\<close>

definition bit_mask :: "BitRange \<Rightarrow> int" where
  "bit_mask b = js_shl (js_shl 1 (int (br_length b)) - 1) (int (br_offset b))"

definition encode_range :: "bitmap \<Rightarrow> string \<times> BitRange \<Rightarrow> int \<Rightarrow> int" where
  "encode_range v nb result =
     (case nb of (name, b) \<Rightarrow>
        (case br_type b of
           BitFlagType \<Rightarrow> if truthy (v name) then js_or result (bit_mask b) else result
         | _ \<Rightarrow> js_or result (js_shl (operand (v name)) (int (br_offset b)))))"

definition encode_bitmap :: "bit_schema \<Rightarrow> bitmap \<Rightarrow> int" where
  "encode_bitmap schema v = fold (encode_range v) schema 0"

definition decode_range :: "int \<Rightarrow> BitRange \<Rightarrow> bit_value" where
  "decode_range bitmap b =
     (if br_type b = BitFlagType then BFlag (js_and bitmap (bit_mask b) \<noteq> 0)
      else BNum (js_shr (js_and bitmap (bit_mask b)) (int (br_offset b))))"

definition decode_bitmap :: "bit_schema \<Rightarrow> int \<Rightarrow> bitmap" where
  "decode_bitmap schema bitmap =
     fold (\<lambda>(name, b) result. result(name \<mapsto> decode_range bitmap b)) schema Map.empty"

text \<open>\<^verbatim>\<open>BitsFromPartial\<close> completes a partial bitmap with 0.\<close>

definition BitsFromPartial :: "bit_schema \<Rightarrow> bitmap \<Rightarrow> bitmap" where
  "BitsFromPartial schema bits =
     fold (\<lambda>(name, _) result.
       result(name \<mapsto> (case bits name of Some x \<Rightarrow> x | None \<Rightarrow> BNum 0))) schema Map.empty"

subsection \<open>Coherent schemas\<close>

text \<open>
  The source leaves the validation of bit schemas open (a TODO); the round trip needs it: names
  occur once, ranges do not overlap and stay below the sign bit.
\<close>

definition range_bits :: "BitRange \<Rightarrow> nat set" where
  "range_bits b = {br_offset b ..< br_offset b + br_length b}"

fun ranges_ok :: "nat \<Rightarrow> bit_schema \<Rightarrow> bool" where
  "ranges_ok limit [] = True"
| "ranges_ok limit ((name, b) # rest) =
     (br_offset b + br_length b \<le> limit \<and> (br_type b = BitFlagType \<longrightarrow> br_length b = 1) \<and>
      list_all (\<lambda>(name', b'). name' \<noteq> name \<and>
        (br_offset b + br_length b \<le> br_offset b' \<or> br_offset b' + br_length b' \<le> br_offset b)) rest \<and>
      ranges_ok limit rest)"

definition range_value_ok :: "BitRange \<Rightarrow> bit_value option \<Rightarrow> bool" where
  "range_value_ok b v =
     (case v of
        Some (BFlag _) \<Rightarrow> br_type b = BitFlagType
      | Some (BNum n) \<Rightarrow> br_type b \<noteq> BitFlagType \<and> 0 \<le> n \<and> n < 2 ^ br_length b
      | None \<Rightarrow> False)"

definition bitmap_ok :: "bit_schema \<Rightarrow> bitmap \<Rightarrow> bool" where
  "bitmap_ok schema v \<longleftrightarrow> dom v = fst ` set schema \<and> list_all (\<lambda>(name, b). range_value_ok b (v name)) schema"


subsection \<open>The bits of a range\<close>

text \<open>Whether a value sets bit \<open>k\<close> of the range \<open>b\<close>, counted from the start of the range.\<close>

definition value_bit :: "BitRange \<Rightarrow> bit_value option \<Rightarrow> nat \<Rightarrow> bool" where
  "value_bit b v k \<longleftrightarrow> (if br_type b = BitFlagType then k = 0 \<and> truthy v else bit (operand v) k)"

lemma value_bit_range: "range_value_ok b v \<Longrightarrow> br_type b = BitFlagType \<longrightarrow> br_length b = 1 \<Longrightarrow>
    value_bit b v k \<Longrightarrow> k < br_length b"
  using not_bit_small [of "operand v" "br_length b" k]
  by (cases "k < br_length b")
    (auto simp: value_bit_def range_value_ok_def not_less split: option.splits bit_value.splits if_splits)

text \<open>A value is determined by its bits.\<close>

lemma bit_value_eqI:
  assumes "range_value_ok b (Some x)" and "range_value_ok b (Some y)"
    and "\<And>k. value_bit b (Some x) k \<longleftrightarrow> value_bit b (Some y) k"
  shows "x = y"
proof (cases "br_type b = BitFlagType")
  case True
  with assms(1,2) assms(3) [of 0] show ?thesis
    by (cases x; cases y) (auto simp: value_bit_def range_value_ok_def)
next
  case False
  with assms show ?thesis
    by (cases x; cases y) (auto simp: value_bit_def range_value_ok_def intro: bit_eqI)
qed

lemma js_mask: "l \<le> 31 \<Longrightarrow> k < 32 \<Longrightarrow> bit (js_shl 1 (int l) - 1) k \<longleftrightarrow> k < l"
proof -
  assume l: "l \<le> 31" and k: "k < 32"
  show ?thesis
  proof (cases "l = 31")
    case True
    have "js_shl 1 31 - 1 = - (2 ^ 31) - (1 :: int)"
      by (simp add: js_shl_def to_int32_def push_bit_eq_mult signed_take_bit_int_eq_self_iff signed_take_bit_eq_if_negative)
    then have "js_shl 1 31 - 1 = NOT (2 ^ 31 :: int)"
      by (simp add: not_int_def)
    with True k show ?thesis
      by (auto simp: bit_not_iff bit_exp_iff simp del: power_numeral)
  next
    case False
    with l have "js_shl 1 (int l) = 2 ^ l"
      using power_strict_increasing [of l 31 "2 :: int"] by (subst js_shl_small) simp_all
    then show ?thesis
      by (simp add: mask_eq_exp_minus_1 [symmetric] bit_mask_iff)
  qed
qed

lemma bit_bit_mask:
  assumes "br_offset b + br_length b \<le> 31" and "k < 32"
  shows "bit (bit_mask b) k \<longleftrightarrow> br_offset b \<le> k \<and> k < br_offset b + br_length b"
  using assms js_mask [of "br_length b" "k - br_offset b"]
  by (auto simp: bit_mask_def bit_js_shl)

lemma bit_encode_range:
  assumes "br_offset b + br_length b \<le> 31" and "br_type b = BitFlagType \<longrightarrow> br_length b = 1" and "k < 32"
  shows "bit (encode_range v (name, b) acc) k \<longleftrightarrow>
    bit acc k \<or> (br_offset b \<le> k \<and> value_bit b (v name) (k - br_offset b))"
  using assms
  by (cases "br_type b")
    (auto simp: encode_range_def value_bit_def bit_js_or bit_js_shl bit_bit_mask)

lemma bit_encode_fold:
  "ranges_ok 31 schema \<Longrightarrow> k < 32 \<Longrightarrow>
     bit (fold (encode_range v) schema acc) k \<longleftrightarrow>
       bit acc k \<or> (\<exists>(name, b) \<in> set schema. br_offset b \<le> k \<and> value_bit b (v name) (k - br_offset b))"
proof (induction schema arbitrary: acc)
  case Nil
  then show ?case by simp
next
  case (Cons nb schema)
  obtain name b where nb: "nb = (name, b)" by (cases nb)
  from Cons.prems have "br_offset b + br_length b \<le> 31" "br_type b = BitFlagType \<longrightarrow> br_length b = 1"
    "ranges_ok 31 schema"
    by (simp_all add: nb)
  then show ?case
    using Cons.IH [of "encode_range v nb acc"] Cons.prems(2) bit_encode_range [of b k v name acc]
    by (auto simp: nb)
qed

text \<open>Only the range that holds bit \<open>k\<close> contributes it.\<close>

lemma ranges_ok_nth:
  assumes "ranges_ok l schema" and "(name, b) \<in> set schema"
  shows "br_offset b + br_length b \<le> l" and "br_type b = BitFlagType \<longrightarrow> br_length b = 1"
  using assms by (induction schema) auto

lemma ranges_ok_unique:
  assumes "ranges_ok l schema" and "(name, b) \<in> set schema" and "(name', b') \<in> set schema"
    and "name = name' \<or> k \<in> range_bits b \<and> k \<in> range_bits b'"
  shows "name' = name \<and> b' = b"
  using assms
proof (induction schema)
  case Nil
  then show ?case by simp
next
  case (Cons nb schema)
  obtain n0 b0 where nb: "nb = (n0, b0)" by (cases nb)
  have apart: "n1 \<noteq> n0 \<and> \<not> (k \<in> range_bits b0 \<and> k \<in> range_bits b1)" if "(n1, b1) \<in> set schema" for n1 b1
    using Cons.prems(1) that by (fastforce simp: nb list_all_iff range_bits_def)
  show ?case
    using Cons apart [of name b] apart [of name' b'] by (auto simp: nb)
qed

lemma unique_contribution:
  assumes "ranges_ok l schema" and "bitmap_ok schema v" and "(name, b) \<in> set schema" and "k < br_length b"
  shows "(\<exists>(n', b') \<in> set schema. br_offset b' \<le> br_offset b + k \<and>
      value_bit b' (v n') (br_offset b + k - br_offset b')) \<longleftrightarrow> value_bit b (v name) k"
    (is "?L \<longleftrightarrow> _")
proof
  let ?k = "br_offset b + k"
  assume ?L
  then obtain n' b' where nb': "(n', b') \<in> set schema" "br_offset b' \<le> ?k"
      "value_bit b' (v n') (?k - br_offset b')"
    by auto
  have "range_value_ok b' (v n')"
    using assms(2) nb'(1) by (auto simp: bitmap_ok_def list_all_iff)
  then have "?k - br_offset b' < br_length b'"
    using value_bit_range nb'(3) ranges_ok_nth(2) [OF assms(1) nb'(1)] by blast
  then have "?k \<in> range_bits b'" "?k \<in> range_bits b"
    using nb'(2) assms(4) by (auto simp: range_bits_def)
  with ranges_ok_unique [OF assms(1,3) nb'(1), of ?k] nb'(3) show "value_bit b (v name) k" by auto
qed (use assms(3) in force)

lemma bit_encode_bitmap:
  assumes "ranges_ok 31 schema" and "bitmap_ok schema v" and "(name, b) \<in> set schema" and "k < br_length b"
  shows "bit (encode_bitmap schema v) (br_offset b + k) \<longleftrightarrow> value_bit b (v name) k"
proof -
  let ?k = "br_offset b + k"
  have "?k < 32"
    using ranges_ok_nth(1) [OF assms(1,3)] assms(4) by simp
  then have "bit (encode_bitmap schema v) ?k \<longleftrightarrow>
      (\<exists>(n', b') \<in> set schema. br_offset b' \<le> ?k \<and> value_bit b' (v n') (?k - br_offset b'))"
    using bit_encode_fold [OF assms(1)] by (simp add: encode_bitmap_def)
  also have "\<dots> \<longleftrightarrow> value_bit b (v name) k"
    using unique_contribution [OF assms] .
  finally show ?thesis .
qed

lemma decode_range_ok:
  assumes "br_offset b + br_length b \<le> 31" and "br_type b = BitFlagType \<longrightarrow> br_length b = 1"
  shows "range_value_ok b (Some (decode_range bm b))"
    and "k < br_length b \<Longrightarrow> value_bit b (Some (decode_range bm b)) k \<longleftrightarrow> bit bm (br_offset b + k)"
proof -
  let ?n = "js_shr (js_and bm (bit_mask b)) (int (br_offset b))"
  have bits: "bit ?n k \<longleftrightarrow> k < br_length b \<and> bit bm (br_offset b + k)" if "k < 32" for k
    using that assms(1) by (auto simp: bit_js_shr bit_js_and bit_bit_mask min_def add.commute)
  have n: "?n = take_bit (br_length b) (drop_bit (br_offset b) bm)"
  proof (rule int32_eqI)
    show "to_int32 (take_bit (br_length b) (drop_bit (br_offset b) bm)) = take_bit (br_length b) (drop_bit (br_offset b) bm)"
      using assms(1) by (intro bit_eqI) (auto simp: bit_to_int32 bit_take_bit_iff min_def)
  qed (simp_all add: bits bit_take_bit_iff bit_drop_bit_eq)
  have flag: "js_and bm (bit_mask b) \<noteq> 0 \<longleftrightarrow> bit bm (br_offset b)" if "br_type b = BitFlagType"
  proof -
    have "bit_mask b = js_shl 1 (int (br_offset b))"
      using that assms(2) by (simp add: bit_mask_def js_shl_def to_int32_def)
    then show ?thesis
      using js_and_bit [of "int (br_offset b)" bm] that assms by simp
  qed
  show "range_value_ok b (Some (decode_range bm b))"
    using n by (auto simp: range_value_ok_def decode_range_def)
  show "k < br_length b \<Longrightarrow> value_bit b (Some (decode_range bm b)) k \<longleftrightarrow> bit bm (br_offset b + k)"
    using assms(2) flag by (auto simp: value_bit_def decode_range_def n bit_take_bit_iff bit_drop_bit_eq)
qed

text \<open>What folding a decoder over the schema collects.\<close>

lemma fold_decode:
  assumes "ranges_ok l schema"
  shows "fold (\<lambda>(name, b) result. result(name \<mapsto> f b)) schema m =
    (\<lambda>n. case map_of schema n of Some b \<Rightarrow> Some (f b) | None \<Rightarrow> m n)"
  using assms
proof (induction schema arbitrary: m)
  case Nil
  then show ?case by simp
next
  case (Cons nb schema)
  obtain name b where nb: "nb = (name, b)" by (cases nb)
  have "map_of schema name = None"
    using Cons.prems by (auto simp: nb list_all_iff map_of_eq_None_iff)
  with Cons show ?case
    by (auto simp: nb fun_eq_iff)
qed

lemma ranges_ok_map_of:
  assumes "ranges_ok l schema" and "(name, b) \<in> set schema"
  shows "map_of schema name = Some b"
  using assms by (induction schema) (auto simp: list_all_iff)

text \<open>A decoder of single ranges that recovers the bits of each range recovers the bitmap.\<close>

lemma decode_all_ranges:
  assumes "ranges_ok l schema" and "bitmap_ok schema v"
    and "\<And>name b. (name, b) \<in> set schema \<Longrightarrow> range_value_ok b (Some (f b))"
    and "\<And>name b k. (name, b) \<in> set schema \<Longrightarrow> k < br_length b \<Longrightarrow>
      value_bit b (Some (f b)) k \<longleftrightarrow> value_bit b (v name) k"
  shows "fold (\<lambda>(name, b) result. result(name \<mapsto> f b)) schema Map.empty = v"
proof (rule ext)
  fix name
  show "fold (\<lambda>(name, b) result. result(name \<mapsto> f b)) schema Map.empty name = v name"
  proof (cases "map_of schema name")
    case None
    then have "name \<notin> dom v"
      using assms(2) by (auto simp: bitmap_ok_def map_of_eq_None_iff)
    with None show ?thesis by (simp add: fold_decode [OF assms(1)] domIff)
  next
    case (Some b)
    then have nb: "(name, b) \<in> set schema" by (rule map_of_SomeD)
    have "range_value_ok b (v name)"
      using assms(2) nb by (auto simp: bitmap_ok_def list_all_iff)
    then obtain x where x: "v name = Some x" "range_value_ok b (Some x)"
      by (cases "v name") (simp_all add: range_value_ok_def)
    have "f b = x"
    proof (rule bit_value_eqI [OF assms(3) [OF nb] x(2)])
      fix k
      show "value_bit b (Some (f b)) k \<longleftrightarrow> value_bit b (Some x) k"
        using assms(4) [OF nb, of k] x value_bit_range [OF assms(3) [OF nb] ranges_ok_nth(2) [OF assms(1) nb], of k]
          value_bit_range [OF x(2) ranges_ok_nth(2) [OF assms(1) nb], of k]
        by (cases "k < br_length b") auto
    qed
    with Some x(1) show ?thesis by (simp add: fold_decode [OF assms(1)])
  qed
qed

lemma decode_encode_bitmap:
  assumes "ranges_ok 31 schema" and "bitmap_ok schema v"
  shows "decode_bitmap schema (encode_bitmap schema v) = v"
  unfolding decode_bitmap_def
  using assms decode_range_ok ranges_ok_nth [OF assms(1)] bit_encode_bitmap
  by (intro decode_all_ranges) simp_all

section \<open>Bitmaps in a byte array\<close>

text \<open>The entry of \<^verbatim>\<open>maskOffset\<close> for a range: mask, byte offset and bit offset.\<close>

definition range_bitOffset :: "BitRange \<Rightarrow> nat" where
  "range_bitOffset b = br_offset b mod 8"

definition range_byteOffset :: "BitRange \<Rightarrow> nat" where
  "range_byteOffset b = (br_offset b - range_bitOffset b) div 8"

definition range_mask :: "BitRange \<Rightarrow> int" where
  "range_mask b =
     (if br_type b = BitFlagType then js_shl 1 (int (range_bitOffset b))
      else js_shl 1 (int (br_length b)) - 1)"

definition maxBitLength :: "bit_schema \<Rightarrow> nat" where
  "maxBitLength schema = fold (\<lambda>(_, b) m. max m (br_offset b + br_length b)) schema 0"

definition byteArrayLength :: "bit_schema \<Rightarrow> nat" where
  "byteArrayLength schema = (maxBitLength schema + 7) div 8"

text \<open>\<^verbatim>\<open>array[i] |= x\<close> on a typed array: a write past the end is ignored, an element is stored modulo 256.\<close>

definition or_at :: "byte list \<Rightarrow> nat \<Rightarrow> int \<Rightarrow> byte list" where
  "or_at bs i x = (if i < length bs then bs[i := word_of_int (js_or (uint (bs ! i)) x)] else bs)"

text \<open>
  The loop that spreads a number over the bytes.  The number is the result of \<^verbatim>\<open>& mask\<close>, which is
  not negative; a bit offset is a remainder modulo 8.
\<close>

function encode_number :: "nat \<Rightarrow> nat \<Rightarrow> nat \<Rightarrow> byte list \<Rightarrow> byte list" where
  "encode_number numValue bitOffset byteOffset result =
     (if numValue = 0 \<or> 8 \<le> bitOffset then result
      else encode_number (nat (js_shr (int numValue) (8 - int bitOffset))) 0 (byteOffset + 1)
             (or_at result byteOffset (js_and (js_shl (int numValue) (int bitOffset)) 0xff)))"
  by pat_completeness auto

lemma js_shr_decreases:
  assumes "0 < n" and "0 < s" and "s \<le> 8"
  shows "nat (js_shr (int n) s) < n"
proof (cases "to_int32 (int n) < 0")
  case True
  then have "js_shr (int n) s < 0"
    by (simp add: js_shr_def)
  with assms(1) show ?thesis by simp
next
  case False
  have "to_int32 (int n) \<le> int n"
  proof (cases "n < 2 ^ 31")
    case True
    then show ?thesis by (simp add: to_int32_id)
  next
    case 2: False
    have "to_int32 (int n) < 2 ^ 31"
      using signed_take_bit_int_less_exp [of 31 "int n"] by (simp add: to_int32_def)
    with 2 show ?thesis by simp
  qed
  moreover have "drop_bit (nat s) (to_int32 (int n)) < int n"
  proof -
    have "drop_bit (nat s) (to_int32 (int n)) \<le> to_int32 (int n) div 2"
      using assms(2,3) False zdiv_mono2 [of "to_int32 (int n)" 2 "2 ^ nat s"] self_le_power [of "2::int" "nat s"]
      by (simp add: drop_bit_eq_div)
    with \<open>to_int32 (int n) \<le> int n\<close> assms(1) False show ?thesis by linarith
  qed
  ultimately show ?thesis
    using assms by (simp add: js_shr_def nat_less_iff)
qed

termination encode_number
  by (relation "measure (\<lambda>(n, _). n)") (use js_shr_decreases in \<open>auto\<close>)

definition encode_byte_range :: "bitmap \<Rightarrow> string \<times> BitRange \<Rightarrow> byte list \<Rightarrow> byte list" where
  "encode_byte_range v nb result =
     (case nb of (name, b) \<Rightarrow>
        if br_type b = BitFlagType
        then (if truthy (v name) then or_at result (range_byteOffset b) (range_mask b) else result)
        else encode_number (nat (js_and (operand (v name)) (range_mask b)))
               (range_bitOffset b) (range_byteOffset b) result)"

definition encode_byte_bitmap :: "bit_schema \<Rightarrow> bitmap \<Rightarrow> byte list" where
  "encode_byte_bitmap schema v = fold (encode_byte_range v) schema (replicate (byteArrayLength schema) 0)"

text \<open>\<^verbatim>\<open>bitmap[i]\<close> past the end is \<^verbatim>\<open>undefined\<close>, which the bit operators take for 0.\<close>

definition byte_at :: "byte list \<Rightarrow> nat \<Rightarrow> int" where
  "byte_at bs i = (if i < length bs then uint (bs ! i) else 0)"

function decode_number :: "nat \<Rightarrow> nat \<Rightarrow> nat \<Rightarrow> nat \<Rightarrow> int \<Rightarrow> byte list \<Rightarrow> int" where
  "decode_number mask' bitOffset byteOffset valueBitOffset val bs =
     (if mask' = 0 \<or> 8 \<le> bitOffset then val
      else decode_number (nat (js_shr (int mask') (8 - int bitOffset))) 0 (byteOffset + 1)
             (valueBitOffset + (8 - bitOffset))
             (js_or val (js_shl (js_and (js_shr (byte_at bs byteOffset) (int bitOffset)) (int mask'))
                                (int valueBitOffset))) bs)"
  by pat_completeness auto

termination decode_number
  by (relation "measure (\<lambda>(n, _). n)") (use js_shr_decreases in \<open>auto\<close>)

definition decode_byte_range :: "byte list \<Rightarrow> BitRange \<Rightarrow> bit_value" where
  "decode_byte_range bs b =
     (if br_type b = BitFlagType then BFlag (js_and (byte_at bs (range_byteOffset b)) (range_mask b) \<noteq> 0)
      else BNum (decode_number (nat (to_int32 (range_mask b))) (range_bitOffset b) (range_byteOffset b) 0 0 bs))"

definition decode_byte_bitmap :: "bit_schema \<Rightarrow> byte list \<Rightarrow> bitmap result" where
  "decode_byte_bitmap schema bs =
     (if length bs \<noteq> byteArrayLength schema then Inl UnexpectedDataError
      else Inr (fold (\<lambda>(name, b) result. result(name \<mapsto> decode_byte_range bs b)) schema Map.empty))"

declare encode_number.simps [simp del] decode_number.simps [simp del]

subsection \<open>The bits of a byte array\<close>

definition get_bit :: "byte list \<Rightarrow> nat \<Rightarrow> bool" where
  "get_bit bs k \<longleftrightarrow> k div 8 < length bs \<and> bit (bs ! (k div 8)) (k mod 8)"

lemma get_bit_or_at:
  "get_bit (or_at bs i x) k \<longleftrightarrow> get_bit bs k \<or> (i < length bs \<and> k div 8 = i \<and> bit x (k mod 8))"
  by (auto simp: get_bit_def or_at_def nth_list_update bit_word_of_int_iff bit_js_or bit_uint_iff)

lemma length_or_at [simp]: "length (or_at bs i x) = length bs"
  by (simp add: or_at_def)

lemma length_encode_number [simp]: "length (encode_number n bo by res) = length res"
  by (induction n bo "by" res rule: encode_number.induct) (subst encode_number.simps, simp)

lemma nat_js_shr:
  "n < 2 ^ 31 \<Longrightarrow> bo < 8 \<Longrightarrow> nat (js_shr (int n) (8 - int bo)) = n div 2 ^ (8 - bo)"
proof -
  assume n: "n < 2 ^ 31" and bo: "bo < 8"
  have "js_shr (int n) (8 - int bo) = int n div 2 ^ nat (8 - int bo)"
    using n bo by (intro js_shr_small) simp_all
  also have "\<dots> = int (n div 2 ^ (8 - bo))"
    using bo by (simp add: zdiv_int nat_diff_distrib)
  finally show ?thesis by simp
qed

lemma bit_div_exp: "bit (n div 2 ^ s :: nat) k \<longleftrightarrow> bit n (s + k)"
  by (simp add: bit_drop_bit_eq flip: drop_bit_eq_div)

lemma get_bit_encode_number:
  "n < 2 ^ 31 \<Longrightarrow> bo < 8 \<Longrightarrow>
     get_bit (encode_number n bo by res) k \<longleftrightarrow>
       get_bit res k \<or> (8 * by + bo \<le> k \<and> k < 8 * length res \<and> bit n (k - (8 * by + bo)))"
proof (induction n bo "by" res rule: encode_number.induct)
  case (1 n bo "by" res)
  show ?case
  proof (cases "n = 0")
    case True
    then show ?thesis by (simp add: encode_number.simps)
  next
    case False
    let ?x = "js_and (js_shl (int n) (int bo)) 0xff" and ?n = "n div 2 ^ (8 - bo)"
    have x: "bit ?x j \<longleftrightarrow> bo \<le> j \<and> bit n (j - bo)" if "j < 8" for j
    proof -
      have "bit (0xff :: int) j"
        using that bit_mask_iff [of 8 j, where ?'a = int] by (simp add: mask_eq_exp_minus_1)
      with that 1(3) show ?thesis
        by (auto simp: bit_js_and bit_js_shl bit_of_nat_iff_bit)
    qed
    have "?n < 2 ^ 31"
      using 1(2) by (rule le_less_trans [OF div_le_dividend])
    have eq: "encode_number n bo by res = encode_number ?n 0 (by + 1) (or_at res by ?x)"
      using False 1(3) nat_js_shr [OF 1(2,3)] by (simp add: encode_number.simps [of n])
    have "get_bit (encode_number n bo by res) k \<longleftrightarrow>
      get_bit res k \<or> (by < length res \<and> k div 8 = by \<and> bo \<le> k mod 8 \<and> bit n (k mod 8 - bo)) \<or>
      (8 * (by + 1) \<le> k \<and> k < 8 * length res \<and> bit n (8 - bo + (k - 8 * (by + 1))))"
      using 1(1) False 1(3) \<open>?n < 2 ^ 31\<close> nat_js_shr [OF 1(2,3)]
      by (simp add: eq get_bit_or_at x bit_div_exp disj_assoc)
    also have "\<dots> \<longleftrightarrow> get_bit res k \<or> (8 * by + bo \<le> k \<and> k < 8 * length res \<and> bit n (k - (8 * by + bo)))"
    proof (cases "k div 8 = by")
      case True
      obtain j where k: "k = 8 * by + j" "j < 8"
        using that [of "k mod 8"] True by auto
      then show ?thesis by auto
    next
      case False
      have "8 * (by + 1) \<le> k \<longleftrightarrow> 8 * by + bo \<le> k"
        using False 1(3) by auto
      moreover have "8 - bo + (k - 8 * (by + 1)) = k - (8 * by + bo)" if "8 * (by + 1) \<le> k"
        using that 1(3) by simp
      ultimately show ?thesis using False by (auto simp: add.commute)
    qed
    finally show ?thesis .
  qed
qed

lemma bit_byte_at: "bit (byte_at bs i) k \<longleftrightarrow> i < length bs \<and> k < 8 \<and> get_bit bs (8 * i + k)"
proof (cases "k < 8")
  case True
  then show ?thesis by (auto simp: byte_at_def get_bit_def bit_uint_iff)
next
  case False
  then show ?thesis by (auto simp: byte_at_def bit_uint_iff)
qed

lemma get_bit_length: "get_bit bs k \<Longrightarrow> k div 8 < length bs"
  by (simp add: get_bit_def)

lemma decode_number_int32:
  "to_int32 val = val \<Longrightarrow> to_int32 (decode_number m bo by vo val bs) = decode_number m bo by vo val bs"
  by (induction m bo "by" vo val bs rule: decode_number.induct) (subst (1 2) decode_number.simps, simp)

lemma bit_decode_number:
  "m = 0 \<or> (m < 2 ^ l \<and> vo + l \<le> 31) \<Longrightarrow> bo < 8 \<Longrightarrow> k < 32 \<Longrightarrow>
     bit (decode_number m bo by vo val bs) k \<longleftrightarrow>
       bit val k \<or> (vo \<le> k \<and> bit m (k - vo) \<and> get_bit bs (8 * by + bo + (k - vo)))"
proof (induction m bo "by" vo val bs arbitrary: l rule: decode_number.induct)
  case (1 m bo "by" vo val bs)
  show ?case
  proof (cases "m = 0")
    case True
    then show ?thesis by (simp add: decode_number.simps)
  next
    case False
    let ?x = "js_and (js_shr (byte_at bs by) (int bo)) (int m)" and ?m = "m div 2 ^ (8 - bo)"
    have l: "m < 2 ^ l" "vo + l \<le> 31" using 1(2) False by simp_all
    have "(2 :: nat) ^ l \<le> 2 ^ 31" using l(2) by (intro power_increasing) simp_all
    then have m31: "m < 2 ^ 31" using l(1) by linarith
    have small: "\<not> bit m j" if "l \<le> j" for j
      using not_bit_small [of "int m" l j] l(1) that by (simp add: bit_of_nat_iff_bit)
    have m': "?m = 0 \<or> (?m < 2 ^ (l - (8 - bo)) \<and> vo + (8 - bo) + (l - (8 - bo)) \<le> 31)"
    proof (cases "8 - bo \<le> l")
      case True
      then have "(2 :: nat) ^ l = 2 ^ (l - (8 - bo)) * 2 ^ (8 - bo)"
        by (simp flip: power_add)
      then show ?thesis using True l by (auto simp: less_mult_imp_div_less)
    next
      case False
      then have "m < 2 ^ (8 - bo)"
        by (intro less_le_trans [OF l(1)] power_increasing) simp_all
      then show ?thesis by simp
    qed
    have x: "bit ?x j \<longleftrightarrow> bo + j < 8 \<and> bit m j \<and> get_bit bs (8 * by + bo + j)" if "j < 32" for j
      using that 1(3)
      by (auto simp: bit_js_and bit_js_shr bit_byte_at bit_of_nat_iff_bit min_def add_ac split: if_splits
          dest: get_bit_length)
    have "bit (decode_number m bo by vo val bs) k \<longleftrightarrow>
        bit val k \<or> (vo \<le> k \<and> bo + (k - vo) < 8 \<and> bit m (k - vo) \<and> get_bit bs (8 * by + bo + (k - vo))) \<or>
        (vo + (8 - bo) \<le> k \<and> bit m (8 - bo + (k - (vo + (8 - bo)))) \<and>
         get_bit bs (8 * (by + 1) + (k - (vo + (8 - bo)))))"
      using 1(1) [OF _ m' [unfolded nat_js_shr [OF m31 1(3), symmetric]]] False 1(3,4) l(2)
      by (subst decode_number.simps)
        (simp add: nat_js_shr [OF m31 1(3)] bit_js_or bit_js_shl x bit_div_exp disj_assoc)
    also have "\<dots> \<longleftrightarrow> bit val k \<or> (vo \<le> k \<and> bit m (k - vo) \<and> get_bit bs (8 * by + bo + (k - vo)))"
    proof (cases "bo + (k - vo) < 8")
      case True
      then show ?thesis using 1(3) by auto
    next
      case 2: False
      then have "vo + (8 - bo) \<le> k" "vo \<le> k"
        using 1(3) by simp_all
      moreover from this have "8 - bo + (k - (vo + (8 - bo))) = k - vo"
        and "8 * (by + 1) + (k - (vo + (8 - bo))) = 8 * by + bo + (k - vo)"
        using 1(3) by simp_all
      ultimately show ?thesis using 2 by (simp only: simp_thms)
    qed
    finally show ?thesis .
  qed
qed

subsection \<open>The round trip\<close>

lemma range_position: "8 * range_byteOffset b + range_bitOffset b = br_offset b"
  by (simp add: range_byteOffset_def range_bitOffset_def)

lemma range_byteOffset_eq: "range_byteOffset b = br_offset b div 8"
  using range_position [of b] range_bitOffset_def [of b] div_mult_mod_eq [of "br_offset b" 8] by linarith

lemma same_position: "(k :: nat) div 8 = o' div 8 \<Longrightarrow> k mod 8 = o' mod 8 \<Longrightarrow> k = o'"
  by (metis div_mult_mod_eq)

lemma to_int32_take_bit: "l \<le> 31 \<Longrightarrow> to_int32 (take_bit l x) = take_bit l x"
  by (intro bit_eqI) (auto simp: bit_to_int32 bit_take_bit_iff min_def split: if_splits)

lemma range_bitOffset_less [simp]: "range_bitOffset b < 8"
  by (simp add: range_bitOffset_def)

lemma maxBitLength_fold:
  "m \<le> fold (\<lambda>(_, b) m. max m (br_offset b + br_length b)) schema m \<and>
   (\<forall>(name, b) \<in> set schema. br_offset b + br_length b \<le>
      fold (\<lambda>(_, b) m. max m (br_offset b + br_length b)) schema m)"
proof (induction schema arbitrary: m)
  case Nil
  then show ?case by simp
next
  case (Cons nb schema)
  obtain name b where "nb = (name, b)" by (cases nb)
  with Cons [of "max m (br_offset b + br_length b)"] show ?case by auto
qed

lemma range_in_array:
  "(name, b) \<in> set schema \<Longrightarrow> k < br_length b \<Longrightarrow> br_offset b + k < 8 * byteArrayLength schema"
  using maxBitLength_fold [of 0 schema] by (auto simp: byteArrayLength_def maxBitLength_def)

lemma operand_masked:
  assumes "br_type b \<noteq> BitFlagType" and "br_length b \<le> 31" and "range_value_ok b v"
  shows "js_and (operand v) (range_mask b) = operand v" and "0 \<le> operand v" and "operand v < 2 ^ 31"
proof -
  have v: "0 \<le> operand v" "operand v < 2 ^ br_length b"
    using assms(1,3) by (auto simp: range_value_ok_def split: option.splits bit_value.splits)
  then show "0 \<le> operand v" by simp
  show "operand v < 2 ^ 31"
    by (rule less_le_trans [OF v(2)]) (intro power_increasing, use assms(2) in simp_all)
  with v have i32: "to_int32 (operand v) = operand v" by (simp add: to_int32_id)
  show "js_and (operand v) (range_mask b) = operand v"
  proof (rule int32_eqI)
    fix k :: nat
    assume "k < 32"
    then show "bit (js_and (operand v) (range_mask b)) k \<longleftrightarrow> bit (operand v) k"
      using assms(1) js_mask [OF assms(2), of k] not_bit_small [OF v, of k]
      by (cases "k < br_length b") (simp_all add: range_mask_def bit_js_and)
  qed (simp_all add: i32)
qed

lemma get_bit_encode_byte_range:
  assumes "br_length b \<le> 31" and "br_type b = BitFlagType \<longrightarrow> br_length b = 1" and "range_value_ok b (v name)"
  shows "get_bit (encode_byte_range v (name, b) res) k \<longleftrightarrow>
    get_bit res k \<or> (br_offset b \<le> k \<and> k < 8 * length res \<and> value_bit b (v name) (k - br_offset b))"
proof (cases "br_type b = BitFlagType")
  case True
  have "range_byteOffset b < length res \<and> k div 8 = range_byteOffset b \<and> bit (range_mask b) (k mod 8) \<longleftrightarrow>
      k < 8 * length res \<and> k = br_offset b"
    using True same_position [of k "br_offset b"]
    by (auto simp: range_mask_def bit_js_shl_1 range_byteOffset_eq range_bitOffset_def)
  with True show ?thesis
    by (auto simp: encode_byte_range_def value_bit_def get_bit_or_at)
next
  case False
  note m = operand_masked [OF False assms(1,3)]
  have "nat (operand (v name)) < 2 ^ 31" using m(3) by (simp add: nat_less_iff)
  moreover have "bit (nat (operand (v name))) j \<longleftrightarrow> bit (operand (v name)) j" for j
    using m(2) by (simp add: bit_nat_iff)
  ultimately show ?thesis
    using False m(1) get_bit_encode_number [of "nat (operand (v name))" "range_bitOffset b" "range_byteOffset b" res k]
    by (simp add: encode_byte_range_def value_bit_def range_position)
qed

lemma length_encode_byte_range [simp]: "length (encode_byte_range v nb res) = length res"
  by (simp add: encode_byte_range_def split: prod.split)

lemma get_bit_encode_fold:
  "ranges_ok l schema \<Longrightarrow> list_all (\<lambda>(name, b). br_length b \<le> 31 \<and> range_value_ok b (v name)) schema \<Longrightarrow>
     get_bit (fold (encode_byte_range v) schema res) k \<longleftrightarrow>
       get_bit res k \<or> (\<exists>(name, b) \<in> set schema.
         br_offset b \<le> k \<and> k < 8 * length res \<and> value_bit b (v name) (k - br_offset b))"
proof (induction schema arbitrary: res)
  case Nil
  then show ?case by simp
next
  case (Cons nb schema)
  obtain name b where nb: "nb = (name, b)" by (cases nb)
  from Cons.prems have "br_length b \<le> 31" "br_type b = BitFlagType \<longrightarrow> br_length b = 1" "range_value_ok b (v name)"
    by (simp_all add: nb)
  from get_bit_encode_byte_range [of b v name, OF this] Cons.prems Cons.IH [of "encode_byte_range v nb res"]
  show ?case by (auto simp: nb)
qed

lemma length_encode_byte_bitmap [simp]: "length (encode_byte_bitmap schema v) = byteArrayLength schema"
proof -
  have "length (fold (encode_byte_range v) schema res) = length res" for res
    by (induction schema arbitrary: res) simp_all
  then show ?thesis by (simp add: encode_byte_bitmap_def)
qed

lemma get_bit_encode_byte_bitmap:
  assumes "ranges_ok l schema" and "list_all (\<lambda>(_, b). br_length b \<le> 31) schema" and "bitmap_ok schema v"
    and "(name, b) \<in> set schema" and "k < br_length b"
  shows "get_bit (encode_byte_bitmap schema v) (br_offset b + k) \<longleftrightarrow> value_bit b (v name) k"
proof -
  let ?k = "br_offset b + k"
  have ok: "list_all (\<lambda>(name, b). br_length b \<le> 31 \<and> range_value_ok b (v name)) schema"
    using assms(2,3) by (auto simp: bitmap_ok_def list_all_iff)
  have "\<not> get_bit (replicate n 0) ?k" for n by (simp add: get_bit_def)
  then have "get_bit (encode_byte_bitmap schema v) ?k \<longleftrightarrow>
      (\<exists>(n', b') \<in> set schema. br_offset b' \<le> ?k \<and> value_bit b' (v n') (?k - br_offset b'))"
    using get_bit_encode_fold [OF assms(1) ok] range_in_array [OF assms(4,5)]
    by (auto simp: encode_byte_bitmap_def)
  also have "\<dots> \<longleftrightarrow> value_bit b (v name) k"
    using unique_contribution [OF assms(1,3,4,5)] .
  finally show ?thesis .
qed

lemma decode_byte_range_ok:
  assumes "br_length b \<le> 31" and "br_type b = BitFlagType \<longrightarrow> br_length b = 1"
  shows "range_value_ok b (Some (decode_byte_range bs b))"
    and "k < br_length b \<Longrightarrow> value_bit b (Some (decode_byte_range bs b)) k \<longleftrightarrow> get_bit bs (br_offset b + k)"
proof -
  have "range_value_ok b (Some (decode_byte_range bs b)) \<and>
    (k < br_length b \<longrightarrow> (value_bit b (Some (decode_byte_range bs b)) k \<longleftrightarrow> get_bit bs (br_offset b + k)))"
  proof (cases "br_type b = BitFlagType")
    case True
    have "js_and (byte_at bs (range_byteOffset b)) (range_mask b) \<noteq> 0 \<longleftrightarrow> get_bit bs (br_offset b)"
      using True js_and_bit [of "int (range_bitOffset b)" "byte_at bs (range_byteOffset b)"]
        get_bit_length [of bs "br_offset b"] range_bitOffset_less [of b]
      by (simp add: range_mask_def bit_byte_at range_position)
        (auto simp: range_byteOffset_eq)
    with True assms(2) show ?thesis
      by (auto simp: range_value_ok_def decode_byte_range_def value_bit_def)
  next
    case False
    let ?m = "nat (to_int32 (range_mask b))"
    let ?n = "decode_number ?m (range_bitOffset b) (range_byteOffset b) 0 0 bs"
    have mask: "to_int32 (range_mask b) = mask (br_length b)"
    proof (rule int32_eqI)
      show "to_int32 (mask (br_length b)) = mask (br_length b)"
        using assms(1) by (intro bit_eqI) (auto simp: bit_to_int32 bit_mask_iff min_def)
    qed (use False js_mask [OF assms(1)] in \<open>simp_all add: range_mask_def bit_to_int32 bit_mask_iff min_def\<close>)
    then have m: "?m = mask (br_length b)"
      by (simp add: mask_eq_exp_minus_1 nat_diff_distrib nat_power_eq)
    have bits: "bit ?n j \<longleftrightarrow> j < br_length b \<and> get_bit bs (br_offset b + j)" if "j < 32" for j
      using bit_decode_number [of ?m "br_length b" 0 "range_bitOffset b" j "range_byteOffset b" 0 bs] that assms(1)
      unfolding m range_position by (auto simp: bit_mask_iff mask_nat_less_exp)
    have "take_bit (br_length b) ?n = ?n"
    proof (rule int32_eqI)
      show "to_int32 ?n = ?n" by (simp add: decode_number_int32 to_int32_id)
    qed (auto simp: assms(1) to_int32_take_bit bits bit_take_bit_iff)
    then have "0 \<le> ?n" "?n < 2 ^ br_length b"
      using take_bit_nonnegative [of "br_length b" ?n] take_bit_int_less_exp [of "br_length b" ?n] by simp_all
    with False assms(1) bits show ?thesis
      by (simp add: range_value_ok_def decode_byte_range_def value_bit_def)
  qed
  then show "range_value_ok b (Some (decode_byte_range bs b))"
    and "k < br_length b \<Longrightarrow> value_bit b (Some (decode_byte_range bs b)) k \<longleftrightarrow> get_bit bs (br_offset b + k)"
    by simp_all
qed

lemma decode_encode_byte_bitmap:
  assumes "ranges_ok l schema" and "list_all (\<lambda>(_, b). br_length b \<le> 31) schema" and "bitmap_ok schema v"
  shows "decode_byte_bitmap schema (encode_byte_bitmap schema v) = Inr v"
proof -
  have len: "(name, b) \<in> set schema \<Longrightarrow> br_length b \<le> 31" for name b
    using assms(2) by (auto simp: list_all_iff)
  have "fold (\<lambda>(name, b) result. result(name \<mapsto> decode_byte_range (encode_byte_bitmap schema v) b)) schema Map.empty = v"
    using assms(1,3) decode_byte_range_ok [OF len ranges_ok_nth(2) [OF assms(1)]]
      get_bit_encode_byte_bitmap [OF assms]
    by (intro decode_all_ranges) simp_all
  then show ?thesis by (simp add: decode_byte_bitmap_def)
qed

text \<open>
  \<^verbatim>\<open>BitmapSchemaInternal\<close> and \<^verbatim>\<open>ByteArrayBitmapSchemaInternal\<close>: decoding what a bitmap was encoded to,
  a number or a byte array, gives back the bitmap, for every schema whose ranges do not overlap
  and, in a number, stay below the sign bit.
\<close>

theorem bitmap_roundtrip:
  assumes "ranges_ok limit schema" and "bitmap_ok schema v"
    and "list_all (\<lambda>(_, b). br_length b \<le> 31) schema"
  shows "decode_byte_bitmap schema (encode_byte_bitmap schema v) = Inr v \<and>
    (limit = 31 \<longrightarrow> decode_bitmap schema (encode_bitmap schema v) = v)"
  using assms decode_encode_bitmap decode_encode_byte_bitmap by blast

theorem bitmap_roundtrip_witness:
  "let schema = [(''onOff'', BitFlag 3), (''mode'', BitField 0 3), (''kind'', BitFieldEnum 4 7)];
       v = [''onOff'' \<mapsto> BFlag True, ''mode'' \<mapsto> BNum 5, ''kind'' \<mapsto> BNum 100]
   in decode_byte_bitmap schema (encode_byte_bitmap schema v) = Inr v \<and>
      decode_bitmap schema (encode_bitmap schema v) = v"
proof -
  let ?schema = "[(''onOff'', BitFlag 3), (''mode'', BitField 0 3), (''kind'', BitFieldEnum 4 7)]"
    and ?v = "[''onOff'' \<mapsto> BFlag True, ''mode'' \<mapsto> BNum 5, ''kind'' \<mapsto> BNum 100]"
  have "ranges_ok 31 ?schema" and "bitmap_ok ?schema ?v" and "list_all (\<lambda>(_, b). br_length b \<le> 31) ?schema"
    by (auto simp: BitFlag_def BitField_def BitFieldEnum_def bitmap_ok_def range_value_ok_def)
  from bitmap_roundtrip [OF this] show ?thesis by simp
qed

end
