(* ===== verification/PairingCodes.thy ===== *)
theory PairingCodes
  imports Base38 Verhoeff BitmapSchema
begin

text \<open>
  Onboarding payloads, \<^verbatim>\<open>schema/PairingCodeSchema.ts\<close>: the text of the QR code and the manual pairing
  code a user types in.  Decimal texts are those of \<^verbatim>\<open>Number.prototype.toString\<close>, \<^verbatim>\<open>padStart\<close> and
  \<^verbatim>\<open>parseInt\<close>.
\<close>

unbundle bit_operations_syntax

section \<open>Decimal texts\<close>

definition digit_char :: "nat \<Rightarrow> char" where
  "digit_char d = char_of (48 + d)"

fun dec_digits :: "nat \<Rightarrow> string" where
  "dec_digits n = (if n < 10 then [digit_char n] else dec_digits (n div 10) @ [digit_char (n mod 10)])"

declare dec_digits.simps [simp del]

definition js_toString :: "int \<Rightarrow> string" where
  "js_toString n = (if n < 0 then CHR ''-'' # dec_digits (nat (- n)) else dec_digits (nat n))"

definition padStart0 :: "nat \<Rightarrow> string \<Rightarrow> string" where
  "padStart0 n s = replicate (n - length s) (CHR ''0'') @ s"

fun parse_dec_digits :: "string \<Rightarrow> nat option \<Rightarrow> nat option" where
  "parse_dec_digits [] acc = acc"
| "parse_dec_digits (c # cs) acc =
     (case digit_value c of None \<Rightarrow> acc
      | Some d \<Rightarrow> parse_dec_digits cs (Some ((case acc of None \<Rightarrow> 0 | Some a \<Rightarrow> a) * 10 + d)))"

text \<open>\<^verbatim>\<open>parseInt(s)\<close> without a radix: decimal, or hexadecimal after \<^verbatim>\<open>0x\<close>; \<open>None\<close> is NaN.\<close>

definition parseInt :: "string \<Rightarrow> int option" where
  "parseInt s =
     (let t = dropWhile js_space s;
          neg = (t \<noteq> [] \<and> hd t = CHR ''-'');
          u = (if t \<noteq> [] \<and> (hd t = CHR ''-'' \<or> hd t = CHR ''+'') then tl t else t);
          n = (if take 2 u = ''0x'' \<or> take 2 u = ''0X'' then parse_hex_digits (drop 2 u) None
               else parse_dec_digits u None)
      in map_option (\<lambda>n. if neg then - int n else int n) n)"

text \<open>NaN as the operand of a bitwise operator counts as 0.\<close>

definition int_operand :: "int option \<Rightarrow> int" where
  "int_operand v = (case v of None \<Rightarrow> 0 | Some n \<Rightarrow> n)"

section \<open>The QR code\<close>

datatype CommissioningFlowType = Standard | UserIntent | Custom

definition DiscoveryCapabilitiesBitmap :: bit_schema where
  "DiscoveryCapabilitiesBitmap =
     [(''softAccessPoint'', BitFlag 0), (''ble'', BitFlag 1), (''onIpNetwork'', BitFlag 2)]"

definition QrCodeDataSchema :: bit_schema where
  "QrCodeDataSchema =
     [(''version'', BitField 0 3),
      (''vendorId'', BitField 3 16),
      (''productId'', BitField 19 16),
      (''flowType'', BitFieldEnum 35 2),
      (''discoveryCapabilities'', BitField 37 8),
      (''discriminator'', BitField 45 12),
      (''passcode'', BitField 57 27)]"

definition QR_PREFIX :: string where "QR_PREFIX = ''MT:''"

definition qr_encode :: "bitmap \<Rightarrow> string" where
  "qr_encode payloadData = QR_PREFIX @ base38_encode (encode_byte_bitmap QrCodeDataSchema payloadData)"

definition qr_decode :: "string \<Rightarrow> bitmap result" where
  "qr_decode encoded =
     (if take (length QR_PREFIX) encoded \<noteq> QR_PREFIX then Inl UnexpectedDataError
      else rbind (base38_decode (drop (length QR_PREFIX) encoded)) (decode_byte_bitmap QrCodeDataSchema))"

section \<open>The manual code\<close>

record ManualPairingData =
  mp_discriminator :: "int option"
  mp_shortDiscriminator :: "int option"
  mp_passcode :: int
  mp_vendorId :: "int option"
  mp_productId :: "int option"

definition manual_digits :: "int \<Rightarrow> int \<Rightarrow> (int \<times> int) option \<Rightarrow> string" where
  "manual_digits discriminator passcode ids =
     js_toString (js_or (js_shr discriminator 10) (if ids \<noteq> None then js_shl 1 2 else 0)) @
     padStart0 5 (js_toString (js_or (js_shl (js_and discriminator 0x300) 6) (js_and passcode 0x3fff))) @
     padStart0 4 (js_toString (js_shr passcode 14)) @
     (case ids of
        None \<Rightarrow> []
      | Some (vendorId, productId) \<Rightarrow> padStart0 5 (js_toString vendorId) @ padStart0 5 (js_toString productId))"

text \<open>\<^verbatim>\<open>result += checksum\<close>, where the checksum may be undefined.\<close>

definition checksum_text :: "nat option \<Rightarrow> string" where
  "checksum_text c = (case c of None \<Rightarrow> ''undefined'' | Some n \<Rightarrow> js_toString (int n))"

definition manual_encode :: "ManualPairingData \<Rightarrow> string result" where
  "manual_encode d =
     (case mp_discriminator d of
        None \<Rightarrow> Inl UnexpectedDataError
      | Some discriminator \<Rightarrow>
          if discriminator > 4095 then Inl UnexpectedDataError
          else let ids = (case (mp_vendorId d, mp_productId d) of (Some v, Some p) \<Rightarrow> Some (v, p) | _ \<Rightarrow> None);
                   result = manual_digits discriminator (mp_passcode d) ids
               in rbind (computeChecksum result) (\<lambda>c. Inr (result @ checksum_text c)))"

definition slice :: "nat \<Rightarrow> nat \<Rightarrow> string \<Rightarrow> string" where
  "slice from to s = take (to - from) (drop from s)"

definition manual_decode :: "string \<Rightarrow> ManualPairingData result" where
  "manual_decode encoded =
     (if length encoded \<noteq> 11 \<and> length encoded \<noteq> 21 then Inl UnexpectedDataError
      else rbind (computeChecksum (butlast encoded)) (\<lambda>checksum.
        if checksum = None \<or> map_option int checksum \<noteq> parseInt [last encoded] then Inl UnexpectedDataError
        else
          let first = int_operand (parseInt [hd encoded]);
              second = int_operand (parseInt (slice 1 6 encoded));
              hasVendorProductIds = (js_and first (js_shl 1 2) \<noteq> 0);
              shortDiscriminator = js_or (js_shl (js_and first 0x03) 2) (js_and (js_shr second 14) 0x3);
              passcode = js_or (js_and second 0x3fff) (js_shl (int_operand (parseInt (slice 6 10 encoded))) 14)
          in Inr \<lparr>mp_discriminator = None, mp_shortDiscriminator = Some shortDiscriminator, mp_passcode = passcode,
               mp_vendorId = (if hasVendorProductIds then parseInt (slice 10 15 encoded) else None),
               mp_productId = (if hasVendorProductIds then parseInt (slice 15 20 encoded) else None)\<rparr>))"

section \<open>Decimal texts read back\<close>

lemma digit_value_char: "d < 10 \<Longrightarrow> digit_value (digit_char d) = Some d"
  by (simp add: digit_value_def digit_char_def of_char_of)

fun dec_value :: "string \<Rightarrow> nat \<Rightarrow> nat" where
  "dec_value [] acc = acc"
| "dec_value (c # cs) acc = dec_value cs (acc * 10 + the (digit_value c))"

lemma dec_value_append: "dec_value (s @ t) acc = dec_value t (dec_value s acc)"
  by (induction s arbitrary: acc) auto

lemma digits_only_dec_digits [simp]: "digits_only (dec_digits n)"
  by (induction n rule: dec_digits.induct) (subst dec_digits.simps, auto simp: digits_only_def digit_value_char)

lemma dec_value_dec_digits: "dec_value (dec_digits n) 0 = n"
  by (induction n rule: dec_digits.induct) (subst dec_digits.simps, auto simp: dec_value_append digit_value_char)

lemma dec_digits_nonempty [simp]: "dec_digits n \<noteq> []"
  by (subst dec_digits.simps) auto

lemma length_dec_digits: "n < 10 ^ k \<Longrightarrow> 0 < k \<Longrightarrow> length (dec_digits n) \<le> k"
proof (induction n arbitrary: k rule: dec_digits.induct)
  case (1 n)
  show ?case
  proof (cases "n < 10")
    case True
    with 1 show ?thesis by (subst dec_digits.simps) simp
  next
    case False
    then obtain j where k: "k = Suc j" "0 < j" using 1(2,3) by (cases k; cases "k - 1") auto
    have "n div 10 < 10 ^ j" using 1(2) k(1) by (simp add: less_mult_imp_div_less mult.commute)
    with 1(1) [OF False _ k(2)] False k(1) show ?thesis by (subst dec_digits.simps) simp
  qed
qed

lemma digit_value_zero: "digit_value (CHR ''0'') = Some 0"
  by (simp add: digit_value_def)

lemma dec_value_zeros: "dec_value (replicate k (CHR ''0'')) 0 = 0"
  by (induction k) (auto simp: digit_value_zero)

lemma js_toString_nat [simp]: "js_toString (int n) = dec_digits n"
  by (simp add: js_toString_def)

lemma padStart0_facts:
  assumes "n < 10 ^ k" and "0 < k"
  shows "length (padStart0 k (dec_digits n)) = k" "digits_only (padStart0 k (dec_digits n))"
    "dec_value (padStart0 k (dec_digits n)) 0 = n"
  using length_dec_digits [OF assms]
  by (auto simp: padStart0_def dec_value_append dec_value_zeros dec_value_dec_digits digits_only_def digit_value_zero
      list.pred_set)
    (use digits_only_dec_digits in \<open>auto simp: digits_only_def list.pred_set\<close>)

lemma digit_not_special:
  assumes "digit_value c \<noteq> None"
  shows "\<not> js_space c" "c \<noteq> CHR ''-''" "c \<noteq> CHR ''+''" "c \<noteq> CHR ''x''" "c \<noteq> CHR ''X''"
  using assms by (auto simp: digit_value_def js_space_def Let_def split: if_splits)

lemma parse_dec_digits_eq: "digits_only s \<Longrightarrow> parse_dec_digits s (Some a) = Some (dec_value s a)"
  by (induction s arbitrary: a) auto

lemma parseInt_digits:
  assumes "digits_only s" and "s \<noteq> []"
  shows "parseInt s = Some (int (dec_value s 0))"
proof -
  obtain c cs where s: "s = c # cs" using assms(2) by (cases s) auto
  then have c: "digit_value c \<noteq> None" "digits_only cs" using assms(1) by auto
  note sp = digit_not_special [OF c(1)]
  have "take 2 s \<noteq> ''0x''" "take 2 s \<noteq> ''0X''"
    using c(2) digit_not_special by (cases cs; auto simp: s)+
  with sp c show ?thesis by (auto simp: parseInt_def s parse_dec_digits_eq)
qed

section \<open>Round trips\<close>

lemma qr_schema_ok: "ranges_ok 84 QrCodeDataSchema" "list_all (\<lambda>(_, b). br_length b \<le> 31) QrCodeDataSchema"
  "byteArrayLength QrCodeDataSchema = 11"
  by (simp_all add: QrCodeDataSchema_def BitField_def BitFieldEnum_def byteArrayLength_def maxBitLength_def)

text \<open>
  C37. The text of a QR code decodes to the onboarding payload it was made from, for every payload
  whose fields fit their bit ranges.
\<close>

theorem qr_roundtrip:
  assumes "bitmap_ok QrCodeDataSchema v"
  shows "qr_decode (qr_encode v) = Inr v"
proof -
  have "length (encode_byte_bitmap QrCodeDataSchema v) mod 3 \<noteq> 0"
    by (simp add: qr_schema_ok(3))
  from base38_decode_encode [OF this] show ?thesis
    using decode_encode_byte_bitmap [OF qr_schema_ok(1,2) assms]
    by (simp add: qr_decode_def qr_encode_def)
qed

theorem qr_roundtrip_witness:
  "let v = [''version'' \<mapsto> BNum 0, ''vendorId'' \<mapsto> BNum 65521, ''productId'' \<mapsto> BNum 32768, ''flowType'' \<mapsto> BNum 0,
      ''discoveryCapabilities'' \<mapsto> BNum 4, ''discriminator'' \<mapsto> BNum 3840, ''passcode'' \<mapsto> BNum 20202021]
   in qr_decode (qr_encode v) = Inr v"
  unfolding Let_def
  by (rule qr_roundtrip)
    (auto simp: bitmap_ok_def QrCodeDataSchema_def BitField_def BitFieldEnum_def range_value_ok_def)

lemma js_and_mask: "0 \<le> v \<Longrightarrow> v < 2 ^ 31 \<Longrightarrow> n \<le> 30 \<Longrightarrow> js_and v (2 ^ n - 1) = v mod 2 ^ n"
proof -
  assume v: "0 \<le> v" "v < 2 ^ 31" and n: "n \<le> 30"
  have "(2 :: int) ^ n \<le> 2 ^ 30" using n by (intro power_increasing) auto
  then have "js_and v (2 ^ n - 1) = v AND (2 ^ n - 1)"
    using v by (intro js_and_small) auto
  then show ?thesis
    using take_bit_eq_mask [of n v] by (simp add: mask_eq_exp_minus_1 take_bit_eq_mod)
qed

lemmas js_and_masks =
  js_and_mask [where n = 14, simplified] js_and_mask [where n = 2, simplified] js_and_mask [where n = 3, simplified]

lemma js_and_300: "0 \<le> v \<Longrightarrow> v < 2 ^ 31 \<Longrightarrow> js_and v 0x300 = v div 256 mod 4 * 256"
proof -
  assume v: "0 \<le> v" "v < 2 ^ 31"
  have "v AND push_bit 8 (mask 2) = push_bit 8 (take_bit 2 (drop_bit 8 v))"
    by (rule bit_eqI) (auto simp: bit_and_iff bit_push_bit_iff bit_mask_iff bit_take_bit_iff bit_drop_bit_eq)
  with v show ?thesis
    by (simp add: js_and_small mask_eq_exp_minus_1 push_bit_eq_mult take_bit_eq_mod drop_bit_eq_div)
qed

lemma js_or_add: "0 \<le> a \<Longrightarrow> a < 2 ^ n \<Longrightarrow> 0 \<le> b \<Longrightarrow> b * 2 ^ n + a < 2 ^ 31 \<Longrightarrow> js_or (b * 2 ^ n) a = b * 2 ^ n + a"
proof -
  assume a: "0 \<le> a" "a < 2 ^ n" and b: "0 \<le> b" "b * 2 ^ n + a < 2 ^ 31"
  have "0 \<le> b * 2 ^ n" using b(1) by simp
  then have "0 \<le> b * 2 ^ n" "b * 2 ^ n < 2 ^ 31" "a < 2 ^ 31" using a b(2) by linarith+
  then have "js_or (b * 2 ^ n) a = push_bit n b OR a"
    using a by (simp add: js_or_small push_bit_eq_mult)
  with or_shifted [OF a, of b] show ?thesis by simp
qed

lemma js_or_commute: "js_or a b = js_or b a"
  by (simp add: js_or_def or.commute)

text \<open>The three numbers of a manual code, and what the decoder recovers from them.\<close>

definition manual_first :: "int \<Rightarrow> bool \<Rightarrow> nat" where
  "manual_first discriminator ids = nat (discriminator div 1024 + (if ids then 4 else 0))"

definition manual_second :: "int \<Rightarrow> int \<Rightarrow> nat" where
  "manual_second discriminator passcode = nat (discriminator div 256 mod 4 * 16384 + passcode mod 16384)"

lemma manual_numbers:
  assumes "0 \<le> d" "d \<le> 4095" "0 \<le> p" "p < 2 ^ 27"
  shows "js_or (js_shr d 10) (if ids then js_shl 1 2 else 0) = int (manual_first d ids)"
    and "js_or (js_shl (js_and d 0x300) 6) (js_and p 0x3fff) = int (manual_second d p)"
    and "js_shr p 14 = int (nat (p div 16384))"
    and "manual_first d ids < 10" "manual_second d p < 10 ^ 5" "nat (p div 16384) < 10 ^ 4"
proof -
  have q: "0 \<le> d div 1024" "d div 1024 < 4" using assms by auto
  have "js_or (1 * 2 ^ 2) (d div 1024) = 1 * 2 ^ 2 + d div 1024"
    using q by (intro js_or_add) auto
  moreover have "js_or (d div 1024) 0 = d div 1024"
    using q by (simp add: js_or_def to_int32_id)
  moreover have "js_shr d 10 = d div 1024" using assms by (simp add: js_shr_small)
  moreover have "js_shl 1 2 = 4" by (simp add: js_shl_small)
  ultimately show "js_or (js_shr d 10) (if ids then js_shl 1 2 else 0) = int (manual_first d ids)"
    using q by (auto simp: manual_first_def js_or_commute [of _ 4])
  let ?e = "d div 256 mod 4"
  have e: "0 \<le> ?e" "?e < 4" by simp_all
  have m: "0 \<le> p mod 16384" "p mod 16384 < 16384" by simp_all
  have "js_or (?e * 2 ^ 14) (p mod 16384) = ?e * 2 ^ 14 + p mod 16384"
    using e m by (intro js_or_add) auto
  moreover have "js_shl (?e * 256) 6 = ?e * 16384" using e by (subst js_shl_small) auto
  ultimately show "js_or (js_shl (js_and d 0x300) 6) (js_and p 0x3fff) = int (manual_second d p)"
    using assms e m by (simp add: js_and_300 js_and_masks manual_second_def)
  show "js_shr p 14 = int (nat (p div 16384))"
    using assms by (simp add: js_shr_small)
  show "manual_first d ids < 10" using q by (auto simp: manual_first_def nat_less_iff)
  show "manual_second d p < 10 ^ 5" using e m by (simp add: manual_second_def)
  show "nat (p div 16384) < 10 ^ 4" using assms by simp
qed

lemma manual_recovered:
  assumes "0 \<le> d" "d \<le> 4095" "0 \<le> p" "p < 2 ^ 27"
  shows "js_and (int (manual_first d ids)) (js_shl 1 2) \<noteq> 0 \<longleftrightarrow> ids"
    and "js_or (js_shl (js_and (int (manual_first d ids)) 3) 2) (js_and (js_shr (int (manual_second d p)) 14) 3) = d div 256"
    and "js_or (js_and (int (manual_second d p)) 0x3fff) (js_shl (p div 16384) 14) = p"
proof -
  let ?q = "d div 1024" and ?e = "d div 256 mod 4" and ?m = "p mod 16384" and ?h = "p div 16384"
  have q: "0 \<le> ?q" "?q < 4" and e: "0 \<le> ?e" "?e < 4" and m: "0 \<le> ?m" "?m < 16384" and h: "0 \<le> ?h" "?h < 8192"
    using assms by auto
  have f: "int (manual_first d ids) = ?q + (if ids then 4 else 0)" and s: "int (manual_second d p) = ?e * 16384 + ?m"
    using q e m by (simp_all add: manual_first_def manual_second_def)
  have "(?q + 4) div 4 = 1" "?q div 4 = 0" using q by simp_all
  then show "js_and (int (manual_first d ids)) (js_shl 1 2) \<noteq> 0 \<longleftrightarrow> ids"
    unfolding f by (subst js_and_bit) (auto simp: bit_iff_odd)
  have "int (manual_first d ids) mod 4 = ?q" unfolding f using q by simp
  then have 1: "js_and (int (manual_first d ids)) 3 = ?q"
    using q by (subst js_and_masks) (simp_all add: f)
  have "(?e * 16384 + ?m) div 16384 = ?e" "(?e * 16384 + ?m) mod 16384 = ?m" using m by simp_all
  then have 2: "js_shr (int (manual_second d p)) 14 = ?e" "js_and (int (manual_second d p)) 0x3fff = ?m"
    using e m by (simp_all add: s js_shr_small js_and_masks)
  have "js_or (?q * 2 ^ 2) ?e = ?q * 2 ^ 2 + ?e" using q e by (intro js_or_add) auto
  moreover have "js_shl ?q 2 = ?q * 4" using q by (subst js_shl_small) auto
  moreover have "?q = d div 256 div 4" by (simp add: zdiv_zmult2_eq [symmetric])
  moreover have "js_and ?e 3 = ?e"
  proof -
    have "?e < 2147483648" using e(2) by linarith
    from js_and_masks(2) [OF e(1) this] show ?thesis by simp
  qed
  ultimately show "js_or (js_shl (js_and (int (manual_first d ids)) 3) 2) (js_and (js_shr (int (manual_second d p)) 14) 3) = d div 256"
    by (simp add: 1 2)
  have "js_or (?h * 2 ^ 14) ?m = ?h * 2 ^ 14 + ?m" using h m by (intro js_or_add) auto
  moreover have "js_shl ?h 14 = ?h * 2 ^ 14" using h by (subst js_shl_small) auto
  ultimately show "js_or (js_and (int (manual_second d p)) 0x3fff) (js_shl (p div 16384) 14) = p"
    by (simp add: 2 js_or_commute [of ?m])
qed

lemma verhoeff_inverse_range: "c < 10 \<Longrightarrow> verhoeff_inverse ! c < 10"
proof -
  have "\<forall>c \<in> set [0..<10]. verhoeff_inverse ! c < 10" by code_simp
  then show "c < 10 \<Longrightarrow> ?thesis" by simp
qed

text \<open>A text of digits with its check digit passes the check.\<close>

lemma checksum_appended:
  assumes "digits_only s"
  shows "\<exists>c < 10. computeChecksum s = Inr (Some c) \<and> checksum_text (Some c) = [digit_char c] \<and>
    parseInt [digit_char c] = Some (int c)"
proof -
  let ?c = "verhoeff_inverse ! verhoeff_value (rev s) 1 0"
  have c: "?c < 10" using assms by (intro verhoeff_inverse_range verhoeff_value_range) auto
  then have "checksum_text (Some ?c) = [digit_char ?c]"
    by (simp add: checksum_text_def dec_digits.simps)
  moreover have "parseInt [digit_char ?c] = Some (int ?c)"
    using parseInt_digits [of "[digit_char ?c]"] c by (simp add: digit_value_char digits_only_def)
  ultimately show ?thesis using c computeChecksum_digits [OF assms] by auto
qed

lemma manual_digits_eq:
  assumes "0 \<le> d" "d \<le> 4095" "0 \<le> p" "p < 2 ^ 27"
  shows "manual_digits d p ids = dec_digits (manual_first d (ids \<noteq> None)) @ padStart0 5 (dec_digits (manual_second d p)) @
    padStart0 4 (dec_digits (nat (p div 16384))) @
    (case ids of None \<Rightarrow> [] | Some (v, q) \<Rightarrow> padStart0 5 (js_toString v) @ padStart0 5 (js_toString q))"
  by (simp only: manual_digits_def manual_numbers(1-3) [OF assms] js_toString_nat)

lemma padded_field:
  assumes "n < 10 ^ k" and "0 < k"
  shows "length (padStart0 k (dec_digits n)) = k" "digits_only (padStart0 k (dec_digits n))"
    "parseInt (padStart0 k (dec_digits n)) = Some (int n)"
proof -
  note f = padStart0_facts [OF assms]
  show "length (padStart0 k (dec_digits n)) = k" "digits_only (padStart0 k (dec_digits n))" by (rule f)+
  have "padStart0 k (dec_digits n) \<noteq> []" using f(1) assms(2) by (metis list.size(3) less_irrefl)
  from parseInt_digits [OF f(2) this] f(3) show "parseInt (padStart0 k (dec_digits n)) = Some (int n)" by simp
qed

lemma slice_append:
  "length a = from \<Longrightarrow> length b = to - from \<Longrightarrow> slice from to (a @ b @ c) = b"
  by (simp add: slice_def)

definition pairing_ids_ok :: "(int \<times> int) option \<Rightarrow> bool" where
  "pairing_ids_ok ids = (case ids of None \<Rightarrow> True | Some (v, q) \<Rightarrow> 0 \<le> v \<and> v < 65536 \<and> 0 \<le> q \<and> q < 65536)"

text \<open>Decoding a text that is laid out as a manual code with a correct check digit.\<close>

lemma manual_decode_layout:
  assumes "length b = 5" "length c = 4" "length e = 0 \<or> length e = 10" "computeChecksum (a # b @ c @ e) = Inr (Some k)"
    "parseInt [z] = Some (int k)" "parseInt [a] = Some f" "parseInt b = Some g" "parseInt c = Some h"
  shows "manual_decode (a # b @ c @ e @ [z]) =
    (let ids = (js_and f (js_shl 1 2) \<noteq> 0) in
     Inr \<lparr>mp_discriminator = None,
       mp_shortDiscriminator = Some (js_or (js_shl (js_and f 3) 2) (js_and (js_shr g 14) 3)),
       mp_passcode = js_or (js_and g 0x3fff) (js_shl h 14),
       mp_vendorId = (if ids then parseInt (slice 10 15 (a # b @ c @ e @ [z])) else None),
       mp_productId = (if ids then parseInt (slice 15 20 (a # b @ c @ e @ [z])) else None)\<rparr>)"
proof -
  let ?t = "a # b @ c @ e @ [z]"
  have "butlast ?t = a # b @ c @ e" "last ?t = z" "hd ?t = a"
    by (simp_all add: butlast_append last_append)
  moreover have "slice 1 6 ?t = b" "slice 6 10 ?t = c"
    using slice_append [of "[a]" 1 b 6 "c @ e @ [z]"] slice_append [of "a # b" 6 c 10 "e @ [z]"] assms(1,2) by simp_all
  moreover have "\<not> (length ?t \<noteq> 11 \<and> length ?t \<noteq> 21)" using assms(1-3) by auto
  ultimately show ?thesis
    using assms(4-8) by (simp only: manual_decode_def if_False rbind.simps Let_def int_operand_def option.simps) simp
qed

definition manual_ids :: "(int \<times> int) option \<Rightarrow> string" where
  "manual_ids ids =
     (case ids of None \<Rightarrow> [] | Some (v, q) \<Rightarrow> padStart0 5 (js_toString v) @ padStart0 5 (js_toString q))"

lemma manual_ids_facts:
  assumes "pairing_ids_ok ids"
  shows "length (manual_ids ids) = 0 \<or> length (manual_ids ids) = 10" "digits_only (manual_ids ids)"
    "ids = Some (v, q) \<Longrightarrow> length pre = 10 \<Longrightarrow> parseInt (slice 10 15 (pre @ manual_ids ids @ post)) = Some v"
    "ids = Some (v, q) \<Longrightarrow> length pre = 10 \<Longrightarrow> parseInt (slice 15 20 (pre @ manual_ids ids @ post)) = Some q"
proof -
  have f: "length (padStart0 5 (js_toString x)) = 5 \<and> digits_only (padStart0 5 (js_toString x)) \<and>
      parseInt (padStart0 5 (js_toString x)) = Some x" if "0 \<le> x" "x < 65536" for x
    using padded_field [of "nat x" 5] that by (simp add: js_toString_def)
  show "length (manual_ids ids) = 0 \<or> length (manual_ids ids) = 10" "digits_only (manual_ids ids)"
    using assms f by (auto simp: manual_ids_def pairing_ids_ok_def digits_only_def split: option.splits)
  assume ids: "ids = Some (v, q)" and pre: "length pre = 10"
  then show "parseInt (slice 10 15 (pre @ manual_ids ids @ post)) = Some v"
    "parseInt (slice 15 20 (pre @ manual_ids ids @ post)) = Some q"
    using assms f [of v] f [of q]
      slice_append [of pre 10 "padStart0 5 (js_toString v)" 15 "padStart0 5 (js_toString q) @ post"]
      slice_append [of "pre @ padStart0 5 (js_toString v)" 15 "padStart0 5 (js_toString q)" 20 post]
    by (auto simp: manual_ids_def pairing_ids_ok_def)
qed

text \<open>
  C38. A manual pairing code decodes to the passcode it was made from, the upper four bits of the
  discriminator, and the vendor and product id when both were given.
\<close>

theorem manual_roundtrip:
  assumes "mp_discriminator x = Some d" "0 \<le> d" "d \<le> 4095" "0 \<le> mp_passcode x" "mp_passcode x < 2 ^ 27"
    and "(mp_vendorId x = None) = (mp_productId x = None)"
    and "\<forall>v. mp_vendorId x = Some v \<longrightarrow> 0 \<le> v \<and> v < 65536" "\<forall>q. mp_productId x = Some q \<longrightarrow> 0 \<le> q \<and> q < 65536"
  shows "rbind (manual_encode x) manual_decode =
    Inr (x\<lparr>mp_discriminator := None, mp_shortDiscriminator := Some (d div 256)\<rparr>)"
proof -
  let ?p = "mp_passcode x"
  define ids where "ids = (case (mp_vendorId x, mp_productId x) of (Some v, Some q) \<Rightarrow> Some (v, q) | _ \<Rightarrow> None)"
  have ids: "pairing_ids_ok ids" "map_option fst ids = mp_vendorId x" "map_option snd ids = mp_productId x"
    using assms(6-8) by (auto simp: ids_def pairing_ids_ok_def split: option.splits)
  note n = manual_numbers(4-6) [OF assms(2-5)] and rec = manual_recovered [OF assms(2-5)]
  let ?a = "digit_char (manual_first d (ids \<noteq> None))" and ?b = "padStart0 5 (dec_digits (manual_second d ?p))"
  let ?c = "padStart0 4 (dec_digits (nat (?p div 16384)))" and ?e = "manual_ids ids"
  have t: "manual_digits d ?p ids = ?a # ?b @ ?c @ ?e"
    using n(1) [of "ids \<noteq> None"] by (simp add: manual_digits_eq [OF assms(2-5)] manual_ids_def dec_digits.simps)
  note b = padded_field [OF n(2)] and c = padded_field [OF n(3)]
  have a: "parseInt [?a] = Some (int (manual_first d (ids \<noteq> None)))" "digits_only [?a]"
    using n(1) [of "ids \<noteq> None"] parseInt_digits [of "[?a]"] by (simp_all add: digit_value_char digits_only_def)
  have "digits_only (?a # ?b @ ?c @ ?e)" using a b c manual_ids_facts(2) [OF ids(1)] by (simp add: digits_only_def)
  then obtain k where k: "k < 10" "computeChecksum (?a # ?b @ ?c @ ?e) = Inr (Some k)"
      "checksum_text (Some k) = [digit_char k]" "parseInt [digit_char k] = Some (int k)"
    using checksum_appended by blast
  have "manual_encode x = Inr (?a # ?b @ ?c @ ?e @ [digit_char k])"
    unfolding manual_encode_def assms(1) option.case ids_def [symmetric] Let_def t
    using assms(3) k(2,3) by simp
  moreover have "int (nat (?p div 16384)) = ?p div 16384" using assms(4) by simp
  moreover have "length (?a # ?b @ ?c) = 10" using b(1) c(1) by simp
  ultimately show ?thesis
    using manual_decode_layout [OF b(1) c(1) manual_ids_facts(1) [OF ids(1)] k(2,4) a(1) b(3) c(3)] rec
      manual_ids_facts(3,4) [OF ids(1), of _ _ "?a # ?b @ ?c" "[digit_char k]"] ids(2,3)
    by (cases ids) auto
qed

theorem manual_roundtrip_witness:
  "rbind (manual_encode \<lparr>mp_discriminator = Some 3840, mp_shortDiscriminator = None, mp_passcode = 20202021,
       mp_vendorId = Some 65521, mp_productId = Some 32768\<rparr>) manual_decode =
     Inr \<lparr>mp_discriminator = None, mp_shortDiscriminator = Some 15, mp_passcode = 20202021,
       mp_vendorId = Some 65521, mp_productId = Some 32768\<rparr>"
  using manual_roundtrip [of "\<lparr>mp_discriminator = Some 3840, mp_shortDiscriminator = None, mp_passcode = 20202021,
       mp_vendorId = Some 65521, mp_productId = Some 32768\<rparr>" 3840] by simp

text \<open>
  A code with one mistyped digit is refused: the decoder compares the check digit of all digits but
  the last with the last one.
\<close>

lemma checked_code:
  assumes "is_ok (manual_decode s)"
  shows "\<exists>c. computeChecksum (butlast s) = Inr (Some c) \<and> parseInt [last s] = Some (int c)"
proof -
  obtain x where "manual_decode s = Inr x" using assms by (auto simp: is_ok_iff)
  then show ?thesis by (auto simp: manual_decode_def rbind_eq_Inr Let_def split: if_splits)
qed

text \<open>
  C40. Typing errors in a manual pairing code: of two codes of digits that differ in a single
  digit, or in the exchange of two neighbouring digits, the check digit included, the decoder accepts at
  most one.
\<close>

theorem manual_code_typo:
  assumes "manual_decode (pre @ a # post) = Inr x" "digits_only pre" "digits_only post"
    and "digit_value a \<noteq> None" "digit_value b \<noteq> None" "a \<noteq> b"
  shows "\<not> is_ok (manual_decode (pre @ b # post)) \<and>
    (\<forall>post'. post = b # post' \<longrightarrow> \<not> is_ok (manual_decode (pre @ b # a # post')))"
proof
  obtain c where c: "computeChecksum (butlast (pre @ a # post)) = Inr (Some c)" "parseInt [last (pre @ a # post)] = Some (int c)"
    using checked_code [of "pre @ a # post"] assms(1) by auto
  show "\<not> is_ok (manual_decode (pre @ b # post))"
  proof
    assume "is_ok (manual_decode (pre @ b # post))"
    then obtain c' where c': "computeChecksum (butlast (pre @ b # post)) = Inr (Some c')" "parseInt [last (pre @ b # post)] = Some (int c')"
      using checked_code by blast
    show False
    proof (cases "post = []")
      case True
      then have "c = c'" using c(1) c'(1) by simp
      moreover have "parseInt [a] = Some (int (the (digit_value a)))" "parseInt [b] = Some (int (the (digit_value b)))"
        using assms(4,5) parseInt_digits [of "[a]"] parseInt_digits [of "[b]"] by (simp_all add: digits_only_def)
      ultimately show False
        using True c(2) c'(2) assms(4-6) digit_value_inject [of a _ b] by auto
    next
      case False
      then have "c = c'" using c(2) c'(2) by simp
      moreover have "digits_only (butlast post)" using assms(3) by (auto simp: digits_only_def list.pred_set dest: in_set_butlastD)
      ultimately show False
        using False c(1) c'(1) computeChecksum_differs [OF _ _ single_digit_error [OF assms(2) _ assms(4-6)], of "butlast post"] assms(2,4,5)
        by (simp add: butlast_append)
    qed
  qed
  show "\<forall>post'. post = b # post' \<longrightarrow> \<not> is_ok (manual_decode (pre @ b # a # post'))"
  proof (intro allI impI notI)
    fix post' assume post: "post = b # post'" and "is_ok (manual_decode (pre @ b # a # post'))"
    then obtain c' where c': "computeChecksum (butlast (pre @ b # a # post')) = Inr (Some c')" "parseInt [last (pre @ b # a # post')] = Some (int c')"
      using checked_code by blast
    show False
    proof (cases "post' = []")
      case True
      obtain x y where xy: "digit_value a = Some x" "digit_value b = Some y" using assms(4,5) by auto
      then have "parseInt [a] = Some (int x)" "parseInt [b] = Some (int y)"
        using parseInt_digits [of "[a]"] parseInt_digits [of "[b]"] by (simp_all add: digits_only_def)
      then have "c = y" "c' = x" using c(2) c'(2) post True by simp_all
      then show False
        using check_digit_transposition [OF assms(2) xy assms(6)] c(1) c'(1) post True by (simp add: butlast_append)
    next
      case False
      then have "c = c'" using c(2) c'(2) post by simp
      moreover have "digits_only (butlast post')"
        using assms(3) post by (auto simp: digits_only_def list.pred_set dest: in_set_butlastD)
      ultimately show False
        using False post c(1) c'(1) computeChecksum_differs [OF _ _ transposition_error [OF assms(2) _ assms(4-6)], of "butlast post'"] assms(2,4,5)
        by (simp add: butlast_append)
    qed
  qed
qed

theorem manual_code_typo_witness:
  "is_ok (manual_decode ''34970112332'') \<and> \<not> is_ok (manual_decode ''39970112332'') \<and> \<not> is_ok (manual_decode ''39470112332'')"
proof -
  have "computeChecksum ''3497011233'' = Inr (Some 2)"
    by (simp add: computeChecksum_def checksum_step_def digit_value_def multiply_def permute_def verhoeff_inverse_def)
  moreover have "parseInt ''2'' = Some 2"
    using parseInt_digits [of "''2''"] by (simp add: digits_only_def digit_value_def)
  ultimately have ok: "is_ok (manual_decode ''34970112332'')"
    by (simp add: manual_decode_def Let_def)
  then obtain x where x: "manual_decode (''3'' @ CHR ''4'' # CHR ''9'' # ''70112332'') = Inr x" by (auto simp: is_ok_iff)
  have d: "digits_only ''3''" "digits_only (CHR ''9'' # ''70112332'')" "digit_value (CHR ''4'') \<noteq> None"
    "digit_value (CHR ''9'') \<noteq> None" "CHR ''4'' \<noteq> CHR ''9''"
    by (simp_all add: digits_only_def digit_value_def)
  from manual_code_typo [OF x d] ok show ?thesis by simp
qed

end
