(* ===== verification/Transactions.thy ===== *)
theory Transactions
  imports Prelude
begin

text \<open>
  Transactions over shared state, \<^verbatim>\<open>behavior/state/transaction\<close>: \<^verbatim>\<open>Tx.ts\<close>, the resource locks of
  \<^verbatim>\<open>ResourceSet.ts\<close> and \<^verbatim>\<open>Status.ts\<close>.

  Transactions, participants and roles are numbered objects; a resource may stand in for another one
  (\<^verbatim>\<open>Resource.reference\<close>), and locks are kept by the resource at the end of such a chain.  A JavaScript
  \<^verbatim>\<open>Set\<close> is a list without repetitions in insertion order.  The callbacks of participants are code
  outside the transaction: they are the argument \<open>ops\<close>, functions on the whole state, since a
  callback may use the transaction again.  Loops over the participants see participants added
  while they run, so they may run forever and return an option.  The synchronous paths of
  \<^verbatim>\<open>MaybePromise\<close> are modelled; \<^verbatim>\<open>begin\<close> and the waiting for locks are in \<open>TxLocks\<close>.
\<close>

section \<open>State\<close>

datatype Status =
    StReadOnly | StShared | StWaiting | StExclusive | StCommittingPhaseOne | StCommittingPhaseTwo
  | StRollingBack | StDestroyed

datatype resource = Resource nat | StandIn nat resource

record Tx =
  tx_status :: Status
  tx_participants :: "nat list"
  tx_roles :: "nat \<rightharpoonup> nat"
  tx_resources :: "resource list"
  tx_waitingOn :: "nat list option"

record 'e tx_world =
  tw_tx :: "nat \<Rightarrow> Tx"
  tw_lockedBy :: "nat \<Rightarrow> nat option"
  tw_env :: 'e

record 'e participant_ops =
  op_role :: "nat \<Rightarrow> nat option"
  op_name :: "nat \<Rightarrow> nat"
  op_preCommit :: "nat \<Rightarrow> 'e tx_world \<Rightarrow> bool result \<times> 'e tx_world"
  op_commit1 :: "nat \<Rightarrow> 'e tx_world \<Rightarrow> unit result \<times> 'e tx_world"
  op_commit2 :: "nat \<Rightarrow> 'e tx_world \<Rightarrow> unit result \<times> 'e tx_world"
  op_postCommit :: "nat \<Rightarrow> 'e tx_world \<Rightarrow> unit result \<times> 'e tx_world"
  op_rollback :: "nat \<Rightarrow> 'e tx_world \<Rightarrow> unit result \<times> 'e tx_world"

definition MAX_PRECOMMIT_CYCLES :: nat where "MAX_PRECOMMIT_CYCLES = 5"
definition MAX_CHAINED_COMMITS :: nat where "MAX_CHAINED_COMMITS = 5"

definition new_Tx :: "bool \<Rightarrow> Tx" where
  "new_Tx readonly =
     \<lparr>tx_status = (if readonly then StReadOnly else StShared), tx_participants = [], tx_roles = Map.empty,
      tx_resources = [], tx_waitingOn = None\<rparr>"

definition upd_tx :: "nat \<Rightarrow> (Tx \<Rightarrow> Tx) \<Rightarrow> 'e tx_world \<Rightarrow> 'e tx_world" where
  "upd_tx t f w = w\<lparr>tw_tx := (tw_tx w)(t := f (tw_tx w t))\<rparr>"

abbreviation set_status :: "nat \<Rightarrow> Status \<Rightarrow> 'e tx_world \<Rightarrow> 'e tx_world" where
  "set_status t st w \<equiv> upd_tx t (\<lambda>x. x\<lparr>tx_status := st\<rparr>) w"

abbreviation status_of :: "nat \<Rightarrow> 'e tx_world \<Rightarrow> Status" where
  "status_of t w \<equiv> tx_status (tw_tx w t)"

abbreviation participants_of :: "nat \<Rightarrow> 'e tx_world \<Rightarrow> nat list" where
  "participants_of t w \<equiv> tx_participants (tw_tx w t)"

text \<open>\<^verbatim>\<open>Set.prototype.add\<close>\<close>

definition set_add :: "'a \<Rightarrow> 'a list \<Rightarrow> 'a list" where
  "set_add x s = (if x \<in> set s then s else s @ [x])"

section \<open>Resource sets\<close>

fun dereference :: "resource \<Rightarrow> nat" where
  "dereference (Resource r) = r"
| "dereference (StandIn _ res) = dereference res"

definition new_ResourceSet :: "resource list \<Rightarrow> nat list" where
  "new_ResourceSet resources = fold (\<lambda>res s. set_add (dereference res) s) resources []"

definition acquireLocksSync :: "nat \<Rightarrow> nat list \<Rightarrow> 'e tx_world \<Rightarrow> nat list result \<times> 'e tx_world" where
  "acquireLocksSync t resources w =
     (let toLock = filter (\<lambda>r. tw_lockedBy w r \<noteq> Some t) resources;
          blocked = filter (\<lambda>r. tw_lockedBy w r \<noteq> None \<and> tw_lockedBy w r \<noteq> Some t) resources in
      if blocked \<noteq> [] then (Inl SynchronousTransactionConflictError, w)
      else (Inr toLock, w\<lparr>tw_lockedBy := fold (\<lambda>r l. l(r := Some t)) toLock (tw_lockedBy w)\<rparr>))"

definition releaseLocks :: "nat \<Rightarrow> nat list \<Rightarrow> 'e tx_world \<Rightarrow> nat list \<times> 'e tx_world" where
  "releaseLocks t resources w =
     (let unlocked = filter (\<lambda>r. tw_lockedBy w r = Some t) resources
      in (unlocked, w\<lparr>tw_lockedBy := fold (\<lambda>r l. l(r := None)) unlocked (tw_lockedBy w)\<rparr>))"

section \<open>Guards, resources and participants\<close>

definition assertAvailable :: "nat \<Rightarrow> 'e tx_world \<Rightarrow> unit result" where
  "assertAvailable t w =
     (if status_of t w = StDestroyed then Inl TransactionDestroyedError
      else if status_of t w = StReadOnly then Inl ReadOnlyError
      else Inr ())"

definition tx_close :: "nat \<Rightarrow> 'e tx_world \<Rightarrow> 'e tx_world" where
  "tx_close t w =
     upd_tx t (\<lambda>x. x\<lparr>tx_status := StDestroyed, tx_resources := [], tx_roles := Map.empty, tx_participants := []\<rparr>) w"

definition add_all_resources :: "nat \<Rightarrow> resource list \<Rightarrow> 'e tx_world \<Rightarrow> 'e tx_world" where
  "add_all_resources t resources w = upd_tx t (\<lambda>x. x\<lparr>tx_resources := fold set_add resources (tx_resources x)\<rparr>) w"

definition addResourcesSync :: "nat \<Rightarrow> resource list \<Rightarrow> 'e tx_world \<Rightarrow> unit result \<times> 'e tx_world" where
  "addResourcesSync t resources w =
     (case assertAvailable t w of
        Inl e \<Rightarrow> (Inl e, w)
      | Inr _ \<Rightarrow>
          if status_of t w = StExclusive then
            (case acquireLocksSync t (new_ResourceSet resources) w of
               (Inl e, w) \<Rightarrow> (Inl e, w)
             | (Inr _, w) \<Rightarrow> (Inr (), add_all_resources t resources w))
          else if status_of t w \<noteq> StShared then (Inl TransactionFlowError, w)
          else (Inr (), add_all_resources t resources w))"

definition beginSync :: "nat \<Rightarrow> 'e tx_world \<Rightarrow> unit result \<times> 'e tx_world" where
  "beginSync t w =
     (case assertAvailable t w of
        Inl e \<Rightarrow> (Inl e, w)
      | Inr _ \<Rightarrow>
          if status_of t w = StExclusive then (Inr (), w)
          else if status_of t w \<noteq> StShared then (Inl TransactionFlowError, w)
          else let w = set_status t StExclusive w in
               (case acquireLocksSync t (new_ResourceSet (tx_resources (tw_tx w t))) w of
                  (Inl e, w) \<Rightarrow> (Inl e, set_status t StShared w)
                | (Inr _, w) \<Rightarrow> (Inr (), w)))"

fun add_each_participant :: "'e participant_ops \<Rightarrow> nat \<Rightarrow> nat list \<Rightarrow> 'e tx_world \<Rightarrow> unit result \<times> 'e tx_world" where
  "add_each_participant ops t [] w = (Inr (), w)"
| "add_each_participant ops t (p # ps) w =
     (if p \<in> set (participants_of t w) then add_each_participant ops t ps w
      else if \<exists>q \<in> set (participants_of t w). op_name ops q = op_name ops p then (Inl ImplementationError, w)
      else let w = upd_tx t (\<lambda>x. x\<lparr>tx_participants := set_add p (tx_participants x)\<rparr>) w in
        (case op_role ops p of
           None \<Rightarrow> add_each_participant ops t ps w
         | Some role \<Rightarrow>
             if tx_roles (tw_tx w t) role \<noteq> None then (Inl TransactionFlowError, w)
             else add_each_participant ops t ps (upd_tx t (\<lambda>x. x\<lparr>tx_roles := (tx_roles x)(role \<mapsto> p)\<rparr>) w)))"

definition addParticipants :: "'e participant_ops \<Rightarrow> nat \<Rightarrow> nat list \<Rightarrow> 'e tx_world \<Rightarrow> unit result \<times> 'e tx_world" where
  "addParticipants ops t ps w =
     (case assertAvailable t w of Inl e \<Rightarrow> (Inl e, w) | Inr _ \<Rightarrow> add_each_participant ops t ps w)"

definition getParticipant :: "nat \<Rightarrow> nat \<Rightarrow> 'e tx_world \<Rightarrow> nat option result" where
  "getParticipant t role w = rbind (assertAvailable t w) (\<lambda>_. Inr (tx_roles (tw_tx w t) role))"

section \<open>Loops over the participants\<close>

text \<open>
  \<^verbatim>\<open>for (const participant of this.participants)\<close> with an accumulator; the body says whether to break.  The
  loop reads the set anew in every round.
\<close>

partial_function (option) for_participants ::
  "nat \<Rightarrow> (nat \<Rightarrow> 'a \<times> 'e tx_world \<Rightarrow> bool \<times> 'a \<times> 'e tx_world) \<Rightarrow> nat \<Rightarrow> 'a \<times> 'e tx_world \<Rightarrow> ('a \<times> 'e tx_world) option" where
  "for_participants t body i s =
     (if i < length (participants_of t (snd s)) then
        (case body (participants_of t (snd s) ! i) s of
           (stop, s) \<Rightarrow> if stop then Some s else for_participants t body (i + 1) s)
      else Some s)"

text \<open>A call whose exception is recorded and does not end the loop: \<open>errored\<close> lists the participants.\<close>

definition collect_errors ::
  "(nat \<Rightarrow> 'e tx_world \<Rightarrow> unit result \<times> 'e tx_world) \<Rightarrow> nat \<Rightarrow> nat list \<times> 'e tx_world \<Rightarrow> bool \<times> nat list \<times> 'e tx_world" where
  "collect_errors call p s =
     (case s of (errored, w) \<Rightarrow>
        (case call p w of
           (Inl _, w) \<Rightarrow> (False, errored @ [p], w)
         | (Inr _, w) \<Rightarrow> (False, errored, w)))"

definition throwIfErrored :: "nat list \<Rightarrow> unit result" where
  "throwIfErrored errored = (if errored = [] then Inr () else Inl FinalizationError)"

definition executeRollback :: "'e participant_ops \<Rightarrow> nat \<Rightarrow> 'e tx_world \<Rightarrow> (unit result \<times> 'e tx_world) option" where
  "executeRollback ops t w =
     map_option (\<lambda>(errored, w). (throwIfErrored errored, set_status t StShared w))
       (for_participants t (collect_errors (op_rollback ops)) 0 ([], set_status t StRollingBack w))"

text \<open>The first exception in phase one ends the loop; \<open>needRollback\<close> is the accumulator.\<close>

definition commit1_body ::
  "'e participant_ops \<Rightarrow> nat \<Rightarrow> bool \<times> 'e tx_world \<Rightarrow> bool \<times> bool \<times> 'e tx_world" where
  "commit1_body ops p s =
     (case s of (needRollback, w) \<Rightarrow>
        (case op_commit1 ops p w of
           (Inl _, w) \<Rightarrow> (True, True, w)
         | (Inr _, w) \<Rightarrow> (False, needRollback, w)))"

definition executeCommit1 :: "'e participant_ops \<Rightarrow> nat \<Rightarrow> 'e tx_world \<Rightarrow> (unit result \<times> 'e tx_world) option" where
  "executeCommit1 ops t w =
     Option.bind (for_participants t (commit1_body ops) 0 (False, w)) (\<lambda>(needRollback, w).
       if needRollback then
         map_option (\<lambda>(res, w). (rbind res (\<lambda>_. Inl FinalizationError), w)) (executeRollback ops t w)
       else Some (Inr (), w))"

definition executeCommit2 :: "'e participant_ops \<Rightarrow> nat \<Rightarrow> 'e tx_world \<Rightarrow> (unit result \<times> 'e tx_world) option" where
  "executeCommit2 ops t w =
     map_option (\<lambda>(errored, w). (throwIfErrored errored, w))
       (for_participants t (collect_errors (op_commit2 ops)) 0 ([], set_status t StCommittingPhaseTwo w))"

definition executeCommit :: "'e participant_ops \<Rightarrow> nat \<Rightarrow> 'e tx_world \<Rightarrow> (unit result \<times> 'e tx_world) option" where
  "executeCommit ops t w =
     Option.bind (executeCommit1 ops t w) (\<lambda>(res, w).
       case res of Inl e \<Rightarrow> Some (Inl e, w) | Inr _ \<Rightarrow> executeCommit2 ops t w)"

text \<open>An exception of a post-commit handler is logged and ends the iteration.\<close>

fun executePostCommit :: "'e participant_ops \<Rightarrow> nat list \<Rightarrow> 'e tx_world \<Rightarrow> 'e tx_world" where
  "executePostCommit ops [] w = w"
| "executePostCommit ops (p # ps) w =
     (case op_postCommit ops p w of (Inl _, w) \<Rightarrow> w | (Inr _, w) \<Rightarrow> executePostCommit ops ps w)"

definition errorRollback :: "'e participant_ops \<Rightarrow> nat \<Rightarrow> 'e tx_world \<Rightarrow> (unit result \<times> 'e tx_world) option" where
  "errorRollback ops t w =
     map_option (\<lambda>(res, w). (rbind res (\<lambda>_. Inl FinalizationError), w)) (executeRollback ops t w)"

partial_function (option) preCommit_loop ::
  "'e participant_ops \<Rightarrow> nat \<Rightarrow> nat \<Rightarrow> bool \<Rightarrow> nat \<Rightarrow> 'e tx_world \<Rightarrow> (unit result \<times> 'e tx_world) option" where
  "preCommit_loop ops t i mayHaveMutated cycles w =
     (if i < length (participants_of t w) then
        (case op_preCommit ops (participants_of t w ! i) w of
           (Inl _, w) \<Rightarrow> errorRollback ops t w
         | (Inr result, w) \<Rightarrow> preCommit_loop ops t (i + 1) (mayHaveMutated \<or> result) cycles w)
      else if mayHaveMutated then
        (if cycles + 1 > MAX_PRECOMMIT_CYCLES then errorRollback ops t w
         else preCommit_loop ops t 0 False (cycles + 1) w)
      else Some (Inr (), w))"

definition executePreCommit :: "'e participant_ops \<Rightarrow> nat \<Rightarrow> 'e tx_world \<Rightarrow> (unit result \<times> 'e tx_world) option" where
  "executePreCommit ops t w = preCommit_loop ops t 0 False 1 w"

section \<open>Commit and rollback\<close>

text \<open>
  The listeners \<^verbatim>\<open>waitFor\<close> has registered with \<open>t\<close>: each removes \<open>t\<close> from the transactions its owner waits
  for, and the owner stops waiting when none is left.
\<close>

definition emit_shared :: "nat \<Rightarrow> 'e tx_world \<Rightarrow> 'e tx_world" where
  "emit_shared t w =
     w\<lparr>tw_tx := (\<lambda>u. let x = tw_tx w u in
        (case tx_waitingOn x of
           None \<Rightarrow> x
         | Some others \<Rightarrow>
             if t \<in> set others then
               let others = removeAll t others
               in x\<lparr>tx_waitingOn := (if others = [] then None else Some others)\<rparr>
             else x))\<rparr>"

definition cleanup :: "nat \<Rightarrow> 'e tx_world \<Rightarrow> 'e tx_world" where
  "cleanup t w =
     (let w = snd (releaseLocks t (new_ResourceSet (tx_resources (tw_tx w t))) w);
          w = upd_tx t (\<lambda>x. x\<lparr>tx_participants := [], tx_status := StShared\<rparr>) w
      in emit_shared t w)"

definition finalize ::
  "nat \<Rightarrow> Status \<Rightarrow> ('e tx_world \<Rightarrow> (unit result \<times> 'e tx_world) option) \<Rightarrow> 'e tx_world \<Rightarrow>
   (unit result \<times> 'e tx_world) option" where
  "finalize t status finalizer w =
     (if status_of t w \<noteq> StShared \<and> status_of t w \<noteq> StExclusive then Some (Inl TransactionFlowError, w)
      else map_option (\<lambda>(res, w). (res, cleanup t w)) (finalizer (set_status t status w)))"

definition tx_rollback :: "'e participant_ops \<Rightarrow> nat \<Rightarrow> 'e tx_world \<Rightarrow> (unit result \<times> 'e tx_world) option" where
  "tx_rollback ops t w =
     (case assertAvailable t w of
        Inl e \<Rightarrow> Some (Inl e, w)
      | Inr _ \<Rightarrow> finalize t StRollingBack (executeRollback ops t) w)"

definition performCommit :: "'e participant_ops \<Rightarrow> nat \<Rightarrow> 'e tx_world \<Rightarrow> (unit result \<times> 'e tx_world) option" where
  "performCommit ops t w =
     (let participants = participants_of t w in
      map_option (\<lambda>(res, w). (res, case res of Inl _ \<Rightarrow> w | Inr _ \<Rightarrow> executePostCommit ops participants w))
        (finalize t StCommittingPhaseOne (executeCommit ops t) w))"

definition tx_commit :: "'e participant_ops \<Rightarrow> nat \<Rightarrow> 'e tx_world \<Rightarrow> (unit result \<times> 'e tx_world) option" where
  "tx_commit ops t w =
     (case assertAvailable t w of
        Inl e \<Rightarrow> Some (Inl e, w)
      | Inr _ \<Rightarrow>
          if status_of t w = StShared then tx_rollback ops t w
          else Option.bind (executePreCommit ops t w) (\<lambda>(res, w).
            case res of Inl e \<Rightarrow> Some (Inl e, w) | Inr _ \<Rightarrow> performCommit ops t w))"

section \<open>act\<close>

text \<open>\<^verbatim>\<open>commitTransaction\<close> with the number of commits that may still happen.\<close>

fun commitTransaction :: "'e participant_ops \<Rightarrow> nat \<Rightarrow> nat \<Rightarrow> 'e tx_world \<Rightarrow> (unit result \<times> 'e tx_world) option" where
  "commitTransaction ops t 0 w = Some (Inl TransactionFlowError, w)"
| "commitTransaction ops t (Suc n) w =
     Option.bind (tx_commit ops t w) (\<lambda>(res, w).
       case res of
         Inl e \<Rightarrow> Some (Inl e, w)
       | Inr _ \<Rightarrow> if status_of t w = StExclusive then commitTransaction ops t n w else Some (Inr (), w))"

text \<open>
  The synchronous path: an exception of the actor rolls back, an exception of a commit does not, and
  the transaction is closed in every case.
\<close>

definition act ::
  "'e participant_ops \<Rightarrow> nat \<Rightarrow> ('e tx_world \<Rightarrow> 'r result \<times> 'e tx_world) \<Rightarrow> 'e tx_world \<Rightarrow>
   ('r result \<times> 'e tx_world) option" where
  "act ops t actor w =
     (case actor (upd_tx t (\<lambda>_. new_Tx False) w) of
        (Inl e, w) \<Rightarrow> map_option (\<lambda>(_, w). (Inl e, tx_close t w)) (tx_rollback ops t w)
      | (Inr v, w) \<Rightarrow>
          map_option (\<lambda>(res, w). (rbind res (\<lambda>_. Inr v), tx_close t w))
            (commitTransaction ops t MAX_CHAINED_COMMITS w))"

section \<open>Participants that leave transactions alone\<close>

text \<open>What a loop does when its body does not change the participants.\<close>

fun run_body :: "(nat \<Rightarrow> 's \<Rightarrow> bool \<times> 's) \<Rightarrow> nat list \<Rightarrow> 's \<Rightarrow> 's" where
  "run_body body [] s = s"
| "run_body body (p # ps) s = (case body p s of (stop, s) \<Rightarrow> if stop then s else run_body body ps s)"

lemma for_participants_run:
  assumes "\<And>p s. participants_of t (snd (snd (body p s))) = participants_of t (snd s)"
  shows "for_participants t body i s = Some (run_body body (drop i (participants_of t (snd s))) s)"
proof (induction "length (participants_of t (snd s)) - i" arbitrary: i s)
  case 0
  then show ?case by (subst for_participants.simps) simp
next
  case (Suc n)
  let ?ps = "participants_of t (snd s)"
  have i: "i < length ?ps" using Suc.hyps(2) by linarith
  obtain stop s' where b: "body (?ps ! i) s = (stop, s')" by (cases "body (?ps ! i) s")
  have ps': "participants_of t (snd s') = ?ps" using assms [of "?ps ! i" s] b by simp
  have "n = length (participants_of t (snd s')) - (i + 1)" using Suc.hyps(2) ps' by simp
  from Suc.hyps(1) [OF this] show ?case
    using i b ps' by (subst for_participants.simps) (simp add: Cons_nth_drop_Suc [symmetric])
qed

definition same_transactions :: "'e tx_world \<Rightarrow> 'e tx_world \<Rightarrow> bool" where
  "same_transactions w w' \<longleftrightarrow> tw_tx w' = tw_tx w \<and> tw_lockedBy w' = tw_lockedBy w"

lemma same_transactions_refl [simp]: "same_transactions w w"
  by (simp add: same_transactions_def)

lemma same_transactions_trans: "same_transactions a b \<Longrightarrow> same_transactions b c \<Longrightarrow> same_transactions a c"
  by (simp add: same_transactions_def)

lemma run_body_same:
  assumes "\<And>p s. same_transactions (snd s) (snd (snd (body p s)))"
  shows "same_transactions (snd s) (snd (run_body body ps s))"
proof (induction ps arbitrary: s)
  case Nil
  then show ?case by simp
next
  case (Cons p ps)
  obtain stop s' where b: "body p s = (stop, s')" by (cases "body p s")
  with assms [of s p] have "same_transactions (snd s) (snd s')" by simp
  with Cons.IH [of s'] b show ?case by (auto intro: same_transactions_trans)
qed

lemma upd_tx_simps [simp]:
  "tw_tx (upd_tx t f w) u = (if u = t then f (tw_tx w t) else tw_tx w u)"
  "tw_lockedBy (upd_tx t f w) = tw_lockedBy w"
  "tw_env (upd_tx t f w) = tw_env w"
  by (simp_all add: upd_tx_def)

locale quiet_participants =
  fixes ops :: "'e participant_ops"
  assumes preCommit_quiet: "same_transactions w (snd (op_preCommit ops p w))"
    and commit1_quiet: "same_transactions w (snd (op_commit1 ops p w))"
    and commit2_quiet: "same_transactions w (snd (op_commit2 ops p w))"
    and postCommit_quiet: "same_transactions w (snd (op_postCommit ops p w))"
    and rollback_quiet: "same_transactions w (snd (op_rollback ops p w))"
begin

lemma collect_errors_quiet:
  assumes "\<And>p w. same_transactions w (snd (call p w))"
  shows "same_transactions (snd s) (snd (snd (collect_errors call p s)))"
  using assms [of "snd s" p]
  by (cases s; cases "call p (snd s)") (auto simp: collect_errors_def split: sum.split)

lemma commit1_body_quiet: "same_transactions (snd s) (snd (snd (commit1_body ops p s)))"
  using commit1_quiet [of "snd s" p]
  by (cases s; cases "op_commit1 ops p (snd s)") (auto simp: commit1_body_def split: sum.split)

lemma participants_same: "same_transactions w w' \<Longrightarrow> participants_of t w' = participants_of t w"
  by (simp add: same_transactions_def)

lemma loop_total:
  assumes "\<And>p s. same_transactions (snd s) (snd (snd (body p s)))"
  shows "for_participants t body 0 s = Some (run_body body (participants_of t (snd s)) s)"
  using for_participants_run [where t = t and body = body and i = 0 and s = s] participants_same [OF assms] by simp

lemma executeRollback_total:
  "\<exists>res w'. executeRollback ops t w = Some (res, w') \<and> same_transactions (set_status t StShared w) w'"
proof -
  let ?body = "collect_errors (op_rollback ops)" and ?w = "set_status t StRollingBack w"
  note q = collect_errors_quiet [OF rollback_quiet]
  have "same_transactions ?w (snd (run_body ?body (participants_of t ?w) ([], ?w)))"
    using run_body_same [where body = ?body and s = "([], ?w)", OF q] by simp
  with loop_total [OF q, where t = t and s = "([], ?w)"] show ?thesis
    by (auto simp: executeRollback_def same_transactions_def upd_tx_def split: prod.splits)
qed

lemma errorRollback_total:
  "\<exists>w'. errorRollback ops t w = Some (Inl FinalizationError, w') \<and> same_transactions (set_status t StShared w) w'"
proof -
  obtain res w' where "executeRollback ops t w = Some (res, w')" "same_transactions (set_status t StShared w) w'"
    using executeRollback_total by blast
  moreover have "executeRollback ops t w = Some (res, w') \<Longrightarrow> rbind res (\<lambda>_. Inl FinalizationError) = (Inl FinalizationError :: unit result)"
    by (auto simp: executeRollback_def throwIfErrored_def split: if_splits)
  ultimately show ?thesis by (auto simp: errorRollback_def)
qed

text \<open>The pre-commit loop ends; whether it settles or fails, it leaves every lock in place.\<close>

definition settled :: "nat \<Rightarrow> 'e tx_world \<Rightarrow> (unit result \<times> 'e tx_world) option \<Rightarrow> bool" where
  "settled t w r \<longleftrightarrow> (\<exists>res w'. r = Some (res, w') \<and>
     (case res of Inr _ \<Rightarrow> same_transactions w w'
      | Inl e \<Rightarrow> e = FinalizationError \<and> same_transactions (set_status t StShared w) w'))"

lemma same_transactions_status: "same_transactions a b \<Longrightarrow> same_transactions (set_status t st a) (set_status t st b)"
  by (simp add: same_transactions_def upd_tx_def)

lemma settled_trans: "same_transactions w w1 \<Longrightarrow> settled t w1 r \<Longrightarrow> settled t w r"
proof -
  assume q: "same_transactions w w1" and "settled t w1 r"
  then obtain res w' where r: "r = Some (res, w')" and
    res: "case res of Inr _ \<Rightarrow> same_transactions w1 w' | Inl e \<Rightarrow> e = FinalizationError \<and> same_transactions (set_status t StShared w1) w'"
    by (auto simp: settled_def)
  show "settled t w r"
    using r res same_transactions_trans [OF q] same_transactions_trans [OF same_transactions_status [OF q]]
    by (cases res) (auto simp: settled_def)
qed

lemma settled_rollback: "settled t w (errorRollback ops t w)"
  using errorRollback_total [of t w] by (auto simp: settled_def)

lemma preCommit_cycle:
  assumes restart: "\<And>w. cycles + 1 \<le> MAX_PRECOMMIT_CYCLES \<Longrightarrow> settled t w (preCommit_loop ops t 0 False (cycles + 1) w)"
  shows "settled t w (preCommit_loop ops t i mutated cycles w)"
proof (induction "length (participants_of t w) - i" arbitrary: i mutated w)
  case 0
  then show ?case
    using restart [of w] settled_rollback [of t w]
    by (subst preCommit_loop.simps) (auto simp: settled_def)
next
  case (Suc n)
  let ?ps = "participants_of t w"
  have i: "i < length ?ps" using Suc.hyps(2) by linarith
  obtain r w1 where r: "op_preCommit ops (?ps ! i) w = (r, w1)" by (cases "op_preCommit ops (?ps ! i) w")
  have q: "same_transactions w w1" using preCommit_quiet [of w "?ps ! i"] r by simp
  have "n = length (participants_of t w1) - (i + 1)" using Suc.hyps(2) participants_same [OF q] by simp
  note IH = Suc.hyps(1) [OF this]
  show ?case
    using i r settled_trans [OF q settled_rollback [of t w1]] settled_trans [OF q IH]
    by (subst preCommit_loop.simps) (auto split: sum.split)
qed

lemma preCommit_loop_settled: "cycles \<le> MAX_PRECOMMIT_CYCLES \<Longrightarrow> settled t w (preCommit_loop ops t i mutated cycles w)"
proof (induction "MAX_PRECOMMIT_CYCLES - cycles" arbitrary: cycles i mutated w)
  case 0
  have "settled t w' (preCommit_loop ops t 0 False (cycles + 1) w')" if "cycles + 1 \<le> MAX_PRECOMMIT_CYCLES" for w'
    using 0 that by simp
  then show ?case by (rule preCommit_cycle)
next
  case (Suc n)
  have "settled t w' (preCommit_loop ops t 0 False (cycles + 1) w')" if "cycles + 1 \<le> MAX_PRECOMMIT_CYCLES" for w'
    using Suc.hyps(1) [of "cycles + 1"] Suc.hyps(2) that by simp
  then show ?case by (rule preCommit_cycle)
qed

lemma executePreCommit_settled: "settled t w (executePreCommit ops t w)"
  unfolding executePreCommit_def by (rule preCommit_loop_settled) (simp add: MAX_PRECOMMIT_CYCLES_def)

lemma executePostCommit_quiet: "same_transactions w (executePostCommit ops ps w)"
proof (induction ps arbitrary: w)
  case Nil
  then show ?case by simp
next
  case (Cons p ps)
  obtain r w1 where r: "op_postCommit ops p w = (r, w1)" by (cases "op_postCommit ops p w")
  have "same_transactions w w1" using postCommit_quiet [of w p] r by simp
  with r Cons.IH [of w1] show ?case by (auto split: sum.split intro: same_transactions_trans)
qed

lemma executeCommit1_total:
  "\<exists>res w'. executeCommit1 ops t w = Some (res, w') \<and>
    (case res of Inr _ \<Rightarrow> same_transactions w w' | Inl e \<Rightarrow> e = FinalizationError \<and> same_transactions (set_status t StShared w) w')"
proof -
  obtain nr w1 where run: "run_body (commit1_body ops) (participants_of t w) (False, w) = (nr, w1)" by fastforce
  have q: "same_transactions w w1"
    using run_body_same [where body = "commit1_body ops" and s = "(False, w)" and ps = "participants_of t w", OF commit1_body_quiet] run by simp
  have loop: "for_participants t (commit1_body ops) 0 (False, w) = Some (nr, w1)"
    using loop_total [OF commit1_body_quiet, where t = t and s = "(False, w)"] run by simp
  obtain w2 where "errorRollback ops t w1 = Some (Inl FinalizationError, w2)" "same_transactions (set_status t StShared w1) w2"
    using errorRollback_total by blast
  with q loop show ?thesis
    using same_transactions_trans [OF same_transactions_status [OF q]]
    by (cases nr) (auto simp: executeCommit1_def errorRollback_def)
qed

lemma executeCommit2_total:
  "\<exists>res w'. executeCommit2 ops t w = Some (res, w') \<and> same_transactions (set_status t StCommittingPhaseTwo w) w'"
proof -
  let ?body = "collect_errors (op_commit2 ops)" and ?w = "set_status t StCommittingPhaseTwo w"
  note q = collect_errors_quiet [OF commit2_quiet]
  have "same_transactions ?w (snd (run_body ?body (participants_of t ?w) ([], ?w)))"
    using run_body_same [where body = ?body and s = "([], ?w)", OF q] by simp
  with loop_total [OF q, where t = t and s = "([], ?w)"] show ?thesis
    by (auto simp: executeCommit2_def split: prod.splits)
qed

end

section \<open>Two phase commit\<close>

text \<open>Participants whose callbacks work on their own data only.\<close>

record 'e env_ops =
  ev_role :: "nat \<Rightarrow> nat option"
  ev_name :: "nat \<Rightarrow> nat"
  ev_preCommit :: "nat \<Rightarrow> 'e \<Rightarrow> bool result \<times> 'e"
  ev_commit1 :: "nat \<Rightarrow> 'e \<Rightarrow> unit result \<times> 'e"
  ev_commit2 :: "nat \<Rightarrow> 'e \<Rightarrow> unit result \<times> 'e"
  ev_postCommit :: "nat \<Rightarrow> 'e \<Rightarrow> unit result \<times> 'e"
  ev_rollback :: "nat \<Rightarrow> 'e \<Rightarrow> unit result \<times> 'e"

definition on_env :: "(nat \<Rightarrow> 'e \<Rightarrow> 'r \<times> 'e) \<Rightarrow> nat \<Rightarrow> 'e tx_world \<Rightarrow> 'r \<times> 'e tx_world" where
  "on_env f p w = (case f p (tw_env w) of (r, env) \<Rightarrow> (r, w\<lparr>tw_env := env\<rparr>))"

definition env_participants :: "'e env_ops \<Rightarrow> 'e participant_ops" where
  "env_participants eo =
     \<lparr>op_role = ev_role eo, op_name = ev_name eo, op_preCommit = on_env (ev_preCommit eo),
      op_commit1 = on_env (ev_commit1 eo), op_commit2 = on_env (ev_commit2 eo),
      op_postCommit = on_env (ev_postCommit eo), op_rollback = on_env (ev_rollback eo)\<rparr>"

lemma on_env_quiet [simp]: "same_transactions w (snd (on_env f p w))"
  by (simp add: on_env_def same_transactions_def split: prod.split)

interpretation env: quiet_participants "env_participants eo" for eo
  by unfold_locales (simp_all add: env_participants_def)

text \<open>The specification: what the participants see of a commit.\<close>

fun run_all :: "(nat \<Rightarrow> 'e \<Rightarrow> unit result \<times> 'e) \<Rightarrow> nat list \<Rightarrow> 'e \<Rightarrow> nat list \<times> 'e" where
  "run_all f [] env = ([], env)"
| "run_all f (p # ps) env =
     (case f p env of (r, env) \<Rightarrow>
        (case run_all f ps env of (errored, env) \<Rightarrow> (if is_ok r then errored else p # errored, env)))"

fun run_until_error :: "(nat \<Rightarrow> 'e \<Rightarrow> unit result \<times> 'e) \<Rightarrow> nat list \<Rightarrow> 'e \<Rightarrow> bool \<times> 'e" where
  "run_until_error f [] env = (False, env)"
| "run_until_error f (p # ps) env =
     (case f p env of (r, env) \<Rightarrow> if is_ok r then run_until_error f ps env else (True, env))"

fun run_post :: "(nat \<Rightarrow> 'e \<Rightarrow> unit result \<times> 'e) \<Rightarrow> nat list \<Rightarrow> 'e \<Rightarrow> 'e" where
  "run_post f ps env = snd (run_until_error f ps env)"

definition commit_spec :: "'e env_ops \<Rightarrow> nat list \<Rightarrow> 'e \<Rightarrow> unit result \<times> 'e" where
  "commit_spec eo ps env =
     (let (failed, env1) = run_until_error (ev_commit1 eo) ps env in
      if failed then (Inl FinalizationError, snd (run_all (ev_rollback eo) ps env1))
      else let (errored, env2) = run_all (ev_commit2 eo) ps env1 in
           if errored = [] then (Inr (), run_post (ev_postCommit eo) ps env2)
           else (Inl FinalizationError, env2))"

lemma run_collect_errors:
  "run_body (collect_errors (on_env f)) ps (errored, w) =
     (case run_all f ps (tw_env w) of (errs, env) \<Rightarrow> (errored @ errs, w\<lparr>tw_env := env\<rparr>))"
proof (induction ps arbitrary: errored w)
  case Nil
  then show ?case by simp
next
  case (Cons p ps)
  obtain r env where r: "f p (tw_env w) = (r, env)" by fastforce
  show ?case
    using r Cons.IH by (cases r) (auto simp: collect_errors_def on_env_def split: prod.split)
qed

lemma run_commit1_body:
  "run_body (commit1_body ops) ps (False, w) =
     (case run_until_error f ps (tw_env w) of (failed, env) \<Rightarrow> (failed, w\<lparr>tw_env := env\<rparr>))"
  if "op_commit1 ops = on_env f"
proof (induction ps arbitrary: w)
  case Nil
  then show ?case by simp
next
  case (Cons p ps)
  obtain r env where r: "f p (tw_env w) = (r, env)" by fastforce
  show ?case
    using r Cons.IH that by (cases r) (auto simp: commit1_body_def on_env_def split: prod.split)
qed

lemma executePostCommit_env:
  "op_postCommit ops = on_env f \<Longrightarrow> executePostCommit ops ps w = w\<lparr>tw_env := run_post f ps (tw_env w)\<rparr>"
proof (induction ps arbitrary: w)
  case Nil
  then show ?case by simp
next
  case (Cons p ps)
  obtain r env where r: "f p (tw_env w) = (r, env)" by fastforce
  then show ?case
    using Cons by (cases r) (auto simp: on_env_def)
qed

lemma env_participants_simps [simp]:
  "op_preCommit (env_participants eo) = on_env (ev_preCommit eo)"
  "op_commit1 (env_participants eo) = on_env (ev_commit1 eo)"
  "op_commit2 (env_participants eo) = on_env (ev_commit2 eo)"
  "op_postCommit (env_participants eo) = on_env (ev_postCommit eo)"
  "op_rollback (env_participants eo) = on_env (ev_rollback eo)"
  "op_role (env_participants eo) = ev_role eo"
  "op_name (env_participants eo) = ev_name eo"
  by (simp_all add: env_participants_def)

lemma executeRollback_env:
  "executeRollback (env_participants eo) t w =
     (case run_all (ev_rollback eo) (participants_of t w) (tw_env w) of (errored, env) \<Rightarrow>
        Some (throwIfErrored errored, set_status t StShared (w\<lparr>tw_env := env\<rparr>)))"
proof -
  let ?w = "set_status t StRollingBack w"
  have "for_participants t (collect_errors (on_env (ev_rollback eo))) 0 ([], ?w) =
      Some (run_body (collect_errors (on_env (ev_rollback eo))) (participants_of t ?w) ([], ?w))"
    using env.loop_total [OF env.collect_errors_quiet [OF on_env_quiet], where t = t and s = "([], ?w)"] by simp
  then show ?thesis
    by (auto simp: executeRollback_def run_collect_errors upd_tx_def split: prod.split)
qed

lemma executeCommit_env:
  assumes "participants_of t w = ps"
  shows "\<exists>w'. executeCommit (env_participants eo) t w =
      Some (fst (commit_spec eo ps (tw_env w)), w') \<and> tw_lockedBy w' = tw_lockedBy w \<and>
      (\<forall>u. (tw_tx w' u)\<lparr>tx_status := StShared\<rparr> = (tw_tx w u)\<lparr>tx_status := StShared\<rparr>) \<and>
      (\<forall>u. u \<noteq> t \<longrightarrow> tw_tx w' u = tw_tx w u) \<and>
      (case fst (commit_spec eo ps (tw_env w)) of
         Inl _ \<Rightarrow> tw_env w' = snd (commit_spec eo ps (tw_env w))
       | Inr _ \<Rightarrow> run_post (ev_postCommit eo) ps (tw_env w') = snd (commit_spec eo ps (tw_env w)))"
proof -
  let ?ops = "env_participants eo"
  obtain failed env1 where 1: "run_until_error (ev_commit1 eo) ps (tw_env w) = (failed, env1)" by fastforce
  have c1: "for_participants t (commit1_body ?ops) 0 (False, w) = Some (failed, w\<lparr>tw_env := env1\<rparr>)"
    using env.loop_total [OF env.commit1_body_quiet, where t = t and s = "(False, w)"] 1 assms
    by (simp add: run_commit1_body [of _ "ev_commit1 eo"])
  show ?thesis
  proof (cases failed)
    case True
    obtain errs env2 where "run_all (ev_rollback eo) ps env1 = (errs, env2)" by fastforce
    with True c1 1 assms show ?thesis
      by (auto simp: executeCommit_def executeCommit1_def executeRollback_env commit_spec_def throwIfErrored_def)
  next
    case False
    let ?w = "set_status t StCommittingPhaseTwo (w\<lparr>tw_env := env1\<rparr>)"
    obtain errs env2 where 2: "run_all (ev_commit2 eo) ps env1 = (errs, env2)" by fastforce
    have "for_participants t (collect_errors (on_env (ev_commit2 eo))) 0 ([], ?w) = Some (errs, ?w\<lparr>tw_env := env2\<rparr>)"
      using env.loop_total [OF env.collect_errors_quiet [OF on_env_quiet], where t = t and s = "([], ?w)"] 2 assms
      by (simp add: run_collect_errors)
    with False c1 1 2 show ?thesis
      by (auto simp: executeCommit_def executeCommit1_def executeCommit2_def commit_spec_def throwIfErrored_def)
  qed
qed

lemma fold_locks:
  "fold (\<lambda>r l. l(r := v)) rs l = (\<lambda>r. if r \<in> set rs then v else l r)"
  by (induction rs arbitrary: l) auto

lemma releaseLocks_locks:
  "tw_lockedBy (snd (releaseLocks t rs w)) = (\<lambda>r. if r \<in> set rs \<and> tw_lockedBy w r = Some t then None else tw_lockedBy w r)"
  by (auto simp: releaseLocks_def fold_locks Let_def)

lemma emit_shared_simps [simp]:
  "tw_lockedBy (emit_shared t w) = tw_lockedBy w"
  "tw_env (emit_shared t w) = tw_env w"
  "tx_status (tw_tx (emit_shared t w) u) = tx_status (tw_tx w u)"
  "tx_participants (tw_tx (emit_shared t w) u) = tx_participants (tw_tx w u)"
  "tx_roles (tw_tx (emit_shared t w) u) = tx_roles (tw_tx w u)"
  "tx_resources (tw_tx (emit_shared t w) u) = tx_resources (tw_tx w u)"
  by (simp_all add: emit_shared_def Let_def split: option.split)

lemma releaseLocks_simps [simp]:
  "tw_tx (snd (releaseLocks t rs w)) = tw_tx w"
  "tw_env (snd (releaseLocks t rs w)) = tw_env w"
  by (simp_all add: releaseLocks_def Let_def)

lemma cleanup_simps [simp]:
  "tw_env (cleanup t w) = tw_env w"
  "tx_status (tw_tx (cleanup t w) u) = (if u = t then StShared else tx_status (tw_tx w u))"
  "tx_participants (tw_tx (cleanup t w) u) = (if u = t then [] else tx_participants (tw_tx w u))"
  "tx_roles (tw_tx (cleanup t w) u) = tx_roles (tw_tx w u)"
  "tx_resources (tw_tx (cleanup t w) u) = tx_resources (tw_tx w u)"
  "tw_lockedBy (cleanup t w) r =
     (if r \<in> set (new_ResourceSet (tx_resources (tw_tx w t))) \<and> tw_lockedBy w r = Some t then None else tw_lockedBy w r)"
  by (simp_all add: cleanup_def releaseLocks_locks Let_def)

text \<open>A commit whose pre-commit phase has settled, on every field of the state.\<close>

lemma commit_outcome:
  assumes "status_of t w = StExclusive" and "executePreCommit (env_participants eo) t w = Some (Inr (), w1)"
  defines "spec \<equiv> commit_spec eo (participants_of t w) (tw_env w1)"
  shows "\<exists>w'. tx_commit (env_participants eo) t w = Some (fst spec, w') \<and> tw_env w' = snd spec \<and>
    status_of t w' = StShared \<and> participants_of t w' = [] \<and> tx_roles (tw_tx w' t) = tx_roles (tw_tx w t) \<and>
    (\<forall>r. tw_lockedBy w' r = (if r \<in> set (new_ResourceSet (tx_resources (tw_tx w t))) \<and> tw_lockedBy w r = Some t
       then None else tw_lockedBy w r))"
proof -
  let ?ops = "env_participants eo" and ?ps = "participants_of t w"
  have q: "same_transactions w w1"
    using env.executePreCommit_settled [where t = t and w = w and eo = eo] assms(2) by (auto simp: env.settled_def)
  then have tx: "tw_tx w1 = tw_tx w" and locks: "tw_lockedBy w1 = tw_lockedBy w" by (simp_all add: same_transactions_def)
  let ?w1 = "set_status t StCommittingPhaseOne w1"
  have ps: "participants_of t ?w1 = ?ps" by (simp add: tx)
  obtain w2 where w2: "executeCommit ?ops t ?w1 = Some (fst spec, w2)" "tw_lockedBy w2 = tw_lockedBy w"
    "\<forall>u. (tw_tx w2 u)\<lparr>tx_status := StShared\<rparr> = (tw_tx ?w1 u)\<lparr>tx_status := StShared\<rparr>"
    "case fst spec of Inl _ \<Rightarrow> tw_env w2 = snd spec | Inr _ \<Rightarrow> run_post (ev_postCommit eo) ?ps (tw_env w2) = snd spec"
    using executeCommit_env [OF ps, where eo = eo, unfolded upd_tx_simps(3), folded spec_def] locks by auto
  have "tx_resources (tw_tx w2 t) = tx_resources (tw_tx w t)" "tx_roles (tw_tx w2 t) = tx_roles (tw_tx w t)"
    using w2(3) [rule_format, of t] tx by (auto dest: arg_cong [where f = tx_resources] arg_cong [where f = tx_roles])
  moreover have "tx_commit ?ops t w = Some (fst spec,
      case fst spec of Inl _ \<Rightarrow> cleanup t w2 | Inr _ \<Rightarrow> executePostCommit ?ops ?ps (cleanup t w2))"
    using assms(1,2) w2(1) by (simp add: tx_commit_def assertAvailable_def performCommit_def finalize_def tx split: sum.split)
  ultimately show ?thesis
    using w2(2,4) by (cases "fst spec") (auto simp: executePostCommit_env)
qed

section \<open>A concrete run\<close>

text \<open>
  Participants that log their calls, with one of them failing in the named phase; a transaction with
  two participants and one locked resource.
\<close>

definition log_call :: "nat \<Rightarrow> nat option \<Rightarrow> nat \<Rightarrow> (nat \<times> nat) list \<Rightarrow> unit result \<times> (nat \<times> nat) list" where
  "log_call phase bad p env = (if bad = Some p then Inl FinalizationError else Inr (), env @ [(phase, p)])"

definition log_ops :: "nat option \<Rightarrow> nat option \<Rightarrow> (nat \<times> nat) list env_ops" where
  "log_ops badPre bad1 =
     \<lparr>ev_role = (\<lambda>p. Some (p + 10)), ev_name = id,
      ev_preCommit = (\<lambda>p env. (if badPre = Some p then Inl FinalizationError else Inr False, env)),
      ev_commit1 = log_call 1 bad1, ev_commit2 = log_call 2 None, ev_postCommit = log_call 3 None,
      ev_rollback = log_call 4 None\<rparr>"

definition run_world :: "(nat \<times> nat) list tx_world" where
  "run_world =
     \<lparr>tw_tx = (\<lambda>_. new_Tx False)(0 :=
        \<lparr>tx_status = StExclusive, tx_participants = [1, 2], tx_roles = [11 \<mapsto> 1, 12 \<mapsto> 2],
         tx_resources = [StandIn 9 (Resource 7)], tx_waitingOn = None\<rparr>,
        1 := (new_Tx False)\<lparr>tx_resources := [Resource 7]\<rparr>),
      tw_lockedBy = [7 \<mapsto> 0], tw_env = []\<rparr>"

lemmas run_defs = run_world_def log_ops_def log_call_def env_participants_def on_env_def

lemma run_precommit: "executePreCommit (env_participants (log_ops None bad)) 0 run_world = Some (Inr (), run_world)"
  by (simp add: executePreCommit_def preCommit_loop.simps run_defs)

text \<open>
  C30. Two phase commit of an exclusive transaction.  The pre-commit phase always ends.  When it fails, the commit reports that, no participant sees
  phase one, the transaction is shared again, and its participants and all locks are as they were: its own locks stay.  When it settles, the participants
  see phase one in order up to
  the first failure; if there is one, all of them are rolled back and none sees phase two, otherwise
  all of them see phase two.  In either case the call reports it, the transaction is shared again,
  its locks are free, and no lock of another transaction has changed.
\<close>

theorem commit_two_phase:
  assumes "status_of t w = StExclusive"
  shows "\<exists>pre w1. executePreCommit (env_participants eo) t w = Some (pre, w1) \<and> (case pre of
      Inl e \<Rightarrow> e = FinalizationError \<and> tx_commit (env_participants eo) t w = Some (Inl e, w1) \<and> status_of t w1 = StShared \<and>
        participants_of t w1 = participants_of t w \<and> tw_lockedBy w1 = tw_lockedBy w
    | Inr _ \<Rightarrow> \<exists>w'. tx_commit (env_participants eo) t w = Some (fst (commit_spec eo (participants_of t w) (tw_env w1)), w') \<and>
        tw_env w' = snd (commit_spec eo (participants_of t w) (tw_env w1)) \<and>
        status_of t w' = StShared \<and> participants_of t w' = [] \<and>
        (\<forall>r. tw_lockedBy w' r = (if r \<in> set (new_ResourceSet (tx_resources (tw_tx w t))) \<and> tw_lockedBy w r = Some t
           then None else tw_lockedBy w r)))"
proof -
  obtain pre w1 where p: "executePreCommit (env_participants eo) t w = Some (pre, w1)"
    and st: "case pre of Inr _ \<Rightarrow> same_transactions w w1
      | Inl e \<Rightarrow> e = FinalizationError \<and> same_transactions (set_status t StShared w) w1"
    using env.executePreCommit_settled [where t = t and w = w and eo = eo] by (auto simp: env.settled_def)
  show ?thesis
  proof (cases pre)
    case (Inl e)
    with p st assms show ?thesis by (simp add: tx_commit_def assertAvailable_def same_transactions_def)
  next
    case (Inr x)
    with p commit_outcome [OF assms, of eo w1] show ?thesis by (auto simp del: split_paired_Ex)
  qed
qed

theorem commit_two_phase_witness:
  "\<exists>w'. tx_commit (env_participants (log_ops None (Some 2))) 0 run_world = Some (Inl FinalizationError, w') \<and>
     tw_env w' = [(1, 1), (1, 2), (4, 1), (4, 2)] \<and> status_of 0 w' = StShared \<and> tw_lockedBy w' 7 = None"
proof -
  have spec: "commit_spec (log_ops None (Some 2)) (participants_of 0 run_world) (tw_env run_world) =
      (Inl FinalizationError, [(1, 1), (1, 2), (4, 1), (4, 2)])"
    by (simp add: run_defs commit_spec_def)
  have "status_of 0 run_world = StExclusive"
    and "7 \<in> set (new_ResourceSet (tx_resources (tw_tx run_world 0)))" "tw_lockedBy run_world 7 = Some 0"
    by (simp_all add: run_defs new_ResourceSet_def set_add_def)
  with commit_two_phase [where t = 0 and w = run_world and eo = "log_ops None (Some 2)"] run_precommit [of "Some 2"] spec show ?thesis by auto
qed

text \<open>
  A role outlives its participant: after a commit the transaction has no participants, but
  \<^verbatim>\<open>getParticipant\<close> still returns the old one for its role, so code that looks a participant up
  before registering one does not register it again, and the next commit does not call it.
\<close>

theorem role_survives_commit:
  assumes "status_of t w = StExclusive" and "executePreCommit (env_participants eo) t w = Some (Inr (), w1)"
    and "tx_roles (tw_tx w t) role = Some p"
  shows "\<exists>res w'. tx_commit (env_participants eo) t w = Some (res, w') \<and> getParticipant t role w' = Inr (Some p) \<and>
    p \<notin> set (participants_of t w')"
proof -
  obtain res w' where w': "tx_commit (env_participants eo) t w = Some (res, w')" "status_of t w' = StShared"
    "participants_of t w' = []" "tx_roles (tw_tx w' t) = tx_roles (tw_tx w t)"
    using commit_outcome [OF assms(1,2)] by blast
  then have "getParticipant t role w' = Inr (Some p)"
    using assms(3) by (simp add: getParticipant_def assertAvailable_def)
  with w'(1,3) show ?thesis by simp
qed

theorem role_survives_commit_witness:
  "\<exists>res w'. tx_commit (env_participants (log_ops None None)) 0 run_world = Some (res, w') \<and>
     getParticipant 0 11 w' = Inr (Some 1) \<and> 1 \<notin> set (participants_of 0 w')"
  by (rule role_survives_commit [OF _ run_precommit]) (simp_all add: run_defs)

lemma act_commit_error:
  assumes "actor (upd_tx t (\<lambda>_. new_Tx False) w) = (Inr v, w1)" and "status_of t w1 = StExclusive"
    and "executePreCommit ops t w1 = Some (Inl e, w2)"
  shows "act ops t actor w = Some (Inl e, tx_close t w2)"
  using assms by (simp add: act_def MAX_CHAINED_COMMITS_def tx_commit_def assertAvailable_def numeral_eq_Suc)

lemma act_rollback:
  assumes "actor (upd_tx t (\<lambda>_. new_Tx False) w) = (Inl e, w1)" and "tx_rollback ops t w1 = Some (res, w2)"
  shows "act ops t actor w = Some (Inl e, tx_close t w2)"
  using assms by (simp add: act_def)

lemma acquireLocksSync_blocked:
  assumes "r \<in> set rs" and "tw_lockedBy w r = Some u" and "u \<noteq> t"
  shows "acquireLocksSync t rs w = (Inl SynchronousTransactionConflictError, w)"
  using assms by (auto simp: acquireLocksSync_def Let_def filter_empty_conv)

text \<open>
  A pre-commit failure leaves locks behind for good: when the pre-commit phase of the transaction
  of an \<^verbatim>\<open>act\<close> fails, the participants are rolled back and the transaction is destroyed, but its
  locks are not released; every other transaction that needs one of these resources fails.
\<close>

theorem precommit_error_leaks_locks:
  assumes "actor (upd_tx t (\<lambda>_. new_Tx False) w) = (Inr v, w1)" and "status_of t w1 = StExclusive"
    and "executePreCommit (env_participants eo) t w1 = Some (Inl e, w2)" and "tw_lockedBy w1 r = Some t"
  shows "\<exists>w'. act (env_participants eo) t actor w = Some (Inl e, w') \<and> status_of t w' = StDestroyed \<and>
    tw_lockedBy w' r = Some t \<and>
    (\<forall>u. u \<noteq> t \<and> status_of u w' = StShared \<and> r \<in> set (new_ResourceSet (tx_resources (tw_tx w' u))) \<longrightarrow>
       fst (beginSync u w') = Inl SynchronousTransactionConflictError)"
proof -
  have "same_transactions (set_status t StShared w1) w2"
    using env.executePreCommit_settled [where t = t and w = w1 and eo = eo] assms(3) by (auto simp: env.settled_def)
  then have l: "tw_lockedBy w2 r = Some t" using assms(4) by (simp add: same_transactions_def)
  have "fst (beginSync u (tx_close t w2)) = Inl SynchronousTransactionConflictError"
    if "u \<noteq> t" "status_of u w2 = StShared" "r \<in> set (new_ResourceSet (tx_resources (tw_tx w2 u)))" for u
    using that l by (simp add: beginSync_def assertAvailable_def tx_close_def acquireLocksSync_blocked)
  with act_commit_error [where actor = actor, OF assms(1-3)] l show ?thesis
    by (auto simp: tx_close_def)
qed

theorem precommit_error_leaks_locks_witness:
  "\<exists>w'. act (env_participants (log_ops (Some 2) None)) 0 (\<lambda>_. (Inr (), run_world)) run_world = Some (Inl FinalizationError, w') \<and>
     tw_lockedBy w' 7 = Some 0 \<and> fst (beginSync 1 w') = Inl SynchronousTransactionConflictError"
proof -
  let ?ops = "env_participants (log_ops (Some 2) None)" and ?actor = "\<lambda>_. (Inr (), run_world)"
  let ?w2 = "run_world\<lparr>tw_env := [(4, 1), (4, 2)], tw_tx := tw_tx (set_status 0 StShared run_world)\<rparr>"
  have pre: "executePreCommit ?ops 0 run_world = Some (Inl FinalizationError, ?w2)"
    by (simp add: executePreCommit_def preCommit_loop.simps errorRollback_def executeRollback_def for_participants.simps
        collect_errors_def throwIfErrored_def run_defs upd_tx_def)
  have x: "status_of 0 run_world = StExclusive" "tw_lockedBy run_world 7 = Some 0" by (simp_all add: run_world_def)
  have y: "status_of 1 (tx_close 0 ?w2) = StShared" "7 \<in> set (new_ResourceSet (tx_resources (tw_tx (tx_close 0 ?w2) 1)))"
    by (simp_all add: run_world_def tx_close_def upd_tx_def new_Tx_def new_ResourceSet_def set_add_def)
  have "act ?ops 0 ?actor run_world = Some (Inl FinalizationError, tx_close 0 ?w2)"
    by (rule act_commit_error [where actor = ?actor, OF refl x(1) pre])
  with precommit_error_leaks_locks [where actor = ?actor and w = run_world, OF refl x(1) pre x(2)] y
  show ?thesis by auto
qed

end
