(* ===== verification/TxLocks.thy ===== *)
theory TxLocks
  imports Transactions
begin

text \<open>
  Waiting for locks: the asynchronous operations \<^verbatim>\<open>begin\<close> and \<^verbatim>\<open>addResources\<close> of \<^verbatim>\<open>Tx.ts\<close>, \<^verbatim>\<open>acquireLocks\<close> and the
  deadlock detection of \<^verbatim>\<open>ResourceSet.ts\<close>.

  An asynchronous function runs without interruption between two \<^verbatim>\<open>await\<close>s, so it is one definition per
  section; a \<open>pending\<close> operation says where it continues.  The step relation \<open>lock_step\<close> interleaves the
  sections of all transactions with the synchronous operations of \<open>Transactions\<close>; commit, rollback and close may come at
  any time, also while a begin of the transaction is outstanding.  The one assumption on the
  clients is that an operation does not have to wait for locks while an earlier operation of the same transaction is suspended; calls that return at once
  may come then.  An \<open>orderly_step\<close> is one after which no transaction has fallen back from waiting to shared under
  its outstanding begin; only a commit that fails in its pre-commit phase does that.
\<close>

section \<open>Deadlock detection\<close>

text \<open>
  The loop over \<^verbatim>\<open>transaction.waitingOn\<close> in \<^verbatim>\<open>examineBlocker\<close>, with the recursive call in its body; the
  result carries the transactions examined so far.
\<close>

partial_function (option) examine_waits ::
  "(nat \<Rightarrow> nat list option) \<Rightarrow> nat \<Rightarrow> nat list \<Rightarrow> nat list \<Rightarrow> nat list result option" where
  "examine_waits waitingOn me blockers examined =
     (case blockers of
        [] \<Rightarrow> Some (Inr examined)
      | b # bs \<Rightarrow>
          if b \<in> set examined then examine_waits waitingOn me bs examined
          else Option.bind
            (if b = me then Some (Inl TransactionDeadlockError)
             else case waitingOn b of
                    None \<Rightarrow> Some (Inr (set_add b examined))
                  | Some others \<Rightarrow> examine_waits waitingOn me others (set_add b examined))
            (\<lambda>r. case r of Inl e \<Rightarrow> Some (Inl e) | Inr examined \<Rightarrow> examine_waits waitingOn me bs examined))"

definition examineBlocker ::
  "(nat \<Rightarrow> nat list option) \<Rightarrow> nat \<Rightarrow> nat \<Rightarrow> nat list \<Rightarrow> nat list result option" where
  "examineBlocker waitingOn me transaction examined =
     (if transaction = me then Some (Inl TransactionDeadlockError)
      else case waitingOn transaction of
             None \<Rightarrow> Some (Inr (set_add transaction examined))
           | Some others \<Rightarrow> examine_waits waitingOn me others (set_add transaction examined))"

fun examine_each :: "(nat \<Rightarrow> nat list option) \<Rightarrow> nat \<Rightarrow> nat list \<Rightarrow> nat list \<Rightarrow> unit result option" where
  "examine_each waitingOn me [] examined = Some (Inr ())"
| "examine_each waitingOn me (b # bs) examined =
     Option.bind (examineBlocker waitingOn me b examined) (\<lambda>r.
       case r of Inl e \<Rightarrow> Some (Inl e) | Inr examined \<Rightarrow> examine_each waitingOn me bs examined)"

abbreviation waitingOn_of :: "'e tx_world \<Rightarrow> nat \<Rightarrow> nat list option" where
  "waitingOn_of w u \<equiv> tx_waitingOn (tw_tx w u)"

definition detectDeadlock :: "nat \<Rightarrow> nat list \<Rightarrow> 'e tx_world \<Rightarrow> unit result option" where
  "detectDeadlock t blockedBy w = examine_each (waitingOn_of w) t blockedBy []"

section \<open>Waiting and locking\<close>

definition waitFor :: "nat \<Rightarrow> nat list \<Rightarrow> 'e tx_world \<Rightarrow> unit result \<times> 'e tx_world" where
  "waitFor t others w =
     (case assertAvailable t w of
        Inl e \<Rightarrow> (Inl e, w)
      | Inr _ \<Rightarrow>
          if waitingOn_of w t \<noteq> None then (Inl TransactionFlowError, w)
          else (Inr (), upd_tx t (\<lambda>x. x\<lparr>tx_waitingOn := Some others\<rparr>) w))"

definition blockers :: "nat \<Rightarrow> nat list \<Rightarrow> 'e tx_world \<Rightarrow> nat list" where
  "blockers t resources w =
     fold (\<lambda>r s. case tw_lockedBy w r of None \<Rightarrow> s | Some u \<Rightarrow> if u = t then s else set_add u s) resources []"

text \<open>Where an asynchronous operation continues: it waits for others, it has failed, or it has the locks.\<close>

datatype stage = Waits | Fails matter_error | Locked

definition acquireLocks_round :: "nat \<Rightarrow> nat list \<Rightarrow> 'e tx_world \<Rightarrow> (stage \<times> 'e tx_world) option" where
  "acquireLocks_round t resources w =
     (let blockedBy = blockers t resources w in
      if blockedBy = [] then
        Some (case acquireLocksSync t resources w of (Inl e, w) \<Rightarrow> (Fails e, w) | (Inr _, w) \<Rightarrow> (Locked, w))
      else
        map_option (\<lambda>res. case res of
            Inl e \<Rightarrow> (Fails e, w)
          | Inr _ \<Rightarrow> (case waitFor t blockedBy w of (Inl e, w) \<Rightarrow> (Fails e, w) | (Inr _, w) \<Rightarrow> (Waits, w)))
          (detectDeadlock t blockedBy w))"

datatype pending =
    PBegin "nat list" stage
  | PAdd "resource list" stage

primrec pending_set :: "pending \<Rightarrow> nat list" where
  "pending_set (PBegin rs _) = rs"
| "pending_set (PAdd resources _) = new_ResourceSet resources"

primrec pending_stage :: "pending \<Rightarrow> stage" where
  "pending_stage (PBegin _ st) = st"
| "pending_stage (PAdd _ st) = st"

primrec set_stage :: "stage \<Rightarrow> pending \<Rightarrow> pending" where
  "set_stage st (PBegin rs _) = PBegin rs st"
| "set_stage st (PAdd resources _) = PAdd resources st"

text \<open>What a call of an asynchronous operation gives up to its first \<^verbatim>\<open>await\<close>.\<close>

datatype progress = Returns "unit result" | Suspends pending

definition begin_start :: "nat \<Rightarrow> 'e tx_world \<Rightarrow> (progress \<times> 'e tx_world) option" where
  "begin_start t w =
     (case assertAvailable t w of
        Inl e \<Rightarrow> Some (Returns (Inl e), w)
      | Inr _ \<Rightarrow>
          if status_of t w = StExclusive then Some (Returns (Inr ()), w)
          else if status_of t w \<noteq> StShared then Some (Returns (Inl TransactionFlowError), w)
          else let w = set_status t StWaiting w; resources = new_ResourceSet (tx_resources (tw_tx w t)) in
               map_option (\<lambda>(st, w). (Suspends (PBegin resources st), w)) (acquireLocks_round t resources w))"

definition addResources_start :: "nat \<Rightarrow> resource list \<Rightarrow> 'e tx_world \<Rightarrow> (progress \<times> 'e tx_world) option" where
  "addResources_start t resources w =
     (case assertAvailable t w of
        Inl e \<Rightarrow> Some (Returns (Inl e), w)
      | Inr _ \<Rightarrow>
          if status_of t w = StExclusive then
            map_option (\<lambda>(st, w). (Suspends (PAdd resources st), w)) (acquireLocks_round t (new_ResourceSet resources) w)
          else Some (case addResourcesSync t resources w of (res, w) \<Rightarrow> (Returns res, w)))"

text \<open>When the awaited transactions are done: the \<^verbatim>\<open>finally\<close> of \<^verbatim>\<open>waitFor\<close>, then the next round of the loop.\<close>

definition acquireLocks_resume :: "nat \<Rightarrow> nat list \<Rightarrow> 'e tx_world \<Rightarrow> (stage \<times> 'e tx_world) option" where
  "acquireLocks_resume t resources w =
     acquireLocks_round t resources (upd_tx t (\<lambda>x. x\<lparr>tx_waitingOn := None\<rparr>) w)"

text \<open>The rest of the operation after \<^verbatim>\<open>await acquireLocks()\<close>.\<close>

definition begin_finish :: "nat \<Rightarrow> stage \<Rightarrow> 'e tx_world \<Rightarrow> unit result \<times> 'e tx_world" where
  "begin_finish t st w =
     (case st of
        Fails e \<Rightarrow> (Inl e, set_status t StShared w)
      | _ \<Rightarrow> (Inr (), set_status t StExclusive w))"

definition addResources_finish :: "nat \<Rightarrow> resource list \<Rightarrow> stage \<Rightarrow> 'e tx_world \<Rightarrow> unit result \<times> 'e tx_world" where
  "addResources_finish t resources st w =
     (case st of Fails e \<Rightarrow> (Inl e, w) | _ \<Rightarrow> addResourcesSync t resources w)"

primrec pending_finish :: "nat \<Rightarrow> pending \<Rightarrow> 'e tx_world \<Rightarrow> unit result \<times> 'e tx_world" where
  "pending_finish t (PBegin _ st) w = begin_finish t st w"
| "pending_finish t (PAdd resources st) w = addResources_finish t resources st w"

section \<open>Interleaving\<close>

record 'e lock_state =
  ls_world :: "'e tx_world"
  ls_pending :: "nat \<rightharpoonup> pending"

definition returns :: "progress \<Rightarrow> bool" where
  "returns r \<longleftrightarrow> (case r of Returns _ \<Rightarrow> True | Suspends _ \<Rightarrow> False)"

definition after_start :: "nat \<Rightarrow> progress \<Rightarrow> 'e tx_world \<Rightarrow> 'e lock_state \<Rightarrow> 'e lock_state" where
  "after_start t r w s =
     s\<lparr>ls_world := w, ls_pending := (case r of Returns _ \<Rightarrow> ls_pending s | Suspends p \<Rightarrow> (ls_pending s)(t \<mapsto> p))\<rparr>"

inductive lock_step :: "'e env_ops \<Rightarrow> 'e lock_state \<Rightarrow> 'e lock_state \<Rightarrow> bool" for eo where
  st_begin: "begin_start t (ls_world s) = Some (r, w) \<Longrightarrow> ls_pending s t = None \<or> returns r \<Longrightarrow> lock_step eo s (after_start t r w s)"
| st_addResources: "addResources_start t resources (ls_world s) = Some (r, w) \<Longrightarrow> ls_pending s t = None \<or> returns r \<Longrightarrow>
    lock_step eo s (after_start t r w s)"
| st_resume: "ls_pending s t = Some p \<Longrightarrow> pending_stage p = Waits \<Longrightarrow> waitingOn_of (ls_world s) t = None \<Longrightarrow>
    acquireLocks_resume t (pending_set p) (ls_world s) = Some (st, w) \<Longrightarrow>
    lock_step eo s (s\<lparr>ls_world := w, ls_pending := (ls_pending s)(t \<mapsto> set_stage st p)\<rparr>)"
| st_finish: "ls_pending s t = Some p \<Longrightarrow> pending_stage p \<noteq> Waits \<Longrightarrow> pending_finish t p (ls_world s) = (res, w) \<Longrightarrow>
    lock_step eo s (s\<lparr>ls_world := w, ls_pending := (ls_pending s)(t := None)\<rparr>)"
| st_beginSync: "beginSync t (ls_world s) = (res, w) \<Longrightarrow> lock_step eo s (s\<lparr>ls_world := w\<rparr>)"
| st_addResourcesSync: "addResourcesSync t resources (ls_world s) = (res, w) \<Longrightarrow> lock_step eo s (s\<lparr>ls_world := w\<rparr>)"
| st_addParticipants: "addParticipants (env_participants eo) t ps (ls_world s) = (res, w) \<Longrightarrow>
    lock_step eo s (s\<lparr>ls_world := w\<rparr>)"
| st_rollback: "tx_rollback (env_participants eo) t (ls_world s) = Some (res, w) \<Longrightarrow> lock_step eo s (s\<lparr>ls_world := w\<rparr>)"
| st_commit: "tx_commit (env_participants eo) t (ls_world s) = Some (res, w) \<Longrightarrow> lock_step eo s (s\<lparr>ls_world := w\<rparr>)"
| st_close: "lock_step eo s (s\<lparr>ls_world := tx_close t (ls_world s)\<rparr>)"

definition orderly_step :: "'e env_ops \<Rightarrow> 'e lock_state \<Rightarrow> 'e lock_state \<Rightarrow> bool" where
  "orderly_step eo s s' \<longleftrightarrow> lock_step eo s s' \<and>
     (\<forall>t. status_of t (ls_world s) = StWaiting \<and> ls_pending s' t \<noteq> None \<longrightarrow> status_of t (ls_world s') \<noteq> StShared)"

definition lock_init :: "(nat \<Rightarrow> bool) \<Rightarrow> 'e \<Rightarrow> 'e lock_state" where
  "lock_init readonly env =
     \<lparr>ls_world = \<lparr>tw_tx = (\<lambda>t. new_Tx (readonly t)), tw_lockedBy = Map.empty, tw_env = env\<rparr>, ls_pending = Map.empty\<rparr>"

section \<open>The detection finds exactly the cycles\<close>

definition waits :: "(nat \<Rightarrow> nat list option) \<Rightarrow> (nat \<times> nat) set" where
  "waits waitingOn = {(a, b). \<exists>others. waitingOn a = Some others \<and> b \<in> set others}"

lemma set_set_add [simp]: "set (set_add x xs) = insert x (set xs)"
  by (auto simp: set_add_def)

lemma examine_waits_Nil [simp]: "examine_waits wo me [] ex = Some (Inr ex)"
  by (simp add: examine_waits.simps)

lemma examine_waits_Cons:
  "examine_waits wo me (b # bs) ex =
     (if b \<in> set ex then examine_waits wo me bs ex
      else Option.bind (examineBlocker wo me b ex)
        (\<lambda>r. case r of Inl e \<Rightarrow> Some (Inl e) | Inr ex \<Rightarrow> examine_waits wo me bs ex))"
  by (subst examine_waits.simps) (simp add: examineBlocker_def)

text \<open>
  What an examination of \<open>bs\<close> gives: a path to the transaction itself, or more examined transactions, all of
  whose own blockers are examined too.
\<close>

definition examined_ok :: "(nat \<Rightarrow> nat list option) \<Rightarrow> nat \<Rightarrow> nat list \<Rightarrow> nat list \<Rightarrow> nat list result option \<Rightarrow> bool" where
  "examined_ok wo me bs ex r \<longleftrightarrow> (case r of
     None \<Rightarrow> False
   | Some (Inl e) \<Rightarrow> e = TransactionDeadlockError \<and> (\<exists>b \<in> set bs. (b, me) \<in> (waits wo)\<^sup>*)
   | Some (Inr ex') \<Rightarrow> set bs \<subseteq> set ex' \<and> set ex \<subseteq> set ex' \<and> set ex' - set ex \<subseteq> - {me} \<and>
       (\<forall>x y. x \<in> set ex' \<longrightarrow> x \<notin> set ex \<longrightarrow> (x, y) \<in> waits wo \<longrightarrow> y \<in> set ex'))"

lemma waits_iff: "(a, b) \<in> waits wo \<longleftrightarrow> (\<exists>others. wo a = Some others \<and> b \<in> set others)"
  by (simp add: waits_def)

lemma examineBlocker_ok:
  assumes "\<And>others. wo b = Some others \<Longrightarrow> examined_ok wo me others (set_add b ex) (examine_waits wo me others (set_add b ex))"
  shows "examined_ok wo me [b] ex (examineBlocker wo me b ex)"
proof (cases "b = me")
  case True
  then show ?thesis by (simp add: examineBlocker_def examined_ok_def)
next
  case False
  show ?thesis
  proof (cases "wo b")
    case None
    with False show ?thesis by (auto simp: examineBlocker_def examined_ok_def waits_def)
  next
    case (Some others)
    have path: "(b, me) \<in> (waits wo)\<^sup>*" if "c \<in> set others" "(c, me) \<in> (waits wo)\<^sup>*" for c
      using that Some by (auto simp: waits_iff intro: converse_rtrancl_into_rtrancl)
    have succ: "(b, y) \<in> waits wo \<longleftrightarrow> y \<in> set others" for y using Some by (simp add: waits_def)
    show ?thesis
    proof (cases "examine_waits wo me others (set_add b ex)")
      case None
      with assms [OF Some] show ?thesis by (simp add: examined_ok_def)
    next
      case r: (Some r)
      show ?thesis
        using assms [OF Some] Some r False path succ
        by (cases r) (auto simp: examined_ok_def examineBlocker_def, (metis subsetD)+)
    qed
  qed
qed

lemma examined_ok_seq:
  assumes "examined_ok wo me [b] ex (Some (Inr ex1))" and "examined_ok wo me bs ex1 r"
  shows "examined_ok wo me (b # bs) ex r"
proof (cases r)
  case None
  with assms(2) show ?thesis by (simp add: examined_ok_def)
next
  case r: (Some r')
  show ?thesis
  proof (cases r')
    case (Inl e)
    with assms r show ?thesis by (auto simp: examined_ok_def)
  next
    case (Inr ex2)
    have 1: "b \<in> set ex1" "set ex \<subseteq> set ex1" "set ex1 - set ex \<subseteq> - {me}"
      "\<And>x y. x \<in> set ex1 \<Longrightarrow> x \<notin> set ex \<Longrightarrow> (x, y) \<in> waits wo \<Longrightarrow> y \<in> set ex1"
      using assms(1) by (auto simp: examined_ok_def)
    have 2: "set bs \<subseteq> set ex2" "set ex1 \<subseteq> set ex2" "set ex2 - set ex1 \<subseteq> - {me}"
      "\<And>x y. x \<in> set ex2 \<Longrightarrow> x \<notin> set ex1 \<Longrightarrow> (x, y) \<in> waits wo \<Longrightarrow> y \<in> set ex2"
      using assms(2) r Inr by (auto simp: examined_ok_def)
    have "y \<in> set ex2" if "x \<in> set ex2" "x \<notin> set ex" "(x, y) \<in> waits wo" for x y
      using 1(4) [of x y] 2(4) [of x y] 2(2) that by blast
    with 1(1-3) 2(1-3) r Inr show ?thesis unfolding examined_ok_def by fastforce
  qed
qed

lemma examine_waits_ok:
  assumes "finite V" and "Range (waits wo) \<subseteq> V"
  shows "set bs \<subseteq> V \<Longrightarrow> examined_ok wo me bs ex (examine_waits wo me bs ex)"
proof (induction "card (V - set ex)" arbitrary: bs ex rule: less_induct)
  case less
  from less.prems show ?case
  proof (induction bs)
    case Nil
    then show ?case by (simp add: examined_ok_def)
  next
    case (Cons b bs)
    show ?case
    proof (cases "b \<in> set ex")
      case True
      with Cons show ?thesis
        by (auto simp: examine_waits_Cons examined_ok_def split: option.splits sum.splits)
    next
      case False
      have smaller: "card (V - set ex1) < card (V - set ex)" if "insert b (set ex) \<subseteq> set ex1" for ex1
        using that False Cons.prems assms(1) by (intro psubset_card_mono) auto
      have children: "set others \<subseteq> V" if "wo b = Some others" for others
        using that assms(2) by (auto simp: waits_def)
      have b: "examined_ok wo me [b] ex (examineBlocker wo me b ex)"
        by (rule examineBlocker_ok, rule less.hyps) (use smaller [of "set_add b ex"] children in auto)
      show ?thesis
      proof (cases "examineBlocker wo me b ex")
        case None
        with b show ?thesis by (simp add: examined_ok_def)
      next
        case r: (Some r)
        show ?thesis
        proof (cases r)
          case (Inl e)
          with b r False show ?thesis by (auto simp: examine_waits_Cons examined_ok_def)
        next
          case (Inr ex1)
          then have "insert b (set ex) \<subseteq> set ex1" using b r by (auto simp: examined_ok_def)
          from less.hyps [OF smaller [OF this]] Cons.prems
          have "examined_ok wo me bs ex1 (examine_waits wo me bs ex1)" by simp
          from examined_ok_seq [OF b [unfolded r Inr] this] show ?thesis
            using r Inr False by (simp add: examine_waits_Cons)
        qed
      qed
    qed
  qed
qed

lemma examineBlocker_total:
  assumes "finite (waits wo)"
  shows "examined_ok wo me [b] ex (examineBlocker wo me b ex)"
proof (rule examineBlocker_ok)
  fix others
  assume "wo b = Some others"
  then have "set others \<subseteq> Range (waits wo)" by (auto simp: waits_def)
  then show "examined_ok wo me others (set_add b ex) (examine_waits wo me others (set_add b ex))"
    using examine_waits_ok [of "Range (waits wo)" wo others] finite_Range [OF assms] by simp
qed

definition examined_closed :: "(nat \<Rightarrow> nat list option) \<Rightarrow> nat \<Rightarrow> nat set \<Rightarrow> bool" where
  "examined_closed wo me X \<longleftrightarrow> me \<notin> X \<and> (\<forall>x y. x \<in> X \<longrightarrow> (x, y) \<in> waits wo \<longrightarrow> y \<in> X)"

lemma examined_closed_unreachable:
  assumes "examined_closed wo me X" and "(x, y) \<in> (waits wo)\<^sup>*" and "x \<in> X"
  shows "y \<in> X"
  using assms(2,3) by (induction rule: rtrancl_induct) (use assms(1) in \<open>auto simp: examined_closed_def\<close>)

lemma examine_each_exact:
  assumes "finite (waits wo)"
  shows "examined_closed wo me (set ex) \<Longrightarrow>
    examine_each wo me bs ex = Some (if \<exists>b \<in> set bs. (b, me) \<in> (waits wo)\<^sup>* then Inl TransactionDeadlockError else Inr ())"
proof (induction bs arbitrary: ex)
  case Nil
  then show ?case by simp
next
  case (Cons b bs)
  note b = examineBlocker_total [OF assms, of me b ex]
  then obtain r where r: "examineBlocker wo me b ex = Some r" by (cases "examineBlocker wo me b ex") (auto simp: examined_ok_def)
  show ?case
  proof (cases r)
    case (Inl e)
    with b r show ?thesis by (auto simp: examined_ok_def)
  next
    case (Inr ex1)
    have 1: "b \<in> set ex1" "set ex \<subseteq> set ex1" "set ex1 - set ex \<subseteq> - {me}"
      "\<And>x y. x \<in> set ex1 \<Longrightarrow> x \<notin> set ex \<Longrightarrow> (x, y) \<in> waits wo \<Longrightarrow> y \<in> set ex1"
      using b r Inr by (auto simp: examined_ok_def)
    then have closed: "examined_closed wo me (set ex1)"
      using Cons.prems unfolding examined_closed_def by blast
    then have "(b, me) \<notin> (waits wo)\<^sup>*"
      using examined_closed_unreachable [OF closed] 1(1) by (auto simp: examined_closed_def)
    with Cons.IH [OF closed] r Inr show ?thesis by auto
  qed
qed

lemma detectDeadlock_reach:
  assumes "finite (waits (waitingOn_of w))"
  shows "detectDeadlock t blockedBy w =
    Some (if \<exists>b \<in> set blockedBy. (b, t) \<in> (waits (waitingOn_of w))\<^sup>* then Inl TransactionDeadlockError else Inr ())"
  unfolding detectDeadlock_def by (rule examine_each_exact [OF assms]) (simp add: examined_closed_def)

section \<open>Frames\<close>

text \<open>What an operation of one transaction may change: its own state, its own locks, and whom others wait for.\<close>

definition tx_frame :: "nat \<Rightarrow> 'e tx_world \<Rightarrow> 'e tx_world \<Rightarrow> bool" where
  "tx_frame t w w' \<longleftrightarrow>
     (\<forall>u. u \<noteq> t \<longrightarrow> status_of u w' = status_of u w \<and> tx_resources (tw_tx w' u) = tx_resources (tw_tx w u)) \<and>
     (\<forall>r. tw_lockedBy w' r = tw_lockedBy w r \<or> tw_lockedBy w r = None \<and> tw_lockedBy w' r = Some t \<or>
        tw_lockedBy w r = Some t \<and> tw_lockedBy w' r = None)"

lemma tx_frame_refl [simp]: "tx_frame t w w"
  by (simp add: tx_frame_def)

lemma tx_frame_trans: "tx_frame t a b \<Longrightarrow> tx_frame t b c \<Longrightarrow> tx_frame t a c"
  unfolding tx_frame_def by (metis option.discI)

lemma tx_frame_upd [simp]: "tx_frame t w (upd_tx t f w)"
  by (simp add: tx_frame_def)

lemma tx_frame_same: "same_transactions w w' \<Longrightarrow> tx_frame t w w'"
  by (simp add: tx_frame_def same_transactions_def)

definition holds :: "nat \<Rightarrow> nat list \<Rightarrow> 'e tx_world \<Rightarrow> bool" where
  "holds t rs w \<longleftrightarrow> (\<forall>r \<in> set rs. tw_lockedBy w r = Some t)"

lemma acquireLocksSync_frame: "acquireLocksSync t rs w = (res, w') \<Longrightarrow> tx_frame t w w'"
  by (auto simp: acquireLocksSync_def Let_def tx_frame_def fold_locks filter_empty_conv split: if_splits)

lemma acquireLocksSync_holds: "acquireLocksSync t rs w = (Inr l, w') \<Longrightarrow> holds t rs w'"
  by (auto simp: acquireLocksSync_def Let_def holds_def fold_locks filter_empty_conv split: if_splits)

lemma acquireLocksSync_tx: "acquireLocksSync t rs w = (res, w') \<Longrightarrow> tw_tx w' = tw_tx w"
  by (auto simp: acquireLocksSync_def Let_def split: if_splits)

lemma holds_frame: "tx_frame t w w' \<Longrightarrow> u \<noteq> t \<Longrightarrow> holds u rs w \<Longrightarrow> holds u rs w'"
  unfolding tx_frame_def holds_def by (metis option.discI option.inject)

section \<open>The effect of commit and rollback\<close>

lemma cleanup_frame: "tx_frame t w (cleanup t w)"
  by (simp add: tx_frame_def)

lemma emit_shared_cong: "tw_tx w' = tw_tx w \<Longrightarrow> tw_tx (emit_shared t w') = tw_tx (emit_shared t w)"
  by (simp add: emit_shared_def)

lemma cleanup_same:
  assumes "tw_lockedBy w' = tw_lockedBy w" and "\<And>u. (tw_tx w' u)\<lparr>tx_status := StShared\<rparr> = (tw_tx w u)\<lparr>tx_status := StShared\<rparr>"
    and "\<And>u. u \<noteq> t \<Longrightarrow> tw_tx w' u = tw_tx w u"
  shows "same_transactions (cleanup t w) (cleanup t w')"
proof -
  have r: "tx_resources (tw_tx w' t) = tx_resources (tw_tx w t)"
    using arg_cong [OF assms(2) [of t], where f = tx_resources] by simp
  have "(tw_tx w' t)\<lparr>tx_participants := [], tx_status := StShared\<rparr> = (tw_tx w t)\<lparr>tx_participants := [], tx_status := StShared\<rparr>"
    using assms(2) [of t] by (cases "tw_tx w' t"; cases "tw_tx w t") simp
  then have "tw_tx (cleanup t w') = tw_tx (cleanup t w)"
    unfolding cleanup_def Let_def by (intro emit_shared_cong) (simp add: fun_eq_iff assms(3))
  then show ?thesis
    unfolding same_transactions_def using r assms(1) by (auto simp: fun_eq_iff)
qed

lemma rollback_effect:
  assumes "tx_rollback (env_participants eo) t w = Some (res, w')"
  shows "same_transactions w w' \<or> status_of t w \<in> {StShared, StExclusive} \<and> same_transactions (cleanup t w) w'"
proof -
  obtain res1 w1 where r: "executeRollback (env_participants eo) t (set_status t StRollingBack w) = Some (res1, w1)"
    and w1: "same_transactions (set_status t StShared (set_status t StRollingBack w)) w1"
    using env.executeRollback_total by blast
  have "same_transactions (cleanup t w) (cleanup t w1)"
    by (rule cleanup_same) (use w1 in \<open>auto simp: same_transactions_def\<close>)
  with assms r show ?thesis
    by (auto simp: tx_rollback_def finalize_def split: sum.splits if_splits)
qed

lemma performCommit_effect:
  assumes "performCommit (env_participants eo) t w = Some (res, w')"
  shows "same_transactions w w' \<or> status_of t w \<in> {StShared, StExclusive} \<and> same_transactions (cleanup t w) w'"
proof (cases "status_of t w \<in> {StShared, StExclusive}")
  case True
  let ?w1 = "set_status t StCommittingPhaseOne w"
  obtain res1 w1 where c: "executeCommit (env_participants eo) t ?w1 = Some (res1, w1)" "tw_lockedBy w1 = tw_lockedBy w"
    "\<And>u. (tw_tx w1 u)\<lparr>tx_status := StShared\<rparr> = (tw_tx ?w1 u)\<lparr>tx_status := StShared\<rparr>"
    "\<And>u. u \<noteq> t \<Longrightarrow> tw_tx w1 u = tw_tx w u"
    using executeCommit_env [OF refl, where w = ?w1 and t = t and eo = eo] by auto
  have "same_transactions (cleanup t w) (cleanup t w1)"
    by (rule cleanup_same) (use c in auto)
  then have "same_transactions (cleanup t w) (executePostCommit (env_participants eo) ps (cleanup t w1))" for ps
    by (rule same_transactions_trans) (rule env.executePostCommit_quiet)
  with \<open>same_transactions (cleanup t w) (cleanup t w1)\<close> assms c(1) True show ?thesis
    by (cases res1) (auto simp: performCommit_def finalize_def)
next
  case False
  with assms show ?thesis by (auto simp: performCommit_def finalize_def)
qed

lemma same_transactions_eqs:
  "same_transactions w w' \<Longrightarrow> tw_tx w' = tw_tx w" "same_transactions w w' \<Longrightarrow> tw_lockedBy w' = tw_lockedBy w"
  by (simp_all add: same_transactions_def)

lemma cleanup_same_transactions:
  "same_transactions w w1 \<Longrightarrow> same_transactions (cleanup t w) (cleanup t w1)"
  by (rule cleanup_same) (simp_all add: same_transactions_eqs)

lemma commit_effect:
  assumes "tx_commit (env_participants eo) t w = Some (res, w')"
  shows "same_transactions w w' \<or> status_of t w \<notin> {StReadOnly, StDestroyed} \<and> same_transactions (set_status t StShared w) w' \<or>
    status_of t w \<in> {StShared, StExclusive} \<and> same_transactions (cleanup t w) w'"
proof (cases "status_of t w \<in> {StReadOnly, StDestroyed, StShared}")
  case True
  with assms rollback_effect [of eo t w res w'] show ?thesis
    by (auto simp: tx_commit_def assertAvailable_def)
next
  case False
  obtain r w1 where p: "executePreCommit (env_participants eo) t w = Some (r, w1)"
    and st: "case r of Inr _ \<Rightarrow> same_transactions w w1
      | Inl e \<Rightarrow> e = FinalizationError \<and> same_transactions (set_status t StShared w) w1"
    using env.executePreCommit_settled [where t = t and w = w and eo = eo] by (auto simp: env.settled_def)
  show ?thesis
  proof (cases r)
    case (Inl e)
    with False assms p st show ?thesis by (auto simp: tx_commit_def assertAvailable_def)
  next
    case (Inr x)
    with st have q: "same_transactions w w1" by simp
    have "performCommit (env_participants eo) t w1 = Some (res, w')"
      using False assms p Inr by (simp add: tx_commit_def assertAvailable_def)
    from performCommit_effect [OF this] show ?thesis
      using q cleanup_same_transactions [OF q, of t] by (auto simp: same_transactions_eqs intro: same_transactions_trans)
  qed
qed

section \<open>Exclusive transactions hold their locks\<close>

abbreviation resource_set :: "nat \<Rightarrow> 'e tx_world \<Rightarrow> nat list" where
  "resource_set t w \<equiv> new_ResourceSet (tx_resources (tw_tx w t))"

definition begin_inv :: "nat \<Rightarrow> 'e tx_world \<Rightarrow> pending option \<Rightarrow> bool" where
  "begin_inv t w p \<longleftrightarrow> (case p of
     Some (PBegin rs st) \<Rightarrow> status_of t w = StDestroyed \<or>
       status_of t w = StWaiting \<and> rs = resource_set t w \<and> (st = Locked \<longrightarrow> holds t rs w)
   | _ \<Rightarrow> True)"

definition tx_inv :: "nat \<Rightarrow> 'e tx_world \<Rightarrow> pending option \<Rightarrow> bool" where
  "tx_inv t w p \<longleftrightarrow> (status_of t w = StExclusive \<longrightarrow> holds t (resource_set t w) w) \<and>
     (status_of t w = StDestroyed \<longrightarrow> tx_resources (tw_tx w t) = []) \<and> begin_inv t w p"

definition lock_inv :: "'e lock_state \<Rightarrow> bool" where
  "lock_inv s \<longleftrightarrow> (\<forall>t. tx_inv t (ls_world s) (ls_pending s t))"

lemma set_new_ResourceSet [simp]: "set (new_ResourceSet rs) = dereference ` set rs"
proof -
  have "set (fold (\<lambda>res. set_add (dereference res)) rs s) = dereference ` set rs \<union> set s" for s
    by (induction rs arbitrary: s) auto
  then show ?thesis by (simp add: new_ResourceSet_def)
qed

lemma set_fold_set_add [simp]: "set (fold set_add xs s) = set xs \<union> set s"
  by (induction xs arbitrary: s) auto

lemma holds_upd [simp]: "holds t rs (upd_tx u f w) = holds t rs w"
  by (simp add: holds_def)

lemma tx_inv_other:
  assumes "tx_frame t w w'" and "u \<noteq> t" and "tx_inv u w p"
  shows "tx_inv u w' p"
  using assms holds_frame [OF assms(1,2)]
  by (auto simp: tx_inv_def begin_inv_def tx_frame_def split: option.splits pending.splits)

lemma lock_inv_step:
  assumes "lock_inv s" and "tx_frame t (ls_world s) w" and "tx_inv t w p"
    and "\<And>u. u \<noteq> t \<Longrightarrow> pend u = ls_pending s u" and "pend t = p"
  shows "lock_inv (s\<lparr>ls_world := w, ls_pending := pend\<rparr>)"
  unfolding lock_inv_def
proof
  fix u
  show "tx_inv u (ls_world (s\<lparr>ls_world := w, ls_pending := pend\<rparr>)) (ls_pending (s\<lparr>ls_world := w, ls_pending := pend\<rparr>) u)"
  proof (cases "u = t")
    case True
    with assms(3,5) show ?thesis by simp
  next
    case False
    with assms(1) tx_inv_other [OF assms(2) False] show ?thesis by (simp add: lock_inv_def assms(4))
  qed
qed

lemma lock_inv_sync:
  assumes "lock_inv s" and "tx_frame t (ls_world s) w" and "tx_inv t w (ls_pending s t)"
  shows "lock_inv (s\<lparr>ls_world := w\<rparr>)"
  using lock_inv_step [OF assms refl refl] by simp

subsection \<open>Synchronous operations\<close>

lemma tx_inv_same: "same_transactions w w' \<Longrightarrow> tx_inv t w p \<Longrightarrow> tx_inv t w' p"
  by (simp add: tx_inv_def begin_inv_def holds_def same_transactions_def split: option.splits pending.splits)

lemma tx_inv_not_begin:
  assumes "tx_inv t w p" and "status_of t w \<notin> {StDestroyed, StWaiting}"
  shows "begin_inv t w' p"
  using assms by (auto simp: tx_inv_def begin_inv_def split: option.splits pending.splits)

lemma beginSync_inv:
  assumes "beginSync t w = (res, w')" and "tx_inv t w p"
  shows "tx_frame t w w' \<and> tx_inv t w' p"
proof (cases "status_of t w = StShared")
  case True
  let ?w = "set_status t StExclusive w"
  obtain r w1 where a: "acquireLocksSync t (resource_set t ?w) ?w = (r, w1)"
    by (cases "acquireLocksSync t (resource_set t ?w) ?w")
  note facts = acquireLocksSync_frame [OF a] acquireLocksSync_tx [OF a]
  have f: "tx_frame t w w1" using tx_frame_trans [OF tx_frame_upd facts(1)] .
  show ?thesis
  proof (cases r)
    case (Inl e)
    then have "w' = set_status t StShared w1"
      using assms(1) a True by (simp add: beginSync_def assertAvailable_def Let_def)
    then show ?thesis
      using f tx_frame_trans [OF f tx_frame_upd] tx_inv_not_begin [OF assms(2)] True
      by (simp add: tx_inv_def)
  next
    case (Inr l)
    then have "w' = w1" using assms(1) a True by (simp add: beginSync_def assertAvailable_def Let_def)
    then show ?thesis
      using f acquireLocksSync_holds [OF a [unfolded Inr]] facts(2) tx_inv_not_begin [OF assms(2)] True
      by (simp add: tx_inv_def)
  qed
next
  case False
  with assms show ?thesis by (auto simp: beginSync_def assertAvailable_def split: if_splits)
qed

lemma addResourcesSync_inv:
  assumes "addResourcesSync t resources w = (res, w')" and "tx_inv t w p"
  shows "tx_frame t w w' \<and> tx_inv t w' p"
proof (cases "status_of t w = StExclusive")
  case True
  obtain r w1 where a: "acquireLocksSync t (new_ResourceSet resources) w = (r, w1)"
    by (cases "acquireLocksSync t (new_ResourceSet resources) w")
  note facts = acquireLocksSync_frame [OF a] acquireLocksSync_tx [OF a]
  have h: "holds t (resource_set t w) w" using assms(2) True by (simp add: tx_inv_def)
  have keep: "tw_lockedBy w1 r' = Some t" if "tw_lockedBy w r' = Some t" "r = Inr l" for r' l
    using a that by (auto simp: acquireLocksSync_def Let_def fold_locks split: if_splits)
  show ?thesis
  proof (cases r)
    case (Inl e)
    then have "w' = w" using assms(1) a True
      by (auto simp: addResourcesSync_def assertAvailable_def acquireLocksSync_def Let_def split: if_splits)
    with assms(2) show ?thesis by simp
  next
    case (Inr l)
    have "w' = add_all_resources t resources w1" using assms(1) a True Inr
      by (simp add: addResourcesSync_def assertAvailable_def)
    then show ?thesis
      using facts keep [OF _ Inr] h acquireLocksSync_holds [OF a [unfolded Inr]] True tx_inv_not_begin [OF assms(2)]
        tx_frame_trans [OF facts(1) tx_frame_upd]
      by (auto simp: tx_inv_def add_all_resources_def holds_def)
  qed
next
  case False
  with assms tx_inv_not_begin [OF assms(2)] show ?thesis
    by (auto simp: addResourcesSync_def assertAvailable_def add_all_resources_def tx_inv_def split: if_splits)
qed

definition locks_kept :: "'e tx_world \<Rightarrow> 'e tx_world \<Rightarrow> bool" where
  "locks_kept w w' \<longleftrightarrow> tw_lockedBy w' = tw_lockedBy w \<and> (\<forall>u. status_of u w' = status_of u w \<and>
     tx_resources (tw_tx w' u) = tx_resources (tw_tx w u) \<and> waitingOn_of w' u = waitingOn_of w u)"

lemma locks_kept_refl [simp]: "locks_kept w w"
  by (simp add: locks_kept_def)

lemma locks_kept_trans: "locks_kept a b \<Longrightarrow> locks_kept b c \<Longrightarrow> locks_kept a c"
  by (simp add: locks_kept_def)

lemma add_each_participant_keeps: "locks_kept w (snd (add_each_participant ops t ps w))"
proof (induction ps arbitrary: w)
  case Nil
  then show ?case by simp
next
  case (Cons p ps)
  let ?w1 = "upd_tx t (\<lambda>x. x\<lparr>tx_participants := set_add p (tx_participants x)\<rparr>) w"
  let ?w2 = "\<lambda>role. upd_tx t (\<lambda>x. x\<lparr>tx_roles := (tx_roles x)(role \<mapsto> p)\<rparr>) ?w1"
  have "locks_kept w ?w1" "locks_kept w (?w2 role)" for role by (simp_all add: locks_kept_def)
  with Cons.IH [of w] locks_kept_trans [OF _ Cons.IH [of ?w1]] locks_kept_trans [OF _ Cons.IH [of "?w2 _"]]
  show ?case by (simp add: Let_def split: option.split)
qed

lemma addParticipants_keeps: "locks_kept w (snd (addParticipants ops t ps w))"
  using add_each_participant_keeps [of w ops t ps] by (simp add: addParticipants_def split: sum.split)

lemma addParticipants_inv:
  assumes "addParticipants ops t ps w = (res, w')" and "tx_inv t w p"
  shows "tx_frame t w w' \<and> tx_inv t w' p"
  using addParticipants_keeps [of w ops t ps] assms
  by (auto simp: locks_kept_def tx_frame_def tx_inv_def begin_inv_def holds_def split: option.splits pending.splits)

lemma tx_close_inv: "tx_inv t w p \<Longrightarrow> tx_frame t w (tx_close t w) \<and> tx_inv t (tx_close t w) p"
  by (auto simp: tx_close_def tx_inv_def begin_inv_def split: option.splits pending.splits)

lemma cleanup_inv:
  assumes "status_of t w \<in> {StShared, StExclusive}" and "tx_inv t w p"
  shows "tx_inv t (cleanup t w) p"
  using assms tx_inv_not_begin [OF assms(2)] by (auto simp: tx_inv_def)

lemma rollback_inv:
  assumes "tx_rollback (env_participants eo) t w = Some (res, w')" and "tx_inv t w p"
  shows "tx_frame t w w' \<and> tx_inv t w' p"
  using rollback_effect [OF assms(1)] assms(2) cleanup_inv [OF _ assms(2)]
  by (auto intro: tx_frame_same tx_inv_same tx_frame_trans [OF cleanup_frame])

lemma commit_inv:
  assumes "tx_commit (env_participants eo) t w = Some (res, w')" and "tx_inv t w p"
    and "status_of t w = StWaiting \<and> p \<noteq> None \<Longrightarrow> status_of t w' \<noteq> StShared"
  shows "tx_frame t w w' \<and> tx_inv t w' p"
proof -
  have "tx_inv t w' p" if same: "same_transactions (set_status t StShared w) w'" and st: "status_of t w \<notin> {StReadOnly, StDestroyed}"
  proof -
    have "status_of t w' = StShared" using same by (simp add: same_transactions_def)
    with assms(3) st tx_inv_not_begin [OF assms(2)] have "begin_inv t (set_status t StShared w) p"
      by (cases p) (auto simp: begin_inv_def)
    then have "tx_inv t (set_status t StShared w) p" using st by (simp add: tx_inv_def)
    from tx_inv_same [OF same this] show ?thesis .
  qed
  with commit_effect [OF assms(1)] assms(2) cleanup_inv [OF _ assms(2)] show ?thesis
    by (auto intro: tx_frame_same tx_inv_same tx_frame_trans [OF cleanup_frame] tx_frame_trans [OF tx_frame_upd])
qed

subsection \<open>Asynchronous operations\<close>

lemma waitFor_keeps:
  "waitFor t others w = (res, w') \<Longrightarrow> tw_lockedBy w' = tw_lockedBy w \<and>
   (\<forall>u. status_of u w' = status_of u w \<and> tx_resources (tw_tx w' u) = tx_resources (tw_tx w u))"
  by (auto simp: waitFor_def split: sum.splits if_splits)

lemma acquireLocks_round_keeps:
  assumes "acquireLocks_round t rs w = Some (st, w')"
  shows "tx_frame t w w' \<and> (\<forall>u. status_of u w' = status_of u w \<and> tx_resources (tw_tx w' u) = tx_resources (tw_tx w u)) \<and>
    (st = Locked \<longrightarrow> holds t rs w') \<and> (\<forall>rs'. holds t rs' w \<longrightarrow> holds t rs' w')"
proof (cases "blockers t rs w = []")
  case True
  obtain r w1 where a: "acquireLocksSync t rs w = (r, w1)" by (cases "acquireLocksSync t rs w")
  have "holds t rs' w1" if "holds t rs' w" for rs'
    using a that by (auto simp: acquireLocksSync_def Let_def fold_locks holds_def split: if_splits)
  with acquireLocksSync_frame [OF a] acquireLocksSync_tx [OF a] acquireLocksSync_holds [of t rs w] True a assms show ?thesis
    by (cases r) (auto simp: acquireLocks_round_def)
next
  case False
  obtain r w1 where wf: "waitFor t (blockers t rs w) w = (r, w1)" by (cases "waitFor t (blockers t rs w) w")
  obtain d where d: "detectDeadlock t (blockers t rs w) w = Some d"
    using assms False by (auto simp: acquireLocks_round_def Let_def)
  have keep: "w' = w \<and> st \<noteq> Locked \<or> w' = w1 \<and> st \<noteq> Locked"
    using assms False wf d by (cases d; cases r) (auto simp: acquireLocks_round_def)
  then show ?thesis
    using waitFor_keeps [OF wf] by (auto simp: tx_frame_def holds_def)
qed

lemma begin_start_inv:
  assumes "begin_start t w = Some (r, w')" and "tx_inv t w p" and "p = None \<or> returns r"
  shows "tx_frame t w w' \<and> tx_inv t w' (case r of Returns _ \<Rightarrow> p | Suspends q \<Rightarrow> Some q)"
proof (cases "status_of t w = StShared")
  case True
  let ?w = "set_status t StWaiting w"
  obtain st where a: "acquireLocks_round t (resource_set t ?w) ?w = Some (st, w')"
    and r: "r = Suspends (PBegin (resource_set t ?w) st)"
    using assms(1) True by (auto simp: begin_start_def assertAvailable_def Let_def)
  note keeps = acquireLocks_round_keeps [OF a]
  have "tx_frame t w w'" by (rule tx_frame_trans [OF tx_frame_upd]) (use keeps in blast)
  then show ?thesis using keeps r by (simp add: tx_inv_def begin_inv_def)
next
  case False
  with assms show ?thesis by (auto simp: begin_start_def assertAvailable_def split: if_splits)
qed

lemma addResources_start_inv:
  assumes "addResources_start t resources w = Some (r, w')" and "tx_inv t w p" and "p = None \<or> returns r"
  shows "tx_frame t w w' \<and> tx_inv t w' (case r of Returns _ \<Rightarrow> p | Suspends q \<Rightarrow> Some q)"
proof (cases "status_of t w = StExclusive")
  case True
  obtain st where a: "acquireLocks_round t (new_ResourceSet resources) w = Some (st, w')" and r: "r = Suspends (PAdd resources st)"
    using assms(1) True by (auto simp: addResources_start_def assertAvailable_def)
  show ?thesis
    using acquireLocks_round_keeps [OF a] assms(2) r True by (simp add: tx_inv_def begin_inv_def)
next
  case False
  obtain res w1 where "addResourcesSync t resources w = (res, w1)" by (cases "addResourcesSync t resources w")
  with addResourcesSync_inv [OF this assms(2)] False assms show ?thesis
    by (auto simp: addResources_start_def split: sum.splits)
qed

lemma acquireLocks_resume_inv:
  assumes "acquireLocks_resume t (pending_set p) w = Some (st, w')" and "tx_inv t w (Some p)"
  shows "tx_frame t w w' \<and> tx_inv t w' (Some (set_stage st p))"
proof -
  note keeps = acquireLocks_round_keeps [OF assms(1) [unfolded acquireLocks_resume_def]]
  have "tx_frame t w w'" by (rule tx_frame_trans [OF tx_frame_upd]) (use keeps in blast)
  then show ?thesis
    using keeps assms(2) by (cases p) (auto simp: tx_inv_def begin_inv_def)
qed

lemma pending_finish_inv:
  assumes "pending_finish t p w = (res, w')" and "tx_inv t w (Some p)" and "pending_stage p \<noteq> Waits"
  shows "tx_frame t w w' \<and> tx_inv t w' None"
proof (cases p)
  case (PBegin rs st)
  have "holds t (resource_set t w) w" if "st = Locked"
    using assms(2) PBegin that by (auto simp: tx_inv_def begin_inv_def holds_def)
  with PBegin assms show ?thesis
    by (cases st) (auto simp: begin_finish_def tx_inv_def begin_inv_def)
next
  case (PAdd resources st)
  have n: "tx_inv t w None" using assms(2) by (simp add: tx_inv_def begin_inv_def)
  with PAdd assms addResourcesSync_inv [of t resources w res w' None] show ?thesis
    by (cases st) (auto simp: addResources_finish_def)
qed

lemma lock_step_inv:
  "lock_step eo s s' \<Longrightarrow> lock_inv s \<Longrightarrow>
   (\<forall>t. status_of t (ls_world s) = StWaiting \<and> ls_pending s' t \<noteq> None \<longrightarrow> status_of t (ls_world s') \<noteq> StShared) \<Longrightarrow> lock_inv s'"
proof (induction rule: lock_step.induct)
  case (st_begin t s r w)
  then have "tx_inv t (ls_world s) (ls_pending s t)" by (simp add: lock_inv_def)
  from begin_start_inv [OF st_begin(1) this st_begin(2)] show ?case
    unfolding after_start_def using st_begin(3) by (intro lock_inv_step) (auto split: progress.split)
next
  case (st_addResources t resources s r w)
  then have "tx_inv t (ls_world s) (ls_pending s t)" by (simp add: lock_inv_def)
  from addResources_start_inv [OF st_addResources(1) this st_addResources(2)] show ?case
    unfolding after_start_def using st_addResources(3) by (intro lock_inv_step) (auto split: progress.split)
next
  case (st_resume s t p st w)
  then have "tx_inv t (ls_world s) (Some p)" by (metis lock_inv_def)
  from acquireLocks_resume_inv [OF st_resume(4) this] st_resume(5) show ?case by (intro lock_inv_step) auto
next
  case (st_finish s t p res w)
  then have "tx_inv t (ls_world s) (Some p)" by (metis lock_inv_def)
  from pending_finish_inv [OF st_finish(3) this st_finish(2)] st_finish(4) show ?case by (intro lock_inv_step) auto
next
  case (st_beginSync t s res w)
  then show ?case using beginSync_inv by (metis lock_inv_def lock_inv_sync)
next
  case (st_addResourcesSync t resources s res w)
  then show ?case using addResourcesSync_inv by (metis lock_inv_def lock_inv_sync)
next
  case (st_addParticipants t ps s res w)
  then show ?case using addParticipants_inv by (metis lock_inv_def lock_inv_sync)
next
  case (st_rollback t s res w)
  then show ?case using rollback_inv by (metis lock_inv_def lock_inv_sync)
next
  case (st_commit t s res w)
  then have "tx_inv t (ls_world s) (ls_pending s t)" by (simp add: lock_inv_def)
  from commit_inv [OF st_commit(1) this] st_commit(2,3) show ?case by (auto intro: lock_inv_sync)
next
  case (st_close s t)
  then show ?case using tx_close_inv by (metis lock_inv_def lock_inv_sync)
qed

section \<open>No transaction waits for itself\<close>

abbreviation wait_graph :: "'e tx_world \<Rightarrow> (nat \<times> nat) set" where
  "wait_graph w \<equiv> waits (waitingOn_of w)"

text \<open>The new edges of a transaction that starts to wait close no cycle when none of their ends reaches it.\<close>

lemma acyclic_new_edges:
  assumes "finite B" and "acyclic R" and "\<forall>b \<in> B. (b, t) \<notin> R\<^sup>*"
  shows "acyclic (R \<union> {t} \<times> B)"
proof -
  have "acyclic (R \<union> {t} \<times> C) \<and> (\<forall>b \<in> B. (b, t) \<notin> (R \<union> {t} \<times> C)\<^sup>*)" if "finite C" "C \<subseteq> B" for C
    using that
  proof (induction C rule: finite_induct)
    case empty
    with assms(2,3) show ?case by simp
  next
    case (insert c C)
    have e: "R \<union> {t} \<times> insert c C = insert (t, c) (R \<union> {t} \<times> C)" by auto
    have IH: "acyclic (R \<union> {t} \<times> C)" "\<forall>b \<in> B. (b, t) \<notin> (R \<union> {t} \<times> C)\<^sup>*" using insert by auto
    then show ?case unfolding e using insert.prems by (auto simp: acyclic_insert rtrancl_insert)
  qed
  from this [OF assms(1) subset_refl] show ?thesis ..
qed

definition wait_inv :: "'e tx_world \<Rightarrow> bool" where
  "wait_inv w \<longleftrightarrow> finite (wait_graph w) \<and> acyclic (wait_graph w) \<and> finite {t. waitingOn_of w t \<noteq> None} \<and>
     (\<forall>t. waitingOn_of w t \<noteq> Some [])"

lemma wait_inv_subset:
  assumes "wait_inv w" and "\<And>t. waitingOn_of w' t = None \<or>
    (\<exists>a b. waitingOn_of w t = Some a \<and> waitingOn_of w' t = Some b \<and> set b \<subseteq> set a \<and> b \<noteq> [])"
  shows "wait_inv w'"
proof -
  have sub: "wait_graph w' \<subseteq> wait_graph w"
  proof
    fix p
    assume "p \<in> wait_graph w'"
    then obtain x y others where p: "p = (x, y)" "waitingOn_of w' x = Some others" "y \<in> set others" by (auto simp: waits_def)
    with assms(2) [of x] show "p \<in> wait_graph w" by (auto simp: waits_def)
  qed
  have "waitingOn_of w t \<noteq> None" if "waitingOn_of w' t \<noteq> None" for t using assms(2) [of t] that by auto
  then have "{t. waitingOn_of w' t \<noteq> None} \<subseteq> {t. waitingOn_of w t \<noteq> None}" by blast
  moreover have "waitingOn_of w' t \<noteq> Some []" for t using assms(2) [of t] by auto
  ultimately show ?thesis
    using assms(1) sub acyclic_subset [OF _ sub] by (auto simp: wait_inv_def intro: finite_subset)
qed

lemma wait_inv_same: "wait_inv w \<Longrightarrow> (\<And>t. waitingOn_of w' t = waitingOn_of w t) \<Longrightarrow> wait_inv w'"
  by (simp add: wait_inv_def)

lemma wait_inv_wait:
  assumes "wait_inv w" and "waitFor t others w = (Inr (), w')" and "detectDeadlock t others w = Some (Inr ())" and "others \<noteq> []"
  shows "wait_inv w'"
proof -
  have none: "waitingOn_of w t = None" and w': "w' = upd_tx t (\<lambda>x. x\<lparr>tx_waitingOn := Some others\<rparr>) w"
    using assms(2) by (auto simp: waitFor_def split: sum.splits if_splits)
  have g: "wait_graph w' = wait_graph w \<union> {t} \<times> set others"
    using none by (auto simp: waits_def w' split: if_splits)
  have "\<forall>b \<in> set others. (b, t) \<notin> (wait_graph w)\<^sup>*"
    using assms(1,3) detectDeadlock_reach [of w t others] by (auto simp: wait_inv_def split: if_splits)
  then have "acyclic (wait_graph w')"
    unfolding g using assms(1) by (intro acyclic_new_edges) (auto simp: wait_inv_def)
  moreover have "{u. waitingOn_of w' u \<noteq> None} = insert t {u. waitingOn_of w u \<noteq> None}" by (auto simp: w')
  ultimately show ?thesis using assms(1,4) g by (auto simp: wait_inv_def w')
qed

lemma acquireLocks_round_wait_inv:
  assumes "acquireLocks_round t rs w = Some (st, w')" and "wait_inv w"
  shows "wait_inv w'"
proof (cases "blockers t rs w = []")
  case True
  obtain r w1 where a: "acquireLocksSync t rs w = (r, w1)" by (cases "acquireLocksSync t rs w")
  with True assms(1) have "w' = w1" by (cases r) (auto simp: acquireLocks_round_def)
  with acquireLocksSync_tx [OF a] show ?thesis by (intro wait_inv_same [OF assms(2)]) simp
next
  case False
  obtain r w1 where wf: "waitFor t (blockers t rs w) w = (r, w1)" by (cases "waitFor t (blockers t rs w) w")
  obtain d where d: "detectDeadlock t (blockers t rs w) w = Some d"
    using assms False by (auto simp: acquireLocks_round_def Let_def)
  have w1: "w1 = w" if "r = Inl e" for e using wf that by (auto simp: waitFor_def split: sum.splits if_splits)
  show ?thesis
    using assms False wf d w1 wait_inv_wait [OF assms(2), of t "blockers t rs w" w1]
    by (cases d; cases r) (auto simp: acquireLocks_round_def)
qed

lemma emit_shared_waits:
  "waitingOn_of (emit_shared t w) u =
     (case waitingOn_of w u of
        None \<Rightarrow> None
      | Some a \<Rightarrow> if t \<in> set a then (if removeAll t a = [] then None else Some (removeAll t a)) else Some a)"
  by (simp add: emit_shared_def Let_def split: option.split)

lemma wait_inv_cleanup: "wait_inv w \<Longrightarrow> wait_inv (cleanup t w)"
proof (rule wait_inv_subset)
  fix u
  assume w: "wait_inv w"
  have u: "waitingOn_of (cleanup t w) u =
     (case waitingOn_of w u of
        None \<Rightarrow> None
      | Some a \<Rightarrow> if t \<in> set a then (if removeAll t a = [] then None else Some (removeAll t a)) else Some a)"
    by (simp add: cleanup_def Let_def emit_shared_waits split: option.split)
  show "waitingOn_of (cleanup t w) u = None \<or> (\<exists>a b. waitingOn_of w u = Some a \<and>
      waitingOn_of (cleanup t w) u = Some b \<and> set b \<subseteq> set a \<and> b \<noteq> [])"
    using w by (cases "waitingOn_of w u") (auto simp: u wait_inv_def)
qed

lemma sync_waits:
  "beginSync t w = (res, w') \<Longrightarrow> waitingOn_of w' u = waitingOn_of w u"
  "addResourcesSync t resources w = (res, w') \<Longrightarrow> waitingOn_of w' u = waitingOn_of w u"
  "waitingOn_of (tx_close t w) u = waitingOn_of w u"
  by (auto simp: beginSync_def addResourcesSync_def add_all_resources_def tx_close_def Let_def
      split: sum.splits if_splits prod.splits dest!: acquireLocksSync_tx)

lemma wait_inv_step: "lock_step eo s s' \<Longrightarrow> wait_inv (ls_world s) \<Longrightarrow> wait_inv (ls_world s')"
proof (induction rule: lock_step.induct)
  case (st_begin t s r w)
  have "wait_inv (set_status t StWaiting (ls_world s))" by (rule wait_inv_same [OF st_begin(3)]) simp
  with st_begin acquireLocks_round_wait_inv show ?case
    by (auto simp: begin_start_def after_start_def Let_def split: sum.splits if_splits)
next
  case (st_addResources t resources s r w)
  obtain res w1 where a: "addResourcesSync t resources (ls_world s) = (res, w1)" by (cases "addResourcesSync t resources (ls_world s)")
  have "wait_inv w1" by (rule wait_inv_same [OF st_addResources(3)]) (rule sync_waits(2) [OF a])
  with st_addResources a acquireLocks_round_wait_inv show ?case
    by (auto simp: addResources_start_def after_start_def split: sum.splits if_splits)
next
  case (st_resume s t p st w)
  have "wait_inv (upd_tx t (\<lambda>x. x\<lparr>tx_waitingOn := None\<rparr>) (ls_world s))"
    by (rule wait_inv_same [OF st_resume(5)]) (use st_resume(3) in simp)
  with st_resume(4) acquireLocks_round_wait_inv show ?case by (auto simp: acquireLocks_resume_def)
next
  case (st_finish s t p res w)
  have "waitingOn_of w u = waitingOn_of (ls_world s) u" for u
    using st_finish(3) sync_waits(2) [of t _ "ls_world s" res w u]
    by (cases p; cases "pending_stage p") (auto simp: begin_finish_def addResources_finish_def)
  then show ?case by (simp add: wait_inv_same [OF st_finish(4)])
next
  case (st_beginSync t s res w)
  then show ?case using sync_waits(1) [OF st_beginSync(1)] by (auto intro: wait_inv_same)
next
  case (st_addResourcesSync t resources s res w)
  then show ?case using sync_waits(2) [OF st_addResourcesSync(1)] by (auto intro: wait_inv_same)
next
  case (st_addParticipants t ps s res w)
  then show ?case
    using addParticipants_keeps [of "ls_world s" "env_participants eo" t ps] by (auto simp: locks_kept_def intro: wait_inv_same)
next
  case (st_rollback t s res w)
  then show ?case
    using rollback_effect [OF st_rollback(1)] wait_inv_cleanup [OF st_rollback(2), of t]
    by (auto simp: same_transactions_eqs intro: wait_inv_same)
next
  case (st_commit t s res w)
  have "wait_inv (set_status t StShared (ls_world s))" by (rule wait_inv_same [OF st_commit(2)]) simp
  then show ?case
    using commit_effect [OF st_commit(1)] st_commit(2) wait_inv_cleanup [OF st_commit(2), of t]
    by (auto simp: same_transactions_eqs intro: wait_inv_same)
next
  case (st_close s t)
  then show ?case by (auto simp: sync_waits(3) intro: wait_inv_same)
qed

section \<open>Reachable states\<close>

lemma init_inv: "lock_inv (lock_init readonly env)" "wait_inv (ls_world (lock_init readonly env))"
  by (simp_all add: lock_inv_def wait_inv_def tx_inv_def begin_inv_def lock_init_def new_Tx_def waits_def acyclic_def)

lemma orderly_lock_inv: "(orderly_step eo)\<^sup>*\<^sup>* (lock_init readonly env) s \<Longrightarrow> lock_inv s"
proof (induction rule: rtranclp_induct)
  case base
  show ?case by (rule init_inv)
next
  case (step s s')
  then show ?case by (auto simp: orderly_step_def intro: lock_step_inv)
qed

lemma orderly_lock_steps: "(orderly_step eo)\<^sup>*\<^sup>* s s' \<Longrightarrow> (lock_step eo)\<^sup>*\<^sup>* s s'"
  by (erule rtranclp_mono [THEN predicate2D, rotated]) (auto simp: orderly_step_def)

lemma reachable_wait_inv: "(lock_step eo)\<^sup>*\<^sup>* (lock_init readonly env) s \<Longrightarrow> wait_inv (ls_world s)"
proof (induction rule: rtranclp_induct)
  case base
  show ?case by (rule init_inv)
next
  case (step s s')
  then show ?case using wait_inv_step by blast
qed

text \<open>A run for the witnesses: transaction 0 has resource 7 and asks for it, then transaction 1 asks for it too.\<close>

definition demo0 :: "(nat \<times> nat) list lock_state" where
  "demo0 = (let s = lock_init (\<lambda>_. False) [] in
     s\<lparr>ls_world := snd (addResourcesSync 1 [Resource 7] (snd (addResourcesSync 0 [Resource 7] (ls_world s))))\<rparr>)"

definition demo1 :: "(nat \<times> nat) list lock_state" where
  "demo1 = (case begin_start 0 (ls_world demo0) of Some (r, w) \<Rightarrow> after_start 0 r w demo0 | None \<Rightarrow> demo0)"

definition demo2 :: "(nat \<times> nat) list lock_state" where
  "demo2 = (case begin_start 1 (ls_world demo1) of Some (r, w) \<Rightarrow> after_start 1 r w demo1 | None \<Rightarrow> demo1)"

definition demo3 :: "(nat \<times> nat) list lock_state" where
  "demo3 = demo2\<lparr>ls_world := snd (begin_finish 0 Locked (ls_world demo2)), ls_pending := (ls_pending demo2)(0 := None)\<rparr>"

lemma orderly_step_sync:
  assumes "\<forall>u. status_of u (ls_world s) \<noteq> StWaiting"
  shows "orderly_step eo s (s\<lparr>ls_world := snd (addResourcesSync t resources (ls_world s))\<rparr>)"
  unfolding orderly_step_def using assms by (auto intro: st_addResourcesSync [OF prod.collapse [symmetric]])

lemma demo0_world: "demo0 = \<lparr>ls_world = \<lparr>tw_tx = (\<lambda>_. new_Tx False)(0 := (new_Tx False)\<lparr>tx_resources := [Resource 7]\<rparr>,
    1 := (new_Tx False)\<lparr>tx_resources := [Resource 7]\<rparr>), tw_lockedBy = Map.empty, tw_env = []\<rparr>, ls_pending = Map.empty\<rparr>"
  by (simp add: demo0_def lock_init_def addResourcesSync_def assertAvailable_def add_all_resources_def upd_tx_def
      new_Tx_def set_add_def Let_def)

lemma demo1_world: "demo1 = \<lparr>ls_world = \<lparr>tw_tx = (\<lambda>_. new_Tx False)(0 := (new_Tx False)\<lparr>tx_status := StWaiting, tx_resources := [Resource 7]\<rparr>,
    1 := (new_Tx False)\<lparr>tx_resources := [Resource 7]\<rparr>), tw_lockedBy = [7 \<mapsto> 0], tw_env = []\<rparr>,
    ls_pending = [0 \<mapsto> PBegin [7] Locked]\<rparr>"
  by (simp add: demo1_def demo0_world begin_start_def assertAvailable_def upd_tx_def new_Tx_def acquireLocks_round_def
      acquireLocksSync_def blockers_def new_ResourceSet_def set_add_def after_start_def fun_upd_twist Let_def)

lemma demo2_world: "demo2 = \<lparr>ls_world = \<lparr>tw_tx = (\<lambda>_. new_Tx False)(0 := (new_Tx False)\<lparr>tx_status := StWaiting, tx_resources := [Resource 7]\<rparr>,
    1 := (new_Tx False)\<lparr>tx_status := StWaiting, tx_resources := [Resource 7], tx_waitingOn := Some [0]\<rparr>),
    tw_lockedBy = [7 \<mapsto> 0], tw_env = []\<rparr>, ls_pending = [0 \<mapsto> PBegin [7] Locked, 1 \<mapsto> PBegin [7] Waits]\<rparr>"
  by (simp add: demo2_def demo1_world begin_start_def assertAvailable_def upd_tx_def new_Tx_def acquireLocks_round_def
      detectDeadlock_def examineBlocker_def waitFor_def blockers_def new_ResourceSet_def set_add_def after_start_def Let_def)

lemma demo3_world: "demo3 = \<lparr>ls_world = \<lparr>tw_tx = (\<lambda>_. new_Tx False)(0 := (new_Tx False)\<lparr>tx_status := StExclusive, tx_resources := [Resource 7]\<rparr>,
    1 := (new_Tx False)\<lparr>tx_status := StWaiting, tx_resources := [Resource 7], tx_waitingOn := Some [0]\<rparr>),
    tw_lockedBy = [7 \<mapsto> 0], tw_env = []\<rparr>, ls_pending = [1 \<mapsto> PBegin [7] Waits]\<rparr>"
  by (simp add: demo3_def demo2_world begin_finish_def upd_tx_def new_Tx_def fun_upd_twist)

lemma demo0_reachable: "(orderly_step eo)\<^sup>*\<^sup>* (lock_init (\<lambda>_. False) []) demo0"
proof -
  let ?s = "lock_init (\<lambda>_. False) [] :: (nat \<times> nat) list lock_state"
  let ?s1 = "?s\<lparr>ls_world := snd (addResourcesSync 0 [Resource 7] (ls_world ?s))\<rparr>"
  have "\<forall>u. status_of u (ls_world ?s) \<noteq> StWaiting" by (simp add: lock_init_def new_Tx_def)
  from orderly_step_sync [OF this] have "orderly_step eo ?s ?s1" .
  moreover have "\<forall>u. status_of u (ls_world ?s1) \<noteq> StWaiting"
    by (simp add: lock_init_def new_Tx_def addResourcesSync_def assertAvailable_def add_all_resources_def)
  then have "orderly_step eo ?s1 (?s1\<lparr>ls_world := snd (addResourcesSync 1 [Resource 7] (ls_world ?s1))\<rparr>)" by (rule orderly_step_sync)
  ultimately show ?thesis by (simp add: demo0_def Let_def)
qed

lemma demo1_reachable: "(orderly_step eo)\<^sup>*\<^sup>* (lock_init (\<lambda>_. False) []) demo1"
proof (rule rtranclp.rtrancl_into_rtrancl [OF demo0_reachable])
  obtain r w where b: "begin_start 0 (ls_world demo0) = Some (r, w)"
    by (auto simp: demo0_world begin_start_def assertAvailable_def new_Tx_def acquireLocks_round_def
        acquireLocksSync_def blockers_def new_ResourceSet_def set_add_def Let_def)
  have "ls_pending demo0 0 = None" by (simp add: demo0_world)
  from st_begin [OF b, of eo] this b have "lock_step eo demo0 demo1" by (simp add: demo1_def)
  then show "orderly_step eo demo0 demo1" by (simp add: orderly_step_def demo0_world new_Tx_def)
qed

lemma demo2_reachable: "(orderly_step eo)\<^sup>*\<^sup>* (lock_init (\<lambda>_. False) []) demo2"
proof (rule rtranclp.rtrancl_into_rtrancl [OF demo1_reachable])
  obtain r w where b: "begin_start 1 (ls_world demo1) = Some (r, w)"
    by (auto simp: demo1_world begin_start_def assertAvailable_def new_Tx_def acquireLocks_round_def
        detectDeadlock_def examineBlocker_def waitFor_def blockers_def new_ResourceSet_def set_add_def Let_def)
  have "ls_pending demo1 1 = None" by (simp add: demo1_world)
  from st_begin [OF b, of eo] this b have "lock_step eo demo1 demo2" by (simp add: demo2_def)
  then show "orderly_step eo demo1 demo2" by (simp add: orderly_step_def demo1_world demo2_world new_Tx_def)
qed

lemma demo3_reachable: "(orderly_step eo)\<^sup>*\<^sup>* (lock_init (\<lambda>_. False) []) demo3"
proof (rule rtranclp.rtrancl_into_rtrancl [OF demo2_reachable])
  have "ls_pending demo2 0 = Some (PBegin [7] Locked)" by (simp add: demo2_world)
  moreover have "pending_finish 0 (PBegin [7] Locked) (ls_world demo2) = (Inr (), snd (begin_finish 0 Locked (ls_world demo2)))"
    by (simp add: begin_finish_def)
  ultimately have "lock_step eo demo2 demo3" unfolding demo3_def by (intro st_finish) auto
  then show "orderly_step eo demo2 demo3" by (simp add: orderly_step_def demo2_world demo3_world new_Tx_def)
qed

section \<open>Properties\<close>

text \<open>
  C25. In every interleaving in which a transaction has at most one operation suspended and no commit fails in its pre-commit phase while the
  begin of its transaction is suspended, an exclusive transaction holds the locks of all its resources, so two
  exclusive transactions never share a resource, not even through stand-ins.
\<close>

theorem exclusive_holds_locks:
  assumes "(orderly_step eo)\<^sup>*\<^sup>* (lock_init readonly env) s" and "status_of t (ls_world s) = StExclusive"
  shows "(\<forall>res \<in> set (tx_resources (tw_tx (ls_world s) t)). tw_lockedBy (ls_world s) (dereference res) = Some t) \<and>
    (\<forall>u res res'. status_of u (ls_world s) = StExclusive \<and> res \<in> set (tx_resources (tw_tx (ls_world s) t)) \<and>
       res' \<in> set (tx_resources (tw_tx (ls_world s) u)) \<and> dereference res = dereference res' \<longrightarrow> u = t)"
proof -
  have h: "tw_lockedBy (ls_world s) (dereference res) = Some u"
    if "status_of u (ls_world s) = StExclusive" "res \<in> set (tx_resources (tw_tx (ls_world s) u))" for u res
    using orderly_lock_inv [OF assms(1)] that by (auto simp: lock_inv_def tx_inv_def holds_def)
  show ?thesis using h assms(2) by (metis option.inject)
qed

theorem exclusive_holds_locks_witness: "tw_lockedBy (ls_world demo3) 7 = Some 0"
proof -
  have "status_of 0 (ls_world demo3) = StExclusive" and "Resource 7 \<in> set (tx_resources (tw_tx (ls_world demo3) 0))"
    by (simp_all add: demo3_world)
  with exclusive_holds_locks [OF demo3_reachable, where t = 0] show ?thesis by fastforce
qed

text \<open>
  C26. In every interleaving in which a transaction has at most one operation suspended, the transactions that wait form no cycle: following the transactions a
  waiting one waits for always leads to one that does not wait itself.
\<close>

theorem waiting_ends:
  assumes "(lock_step eo)\<^sup>*\<^sup>* (lock_init readonly env) s" and "waitingOn_of (ls_world s) t \<noteq> None"
  shows "acyclic (wait_graph (ls_world s)) \<and>
    (\<exists>u. (t, u) \<in> (wait_graph (ls_world s))\<^sup>+ \<and> waitingOn_of (ls_world s) u = None)"
proof -
  let ?g = "wait_graph (ls_world s)"
  have inv: "finite ?g" "acyclic ?g" "\<And>t. waitingOn_of (ls_world s) t \<noteq> Some []"
    using reachable_wait_inv [OF assms(1)] by (auto simp: wait_inv_def)
  have "wf (?g\<inverse>)" by (rule finite_acyclic_wf_converse) (rule inv)+
  then have "waitingOn_of (ls_world s) t \<noteq> None \<longrightarrow> (\<exists>u. (t, u) \<in> ?g\<^sup>+ \<and> waitingOn_of (ls_world s) u = None)" for t
  proof (induction t rule: wf_induct_rule)
    case (less t)
    show ?case
    proof
      assume "waitingOn_of (ls_world s) t \<noteq> None"
      with inv(3) [of t] obtain b bs where "waitingOn_of (ls_world s) t = Some (b # bs)"
        by (metis list.exhaust option.exhaust)
      then have e: "(t, b) \<in> ?g" by (simp add: waits_def)
      with less.IH [of b] show "\<exists>u. (t, u) \<in> ?g\<^sup>+ \<and> waitingOn_of (ls_world s) u = None"
        by (meson converseI r_into_trancl' trancl_into_trancl2)
    qed
  qed
  with inv(2) assms(2) show ?thesis by blast
qed

theorem waiting_ends_witness: "\<exists>u. (1, u) \<in> (wait_graph (ls_world demo3))\<^sup>+ \<and> waitingOn_of (ls_world demo3) u = None"
proof -
  have "waitingOn_of (ls_world demo3) 1 \<noteq> None" by (simp add: demo3_world)
  from waiting_ends [OF orderly_lock_steps [OF demo3_reachable] this] show ?thesis by blast
qed

text \<open>
  C33. On a finite wait graph the depth-first search of the deadlock detection returns, and it throws
  exactly when one of the blocking transactions waits, directly or through others, for the one that
  is about to wait.
\<close>

theorem detectDeadlock_exact:
  assumes "finite (waits (waitingOn_of w))"
  shows "detectDeadlock t blockedBy w =
    Some (if \<exists>b \<in> set blockedBy. (b, t) \<in> (waits (waitingOn_of w))\<^sup>* then Inl TransactionDeadlockError else Inr ())"
  by (rule detectDeadlock_reach [OF assms])

theorem detectDeadlock_exact_witness:
  "detectDeadlock 0 [1] (ls_world demo3) = Some (Inl TransactionDeadlockError) \<and>
   detectDeadlock 2 [1] (ls_world demo3) = Some (Inr ())"
proof -
  have g: "waits (waitingOn_of (ls_world demo3)) = {(1, 0)}"
    by (auto simp: waits_def demo3_world new_Tx_def split: if_splits)
  then have f: "finite (waits (waitingOn_of (ls_world demo3)))" by simp
  have "(1::nat, 2::nat) \<notin> {(1, 0)}\<^sup>*" by (auto simp: rtrancl_insert)
  then show ?thesis using detectDeadlock_exact [OF f] g by auto
qed

text \<open>
  A transaction that is closed while its \<^verbatim>\<open>begin\<close> has taken the locks but not yet returned becomes exclusive
  again, and its locks stay: even a rollback does not release them, since close has dropped the resources.
\<close>

theorem closed_begin_revives:
  assumes "ls_pending s t = Some (PBegin rs Locked)" and "holds t rs (ls_world s)"
  shows "\<exists>s1 s2. s1 = s\<lparr>ls_world := tx_close t (ls_world s)\<rparr> \<and> lock_step eo s s1 \<and> lock_step eo s1 s2 \<and>
    status_of t (ls_world s2) = StExclusive \<and> holds t rs (ls_world s2) \<and>
    (\<exists>res w. tx_rollback (env_participants eo) t (ls_world s2) = Some (res, w) \<and> holds t rs w)"
proof -
  let ?s1 = "s\<lparr>ls_world := tx_close t (ls_world s)\<rparr>"
  let ?w2 = "set_status t StExclusive (ls_world ?s1)"
  let ?s2 = "?s1\<lparr>ls_world := ?w2, ls_pending := (ls_pending ?s1)(t := None)\<rparr>"
  have "lock_step eo ?s1 ?s2"
    by (rule st_finish [where p = "PBegin rs Locked" and res = "Inr ()"]) (use assms in \<open>simp_all add: begin_finish_def\<close>)
  moreover have h: "holds t rs ?w2" using assms(2) by (simp add: tx_close_def)
  moreover obtain res w where r: "tx_rollback (env_participants eo) t ?w2 = Some (res, w)"
    using executeRollback_env [of eo t "set_status t StRollingBack ?w2"]
    by (auto simp: tx_rollback_def assertAvailable_def finalize_def tx_close_def split: prod.splits)
  moreover have "holds t rs w"
    using rollback_effect [OF r] h by (auto simp: holds_def same_transactions_eqs tx_close_def)
  ultimately show ?thesis using st_close [of eo s t] by (intro exI [of _ ?s1] exI [of _ ?s2]) auto
qed

theorem closed_begin_revives_witness:
  "\<exists>s2. lock_step (log_ops None None) (demo1\<lparr>ls_world := tx_close 0 (ls_world demo1)\<rparr>) s2 \<and>
     status_of 0 (ls_world s2) = StExclusive \<and> tw_lockedBy (ls_world s2) 7 = Some 0"
proof -
  have "ls_pending demo1 0 = Some (PBegin [7] Locked)" "holds 0 [7] (ls_world demo1)"
    by (simp_all add: demo1_world holds_def)
  from closed_begin_revives [OF this, where eo = "log_ops None None"] show ?thesis by (auto simp: holds_def)
qed

text \<open>
  A commit that fails in its pre-commit phase while the begin of its transaction has the locks but has not returned makes the transaction
  shared again; a resource added then is not locked, and the begin still makes the transaction exclusive.
\<close>

theorem failed_commit_unlocks:
  assumes "ls_pending s t = Some (PBegin rs Locked)" and "status_of t (ls_world s) = StWaiting"
    and "executePreCommit (env_participants eo) t (ls_world s) = Some (Inl e, w)"
    and "tw_lockedBy (ls_world s) (dereference x) \<noteq> Some t"
  shows "\<exists>s'. (lock_step eo)\<^sup>*\<^sup>* s s' \<and> status_of t (ls_world s') = StExclusive \<and> x \<in> set (tx_resources (tw_tx (ls_world s') t)) \<and>
    tw_lockedBy (ls_world s') (dereference x) \<noteq> Some t"
proof -
  let ?s1 = "s\<lparr>ls_world := w\<rparr>"
  let ?s2 = "?s1\<lparr>ls_world := add_all_resources t [x] w\<rparr>"
  let ?s3 = "?s2\<lparr>ls_world := set_status t StExclusive (ls_world ?s2), ls_pending := (ls_pending ?s2)(t := None)\<rparr>"
  have w: "same_transactions (set_status t StShared (ls_world s)) w"
    using env.executePreCommit_settled [where t = t and w = "ls_world s" and eo = eo] assms(3) by (auto simp: env.settled_def)
  have st: "status_of t w = StShared" and l: "tw_lockedBy w = tw_lockedBy (ls_world s)" using w by (simp_all add: same_transactions_def)
  have 1: "lock_step eo s ?s1"
    by (rule st_commit [where t = t and res = "Inl e"]) (use assms(2,3) in \<open>simp add: tx_commit_def assertAvailable_def\<close>)
  have 2: "lock_step eo ?s1 ?s2"
    by (rule st_addResourcesSync [where t = t and resources = "[x]" and res = "Inr ()"])
      (use st in \<open>simp add: addResourcesSync_def assertAvailable_def\<close>)
  have 3: "lock_step eo ?s2 ?s3"
    by (rule st_finish [where p = "PBegin rs Locked" and res = "Inr ()"]) (use assms(1) in \<open>simp_all add: begin_finish_def\<close>)
  have "(lock_step eo)\<^sup>*\<^sup>* s ?s3"
    by (rule rtranclp.rtrancl_into_rtrancl [OF rtranclp.rtrancl_into_rtrancl [OF r_into_rtranclp [of "lock_step eo", OF 1] 2] 3])
  with assms(4) l show ?thesis by (intro exI [of _ ?s3]) (simp add: add_all_resources_def)
qed

theorem failed_commit_unlocks_witness:
  "\<exists>s'. (lock_step (log_ops (Some 2) None))\<^sup>*\<^sup>* \<lparr>ls_world = set_status 0 StWaiting run_world, ls_pending = [0 \<mapsto> PBegin [7] Locked]\<rparr> s' \<and>
     status_of 0 (ls_world s') = StExclusive \<and> Resource 5 \<in> set (tx_resources (tw_tx (ls_world s') 0)) \<and>
     tw_lockedBy (ls_world s') 5 \<noteq> Some 0"
proof -
  let ?s = "\<lparr>ls_world = set_status 0 StWaiting run_world, ls_pending = [0 \<mapsto> PBegin [7] Locked]\<rparr>"
  have pre: "executePreCommit (env_participants (log_ops (Some 2) None)) 0 (ls_world ?s) =
      Some (Inl FinalizationError, run_world\<lparr>tw_env := [(4, 1), (4, 2)], tw_tx := tw_tx (set_status 0 StShared run_world)\<rparr>)"
    by (simp add: executePreCommit_def preCommit_loop.simps errorRollback_def executeRollback_def for_participants.simps
        collect_errors_def throwIfErrored_def run_defs upd_tx_def)
  have "tw_lockedBy (ls_world ?s) (dereference (Resource 5)) \<noteq> Some 0" by (simp add: run_world_def)
  from failed_commit_unlocks [OF _ _ pre this] show ?thesis by simp
qed

end
