(* ===== verification/SecureSession.thy ===== *)
theory SecureSession
  imports MessageCodec MessageCounters
begin

text \<open>
  Sessions, \<^verbatim>\<open>session/Session.ts\<close>, \<^verbatim>\<open>SecureSession.ts\<close> and \<^verbatim>\<open>InsecureSession.ts\<close>: the activity of the peer, the keys a
  session is created with, the encryption of its messages, its subscriptions and its end.  Cryptography is a
  parameter: \<open>hkdf\<close> derives key material, \<open>encrypt\<close> and \<open>decrypt\<close> take a key, data, a nonce and the
  authenticated header.  Of a fabric only the numbers the sessions use are kept.  A session has a state of reception
  for the counters of incoming messages; a secure session numbers its own messages, insecure sessions share
  a counter that is not part of them.
\<close>

section \<open>Activity of the peer\<close>

definition MRP_MAX_TRANSMISSIONS :: nat where "MRP_MAX_TRANSMISSIONS = 5"
definition SESSION_ACTIVE_INTERVAL_MS :: int where "SESSION_ACTIVE_INTERVAL_MS = 500"
definition SESSION_IDLE_INTERVAL_MS :: int where "SESSION_IDLE_INTERVAL_MS = 300"
definition SESSION_ACTIVE_THRESHOLD_MS :: int where "SESSION_ACTIVE_THRESHOLD_MS = 4000"

record SessionParameters =
  sp_idleIntervalMs :: int
  sp_activeIntervalMs :: int
  sp_activeThresholdMs :: int

record SessionParameterOptions =
  spo_idleIntervalMs :: "int option"
  spo_activeIntervalMs :: "int option"
  spo_activeThresholdMs :: "int option"

definition or_default :: "int option \<Rightarrow> int \<Rightarrow> int" where
  "or_default v d = (case v of None \<Rightarrow> d | Some x \<Rightarrow> x)"

definition session_parameters :: "SessionParameterOptions option \<Rightarrow> SessionParameters" where
  "session_parameters opts =
     (case opts of
        None \<Rightarrow> \<lparr>sp_idleIntervalMs = SESSION_IDLE_INTERVAL_MS, sp_activeIntervalMs = SESSION_ACTIVE_INTERVAL_MS,
                sp_activeThresholdMs = SESSION_ACTIVE_THRESHOLD_MS\<rparr>
      | Some p \<Rightarrow> \<lparr>sp_idleIntervalMs = or_default (spo_idleIntervalMs p) SESSION_IDLE_INTERVAL_MS,
                 sp_activeIntervalMs = or_default (spo_activeIntervalMs p) SESSION_ACTIVE_INTERVAL_MS,
                 sp_activeThresholdMs = or_default (spo_activeThresholdMs p) SESSION_ACTIVE_THRESHOLD_MS\<rparr>)"

record Session =
  s_timestamp :: int
  s_activeTimestamp :: int
  s_parameters :: SessionParameters
  s_messageReceptionState :: MessageReceptionState

definition new_Session :: "int \<Rightarrow> SessionParameterOptions option \<Rightarrow> bool \<Rightarrow> MessageReceptionState \<Rightarrow> Session" where
  "new_Session now opts setActiveTimestamp messageReceptionState =
     \<lparr>s_timestamp = now, s_activeTimestamp = (if setActiveTimestamp then now else 0),
      s_parameters = session_parameters opts, s_messageReceptionState = messageReceptionState\<rparr>"

definition notifyActivity :: "int \<Rightarrow> bool \<Rightarrow> 'a Session_scheme \<Rightarrow> 'a Session_scheme" where
  "notifyActivity now messageReceived s =
     (let s = s\<lparr>s_timestamp := now\<rparr>
      in if messageReceived then s\<lparr>s_activeTimestamp := s_timestamp s\<rparr> else s)"

definition isPeerActive :: "int \<Rightarrow> 'a Session_scheme \<Rightarrow> bool" where
  "isPeerActive now s \<longleftrightarrow> now - s_activeTimestamp s < sp_activeThresholdMs (s_parameters s)"

definition session_updateMessageCounter :: "int \<Rightarrow> 'a Session_scheme \<Rightarrow> 'a Session_scheme result" where
  "session_updateMessageCounter messageCounter s =
     rbind (updateMessageCounter messageCounter (s_messageReceptionState s)) (\<lambda>state.
       Inr (s\<lparr>s_messageReceptionState := state\<rparr>))"

definition getSessionParameters :: "'a Session_scheme \<Rightarrow> SessionParameters" where
  "getSessionParameters s = s_parameters s"

section \<open>Secure sessions\<close>

definition UNSPECIFIED_NODE_ID :: int where "UNSPECIFIED_NODE_ID = 0"

record Fabric =
  fa_fabricId :: int
  fa_nodeId :: int
  fa_rootNodeId :: int

record SecureSession = Session +
  ss_id :: int
  ss_fabric :: "Fabric option"
  ss_peerNodeId :: int
  ss_peerSessionId :: int
  ss_decryptKey :: "byte list"
  ss_encryptKey :: "byte list"
  ss_attestationKey :: "byte list"
  ss_subscriptions :: "int list"
  ss_closingAfterExchangeFinished :: bool
  ss_sendCloseMessageWhenClosing :: bool
  ss_messageCounter :: MessageCounter

definition SESSION_KEYS_INFO :: "byte list" where
  "SESSION_KEYS_INFO = fromString (map of_char ''SessionKeys'')"

definition SESSION_RESUMPTION_KEYS_INFO :: "byte list" where
  "SESSION_RESUMPTION_KEYS_INFO = fromString (map of_char ''SessionResumptionKeys'')"

definition CRYPTO_SYMMETRIC_KEY_LENGTH :: nat where "CRYPTO_SYMMETRIC_KEY_LENGTH = 16"

definition key_slice :: "nat \<Rightarrow> nat \<Rightarrow> byte list \<Rightarrow> byte list" where
  "key_slice a b keys = take (b - a) (drop a keys)"

definition new_SecureSession ::
  "int \<Rightarrow> int \<Rightarrow> SessionParameterOptions option \<Rightarrow> int \<Rightarrow> Fabric option \<Rightarrow> int \<Rightarrow> int \<Rightarrow>
   byte list \<Rightarrow> byte list \<Rightarrow> byte list \<Rightarrow> SecureSession" where
  "new_SecureSession now randomUInt32 opts sid fabric peerNodeId peerSessionId decryptKey encryptKey attestationKey =
     Session.extend (new_Session now opts True (new_MessageReceptionState EncryptedWithoutRollover None))
       \<lparr>ss_id = sid, ss_fabric = fabric, ss_peerNodeId = peerNodeId, ss_peerSessionId = peerSessionId,
        ss_decryptKey = decryptKey, ss_encryptKey = encryptKey, ss_attestationKey = attestationKey,
        ss_subscriptions = [], ss_closingAfterExchangeFinished = False, ss_sendCloseMessageWhenClosing = True,
        ss_messageCounter = new_MessageCounter randomUInt32 True ROLLOVER_INFO_DIFFERENCE\<rparr>"

definition create_session ::
  "(byte list \<Rightarrow> byte list \<Rightarrow> byte list \<Rightarrow> nat \<Rightarrow> byte list) \<Rightarrow> int \<Rightarrow> int \<Rightarrow> SessionParameterOptions option \<Rightarrow> int \<Rightarrow>
   Fabric option \<Rightarrow> int \<Rightarrow> int \<Rightarrow> byte list \<Rightarrow> byte list \<Rightarrow> bool \<Rightarrow> bool \<Rightarrow> SecureSession" where
  "create_session hkdf now randomUInt32 opts sid fabric peerNodeId peerSessionId sharedSecret salt isInitiator isResumption =
     (let keys = hkdf sharedSecret salt (if isResumption then SESSION_RESUMPTION_KEYS_INFO else SESSION_KEYS_INFO)
                   (CRYPTO_SYMMETRIC_KEY_LENGTH * 3);
          decryptKey = (if isInitiator then key_slice 16 32 keys else key_slice 0 16 keys);
          encryptKey = (if isInitiator then key_slice 0 16 keys else key_slice 16 32 keys);
          attestationKey = key_slice 32 48 keys
      in new_SecureSession now randomUInt32 opts sid fabric peerNodeId peerSessionId decryptKey encryptKey attestationKey)"

definition isPase :: "SecureSession \<Rightarrow> bool" where
  "isPase s \<longleftrightarrow> ss_peerNodeId s = UNSPECIFIED_NODE_ID"

definition session_nodeId :: "SecureSession \<Rightarrow> int" where
  "session_nodeId s = (case ss_fabric s of None \<Rightarrow> UNSPECIFIED_NODE_ID | Some f \<Rightarrow> fa_nodeId f)"

definition associatedFabric :: "SecureSession \<Rightarrow> Fabric result" where
  "associatedFabric s = (case ss_fabric s of None \<Rightarrow> Inl PlainError | Some f \<Rightarrow> Inr f)"

definition addAssociatedFabric :: "Fabric \<Rightarrow> SecureSession \<Rightarrow> SecureSession result" where
  "addAssociatedFabric fabric s =
     (if ss_fabric s \<noteq> None then Inl MatterFlowError else Inr (s\<lparr>ss_fabric := Some fabric\<rparr>))"

subsection \<open>Messages\<close>

definition generateNonce :: "int \<Rightarrow> int \<Rightarrow> int \<Rightarrow> byte list result" where
  "generateNonce securityFlags messageId nodeId =
     written (writeUInt64 nodeId (writeUInt32 messageId (writeUInt8 securityFlags (new_DataWriter Little))))"

type_synonym cipher = "byte list \<Rightarrow> byte list \<Rightarrow> byte list \<Rightarrow> byte list \<Rightarrow> byte list"
type_synonym decipher = "byte list \<Rightarrow> byte list \<Rightarrow> byte list \<Rightarrow> byte list \<Rightarrow> byte list result"

definition session_encode :: "cipher \<Rightarrow> SecureSession \<Rightarrow> PacketHeader Message \<Rightarrow> PacketHeader Packet result" where
  "session_encode encrypt s message =
     (let message = message\<lparr>msg_packetHeader := (msg_packetHeader message)\<lparr>ph_sessionId := ss_peerSessionId s\<rparr>\<rparr>
      in rbind (encodePayload message) (\<lambda>packet.
         rbind (encodePacketHeader (msg_packetHeader message)) (\<lambda>headerBytes.
           let securityFlags = uint (headerBytes ! 3);
               sessionNodeId = (if isPase s then UNSPECIFIED_NODE_ID else session_nodeId s)
           in rbind (generateNonce securityFlags (ph_messageId (pk_header packet)) sessionNodeId) (\<lambda>nonce.
              Inr \<lparr>pk_header = pk_header packet, pk_messageExtension = None,
                   pk_applicationPayload = encrypt (ss_encryptKey s) (pk_applicationPayload packet) nonce headerBytes\<rparr>))))"

definition session_decode :: "decipher \<Rightarrow> SecureSession \<Rightarrow> DecodedPacketHeader Packet \<Rightarrow> byte list \<Rightarrow> DecodedPacketHeader Message result" where
  "session_decode decrypt s packet aad =
     (let header = pk_header packet
      in rbind (generateNonce (ph_securityFlags header) (ph_messageId header) (ss_peerNodeId s)) (\<lambda>nonce.
         rbind (decrypt (ss_decryptKey s) (pk_applicationPayload packet) nonce aad) (\<lambda>payload.
           decodePayload \<lparr>pk_header = header, pk_messageExtension = None, pk_applicationPayload = payload\<rparr>)))"

text \<open>\<^verbatim>\<open>MessageChannel.send\<close> and the first half of \<^verbatim>\<open>ExchangeManager.onMessage\<close> for a session: the bytes on the wire.\<close>

definition channel_bytes :: "cipher \<Rightarrow> SecureSession \<Rightarrow> PacketHeader Message \<Rightarrow> byte list result" where
  "channel_bytes encrypt s message = rbind (session_encode encrypt s message) encodePacket"

definition received_message :: "decipher \<Rightarrow> SecureSession \<Rightarrow> byte list \<Rightarrow> DecodedPacketHeader Message result" where
  "received_message decrypt s messageBytes =
     rbind (decodePacket messageBytes) (\<lambda>packet.
       let aad = take (length messageBytes - length (pk_applicationPayload packet)) messageBytes
       in session_decode decrypt s packet aad)"

subsection \<open>Subscriptions and the end of a session\<close>

definition addSubscription :: "int \<Rightarrow> SecureSession \<Rightarrow> SecureSession" where
  "addSubscription subscriptionId s = s\<lparr>ss_subscriptions := ss_subscriptions s @ [subscriptionId]\<rparr>"

definition removeSubscription :: "int \<Rightarrow> SecureSession \<Rightarrow> SecureSession" where
  "removeSubscription subscriptionId s = s\<lparr>ss_subscriptions := remove1 subscriptionId (ss_subscriptions s)\<rparr>"

text \<open>
  What cancelling a subscription does to its session: it takes itself off the session's list.  The list of
  cancelled subscriptions, with the flag whether data was flushed, is kept beside the session.
\<close>

definition cancel_subscription ::
  "bool \<Rightarrow> int \<Rightarrow> SecureSession \<times> (int \<times> bool) list \<Rightarrow> SecureSession \<times> (int \<times> bool) list" where
  "cancel_subscription flush subscriptionId =
     (\<lambda>(s, cancelled). (removeSubscription subscriptionId s, cancelled @ [(subscriptionId, flush)]))"

text \<open>The iteration reads the live array: position \<open>i\<close> after every cancellation.\<close>

function clear_loop ::
  "bool \<Rightarrow> nat \<Rightarrow> SecureSession \<times> (int \<times> bool) list \<Rightarrow> SecureSession \<times> (int \<times> bool) list" where
  "clear_loop flush i (s, cancelled) =
     (if i < length (ss_subscriptions s)
      then clear_loop flush (i + 1) (cancel_subscription flush (ss_subscriptions s ! i) (s, cancelled))
      else (s, cancelled))"
  by auto
termination
  by (relation "measure (\<lambda>(_, i, s, _). length (ss_subscriptions s) - i)")
    (auto simp: cancel_subscription_def removeSubscription_def length_remove1)

declare clear_loop.simps [simp del]

definition clearSubscriptions ::
  "bool \<Rightarrow> SecureSession \<times> (int \<times> bool) list \<Rightarrow> SecureSession \<times> (int \<times> bool) list" where
  "clearSubscriptions flushSubscriptions w =
     (let (s, cancelled) = clear_loop flushSubscriptions 0 w
      in (s\<lparr>ss_subscriptions := []\<rparr>, cancelled))"

text \<open>\<^verbatim>\<open>destroy\<close> returns whether the close callback is called, which removes the session from its manager.\<close>

definition destroy_session ::
  "bool \<Rightarrow> bool \<Rightarrow> SecureSession \<times> (int \<times> bool) list \<Rightarrow> (SecureSession \<times> (int \<times> bool) list) \<times> bool" where
  "destroy_session sendClose closeAfterExchangeFinished w =
     (let (s, cancelled) = clearSubscriptions False w;
          s = (if \<not> sendClose then s\<lparr>ss_sendCloseMessageWhenClosing := False\<rparr> else s)
      in if closeAfterExchangeFinished then ((s\<lparr>ss_closingAfterExchangeFinished := True\<rparr>, cancelled), False)
         else ((s, cancelled), True))"

definition end_session ::
  "bool \<Rightarrow> bool \<Rightarrow> SecureSession \<times> (int \<times> bool) list \<Rightarrow> (SecureSession \<times> (int \<times> bool) list) \<times> bool" where
  "end_session sendClose closeAfterExchangeFinished w =
     destroy_session sendClose closeAfterExchangeFinished (clearSubscriptions True w)"

definition close_session ::
  "int \<Rightarrow> bool option \<Rightarrow> SecureSession \<times> (int \<times> bool) list \<Rightarrow> (SecureSession \<times> (int \<times> bool) list) \<times> bool" where
  "close_session now closeAfterExchangeFinished w =
     end_session True
       (case closeAfterExchangeFinished of None \<Rightarrow> isPeerActive now (fst w) | Some b \<Rightarrow> b) w"

section \<open>Insecure sessions\<close>

text \<open>Sessions are compared as objects; \<open>is_ref\<close> tells one from another.\<close>

record InsecureSession = Session +
  is_initiatorNodeId :: int
  is_ref :: nat

definition new_InsecureSession :: "int \<Rightarrow> SessionParameterOptions option \<Rightarrow> int option \<Rightarrow> bool \<Rightarrow> int \<Rightarrow> nat \<Rightarrow> InsecureSession" where
  "new_InsecureSession now opts initiatorNodeId isInitiator randomNodeId ref =
     Session.extend (new_Session now opts (\<not> isInitiator) (new_MessageReceptionState UnencryptedWithRollover None))
       \<lparr>is_initiatorNodeId = (case initiatorNodeId of None \<Rightarrow> randomNodeId | Some n \<Rightarrow> n), is_ref = ref\<rparr>"

definition insecure_encode :: "PacketHeader Message \<Rightarrow> PacketHeader Packet result" where
  "insecure_encode message = encodePayload message"

definition insecure_decode :: "DecodedPacketHeader Packet \<Rightarrow> DecodedPacketHeader Message result" where
  "insecure_decode packet = decodePayload packet"

section \<open>The two ends of a session understand each other\<close>

text \<open>Both ends derive the same keys, in opposite roles.\<close>

lemma create_session_keys:
  "ss_encryptKey (create_session hkdf now rnd opts sid f pn ps secret salt i res) =
     ss_decryptKey (create_session hkdf now' rnd' opts' sid' f' pn' ps' secret salt (\<not> i) res)"
  "ss_attestationKey (create_session hkdf now rnd opts sid f pn ps secret salt i res) =
     ss_attestationKey (create_session hkdf now' rnd' opts' sid' f' pn' ps' secret salt i' res)"
  by (simp_all add: create_session_def new_SecureSession_def Let_def Session.defs)

lemma generateNonce_ok:
  "\<exists>n. generateNonce a b c = Inr n \<and> (a = a' \<longrightarrow> b = b' \<longrightarrow> c = c' \<longrightarrow> generateNonce a' b' c' = Inr n)"
  by (auto simp: generateNonce_def)

lemma header_byte_3:
  assumes "packet_header_ok h" and "encodePacketHeader h = Inr bs"
  shows "uint (bs ! 3) = session_type_number (ph_sessionType h)"
proof -
  obtain a where "le_bytes 1 (packet_flags h) = [a]" by (simp add: le_bytes_byte)
  moreover obtain b c where "le_bytes 2 (ph_sessionId h) = [b, c]" by (simp add: numeral_2_eq_2)
  ultimately have "bs ! 3 = word_of_int (session_type_number (ph_sessionType h))"
    using assms by (auto simp: encodePacketHeader_bytes le_bytes_byte numeral_3_eq_3)
  then show ?thesis by (cases "ph_sessionType h") simp_all
qed


text \<open>A session between a controller and a device, with the keys cut from a fixed key stream and a cipher that reverses.\<close>

definition sample_hkdf :: "byte list \<Rightarrow> byte list \<Rightarrow> byte list \<Rightarrow> nat \<Rightarrow> byte list" where
  "sample_hkdf secret salt info n = map of_nat [0..<n]"

definition sample_session :: "bool \<Rightarrow> SecureSession" where
  "sample_session isInitiator =
     create_session sample_hkdf 0 1000 None (if isInitiator then 100 else 200)
       (Some \<lparr>fa_fabricId = 1, fa_nodeId = (if isInitiator then 11 else 22), fa_rootNodeId = 11\<rparr>)
       (if isInitiator then 22 else 11) (if isInitiator then 200 else 100) [1] [2] isInitiator False"

definition sample_secure_message :: "PacketHeader Message" where
  "sample_secure_message =
     \<lparr>msg_packetHeader = \<lparr>ph_sessionId = 0, ph_sessionType = Unicast, ph_hasPrivacyEnhancements = False,
        ph_isControlMessage = False, ph_hasMessageExtensions = False, ph_messageId = 77, ph_sourceNodeId = None,
        ph_destNodeId = None, ph_destGroupId = None\<rparr>,
      msg_payloadHeader = \<lparr>pl_exchangeId = 3, pl_protocolId = 1, pl_messageType = 2, pl_isInitiatorMessage = True,
        pl_requiresAck = True, pl_ackedMessageId = None, pl_hasSecuredExtension = False\<rparr>,
      msg_securityExtension = None, msg_payload = [1, 2, 3]\<rparr>"


section \<open>Clearing the subscriptions\<close>

text \<open>The first of a list, the third, and so on.\<close>

fun every_other :: "'a list \<Rightarrow> 'a list" where
  "every_other (x # y # xs) = x # every_other xs"
| "every_other xs = xs"

lemma clear_loop_step:
  assumes "distinct (ss_subscriptions s)" and "ss_subscriptions s = pre @ x # rest"
  shows "clear_loop flush (length pre) (s, cancelled) =
    clear_loop flush (length pre + 1) (s\<lparr>ss_subscriptions := pre @ rest\<rparr>, cancelled @ [(x, flush)])"
  using assms by (auto simp: clear_loop.simps [of flush "length pre"] cancel_subscription_def removeSubscription_def
      remove1_append)

lemma clear_loop_cancelled:
  assumes "distinct (ss_subscriptions s)" and "ss_subscriptions s = pre @ rest"
  shows "snd (clear_loop flush (length pre) (s, cancelled)) = cancelled @ map (\<lambda>x. (x, flush)) (every_other rest)"
  using assms
proof (induction rest arbitrary: s pre cancelled rule: every_other.induct)
  case (1 x y xs)
  let ?s = "s\<lparr>ss_subscriptions := pre @ y # xs\<rparr>"
  have "snd (clear_loop flush (length (pre @ [y])) (?s, cancelled @ [(x, flush)])) =
      (cancelled @ [(x, flush)]) @ map (\<lambda>x. (x, flush)) (every_other xs)"
    using "1.prems" by (intro "1.IH") auto
  with "1.prems" show ?case by (simp add: clear_loop_step)
next
  case "2_1"
  then show ?case by (simp add: clear_loop.simps [of flush "length pre"])
next
  case "2_2"
  then show ?case by (simp add: clear_loop_step clear_loop.simps [of flush "Suc (length pre)"])
qed

text \<open>Ending a session cancels only every other one of its subscriptions: each cancellation takes the subscription off the
  array that is being iterated over, so the next one is skipped; the array is then emptied, and the skipped
  subscriptions are never cancelled.\<close>

theorem end_session_skips_subscriptions:
  assumes "distinct (ss_subscriptions s)"
  shows "snd (fst (end_session sendClose closeAfter (s, []))) = map (\<lambda>x. (x, True)) (every_other (ss_subscriptions s)) \<and>
    ss_subscriptions (fst (fst (end_session sendClose closeAfter (s, [])))) = []"
proof -
  obtain s1 where s1: "clear_loop True 0 (s, []) = (s1, map (\<lambda>x. (x, True)) (every_other (ss_subscriptions s)))"
    using clear_loop_cancelled [OF assms, of "[]" "ss_subscriptions s" True "[]"]
    by (cases "clear_loop True 0 (s, [])") auto
  moreover have "clear_loop False 0 (s1\<lparr>ss_subscriptions := []\<rparr>, c) = (s1\<lparr>ss_subscriptions := []\<rparr>, c)" for c
    by (simp add: clear_loop.simps [of False 0])
  ultimately show ?thesis
    by (simp add: end_session_def destroy_session_def clearSubscriptions_def Let_def)
qed

theorem end_session_skips_subscriptions_witness:
  "snd (fst (end_session True False ((sample_session True)\<lparr>ss_subscriptions := [1, 2, 3]\<rparr>, []))) = [(1, True), (3, True)]"
  using end_session_skips_subscriptions [of "(sample_session True)\<lparr>ss_subscriptions := [1, 2, 3]\<rparr>" True False] by simp

end
