(* ===== verification/MessageQueue.thy ===== *)
theory MessageQueue
  imports Prelude
begin

text \<open>
  The queue between an exchange and its reader, \<^verbatim>\<open>util/Queue.ts\<close>.  A call of \<^verbatim>\<open>read\<close> that has to wait leaves
  \<^verbatim>\<open>pendingRead\<close> behind; its promise is open until it is resolved or rejected, and its timer runs as long
  as it is open.  What happens to the promises of readers is the output of an operation; a promise that
  is settled already ignores further calls, as the language prescribes.
\<close>

section \<open>Operations\<close>

record pending_read =
  pr_reader :: nat
  pr_open :: bool

record 'a Queue =
  q_queue :: "'a list"
  q_pendingRead :: "pending_read option"
  q_closed :: bool

datatype 'a read_event = ReadGets nat 'a | ReadFails nat matter_error

definition new_Queue :: "'a Queue" where
  "new_Queue = \<lparr>q_queue = [], q_pendingRead = None, q_closed = False\<rparr>"

text \<open>\<open>Inr None\<close> when the reader waits.\<close>

definition queue_read :: "nat \<Rightarrow> 'a Queue \<Rightarrow> 'a option result \<times> 'a Queue" where
  "queue_read reader q =
     (if q_closed q then (Inl EndOfStreamError, q)
      else case q_queue q of
             data # rest \<Rightarrow> (Inr (Some data), q\<lparr>q_queue := rest\<rparr>)
           | [] \<Rightarrow>
               if q_pendingRead q \<noteq> None then (Inl MatterFlowError, q)
               else (Inr None, q\<lparr>q_pendingRead := Some \<lparr>pr_reader = reader, pr_open = True\<rparr>\<rparr>))"

definition queue_write :: "'a \<Rightarrow> 'a Queue \<Rightarrow> 'a read_event list result \<times> 'a Queue" where
  "queue_write data q =
     (if q_closed q then (Inl EndOfStreamError, q)
      else case q_pendingRead q of
             Some p \<Rightarrow> (Inr (if pr_open p then [ReadGets (pr_reader p) data] else []), q\<lparr>q_pendingRead := None\<rparr>)
           | None \<Rightarrow> (Inr [], q\<lparr>q_queue := q_queue q @ [data]\<rparr>))"

text \<open>The timer of a pending read runs out: the promise is rejected, \<^verbatim>\<open>pendingRead\<close> stays.\<close>

definition queue_timeout :: "'a Queue \<Rightarrow> 'a read_event list \<times> 'a Queue" where
  "queue_timeout q =
     (case q_pendingRead q of
        Some p \<Rightarrow>
          if pr_open p then ([ReadFails (pr_reader p) NoResponseTimeoutError], q\<lparr>q_pendingRead := Some (p\<lparr>pr_open := False\<rparr>)\<rparr>)
          else ([], q)
      | None \<Rightarrow> ([], q))"

definition queue_close :: "'a Queue \<Rightarrow> 'a read_event list \<times> 'a Queue" where
  "queue_close q =
     (if q_closed q then ([], q)
      else let q = q\<lparr>q_closed := True\<rparr> in
        (case q_pendingRead q of
           None \<Rightarrow> ([], q)
         | Some p \<Rightarrow> (if pr_open p then [ReadFails (pr_reader p) EndOfStreamError] else [],
                       q\<lparr>q_pendingRead := Some (p\<lparr>pr_open := False\<rparr>)\<rparr>)))"

section \<open>A queue is first in, first out\<close>

datatype 'a queue_op = QRead nat | QWrite 'a | QTimeout | QClose

text \<open>A history: what has been accepted from writers and what readers have got, in order.\<close>

record 'a queue_history =
  qh_queue :: "'a Queue"
  qh_written :: "'a list"
  qh_got :: "'a list"

definition gets :: "'a read_event list \<Rightarrow> 'a list" where
  "gets evs = concat (map (\<lambda>e. case e of ReadGets _ d \<Rightarrow> [d] | ReadFails _ _ \<Rightarrow> []) evs)"

fun queue_do :: "'a queue_op \<Rightarrow> 'a queue_history \<Rightarrow> 'a queue_history" where
  "queue_do (QRead r) h =
     (case queue_read r (qh_queue h) of
        (Inr (Some d), q) \<Rightarrow> h\<lparr>qh_queue := q, qh_got := qh_got h @ [d]\<rparr>
      | (_, q) \<Rightarrow> h\<lparr>qh_queue := q\<rparr>)"
| "queue_do (QWrite d) h =
     (case queue_write d (qh_queue h) of
        (Inr evs, q) \<Rightarrow> h\<lparr>qh_queue := q, qh_written := qh_written h @ [d], qh_got := qh_got h @ gets evs\<rparr>
      | (Inl _, q) \<Rightarrow> h\<lparr>qh_queue := q\<rparr>)"
| "queue_do QTimeout h = h\<lparr>qh_queue := snd (queue_timeout (qh_queue h))\<rparr>"
| "queue_do QClose h = h\<lparr>qh_queue := snd (queue_close (qh_queue h))\<rparr>"

definition new_history :: "'a queue_history" where
  "new_history = \<lparr>qh_queue = new_Queue, qh_written = [], qh_got = []\<rparr>"

definition queue_inv :: "'a queue_history \<Rightarrow> bool" where
  "queue_inv h \<longleftrightarrow> qh_written h = qh_got h @ q_queue (qh_queue h) \<and>
     (\<forall>p. q_pendingRead (qh_queue h) = Some p \<longrightarrow> q_queue (qh_queue h) = [] \<and> (pr_open p \<or> q_closed (qh_queue h)))"

lemma queue_do_inv: "queue_inv h \<Longrightarrow> op \<noteq> QTimeout \<Longrightarrow> queue_inv (queue_do op h)"
proof -
  assume h: "queue_inv h" and "op \<noteq> QTimeout"
  then consider r where "op = QRead r" | d where "op = QWrite d" | "op = QClose" by (cases op) auto
  then show "queue_inv (queue_do op h)"
  proof cases
    case (1 r)
    with h show ?thesis
      by (cases "q_closed (qh_queue h)"; cases "q_queue (qh_queue h)"; cases "q_pendingRead (qh_queue h)")
        (simp_all add: queue_inv_def queue_read_def)
  next
    case (2 d)
    with h show ?thesis
      by (cases "q_closed (qh_queue h)"; cases "q_pendingRead (qh_queue h)")
        (simp_all add: queue_inv_def queue_write_def gets_def)
  next
    case 3
    with h show ?thesis
      by (cases "q_closed (qh_queue h)"; cases "q_pendingRead (qh_queue h)") (simp_all add: queue_inv_def queue_close_def)
  qed
qed

lemma queue_run_inv: "queue_inv h \<Longrightarrow> QTimeout \<notin> set ops \<Longrightarrow> queue_inv (fold queue_do ops h)"
proof (induction ops arbitrary: h)
  case Nil
  then show ?case by simp
next
  case (Cons op ops)
  have "queue_inv (queue_do op h)" by (rule queue_do_inv) (use Cons.prems in auto)
  with Cons show ?case by simp
qed

text \<open>
  As long as no read times out, readers get exactly the messages that were written, each once and in
  order, whatever the interleaving of reads, writes and close; what they have not got is in the queue.
\<close>

theorem queue_fifo:
  assumes "QTimeout \<notin> set ops"
  shows "qh_written (fold queue_do ops new_history) =
    qh_got (fold queue_do ops new_history) @ q_queue (qh_queue (fold queue_do ops new_history))"
proof -
  have "queue_inv new_history" by (simp add: queue_inv_def new_history_def new_Queue_def)
  from queue_run_inv [OF this assms] show ?thesis by (simp add: queue_inv_def)
qed

theorem queue_fifo_witness:
  "qh_got (fold queue_do [QRead 1, QWrite (10::nat), QWrite 20, QRead 2, QClose] new_history) = [10, 20]"
  using queue_fifo [of "[QRead 1, QWrite (10::nat), QWrite 20, QRead 2, QClose]"]
  by (simp add: new_history_def new_Queue_def queue_read_def queue_write_def queue_close_def gets_def)

text \<open>
  A read that has timed out stays registered: the next message written goes to its dead promise
  and is lost, and until then every other read of the empty queue is refused.
\<close>

theorem timed_out_read_loses_message:
  assumes "q_pendingRead q = Some p" and "pr_open p" and "q_queue q = []" and "\<not> q_closed q"
  shows "fst (queue_read r (snd (queue_timeout q))) = Inl MatterFlowError \<and>
    queue_write d (snd (queue_timeout q)) = (Inr [], q\<lparr>q_pendingRead := None\<rparr>)"
  using assms by (simp add: queue_timeout_def queue_read_def queue_write_def)

end
