(* ===== verification/Exchange.thy ===== *)
theory Exchange
  imports SecureSession MessageQueue
begin

text \<open>
  A message exchange, \<^verbatim>\<open>protocol/MessageExchange.ts\<close>: reliable messaging with acknowledgements that are
  piggy-backed or sent alone, retransmission, and closing.

  Every definition is one section of an asynchronous method, up to its next \<^verbatim>\<open>await\<close>; what it does to
  the outside is its output.  A timer is the flag whether it runs and may fire whenever it does: the
  back-off times, and with them the activity timestamps of the session, are not modelled.  The
  retransmission timers are kept by number, since one that is replaced in \<^verbatim>\<open>retransmissionTimer\<close> still runs.
  \<^verbatim>\<open>sentMessageAckSuccess\<close> and \<^verbatim>\<open>sentMessageAckFailure\<close> are always set and cleared together; \<open>ex_sentMessageAck\<close> is the call
  of \<^verbatim>\<open>send\<close> whose promise they settle.
\<close>

section \<open>State\<close>

type_synonym message = "PacketHeader Message"

abbreviation message_id :: "message \<Rightarrow> int" where
  "message_id m \<equiv> ph_messageId (msg_packetHeader m)"

abbreviation requires_ack :: "message \<Rightarrow> bool" where
  "requires_ack m \<equiv> pl_requiresAck (msg_payloadHeader m)"

abbreviation acked_id :: "message \<Rightarrow> int option" where
  "acked_id m \<equiv> pl_ackedMessageId (msg_payloadHeader m)"

definition SECURE_CHANNEL_PROTOCOL_ID :: int where "SECURE_CHANNEL_PROTOCOL_ID = 0"
definition StandaloneAck :: int where "StandaloneAck = 0x10"

definition isStandaloneAck :: "int \<Rightarrow> int \<Rightarrow> bool" where
  "isStandaloneAck protocolId messageType \<longleftrightarrow> protocolId = SECURE_CHANNEL_PROTOCOL_ID \<and> messageType = StandaloneAck"

abbreviation standalone :: "message \<Rightarrow> bool" where
  "standalone m \<equiv> isStandaloneAck (pl_protocolId (msg_payloadHeader m)) (pl_messageType (msg_payloadHeader m))"

record ExchangeSendOptions =
  so_expectAckOnly :: bool
  so_minimumResponseTimeoutMs :: "int option"
  so_requiresAck :: "bool option"
  so_includeAcknowledgeMessageId :: "int option"

text \<open>The time before which retransmission goes on; it is fixed when the timer fires first.\<close>

datatype deadline = NoDeadline | FromFirstFiring int | Until int

record retransmission =
  rt_message :: message
  rt_count :: nat
  rt_deadline :: deadline

record MessageExchange =
  ex_isInitiator :: bool
  ex_peerSessionId :: int
  ex_nodeId :: "int option"
  ex_peerNodeId :: "int option"
  ex_exchangeId :: int
  ex_protocolId :: int
  ex_retransmissionRetries :: nat
  ex_messagesQueue :: "message Queue"
  ex_receivedMessageToAck :: "message option"
  ex_receivedMessageAckTimer :: bool
  ex_sentMessageToAck :: "message option"
  ex_sentMessageAck :: "nat option"
  ex_retransmissionTimer :: "nat option"
  ex_timers :: "nat \<rightharpoonup> retransmission \<times> bool"
  ex_nextTimer :: nat
  ex_closeTimer :: "bool option"
  ex_timedInteractionTimer :: "bool option"

definition new_MessageExchange ::
  "bool \<Rightarrow> int \<Rightarrow> int option \<Rightarrow> int option \<Rightarrow> int \<Rightarrow> int \<Rightarrow> MessageExchange" where
  "new_MessageExchange isInitiator peerSessionId nodeId peerNodeId exchangeId protocolId =
     \<lparr>ex_isInitiator = isInitiator, ex_peerSessionId = peerSessionId, ex_nodeId = nodeId, ex_peerNodeId = peerNodeId,
      ex_exchangeId = exchangeId, ex_protocolId = protocolId, ex_retransmissionRetries = MRP_MAX_TRANSMISSIONS,
      ex_messagesQueue = new_Queue, ex_receivedMessageToAck = None, ex_receivedMessageAckTimer = False,
      ex_sentMessageToAck = None, ex_sentMessageAck = None, ex_retransmissionTimer = None, ex_timers = Map.empty,
      ex_nextTimer = 0, ex_closeTimer = None, ex_timedInteractionTimer = None\<rparr>"

definition fromInitialMessage :: "int \<Rightarrow> message \<Rightarrow> MessageExchange" where
  "fromInitialMessage sessionId m =
     new_MessageExchange False sessionId (ph_destNodeId (msg_packetHeader m)) (ph_sourceNodeId (msg_packetHeader m))
       (pl_exchangeId (msg_payloadHeader m)) (pl_protocolId (msg_payloadHeader m))"

definition initiate :: "int \<Rightarrow> int option \<Rightarrow> int option \<Rightarrow> int \<Rightarrow> int \<Rightarrow> MessageExchange" where
  "initiate peerSessionId nodeId peerNodeId exchangeId protocolId =
     new_MessageExchange True peerSessionId nodeId peerNodeId exchangeId protocolId"

datatype exchange_output =
    Transmit message
  | AckSuccess nat message
  | AckFailure nat matter_error
  | QueueEvent "message read_event"
  | CloseCallback

section \<open>Timers\<close>

definition stop_retransmission :: "MessageExchange \<Rightarrow> MessageExchange" where
  "stop_retransmission ex =
     (case ex_retransmissionTimer ex of
        None \<Rightarrow> ex
      | Some i \<Rightarrow> ex\<lparr>ex_timers := (ex_timers ex)(i := map_option (\<lambda>(r, _). (r, False)) (ex_timers ex i))\<rparr>)"

definition start_retransmission :: "MessageExchange \<Rightarrow> MessageExchange" where
  "start_retransmission ex =
     (case ex_retransmissionTimer ex of
        None \<Rightarrow> ex
      | Some i \<Rightarrow> ex\<lparr>ex_timers := (ex_timers ex)(i := map_option (\<lambda>(r, _). (r, True)) (ex_timers ex i))\<rparr>)"

definition set_retransmissionTimer :: "retransmission \<Rightarrow> bool \<Rightarrow> MessageExchange \<Rightarrow> MessageExchange" where
  "set_retransmissionTimer r running ex =
     ex\<lparr>ex_retransmissionTimer := Some (ex_nextTimer ex), ex_timers := (ex_timers ex)(ex_nextTimer ex \<mapsto> (r, running)),
        ex_nextTimer := ex_nextTimer ex + 1\<rparr>"

section \<open>Sending\<close>

text \<open>What \<^verbatim>\<open>send\<close> keeps while it waits for a message counter.\<close>

record send_call =
  sc_messageType :: int
  sc_payload :: "byte list"
  sc_options :: ExchangeSendOptions
  sc_ackedMessageId :: "int option"

definition send_start ::
  "int \<Rightarrow> byte list \<Rightarrow> ExchangeSendOptions \<Rightarrow> MessageExchange \<Rightarrow> send_call result \<times> MessageExchange" where
  "send_start messageType payload options ex =
     (if messageType = StandaloneAck \<and> so_requiresAck options = Some True then (Inl MatterFlowError, ex)
      else if ex_sentMessageToAck ex \<noteq> None \<and> messageType \<noteq> StandaloneAck then (Inl MatterFlowError, ex)
      else
        let call = (\<lambda>acked. \<lparr>sc_messageType = messageType, sc_payload = payload, sc_options = options, sc_ackedMessageId = acked\<rparr>) in
        case so_includeAcknowledgeMessageId options of
          Some i \<Rightarrow> (Inr (call (Some i)), ex)
        | None \<Rightarrow>
            let ackedMessageId = map_option message_id (ex_receivedMessageToAck ex) in
            (Inr (call ackedMessageId),
             if ackedMessageId \<noteq> None \<and> messageType \<noteq> StandaloneAck
             then ex\<lparr>ex_receivedMessageAckTimer := False, ex_receivedMessageToAck := None\<rparr> else ex))"

definition build_message :: "send_call \<Rightarrow> int \<Rightarrow> MessageExchange \<Rightarrow> message" where
  "build_message c messageId ex =
     \<lparr>msg_packetHeader =
        \<lparr>ph_sessionId = ex_peerSessionId ex, ph_sessionType = Unicast, ph_hasPrivacyEnhancements = False,
         ph_isControlMessage = False, ph_hasMessageExtensions = False, ph_messageId = messageId,
         ph_sourceNodeId = ex_nodeId ex, ph_destNodeId = ex_peerNodeId ex, ph_destGroupId = None\<rparr>,
      msg_payloadHeader =
        \<lparr>pl_exchangeId = ex_exchangeId ex,
         pl_protocolId = (if sc_messageType c = StandaloneAck then SECURE_CHANNEL_PROTOCOL_ID else ex_protocolId ex),
         pl_messageType = sc_messageType c, pl_isInitiatorMessage = ex_isInitiator ex,
         pl_requiresAck = (case so_requiresAck (sc_options c) of Some b \<Rightarrow> b | None \<Rightarrow> sc_messageType c \<noteq> StandaloneAck),
         pl_ackedMessageId = sc_ackedMessageId c, pl_hasSecuredExtension = False\<rparr>,
      msg_securityExtension = None, msg_payload = sc_payload c\<rparr>"

text \<open>With the message counter: the message is handed to the channel; \<open>call\<close> is the number of this call of \<^verbatim>\<open>send\<close>.\<close>

definition send_transmit :: "nat \<Rightarrow> send_call \<Rightarrow> int \<Rightarrow> MessageExchange \<Rightarrow> message \<times> exchange_output list \<times> MessageExchange" where
  "send_transmit call c messageId ex =
     (let m = build_message c messageId ex;
          limit = (case so_minimumResponseTimeoutMs (sc_options c) of None \<Rightarrow> NoDeadline | Some n \<Rightarrow> FromFirstFiring n) in
      (m, [Transmit m],
       if requires_ack m then
         (set_retransmissionTimer \<lparr>rt_message = m, rt_count = 0, rt_deadline = limit\<rparr> False (ex\<lparr>ex_sentMessageToAck := Some m\<rparr>))
           \<lparr>ex_sentMessageAck := Some call\<rparr>
       else ex))"

text \<open>The channel has taken the message.\<close>

definition send_sent :: "message \<Rightarrow> MessageExchange \<Rightarrow> MessageExchange" where
  "send_sent m ex = (if requires_ack m then start_retransmission ex else ex)"

text \<open>The promise for the acknowledgement is fulfilled.\<close>

definition send_acked :: "send_call \<Rightarrow> message \<Rightarrow> MessageExchange \<Rightarrow> unit result \<times> MessageExchange" where
  "send_acked c response ex =
     (if so_expectAckOnly (sc_options c) \<and> \<not> standalone response then Inl UnexpectedMessageError else Inr (),
      ex\<lparr>ex_sentMessageAck := None\<rparr>)"

section \<open>Receiving\<close>

text \<open>How a section that may end in sending an acknowledgement ends.\<close>

datatype reception =
    Ends
  | Refused matter_error
  | Acks send_call
  | Resends message
  | Enqueued

definition ack_options :: "int \<Rightarrow> ExchangeSendOptions" where
  "ack_options i = \<lparr>so_expectAckOnly = False, so_minimumResponseTimeoutMs = None, so_requiresAck = None,
     so_includeAcknowledgeMessageId = Some i\<rparr>"

definition sendStandaloneAckForMessage :: "message \<Rightarrow> MessageExchange \<Rightarrow> reception \<times> MessageExchange" where
  "sendStandaloneAckForMessage m ex =
     (if \<not> requires_ack m then (Ends, ex)
      else case send_start StandaloneAck [] (ack_options (message_id m)) ex of
             (Inl e, ex) \<Rightarrow> (Refused e, ex)
           | (Inr c, ex) \<Rightarrow> (Acks c, ex))"

text \<open>The acknowledgement a message carries.\<close>

definition receive_ack :: "message \<Rightarrow> MessageExchange \<Rightarrow> (exchange_output list \<times> MessageExchange) result" where
  "receive_ack m ex =
     (case ex_sentMessageToAck ex of
        None \<Rightarrow> Inr ([], ex)
      | Some sent \<Rightarrow>
          (case acked_id m of
             None \<Rightarrow> Inl MatterFlowError
           | Some acked \<Rightarrow>
               if acked \<noteq> message_id sent then (if standalone m then Inr ([], ex) else Inl MatterFlowError)
               else Inr (case ex_sentMessageAck ex of None \<Rightarrow> [] | Some call \<Rightarrow> [AckSuccess call m],
                         (stop_retransmission ex)\<lparr>ex_sentMessageAck := None, ex_sentMessageToAck := None\<rparr>)))"

definition enqueue :: "message \<Rightarrow> MessageExchange \<Rightarrow> reception \<times> exchange_output list \<times> MessageExchange" where
  "enqueue m ex =
     (case queue_write m (ex_messagesQueue ex) of
        (Inl e, q) \<Rightarrow> (Refused e, [], ex\<lparr>ex_messagesQueue := q\<rparr>)
      | (Inr evs, q) \<Rightarrow> (Enqueued, map QueueEvent evs, ex\<lparr>ex_messagesQueue := q\<rparr>))"

text \<open>The message sent last acknowledges this one.\<close>

definition answered :: "message \<Rightarrow> MessageExchange \<Rightarrow> bool" where
  "answered m ex = (case ex_sentMessageToAck ex of None \<Rightarrow> False | Some sent \<Rightarrow> acked_id sent = Some (message_id m))"

definition onMessageReceived :: "message \<Rightarrow> bool \<Rightarrow> MessageExchange \<Rightarrow> reception \<times> exchange_output list \<times> MessageExchange" where
  "onMessageReceived m isDuplicate ex =
     (if isDuplicate then
        (if requires_ack m then (case sendStandaloneAckForMessage m ex of (r, ex) \<Rightarrow> (r, [], ex)) else (Ends, [], ex))
      else if answered m ex then (Resends (the (ex_sentMessageToAck ex)), [Transmit (the (ex_sentMessageToAck ex))], ex)
      else
        case receive_ack m ex of
          Inl e \<Rightarrow> (Refused e, [], ex)
        | Inr (outs, ex) \<Rightarrow>
            if standalone m then (Ends, outs, ex)
            else if pl_protocolId (msg_payloadHeader m) \<noteq> ex_protocolId ex then (Refused MatterFlowError, outs, ex)
            else if requires_ack m then
              (case ex_receivedMessageToAck ex of
                 Some old \<Rightarrow>
                   (case sendStandaloneAckForMessage old (ex\<lparr>ex_receivedMessageAckTimer := False\<rparr>) of (r, ex) \<Rightarrow> (r, outs, ex))
               | None \<Rightarrow>
                   (case enqueue m (ex\<lparr>ex_receivedMessageToAck := Some m, ex_receivedMessageAckTimer := True\<rparr>) of
                      (r, qs, ex) \<Rightarrow> (r, outs @ qs, ex)))
            else (case enqueue m ex of (r, qs, ex) \<Rightarrow> (r, outs @ qs, ex)))"

text \<open>The timer of the acknowledgement fires.\<close>

definition ack_timer_fires :: "MessageExchange \<Rightarrow> reception \<times> MessageExchange" where
  "ack_timer_fires ex =
     (case ex_receivedMessageToAck ex of
        None \<Rightarrow> (Ends, ex\<lparr>ex_receivedMessageAckTimer := False\<rparr>)
      | Some m \<Rightarrow> sendStandaloneAckForMessage m (ex\<lparr>ex_receivedMessageAckTimer := False, ex_receivedMessageToAck := None\<rparr>))"

section \<open>Closing\<close>

definition closeInternal :: "MessageExchange \<Rightarrow> exchange_output list \<times> MessageExchange" where
  "closeInternal ex =
     (let ex = stop_retransmission ex;
          ex = ex\<lparr>ex_closeTimer := map_option (\<lambda>_. False) (ex_closeTimer ex),
                  ex_timedInteractionTimer := map_option (\<lambda>_. False) (ex_timedInteractionTimer ex)\<rparr>
      in case queue_close (ex_messagesQueue ex) of
           (evs, q) \<Rightarrow> (map QueueEvent evs @ [CloseCallback], ex\<lparr>ex_messagesQueue := q\<rparr>))"

text \<open>\<^verbatim>\<open>close\<close> and \<^verbatim>\<open>destroy\<close> acknowledge what is still to be acknowledged; \<^verbatim>\<open>destroy\<close> goes on with \<open>closeInternal\<close>.\<close>

definition ack_before_closing :: "MessageExchange \<Rightarrow> reception \<times> MessageExchange" where
  "ack_before_closing ex =
     (case ex_receivedMessageToAck ex of
        None \<Rightarrow> (Ends, ex)
      | Some m \<Rightarrow> sendStandaloneAckForMessage m (ex\<lparr>ex_receivedMessageAckTimer := False, ex_receivedMessageToAck := None\<rparr>))"

definition exchange_close :: "MessageExchange \<Rightarrow> reception \<times> MessageExchange" where
  "exchange_close ex =
     (if ex_closeTimer ex \<noteq> None then (Ends, ex) else ack_before_closing (ex\<lparr>ex_closeTimer := Some True\<rparr>))"

definition exchange_destroy :: "MessageExchange \<Rightarrow> reception \<times> MessageExchange" where
  "exchange_destroy ex = (if ex_closeTimer ex = None then ack_before_closing ex else (Ends, ex))"

section \<open>Retransmission\<close>

text \<open>A retransmission timer fires at time \<open>now\<close>; \<open>Some r\<close> when the message has been handed to the channel again.\<close>

definition fixed_deadline :: "int \<Rightarrow> deadline \<Rightarrow> deadline" where
  "fixed_deadline now d = (case d of FromFirstFiring n \<Rightarrow> Until (now + n) | _ \<Rightarrow> d)"

definition retransmitMessage ::
  "retransmission \<Rightarrow> int \<Rightarrow> MessageExchange \<Rightarrow> retransmission option \<times> exchange_output list \<times> MessageExchange" where
  "retransmitMessage r now ex =
     (let retransmissionCount = rt_count r + 1; limit = fixed_deadline now (rt_deadline r) in
      if retransmissionCount \<ge> ex_retransmissionRetries ex \<and> (case limit of Until d \<Rightarrow> now > d | _ \<Rightarrow> True) then
        let (outs, ex) =
          (case (ex_sentMessageToAck ex, ex_sentMessageAck ex) of
             (Some _, Some call) \<Rightarrow>
               ([AckFailure call RetransmissionLimitReachedError], ex\<lparr>ex_receivedMessageToAck := None, ex_sentMessageAck := None\<rparr>)
           | _ \<Rightarrow> ([], ex)) in
        if ex_closeTimer ex \<noteq> None then (case closeInternal ex of (outs', ex) \<Rightarrow> (None, outs @ outs', ex))
        else (None, outs, ex)
      else (Some \<lparr>rt_message = rt_message r, rt_count = retransmissionCount, rt_deadline = limit\<rparr>, [Transmit (rt_message r)], ex))"

definition retransmission_fires ::
  "nat \<Rightarrow> int \<Rightarrow> MessageExchange \<Rightarrow> retransmission option \<times> exchange_output list \<times> MessageExchange" where
  "retransmission_fires i now ex =
     (case ex_timers ex i of
        Some (r, True) \<Rightarrow> retransmitMessage r now (ex\<lparr>ex_timers := (ex_timers ex)(i \<mapsto> (r, False))\<rparr>)
      | _ \<Rightarrow> (None, [], ex))"

definition retransmission_sent :: "retransmission \<Rightarrow> MessageExchange \<Rightarrow> MessageExchange" where
  "retransmission_sent r ex = set_retransmissionTimer r True ex"

definition retransmission_failed :: "bool \<Rightarrow> MessageExchange \<Rightarrow> exchange_output list \<times> MessageExchange" where
  "retransmission_failed notConnected ex = (if notConnected then closeInternal ex else ([], ex))"

section \<open>Timed interactions and reading\<close>

definition startTimedInteraction :: "MessageExchange \<Rightarrow> unit result \<times> MessageExchange" where
  "startTimedInteraction ex =
     (if ex_timedInteractionTimer ex = Some True then (Inl StatusResponseError, ex\<lparr>ex_timedInteractionTimer := Some False\<rparr>)
      else (Inr (), ex\<lparr>ex_timedInteractionTimer := Some True\<rparr>))"

definition clearTimedInteraction :: "MessageExchange \<Rightarrow> MessageExchange" where
  "clearTimedInteraction ex = (if ex_timedInteractionTimer ex \<noteq> None then ex\<lparr>ex_timedInteractionTimer := None\<rparr> else ex)"

definition hasTimedInteraction :: "MessageExchange \<Rightarrow> bool" where
  "hasTimedInteraction ex \<longleftrightarrow> ex_timedInteractionTimer ex \<noteq> None"

definition hasActiveTimedInteraction :: "MessageExchange \<Rightarrow> bool" where
  "hasActiveTimedInteraction ex \<longleftrightarrow> ex_timedInteractionTimer ex = Some True"

definition hasExpiredTimedInteraction :: "MessageExchange \<Rightarrow> bool" where
  "hasExpiredTimedInteraction ex \<longleftrightarrow> ex_timedInteractionTimer ex = Some False"

definition nextMessage :: "nat \<Rightarrow> MessageExchange \<Rightarrow> message option result \<times> MessageExchange" where
  "nextMessage reader ex =
     (case queue_read reader (ex_messagesQueue ex) of (r, q) \<Rightarrow> (r, ex\<lparr>ex_messagesQueue := q\<rparr>))"

text \<open>\<^verbatim>\<open>waitFor\<close> after its read.\<close>

definition expect_type :: "int \<Rightarrow> message \<Rightarrow> message result" where
  "expect_type messageType m = (if pl_messageType (msg_payloadHeader m) \<noteq> messageType then Inl MatterFlowError else Inr m)"

end
