(* ===== verification/ExchangeDelivery.thy ===== *)
theory ExchangeDelivery
  imports Exchange
begin

text \<open>
  What an exchange promises.  A connection is the reception state of a session with one of its exchanges;
  \<open>receive_message\<close> is the part of \<^verbatim>\<open>ExchangeManager.onMessage\<close> between the two.  The events of a connection
  are the sections of all operations, in any order; its history records the messages put into the
  queue and the message ids acknowledged by the calls of \<^verbatim>\<open>send\<close> that were started.
\<close>

section \<open>A connection and its history\<close>

record connection =
  cn_reception :: MessageReceptionState
  cn_exchange :: MessageExchange
  cn_delivered :: "message list"
  cn_acking :: "int list"
  cn_gaveUp :: bool

datatype exchange_event =
    EvReceived message
  | EvSend int "byte list" ExchangeSendOptions
  | EvTransmit nat send_call int
  | EvSent message
  | EvAcked send_call message
  | EvAckTimer
  | EvFires nat int
  | EvResent retransmission
  | EvResendFails bool
  | EvClose
  | EvDestroy
  | EvCloseInternal
  | EvRead nat
  | EvReadTimeout
  | EvStartTimed
  | EvClearTimed

text \<open>The message counter decides whether a message is a duplicate; any other exception ends the processing.\<close>

definition receive_message ::
  "message \<Rightarrow> MessageReceptionState \<Rightarrow> MessageExchange \<Rightarrow>
   reception \<times> exchange_output list \<times> MessageReceptionState \<times> MessageExchange" where
  "receive_message m rs ex =
     (case updateMessageCounter (message_id m) rs of
        Inr rs \<Rightarrow> (case onMessageReceived m False ex of (r, outs, ex) \<Rightarrow> (r, outs, rs, ex))
      | Inl e \<Rightarrow>
          if e = DuplicateMessageError then (case onMessageReceived m True ex of (r, outs, ex) \<Rightarrow> (r, outs, rs, ex))
          else (Refused e, [], rs, ex))"

definition call_acks :: "send_call \<Rightarrow> int list" where
  "call_acks c = (case sc_ackedMessageId c of None \<Rightarrow> [] | Some i \<Rightarrow> [i])"

fun reception_acks :: "reception \<Rightarrow> int list" where
  "reception_acks (Acks c) = call_acks c"
| "reception_acks _ = []"

definition gave_up :: "exchange_output list \<Rightarrow> bool" where
  "gave_up outs = list_ex (\<lambda>o1. case o1 of AckFailure _ _ \<Rightarrow> True | _ \<Rightarrow> False) outs"

fun exchange_do :: "exchange_event \<Rightarrow> connection \<Rightarrow> connection" where
  "exchange_do (EvReceived m) cn =
     (case receive_message m (cn_reception cn) (cn_exchange cn) of
        (r, _, rs, ex) \<Rightarrow> cn\<lparr>cn_reception := rs, cn_exchange := ex, cn_acking := cn_acking cn @ reception_acks r,
          cn_delivered := cn_delivered cn @ (if r = Enqueued then [m] else [])\<rparr>)"
| "exchange_do (EvSend ty payload options) cn =
     (case send_start ty payload options (cn_exchange cn) of
        (Inl _, ex) \<Rightarrow> cn\<lparr>cn_exchange := ex\<rparr>
      | (Inr c, ex) \<Rightarrow> cn\<lparr>cn_exchange := ex, cn_acking := cn_acking cn @ call_acks c\<rparr>)"
| "exchange_do (EvTransmit call c i) cn = cn\<lparr>cn_exchange := snd (snd (send_transmit call c i (cn_exchange cn)))\<rparr>"
| "exchange_do (EvSent m) cn = cn\<lparr>cn_exchange := send_sent m (cn_exchange cn)\<rparr>"
| "exchange_do (EvAcked c m) cn = cn\<lparr>cn_exchange := snd (send_acked c m (cn_exchange cn))\<rparr>"
| "exchange_do EvAckTimer cn =
     (case ack_timer_fires (cn_exchange cn) of (r, ex) \<Rightarrow> cn\<lparr>cn_exchange := ex, cn_acking := cn_acking cn @ reception_acks r\<rparr>)"
| "exchange_do (EvFires i now) cn =
     (case retransmission_fires i now (cn_exchange cn) of
        (_, outs, ex) \<Rightarrow> cn\<lparr>cn_exchange := ex, cn_gaveUp := (cn_gaveUp cn \<or> gave_up outs)\<rparr>)"
| "exchange_do (EvResent r) cn = cn\<lparr>cn_exchange := retransmission_sent r (cn_exchange cn)\<rparr>"
| "exchange_do (EvResendFails notConnected) cn = cn\<lparr>cn_exchange := snd (retransmission_failed notConnected (cn_exchange cn))\<rparr>"
| "exchange_do EvClose cn =
     (case exchange_close (cn_exchange cn) of (r, ex) \<Rightarrow> cn\<lparr>cn_exchange := ex, cn_acking := cn_acking cn @ reception_acks r\<rparr>)"
| "exchange_do EvDestroy cn =
     (case exchange_destroy (cn_exchange cn) of (r, ex) \<Rightarrow> cn\<lparr>cn_exchange := ex, cn_acking := cn_acking cn @ reception_acks r\<rparr>)"
| "exchange_do EvCloseInternal cn = cn\<lparr>cn_exchange := snd (closeInternal (cn_exchange cn))\<rparr>"
| "exchange_do (EvRead r) cn = cn\<lparr>cn_exchange := snd (nextMessage r (cn_exchange cn))\<rparr>"
| "exchange_do EvReadTimeout cn =
     cn\<lparr>cn_exchange := (cn_exchange cn)\<lparr>ex_messagesQueue := snd (queue_timeout (ex_messagesQueue (cn_exchange cn)))\<rparr>\<rparr>"
| "exchange_do EvStartTimed cn = cn\<lparr>cn_exchange := snd (startTimedInteraction (cn_exchange cn))\<rparr>"
| "exchange_do EvClearTimed cn = cn\<lparr>cn_exchange := clearTimedInteraction (cn_exchange cn)\<rparr>"

definition new_connection :: "reception_kind \<Rightarrow> int option \<Rightarrow> MessageExchange \<Rightarrow> connection" where
  "new_connection kind start ex =
     \<lparr>cn_reception = new_MessageReceptionState kind start, cn_exchange = ex, cn_delivered = [], cn_acking = [], cn_gaveUp = False\<rparr>"

section \<open>A sample connection\<close>

definition sample_message :: "int \<Rightarrow> message" where
  "sample_message i =
     \<lparr>msg_packetHeader =
        \<lparr>ph_sessionId = 1, ph_sessionType = Unicast, ph_hasPrivacyEnhancements = False, ph_isControlMessage = False,
         ph_hasMessageExtensions = False, ph_messageId = i, ph_sourceNodeId = None, ph_destNodeId = None, ph_destGroupId = None\<rparr>,
      msg_payloadHeader =
        \<lparr>pl_exchangeId = 7, pl_protocolId = 1, pl_messageType = 2, pl_isInitiatorMessage = True, pl_requiresAck = True,
         pl_ackedMessageId = None, pl_hasSecuredExtension = False\<rparr>,
      msg_securityExtension = None, msg_payload = [1, 2, 3]\<rparr>"

definition sample_exchange :: MessageExchange where
  "sample_exchange = fromInitialMessage 1 (sample_message 5)"

definition sample_options :: ExchangeSendOptions where
  "sample_options = \<lparr>so_expectAckOnly = False, so_minimumResponseTimeoutMs = None, so_requiresAck = None,
     so_includeAcknowledgeMessageId = None\<rparr>"

lemmas sample_defs = sample_message_def sample_exchange_def sample_options_def fromInitialMessage_def new_MessageExchange_def
  new_connection_def isStandaloneAck_def SECURE_CHANNEL_PROTOCOL_ID_def StandaloneAck_def

lemma sample_first:
  "fold exchange_do [EvReceived (sample_message 5)] (new_connection EncryptedWithoutRollover (Some 4) sample_exchange) =
     \<lparr>cn_reception = \<lparr>rs_kind = EncryptedWithoutRollover, rs_maximumMessageCounter = Some 5, rs_messageCounterBitmap = 0xffffffff\<rparr>,
      cn_exchange = sample_exchange\<lparr>ex_receivedMessageToAck := Some (sample_message 5), ex_receivedMessageAckTimer := True,
        ex_messagesQueue := new_Queue\<lparr>q_queue := [sample_message 5]\<rparr>\<rparr>,
      cn_delivered = [sample_message 5], cn_acking = [], cn_gaveUp = False\<rparr>"
proof -
  have "updateMessageCounter 5 (new_MessageReceptionState EncryptedWithoutRollover (Some 4)) =
      Inr \<lparr>rs_kind = EncryptedWithoutRollover, rs_maximumMessageCounter = Some 5, rs_messageCounterBitmap = 0xffffffff\<rparr>"
    by code_simp
  then show ?thesis
    by (simp add: sample_defs receive_message_def onMessageReceived_def answered_def receive_ack_def enqueue_def
        queue_write_def new_Queue_def)
qed

section \<open>No message is delivered twice\<close>

lemma duplicate_not_enqueued: "fst (onMessageReceived m True ex) \<noteq> Enqueued"
  by (simp add: onMessageReceived_def sendStandaloneAckForMessage_def split: prod.split sum.split)

definition delivery_inv :: "connection \<Rightarrow> bool" where
  "delivery_inv cn \<longleftrightarrow> (\<exists>A. known_without_rollover (cn_reception cn) A \<and> distinct (map message_id (cn_delivered cn)) \<and>
     message_id ` set (cn_delivered cn) \<subseteq> A)"

lemma delivery_inv_received:
  assumes "delivery_inv cn"
  shows "delivery_inv (exchange_do (EvReceived m) cn)"
proof -
  obtain A where A: "known_without_rollover (cn_reception cn) A" "distinct (map message_id (cn_delivered cn))"
    "message_id ` set (cn_delivered cn) \<subseteq> A" using assms by (auto simp: delivery_inv_def)
  show ?thesis
  proof (cases "updateMessageCounter (message_id m) (cn_reception cn)")
    case (Inl e)
    then have "cn_reception (exchange_do (EvReceived m) cn) = cn_reception cn \<and> cn_delivered (exchange_do (EvReceived m) cn) = cn_delivered cn"
      using duplicate_not_enqueued [of m "cn_exchange cn"]
      by (cases "onMessageReceived m True (cn_exchange cn)") (simp add: receive_message_def)
    with A show ?thesis by (auto simp: delivery_inv_def)
  next
    case (Inr rs)
    have "message_id m \<notin> A" and "known_without_rollover rs (insert (message_id m) A)"
      using without_rollover.fresh [OF A(1) Inr] without_rollover.recorded [OF A(1) Inr] by simp_all
    moreover have "cn_reception (exchange_do (EvReceived m) cn) = rs \<and>
        cn_delivered (exchange_do (EvReceived m) cn) \<in> {cn_delivered cn, cn_delivered cn @ [m]}"
      using Inr by (cases "onMessageReceived m False (cn_exchange cn)") (simp add: receive_message_def)
    ultimately show ?thesis
      using A(2,3) unfolding delivery_inv_def
      by (intro exI [of _ "insert (message_id m) A"]) (auto simp: image_subset_iff simp del: exchange_do.simps)
  qed
qed

lemma exchange_do_other:
  assumes "\<nexists>m. ev = EvReceived m"
  shows "cn_reception (exchange_do ev cn) = cn_reception cn \<and> cn_delivered (exchange_do ev cn) = cn_delivered cn"
  using assms by (cases ev) (simp_all split: prod.split sum.split)

lemma delivery_inv_step: "delivery_inv cn \<Longrightarrow> delivery_inv (exchange_do ev cn)"
proof (cases "\<exists>m. ev = EvReceived m")
  case True
  then show "delivery_inv cn \<Longrightarrow> ?thesis" using delivery_inv_received by auto
next
  case False
  then show "delivery_inv cn \<Longrightarrow> ?thesis" using exchange_do_other [of ev cn] by (simp add: delivery_inv_def)
qed

lemma delivery_inv_run: "delivery_inv cn \<Longrightarrow> delivery_inv (fold exchange_do evs cn)"
  by (induction evs arbitrary: cn) (simp_all add: delivery_inv_step)

text \<open>
  C11. An exchange on a session without counter rollover puts no message into its queue twice, whatever the
  network repeats or reorders and however the operations of the exchange interleave with it.
\<close>

theorem delivered_once:
  "distinct (map message_id (cn_delivered (fold exchange_do evs (new_connection EncryptedWithoutRollover start ex))))"
proof -
  have "delivery_inv (new_connection EncryptedWithoutRollover start ex)"
    using known_new [of start] by (auto simp: delivery_inv_def new_connection_def)
  from delivery_inv_run [OF this, of evs] show ?thesis by (auto simp: delivery_inv_def)
qed

section \<open>Every delivered message is acknowledged\<close>

definition ack_inv :: "connection \<Rightarrow> bool" where
  "ack_inv cn \<longleftrightarrow> cn_gaveUp cn \<or> (\<forall>m \<in> set (cn_delivered cn). requires_ack m \<longrightarrow>
     message_id m \<in> set (cn_acking cn) \<or> ex_receivedMessageToAck (cn_exchange cn) = Some m)"

text \<open>A section that keeps the message to acknowledge or starts to acknowledge it keeps the invariant.\<close>

lemma ack_inv_kept:
  assumes "ack_inv cn" and "ex_receivedMessageToAck ex = ex_receivedMessageToAck (cn_exchange cn) \<or>
    (\<forall>m. ex_receivedMessageToAck (cn_exchange cn) = Some m \<longrightarrow> requires_ack m \<longrightarrow> message_id m \<in> set acks)"
  shows "ack_inv (cn\<lparr>cn_exchange := ex, cn_acking := cn_acking cn @ acks\<rparr>)"
  using assms by (auto simp: ack_inv_def)

lemma ack_inv_same:
  assumes "ack_inv cn" and "ex_receivedMessageToAck ex = ex_receivedMessageToAck (cn_exchange cn)"
  shows "ack_inv (cn\<lparr>cn_exchange := ex\<rparr>)"
  using assms by (simp add: ack_inv_def)

lemma timers_keep [simp]:
  "ex_receivedMessageToAck (stop_retransmission ex) = ex_receivedMessageToAck ex"
  "ex_receivedMessageToAck (start_retransmission ex) = ex_receivedMessageToAck ex"
  "ex_receivedMessageToAck (set_retransmissionTimer r b ex) = ex_receivedMessageToAck ex"
  "ex_receivedMessageToAck (snd (closeInternal ex)) = ex_receivedMessageToAck ex"
  by (simp_all add: stop_retransmission_def start_retransmission_def set_retransmissionTimer_def closeInternal_def
      Let_def split: option.split prod.split)

lemma standalone_ack_simps:
  "sendStandaloneAckForMessage m ex =
     (if requires_ack m then (Acks \<lparr>sc_messageType = StandaloneAck, sc_payload = [], sc_options = ack_options (message_id m),
        sc_ackedMessageId = Some (message_id m)\<rparr>, ex) else (Ends, ex))"
  by (simp add: sendStandaloneAckForMessage_def send_start_def ack_options_def)

lemma send_start_keeps:
  assumes "send_start ty payload options ex = (r, ex')"
  shows "ex_receivedMessageToAck ex' = ex_receivedMessageToAck ex \<or>
    (\<exists>c m. r = Inr c \<and> ex_receivedMessageToAck ex = Some m \<and> sc_ackedMessageId c = Some (message_id m))"
  using assms by (auto simp: send_start_def Let_def split: if_splits option.splits)

lemma ack_inv_send:
  assumes "ack_inv cn"
  shows "ack_inv (exchange_do (EvSend ty payload options) cn)"
proof -
  obtain r ex where r: "send_start ty payload options (cn_exchange cn) = (r, ex)"
    by (cases "send_start ty payload options (cn_exchange cn)")
  show ?thesis
  proof (cases r)
    case (Inl e)
    with send_start_keeps [OF r] r show ?thesis by (auto intro: ack_inv_same [OF assms])
  next
    case (Inr c)
    with send_start_keeps [OF r] r show ?thesis by (auto simp: call_acks_def intro!: ack_inv_kept [OF assms])
  qed
qed

lemma ack_inv_closing:
  assumes "ack_inv cn" and "ex_receivedMessageToAck ex0 = ex_receivedMessageToAck (cn_exchange cn)"
    and "ack_before_closing ex0 = (r, ex)"
  shows "ack_inv (cn\<lparr>cn_exchange := ex, cn_acking := cn_acking cn @ reception_acks r\<rparr>)"
  using assms(2,3)
  by (intro ack_inv_kept [OF assms(1)]) (auto simp: ack_before_closing_def standalone_ack_simps call_acks_def split: option.splits if_splits)

lemma enqueue_keeps:
  "enqueue m ex = (r, outs, ex') \<Longrightarrow> ex_receivedMessageToAck ex' = ex_receivedMessageToAck ex"
  by (auto simp: enqueue_def split: prod.splits sum.splits)

lemma receive_ack_keeps:
  "receive_ack m ex = Inr (outs, ex') \<Longrightarrow> ex_receivedMessageToAck ex' = ex_receivedMessageToAck ex"
  by (auto simp: receive_ack_def split: option.splits if_splits)

text \<open>A reception never drops the message to acknowledge, and what it delivers becomes that message.\<close>

lemma onMessageReceived_keeps:
  assumes "onMessageReceived m dup ex = (r, outs, ex')"
  shows "(\<forall>old. ex_receivedMessageToAck ex = Some old \<longrightarrow> ex_receivedMessageToAck ex' = Some old) \<and>
    (r = Enqueued \<longrightarrow> requires_ack m \<longrightarrow> ex_receivedMessageToAck ex' = Some m)"
proof (cases "dup \<or> answered m ex")
  case True
  with assms show ?thesis by (auto simp: onMessageReceived_def standalone_ack_simps split: if_splits)
next
  case False
  show ?thesis
  proof (cases "receive_ack m ex")
    case (Inl e)
    with False assms show ?thesis by (auto simp: onMessageReceived_def)
  next
    case (Inr p)
    obtain outs1 ex1 where p: "p = (outs1, ex1)" by (cases p)
    note k = receive_ack_keeps [OF Inr [unfolded p]]
    let ?ex2 = "ex1\<lparr>ex_receivedMessageToAck := Some m, ex_receivedMessageAckTimer := True\<rparr>"
    obtain r1 q1 e1 where e1: "enqueue m ex1 = (r1, q1, e1)" by (cases "enqueue m ex1")
    obtain r2 q2 e2 where e2: "enqueue m ?ex2 = (r2, q2, e2)" by (cases "enqueue m ?ex2")
    show ?thesis
      using False assms Inr p k e1 e2 enqueue_keeps [OF e1] enqueue_keeps [OF e2]
      by (cases "ex_receivedMessageToAck ex") (auto simp: onMessageReceived_def standalone_ack_simps split: if_splits)
  qed
qed

lemma ack_inv_received:
  assumes "ack_inv cn"
  shows "ack_inv (exchange_do (EvReceived m) cn)"
proof -
  obtain r outs rs ex where r: "receive_message m (cn_reception cn) (cn_exchange cn) = (r, outs, rs, ex)"
    by (cases "receive_message m (cn_reception cn) (cn_exchange cn)")
  have "(\<forall>old. ex_receivedMessageToAck (cn_exchange cn) = Some old \<longrightarrow> ex_receivedMessageToAck ex = Some old) \<and>
    (r = Enqueued \<longrightarrow> requires_ack m \<longrightarrow> ex_receivedMessageToAck ex = Some m)"
    using r onMessageReceived_keeps [of m _ "cn_exchange cn"]
    by (auto simp: receive_message_def split: sum.splits prod.splits if_splits)
  with assms r show ?thesis by (auto simp: ack_inv_def)
qed

lemma retransmission_keeps:
  assumes "retransmission_fires i now ex = (r, outs, ex')"
  shows "ex_receivedMessageToAck ex' = ex_receivedMessageToAck ex \<or> gave_up outs"
proof -
  have close: "ex_receivedMessageToAck b = ex_receivedMessageToAck x" if "closeInternal x = (a, b)" for x a b
    using timers_keep(4) [of x] that by simp
  show ?thesis
    using assms
    by (auto simp: retransmission_fires_def retransmitMessage_def gave_up_def Let_def
        split: option.splits if_splits prod.splits bool.splits dest!: close)
qed

lemma ack_inv_step: "ack_inv cn \<Longrightarrow> ack_inv (exchange_do ev cn)"
proof (induction ev cn rule: exchange_do.induct)
  case (1 m cn)
  then show ?case by (rule ack_inv_received)
next
  case (2 ty payload options cn)
  then show ?case by (rule ack_inv_send)
next
  case (6 cn)
  obtain r ex where r: "ack_timer_fires (cn_exchange cn) = (r, ex)" by (cases "ack_timer_fires (cn_exchange cn)")
  have "ack_inv (cn\<lparr>cn_exchange := ex, cn_acking := cn_acking cn @ reception_acks r\<rparr>)"
    using r by (intro ack_inv_kept [OF 6]) (auto simp: ack_timer_fires_def standalone_ack_simps call_acks_def split: option.splits if_splits)
  with r show ?case by simp
next
  case (7 i now cn)
  obtain r outs ex where r: "retransmission_fires i now (cn_exchange cn) = (r, outs, ex)"
    by (cases "retransmission_fires i now (cn_exchange cn)")
  with 7 retransmission_keeps [OF r] show ?case by (auto simp: ack_inv_def)
next
  case (10 cn)
  obtain r ex where r: "exchange_close (cn_exchange cn) = (r, ex)" by (cases "exchange_close (cn_exchange cn)")
  with 10 ack_inv_closing [OF 10, of "(cn_exchange cn)\<lparr>ex_closeTimer := Some True\<rparr>" r ex] show ?case
    by (auto simp: exchange_close_def split: if_splits)
next
  case (11 cn)
  obtain r ex where r: "exchange_destroy (cn_exchange cn) = (r, ex)" by (cases "exchange_destroy (cn_exchange cn)")
  with 11 ack_inv_closing [OF 11, of "cn_exchange cn" r ex] show ?case
    by (auto simp: exchange_destroy_def split: if_splits)
qed (simp_all add: ack_inv_same send_transmit_def send_sent_def send_acked_def retransmission_sent_def
      retransmission_failed_def nextMessage_def startTimedInteraction_def clearTimedInteraction_def Let_def split: prod.split)

text \<open>
  C19. Unless the exchange has given up on a message of its own, every delivered message that asks for an
  acknowledgement has one: it is in a message that was started, or it is still kept as the message to
  acknowledge with the next one sent, by the timer or on closing.
\<close>

theorem delivered_acked:
  assumes "m \<in> set (cn_delivered (fold exchange_do evs (new_connection kind start ex)))" and "requires_ack m"
    and "\<not> cn_gaveUp (fold exchange_do evs (new_connection kind start ex))"
  shows "message_id m \<in> set (cn_acking (fold exchange_do evs (new_connection kind start ex))) \<or>
    ex_receivedMessageToAck (cn_exchange (fold exchange_do evs (new_connection kind start ex))) = Some m"
proof -
  have "ack_inv cn \<Longrightarrow> ack_inv (fold exchange_do evs cn)" for cn
    by (induction evs arbitrary: cn) (simp_all add: ack_inv_step del: exchange_do.simps)
  moreover have "ack_inv (new_connection kind start ex)" by (simp add: ack_inv_def new_connection_def)
  ultimately show ?thesis using assms by (auto simp: ack_inv_def)
qed

theorem delivered_acked_witness:
  "message_id (sample_message 5) \<in> set (cn_acking (fold exchange_do [EvReceived (sample_message 5), EvSend 3 [] sample_options]
      (new_connection EncryptedWithoutRollover (Some 4) sample_exchange)))"
proof -
  let ?cn = "new_connection EncryptedWithoutRollover (Some 4) sample_exchange"
  let ?evs = "[EvReceived (sample_message 5), EvSend 3 [] sample_options]"
  have run: "fold exchange_do ?evs ?cn =
      exchange_do (EvSend 3 [] sample_options) (fold exchange_do [EvReceived (sample_message 5)] ?cn)" by simp
  have facts: "sample_message 5 \<in> set (cn_delivered (fold exchange_do ?evs ?cn))" "requires_ack (sample_message 5)"
    "\<not> cn_gaveUp (fold exchange_do ?evs ?cn)" "ex_receivedMessageToAck (cn_exchange (fold exchange_do ?evs ?cn)) = None"
    unfolding run sample_first by (simp_all add: sample_defs send_start_def)
  from delivered_acked [OF facts(1-3)] facts(4) show ?thesis by simp
qed

section \<open>Retransmission ends\<close>

text \<open>The current timer fires at time \<open>now\<close>, and the channel takes the message.\<close>

definition retry_round :: "int \<Rightarrow> MessageExchange \<Rightarrow> exchange_output list \<times> MessageExchange" where
  "retry_round now ex =
     (case ex_retransmissionTimer ex of
        None \<Rightarrow> ([], ex)
      | Some i \<Rightarrow>
          (case retransmission_fires i now ex of
             (Some r, outs, ex) \<Rightarrow> (outs, retransmission_sent r ex)
           | (None, outs, ex) \<Rightarrow> (outs, ex)))"

fun retry_rounds :: "int list \<Rightarrow> MessageExchange \<Rightarrow> exchange_output list \<times> MessageExchange" where
  "retry_rounds [] ex = ([], ex)"
| "retry_rounds (t # ts) ex =
     (case retry_round t ex of (outs, ex) \<Rightarrow> (case retry_rounds ts ex of (outs', ex) \<Rightarrow> (outs @ outs', ex)))"

definition retrying :: "message \<Rightarrow> nat \<Rightarrow> deadline \<Rightarrow> nat \<Rightarrow> MessageExchange \<Rightarrow> bool" where
  "retrying m k limit call ex \<longleftrightarrow> (\<exists>i. ex_retransmissionTimer ex = Some i \<and>
     ex_timers ex i = Some (\<lparr>rt_message = m, rt_count = k, rt_deadline = limit\<rparr>, True)) \<and>
     ex_sentMessageToAck ex \<noteq> None \<and> ex_sentMessageAck ex = Some call \<and> ex_closeTimer ex = None"

text \<open>Whether a deadline is over; one that was never set always is.\<close>

definition deadline_over :: "deadline \<Rightarrow> int \<Rightarrow> bool" where
  "deadline_over limit now \<longleftrightarrow> (case limit of Until d \<Rightarrow> d < now | _ \<Rightarrow> True)"

lemma retry_round_again:
  assumes "retrying m k limit call ex" and "\<not> (ex_retransmissionRetries ex \<le> k + 1 \<and> deadline_over (fixed_deadline now limit) now)"
  shows "\<exists>ex'. retry_round now ex = ([Transmit m], ex') \<and> retrying m (k + 1) (fixed_deadline now limit) call ex' \<and>
    ex_retransmissionRetries ex' = ex_retransmissionRetries ex"
  using assms
  by (auto simp: retrying_def retry_round_def retransmission_fires_def retransmitMessage_def deadline_over_def Let_def
      retransmission_sent_def set_retransmissionTimer_def)

lemma retry_round_last:
  assumes "retrying m k limit call ex" and "ex_retransmissionRetries ex \<le> k + 1" and "deadline_over (fixed_deadline now limit) now"
  shows "\<exists>i r ex'. retry_round now ex = ([AckFailure call RetransmissionLimitReachedError], ex') \<and>
    ex_retransmissionTimer ex' = Some i \<and> ex_timers ex' i = Some (r, False)"
  using assms
  by (auto simp: retrying_def retry_round_def retransmission_fires_def retransmitMessage_def deadline_over_def Let_def)

lemma retry_rounds_stopped:
  "ex_retransmissionTimer ex = Some i \<Longrightarrow> ex_timers ex i = Some (r, False) \<Longrightarrow> retry_rounds ts ex = ([], ex)"
  by (induction ts) (simp_all add: retry_round_def retransmission_fires_def)

text \<open>What the firings at \<open>ts\<close> should give, after \<open>k\<close> retransmissions.\<close>

fun retry_outputs :: "message \<Rightarrow> nat \<Rightarrow> nat \<Rightarrow> deadline \<Rightarrow> nat \<Rightarrow> int list \<Rightarrow> exchange_output list" where
  "retry_outputs m call retries limit k [] = []"
| "retry_outputs m call retries limit k (t # ts) =
     (if retries \<le> k + 1 \<and> deadline_over (fixed_deadline t limit) t then [AckFailure call RetransmissionLimitReachedError]
      else Transmit m # retry_outputs m call retries (fixed_deadline t limit) (k + 1) ts)"

lemma retry_rounds_outputs:
  assumes "retrying m k limit call ex"
  shows "fst (retry_rounds ts ex) = retry_outputs m call (ex_retransmissionRetries ex) limit k ts"
  using assms
proof (induction ts arbitrary: ex k limit)
  case Nil
  then show ?case by simp
next
  case (Cons t ts)
  show ?case
  proof (cases "ex_retransmissionRetries ex \<le> k + 1 \<and> deadline_over (fixed_deadline t limit) t")
    case True
    then obtain i r ex' where "retry_round t ex = ([AckFailure call RetransmissionLimitReachedError], ex')"
      "ex_retransmissionTimer ex' = Some i" "ex_timers ex' i = Some (r, False)"
      using retry_round_last [OF Cons.prems] by blast
    with True show ?thesis by (simp add: retry_rounds_stopped)
  next
    case False
    from retry_round_again [OF Cons.prems False] obtain ex' where "retry_round t ex = ([Transmit m], ex')"
      "retrying m (k + 1) (fixed_deadline t limit) call ex'" "ex_retransmissionRetries ex' = ex_retransmissionRetries ex"
      by blast
    with Cons.IH [of "k + 1" "fixed_deadline t limit" ex'] False show ?thesis by (auto simp: split_beta)
  qed
qed

text \<open>
  The firing at which a call of \<^verbatim>\<open>send\<close> with the given minimum response timeout gives up: the retries are used up, and the
  timeout, counted from the first firing, is over.
\<close>

definition gives_up :: "nat \<Rightarrow> int option \<Rightarrow> int list \<Rightarrow> nat \<Rightarrow> bool" where
  "gives_up retries timeout ts j \<longleftrightarrow> retries \<le> j + 1 \<and> (case timeout of None \<Rightarrow> True | Some n \<Rightarrow> ts ! 0 + n < ts ! j)"

lemma find_upt_Suc: "find P [0..<Suc n] = (if P 0 then Some 0 else map_option Suc (find (P \<circ> Suc) [0..<n]))"
proof -
  have "find P (map Suc xs) = map_option Suc (find (P \<circ> Suc) xs)" for xs by (induction xs) auto
  then show ?thesis by (simp add: upt_conv_Cons map_Suc_upt [symmetric] del: upt_Suc)
qed

lemma retry_outputs_fixed:
  assumes "\<And>t. fixed_deadline t limit = limit"
  shows "retry_outputs m call retries limit k ts =
    (case find (\<lambda>j. retries \<le> k + j + 1 \<and> deadline_over limit (ts ! j)) [0..<length ts] of
       None \<Rightarrow> replicate (length ts) (Transmit m)
     | Some j \<Rightarrow> replicate j (Transmit m) @ [AckFailure call RetransmissionLimitReachedError])"
proof (induction ts arbitrary: k)
  case Nil
  then show ?case by simp
next
  case (Cons t ts)
  have "(\<lambda>j. retries \<le> k + j + 1 \<and> deadline_over limit ((t # ts) ! j)) \<circ> Suc =
      (\<lambda>j. retries \<le> k + 1 + j + 1 \<and> deadline_over limit (ts ! j))"
    by (simp add: fun_eq_iff)
  with Cons.IH [of "k + 1"] assms show ?case
    by (simp add: find_upt_Suc del: upt_Suc split: option.split)
qed

lemma retry_outputs_gives_up:
  "retry_outputs m call retries (case timeout of None \<Rightarrow> NoDeadline | Some n \<Rightarrow> FromFirstFiring n) 0 ts =
    (case find (gives_up retries timeout ts) [0..<length ts] of
       None \<Rightarrow> replicate (length ts) (Transmit m)
     | Some j \<Rightarrow> replicate j (Transmit m) @ [AckFailure call RetransmissionLimitReachedError])"
proof (cases timeout)
  case None
  have "gives_up retries timeout ts = (\<lambda>j. retries \<le> 0 + j + 1 \<and> deadline_over NoDeadline (ts ! j))"
    using None by (simp add: gives_up_def deadline_over_def fun_eq_iff)
  then show ?thesis using None by (simp add: retry_outputs_fixed fixed_deadline_def)
next
  case (Some n)
  show ?thesis
  proof (cases ts)
    case Nil
    then show ?thesis by simp
  next
    case (Cons t ts')
    have "gives_up retries timeout ts = (\<lambda>j. retries \<le> 0 + j + 1 \<and> deadline_over (Until (t + n)) (ts ! j))"
      using Some Cons by (simp add: gives_up_def deadline_over_def fun_eq_iff)
    moreover have "retry_outputs m call retries (FromFirstFiring n) 0 ts = retry_outputs m call retries (Until (t + n)) 0 ts"
      using Cons by (simp add: fixed_deadline_def)
    ultimately show ?thesis using Some by (simp add: retry_outputs_fixed fixed_deadline_def)
  qed
qed

lemma find_gives_up:
  assumes "0 < retries" and "retries \<le> length ts"
  shows "find (gives_up retries None ts) [0..<length ts] = Some (retries - 1)"
proof -
  have "find (\<lambda>j. n \<le> j) [0..<m] = Some n" if "n < m" for n m :: nat
    using that
  proof (induction m arbitrary: n)
    case (Suc m)
    have "(\<le>) (Suc n') \<circ> Suc = (\<le>) n'" for n' :: nat by (simp add: fun_eq_iff)
    with Suc show ?case by (cases n) (simp_all add: find_upt_Suc del: upt_Suc)
  qed simp
  moreover have "gives_up retries None ts = (\<le>) (retries - 1)" using assms(1) by (auto simp: gives_up_def fun_eq_iff)
  ultimately show ?thesis using assms by simp
qed

text \<open>
  C28. While an exchange is not being closed, nothing is received and the channel takes every transmission, a message nobody acknowledges is handed to the
  channel once when it is sent and once more for every firing of the timer before the one that gives up.  There the call of \<^verbatim>\<open>send\<close> fails with
  the retransmission limit, and nothing more is sent however often timers fire.  Without a minimum response timeout these are exactly
  \<^verbatim>\<open>MRP_MAX_TRANSMISSIONS\<close> transmissions; with one the message is repeated until the timeout is over as well.
\<close>

theorem retransmission_limit:
  assumes "send_transmit call c i ex = (m, outs, ex1)" and "requires_ack m"
    and "ex_retransmissionRetries ex = MRP_MAX_TRANSMISSIONS" and "ex_closeTimer ex = None"
  shows "outs @ fst (retry_rounds ts (send_sent m ex1)) =
      (case find (gives_up MRP_MAX_TRANSMISSIONS (so_minimumResponseTimeoutMs (sc_options c)) ts) [0..<length ts] of
         None \<Rightarrow> replicate (Suc (length ts)) (Transmit m)
       | Some j \<Rightarrow> replicate (Suc j) (Transmit m) @ [AckFailure call RetransmissionLimitReachedError]) \<and>
    (so_minimumResponseTimeoutMs (sc_options c) = None \<and> MRP_MAX_TRANSMISSIONS \<le> length ts \<longrightarrow>
      outs @ fst (retry_rounds ts (send_sent m ex1)) =
        replicate MRP_MAX_TRANSMISSIONS (Transmit m) @ [AckFailure call RetransmissionLimitReachedError])"
proof -
  let ?ex = "send_sent m ex1" and ?t = "so_minimumResponseTimeoutMs (sc_options c)"
  have o: "outs = [Transmit m]" and r: "retrying m 0 (case ?t of None \<Rightarrow> NoDeadline | Some n \<Rightarrow> FromFirstFiring n) call ?ex"
    and n: "ex_retransmissionRetries ?ex = MRP_MAX_TRANSMISSIONS"
    using assms
    by (auto simp: send_transmit_def Let_def send_sent_def start_retransmission_def set_retransmissionTimer_def retrying_def)
  have all: "outs @ fst (retry_rounds ts ?ex) =
      (case find (gives_up MRP_MAX_TRANSMISSIONS ?t ts) [0..<length ts] of
         None \<Rightarrow> replicate (Suc (length ts)) (Transmit m)
       | Some j \<Rightarrow> replicate (Suc j) (Transmit m) @ [AckFailure call RetransmissionLimitReachedError])"
    unfolding o retry_rounds_outputs [OF r] n retry_outputs_gives_up by (simp split: option.split)
  have "0 < MRP_MAX_TRANSMISSIONS" by (simp add: MRP_MAX_TRANSMISSIONS_def)
  from find_gives_up [OF this, of ts] this all show ?thesis by simp
qed

theorem retransmission_limit_witness:
  "\<exists>m outs ex1. send_transmit 0 \<lparr>sc_messageType = 2, sc_payload = [], sc_options = sample_options, sc_ackedMessageId = None\<rparr> 9
      sample_exchange = (m, outs, ex1) \<and>
    outs @ fst (retry_rounds [0, 1, 2, 3, 4, 5, 6] (send_sent m ex1)) =
      replicate 5 (Transmit m) @ [AckFailure 0 RetransmissionLimitReachedError]"
proof -
  let ?c = "\<lparr>sc_messageType = 2, sc_payload = [], sc_options = sample_options, sc_ackedMessageId = None\<rparr>"
  obtain m outs ex1 where t: "send_transmit 0 ?c 9 sample_exchange = (m, outs, ex1)"
    by (cases "send_transmit 0 ?c 9 sample_exchange")
  then have "requires_ack m" by (auto simp: send_transmit_def Let_def build_message_def sample_defs)
  with retransmission_limit [OF t this, of "[0, 1, 2, 3, 4, 5, 6]", THEN conjunct2, THEN mp]
  have "outs @ fst (retry_rounds [0, 1, 2, 3, 4, 5, 6] (send_sent m ex1)) =
      replicate 5 (Transmit m) @ [AckFailure 0 RetransmissionLimitReachedError]"
    by (simp add: sample_defs MRP_MAX_TRANSMISSIONS_def del: replicate.simps)
  with t show ?thesis by blast
qed

section \<open>A message that is acknowledged and lost\<close>

text \<open>
  A message that arrives while the previous one is still to be acknowledged is lost for good: the
  exchange acknowledges the previous message and returns without delivering the new one; when the peer
  repeats it, it counts as a duplicate and is acknowledged, but it is never delivered.
\<close>

theorem acked_message_lost:
  assumes "ex_receivedMessageToAck (cn_exchange cn) = Some old" and "requires_ack old"
    and "ex_sentMessageToAck (cn_exchange cn) = None" and "requires_ack m" and "\<not> standalone m"
    and "pl_protocolId (msg_payloadHeader m) = ex_protocolId (cn_exchange cn)"
    and "rs_kind (cn_reception cn) = EncryptedWithoutRollover" and "rs_maximumMessageCounter (cn_reception cn) = Some c"
    and "0 \<le> c" and "c < message_id m" and "message_id m \<le> MAX_COUNTER_VALUE_32BIT"
  shows "cn_delivered (fold exchange_do [EvReceived m, EvReceived m] cn) = cn_delivered cn \<and>
    cn_acking (fold exchange_do [EvReceived m, EvReceived m] cn) = cn_acking cn @ [message_id old, message_id m]"
proof -
  obtain rs where rs: "updateMessageCounter (message_id m) (cn_reception cn) = Inr rs" "rs_maximumMessageCounter rs = Some (message_id m)"
    using ahead_accepted [of "cn_reception cn" "message_id m"] assms(7-11) by auto
  have dup: "updateMessageCounter (message_id m) rs = Inl DuplicateMessageError"
    using rs(2) assms(9-11) by (simp add: updateMessageCounter_def)
  show ?thesis
    using assms(1-6) rs(1) dup
    by (simp add: receive_message_def onMessageReceived_def answered_def receive_ack_def standalone_ack_simps call_acks_def)
qed

theorem acked_message_lost_witness:
  "let cn = fold exchange_do [EvReceived (sample_message 5)] (new_connection EncryptedWithoutRollover (Some 4) sample_exchange);
       cn' = fold exchange_do [EvReceived (sample_message 6), EvReceived (sample_message 6)] cn
   in cn_delivered cn' = [sample_message 5] \<and> cn_acking cn' = [5, 6]"
proof -
  let ?cn = "fold exchange_do [EvReceived (sample_message 5)] (new_connection EncryptedWithoutRollover (Some 4) sample_exchange)"
  have facts: "ex_receivedMessageToAck (cn_exchange ?cn) = Some (sample_message 5)" "requires_ack (sample_message 5)"
    "ex_sentMessageToAck (cn_exchange ?cn) = None" "requires_ack (sample_message 6)" "\<not> standalone (sample_message 6)"
    "pl_protocolId (msg_payloadHeader (sample_message 6)) = ex_protocolId (cn_exchange ?cn)"
    "rs_kind (cn_reception ?cn) = EncryptedWithoutRollover" "rs_maximumMessageCounter (cn_reception ?cn) = Some 5"
    "(0::int) \<le> 5" "5 < message_id (sample_message 6)" "message_id (sample_message 6) \<le> MAX_COUNTER_VALUE_32BIT"
    unfolding sample_first by (simp_all add: sample_defs MAX_COUNTER_VALUE_32BIT_def)
  have "cn_delivered ?cn = [sample_message 5]" "cn_acking ?cn = []" "message_id (sample_message 5) = 5" "message_id (sample_message 6) = 6"
    unfolding sample_first by (simp_all add: sample_message_def)
  with acked_message_lost [OF facts] show ?thesis unfolding Let_def by simp
qed

text \<open>
  An acknowledgement that arrives before the channel has reported the message as sent does not stop
  its retransmission: the timer is started afterwards.
\<close>

theorem early_ack_keeps_retransmitting:
  assumes "send_transmit call c i ex = (m, outs, ex1)" and "requires_ack m" and "acked_id a = Some (message_id m)"
    and "receive_ack a ex1 = Inr (outs', ex2)"
  shows "ex_sentMessageToAck ex2 = None \<and> (\<exists>j r. ex_retransmissionTimer (send_sent m ex2) = Some j \<and>
    ex_timers (send_sent m ex2) j = Some (r, True) \<and> rt_message r = m)"
  using assms
  by (auto simp: send_transmit_def Let_def receive_ack_def set_retransmissionTimer_def stop_retransmission_def
      send_sent_def start_retransmission_def)

end
