(* ===== verification/JsText.thy ===== *)
theory JsText
  imports Utf8 JsNumber
begin

text \<open>
  The text operations of the language that the address and name codecs use, on strings as lists of
  Unicode scalar values: \<^verbatim>\<open>split\<close> and \<^verbatim>\<open>join\<close> on a one character separator, \<^verbatim>\<open>Number.prototype.toString\<close>
  with a radix, and \<^verbatim>\<open>parseInt\<close>.  The lemmas are the round trips the codecs rely on.
\<close>

section \<open>Splitting and joining\<close>

definition js_text :: "string \<Rightarrow> jsstring" where
  "js_text s = map of_char s"

fun js_split :: "nat \<Rightarrow> jsstring \<Rightarrow> jsstring list" where
  "js_split sep [] = [[]]"
| "js_split sep (c # cs) =
     (if c = sep then [] # js_split sep cs
      else case js_split sep cs of [] \<Rightarrow> [[c]] | p # ps \<Rightarrow> (c # p) # ps)"

fun js_join :: "nat \<Rightarrow> jsstring list \<Rightarrow> jsstring" where
  "js_join sep [] = []"
| "js_join sep [p] = p"
| "js_join sep (p # q # ps) = p @ sep # js_join sep (q # ps)"

lemma js_split_nonempty [simp]: "js_split sep s \<noteq> []"
  by (induction s) (auto split: list.splits)

lemma js_split_append: "js_split sep (a @ sep # b) = js_split sep a @ js_split sep b"
proof (induction a)
  case (Cons c a)
  then show ?case by (cases "js_split sep a") auto
qed simp

lemma js_split_prefix: "sep \<notin> set p \<Longrightarrow> js_split sep (p @ sep # s) = p # js_split sep s"
  by (induction p) auto

lemma js_split_plain: "sep \<notin> set p \<Longrightarrow> js_split sep p = [p]"
  by (induction p) auto

text \<open>Splitting a joined list gives it back when no part holds the separator, and joining always undoes splitting.\<close>

lemma js_split_join:
  "ps \<noteq> [] \<Longrightarrow> list_all (\<lambda>p. sep \<notin> set p) ps \<Longrightarrow> js_split sep (js_join sep ps) = ps"
  by (induction sep ps rule: js_join.induct) (auto simp: js_split_prefix js_split_plain)

lemma js_join_Cons: "ps \<noteq> [] \<Longrightarrow> js_join sep (p # ps) = p @ sep # js_join sep ps"
  by (cases ps) auto

lemma js_join_head: "js_join sep ((c # p) # ps) = c # js_join sep (p # ps)"
  by (cases ps) auto

lemma js_join_split: "js_join sep (js_split sep s) = s"
proof (induction s)
  case (Cons c s)
  then show ?case by (cases "js_split sep s") (auto simp: js_join_Cons js_join_head)
qed simp

lemma js_join_append: "ps \<noteq> [] \<Longrightarrow> qs \<noteq> [] \<Longrightarrow> js_join sep (ps @ qs) = js_join sep ps @ sep # js_join sep qs"
proof (induction ps)
  case (Cons p ps)
  then show ?case by (cases ps) (auto simp: js_join_Cons)
qed simp

lemma js_split_parts: "p \<in> set (js_split sep s) \<Longrightarrow> sep \<notin> set p"
proof (induction s arbitrary: p)
  case (Cons c s)
  then show ?case by (cases "js_split sep s") (auto split: if_splits)
qed simp

lemma js_split_subset: "p \<in> set (js_split sep s) \<Longrightarrow> set p \<subseteq> set s"
proof (induction s arbitrary: p)
  case (Cons c s)
  then show ?case by (cases "js_split sep s") (fastforce split: if_splits)+
qed simp

lemma sep_in_join: "sep \<in> set (js_join sep (p # q # ps))"
  by simp

section \<open>Numbers as text\<close>

definition digit_code :: "nat \<Rightarrow> nat" where
  "digit_code d = (if d < 10 then 48 + d else 87 + d)"

definition code_digit :: "nat \<Rightarrow> nat option" where
  "code_digit c =
     (if 48 \<le> c \<and> c \<le> 57 then Some (c - 48)
      else if 97 \<le> c \<and> c \<le> 122 then Some (c - 87)
      else if 65 \<le> c \<and> c \<le> 90 then Some (c - 55)
      else None)"

text \<open>\<^verbatim>\<open>n.toString(radix)\<close> of a number that holds a natural number, for radix 2 to 36.\<close>

function number_text :: "nat \<Rightarrow> nat \<Rightarrow> jsstring" where
  "number_text radix n =
     (if n < radix \<or> radix < 2 then [digit_code n]
      else number_text radix (n div radix) @ [digit_code (n mod radix)])"
  by auto
termination by (relation "measure snd") auto

declare number_text.simps [simp del]

definition js_blank :: "nat \<Rightarrow> bool" where
  "js_blank c \<longleftrightarrow> c \<in> {9, 10, 11, 12, 13, 32, 0xA0, 0x1680, 0x2028, 0x2029, 0x202F, 0x205F, 0x3000, 0xFEFF} \<or>
     (0x2000 \<le> c \<and> c \<le> 0x200A)"

fun parse_digits :: "nat \<Rightarrow> jsstring \<Rightarrow> nat option \<Rightarrow> nat option" where
  "parse_digits radix [] acc = acc"
| "parse_digits radix (c # cs) acc =
     (case code_digit c of
        None \<Rightarrow> acc
      | Some d \<Rightarrow>
          if d < radix then parse_digits radix cs (Some ((case acc of None \<Rightarrow> 0 | Some a \<Rightarrow> a) * radix + d))
          else acc)"

definition hex_prefixed :: "jsstring \<Rightarrow> bool" where
  "hex_prefixed s \<longleftrightarrow> take 2 s = [48, 120] \<or> take 2 s = [48, 88]"

text \<open>
  \<^verbatim>\<open>parseInt(s, radix)\<close>, with \<open>None\<close> for a missing radix: blanks and a sign are skipped, \<^verbatim>\<open>0x\<close> switches to
  radix 16 when the radix is missing or 16, and the digits end at the first other character.  \<open>None\<close> is NaN.
\<close>

definition js_parseInt :: "nat option \<Rightarrow> jsstring \<Rightarrow> int option" where
  "js_parseInt radix s =
     (let t = dropWhile js_blank s;
          neg = (t \<noteq> [] \<and> hd t = 45);
          u = (if t \<noteq> [] \<and> (hd t = 45 \<or> hd t = 43) then tl t else t);
          hex = ((radix = None \<or> radix = Some 16) \<and> hex_prefixed u);
          v = (if hex then drop 2 u else u);
          base = (if hex then 16 else case radix of None \<Rightarrow> 10 | Some b \<Rightarrow> b)
      in map_option (\<lambda>n. if neg then - int n else int n) (parse_digits base v None))"

text \<open>The number a \<^verbatim>\<open>DataView\<close> or typed array stores for NaN is 0.\<close>

definition stored :: "int option \<Rightarrow> int" where
  "stored v = (case v of None \<Rightarrow> 0 | Some n \<Rightarrow> n)"

subsection \<open>Reading a number back\<close>

lemma code_digit_code: "d < 36 \<Longrightarrow> code_digit (digit_code d) = Some d"
  by (auto simp: digit_code_def code_digit_def)

definition digit_below :: "nat \<Rightarrow> nat \<Rightarrow> bool" where
  "digit_below radix c = (case code_digit c of None \<Rightarrow> False | Some d \<Rightarrow> d < radix)"

lemma digit_below_code: "d < radix \<Longrightarrow> radix \<le> 36 \<Longrightarrow> digit_below radix (digit_code d)"
  by (simp add: digit_below_def code_digit_code)

lemma number_text_nonempty [simp]: "number_text radix n \<noteq> []"
  by (subst number_text.simps) simp

lemma number_text_digits:
  "2 \<le> radix \<Longrightarrow> radix \<le> 36 \<Longrightarrow> list_all (digit_below radix) (number_text radix n)"
proof (induction radix n rule: number_text.induct)
  case (1 radix n)
  then show ?case by (subst number_text.simps) (simp add: digit_below_code)
qed

lemma parse_digits_append:
  "list_all (digit_below radix) s \<Longrightarrow> parse_digits radix (s @ t) acc = parse_digits radix t (parse_digits radix s acc)"
  by (induction s arbitrary: acc) (auto simp: digit_below_def split: option.splits)

lemma parse_digits_number_text:
  "2 \<le> radix \<Longrightarrow> radix \<le> 36 \<Longrightarrow> parse_digits radix (number_text radix n) None = Some n"
proof (induction radix n rule: number_text.induct)
  case (1 radix n)
  show ?case
  proof (cases "n < radix")
    case True
    with 1 show ?thesis by (subst number_text.simps) (simp add: code_digit_code)
  next
    case False
    have "n mod radix < radix" using 1(2) by simp
    then have "code_digit (digit_code (n mod radix)) = Some (n mod radix)" using 1(3) by (intro code_digit_code) simp
    with False 1 show ?thesis
      by (subst number_text.simps) (simp add: parse_digits_append number_text_digits)
  qed
qed

lemma digit_below_plain:
  assumes "digit_below radix c" and "radix \<le> 16"
  shows "\<not> js_blank c" "c \<noteq> 45" "c \<noteq> 43" "c \<noteq> 46" "c \<noteq> 58" "c \<noteq> 120" "c \<noteq> 88" "c < 0x80"
  using assms by (auto simp: digit_below_def code_digit_def js_blank_def split: if_splits)

lemma number_text_parts:
  assumes "2 \<le> radix" and "radix \<le> 16"
  shows "46 \<notin> set (number_text radix n)" and "58 \<notin> set (number_text radix n)"
  using number_text_digits [of radix n] assms digit_below_plain(4,5) [OF _ assms(2)]
  by (fastforce simp: list_all_iff)+

text \<open>\<^verbatim>\<open>parseInt\<close> reads the text of a number back, in base ten without a radix and in base sixteen with it.\<close>

theorem js_parseInt_number_text:
  "js_parseInt None (number_text 10 n) = Some (int n)"
  "js_parseInt (Some 16) (number_text 16 n) = Some (int n)"
proof -
  have *: "dropWhile js_blank (number_text radix n) = number_text radix n"
      "hd (number_text radix n) \<noteq> 45" "hd (number_text radix n) \<noteq> 43" "\<not> hex_prefixed (number_text radix n)"
    if "2 \<le> radix" "radix \<le> 16" for radix
  proof -
    obtain c cs where s: "number_text radix n = c # cs" by (cases "number_text radix n") auto
    have d: "list_all (digit_below radix) (c # cs)" using number_text_digits [of radix n] that s by simp
    then show "dropWhile js_blank (number_text radix n) = number_text radix n"
      "hd (number_text radix n) \<noteq> 45" "hd (number_text radix n) \<noteq> 43"
      using digit_below_plain [of radix c] that s by auto
    show "\<not> hex_prefixed (number_text radix n)"
      using d digit_below_plain [of radix] that s by (cases cs) (auto simp: hex_prefixed_def)
  qed
  from * [of 10] show "js_parseInt None (number_text 10 n) = Some (int n)"
    by (simp add: js_parseInt_def parse_digits_number_text)
  from * [of 16] show "js_parseInt (Some 16) (number_text 16 n) = Some (int n)"
    by (simp add: js_parseInt_def parse_digits_number_text)
qed

lemma stored_simps [simp]: "stored None = 0" "stored (Some n) = n"
  by (simp_all add: stored_def)

lemma number_text_inject:
  assumes "2 \<le> radix" "radix \<le> 36" "number_text radix m = number_text radix n"
  shows "m = n"
proof -
  have "Some m = parse_digits radix (number_text radix m) None" using assms(1,2) by (simp only: parse_digits_number_text)
  also have "\<dots> = Some n" unfolding assms(3) using assms(1,2) by (simp only: parse_digits_number_text)
  finally show ?thesis by simp
qed

end
