(* ===== verification/IpAddress.thy ===== *)
theory IpAddress
  imports JsText
begin

text \<open>
  Address texts, \<^verbatim>\<open>util/Ip.ts\<close>: the tests that tell the two families apart, the numbers an address
  stands for, and the comparison of two addresses under a network mask.
\<close>

section \<open>Operations\<close>

definition isIPv4 :: "jsstring \<Rightarrow> bool" where
  "isIPv4 ip \<longleftrightarrow> 46 \<in> set ip"

definition isIPv6 :: "jsstring \<Rightarrow> bool" where
  "isIPv6 ip \<longleftrightarrow> 58 \<in> set ip"

text \<open>A missing part is \<^verbatim>\<open>parseInt(undefined)\<close>, NaN; \<^verbatim>\<open>setUint8\<close> keeps the low byte.\<close>

definition ipv4_byte :: "jsstring list \<Rightarrow> nat \<Rightarrow> int" where
  "ipv4_byte ipParts i =
     (if i < length ipParts then take_bit 8 (toNumber (stored (js_parseInt None (ipParts ! i)))) else 0)"

definition iPv4ToNumber :: "jsstring \<Rightarrow> int" where
  "iPv4ToNumber ip =
     (let ipParts = js_split 46 ip
      in foldl (\<lambda>n i. n * 256 + ipv4_byte ipParts i) 0 [0..<4])"

text \<open>\<^verbatim>\<open>s.replace("::", r)\<close> replaces the first occurrence.\<close>

fun replace_colons :: "jsstring \<Rightarrow> jsstring \<Rightarrow> jsstring" where
  "replace_colons r (a # b # s) = (if a = 58 \<and> b = 58 then r @ s else a # replace_colons r (b # s))"
| "replace_colons r s = s"

text \<open>\<^verbatim>\<open>":".padEnd((8 - valueCount) * 2 + 1, "0:")\<close>\<close>

definition zero_padding :: "nat \<Rightarrow> jsstring" where
  "zero_padding valueCount = 58 # concat (replicate (8 - valueCount) [48, 58])"

text \<open>Words beyond the eighth are dropped by the typed array, missing ones stay 0.\<close>

definition iPv6ToArray :: "jsstring \<Rightarrow> int list" where
  "iPv6ToArray ip =
     (let ipParts = js_split 58 ip;
          valueCount = length (filter (\<lambda>value. value \<noteq> []) ipParts);
          ipParts = (if valueCount \<noteq> 8 then js_split 58 (replace_colons (zero_padding valueCount) ip) else ipParts);
          ws = map (\<lambda>part. take_bit 16 (toNumber (stored (js_parseInt (Some 16) part)))) (filter (\<lambda>part. part \<noteq> []) ipParts)
      in take 8 (ws @ replicate 8 0))"

text \<open>
  The comparison loop; an index beyond the eight words reads \<^verbatim>\<open>undefined\<close>, which differs from 0 and counts as
  0 in the masking.  \<open>None\<close> is the value \<^verbatim>\<open>undefined\<close> of a function that ends without a return.
\<close>

definition word_at :: "int list \<Rightarrow> nat \<Rightarrow> int option" where
  "word_at ws i = (if i < length ws then Some (ws ! i) else None)"

fun same_network_loop :: "int list \<Rightarrow> int list \<Rightarrow> int list \<Rightarrow> nat list \<Rightarrow> bool option" where
  "same_network_loop ip1 ip2 netmask [] = None"
| "same_network_loop ip1 ip2 netmask (i # is) =
     (let m = word_at netmask i in
      if m = Some 0 then Some True
      else if js_and (stored (word_at ip1 i)) (stored m) \<noteq> js_and (stored (word_at ip2 i)) (stored m) then Some False
      else same_network_loop ip1 ip2 netmask is)"

definition onSameNetwork :: "jsstring \<Rightarrow> jsstring \<Rightarrow> jsstring \<Rightarrow> bool option" where
  "onSameNetwork ip1 ip2 netmask =
     (if isIPv4 ip1 then
        if \<not> isIPv4 ip2 \<or> \<not> isIPv4 netmask then Some False
        else Some (js_and (iPv4ToNumber ip1) (iPv4ToNumber netmask) = js_and (iPv4ToNumber ip2) (iPv4ToNumber netmask))
      else if isIPv4 ip2 \<or> isIPv4 netmask then Some False
      else same_network_loop (iPv6ToArray ip1) (iPv6ToArray ip2) (iPv6ToArray netmask) [0..<16])"

section \<open>Texts of addresses\<close>

definition ipv4_text :: "nat list \<Rightarrow> jsstring" where
  "ipv4_text bs = js_join 46 (map (number_text 10) bs)"

text \<open>An IPv6 address with words \<open>pre\<close>, \<open>k\<close> zero words written as \<^verbatim>\<open>::\<close>, and words \<open>post\<close>.\<close>

definition ipv6_full_text :: "nat list \<Rightarrow> jsstring" where
  "ipv6_full_text ws = js_join 58 (map (number_text 16) ws)"

definition ipv6_short_text :: "nat list \<Rightarrow> nat list \<Rightarrow> jsstring" where
  "ipv6_short_text pre post = ipv6_full_text pre @ 58 # 58 # ipv6_full_text post"

lemma hex_parts: "list_all (\<lambda>p. 58 \<notin> set p) (map (number_text 16) ws)"
  by (simp add: list_all_iff number_text_parts)

lemma full_text_parts:
  "filter (\<lambda>p. p \<noteq> []) (js_split 58 (ipv6_full_text ws)) = map (number_text 16) ws"
proof (cases "ws = []")
  case False
  then have "js_split 58 (ipv6_full_text ws) = map (number_text 16) ws"
    unfolding ipv6_full_text_def by (intro js_split_join hex_parts) simp
  then show ?thesis by (simp add: filter_id_conv)
qed (simp add: ipv6_full_text_def)

lemma parse_words:
  "list_all (\<lambda>w. w < 65536) ws \<Longrightarrow>
   map (\<lambda>part. take_bit 16 (toNumber (stored (js_parseInt (Some 16) part)))) (map (number_text 16) ws) = map int ws"
  by (auto simp: list_all_iff js_parseInt_number_text toNumber_range take_bit_int_eq_self)

text \<open>The first \<^verbatim>\<open>::\<close> of an address is the one between its two halves.\<close>

lemma replace_colons_plain: "58 \<notin> set d \<Longrightarrow> replace_colons r (d @ 58 # s) = d @ replace_colons r (58 # s)"
proof (induction d)
  case (Cons c d)
  then show ?case by (cases d) auto
qed simp

lemma replace_colons_join:
  "list_all (\<lambda>p. 58 \<notin> set p \<and> p \<noteq> []) ps \<Longrightarrow>
   replace_colons r (js_join 58 ps @ 58 # 58 # t) = js_join 58 ps @ r @ t"
proof (induction "58 :: nat" ps rule: js_join.induct)
  case (2 p)
  then show ?case by (simp add: replace_colons_plain)
next
  case (3 p q ps)
  then obtain c q' where q: "q = c # q'" "c \<noteq> 58" by (cases q) auto
  then have "replace_colons r (58 # js_join 58 (q # ps) @ 58 # 58 # t) =
      58 # replace_colons r (js_join 58 (q # ps) @ 58 # 58 # t)"
    by (simp add: js_join_head)
  with 3 show ?case by (simp add: replace_colons_plain)
qed simp

lemma split_zeros:
  "js_split 58 (concat (replicate k [48, 58]) @ s) = replicate k [48] @ js_split 58 s"
  by (induction k) auto

lemma number_text_16_0: "number_text 16 0 = [48]"
  by (simp add: number_text.simps [of 16 0] digit_code_def)

text \<open>The eight words of an address are read from the text with all words and from every shortened text.\<close>

theorem iPv6ToArray_texts:
  assumes "list_all (\<lambda>w. w < 65536) pre" and "list_all (\<lambda>w. w < 65536) post"
  shows "length pre = 8 \<Longrightarrow> iPv6ToArray (ipv6_full_text pre) = map int pre"
    and "length pre + length post < 8 \<Longrightarrow> iPv6ToArray (ipv6_short_text pre post) =
      map int (pre @ replicate (8 - (length pre + length post)) 0 @ post)"
proof -
  assume "length pre = 8"
  then show "iPv6ToArray (ipv6_full_text pre) = map int pre"
    using parse_words [OF assms(1)] full_text_parts [of pre] by (simp add: iPv6ToArray_def del: map_map)
next
  assume len: "length pre + length post < 8"
  let ?k = "8 - (length pre + length post)" and ?t = "map (number_text 16)"
  have "js_split 58 (ipv6_short_text pre post) =
      js_split 58 (ipv6_full_text pre) @ [[]] @ js_split 58 (ipv6_full_text post)"
    by (simp add: ipv6_short_text_def js_split_append)
  then have c: "length (filter (\<lambda>p. p \<noteq> []) (js_split 58 (ipv6_short_text pre post))) = length pre + length post"
    by (simp add: full_text_parts)
  have "replace_colons (zero_padding (length pre + length post)) (ipv6_short_text pre post) =
      ipv6_full_text pre @ 58 # (concat (replicate ?k [48, 58]) @ ipv6_full_text post)"
    unfolding ipv6_short_text_def ipv6_full_text_def zero_padding_def
    by (subst replace_colons_join) (simp_all add: list_all_iff number_text_parts)
  then have "filter (\<lambda>p. p \<noteq> []) (js_split 58 (replace_colons (zero_padding (length pre + length post)) (ipv6_short_text pre post))) =
      ?t (pre @ replicate ?k 0 @ post)"
    by (simp add: js_split_append split_zeros full_text_parts number_text_16_0)
  moreover have "list_all (\<lambda>w. w < 65536) (pre @ replicate ?k 0 @ post)" using assms by (auto simp: list_all_iff)
  note parse_words [OF this]
  ultimately show "iPv6ToArray (ipv6_short_text pre post) = map int (pre @ replicate ?k 0 @ post)"
    using c len by (simp add: iPv6ToArray_def del: map_map map_append map_replicate)
qed

lemma iPv4ToNumber_text:
  assumes "length bs = 4" and "list_all (\<lambda>b. b < 256) bs"
  shows "iPv4ToNumber (ipv4_text bs) = foldl (\<lambda>n b. n * 256 + int b) 0 bs"
proof -
  have sp: "js_split 46 (ipv4_text bs) = map (number_text 10) bs"
    unfolding ipv4_text_def using assms(1) by (intro js_split_join) (auto simp: list_all_iff number_text_parts)
  have "ipv4_byte (map (number_text 10) bs) i = int (bs ! i)" if "i < 4" for i
    using assms that
    by (simp add: ipv4_byte_def js_parseInt_number_text toNumber_range take_bit_int_eq_self list_all_length order_less_imp_le
        less_trans [of _ 256])
  moreover obtain a b c d where "bs = [a, b, c, d]"
    using assms(1) by (auto simp: numeral_eq_Suc length_Suc_conv)
  moreover have "[0..<4] = [0, 1, 2, 3 :: nat]" by (simp add: upt_rec)
  ultimately show ?thesis unfolding iPv4ToNumber_def sp Let_def by simp
qed

section \<open>Networks\<close>

text \<open>
  What the comparison of IPv6 addresses computes: the words before the first zero word of the mask have to
  agree under the mask, and then the answer is true, unless the mask has no zero word at all.
\<close>

definition agree :: "int list \<Rightarrow> int list \<Rightarrow> int list \<Rightarrow> bool" where
  "agree a b m = list_all (\<lambda>(x, y, z). js_and x z = js_and y z) (zip a (zip b m))"

lemma same_network_loop_tail:
  "length a = 8 \<Longrightarrow> length b = 8 \<Longrightarrow> length m = 8 \<Longrightarrow> 8 \<le> i \<Longrightarrow> same_network_loop a b m [i..<16] = None"
proof (induction "16 - i" arbitrary: i)
  case (Suc k)
  then show ?case by (simp add: upt_conv_Cons word_at_def)
qed simp

lemma same_network_loop_words:
  assumes "length a = 8" "length b = 8" "length m = 8" "i \<le> 8"
  shows "same_network_loop a b m [i..<16] =
    (let n = length (takeWhile (\<lambda>w. w \<noteq> 0) (drop i m)) in
     if \<not> agree (take n (drop i a)) (take n (drop i b)) (take n (drop i m)) then Some False
     else if i + n = 8 then None else Some True)"
  using assms(4)
proof (induction "8 - i" arbitrary: i)
  case 0
  then show ?case using assms same_network_loop_tail [of a b m i] by (simp add: agree_def)
next
  case (Suc k)
  then have i: "i < 8" by simp
  then have d: "drop i a = a ! i # drop (Suc i) a" "drop i b = b ! i # drop (Suc i) b" "drop i m = m ! i # drop (Suc i) m"
    using assms by (simp_all add: Cons_nth_drop_Suc)
  have "same_network_loop a b m [i..<16] =
      (if m ! i = 0 then Some True else if js_and (a ! i) (m ! i) \<noteq> js_and (b ! i) (m ! i) then Some False
       else same_network_loop a b m [Suc i..<16])"
    using i assms by (simp add: upt_conv_Cons word_at_def)
  with Suc.hyps(1) [of "Suc i"] Suc.hyps(2) i show ?case
    by (simp add: d agree_def Let_def del: upt_Suc)
qed

theorem onSameNetwork_ipv6:
  assumes "\<not> isIPv4 ip1" "\<not> isIPv4 ip2" "\<not> isIPv4 netmask"
    and "iPv6ToArray netmask = m" "iPv6ToArray ip1 = a" "iPv6ToArray ip2 = b"
  shows "onSameNetwork ip1 ip2 netmask =
    (let n = length (takeWhile (\<lambda>w. w \<noteq> 0) m) in
     if \<not> agree (take n a) (take n b) (take n m) then Some False
     else if n = 8 then None else Some True)"
proof -
  have "length (iPv6ToArray ip) = 8" for ip by (simp add: iPv6ToArray_def Let_def)
  then have "length a = 8" "length b = 8" "length m = 8" using assms by auto
  then show ?thesis using assms same_network_loop_words [of a b m 0] by (simp add: onSameNetwork_def Let_def)
qed

end
