(* ===== verification/DnsCodec.thy ===== *)
theory DnsCodec
  imports ByteIO IpAddress
begin

text \<open>
  DNS messages, \<^verbatim>\<open>codec/DnsCodec.ts\<close>: the queries and records with which nodes find each other, read and
  written in big endian order.  Strings are lists of Unicode scalar values.  A record value is untyped in the
  source; \<open>record_value\<close> has the four shapes the codec itself produces, and an operation applied to a value of
  another shape does what the language does with it.  An absent flag is \<open>False\<close>, an absent list empty and an
  absent transaction id 0, the defaults of the source.  \<^verbatim>\<open>decodeQName\<close> calls itself for a compressed name; the
  argument \<open>stack\<close> is the number of such calls the engine's call stack has room for.
\<close>

section \<open>Data\<close>

definition MAX_MDNS_MESSAGE_SIZE :: nat where "MAX_MDNS_MESSAGE_SIZE = 1232"

definition DnsMessageType_Query :: int where "DnsMessageType_Query = 0x0000"
definition DnsMessageType_TruncatedQuery :: int where "DnsMessageType_TruncatedQuery = 0x0200"
definition DnsMessageType_Response :: int where "DnsMessageType_Response = 0x8400"
definition DnsMessageType_TruncatedResponse :: int where "DnsMessageType_TruncatedResponse = 0x8600"

definition DnsRecordType_A :: int where "DnsRecordType_A = 0x01"
definition DnsRecordType_PTR :: int where "DnsRecordType_PTR = 0x0c"
definition DnsRecordType_TXT :: int where "DnsRecordType_TXT = 0x10"
definition DnsRecordType_AAAA :: int where "DnsRecordType_AAAA = 0x1c"
definition DnsRecordType_SRV :: int where "DnsRecordType_SRV = 0x21"

definition DnsRecordClass_IN :: int where "DnsRecordClass_IN = 0x01"

lemmas record_type_defs =
  DnsRecordType_A_def DnsRecordType_PTR_def DnsRecordType_TXT_def DnsRecordType_AAAA_def DnsRecordType_SRV_def

lemmas message_type_defs =
  DnsMessageType_Query_def DnsMessageType_TruncatedQuery_def DnsMessageType_Response_def
  DnsMessageType_TruncatedResponse_def

record SrvRecordValue =
  srv_priority :: int
  srv_weight :: int
  srv_port :: int
  srv_target :: jsstring

datatype record_value =
    VString jsstring
  | VStrings "jsstring list"
  | VSrv SrvRecordValue
  | VBytes "byte list"

record DnsQuery =
  q_name :: jsstring
  q_recordType :: int
  q_recordClass :: int
  q_uniCastResponse :: bool

record DnsRecord =
  r_name :: jsstring
  r_recordType :: int
  r_recordClass :: int
  r_flushCache :: bool
  r_ttl :: int
  r_value :: record_value

record DnsMessage =
  m_transactionId :: int
  m_messageType :: int
  m_queries :: "DnsQuery list"
  m_answers :: "DnsRecord list"
  m_authorities :: "DnsRecord list"
  m_additionalRecords :: "DnsRecord list"

text \<open>An answer may be handed over already encoded.\<close>

datatype record_entry = Plain DnsRecord | PreEncoded "byte list"

record DnsMessagePartiallyPreEncoded =
  p_transactionId :: int
  p_messageType :: "int option"
  p_queries :: "DnsQuery list"
  p_answers :: "record_entry list"
  p_authorities :: "DnsRecord list"
  p_additionalRecords :: "record_entry list"

definition PtrRecord :: "jsstring \<Rightarrow> jsstring \<Rightarrow> int \<Rightarrow> bool \<Rightarrow> DnsRecord" where
  "PtrRecord name ptr ttl flushCache =
     \<lparr>r_name = name, r_recordType = DnsRecordType_PTR, r_recordClass = DnsRecordClass_IN, r_flushCache = flushCache,
      r_ttl = ttl, r_value = VString ptr\<rparr>"

definition ARecord :: "jsstring \<Rightarrow> jsstring \<Rightarrow> int \<Rightarrow> bool \<Rightarrow> DnsRecord" where
  "ARecord name ip ttl flushCache =
     \<lparr>r_name = name, r_recordType = DnsRecordType_A, r_recordClass = DnsRecordClass_IN, r_flushCache = flushCache,
      r_ttl = ttl, r_value = VString ip\<rparr>"

definition AAAARecord :: "jsstring \<Rightarrow> jsstring \<Rightarrow> int \<Rightarrow> bool \<Rightarrow> DnsRecord" where
  "AAAARecord name ip ttl flushCache =
     \<lparr>r_name = name, r_recordType = DnsRecordType_AAAA, r_recordClass = DnsRecordClass_IN, r_flushCache = flushCache,
      r_ttl = ttl, r_value = VString ip\<rparr>"

definition TxtRecord :: "jsstring \<Rightarrow> jsstring list \<Rightarrow> int \<Rightarrow> bool \<Rightarrow> DnsRecord" where
  "TxtRecord name entries ttl flushCache =
     \<lparr>r_name = name, r_recordType = DnsRecordType_TXT, r_recordClass = DnsRecordClass_IN, r_flushCache = flushCache,
      r_ttl = ttl, r_value = VStrings entries\<rparr>"

definition SrvRecord :: "jsstring \<Rightarrow> SrvRecordValue \<Rightarrow> int \<Rightarrow> bool \<Rightarrow> DnsRecord" where
  "SrvRecord name srv ttl flushCache =
     \<lparr>r_name = name, r_recordType = DnsRecordType_SRV, r_recordClass = DnsRecordClass_IN, r_flushCache = flushCache,
      r_ttl = ttl, r_value = VSrv srv\<rparr>"

section \<open>Decoding\<close>

text \<open>The loop of \<^verbatim>\<open>decodeQName\<close>; \<open>self\<close> is the recursive call, \<open>mr\<close> the reader of the whole message.\<close>

fun decodeQName_loop ::
  "(DataReader \<Rightarrow> (jsstring \<times> DataReader) result) \<Rightarrow> nat \<Rightarrow> DataReader \<Rightarrow> DataReader \<Rightarrow> jsstring list \<Rightarrow>
    (jsstring \<times> DataReader) result" where
  "decodeQName_loop self 0 mr r qNameItems = Inl OutOfFuel"
| "decodeQName_loop self (Suc fuel) mr r qNameItems =
     rbind (readUInt8 r) (\<lambda>(itemLength, r).
       if itemLength = 0 then Inr (js_join 46 qNameItems, r)
       else if js_and itemLength 0xc0 \<noteq> 0 then
         rbind (readUInt8 r) (\<lambda>(low, r).
           let indexInMessage = js_or low (js_shl (js_and itemLength 0x3f) 8)
           in rbind (setOffset (nat indexInMessage) mr) (\<lambda>mr.
                rbind (self mr) (\<lambda>(name, _). Inr (js_join 46 (qNameItems @ [name]), r))))
       else
         let (label, r) = readUtf8String (nat itemLength) r
         in decodeQName_loop self fuel mr r (qNameItems @ [label]))"

text \<open>Every round of the loop reads a byte, so it makes at most one round more than there are bytes left.\<close>

fun decodeQName :: "nat \<Rightarrow> byte list \<Rightarrow> DataReader \<Rightarrow> (jsstring \<times> DataReader) result" where
  "decodeQName 0 message r = Inl RangeError"
| "decodeQName (Suc stack) message r =
     decodeQName_loop (decodeQName stack message) (length (getRemainingBytes r) + 1)
       (new_DataReader message Big) r []"

definition decodeSrvRecord :: "nat \<Rightarrow> byte list \<Rightarrow> byte list \<Rightarrow> SrvRecordValue result" where
  "decodeSrvRecord stack valueBytes message =
     rbind (readUInt16 (new_DataReader valueBytes Big)) (\<lambda>(priority, r).
     rbind (readUInt16 r) (\<lambda>(weight, r).
     rbind (readUInt16 r) (\<lambda>(port, r).
     rbind (decodeQName stack message r) (\<lambda>(target, r).
       Inr \<lparr>srv_priority = priority, srv_weight = weight, srv_port = port, srv_target = target\<rparr>))))"

function decodeTxt_loop :: "nat \<Rightarrow> nat \<Rightarrow> DataReader \<Rightarrow> jsstring list \<Rightarrow> jsstring list result" where
  "decodeTxt_loop len bytesRead r acc =
     (if bytesRead < len then
        rbind (readUInt8 r) (\<lambda>(n, r).
          let (entry, r) = readUtf8String (nat n) r
          in decodeTxt_loop len (bytesRead + nat n + 1) r (acc @ [entry]))
      else Inr acc)"
  by auto
termination by (relation "measure (\<lambda>(size, bytesRead, _). size - bytesRead)") auto

declare decodeTxt_loop.simps [simp del]

definition decodeTxtRecord :: "byte list \<Rightarrow> jsstring list result" where
  "decodeTxtRecord valueBytes = decodeTxt_loop (length valueBytes) 0 (new_DataReader valueBytes Big) []"

text \<open>The items of the address, and the runs of zero items as pairs of start and length.\<close>

function zero_run_end :: "jsstring list \<Rightarrow> nat \<Rightarrow> nat" where
  "zero_run_end ipItems i =
     (if i < 8 \<and> ipItems ! i = js_text ''0'' then zero_run_end ipItems (i + 1) else i)"
  by auto
termination by (relation "measure (\<lambda>(_, i). 8 - i)") auto

declare zero_run_end.simps [simp del]

lemma zero_run_end_ge: "i \<le> zero_run_end ipItems i"
proof (induction ipItems i rule: zero_run_end.induct)
  case (1 ipItems i)
  then show ?case
    by (cases "i < 8 \<and> ipItems ! i = js_text ''0''") (auto simp: zero_run_end.simps [of ipItems i])
qed

function zeroSequences :: "jsstring list \<Rightarrow> nat \<Rightarrow> (nat \<times> nat) list" where
  "zeroSequences ipItems i =
     (if i < 8 then
        if ipItems ! i \<noteq> js_text ''0'' then zeroSequences ipItems (i + 1)
        else let e = zero_run_end ipItems (i + 1) in (i, e - i) # zeroSequences ipItems (e + 1)
      else [])"
  by auto
termination
proof (relation "measure (\<lambda>(_, i). 8 - i)", goal_cases)
  case (3 ipItems i e)
  then show ?case using zero_run_end_ge [of "i + 1" ipItems] by auto
qed auto

declare zeroSequences.simps [simp del]

definition compress_zeros :: "jsstring list \<Rightarrow> jsstring list" where
  "compress_zeros ipItems =
     (case sort_key snd (zeroSequences ipItems 0) of
        [] \<Rightarrow> ipItems
      | (start, len) # _ \<Rightarrow>
          let items = ipItems[start := []]
          in take (start + 1) items @ drop (start + 1 + (len - 1)) items)"

definition decodeAaaaRecord :: "byte list \<Rightarrow> jsstring result" where
  "decodeAaaaRecord valueBytes =
     rbind (read_times 8 readUInt16 (new_DataReader valueBytes Big)) (\<lambda>(ws, r).
       Inr (js_join 58 (compress_zeros (map (\<lambda>w. number_text 16 (nat w)) ws))))"

definition decodeARecord :: "byte list \<Rightarrow> jsstring result" where
  "decodeARecord valueBytes =
     rbind (read_times 4 readUInt8 (new_DataReader valueBytes Big)) (\<lambda>(bs, r).
       Inr (js_join 46 (map (\<lambda>b. number_text 10 (nat b)) bs)))"

definition decodeRecordValue :: "nat \<Rightarrow> byte list \<Rightarrow> int \<Rightarrow> byte list \<Rightarrow> record_value result" where
  "decodeRecordValue stack valueBytes recordType message =
     (if recordType = DnsRecordType_PTR then
        rbind (decodeQName stack message (new_DataReader valueBytes Big)) (\<lambda>(name, _). Inr (VString name))
      else if recordType = DnsRecordType_SRV then
        rbind (decodeSrvRecord stack valueBytes message) (\<lambda>srv. Inr (VSrv srv))
      else if recordType = DnsRecordType_TXT then
        rbind (decodeTxtRecord valueBytes) (\<lambda>entries. Inr (VStrings entries))
      else if recordType = DnsRecordType_AAAA then
        rbind (decodeAaaaRecord valueBytes) (\<lambda>ip. Inr (VString ip))
      else if recordType = DnsRecordType_A then
        rbind (decodeARecord valueBytes) (\<lambda>ip. Inr (VString ip))
      else Inr (VBytes valueBytes))"

definition decodeQuery :: "nat \<Rightarrow> byte list \<Rightarrow> DataReader \<Rightarrow> (DnsQuery \<times> DataReader) result" where
  "decodeQuery stack message r =
     rbind (decodeQName stack message r) (\<lambda>(name, r).
     rbind (readUInt16 r) (\<lambda>(recordType, r).
     rbind (readUInt16 r) (\<lambda>(classInt, r).
       Inr (\<lparr>q_name = name, q_recordType = recordType, q_recordClass = js_and classInt 0x7fff,
             q_uniCastResponse = (js_and classInt 0x8000 \<noteq> 0)\<rparr>, r))))"

definition decodeRecord :: "nat \<Rightarrow> byte list \<Rightarrow> DataReader \<Rightarrow> (DnsRecord \<times> DataReader) result" where
  "decodeRecord stack message r =
     rbind (decodeQName stack message r) (\<lambda>(name, r).
     rbind (readUInt16 r) (\<lambda>(recordType, r).
     rbind (readUInt16 r) (\<lambda>(classInt, r).
     rbind (readUInt32 r) (\<lambda>(ttl, r).
     rbind (readUInt16 r) (\<lambda>(valueLength, r).
       let (valueBytes, r) = readByteArray (nat valueLength) r
       in rbind (decodeRecordValue stack valueBytes recordType message) (\<lambda>value.
            Inr (\<lparr>r_name = name, r_recordType = recordType, r_recordClass = js_and classInt 0x7fff,
                  r_flushCache = (js_and classInt 0x8000 \<noteq> 0), r_ttl = ttl, r_value = value\<rparr>, r)))))))"

definition read_message :: "nat \<Rightarrow> byte list \<Rightarrow> DataReader \<Rightarrow> (DnsMessage \<times> DataReader) result" where
  "read_message stack message r =
     rbind (readUInt16 r) (\<lambda>(transactionId, r).
     rbind (readUInt16 r) (\<lambda>(messageType, r).
     rbind (readUInt16 r) (\<lambda>(queriesCount, r).
     rbind (readUInt16 r) (\<lambda>(answersCount, r).
     rbind (readUInt16 r) (\<lambda>(authoritiesCount, r).
     rbind (readUInt16 r) (\<lambda>(additionalRecordsCount, r).
     rbind (read_times (nat queriesCount) (decodeQuery stack message) r) (\<lambda>(queries, r).
     rbind (read_times (nat answersCount) (decodeRecord stack message) r) (\<lambda>(answers, r).
     rbind (read_times (nat authoritiesCount) (decodeRecord stack message) r) (\<lambda>(authorities, r).
     rbind (read_times (nat additionalRecordsCount) (decodeRecord stack message) r) (\<lambda>(additionalRecords, r).
       Inr (\<lparr>m_transactionId = transactionId, m_messageType = messageType, m_queries = queries,
             m_answers = answers, m_authorities = authorities, m_additionalRecords = additionalRecords\<rparr>, r)))))))))))"

text \<open>\<^verbatim>\<open>decode\<close> turns every exception, a call stack overflow included, into \<^verbatim>\<open>undefined\<close>.\<close>

definition decode :: "nat \<Rightarrow> byte list \<Rightarrow> DnsMessage option" where
  "decode stack message =
     (case read_message stack message (new_DataReader message Big) of Inl _ \<Rightarrow> None | Inr (m, _) \<Rightarrow> Some m)"

section \<open>Encoding\<close>

definition write_label :: "jsstring \<Rightarrow> DataWriter \<Rightarrow> DataWriter" where
  "write_label label w =
     (let labelData = fromString label
      in writeByteArray labelData (writeUInt8 (int (length labelData)) w))"

definition encodeQName :: "jsstring \<Rightarrow> byte list result" where
  "encodeQName qname =
     (let w = new_DataWriter Big;
          w = (if qname \<noteq> [] then fold write_label (js_split 46 qname) w else w)
      in written (writeUInt8 0 w))"

definition encodeSrvRecord :: "SrvRecordValue \<Rightarrow> byte list result" where
  "encodeSrvRecord srv =
     (let w = writeUInt16 (srv_port srv) (writeUInt16 (srv_weight srv) (writeUInt16 (srv_priority srv) (new_DataWriter Big)))
      in rbind (encodeQName (srv_target srv)) (\<lambda>target. written (writeByteArray target w)))"

definition encodeTxtRecord :: "jsstring list \<Rightarrow> byte list result" where
  "encodeTxtRecord entries = written (fold write_label entries (new_DataWriter Big))"

text \<open>\<^verbatim>\<open>write_zeros n\<close> is the loop that writes the words an empty part stands for.\<close>

fun write_zeros :: "nat \<Rightarrow> DataWriter \<Rightarrow> DataWriter" where
  "write_zeros 0 w = w"
| "write_zeros (Suc n) w = write_zeros n (writeUInt16 0 w)"

definition encodeAaaaRecord :: "jsstring \<Rightarrow> byte list result" where
  "encodeAaaaRecord ip =
     (if \<not> isIPv6 ip then Inl UnexpectedDataError
      else let parts = js_split 58 ip
           in written (fold (\<lambda>part w.
                writeUInt16 (stored (js_parseInt (Some 16) part))
                  (if part = [] then write_zeros (8 - length parts) w else w)) parts (new_DataWriter Big)))"

definition encodeARecord :: "jsstring \<Rightarrow> byte list result" where
  "encodeARecord ip =
     (if \<not> isIPv4 ip then Inl UnexpectedDataError
      else written (fold (\<lambda>part. writeUInt8 (stored (js_parseInt None part))) (js_split 46 ip) (new_DataWriter Big)))"

text \<open>
  \<^verbatim>\<open>encodeRecordValue\<close> on a value of any shape.  A string is the expected shape of names and addresses; the
  other shapes have no \<^verbatim>\<open>split\<close>, an object has no \<^verbatim>\<open>length\<close>, a byte array has \<^verbatim>\<open>forEach\<close> and \<^verbatim>\<open>includes\<close> over its
  numbers.
\<close>

definition value_qname :: "record_value \<Rightarrow> byte list result" where
  "value_qname v =
     (case v of
        VString s \<Rightarrow> encodeQName s
      | VStrings ss \<Rightarrow> if ss = [] then encodeQName [] else Inl TypeError
      | VSrv _ \<Rightarrow> encodeQName []
      | VBytes bs \<Rightarrow> if bs = [] then encodeQName [] else Inl TypeError)"

definition value_txt :: "record_value \<Rightarrow> byte list result" where
  "value_txt v =
     (case v of
        VStrings ss \<Rightarrow> encodeTxtRecord ss
      | VBytes bs \<Rightarrow> encodeTxtRecord (map (\<lambda>b. number_text 10 (unat b)) bs)
      | _ \<Rightarrow> Inl TypeError)"

definition value_address :: "nat \<Rightarrow> (jsstring \<Rightarrow> byte list result) \<Rightarrow> record_value \<Rightarrow> byte list result" where
  "value_address sep enc v =
     (case v of
        VString s \<Rightarrow> enc s
      | VStrings ss \<Rightarrow> if [sep] \<in> set ss then Inl TypeError else Inl UnexpectedDataError
      | VSrv _ \<Rightarrow> Inl TypeError
      | VBytes _ \<Rightarrow> Inl UnexpectedDataError)"

definition encodeRecordValue :: "record_value \<Rightarrow> int \<Rightarrow> byte list result" where
  "encodeRecordValue value recordType =
     (if recordType = DnsRecordType_PTR then value_qname value
      else if recordType = DnsRecordType_SRV then
        (case value of VSrv srv \<Rightarrow> encodeSrvRecord srv | _ \<Rightarrow> Inl TypeError)
      else if recordType = DnsRecordType_TXT then value_txt value
      else if recordType = DnsRecordType_AAAA then value_address 58 encodeAaaaRecord value
      else if recordType = DnsRecordType_A then value_address 46 encodeARecord value
      else (case value of VBytes bs \<Rightarrow> Inr bs | _ \<Rightarrow> Inl UnexpectedDataError))"

definition encodeRecord :: "DnsRecord \<Rightarrow> byte list result" where
  "encodeRecord rec =
     rbind (encodeQName (r_name rec)) (\<lambda>name.
       let w = writeUInt32 (r_ttl rec)
                 (writeUInt16 (js_or (r_recordClass rec) (if r_flushCache rec then 0x8000 else 0))
                   (writeUInt16 (r_recordType rec) (writeByteArray name (new_DataWriter Big))))
       in rbind (encodeRecordValue (r_value rec) (r_recordType rec)) (\<lambda>encodedValue.
            written (writeByteArray encodedValue (writeUInt16 (int (length encodedValue)) w))))"

definition write_query :: "DnsQuery \<Rightarrow> DataWriter \<Rightarrow> DataWriter result" where
  "write_query q w =
     rbind (encodeQName (q_name q)) (\<lambda>name.
       Inr (writeUInt16 (js_or (q_recordClass q) (if q_uniCastResponse q then 0x8000 else 0))
             (writeUInt16 (q_recordType q) (writeByteArray name w))))"

definition write_entry :: "record_entry \<Rightarrow> DataWriter \<Rightarrow> DataWriter result" where
  "write_entry entry w =
     (case entry of
        PreEncoded bs \<Rightarrow> Inr (writeByteArray bs w)
      | Plain rec \<Rightarrow> rbind (encodeRecord rec) (\<lambda>bs. Inr (writeByteArray bs w)))"

definition encode :: "DnsMessagePartiallyPreEncoded \<Rightarrow> byte list result" where
  "encode p =
     (case p_messageType p of
        None \<Rightarrow> Inl InternalError
      | Some messageType \<Rightarrow>
          if p_queries p \<noteq> [] \<and> messageType \<noteq> DnsMessageType_Query \<and> messageType \<noteq> DnsMessageType_TruncatedQuery
          then Inl InternalError
          else if p_authorities p \<noteq> [] then Inl NotImplementedError
          else
            let w = writeUInt16 (p_transactionId p) (new_DataWriter Big);
                w = writeUInt16 messageType w;
                w = writeUInt16 (int (length (p_queries p))) w;
                w = writeUInt16 (int (length (p_answers p))) w;
                w = writeUInt16 (int (length (p_authorities p))) w;
                w = writeUInt16 (int (length (p_additionalRecords p))) w
            in rbind (rfold write_query (p_queries p) w) (\<lambda>w.
               rbind (rfold write_entry (p_answers p @ map Plain (p_authorities p) @ p_additionalRecords p) w)
                 written))"

end
