(* ===== verification/BigEndian.thy ===== *)
theory BigEndian
  imports ByteIO
begin

text \<open>
  The cursors in big endian order, as the DNS and the DER codecs use them.  The counterpart of the rewrite
  rules for little endian cursors: what a read returns as a function of the remaining bytes, what a write
  appends.  \<open>reads rd enc v\<close> is the law of a field or a structure of any length, that the decoder \<open>rd\<close> reads \<open>v\<close> from the
  bytes \<open>enc\<close> and leaves what follows; it composes along \<open>rbind\<close>.
\<close>

definition be_bytes :: "nat \<Rightarrow> int \<Rightarrow> byte list" where
  "be_bytes n v = rev (le_bytes n v)"

definition be_uint :: "byte list \<Rightarrow> int" where
  "be_uint bs = le_uint (rev bs)"

lemma length_be_bytes [simp]: "length (be_bytes n v) = n"
  by (simp add: be_bytes_def)

lemma be_uint_be_bytes: "0 \<le> v \<Longrightarrow> v < 2 ^ (8 * n) \<Longrightarrow> be_uint (be_bytes n v) = v"
  by (simp add: be_uint_def be_bytes_def le_uint_le_bytes_id)

lemma be_bytes_be_uint: "length bs = n \<Longrightarrow> be_bytes n (be_uint bs) = bs"
  by (simp add: be_uint_def be_bytes_def le_bytes_le_uint)

lemma be_uint_range: "0 \<le> be_uint bs" "be_uint bs < 2 ^ (8 * length bs)"
  using le_uint_range [of "rev bs"] by (simp_all add: be_uint_def)

lemma be_uint_byte [simp]: "be_uint [b] = uint b"
  by (simp add: be_uint_def)

section \<open>Cursors\<close>

text \<open>\<open>be_reader bs r\<close>: a big endian cursor with the bytes \<open>bs\<close> left.\<close>

definition be_reader :: "byte list \<Rightarrow> DataReader \<Rightarrow> bool" where
  "be_reader bs r \<longleftrightarrow> \<not> dr_littleEndian r \<and> dr_inv r \<and> getRemainingBytes r = bs"

lemma be_reader_new [simp]: "be_reader bs (new_DataReader bs Big)"
  by (simp add: be_reader_def)

lemma be_reader_skip [simp]: "be_reader bs r \<Longrightarrow> be_reader (drop n bs) (skip n r)"
  by (auto simp: be_reader_def)

lemma be_reader_remaining: "be_reader bs r \<Longrightarrow> getRemainingBytes r = bs"
  by (simp add: be_reader_def)

lemma be_reader_setOffset:
  "off \<le> length bs \<Longrightarrow> \<exists>r. setOffset off (new_DataReader bs Big) = Inr r \<and> be_reader (drop off bs) r"
  by (auto simp: setOffset_def new_DataReader_def be_reader_def dr_inv_def getRemainingBytes_def)

lemma be_dv_read:
  "be_reader bs r \<Longrightarrow> dv_read n f r =
     (if length bs < n then Inl RangeError else Inr (f (rev (take n bs)), skip n r))"
  by (auto simp: be_reader_def dv_read_def getOffsetAndAdvance_eq dv_get_def getRemainingBytes_def dr_inv_def)

lemma be_reads:
  assumes "be_reader bs r"
  shows "readUInt8 r = (if length bs < 1 then Inl RangeError else Inr (be_uint (take 1 bs), skip 1 r))"
    and "readUInt16 r = (if length bs < 2 then Inl RangeError else Inr (be_uint (take 2 bs), skip 2 r))"
    and "readUInt32 r = (if length bs < 4 then Inl RangeError else Inr (be_uint (take 4 bs), skip 4 r))"
  by (simp_all add: reader_defs be_dv_read [OF assms] be_uint_def)

text \<open>\<open>reads rd enc v\<close>: after the bytes \<open>enc\<close> the cursor \<open>rd\<close> has read \<open>v\<close> and stands behind them.\<close>

definition reads :: "(DataReader \<Rightarrow> ('v \<times> DataReader) result) \<Rightarrow> byte list \<Rightarrow> 'v \<Rightarrow> bool" where
  "reads rd enc v \<longleftrightarrow>
     (\<forall>r rest. be_reader (enc @ rest) r \<longrightarrow> (\<exists>r'. rd r = Inr (v, r') \<and> be_reader rest r'))"

lemma readsI:
  "(\<And>r rest. be_reader (enc @ rest) r \<Longrightarrow> \<exists>r'. rd r = Inr (v, r') \<and> be_reader rest r') \<Longrightarrow> reads rd enc v"
  by (simp add: reads_def)

lemma readsE:
  assumes "reads rd enc v" and "be_reader (enc @ rest) r"
  obtains r' where "rd r = Inr (v, r')" "be_reader rest r'"
  using assms by (auto simp: reads_def)

lemma reads_new: "reads rd enc v \<Longrightarrow> \<exists>r. rd (new_DataReader enc Big) = Inr (v, r)"
  using readsE [of rd enc v "[]" "new_DataReader enc Big"] by auto

lemma reads_bind:
  assumes "reads rd enc v" and "reads (\<lambda>r. f (v, r)) enc' u"
  shows "reads (\<lambda>r. rbind (rd r) f) (enc @ enc') u"
proof (rule readsI)
  fix r rest
  assume "be_reader ((enc @ enc') @ rest) r"
  then obtain r1 where "rd r = Inr (v, r1)" "be_reader (enc' @ rest) r1"
    using readsE [OF assms(1)] by (metis append.assoc)
  then show "\<exists>r'. rbind (rd r) f = Inr (u, r') \<and> be_reader rest r'"
    using readsE [OF assms(2)] by (metis rbind.simps(2))
qed

lemma reads_then:
  "reads rd enc v \<Longrightarrow> reads (g v) enc' u \<Longrightarrow> reads (\<lambda>r. rbind (rd r) (\<lambda>(v, r). g v r)) (enc @ enc') u"
  using reads_bind [of rd enc v "\<lambda>(v, r). g v r" enc' u] by simp

lemma reads_return: "reads (\<lambda>r. Inr (v, r)) [] v"
  by (simp add: reads_def)

lemma be_reader_append_skip: "be_reader (enc @ rest) r \<Longrightarrow> length enc = n \<Longrightarrow> be_reader rest (skip n r)"
  using be_reader_skip [of "enc @ rest" r n] by simp

lemma reads_u8: "0 \<le> v \<Longrightarrow> v < 256 \<Longrightarrow> reads readUInt8 (be_bytes 1 v) v"
  by (rule readsI) (simp add: be_reads be_uint_be_bytes be_reader_append_skip)

lemma reads_u16: "0 \<le> v \<Longrightarrow> v < 65536 \<Longrightarrow> reads readUInt16 (be_bytes 2 v) v"
  by (rule readsI) (simp add: be_reads be_uint_be_bytes be_reader_append_skip)

lemma reads_u32: "0 \<le> v \<Longrightarrow> v < 4294967296 \<Longrightarrow> reads readUInt32 (be_bytes 4 v) v"
  by (rule readsI) (simp add: be_reads be_uint_be_bytes be_reader_append_skip)

lemma reads_bytes: "reads (\<lambda>r. Inr (readByteArray (length bs) r)) bs bs"
  by (rule readsI) (simp add: be_reader_remaining be_reader_append_skip)

lemma reads_cong: "reads rd enc v \<Longrightarrow> (\<And>r. rd r = rd' r) \<Longrightarrow> enc = enc' \<Longrightarrow> reads rd' enc' v"
  by (simp add: reads_def)

lemma be_read_byte: "be_reader (b # bs) r \<Longrightarrow> readUInt8 r = Inr (uint b, skip 1 r) \<and> be_reader bs (skip 1 r)"
  using be_reader_append_skip [of "[b]" bs r 1] by (simp add: be_reads)

lemma reads_times:
  "list_all2 (reads rd) encs vs \<Longrightarrow> reads (read_times (length vs) rd) (concat encs) vs"
proof (induction encs vs rule: list_all2_induct)
  case Nil
  then show ?case by (simp add: reads_def)
next
  case (Cons enc encs v vs)
  have "reads (\<lambda>r. rbind (read_times (length vs) rd r) (\<lambda>(vs, r). Inr (v # vs, r))) (concat encs @ []) (v # vs)"
    by (rule reads_bind [OF Cons(3)]) (simp add: reads_return)
  then show ?case
    using reads_bind [OF Cons(1), of "\<lambda>(v, r). rbind (read_times (length vs) rd r) (\<lambda>(vs, r). Inr (v # vs, r))"]
    by simp
qed

section \<open>Writers\<close>

lemma be_write_bytes:
  assumes "\<not> dw_littleEndian w"
  shows "dw_bytes (writeUInt8 v w) = dw_bytes w @ be_bytes 1 (toNumber v)"
    and "dw_bytes (writeUInt16 v w) = dw_bytes w @ be_bytes 2 (toNumber v)"
    and "dw_bytes (writeUInt32 v w) = dw_bytes w @ be_bytes 4 (toNumber v)"
  using assms by (simp_all add: writer_defs dv_set_def be_bytes_def le_bytes_byte)

text \<open>\<open>be_writer bs w\<close>: a sound big endian writer that has written \<open>bs\<close>.\<close>

definition be_writer :: "byte list \<Rightarrow> DataWriter \<Rightarrow> bool" where
  "be_writer bs w \<longleftrightarrow> \<not> dw_littleEndian w \<and> dw_inv w \<and> dw_bytes w = bs"

lemma be_writer_new [simp]: "be_writer [] (new_DataWriter Big)"
  by (simp add: be_writer_def)

lemma be_writes [simp]:
  assumes "be_writer bs w"
  shows "be_writer (bs @ be_bytes 1 (toNumber v)) (writeUInt8 v w)"
    and "be_writer (bs @ be_bytes 2 (toNumber v)) (writeUInt16 v w)"
    and "be_writer (bs @ be_bytes 4 (toNumber v)) (writeUInt32 v w)"
    and "be_writer (bs @ cs) (writeByteArray cs w)"
  using assms by (auto simp: be_writer_def be_write_bytes)

lemma be_writer_written: "be_writer bs w \<Longrightarrow> written w = Inr bs"
  by (simp add: be_writer_def)

lemma be_writer_fold:
  assumes "\<And>x bs w. x \<in> set xs \<Longrightarrow> be_writer bs w \<Longrightarrow> be_writer (bs @ enc x) (wr x w)" and "be_writer bs w"
  shows "be_writer (bs @ concat (map enc xs)) (fold wr xs w)"
  using assms
proof (induction xs arbitrary: bs w)
  case (Cons x xs)
  have "be_writer ((bs @ enc x) @ concat (map enc xs)) (fold wr xs (wr x w))"
    using Cons.prems by (intro Cons.IH) auto
  then show ?case by simp
qed simp

lemma be_writer_rfold:
  assumes "\<And>x bs w. x \<in> set xs \<Longrightarrow> be_writer bs w \<Longrightarrow> \<exists>w'. wr x w = Inr w' \<and> be_writer (bs @ enc x) w'"
    and "be_writer bs w"
  shows "\<exists>w'. rfold wr xs w = Inr w' \<and> be_writer (bs @ concat (map enc xs)) w'"
  using assms
proof (induction xs arbitrary: bs w)
  case (Cons x xs)
  obtain w1 where w1: "wr x w = Inr w1" "be_writer (bs @ enc x) w1" using Cons.prems by force
  have "\<exists>w'. rfold wr xs w1 = Inr w' \<and> be_writer ((bs @ enc x) @ concat (map enc xs)) w'"
    using Cons.prems(1) w1(2) by (intro Cons.IH) auto
  with w1 show ?case by simp
qed simp

end
