(* ===== verification/DnsMessages.thy ===== *)
theory DnsMessages
  imports DnsRoundtrip
begin

unbundle bit_operations_syntax

text \<open>
  Whole DNS messages: decoding gives back every well-formed message that was encoded, with its records encoded
  by the message encoder or beforehand.
\<close>

section \<open>Records\<close>

definition wf_ipv6 :: "jsstring \<Rightarrow> bool" where
  "wf_ipv6 s \<longleftrightarrow> (\<exists>bs. length bs = 16 \<and> bs \<noteq> replicate 16 0 \<and> decodeAaaaRecord bs = Inr s)"

definition wf_srv :: "SrvRecordValue \<Rightarrow> bool" where
  "wf_srv srv \<longleftrightarrow> uint_valid 2 (srv_priority srv) \<and> uint_valid 2 (srv_weight srv) \<and> uint_valid 2 (srv_port srv) \<and>
     wf_name (srv_target srv)"

text \<open>The values that fit a record type.\<close>

definition wf_value :: "int \<Rightarrow> record_value \<Rightarrow> bool" where
  "wf_value t v =
     (case v of
        VString s \<Rightarrow>
          t = DnsRecordType_PTR \<and> wf_name s \<or> t = DnsRecordType_A \<and> wf_ipv4 s \<or> t = DnsRecordType_AAAA \<and> wf_ipv6 s
      | VStrings es \<Rightarrow> t = DnsRecordType_TXT \<and> list_all wf_entry es
      | VSrv srv \<Rightarrow> t = DnsRecordType_SRV \<and> wf_srv srv
      | VBytes bs \<Rightarrow>
          t \<notin> {DnsRecordType_PTR, DnsRecordType_SRV, DnsRecordType_TXT, DnsRecordType_AAAA, DnsRecordType_A})"

lemma ipv4_value:
  assumes "wf_ipv4 s"
  obtains bs where "encodeARecord s = Inr bs" "decodeARecord bs = Inr s"
  using wf_ipv4_text [OF assms] decodeARecord_bytes by auto

lemma ipv6_value:
  assumes "wf_ipv6 s"
  obtains bs where "encodeAaaaRecord s = Inr bs" "decodeAaaaRecord bs = Inr s" "length bs = 16"
proof -
  from assms obtain bs where bs: "length bs = 16" "bs \<noteq> replicate 16 0" "decodeAaaaRecord bs = Inr s"
    by (auto simp: wf_ipv6_def)
  with aaaa_decode_encode [OF bs(1,2)] show thesis by (intro that [of bs]) simp_all
qed

lemma decodeQName_whole:
  assumes "wf_name s"
  shows "\<exists>r. decodeQName (Suc stack) message (new_DataReader (name_bytes s) Big) = Inr (s, r)"
  using reads_new [OF reads_name [OF assms]] .

lemma u16_toNumber: "uint_valid 2 v \<Longrightarrow> toNumber v = v" "uint_valid 4 v \<Longrightarrow> toNumber v = v"
  by (simp_all add: toNumber_range)

definition srv_bytes :: "SrvRecordValue \<Rightarrow> byte list" where
  "srv_bytes srv = be_bytes 2 (srv_priority srv) @ be_bytes 2 (srv_weight srv) @ be_bytes 2 (srv_port srv) @
     name_bytes (srv_target srv)"

lemma encodeSrvRecord_bytes:
  assumes "wf_srv srv"
  shows "encodeSrvRecord srv = Inr (srv_bytes srv)"
proof -
  have "be_writer (((([] @ be_bytes 2 (toNumber (srv_priority srv))) @ be_bytes 2 (toNumber (srv_weight srv))) @
      be_bytes 2 (toNumber (srv_port srv))) @ name_bytes (srv_target srv))
    (writeByteArray (name_bytes (srv_target srv)) (writeUInt16 (srv_port srv) (writeUInt16 (srv_weight srv)
        (writeUInt16 (srv_priority srv) (new_DataWriter Big)))))"
    by (intro be_writes be_writer_new)
  from be_writer_written [OF this] assms show ?thesis
    by (simp add: wf_srv_def encodeSrvRecord_def encodeQName_bytes u16_toNumber srv_bytes_def)
qed

lemma decodeSrvRecord_bytes:
  assumes "wf_srv srv"
  shows "decodeSrvRecord (Suc stack) (srv_bytes srv) message = Inr srv"
proof -
  note wf = assms [unfolded wf_srv_def]
  let ?rd = "\<lambda>r. rbind (readUInt16 r) (\<lambda>(priority, r). rbind (readUInt16 r) (\<lambda>(weight, r).
     rbind (readUInt16 r) (\<lambda>(port, r). rbind (decodeQName (Suc stack) message r) (\<lambda>(target, r).
       Inr (\<lparr>srv_priority = priority, srv_weight = weight, srv_port = port, srv_target = target\<rparr>, r)))))"
  have "reads (\<lambda>r. Inr (\<lparr>srv_priority = srv_priority srv, srv_weight = srv_weight srv, srv_port = srv_port srv,
      srv_target = srv_target srv\<rparr>, r)) [] srv"
    using reads_return [of srv] by (cases srv) simp
  then have "reads ?rd (be_bytes 2 (srv_priority srv) @ be_bytes 2 (srv_weight srv) @ be_bytes 2 (srv_port srv) @
      name_bytes (srv_target srv) @ []) srv"
    using wf by (intro reads_then [OF reads_u16] reads_then [OF reads_name]) simp_all
  then have "reads ?rd (srv_bytes srv) srv" by (simp add: srv_bytes_def)
  from reads_new [OF this] obtain r where "?rd (new_DataReader (srv_bytes srv) Big) = Inr (srv, r)" ..
  then show ?thesis
    by (auto simp: decodeSrvRecord_def rbind_eq_Inr simp del: decodeQName.simps split: prod.splits)
qed

lemma value_roundtrip:
  assumes "wf_value t v"
  shows "\<exists>bs. encodeRecordValue v t = Inr bs \<and> decodeRecordValue (Suc stack) bs t message = Inr v"
proof (cases v)
  case (VString s)
  with assms consider "t = DnsRecordType_PTR" "wf_name s" | "t = DnsRecordType_A" "wf_ipv4 s"
    | "t = DnsRecordType_AAAA" "wf_ipv6 s" by (auto simp: wf_value_def)
  then show ?thesis
  proof cases
    case 1
    with decodeQName_whole [OF 1(2), of stack message] VString show ?thesis
      by (auto simp: encodeRecordValue_def decodeRecordValue_def value_qname_def encodeQName_bytes simp del: decodeQName.simps)
  next
    case 2
    obtain bs where "encodeARecord s = Inr bs" "decodeARecord bs = Inr s" using ipv4_value [OF 2(2)] .
    with 2 VString show ?thesis
      by (simp add: encodeRecordValue_def decodeRecordValue_def value_address_def record_type_defs)
  next
    case 3
    obtain bs where "encodeAaaaRecord s = Inr bs" "decodeAaaaRecord bs = Inr s" using ipv6_value [OF 3(2)] .
    with 3 VString show ?thesis
      by (simp add: encodeRecordValue_def decodeRecordValue_def value_address_def record_type_defs)
  qed
next
  case (VStrings es)
  with assms show ?thesis
    by (simp add: wf_value_def encodeRecordValue_def decodeRecordValue_def value_txt_def encodeTxtRecord_bytes
        decodeTxtRecord_entries record_type_defs)
next
  case (VSrv srv)
  with assms have t: "t = DnsRecordType_SRV" "wf_srv srv" by (simp_all add: wf_value_def)
  then show ?thesis
    using VSrv by (simp add: encodeRecordValue_def decodeRecordValue_def record_type_defs encodeSrvRecord_bytes
        decodeSrvRecord_bytes)
next
  case (VBytes bs)
  with assms show ?thesis by (simp add: wf_value_def encodeRecordValue_def decodeRecordValue_def)
qed

section \<open>The class with its flag\<close>

lemma class_flag:
  assumes "0 \<le> c" and "c < 0x8000"
  shows "uint_valid 2 (js_or c (if f then 0x8000 else 0))"
    and "js_and (js_or c (if f then 0x8000 else 0)) 0x7fff = c"
    and "js_and (js_or c (if f then 0x8000 else 0)) 0x8000 \<noteq> 0 \<longleftrightarrow> f"
proof -
  have k: "js_or c (if f then 0x8000 else 0) = (if f then 0x8000 else 0) + c"
    using or_shifted [of c 15 "if f then 1 else 0"] assms by (simp add: js_or_small or.commute split: if_splits)
  then show "uint_valid 2 (js_or c (if f then 0x8000 else 0))" using assms by simp
  have a: "js_and x y = x AND y" if "0 \<le> x" "x < 65536" "0 \<le> y" "y < 65536" for x y
    using that by (simp add: js_and_small)
  have m: "x AND 0x7fff = x mod 0x8000" for x :: int
    using take_bit_eq_mask [of 15 x] by (simp add: take_bit_eq_mod mask_eq_exp_minus_1)
  show "js_and (js_or c (if f then 0x8000 else 0)) 0x7fff = c" using k assms by (simp add: a m)
  have b: "x AND 0x8000 \<noteq> 0 \<longleftrightarrow> bit x 15" for x :: int
    using and_exp_eq_0_iff_not_bit [of x 15] by simp
  have "bit ((if f then 0x8000 else 0) + c) 15 \<longleftrightarrow> f"
    using assms by (cases f) (simp_all add: bit_iff_odd div_add_self1)
  then show "js_and (js_or c (if f then 0x8000 else 0)) 0x8000 \<noteq> 0 \<longleftrightarrow> f"
    unfolding k using assms by (simp add: a b split: if_splits)
qed

definition wf_query :: "DnsQuery \<Rightarrow> bool" where
  "wf_query q \<longleftrightarrow> wf_name (q_name q) \<and> uint_valid 2 (q_recordType q) \<and> 0 \<le> q_recordClass q \<and> q_recordClass q < 0x8000"

definition wf_record :: "DnsRecord \<Rightarrow> bool" where
  "wf_record r \<longleftrightarrow> wf_name (r_name r) \<and> uint_valid 2 (r_recordType r) \<and> 0 \<le> r_recordClass r \<and> r_recordClass r < 0x8000 \<and>
     uint_valid 4 (r_ttl r) \<and> wf_value (r_recordType r) (r_value r) \<and>
     (case encodeRecordValue (r_value r) (r_recordType r) of Inl _ \<Rightarrow> False | Inr bs \<Rightarrow> length bs < 65536)"

definition query_bytes :: "DnsQuery \<Rightarrow> byte list" where
  "query_bytes q = name_bytes (q_name q) @ be_bytes 2 (q_recordType q) @
     be_bytes 2 (js_or (q_recordClass q) (if q_uniCastResponse q then 0x8000 else 0))"

lemma write_query_bytes:
  assumes "wf_query q" and "be_writer bs w"
  shows "\<exists>w'. write_query q w = Inr w' \<and> be_writer (bs @ query_bytes q) w'"
proof -
  have "be_writer (((bs @ name_bytes (q_name q)) @ be_bytes 2 (toNumber (q_recordType q))) @
      be_bytes 2 (toNumber (js_or (q_recordClass q) (if q_uniCastResponse q then 0x8000 else 0))))
    (writeUInt16 (js_or (q_recordClass q) (if q_uniCastResponse q then 0x8000 else 0))
      (writeUInt16 (q_recordType q) (writeByteArray (name_bytes (q_name q)) w)))"
    by (intro be_writes assms)
  with assms(1) class_flag(1) [of "q_recordClass q" "q_uniCastResponse q"] show ?thesis
    by (simp add: write_query_def encodeQName_bytes wf_query_def query_bytes_def u16_toNumber)
qed

lemma reads_query:
  assumes "wf_query q"
  shows "reads (decodeQuery (Suc stack) message) (query_bytes q) q"
proof -
  let ?k = "js_or (q_recordClass q) (if q_uniCastResponse q then 0x8000 else 0)"
  note wf = assms [unfolded wf_query_def]
  note cf = class_flag [of "q_recordClass q" "q_uniCastResponse q"]
  have "reads (\<lambda>r. Inr (\<lparr>q_name = q_name q, q_recordType = q_recordType q, q_recordClass = js_and ?k 0x7fff,
      q_uniCastResponse = (js_and ?k 0x8000 \<noteq> 0)\<rparr>, r)) [] q"
    using cf wf reads_return [of q] by (cases q) simp
  then have "reads (decodeQuery (Suc stack) message)
      (name_bytes (q_name q) @ be_bytes 2 (q_recordType q) @ be_bytes 2 ?k @ []) q"
    unfolding decodeQuery_def using wf cf(1)
    by (intro reads_then [OF reads_name] reads_then [OF reads_u16]) simp_all
  then show ?thesis by (simp add: query_bytes_def)
qed

lemma encodeRecord_bytes:
  assumes "wf_record rec"
  obtains vb where "encodeRecordValue (r_value rec) (r_recordType rec) = Inr vb" "length vb < 65536"
    "encodeRecord rec = Inr (name_bytes (r_name rec) @ be_bytes 2 (r_recordType rec) @
       be_bytes 2 (js_or (r_recordClass rec) (if r_flushCache rec then 0x8000 else 0)) @ be_bytes 4 (r_ttl rec) @
       be_bytes 2 (int (length vb)) @ vb)"
proof -
  note wf = assms [unfolded wf_record_def]
  let ?k = "js_or (r_recordClass rec) (if r_flushCache rec then 0x8000 else 0)"
  obtain vb where vb: "encodeRecordValue (r_value rec) (r_recordType rec) = Inr vb" "length vb < 65536"
    using wf by (auto split: sum.splits)
  have "be_writer (((((([] @ name_bytes (r_name rec)) @ be_bytes 2 (toNumber (r_recordType rec))) @
      be_bytes 2 (toNumber ?k)) @ be_bytes 4 (toNumber (r_ttl rec))) @ be_bytes 2 (toNumber (int (length vb)))) @ vb)
    (writeByteArray vb (writeUInt16 (int (length vb)) (writeUInt32 (r_ttl rec)
      (writeUInt16 ?k (writeUInt16 (r_recordType rec) (writeByteArray (name_bytes (r_name rec)) (new_DataWriter Big)))))))"
    by (intro be_writes be_writer_new)
  from be_writer_written [OF this] vb wf class_flag(1) [of "r_recordClass rec" "r_flushCache rec"] that show thesis
    by (simp add: encodeRecord_def encodeQName_bytes u16_toNumber toNumber_range)
qed

lemma reads_record:
  assumes "wf_record rec" and "encodeRecord rec = Inr bs"
  shows "reads (decodeRecord (Suc stack) message) bs rec"
proof -
  note wf = assms(1) [unfolded wf_record_def]
  note cf = class_flag [of "r_recordClass rec" "r_flushCache rec"]
  let ?k = "js_or (r_recordClass rec) (if r_flushCache rec then 0x8000 else 0)"
  from encodeRecord_bytes [OF assms(1)] assms(2) obtain vb where
    vb: "encodeRecordValue (r_value rec) (r_recordType rec) = Inr vb" "length vb < 65536"
    and bs: "bs = name_bytes (r_name rec) @ be_bytes 2 (r_recordType rec) @ be_bytes 2 ?k @ be_bytes 4 (r_ttl rec) @
       be_bytes 2 (int (length vb)) @ vb @ []" by auto
  have v: "decodeRecordValue (Suc stack) vb (r_recordType rec) message = Inr (r_value rec)"
    using value_roundtrip [of "r_recordType rec" "r_value rec" stack message] vb(1) wf by auto
  let ?fin = "\<lambda>(valueBytes, r). rbind (decodeRecordValue (Suc stack) valueBytes (r_recordType rec) message) (\<lambda>value.
    Inr (\<lparr>r_name = r_name rec, r_recordType = r_recordType rec, r_recordClass = js_and ?k 0x7fff,
          r_flushCache = (js_and ?k 0x8000 \<noteq> 0), r_ttl = r_ttl rec, r_value = value\<rparr>, r))"
  have "reads (\<lambda>r. ?fin (vb, r)) [] rec"
    using cf wf v reads_return [of rec] by (cases rec) simp
  then have "reads (\<lambda>r. rbind (Inr (readByteArray (length vb) r)) ?fin) (vb @ []) rec"
    by (rule reads_bind [OF reads_bytes])
  then have "reads (decodeRecord (Suc stack) message) bs rec"
    unfolding decodeRecord_def bs using wf cf(1) vb(2)
    by (intro reads_then [OF reads_name] reads_then [OF reads_u16] reads_then [OF reads_u32]) (simp_all add: Let_def)
  then show ?thesis .
qed

section \<open>Messages\<close>

text \<open>\<open>carries stack entry rec\<close>: the entry is the record, or its bytes encoded beforehand.\<close>

definition carries :: "record_entry \<Rightarrow> DnsRecord \<Rightarrow> bool" where
  "carries entry rec = (case entry of Plain r \<Rightarrow> r = rec | PreEncoded bs \<Rightarrow> encodeRecord rec = Inr bs)"

definition entry_bytes :: "record_entry \<Rightarrow> byte list" where
  "entry_bytes entry = (case entry of PreEncoded bs \<Rightarrow> bs | Plain r \<Rightarrow> (case encodeRecord r of Inl _ \<Rightarrow> [] | Inr bs \<Rightarrow> bs))"

lemma carries_bytes:
  assumes "carries entry rec" and "wf_record rec"
  shows "encodeRecord rec = Inr (entry_bytes entry)"
proof -
  obtain bs where "encodeRecord rec = Inr bs" using encodeRecord_bytes [OF assms(2)] by blast
  with assms(1) show ?thesis by (cases entry) (simp_all add: carries_def entry_bytes_def)
qed

lemma write_entry_bytes:
  assumes "carries entry rec" "wf_record rec" "be_writer bs w"
  shows "\<exists>w'. write_entry entry w = Inr w' \<and> be_writer (bs @ entry_bytes entry) w'"
proof -
  have "write_entry entry w = Inr (writeByteArray (entry_bytes entry) w)"
  proof (cases entry)
    case (Plain r)
    then show ?thesis using carries_bytes [OF assms(1,2)] assms(1) by (simp add: write_entry_def carries_def)
  next
    case (PreEncoded b)
    then show ?thesis by (simp add: write_entry_def entry_bytes_def)
  qed
  with assms(3) show ?thesis by simp
qed

lemma write_entries:
  assumes "list_all2 carries es rs" "list_all wf_record rs" "be_writer bs w"
  shows "\<exists>w'. rfold write_entry es w = Inr w' \<and> be_writer (bs @ concat (map entry_bytes es)) w'"
proof (rule be_writer_rfold [OF _ assms(3)])
  fix e bs w
  assume e: "e \<in> set es" and w: "be_writer bs w"
  from e assms(1,2) obtain r where "carries e r" "wf_record r"
    by (metis in_set_conv_nth list_all2_conv_all_nth list_all_length)
  with w show "\<exists>w'. write_entry e w = Inr w' \<and> be_writer (bs @ entry_bytes e) w'" by (intro write_entry_bytes)
qed

lemma reads_entries:
  assumes "list_all2 carries es rs" "list_all wf_record rs"
  shows "reads (read_times (length rs) (decodeRecord (Suc stack) message)) (concat (map entry_bytes es)) rs"
proof (rule reads_times)
  show "list_all2 (reads (decodeRecord (Suc stack) message)) (map entry_bytes es) rs"
    using assms carries_bytes reads_record by (auto simp: list_all2_conv_all_nth list_all_length)
qed

definition wf_message :: "DnsMessage \<Rightarrow> bool" where
  "wf_message m \<longleftrightarrow> uint_valid 2 (m_transactionId m) \<and> uint_valid 2 (m_messageType m) \<and>
     (m_queries m = [] \<or> m_messageType m = DnsMessageType_Query \<or> m_messageType m = DnsMessageType_TruncatedQuery) \<and>
     m_authorities m = [] \<and>
     length (m_queries m) < 65536 \<and> length (m_answers m) < 65536 \<and> length (m_additionalRecords m) < 65536 \<and>
     list_all wf_query (m_queries m) \<and> list_all wf_record (m_answers m) \<and> list_all wf_record (m_additionalRecords m)"

text \<open>The arguments of \<^verbatim>\<open>encode\<close> that stand for a message: any of its records may have been encoded beforehand.\<close>

definition stands_for :: "DnsMessagePartiallyPreEncoded \<Rightarrow> DnsMessage \<Rightarrow> bool" where
  "stands_for p m \<longleftrightarrow> p_transactionId p = m_transactionId m \<and> p_messageType p = Some (m_messageType m) \<and>
     p_queries p = m_queries m \<and> p_authorities p = m_authorities m \<and>
     list_all2 carries (p_answers p) (m_answers m) \<and> list_all2 carries (p_additionalRecords p) (m_additionalRecords m)"

definition message_bytes :: "DnsMessagePartiallyPreEncoded \<Rightarrow> DnsMessage \<Rightarrow> byte list" where
  "message_bytes p m =
     be_bytes 2 (m_transactionId m) @ be_bytes 2 (m_messageType m) @ be_bytes 2 (int (length (m_queries m))) @
     be_bytes 2 (int (length (m_answers m))) @ be_bytes 2 (int (length (m_authorities m))) @
     be_bytes 2 (int (length (m_additionalRecords m))) @
     concat (map query_bytes (m_queries m)) @ concat (map entry_bytes (p_answers p)) @
     concat (map entry_bytes (p_additionalRecords p))"

lemma dns_encode_bytes:
  assumes "wf_message m" and "stands_for p m"
  shows "encode p = Inr (message_bytes p m)"
proof -
  note wf = assms(1) [unfolded wf_message_def] and p = assms(2) [unfolded stands_for_def]
  have la: "length (p_answers p) = length (m_answers m)"
      "length (p_additionalRecords p) = length (m_additionalRecords m)"
    using p by (auto dest: list_all2_lengthD)
  let ?nat = "\<lambda>xs. int (length xs)"
  let ?w = "writeUInt16 (?nat (p_additionalRecords p)) (writeUInt16 (?nat (p_authorities p)) (writeUInt16 (?nat (p_answers p))
    (writeUInt16 (?nat (p_queries p)) (writeUInt16 (m_messageType m) (writeUInt16 (p_transactionId p) (new_DataWriter Big))))))"
  let ?h = "be_bytes 2 (m_transactionId m) @ be_bytes 2 (m_messageType m) @ be_bytes 2 (?nat (m_queries m)) @
    be_bytes 2 (?nat (m_answers m)) @ be_bytes 2 (?nat (m_authorities m)) @ be_bytes 2 (?nat (m_additionalRecords m))"
  have "be_writer ((((((([] @ be_bytes 2 (toNumber (p_transactionId p))) @ be_bytes 2 (toNumber (m_messageType m))) @
      be_bytes 2 (toNumber (?nat (p_queries p)))) @ be_bytes 2 (toNumber (?nat (p_answers p)))) @
      be_bytes 2 (toNumber (?nat (p_authorities p)))) @ be_bytes 2 (toNumber (?nat (p_additionalRecords p))))) ?w"
    by (intro be_writes be_writer_new)
  then have h: "be_writer ?h ?w" using wf p la by (simp add: toNumber_range)
  have "\<exists>w'. rfold write_query (m_queries m) ?w = Inr w' \<and> be_writer (?h @ concat (map query_bytes (m_queries m))) w'"
    using wf by (intro be_writer_rfold [OF _ h] write_query_bytes) (auto simp: list_all_iff)
  then obtain w1 where w1: "rfold write_query (m_queries m) ?w = Inr w1"
    "be_writer (?h @ concat (map query_bytes (m_queries m))) w1" by blast
  have "list_all2 carries (p_answers p @ map Plain (p_authorities p) @ p_additionalRecords p)
      (m_answers m @ m_additionalRecords m)"
    using p wf by (simp add: list_all2_appendI)
  from write_entries [OF this _ w1(2)] wf p obtain w2 where
    w2: "rfold write_entry (p_answers p @ map Plain (p_authorities p) @ p_additionalRecords p) w1 = Inr w2"
      "be_writer ((?h @ concat (map query_bytes (m_queries m))) @
        concat (map entry_bytes (p_answers p @ p_additionalRecords p))) w2" by auto
  have "encode p = rbind (rfold write_query (m_queries m) ?w) (\<lambda>w.
      rbind (rfold write_entry (p_answers p @ map Plain (p_authorities p) @ p_additionalRecords p) w) written)"
    using p wf unfolding encode_def by (auto simp: Let_def)
  with w1 w2 be_writer_written [OF w2(2)] show ?thesis by (simp add: message_bytes_def)
qed

lemma reads_message:
  assumes "wf_message m" and "stands_for p m"
  shows "reads (read_message (Suc stack) message) (message_bytes p m) m"
proof -
  note wf = assms(1) [unfolded wf_message_def] and p = assms(2) [unfolded stands_for_def]
  let ?q = "decodeQuery (Suc stack) message" and ?r = "decodeRecord (Suc stack) message"
  have q: "reads (read_times (nat (int (length (m_queries m)))) ?q) (concat (map query_bytes (m_queries m))) (m_queries m)"
    using wf reads_times [of ?q "map query_bytes (m_queries m)" "m_queries m"]
    by (simp add: list_all2_conv_all_nth list_all_length reads_query)
  have a: "reads (read_times (nat (int (length (m_answers m)))) ?r) (concat (map entry_bytes (p_answers p))) (m_answers m)"
    and d: "reads (read_times (nat (int (length (m_additionalRecords m)))) ?r)
      (concat (map entry_bytes (p_additionalRecords p))) (m_additionalRecords m)"
    using wf p reads_entries by simp_all
  have n: "reads (read_times (nat 0) ?r) [] []" by (simp add: reads_def)
  have fin: "reads (\<lambda>r. Inr (\<lparr>m_transactionId = m_transactionId m, m_messageType = m_messageType m, m_queries = m_queries m,
      m_answers = m_answers m, m_authorities = [], m_additionalRecords = m_additionalRecords m\<rparr>, r)) [] m"
    using wf reads_return [of m] by (cases m) simp
  have "reads (read_message (Suc stack) message)
     (be_bytes 2 (m_transactionId m) @ be_bytes 2 (m_messageType m) @ be_bytes 2 (int (length (m_queries m))) @
      be_bytes 2 (int (length (m_answers m))) @ be_bytes 2 0 @ be_bytes 2 (int (length (m_additionalRecords m))) @
      concat (map query_bytes (m_queries m)) @ concat (map entry_bytes (p_answers p)) @ [] @
      concat (map entry_bytes (p_additionalRecords p)) @ []) m"
    unfolding read_message_def
    by (intro reads_then [OF reads_u16] reads_then [OF q] reads_then [OF a] reads_then [OF n] reads_then [OF d] fin)
      (use wf in simp_all)
  then show ?thesis using wf by (simp add: message_bytes_def)
qed

text \<open>C17. A well-formed message, encoded with any of its records encoded beforehand or not, is decoded to the same message.  A
  name needs labels of 1 to 63 bytes, an address the text the decoder itself uses, numbers their field widths.\<close>

theorem dns_roundtrip:
  assumes "wf_message m" and "stands_for p m"
  shows "\<exists>bs. encode p = Inr bs \<and> decode (Suc stack) bs = Some m"
proof -
  obtain r where "read_message (Suc stack) (message_bytes p m) (new_DataReader (message_bytes p m) Big) = Inr (m, r)"
    using reads_new [OF reads_message [OF assms]] ..
  with dns_encode_bytes [OF assms] show ?thesis by (simp add: decode_def)
qed

text \<open>A response with records of every type, one of them encoded beforehand.\<close>

definition sample_name :: jsstring where "sample_name = js_text ''n.local''"

definition sample_records :: "DnsRecord list" where
  "sample_records =
     [PtrRecord (js_text ''_matter._tcp'') sample_name 120 False,
      SrvRecord sample_name \<lparr>srv_priority = 0, srv_weight = 0, srv_port = 5540, srv_target = sample_name\<rparr> 120 True,
      TxtRecord sample_name [js_text ''SII=5000'', js_text ''T=1''] 120 False,
      ARecord sample_name (js_text ''192.168.0.1'') 120 False]"

definition sample_aaaa :: DnsRecord where
  "sample_aaaa = AAAARecord sample_name (js_text ''fe80::1'') 120 False"

definition sample_message :: DnsMessage where
  "sample_message = \<lparr>m_transactionId = 7, m_messageType = DnsMessageType_Response, m_queries = [],
     m_answers = sample_records, m_authorities = [], m_additionalRecords = [sample_aaaa]\<rparr>"

lemmas sample_defs = wf_name_def wf_label_def wf_text_def scalar_def js_text_def fromString_def utf8_encode_def utf8_units_def

lemma sample_names: "wf_name sample_name" "wf_name (js_text ''_matter._tcp'')"
  by (simp_all add: sample_name_def sample_defs)

lemma sample_texts: "wf_entry (js_text ''SII=5000'')" "wf_entry (js_text ''T=1'')"
  by (simp_all add: wf_entry_def sample_defs)

lemma sample_ipv4: "wf_ipv4 (js_text ''192.168.0.1'')"
proof -
  have "js_split 46 (js_text ''192.168.0.1'') = map (number_text 10) [192, 168, 0, 1]"
    by (simp add: js_text_def number_text.simps digit_code_def)
  then show ?thesis by (simp add: wf_ipv4_def)
qed

lemma sample_ipv6: "wf_ipv6 (js_text ''fe80::1'')"
proof -
  let ?ws = "[0xfe80, 0, 0, 0, 0, 0, 0, 1 :: nat]"
  have t: "map (number_text 16) ?ws = [js_text ''fe80'', [48], [48], [48], [48], [48], [48], [49]]"
    by (simp add: js_text_def number_text.simps digit_code_def)
  have "js_join 58 (compress_zeros (map (number_text 16) ?ws)) = js_text ''fe80::1''"
    unfolding t by (simp add: compress_zeros_def zeroSequences.simps zero_run_end.simps js_text_def)
  then have d: "decodeAaaaRecord (words_bytes ?ws) = Inr (js_text ''fe80::1'')"
    using decodeAaaaRecord_words [of ?ws] by simp
  have "hd (words_bytes ?ws) = 0xfe" by (simp add: words_bytes_def be_bytes_def numeral_2_eq_2)
  then have "words_bytes ?ws \<noteq> replicate 16 0" by auto
  with d show ?thesis unfolding wf_ipv6_def
    by (intro exI [of _ "words_bytes ?ws"]) (simp add: length_words_bytes)
qed

lemma sample_lengths:
  "length (name_bytes sample_name) = 9"
  "length (label_bytes (js_text ''SII=5000'')) = 9" "length (label_bytes (js_text ''T=1'')) = 4"
  by (simp_all add: sample_name_def name_bytes_def label_bytes_def sample_defs)

lemma sample_wf: "wf_message sample_message"
proof -
  note bytes = encodeRecordValue_def value_qname_def value_txt_def value_address_def encodeQName_bytes encodeTxtRecord_bytes
    encodeSrvRecord_bytes srv_bytes_def wf_srv_def sample_lengths
  have "list_all wf_record sample_records"
    using sample_names sample_texts sample_ipv4 wf_ipv4_text [OF sample_ipv4]
    by (auto simp: sample_records_def wf_record_def PtrRecord_def SrvRecord_def TxtRecord_def ARecord_def record_type_defs
        DnsRecordClass_IN_def wf_value_def bytes)
  moreover obtain bs where "encodeAaaaRecord (js_text ''fe80::1'') = Inr bs" "length bs = 16"
    using ipv6_value [OF sample_ipv6] by blast
  then have "wf_record sample_aaaa"
    using sample_names sample_ipv6
    by (auto simp: sample_aaaa_def wf_record_def AAAARecord_def record_type_defs
        DnsRecordClass_IN_def wf_value_def bytes)
  ultimately show ?thesis by (simp add: wf_message_def sample_message_def sample_records_def message_type_defs)
qed

definition sample_encoded :: "byte list" where
  "sample_encoded = entry_bytes (Plain sample_aaaa)"

definition sample_partial :: DnsMessagePartiallyPreEncoded where
  "sample_partial = \<lparr>p_transactionId = 7, p_messageType = Some DnsMessageType_Response, p_queries = [],
     p_answers = map Plain sample_records, p_authorities = [], p_additionalRecords = [PreEncoded sample_encoded]\<rparr>"

lemma sample_stands_for: "stands_for sample_partial sample_message"
proof -
  have "wf_record sample_aaaa" using sample_wf by (simp add: wf_message_def sample_message_def)
  then have "carries (PreEncoded sample_encoded) sample_aaaa"
    using carries_bytes [of "Plain sample_aaaa" sample_aaaa] by (simp add: carries_def sample_encoded_def)
  moreover have "list_all2 carries (map Plain rs) rs" for rs by (induction rs) (simp_all add: carries_def)
  ultimately show ?thesis by (simp add: stands_for_def sample_partial_def sample_message_def)
qed

theorem dns_roundtrip_witness:
  "wf_message sample_message \<and> stands_for sample_partial sample_message \<and>
   (\<exists>bs. encode sample_partial = Inr bs \<and> decode 1 bs = Some sample_message)"
  using dns_roundtrip [OF sample_wf sample_stands_for, of 0] sample_wf sample_stands_for by simp

end
