(* ===== verification/DnsLimits.thy ===== *)
theory DnsLimits
  imports DnsMessages
begin

unbundle bit_operations_syntax

text \<open>
  Where DNS decoding ends and where it fails: every byte array is decoded in finitely many steps; names whose
  compression pointers lead back to themselves are refused however large the call stack is; labels of 64 bytes
  and more, and the usual spelling of the loopback address, are encoded to something else.
\<close>

section \<open>Decoding ends\<close>

text \<open>A big endian cursor of any kind, and what a read returns on it.\<close>

definition be_cursor :: "DataReader \<Rightarrow> bool" where
  "be_cursor r \<longleftrightarrow> \<not> dr_littleEndian r \<and> dr_inv r"

lemma be_cursor_reader: "be_cursor r \<Longrightarrow> be_reader (getRemainingBytes r) r"
  by (simp add: be_cursor_def be_reader_def)

lemma be_cursor_skip [simp]: "be_cursor r \<Longrightarrow> be_cursor (skip n r)"
  by (simp add: be_cursor_def)

lemma be_cursor_new [simp]: "be_cursor (new_DataReader bs Big)"
  by (simp add: be_cursor_def)

lemma read_byte_cases:
  assumes "be_cursor r"
  obtains "readUInt8 r = Inl RangeError"
    | v where "readUInt8 r = Inr (v, skip 1 r)" "be_cursor (skip 1 r)" "0 < length (getRemainingBytes r)"
proof (cases "length (getRemainingBytes r) < 1")
  case True
  then show thesis using be_reads(1) [OF be_cursor_reader [OF assms]] by (intro that(1)) simp
next
  case False
  then show thesis using be_reads(1) [OF be_cursor_reader [OF assms]] assms by (intro that(2)) auto
qed

text \<open>\<open>settles rd\<close>: the reading operation never runs out of fuel and leaves a sound cursor.\<close>

definition settles :: "(DataReader \<Rightarrow> ('v \<times> DataReader) result) \<Rightarrow> bool" where
  "settles rd \<longleftrightarrow> (\<forall>r. be_cursor r \<longrightarrow> rd r \<noteq> Inl OutOfFuel \<and> (\<forall>v r'. rd r = Inr (v, r') \<longrightarrow> be_cursor r'))"

lemma settlesD:
  "settles rd \<Longrightarrow> be_cursor r \<Longrightarrow> rd r \<noteq> Inl OutOfFuel"
  "settles rd \<Longrightarrow> be_cursor r \<Longrightarrow> rd r = Inr (v, r') \<Longrightarrow> be_cursor r'"
  by (auto simp: settles_def)

lemma settles_then:
  assumes "settles rd" and "\<And>v. settles (g v)"
  shows "settles (\<lambda>r. rbind (rd r) (\<lambda>(v, r). g v r))"
proof -
  have "rbind (rd r) (\<lambda>(v, r). g v r) \<noteq> Inl OutOfFuel \<and> (rbind (rd r) (\<lambda>(v, r). g v r) = Inr (u, r') \<longrightarrow> be_cursor r')"
    if "be_cursor r" for r u r'
  proof (cases "rd r")
    case (Inl e)
    then show ?thesis using settlesD(1) [OF assms(1) that] by simp
  next
    case (Inr p)
    obtain v r1 where p: "p = (v, r1)" by (cases p)
    with Inr have "be_cursor r1" using settlesD(2) [OF assms(1) that] by simp
    with settlesD [OF assms(2)] Inr p show ?thesis by simp
  qed
  then show ?thesis by (simp add: settles_def)
qed

lemma settles_return: "settles (\<lambda>r. Inr (v, r))"
  by (simp add: settles_def)

lemma settles_check: "x \<noteq> Inl OutOfFuel \<Longrightarrow> settles (\<lambda>r. rbind x (\<lambda>v. Inr (f v, r)))"
  by (auto simp: settles_def rbind_eq_Inr rbind_eq_Inl)

lemma settles_reads: "settles readUInt8" "settles readUInt16" "settles readUInt32"
  by (auto simp: settles_def be_reads [OF be_cursor_reader] split: if_splits)

lemma settles_times: "settles rd \<Longrightarrow> settles (read_times n rd)"
proof (induction n)
  case (Suc n)
  then show ?case unfolding read_times.simps by (intro settles_then settles_return)
qed (simp add: settles_def)

lemma setOffset_cursor:
  "setOffset off (new_DataReader message Big) \<noteq> Inl OutOfFuel"
  "setOffset off (new_DataReader message Big) = Inr r \<Longrightarrow> be_cursor r"
  by (auto simp: setOffset_def new_DataReader_def be_cursor_def dr_inv_def split: if_splits)

lemma decodeQName_loop_settles:
  assumes "settles self" and "be_cursor r" and "length (getRemainingBytes r) < fuel"
  shows "decodeQName_loop self fuel (new_DataReader message Big) r items \<noteq> Inl OutOfFuel \<and>
    (\<forall>v r'. decodeQName_loop self fuel (new_DataReader message Big) r items = Inr (v, r') \<longrightarrow> be_cursor r')"
  using assms(2,3)
proof (induction fuel arbitrary: r items)
  case (Suc fuel)
  let ?mr = "new_DataReader message Big"
  show ?case
  proof (cases rule: read_byte_cases [OF Suc.prems(1)])
    case 1
    then show ?thesis by simp
  next
    case (2 n)
    have "decodeQName_loop self fuel ?mr (skip (nat n) (skip 1 r)) is \<noteq> Inl OutOfFuel \<and>
      (\<forall>v r'. decodeQName_loop self fuel ?mr (skip (nat n) (skip 1 r)) is = Inr (v, r') \<longrightarrow> be_cursor r')" for "is"
    proof (rule Suc.IH)
      show "length (getRemainingBytes (skip (nat n) (skip 1 r))) < fuel"
        using Suc.prems(2) 2(3) by (simp del: length_greater_0_conv skip_skip)
    qed (use 2(2) in simp)
    then have label: ?thesis if "n \<noteq> 0" "js_and n 0xc0 = 0"
      using that 2(1) by (simp del: skip_skip)
    show ?thesis
    proof (cases "n = 0 \<or> js_and n 0xc0 = 0")
      case True
      then show ?thesis using label 2 by auto
    next
      case False
      let ?tail = "\<lambda>(low, r). rbind (setOffset (nat (js_or low (js_shl (js_and n 0x3f) 8))) ?mr) (\<lambda>mr.
        rbind (self mr) (\<lambda>(name, _). Inr (js_join 46 (items @ [name]), r)))"
      have "rbind (setOffset off ?mr) (\<lambda>mr. rbind (self mr) (\<lambda>(name, _). Inr (js_join 46 (items @ [name]), r))) \<noteq> Inl OutOfFuel"
        for off r
        using setOffset_cursor [of off message] settlesD(1) [OF assms(1)]
        by (auto simp: rbind_eq_Inl)
      moreover have "decodeQName_loop self (Suc fuel) ?mr r items = rbind (readUInt8 (skip 1 r)) ?tail"
        using False 2(1) by simp
      moreover note settlesD [OF settles_reads(1) 2(2)]
      ultimately show ?thesis by (auto simp: rbind_eq_Inl rbind_eq_Inr split: prod.splits)
    qed
  qed
qed simp

lemma settles_name: "settles (decodeQName stack message)"
proof (induction stack)
  case (Suc stack)
  show ?case unfolding settles_def decodeQName.simps
    by (intro allI impI decodeQName_loop_settles [OF Suc.IH]) simp_all
qed (simp add: settles_def)

lemma settles_byteArray: "settles (\<lambda>r. Inr (readByteArray n r))"
  by (auto simp: settles_def)

lemma decodeTxt_loop_fuel: "be_cursor r \<Longrightarrow> decodeTxt_loop len n r acc \<noteq> Inl OutOfFuel"
proof (induction len n r acc rule: decodeTxt_loop.induct)
  case (1 len n r acc)
  show ?case
  proof (cases rule: read_byte_cases [OF 1(2)])
    case 1
    then show ?thesis by (simp add: decodeTxt_loop.simps [of len n])
  next
    case (2 v)
    then show ?thesis
      using "1.IH" [of "(v, skip 1 r)" v "skip 1 r" "readUtf8String (nat v) (skip 1 r)"]
      by (simp add: decodeTxt_loop.simps [of len n] del: skip_skip)
  qed
qed

lemma settles_value: "decodeRecordValue stack bs t message \<noteq> Inl OutOfFuel"
proof -
  have n: "rbind (rd (new_DataReader bs Big)) (\<lambda>(v, _). Inr (f v)) \<noteq> Inl OutOfFuel"
    if "settles rd" for rd :: "DataReader \<Rightarrow> ('a \<times> DataReader) result" and f :: "'a \<Rightarrow> 'b"
    using settlesD(1) [OF that, of "new_DataReader bs Big"] by (auto simp: rbind_eq_Inl)
  have s: "decodeSrvRecord stack bs message \<noteq> Inl OutOfFuel"
  proof -
    have "settles (\<lambda>r. rbind (readUInt16 r) (\<lambda>(priority, r). rbind (readUInt16 r) (\<lambda>(weight, r).
       rbind (readUInt16 r) (\<lambda>(port, r). rbind (decodeQName stack message r) (\<lambda>(target, r).
         Inr (\<lparr>srv_priority = priority, srv_weight = weight, srv_port = port, srv_target = target\<rparr>, r))))))"
      by (intro settles_then settles_reads settles_name settles_return)
    from n [OF this, of id] show ?thesis
      by (simp add: decodeSrvRecord_def rbind_assoc case_prod_beta cong: rbind_cong)
  qed
  show ?thesis
    using n [OF settles_name, of stack message VString] s decodeTxt_loop_fuel [of "new_DataReader bs Big" "length bs" 0 "[]"]
      n [OF settles_times [OF settles_reads(2)], of 8 "\<lambda>ws. js_join 58 (compress_zeros (map (\<lambda>w. number_text 16 (nat w)) ws))"]
      n [OF settles_times [OF settles_reads(1)], of 4 "\<lambda>bs. js_join 46 (map (\<lambda>b. number_text 10 (nat b)) bs)"]
    by (auto simp: decodeRecordValue_def decodeTxtRecord_def decodeAaaaRecord_def decodeARecord_def rbind_eq_Inl)
qed

lemma settles_query: "settles (decodeQuery stack message)"
  unfolding decodeQuery_def by (intro settles_then settles_name settles_reads settles_return)

lemma settles_record: "settles (decodeRecord stack message)"
proof -
  have "settles (\<lambda>r. rbind (Inr (readByteArray n r)) (\<lambda>(valueBytes, r).
      rbind (decodeRecordValue stack valueBytes t message) (\<lambda>value. Inr (f value, r))))" for n t and f :: "_ \<Rightarrow> DnsRecord"
    by (intro settles_then settles_byteArray settles_check settles_value)
  then show ?thesis
    unfolding decodeRecord_def Let_def
    by (intro settles_then settles_name settles_reads) simp
qed

text \<open>C35. Decoding ends for every byte array: the loop that reads a name never needs more rounds than there are bytes left, so
  the outcome is a message or one of the program's own errors, with a call stack of any size.\<close>

theorem dns_decoding_ends: "read_message stack message (new_DataReader message Big) \<noteq> Inl OutOfFuel"
proof -
  have "settles (read_message stack message)"
    unfolding read_message_def
    by (intro settles_then settles_reads settles_times settles_query settles_record settles_return)
  then show ?thesis by (rule settlesD(1)) simp
qed

section \<open>Compression pointers that form a loop\<close>

text \<open>\<open>leads_to message a b\<close>: the name at offset \<open>a\<close> has labels and then a pointer to offset \<open>b\<close>.\<close>

inductive leads_to :: "byte list \<Rightarrow> nat \<Rightarrow> nat \<Rightarrow> bool" for message where
  pointer: "a + 1 < length message \<Longrightarrow> js_and (uint (message ! a)) 0xc0 \<noteq> 0 \<Longrightarrow>
    leads_to message a (nat (js_or (uint (message ! (a + 1))) (js_shl (js_and (uint (message ! a)) 0x3f) 8)))"
| label: "a < length message \<Longrightarrow> message ! a \<noteq> 0 \<Longrightarrow> js_and (uint (message ! a)) 0xc0 = 0 \<Longrightarrow>
    leads_to message (a + 1 + unat (message ! a)) b \<Longrightarrow> leads_to message a b"

lemma leads_to_less: "leads_to message a b \<Longrightarrow> a < length message"
  by (cases rule: leads_to.cases) auto

lemma read_at:
  assumes "be_reader (drop a message) r" and "a < length message"
  shows "readUInt8 r = Inr (uint (message ! a), skip 1 r)" "be_reader (drop (a + 1) message) (skip 1 r)"
  using be_read_byte [of "message ! a" "drop (a + 1) message" r] assms by (simp_all add: Cons_nth_drop_Suc)

lemma leads_to_loop:
  assumes "leads_to message a b" and "be_reader (drop a message) r" and "length message - a < fuel" and "b \<le> length message"
    and "\<And>mr. be_reader (drop b message) mr \<Longrightarrow> self mr = Inl RangeError"
  shows "decodeQName_loop self fuel (new_DataReader message Big) r items = Inl RangeError"
  using assms
proof (induction arbitrary: r fuel items rule: leads_to.induct)
  case (pointer a)
  then obtain f where "fuel = Suc f" by (cases fuel) auto
  moreover have a: "a < length message" using pointer(1) by simp
  note r1 = read_at [OF pointer(3) a]
  note r2 = read_at(1) [OF r1(2) pointer(1)]
  obtain mr where "setOffset (nat (js_or (uint (message ! (a + 1))) (js_shl (js_and (uint (message ! a)) 0x3f) 8)))
      (new_DataReader message Big) = Inr mr" "self mr = Inl RangeError"
    using be_reader_setOffset [OF pointer(5)] pointer(6) by blast
  moreover have "uint (message ! a) \<noteq> 0"
  proof
    assume "uint (message ! a) = 0"
    with pointer(2) show False by (simp add: js_and_def to_int32_def)
  qed
  ultimately show ?case using pointer(2) r1(1) r2 by (simp del: skip_skip)
next
  case (label a b)
  obtain f where f: "fuel = Suc f" using label by (cases fuel) auto
  note r1 = read_at [OF label.prems(1) label.hyps(1)]
  let ?n = "unat (message ! a)"
  have "be_reader (drop (a + 1 + ?n) message) (skip ?n (skip 1 r))"
    using be_reader_skip [OF r1(2), of ?n] by (simp add: add.commute)
  then have "decodeQName_loop self f (new_DataReader message Big) (skip ?n (skip 1 r)) is = Inl RangeError" for "is"
    using label.prems label.hyps(1) f by (intro label.IH) auto
  moreover have "uint (message ! a) \<noteq> 0" using label.hyps(2) by (simp add: uint_0_iff)
  ultimately show ?case using r1(1) label.hyps(3) by (simp add: f unat_eq_nat_uint [symmetric] del: skip_skip)
qed

lemma pointer_loop_name:
  assumes "\<forall>a \<in> S. \<exists>b \<in> S. leads_to message a b"
  shows "a \<in> S \<Longrightarrow> be_reader (drop a message) r \<Longrightarrow> decodeQName stack message r = Inl RangeError"
proof (induction stack arbitrary: a r)
  case (Suc stack)
  obtain b where b: "b \<in> S" "leads_to message a b" using assms Suc.prems(1) by blast
  have "b < length message" using assms b(1) leads_to_less by blast
  then show ?case
    unfolding decodeQName.simps using b Suc.prems Suc.IH [OF b(1)]
    by (intro leads_to_loop [OF b(2)]) (auto simp: be_reader_remaining)
qed simp

text \<open>A question whose name leads, over labels and compression pointers, from offset to offset of a closed set is refused: the
  recursion overflows the call stack whatever its size, and \<^verbatim>\<open>decode\<close> returns \<^verbatim>\<open>undefined\<close>.\<close>

theorem pointer_loop_refused:
  assumes "\<forall>a \<in> S. \<exists>b \<in> S. leads_to message a b" and "12 \<in> S" and "be_uint (take 2 (drop 4 message)) > 0"
  shows "decode stack message = None"
proof -
  have len: "12 < length message" using assms(1,2) leads_to_less by blast
  define r where "r k = skip (2 * k) (new_DataReader message Big)" for k
  have r0: "new_DataReader message Big = r 0" by (simp add: r_def skip_def getOffsetAndAdvance_def new_DataReader_def)
  have br: "be_reader (drop (2 * k) message) (r k)" for k by (simp add: r_def)
  have rd: "readUInt16 (r k) = Inr (be_uint (take 2 (drop (2 * k) message)), r (Suc k))" if "k < 6" for k
    using be_reads(2) [OF br, of k] that len by (simp add: r_def add.commute)
  obtain n where n: "nat (be_uint (take 2 (drop 4 message))) = Suc n" using assms(3) by (cases "nat (be_uint (take 2 (drop 4 message)))") auto
  have "decodeQName stack message (r 6) = Inl RangeError"
    using pointer_loop_name [OF assms(1,2)] br [of 6] by simp
  then have "decodeQuery stack message (r 6) = Inl RangeError" by (simp add: decodeQuery_def)
  then have "read_message stack message (r 0) = Inl RangeError"
    using n by (simp add: read_message_def rd numeral_eq_Suc)
  then show ?thesis by (simp add: decode_def r0)
qed

text \<open>A question whose name is a label and a pointer back to the label.\<close>

definition loop_message :: "byte list" where
  "loop_message = [0, 0, 0, 0, 0, 1, 0, 0, 0, 0, 0, 0, 1, 97, 0xc0, 12, 0, 12, 0, 1]"

lemma loop_message_leads: "leads_to loop_message 12 12"
proof (rule leads_to.label)
  have "leads_to loop_message 14
      (nat (js_or (uint (loop_message ! (14 + 1))) (js_shl (js_and (uint (loop_message ! 14)) 0x3f) 8)))"
    by (rule leads_to.pointer) (simp_all add: loop_message_def js_and_def to_int32_def)
  then show "leads_to loop_message (12 + 1 + unat (loop_message ! 12)) 12"
    by (simp add: loop_message_def js_and_def js_or_def js_shl_def to_int32_def)
qed (simp_all add: loop_message_def js_and_def to_int32_def)

theorem pointer_loop_refused_witness: "decode 10000 loop_message = None"
  using pointer_loop_refused [of "{12}" loop_message 10000] loop_message_leads
  by (simp add: loop_message_def be_uint_def)

section \<open>Names and addresses that are not read back\<close>

lemma pointer_bits: "64 \<le> n \<Longrightarrow> n < 256 \<Longrightarrow> js_and (int n) 0xc0 \<noteq> 0"
proof -
  assume n: "64 \<le> n" "n < 256"
  have "bit (int n) 6 \<or> bit (int n) 7"
  proof (rule ccontr)
    assume "\<not> ?thesis"
    then have "int n div 64 mod 2 = 0" "int n div 64 div 2 mod 2 = 0"
      by (simp_all add: bit_iff_odd even_iff_mod_2_eq_zero zdiv_zmult2_eq [symmetric])
    moreover have "int n div 64 = 1 \<or> int n div 64 = 2 \<or> int n div 64 = 3" using n by linarith
    ultimately show False by auto
  qed
  moreover have "bit (0xc0 :: int) 6" "bit (0xc0 :: int) 7" by (simp_all add: bit_iff_odd)
  ultimately have "bit (int n AND 0xc0) 6 \<or> bit (int n AND 0xc0) 7" unfolding bit_and_iff by blast
  then have "int n AND 0xc0 \<noteq> 0" by auto
  with n show ?thesis by (simp add: js_and_small)
qed

text \<open>The first label of a name with 64 to 255 bytes is written with a length byte that the decoder takes for a compression
  pointer: unless the pointer lies inside the message, the name that was encoded is refused, with a call stack of any size.\<close>

theorem long_label_refused:
  assumes "wf_text l" and "46 \<notin> set l" and "64 \<le> length (fromString l)" and "length (fromString l) < 256"
    and "nat (js_or (uint (hd (fromString l))) (js_shl (js_and (int (length (fromString l))) 0x3f) 8)) > length (fromString l) + 2"
  shows "\<exists>bs. encodeQName l = Inr bs \<and> decodeQName (Suc stack) bs (new_DataReader bs Big) = Inl PlainError"
proof -
  let ?f = "fromString l"
  let ?bs = "of_nat (length ?f) # ?f @ [0]"
  have "l \<noteq> []" using assms(3) by (auto simp: fromString_def utf8_encode_def)
  have "be_writer (([] @ label_bytes l) @ be_bytes 1 (toNumber 0)) (writeUInt8 0 (write_label l (new_DataWriter Big)))"
    using assms(4) by (intro be_writes be_writer_label be_writer_new)
  from be_writer_written [OF this] have e: "encodeQName l = Inr ?bs"
    using assms(2) \<open>l \<noteq> []\<close>
    by (simp add: encodeQName_def js_split_plain label_bytes_def be_bytes_1 toNumber_small)
  obtain c cs where f: "?f = c # cs" using assms(3) by (cases ?f) auto
  let ?r = "new_DataReader ?bs Big"
  have r1: "readUInt8 ?r = Inr (int (length ?f), skip 1 ?r)" "be_reader (?f @ [0]) (skip 1 ?r)"
    using be_read_byte [of "of_nat (length ?f)" "?f @ [0]" ?r] assms(4) by (simp_all add: label_length_byte)
  have r2: "readUInt8 (skip 1 ?r) = Inr (uint c, skip 1 (skip 1 ?r))"
    using be_read_byte [of c "cs @ [0]" "skip 1 ?r"] r1(2) f by simp
  have "setOffset (nat (js_or (uint c) (js_shl (js_and (int (length ?f)) 0x3f) 8))) (new_DataReader ?bs Big) = Inl PlainError"
    using assms(5) f by (simp add: setOffset_def new_DataReader_def)
  then have "decodeQName (Suc stack) ?bs ?r = Inl PlainError"
    using r1(1) r2 pointer_bits [OF assms(3,4)] assms(3) by (auto simp del: skip_skip)
  with e show ?thesis by blast
qed

theorem long_label_refused_witness:
  "\<exists>bs. encodeQName (replicate 64 97) = Inr bs \<and> decodeQName 1 bs (new_DataReader bs Big) = Inl PlainError"
proof -
  have f: "fromString (replicate 64 97) = replicate 64 97"
    by (simp add: fromString_def utf8_encode_def utf8_units_def map_replicate_const)
  show ?thesis
    using long_label_refused [of "replicate 64 97" 0]
    by (simp add: f wf_text_def scalar_def js_and_def js_or_def js_shl_def to_int32_def list_all_iff)
qed

text \<open>The usual spelling of the loopback address has two empty parts, and each stands for six words.\<close>

lemma loopback_bytes:
  "encodeAaaaRecord (js_text ''::1'') = Inr (words_bytes (replicate 12 0 @ [1]))"
proof -
  have "encodeAaaaRecord (js_join 58 [[], [], number_text 16 1]) =
      Inr (concat (map (part_bytes 3) [[], [], number_text 16 1]))"
    using encodeAaaaRecord_parts [of "[[], [], number_text 16 1]"] number_text_parts [of 16 1] by (simp add: numeral_3_eq_3)
  moreover have "js_join 58 [[], [], number_text 16 1] = js_text ''::1''"
    by (simp add: js_text_def number_text.simps digit_code_def)
  moreover have "concat (map (part_bytes 3) [[], [], number_text 16 1]) =
      words_bytes (replicate 6 0 @ replicate 6 0 @ [1])"
    using part_bytes_empty [of 3] part_bytes_words [of "[1]" 3] by (simp add: words_bytes_def)
  moreover have "replicate 6 0 @ replicate 6 0 @ [1] = (replicate 12 0 @ [1] :: nat list)"
    by (simp add: replicate_add [symmetric] flip: append_assoc)
  ultimately show ?thesis by (simp only:)
qed

end
