(* ===== verification/BasicSet.thy ===== *)
theory BasicSet
  imports Prelude "HOL-Library.AList"
begin

text \<open>
  The indexed set of \<^verbatim>\<open>util/Set.ts\<close>.  Items are compared by identity; a set keeps them in order of insertion
  and answers \<^verbatim>\<open>get(field, value)\<close> from an index that the first such call builds and later changes maintain.
  \<open>fld\<close> gives the value of the indexed field, \<open>None\<close> being \<^verbatim>\<open>undefined\<close>; the sets of the program are indexed
  by one field.  The observables of the class are notified by its callers' listeners and are left out.
\<close>

record ('a, 'k) BasicSet =
  bs_entries :: "'a list"
  bs_index :: "('k \<times> 'a) list option"

definition bs_empty :: "('a, 'k) BasicSet" where
  "bs_empty = \<lparr>bs_entries = [], bs_index = None\<rparr>"

definition bs_has :: "'a \<Rightarrow> ('a, 'k) BasicSet \<Rightarrow> bool" where
  "bs_has item s \<longleftrightarrow> item \<in> set (bs_entries s)"

text \<open>An item enters an index only when its value is not there yet.\<close>

definition index_add :: "('a \<Rightarrow> 'k option) \<Rightarrow> 'a \<Rightarrow> ('k \<times> 'a) list \<Rightarrow> ('k \<times> 'a) list" where
  "index_add fld item index =
     (case fld item of
        None \<Rightarrow> index
      | Some value \<Rightarrow> if value \<in> fst ` set index then index else AList.update value item index)"

definition bs_add :: "('a \<Rightarrow> 'k option) \<Rightarrow> 'a \<Rightarrow> ('a, 'k) BasicSet \<Rightarrow> ('a, 'k) BasicSet" where
  "bs_add fld item s =
     (if bs_has item s then s
      else s\<lparr>bs_entries := bs_entries s @ [item], bs_index := map_option (index_add fld item) (bs_index s)\<rparr>)"

definition bs_get :: "('a \<Rightarrow> 'k option) \<Rightarrow> 'k \<Rightarrow> ('a, 'k) BasicSet \<Rightarrow> 'a option \<times> ('a, 'k) BasicSet" where
  "bs_get fld value s =
     (let index = (case bs_index s of None \<Rightarrow> fold (index_add fld) (bs_entries s) [] | Some index \<Rightarrow> index)
      in (map_of index value, s\<lparr>bs_index := Some index\<rparr>))"

definition bs_delete :: "('a \<Rightarrow> 'k option) \<Rightarrow> 'a \<Rightarrow> ('a, 'k) BasicSet \<Rightarrow> bool \<times> ('a, 'k) BasicSet" where
  "bs_delete fld item s =
     (if \<not> bs_has item s then (False, s)
      else (True, s\<lparr>bs_entries := removeAll item (bs_entries s),
              bs_index := map_option (\<lambda>index.
                case fld item of
                  None \<Rightarrow> index
                | Some value \<Rightarrow> if map_of index value = Some item then AList.delete value index else index) (bs_index s)\<rparr>))"

text \<open>\<^verbatim>\<open>clear\<close> empties the entries and leaves the index as it is.\<close>

definition bs_clear :: "('a, 'k) BasicSet \<Rightarrow> ('a, 'k) BasicSet" where
  "bs_clear s = s\<lparr>bs_entries := []\<rparr>"

section \<open>The index answers lookups\<close>

text \<open>As long as no two items share a value of the field, the index holds every item and nothing else.\<close>

definition unique_values :: "('a \<Rightarrow> 'k option) \<Rightarrow> 'a list \<Rightarrow> bool" where
  "unique_values fld xs \<longleftrightarrow> (\<forall>x \<in> set xs. \<forall>y \<in> set xs. \<forall>v. fld x = Some v \<longrightarrow> fld y = Some v \<longrightarrow> x = y)"

lemma unique_valuesD: "unique_values fld xs \<Longrightarrow> x \<in> set xs \<Longrightarrow> y \<in> set xs \<Longrightarrow> fld x = Some v \<Longrightarrow> fld y = Some v \<Longrightarrow> x = y"
  by (auto simp: unique_values_def)

definition index_ok :: "('a \<Rightarrow> 'k option) \<Rightarrow> 'a list \<Rightarrow> ('k \<times> 'a) list \<Rightarrow> bool" where
  "index_ok fld xs index \<longleftrightarrow> (\<forall>v x. map_of index v = Some x \<longleftrightarrow> x \<in> set xs \<and> fld x = Some v)"

definition bs_ok :: "('a \<Rightarrow> 'k option) \<Rightarrow> ('a, 'k) BasicSet \<Rightarrow> bool" where
  "bs_ok fld s \<longleftrightarrow> distinct (bs_entries s) \<and> unique_values fld (bs_entries s) \<and>
     (case bs_index s of None \<Rightarrow> True | Some index \<Rightarrow> index_ok fld (bs_entries s) index)"

lemma index_add_ok:
  assumes "index_ok fld xs index" and "unique_values fld (xs @ [x])"
  shows "index_ok fld (xs @ [x]) (index_add fld x index)"
proof (cases "fld x")
  case None
  with assms(1) show ?thesis by (auto simp: index_ok_def index_add_def)
next
  case (Some v)
  show ?thesis
  proof (cases "map_of index v")
    case None
    then have "v \<notin> fst ` set index" by (simp add: map_of_eq_None_iff)
    moreover have "y = x" if "y \<in> set xs" "fld y = Some v" for y
      using that unique_valuesD [OF assms(2)] \<open>fld x = Some v\<close> by auto
    ultimately show ?thesis
      using assms(1) Some None unfolding index_ok_def index_add_def by (auto simp: update_conv')
  next
    case (Some y)
    then have "y \<in> set xs" "fld y = Some v" using assms(1) by (auto simp: index_ok_def)
    then have "x \<in> set xs" using unique_valuesD [OF assms(2), of x y v] \<open>fld x = Some v\<close> by auto
    moreover have "v \<in> fst ` set index" using Some by (auto dest!: map_of_SomeD intro: rev_image_eqI)
    ultimately show ?thesis using assms(1) \<open>fld x = Some v\<close> by (auto simp: index_ok_def index_add_def)
  qed
qed

lemma build_index_ok:
  assumes "unique_values fld xs"
  shows "index_ok fld xs (fold (index_add fld) xs [])"
  using assms
proof (induction xs rule: rev_induct)
  case Nil
  then show ?case by (simp add: index_ok_def)
next
  case (snoc x xs)
  then have "unique_values fld xs" by (simp add: unique_values_def)
  with snoc show ?case by (simp add: index_add_ok)
qed

lemma bs_ok_empty [inv_intros]: "bs_ok fld bs_empty"
  by (simp add: bs_ok_def bs_empty_def unique_values_def)

lemma bs_ok_add [inv_intros]:
  assumes "bs_ok fld s" and "\<And>y v. y \<in> set (bs_entries s) \<Longrightarrow> fld x = Some v \<Longrightarrow> fld y = Some v \<Longrightarrow> y = x"
  shows "bs_ok fld (bs_add fld x s)"
proof (cases "bs_has x s")
  case False
  have u: "unique_values fld (bs_entries s @ [x])"
    using assms unfolding bs_ok_def unique_values_def by fastforce
  with assms False show ?thesis
    by (cases "bs_index s") (auto simp: bs_ok_def bs_add_def bs_has_def index_add_ok)
qed (simp add: bs_add_def assms)

lemma bs_ok_delete [inv_intros]:
  assumes "bs_ok fld s"
  shows "bs_ok fld (snd (bs_delete fld x s))"
proof (cases "bs_has x s")
  case True
  have "index_ok fld (removeAll x (bs_entries s))
      (case fld x of None \<Rightarrow> index | Some v \<Rightarrow> if map_of index v = Some x then AList.delete v index else index)"
    if "index_ok fld (bs_entries s) index" for index
    using that True assms
    by (cases "fld x") (auto simp: index_ok_def delete_conv' bs_has_def bs_ok_def unique_values_def split: if_splits)
  with assms True show ?thesis
    by (cases "bs_index s") (auto simp: bs_ok_def bs_delete_def unique_values_def distinct_removeAll)
qed (simp add: bs_delete_def assms)

text \<open>A lookup returns the item with the value, and nothing when there is none; it changes no entry.\<close>

lemma bs_get_ok:
  assumes "bs_ok fld s"
  shows "fst (bs_get fld v s) = Some x \<longleftrightarrow> x \<in> set (bs_entries s) \<and> fld x = Some v"
    and "fst (bs_get fld v s) = None \<longleftrightarrow> (\<forall>x \<in> set (bs_entries s). fld x \<noteq> Some v)"
    and "bs_ok fld (snd (bs_get fld v s))" and "bs_entries (snd (bs_get fld v s)) = bs_entries s"
proof -
  define index where "index = (case bs_index s of None \<Rightarrow> fold (index_add fld) (bs_entries s) [] | Some index \<Rightarrow> index)"
  have i: "index_ok fld (bs_entries s) index"
    using assms build_index_ok by (auto simp: bs_ok_def index_def split: option.splits)
  have g: "bs_get fld v s = (map_of index v, s\<lparr>bs_index := Some index\<rparr>)" 
    by (simp add: bs_get_def index_def Let_def)
  have some: "fst (bs_get fld v s) = Some y \<longleftrightarrow> y \<in> set (bs_entries s) \<and> fld y = Some v" for y
    using i by (simp add: g index_ok_def)
  then show "fst (bs_get fld v s) = Some x \<longleftrightarrow> x \<in> set (bs_entries s) \<and> fld x = Some v" .
  show "fst (bs_get fld v s) = None \<longleftrightarrow> (\<forall>x \<in> set (bs_entries s). fld x \<noteq> Some v)"
    using some by (cases "fst (bs_get fld v s)") force+
  show "bs_ok fld (snd (bs_get fld v s))" "bs_entries (snd (bs_get fld v s)) = bs_entries s"
    using assms i by (simp_all add: g bs_ok_def)
qed

text \<open>
  Without the condition on the values the index forgets items: of two items with one value the second is never
  found once the first has been deleted, although it is still in the set.
\<close>

lemma shared_value_lost:
  assumes "fld a = Some v" "fld b = Some v" "a \<noteq> b"
  shows "let s = snd (bs_get fld v bs_empty); s = bs_add fld b (bs_add fld a s); s = snd (bs_delete fld a s)
    in bs_has b s \<and> fst (bs_get fld v s) = None"
  using assms by (simp add: bs_get_def bs_empty_def bs_add_def bs_delete_def bs_has_def index_add_def Let_def)

end
