(* ===== verification/Storage.thy ===== *)
theory Storage
  imports JsText "HOL-Library.AList"
begin

text \<open>
  The key-value store of a node, \<^verbatim>\<open>storage/\<close>: the interface \<^verbatim>\<open>Storage\<close> as a record of operations, the backend
  \<^verbatim>\<open>StorageBackendMemory\<close>, the view of one context \<^verbatim>\<open>StorageContext\<close> and \<^verbatim>\<open>StorageManager\<close>.  An object that serves as
  a dictionary is an association list in order of insertion.  It inherits the members of \<^verbatim>\<open>Object.prototype\<close>: where an operation
  reaches one of them, reading it instead of a stored value or writing to it, the result is \<open>Inl ObjectPrototypeMember\<close> and the model
  follows the program no further.  A stored value is an option, \<open>None\<close> being \<^verbatim>\<open>undefined\<close>.  The operations are
  the synchronous ones; an operation that may fail after a change returns the new state beside the result.
\<close>

section \<open>Objects as dictionaries\<close>

text \<open>\<^verbatim>\<open>Object.keys\<close> lists array indices in ascending order before all other names.\<close>

definition array_index :: "jsstring \<Rightarrow> bool" where
  "array_index s \<longleftrightarrow> s \<noteq> [] \<and> list_all (\<lambda>c. 48 \<le> c \<and> c \<le> 57) s \<and> (hd s \<noteq> 48 \<or> s = [48]) \<and>
     the (parse_digits 10 s None) < 4294967295"

definition object_keys :: "(jsstring \<times> 'v) list \<Rightarrow> jsstring list" where
  "object_keys obj =
     sort_key (\<lambda>s. the (parse_digits 10 s None)) (filter array_index (map fst obj)) @
     filter (\<lambda>s. \<not> array_index s) (map fst obj)"

lemma set_object_keys [simp]: "set (object_keys obj) = fst ` set obj"
  by (auto simp: object_keys_def)

text \<open>The names of the members of \<^verbatim>\<open>Object.prototype\<close>.\<close>

definition proto_name :: jsstring where "proto_name = js_text ''__proto__''"

definition object_prototype :: "jsstring list" where
  "object_prototype = proto_name # map js_text
     [''constructor'', ''__defineGetter__'', ''__defineSetter__'', ''hasOwnProperty'', ''__lookupGetter__'', ''__lookupSetter__'',
      ''isPrototypeOf'', ''propertyIsEnumerable'', ''toString'', ''valueOf'', ''toLocaleString'']"

definition inherited :: "(jsstring \<times> 'v) list \<Rightarrow> jsstring \<Rightarrow> bool" where
  "inherited obj name \<longleftrightarrow> map_of obj name = None \<and> name \<in> set object_prototype"

section \<open>The interface\<close>

type_synonym path = "jsstring list"

record ('s, 'v) Storage =
  st_initialize :: "'s \<Rightarrow> 's \<times> unit result"
  st_close :: "'s \<Rightarrow> 's"
  st_get :: "'s \<Rightarrow> path \<Rightarrow> jsstring \<Rightarrow> 'v option result"
  st_set :: "'s \<Rightarrow> path \<Rightarrow> jsstring \<Rightarrow> 'v option \<Rightarrow> 's \<times> unit result"
  st_set_values :: "'s \<Rightarrow> path \<Rightarrow> (jsstring \<times> 'v option) list \<Rightarrow> 's \<times> unit result"
  st_delete :: "'s \<Rightarrow> path \<Rightarrow> jsstring \<Rightarrow> 's \<times> unit result"
  st_keys :: "'s \<Rightarrow> path \<Rightarrow> jsstring list result"
  st_values :: "'s \<Rightarrow> path \<Rightarrow> (jsstring \<times> 'v option) list result"
  st_contexts :: "'s \<Rightarrow> path \<Rightarrow> jsstring list result"
  st_clearAll :: "'s \<Rightarrow> path \<Rightarrow> 's \<times> unit result"

section \<open>The memory backend\<close>

record 'v StorageBackendMemory =
  sb_initialized :: bool
  sb_store :: "(jsstring \<times> (jsstring \<times> 'v option) list) list"

definition has_dots :: "jsstring \<Rightarrow> bool" where
  "has_dots key \<longleftrightarrow> (\<exists>i < length key - 1. key ! i = 46 \<and> key ! (i + 1) = 46)"

definition createContextKey :: "path \<Rightarrow> jsstring result" where
  "createContextKey contexts =
     (let key = js_join 46 contexts
      in if key = [] \<or> has_dots key \<or> hd key = 46 \<or> last key = 46 then Inl StorageError else Inr key)"

definition sb_initialize :: "'v StorageBackendMemory \<Rightarrow> 'v StorageBackendMemory \<times> unit result" where
  "sb_initialize s = (if sb_initialized s then (s, Inl StorageError) else (s\<lparr>sb_initialized := True\<rparr>, Inr ()))"

definition sb_close :: "'v StorageBackendMemory \<Rightarrow> 'v StorageBackendMemory" where
  "sb_close s = s\<lparr>sb_initialized := False\<rparr>"

definition sb_clear :: "'v StorageBackendMemory \<Rightarrow> 'v StorageBackendMemory" where
  "sb_clear s = s\<lparr>sb_store := []\<rparr>"

definition create_memory :: "(jsstring \<times> (jsstring \<times> 'v option) list) list \<Rightarrow> 'v StorageBackendMemory" where
  "create_memory store = fst (sb_initialize \<lparr>sb_initialized = False, sb_store = store\<rparr>)"

text \<open>\<^verbatim>\<open>this.store[contextKey]?.[key]\<close>\<close>

definition lookup :: "'v StorageBackendMemory \<Rightarrow> jsstring \<Rightarrow> jsstring \<Rightarrow> 'v option result" where
  "lookup s contextKey key =
     (case map_of (sb_store s) contextKey of
        None \<Rightarrow> if inherited (sb_store s) contextKey then Inl ObjectPrototypeMember else Inr None
      | Some obj \<Rightarrow>
          (case map_of obj key of
             None \<Rightarrow> if inherited obj key then Inl ObjectPrototypeMember else Inr None
           | Some v \<Rightarrow> Inr v))"

definition sb_get :: "'v StorageBackendMemory \<Rightarrow> path \<Rightarrow> jsstring \<Rightarrow> 'v option result" where
  "sb_get s contexts key =
     rbind (throw_if (\<not> sb_initialized s) StorageError) (\<lambda>_.
     rbind (throw_if (contexts = [] \<or> key = []) StorageError) (\<lambda>_.
     rbind (createContextKey contexts) (\<lambda>contextKey. lookup s contextKey key)))"

text \<open>An assignment creates a property of its own, except to \<^verbatim>\<open>__proto__\<close>.\<close>

definition store_at ::
  "jsstring \<Rightarrow> jsstring \<Rightarrow> 'v option \<Rightarrow> 'v StorageBackendMemory \<Rightarrow> 'v StorageBackendMemory \<times> unit result" where
  "store_at contextKey key value s =
     (let obj = (case map_of (sb_store s) contextKey of None \<Rightarrow> [] | Some obj \<Rightarrow> obj)
      in if inherited (sb_store s) contextKey \<or> (key = proto_name \<and> inherited obj key) then (s, Inl ObjectPrototypeMember)
         else (s\<lparr>sb_store := AList.update contextKey (AList.update key value obj) (sb_store s)\<rparr>, Inr ()))"

definition setKey :: "path \<Rightarrow> jsstring \<Rightarrow> 'v option \<Rightarrow> 'v StorageBackendMemory \<Rightarrow> 'v StorageBackendMemory \<times> unit result" where
  "setKey contexts key value s =
     (if contexts = [] \<or> key = [] then (s, Inl StorageError)
      else case createContextKey contexts of
             Inl e \<Rightarrow> (s, Inl e)
           | Inr contextKey \<Rightarrow> store_at contextKey key value s)"

definition sb_set :: "'v StorageBackendMemory \<Rightarrow> path \<Rightarrow> jsstring \<Rightarrow> 'v option \<Rightarrow> 'v StorageBackendMemory \<times> unit result" where
  "sb_set s contexts key value =
     (if \<not> sb_initialized s then (s, Inl StorageError) else setKey contexts key value s)"

text \<open>The \<^verbatim>\<open>forEach\<close> over the entries of a record of values stops at the first exception.\<close>

fun set_entries :: "path \<Rightarrow> (jsstring \<times> 'v option) list \<Rightarrow> 'v StorageBackendMemory \<Rightarrow> 'v StorageBackendMemory \<times> unit result" where
  "set_entries contexts [] s = (s, Inr ())"
| "set_entries contexts ((key, value) # entries) s =
     (case setKey contexts key value s of
        (s, Inl e) \<Rightarrow> (s, Inl e)
      | (s, Inr _) \<Rightarrow> set_entries contexts entries s)"

definition sb_set_values :: "'v StorageBackendMemory \<Rightarrow> path \<Rightarrow> (jsstring \<times> 'v option) list \<Rightarrow> 'v StorageBackendMemory \<times> unit result" where
  "sb_set_values s contexts values =
     (if \<not> sb_initialized s then (s, Inl StorageError)
      else set_entries contexts (map (\<lambda>k. (k, the (map_of values k))) (object_keys values)) s)"

definition sb_delete :: "'v StorageBackendMemory \<Rightarrow> path \<Rightarrow> jsstring \<Rightarrow> 'v StorageBackendMemory \<times> unit result" where
  "sb_delete s contexts key =
     (if \<not> sb_initialized s then (s, Inl StorageError)
      else if contexts = [] \<or> key = [] then (s, Inl StorageError)
      else case createContextKey contexts of
             Inl e \<Rightarrow> (s, Inl e)
           | Inr contextKey \<Rightarrow>
               (case map_of (sb_store s) contextKey of
                  None \<Rightarrow> if inherited (sb_store s) contextKey then (s, Inl ObjectPrototypeMember) else (s, Inr ())
                | Some obj \<Rightarrow> (s\<lparr>sb_store := AList.update contextKey (AList.delete key obj) (sb_store s)\<rparr>, Inr ())))"

definition sb_keys :: "'v StorageBackendMemory \<Rightarrow> path \<Rightarrow> jsstring list result" where
  "sb_keys s contexts =
     rbind (throw_if (\<not> sb_initialized s) StorageError) (\<lambda>_.
     rbind (throw_if (contexts = []) StorageError) (\<lambda>_.
     rbind (createContextKey contexts) (\<lambda>contextKey.
       Inr (object_keys (case map_of (sb_store s) contextKey of None \<Rightarrow> [] | Some obj \<Rightarrow> obj)))))"

definition sb_values :: "'v StorageBackendMemory \<Rightarrow> path \<Rightarrow> (jsstring \<times> 'v option) list result" where
  "sb_values s contexts =
     rbind (sb_keys s contexts) (\<lambda>keys.
       rfold (\<lambda>key values. rbind (sb_get s contexts key) (\<lambda>v. Inr (AList.update key v values))) keys [])"

text \<open>The immediate sub-contexts: the first part of every context key that extends the prefix.\<close>

definition found_contexts :: "jsstring \<Rightarrow> jsstring list \<Rightarrow> jsstring list" where
  "found_contexts startContextKey keys =
     fold (\<lambda>key found.
       if take (length startContextKey) key = startContextKey then
         let context = hd (js_split 46 (drop (length startContextKey) key))
         in if context \<in> set found then found else found @ [context]
       else found) keys []"

definition sb_contexts :: "'v StorageBackendMemory \<Rightarrow> path \<Rightarrow> jsstring list result" where
  "sb_contexts s contexts =
     rbind (throw_if (\<not> sb_initialized s) StorageError) (\<lambda>_.
     rbind (if contexts \<noteq> [] then createContextKey contexts else Inr []) (\<lambda>contextKey.
       let startContextKey = (if contextKey \<noteq> [] then contextKey @ [46] else [])
       in Inr (found_contexts startContextKey (object_keys (sb_store s)))))"

definition sb_clearAll :: "'v StorageBackendMemory \<Rightarrow> path \<Rightarrow> 'v StorageBackendMemory \<times> unit result" where
  "sb_clearAll s contexts =
     (if \<not> sb_initialized s then (s, Inl StorageError)
      else case createContextKey contexts of
             Inl e \<Rightarrow> (s, Inl e)
           | Inr contextKey \<Rightarrow>
               let store = (if contextKey \<noteq> [] then AList.delete contextKey (sb_store s) else sb_store s);
                   startContextKey = (if contextKey \<noteq> [] then contextKey @ [46] else []);
                   store = fold (\<lambda>key st. if take (length startContextKey) key = startContextKey then AList.delete key st else st)
                             (object_keys store) store
               in (s\<lparr>sb_store := store\<rparr>, Inr ()))"

definition memory_storage :: "('v StorageBackendMemory, 'v) Storage" where
  "memory_storage =
     \<lparr>st_initialize = sb_initialize, st_close = sb_close, st_get = sb_get, st_set = sb_set,
      st_set_values = sb_set_values, st_delete = sb_delete, st_keys = sb_keys, st_values = sb_values,
      st_contexts = sb_contexts, st_clearAll = sb_clearAll\<rparr>"

section \<open>Contexts\<close>

text \<open>The operations of \<^verbatim>\<open>StorageContext\<close> on a synchronous storage; \<open>here\<close> is \<^verbatim>\<open>thisContexts\<close>.\<close>

definition sc_get :: "('s, 'v) Storage \<Rightarrow> 's \<Rightarrow> path \<Rightarrow> jsstring \<Rightarrow> 'v option \<Rightarrow> 'v result" where
  "sc_get st s here key defaultValue =
     rbind (st_get st s here key) (\<lambda>value.
       case value of
         Some v \<Rightarrow> Inr v
       | None \<Rightarrow> (case defaultValue of None \<Rightarrow> Inl StorageError | Some d \<Rightarrow> Inr d))"

definition sc_has :: "('s, 'v) Storage \<Rightarrow> 's \<Rightarrow> path \<Rightarrow> jsstring \<Rightarrow> bool result" where
  "sc_has st s here key = rbind (st_get st s here key) (\<lambda>value. Inr (value \<noteq> None))"

definition sc_set :: "('s, 'v) Storage \<Rightarrow> 's \<Rightarrow> path \<Rightarrow> jsstring \<Rightarrow> 'v option \<Rightarrow> 's \<times> unit result" where
  "sc_set st s here key value = st_set st s here key value"

definition sc_set_values :: "('s, 'v) Storage \<Rightarrow> 's \<Rightarrow> path \<Rightarrow> (jsstring \<times> 'v option) list \<Rightarrow> 's \<times> unit result" where
  "sc_set_values st s here values = st_set_values st s here values"

definition sc_delete :: "('s, 'v) Storage \<Rightarrow> 's \<Rightarrow> path \<Rightarrow> jsstring \<Rightarrow> 's \<times> unit result" where
  "sc_delete st s here key = st_delete st s here key"

definition sc_createContext :: "path \<Rightarrow> jsstring \<Rightarrow> path result" where
  "sc_createContext here context =
     (if context = [] then Inl StorageError
      else if 46 \<in> set context then Inl StorageError
      else Inr (here @ [context]))"

definition sc_keys :: "('s, 'v) Storage \<Rightarrow> 's \<Rightarrow> path \<Rightarrow> jsstring list result" where
  "sc_keys st s here = st_keys st s here"

definition sc_values :: "('s, 'v) Storage \<Rightarrow> 's \<Rightarrow> path \<Rightarrow> (jsstring \<times> 'v option) list result" where
  "sc_values st s here = st_values st s here"

definition sc_contexts :: "('s, 'v) Storage \<Rightarrow> 's \<Rightarrow> path \<Rightarrow> jsstring list result" where
  "sc_contexts st s here = st_contexts st s here"

fun delete_all :: "('s, 'v) Storage \<Rightarrow> path \<Rightarrow> jsstring list \<Rightarrow> 's \<Rightarrow> 's \<times> unit result" where
  "delete_all st here [] s = (s, Inr ())"
| "delete_all st here (key # keys) s =
     (case sc_delete st s here key of
        (s, Inl e) \<Rightarrow> (s, Inl e)
      | (s, Inr _) \<Rightarrow> delete_all st here keys s)"

definition sc_clear :: "('s, 'v) Storage \<Rightarrow> 's \<Rightarrow> path \<Rightarrow> 's \<times> unit result" where
  "sc_clear st s here =
     (case sc_keys st s here of
        Inl e \<Rightarrow> (s, Inl e)
      | Inr keys \<Rightarrow> delete_all st here keys s)"

definition sc_clearAll :: "('s, 'v) Storage \<Rightarrow> 's \<Rightarrow> path \<Rightarrow> 's \<times> unit result" where
  "sc_clearAll st s here = st_clearAll st s here"

section \<open>The manager\<close>

record 's StorageManager =
  sm_initialized :: bool
  sm_storage :: 's

definition sm_initialize :: "('s, 'v) Storage \<Rightarrow> 's StorageManager \<Rightarrow> 's StorageManager \<times> unit result" where
  "sm_initialize st m =
     (case st_initialize st (sm_storage m) of
        (s, Inl e) \<Rightarrow> (m\<lparr>sm_storage := s\<rparr>, Inl e)
      | (s, Inr _) \<Rightarrow> (m\<lparr>sm_storage := s, sm_initialized := True\<rparr>, Inr ()))"

definition sm_close :: "('s, 'v) Storage \<Rightarrow> 's StorageManager \<Rightarrow> 's StorageManager" where
  "sm_close st m = m\<lparr>sm_storage := st_close st (sm_storage m)\<rparr>"

definition sm_createContext :: "'s StorageManager \<Rightarrow> jsstring \<Rightarrow> path result" where
  "sm_createContext m context =
     (if \<not> sm_initialized m then Inl StorageError
      else if context = [] then Inl StorageError
      else if 46 \<in> set context then Inl StorageError
      else Inr [context])"

end
