(* ===== verification/StorageLaws.thy ===== *)
theory StorageLaws
  imports Storage "HOL-Library.Sublist"
begin

text \<open>
  The contract of a storage as a locale: a storage is a map from paths and keys to values, and every operation
  changes exactly the entries it names.  \<^verbatim>\<open>StorageContext\<close> is verified against the contract, and the memory
  backend is shown to fulfil it.
\<close>

section \<open>The contract\<close>

text \<open>
  The paths \<^verbatim>\<open>createContext\<close> builds: at least one context, none of them empty or with a dot.  Neither the path nor a key may be named like
  a member of \<^verbatim>\<open>Object.prototype\<close>.
\<close>

definition proper_path :: "path \<Rightarrow> bool" where
  "proper_path c \<longleftrightarrow> c \<noteq> [] \<and> list_all (\<lambda>x. x \<noteq> [] \<and> 46 \<notin> set x) c"

definition wf_path :: "path \<Rightarrow> bool" where
  "wf_path c \<longleftrightarrow> proper_path c \<and> js_join 46 c \<notin> set object_prototype"

definition wf_key :: "jsstring \<Rightarrow> bool" where
  "wf_key k \<longleftrightarrow> k \<noteq> [] \<and> k \<notin> set object_prototype"

lemma wf_key_nonempty [simp]: "wf_key k \<Longrightarrow> k \<noteq> []"
  by (simp add: wf_key_def)

lemma wf_proper [simp]: "wf_path c \<Longrightarrow> proper_path c"
  by (simp add: wf_path_def)

type_synonym 'v contents = "path \<Rightarrow> jsstring \<Rightarrow> 'v option"

definition put :: "path \<Rightarrow> jsstring \<Rightarrow> 'v option \<Rightarrow> 'v contents \<Rightarrow> 'v contents" where
  "put c k v m = (\<lambda>c' k'. if c' = c \<and> k' = k then v else m c' k')"

definition drop_below :: "path \<Rightarrow> 'v contents \<Rightarrow> 'v contents" where
  "drop_below c m = (\<lambda>c' k. if prefix c c' then None else m c' k)"

locale storage =
  fixes st :: "('s, 'v) Storage"
    and ok :: "'s \<Rightarrow> bool"
    and view :: "'s \<Rightarrow> 'v contents"
  assumes get: "ok s \<Longrightarrow> wf_path c \<Longrightarrow> wf_key k \<Longrightarrow> st_get st s c k = Inr (view s c k)"
    and set: "ok s \<Longrightarrow> wf_path c \<Longrightarrow> wf_key k \<Longrightarrow>
      \<exists>s'. st_set st s c k v = (s', Inr ()) \<and> ok s' \<and> view s' = put c k v (view s)"
    and delete: "ok s \<Longrightarrow> wf_path c \<Longrightarrow> k \<noteq> [] \<Longrightarrow>
      \<exists>s'. st_delete st s c k = (s', Inr ()) \<and> ok s' \<and> view s' = put c k None (view s)"
    and clearAll: "ok s \<Longrightarrow> wf_path c \<Longrightarrow>
      \<exists>s'. st_clearAll st s c = (s', Inr ()) \<and> ok s' \<and> view s' = drop_below c (view s)"
    and keys: "ok s \<Longrightarrow> wf_path c \<Longrightarrow>
      \<exists>ks. st_keys st s c = Inr ks \<and> [] \<notin> List.set ks \<and> (\<forall>k. view s c k \<noteq> None \<longrightarrow> k \<in> List.set ks)"
begin

lemma get_after_set:
  assumes "ok s" "wf_path c" "wf_key k"
  shows "\<exists>s'. sc_set st s c k (Some v) = (s', Inr ()) \<and> ok s' \<and> sc_get st s' c k d = Inr v \<and>
    (\<forall>c' k'. wf_path c' \<and> wf_key k' \<and> (c', k') \<noteq> (c, k) \<longrightarrow> sc_get st s' c' k' = sc_get st s c' k')"
proof -
  obtain s' where s': "st_set st s c k (Some v) = (s', Inr ())" "ok s'" "view s' = put c k (Some v) (view s)"
    using set [OF assms] by blast
  then show ?thesis
    using assms by (auto simp: sc_set_def sc_get_def get put_def fun_eq_iff)
qed

lemma delete_all_view:
  "ok s \<Longrightarrow> wf_path c \<Longrightarrow> [] \<notin> List.set ks \<Longrightarrow>
   \<exists>s'. delete_all st c ks s = (s', Inr ()) \<and> ok s' \<and>
     view s' = (\<lambda>c' k. if c' = c \<and> k \<in> List.set ks then None else view s c' k)"
proof (induction ks arbitrary: s)
  case (Cons k ks)
  then obtain s1 where s1: "st_delete st s c k = (s1, Inr ())" "ok s1" "view s1 = put c k None (view s)"
    using delete [of s c k] by auto
  with Cons obtain s' where "delete_all st c ks s1 = (s', Inr ())" "ok s'"
      "view s' = (\<lambda>c' k. if c' = c \<and> k \<in> List.set ks then None else view s1 c' k)"
    using Cons.IH [of s1] by auto
  with s1 show ?case by (auto simp: sc_delete_def put_def fun_eq_iff)
qed simp

text \<open>\<^verbatim>\<open>StorageContext.clear\<close> empties its own context and leaves its sub-contexts.\<close>

lemma clear_view:
  assumes "ok s" "wf_path c"
  shows "\<exists>s'. sc_clear st s c = (s', Inr ()) \<and> ok s' \<and> view s' = (\<lambda>c' k. if c' = c then None else view s c' k)"
proof -
  obtain ks where ks: "st_keys st s c = Inr ks" "[] \<notin> List.set ks" "\<forall>k. view s c k \<noteq> None \<longrightarrow> k \<in> List.set ks"
    using keys [OF assms] by blast
  obtain s' where "delete_all st c ks s = (s', Inr ())" "ok s'"
      "view s' = (\<lambda>c' k. if c' = c \<and> k \<in> List.set ks then None else view s c' k)"
    using delete_all_view [OF assms ks(2)] by blast
  with ks show ?thesis by (auto simp: sc_clear_def sc_keys_def fun_eq_iff)
qed

end

section \<open>Context keys\<close>

lemma has_dots_simps [simp]:
  "\<not> has_dots []" "\<not> has_dots [c]" "has_dots (c # d # s) \<longleftrightarrow> c = 46 \<and> d = 46 \<or> has_dots (d # s)"
proof -
  show "has_dots (c # d # s) \<longleftrightarrow> c = 46 \<and> d = 46 \<or> has_dots (d # s)"
    unfolding has_dots_def by (simp add: Ex_less_Suc2)
qed (simp_all add: has_dots_def)

lemma empty_part:
  "([] \<in> set (js_split 46 s) \<longleftrightarrow> s = [] \<or> has_dots s \<or> hd s = 46 \<or> last s = 46) \<and>
   (s \<noteq> [] \<longrightarrow> ([] \<in> set (tl (js_split 46 s)) \<longleftrightarrow> has_dots s \<or> last s = 46))"
proof (induction s)
  case (Cons c s)
  show ?case
  proof (cases "s = []")
    case False
    obtain p ps where ps: "js_split 46 s = p # ps" by (cases "js_split 46 s") auto
    have "[] \<in> set (p # ps) \<longleftrightarrow> has_dots s \<or> hd s = 46 \<or> last s = 46" "[] \<in> set ps \<longleftrightarrow> has_dots s \<or> last s = 46"
      using Cons.IH ps False by auto
    moreover have "has_dots (c # s) \<longleftrightarrow> c = 46 \<and> hd s = 46 \<or> has_dots s" using False by (cases s) auto
    ultimately show ?thesis using ps False by auto
  qed auto
qed simp

lemma createContextKey_iff:
  "createContextKey c = (if [] \<in> set (js_split 46 (js_join 46 c)) then Inl StorageError else Inr (js_join 46 c))"
  using empty_part [of "js_join 46 c"] by (simp add: createContextKey_def Let_def)

lemma split_path: "proper_path c \<Longrightarrow> js_split 46 (js_join 46 c) = c"
  by (rule js_split_join) (auto simp: proper_path_def list_all_iff)

lemma createContextKey_path: "proper_path c \<Longrightarrow> createContextKey c = Inr (js_join 46 c)"
  unfolding createContextKey_iff by (auto simp: split_path proper_path_def list_all_iff)

lemma path_inject: "proper_path c \<Longrightarrow> proper_path d \<Longrightarrow> js_join 46 c = js_join 46 d \<longleftrightarrow> c = d"
  by (metis split_path)

lemma path_prefix:
  assumes "proper_path c" "proper_path d"
  shows "take (length (js_join 46 c) + 1) (js_join 46 d) = js_join 46 c @ [46] \<longleftrightarrow> strict_prefix c d"
proof
  assume a: "take (length (js_join 46 c) + 1) (js_join 46 d) = js_join 46 c @ [46]"
  then obtain t where "js_join 46 d = js_join 46 c @ 46 # t"
    by (metis append.assoc append_Cons append_Nil append_take_drop_id)
  then have "js_split 46 (js_join 46 d) = js_split 46 (js_join 46 c) @ js_split 46 t" by (simp add: js_split_append)
  then have "d = c @ js_split 46 t" by (simp add: split_path assms)
  then show "strict_prefix c d" by (simp add: strict_prefix_def)
next
  assume "strict_prefix c d"
  then obtain x xs where "d = c @ x # xs" by (auto elim: strict_prefixE')
  moreover have "c \<noteq> []" using assms(1) by (simp add: proper_path_def)
  ultimately have "js_join 46 d = js_join 46 c @ 46 # js_join 46 (x # xs)" by (simp add: js_join_append)
  then show "take (length (js_join 46 c) + 1) (js_join 46 d) = js_join 46 c @ [46]" by simp
qed

section \<open>The memory backend fulfils the contract\<close>

text \<open>Every context key of the store is the key of a path, and names are distinct and not empty.\<close>

definition memory_ok :: "'v StorageBackendMemory \<Rightarrow> bool" where
  "memory_ok s \<longleftrightarrow> sb_initialized s \<and> distinct (map fst (sb_store s)) \<and>
     (\<forall>(ck, obj) \<in> set (sb_store s). wf_path (js_split 46 ck) \<and> [] \<notin> fst ` set obj)"

definition own_value :: "'v StorageBackendMemory \<Rightarrow> jsstring \<Rightarrow> jsstring \<Rightarrow> 'v option" where
  "own_value s contextKey key =
     (case map_of (sb_store s) contextKey of
        None \<Rightarrow> None
      | Some obj \<Rightarrow> (case map_of obj key of None \<Rightarrow> None | Some v \<Rightarrow> v))"

definition memory_view :: "'v StorageBackendMemory \<Rightarrow> 'v contents" where
  "memory_view s c k = (if wf_path c then own_value s (js_join 46 c) k else None)"

lemma lookup_own: "contextKey \<notin> set object_prototype \<Longrightarrow> key \<notin> set object_prototype \<Longrightarrow> lookup s contextKey key = Inr (own_value s contextKey key)"
  by (auto simp: lookup_def own_value_def inherited_def split: option.splits)

lemma memory_ok_new: "memory_ok (create_memory [])"
  by (simp add: memory_ok_def create_memory_def sb_initialize_def)

lemma set_update_subset: "set (AList.update k v al) \<subseteq> insert (k, v) (set al)"
  by (induction al) auto

lemma memory_ok_update:
  assumes "memory_ok s" "wf_path c" "[] \<notin> fst ` set obj"
  shows "memory_ok (s\<lparr>sb_store := AList.update (js_join 46 c) obj (sb_store s)\<rparr>)"
proof -
  have "set (AList.update (js_join 46 c) obj (sb_store s)) \<subseteq> insert (js_join 46 c, obj) (set (sb_store s))"
    by (rule set_update_subset)
  moreover have "wf_path (js_split 46 (js_join 46 c))" using assms(2) by (simp add: split_path)
  ultimately show ?thesis using assms by (fastforce simp: memory_ok_def distinct_update)
qed

lemma memory_view_update:
  assumes "wf_path c"
  shows "memory_view (s\<lparr>sb_store := AList.update (js_join 46 c) obj (sb_store s)\<rparr>) =
    (\<lambda>c' k. if c' = c then (case map_of obj k of None \<Rightarrow> None | Some v \<Rightarrow> v) else memory_view s c' k)"
  using assms by (auto simp: memory_view_def own_value_def update_conv' path_inject fun_eq_iff)

lemma memory_get: "memory_ok s \<Longrightarrow> wf_path c \<Longrightarrow> wf_key k \<Longrightarrow> sb_get s c k = Inr (memory_view s c k)"
  by (auto simp: sb_get_def memory_ok_def memory_view_def createContextKey_path throw_if_def wf_path_def wf_key_def proper_path_def lookup_own)

abbreviation object_of :: "'v StorageBackendMemory \<Rightarrow> path \<Rightarrow> (jsstring \<times> 'v option) list" where
  "object_of s c \<equiv> (case map_of (sb_store s) (js_join 46 c) of None \<Rightarrow> [] | Some obj \<Rightarrow> obj)"

lemma object_of_names: "memory_ok s \<Longrightarrow> [] \<notin> fst ` set (object_of s c)"
proof (cases "map_of (sb_store s) (js_join 46 c)")
  case (Some obj)
  assume "memory_ok s"
  with map_of_SomeD [OF Some] Some show ?thesis by (auto simp: memory_ok_def)
qed simp

lemma memory_set:
  assumes "memory_ok s" "wf_path c" "wf_key k"
  shows "\<exists>s'. sb_set s c k v = (s', Inr ()) \<and> memory_ok s' \<and> memory_view s' = put c k v (memory_view s)"
proof -
  let ?obj = "AList.update k v (object_of s c)"
  let ?s = "s\<lparr>sb_store := AList.update (js_join 46 c) ?obj (sb_store s)\<rparr>"
  have "sb_set s c k v = (?s, Inr ())"
    using assms by (simp add: sb_set_def setKey_def memory_ok_def createContextKey_path wf_path_def proper_path_def wf_key_def store_at_def
        inherited_def object_prototype_def)
  moreover have "memory_ok ?s"
    using assms object_of_names [of s c] by (intro memory_ok_update) (auto simp: dom_update wf_key_def)
  moreover have "memory_view ?s = put c k v (memory_view s)"
    unfolding memory_view_update [OF assms(2)]
    using assms(2) by (auto simp: put_def fun_eq_iff update_conv' memory_view_def own_value_def split: option.splits)
  ultimately show ?thesis by blast
qed

lemma memory_delete:
  assumes "memory_ok s" "wf_path c" "k \<noteq> []"
  shows "\<exists>s'. sb_delete s c k = (s', Inr ()) \<and> memory_ok s' \<and> memory_view s' = put c k None (memory_view s)"
proof (cases "map_of (sb_store s) (js_join 46 c)")
  case None
  then have "sb_delete s c k = (s, Inr ())"
    using assms by (simp add: sb_delete_def memory_ok_def createContextKey_path wf_path_def proper_path_def inherited_def)
  moreover have "memory_view s = put c k None (memory_view s)"
    using None by (auto simp: put_def fun_eq_iff memory_view_def own_value_def)
  ultimately show ?thesis using assms(1) by auto
next
  case (Some obj)
  let ?s = "s\<lparr>sb_store := AList.update (js_join 46 c) (AList.delete k obj) (sb_store s)\<rparr>"
  have "sb_delete s c k = (?s, Inr ())"
    using Some assms by (simp add: sb_delete_def memory_ok_def createContextKey_path wf_path_def proper_path_def)
  moreover have "memory_ok ?s"
    using assms object_of_names [of s c] Some dom_delete_subset [of k obj] by (intro memory_ok_update) auto
  moreover have "memory_view ?s = put c k None (memory_view s)"
    unfolding memory_view_update [OF assms(2)]
    using assms(2) Some by (auto simp: put_def fun_eq_iff delete_conv' memory_view_def own_value_def split: option.splits)
  ultimately show ?thesis by blast
qed

lemma memory_keys:
  assumes "memory_ok s" "wf_path c"
  shows "\<exists>ks. sb_keys s c = Inr ks \<and> [] \<notin> set ks \<and> (\<forall>k. memory_view s c k \<noteq> None \<longrightarrow> k \<in> set ks)"
proof -
  have "sb_keys s c = Inr (object_keys (object_of s c))"
    using assms by (simp add: sb_keys_def memory_ok_def createContextKey_path wf_path_def proper_path_def)
  moreover have "k \<in> fst ` set (object_of s c)" if "memory_view s c k \<noteq> None" for k
    using that by (auto simp: memory_view_def own_value_def split: if_splits option.splits dest!: map_of_SomeD intro: rev_image_eqI)
  ultimately show ?thesis using object_of_names [OF assms(1), of c] by auto
qed

lemma delete_keys_fold:
  "map_of (fold (\<lambda>key st. if P key then AList.delete key st else st) ks al) =
   (\<lambda>k. if k \<in> set ks \<and> P k then None else map_of al k)"
  by (induction ks arbitrary: al) (auto simp: delete_conv' fun_eq_iff)

lemma delete_fold_subset:
  "set (fold (\<lambda>key st. if P key then AList.delete key st else st) ks al) \<subseteq> set al \<and>
   (distinct (map fst al) \<longrightarrow> distinct (map fst (fold (\<lambda>key st. if P key then AList.delete key st else st) ks al)))"
proof (induction ks arbitrary: al)
  case (Cons k ks)
  have "set (AList.delete k al) \<subseteq> set al" by (auto simp: AList.delete_eq)
  with Cons [of al] Cons [of "AList.delete k al"] show ?case by (auto simp: distinct_delete)
qed simp

lemma memory_clearAll:
  assumes "memory_ok s" "wf_path c"
  shows "\<exists>s'. sb_clearAll s c = (s', Inr ()) \<and> memory_ok s' \<and> memory_view s' = drop_below c (memory_view s)"
proof -
  let ?ck = "js_join 46 c" and ?al = "AList.delete (js_join 46 c) (sb_store s)"
  let ?P = "\<lambda>key. take (length ?ck + 1) key = ?ck @ [46]"
  let ?st = "fold (\<lambda>key st. if ?P key then AList.delete key st else st) (object_keys ?al) ?al"
  have ne: "?ck \<noteq> []" using createContextKey_path [OF wf_proper [OF assms(2)]] by (auto simp: createContextKey_def Let_def split: if_splits)
  have "sb_clearAll s c = (s\<lparr>sb_store := ?st\<rparr>, Inr ())"
    using assms ne by (simp add: sb_clearAll_def memory_ok_def createContextKey_path Let_def)
  moreover have sub: "set ?st \<subseteq> set (sb_store s)" "distinct (map fst ?st)"
    using delete_fold_subset [of ?P "object_keys ?al" ?al] assms(1)
    by (auto simp: memory_ok_def AList.delete_eq distinct_map_filter)
  then have "memory_ok (s\<lparr>sb_store := ?st\<rparr>)" using assms(1) by (fastforce simp: memory_ok_def)
  moreover have "map_of ?st (js_join 46 d) = (if prefix c d then None else map_of (sb_store s) (js_join 46 d))"
    if "wf_path d" for d
  proof -
    have "map_of ?st (js_join 46 d) =
        (if js_join 46 d \<in> fst ` set ?al \<and> strict_prefix c d then None else map_of ?al (js_join 46 d))"
      unfolding delete_keys_fold set_object_keys path_prefix [OF wf_proper [OF assms(2)] wf_proper [OF that]] ..
    also have "\<dots> = (if strict_prefix c d then None else map_of ?al (js_join 46 d))"
      by (auto simp: map_of_eq_None_iff [symmetric])
    finally show ?thesis
      using path_inject [OF wf_proper [OF assms(2)] wf_proper [OF that]] by (auto simp: delete_conv' prefix_order.le_less)
  qed
  then have "memory_view (s\<lparr>sb_store := ?st\<rparr>) = drop_below c (memory_view s)"
    by (auto simp: memory_view_def own_value_def drop_below_def fun_eq_iff)
  ultimately show ?thesis by blast
qed

lemma memory_ops [simp]:
  "st_initialize memory_storage = sb_initialize" "st_close memory_storage = sb_close"
  "st_get memory_storage = sb_get" "st_set memory_storage = sb_set" "st_set_values memory_storage = sb_set_values"
  "st_delete memory_storage = sb_delete" "st_keys memory_storage = sb_keys" "st_values memory_storage = sb_values"
  "st_contexts memory_storage = sb_contexts" "st_clearAll memory_storage = sb_clearAll"
  by (simp_all add: memory_storage_def)

interpretation memory: storage memory_storage memory_ok memory_view
  by unfold_locales (unfold memory_ops, (intro memory_get memory_set memory_delete memory_clearAll memory_keys; assumption)+)

text \<open>C23. For contexts and keys that are not named like a member of \<^verbatim>\<open>Object.prototype\<close>, the memory backend is a map from paths
  and keys to values: in every state reached by its operations, a read returns
  the entry, a write and a deletion change exactly the named entry, clearing a context empties it and keeps the others,
  and clearing it with its sub-contexts removes exactly the entries whose path starts with it.\<close>

theorem storage_refines_map:
  assumes "memory_ok s" and "wf_path c" and "wf_key k"
  shows "sb_get s c k = Inr (memory_view s c k) \<and>
    (\<exists>s'. sb_set s c k v = (s', Inr ()) \<and> memory_ok s' \<and> memory_view s' = put c k v (memory_view s)) \<and>
    (\<exists>s'. sb_delete s c k = (s', Inr ()) \<and> memory_ok s' \<and> memory_view s' = put c k None (memory_view s)) \<and>
    (\<exists>s'. sc_clear memory_storage s c = (s', Inr ()) \<and> memory_ok s' \<and>
      memory_view s' = (\<lambda>c' k. if c' = c then None else memory_view s c' k)) \<and>
    (\<exists>s'. sb_clearAll s c = (s', Inr ()) \<and> memory_ok s' \<and> memory_view s' = drop_below c (memory_view s))"
  using memory.get [OF assms] memory.set [OF assms] memory.delete [OF assms(1,2) wf_key_nonempty [OF assms(3)]] memory.clear_view [OF assms(1,2)]
    memory.clearAll [OF assms(1,2)] by simp

text \<open>Two contexts, one below the other, and the key \<open>k\<close>.\<close>

theorem storage_refines_map_witness:
  "sb_get (create_memory [(js_text ''a.b'', [(js_text ''k'', Some (1 :: nat))])]) [js_text ''a'', js_text ''b''] (js_text ''k'') =
     Inr (Some 1) \<and>
   (\<exists>s'. sb_clearAll (create_memory [(js_text ''a.b'', [(js_text ''k'', Some (1 :: nat))])]) [js_text ''a''] = (s', Inr ()) \<and>
      memory_view s' [js_text ''a'', js_text ''b''] (js_text ''k'') = None)"
proof -
  let ?s = "create_memory [(js_text ''a.b'', [(js_text ''k'', Some (1 :: nat))])]"
  let ?ab = "[js_text ''a'', js_text ''b'']" and ?k = "js_text ''k''"
  have ok: "memory_ok ?s" by (simp add: memory_ok_def create_memory_def sb_initialize_def js_text_def wf_path_def proper_path_def
        object_prototype_def proto_name_def)
  have wf: "wf_path ?ab" "wf_path [js_text ''a'']" "wf_key ?k"
    by (simp_all add: wf_path_def proper_path_def wf_key_def object_prototype_def proto_name_def js_text_def)
  have "memory_view ?s ?ab ?k = Some 1"
    using wf by (simp add: memory_view_def own_value_def create_memory_def sb_initialize_def js_text_def)
  with storage_refines_map [OF ok wf(1,3)] have "sb_get ?s ?ab ?k = Inr (Some 1)" by simp
  moreover obtain s' where "sb_clearAll ?s [js_text ''a''] = (s', Inr ())"
      "memory_view s' = drop_below [js_text ''a''] (memory_view ?s)"
    using storage_refines_map [OF ok wf(2,3)] by blast
  ultimately show ?thesis by (simp add: drop_below_def)
qed

text \<open>A key like \<^verbatim>\<open>constructor\<close> that was never stored in a context is not undefined there.\<close>

theorem inherited_member_read:
  assumes "memory_ok s" and "wf_path c" and "map_of (sb_store s) (js_join 46 c) = Some obj" and "k \<in> set object_prototype" and "map_of obj k = None"
  shows "sb_get s c k = Inl ObjectPrototypeMember"
proof -
  have "k \<noteq> []" using assms(4) by (auto simp: object_prototype_def proto_name_def js_text_def)
  with assms show ?thesis
    by (simp add: sb_get_def memory_ok_def createContextKey_path wf_path_def proper_path_def lookup_def inherited_def)
qed

theorem inherited_member_read_witness:
  "sb_get (create_memory [(js_text ''a'', [(js_text ''k'', Some (1 :: nat))])]) [js_text ''a''] (js_text ''constructor'') =
     Inl ObjectPrototypeMember"
  by (rule inherited_member_read [where obj = "[(js_text ''k'', Some 1)]"])
    (simp_all add: memory_ok_def create_memory_def sb_initialize_def js_text_def wf_path_def proper_path_def object_prototype_def proto_name_def)

section \<open>Listing the sub-contexts\<close>

lemma found_contexts_fold:
  "set (fold (\<lambda>key found. if P key then let x = f key in if x \<in> set found then found else found @ [x] else found) keys found) =
   set found \<union> f ` {key \<in> set keys. P key}"
  by (induction keys arbitrary: found) (auto simp: Let_def)

definition stored_paths :: "'v StorageBackendMemory \<Rightarrow> path set" where
  "stored_paths s = {c. wf_path c \<and> js_join 46 c \<in> fst ` set (sb_store s)}"

lemma first_below:
  assumes "proper_path c" "proper_path (c @ x # xs)"
  shows "hd (js_split 46 (drop (length (js_join 46 c @ [46])) (js_join 46 (c @ x # xs)))) = x"
proof -
  have "js_join 46 (c @ x # xs) = (js_join 46 c @ [46]) @ js_join 46 (x # xs)"
    using assms(1) by (simp add: js_join_append proper_path_def)
  moreover have "js_split 46 (js_join 46 (x # xs)) = x # xs"
    using assms(2) by (intro split_path) (simp add: proper_path_def)
  ultimately show ?thesis by simp
qed

text \<open>The sub-contexts listed for a context are exactly the names that follow it in the path of some stored context, at
  whatever depth.\<close>

theorem contexts_exact:
  assumes "memory_ok s" and "wf_path c"
  shows "\<exists>xs. sb_contexts s c = Inr xs \<and> set xs = {x. \<exists>rest. c @ x # rest \<in> stored_paths s}"
proof -
  let ?ck = "js_join 46 c" and ?ks = "object_keys (sb_store s)"
  let ?start = "?ck @ [46]"
  have ne: "?ck \<noteq> []" using createContextKey_path [OF wf_proper [OF assms(2)]] by (auto simp: createContextKey_def Let_def split: if_splits)
  have res: "sb_contexts s c = Inr (found_contexts ?start ?ks)"
    using assms ne by (simp add: sb_contexts_def memory_ok_def createContextKey_path wf_path_def proper_path_def Let_def)
  have "set (found_contexts ?start ?ks) =
      (\<lambda>key. hd (js_split 46 (drop (length ?start) key))) ` {key \<in> fst ` set (sb_store s). take (length ?start) key = ?start}"
    unfolding found_contexts_def found_contexts_fold by simp
  also have "\<dots> = {x. \<exists>rest. c @ x # rest \<in> stored_paths s}" (is "?l = ?r")
  proof (intro set_eqI iffI)
    fix x
    assume "x \<in> ?l"
    then obtain key where key: "key \<in> fst ` set (sb_store s)" "take (length ?start) key = ?start"
        "x = hd (js_split 46 (drop (length ?start) key))" by blast
    define d where "d = js_split 46 key"
    have d: "wf_path d" "key = js_join 46 d"
      using key(1) assms(1) by (auto simp: d_def memory_ok_def js_join_split)
    then have "strict_prefix c d" using key(2) path_prefix [OF wf_proper [OF assms(2)], of d] by simp
    then obtain y ys where y: "d = c @ y # ys" by (auto elim: strict_prefixE')
    with d key(3) first_below [OF wf_proper [OF assms(2)], of y ys] have "x = y" by simp
    with y d key(1) show "x \<in> ?r" by (auto simp: stored_paths_def)
  next
    fix x
    assume "x \<in> ?r"
    then obtain xs where xs: "wf_path (c @ x # xs)" "js_join 46 (c @ x # xs) \<in> fst ` set (sb_store s)"
      by (auto simp: stored_paths_def)
    have "take (length ?start) (js_join 46 (c @ x # xs)) = ?start"
      using path_prefix [OF wf_proper [OF assms(2)] wf_proper [OF xs(1)]] by (simp add: strict_prefix_def)
    with xs(2) first_below [OF wf_proper [OF assms(2)] wf_proper [OF xs(1)]] show "x \<in> ?l" by (metis (mono_tags, lifting) image_eqI mem_Collect_eq)
  qed
  finally show ?thesis using res by blast
qed

theorem contexts_exact_witness:
  "\<exists>xs. sb_contexts (create_memory [(js_text ''a.b.c'', [(js_text ''k'', Some (1 :: nat))])]) [js_text ''a''] = Inr xs \<and>
     js_text ''b'' \<in> set xs"
proof -
  let ?s = "create_memory [(js_text ''a.b.c'', [(js_text ''k'', Some (1 :: nat))])]"
  have "memory_ok ?s" "wf_path [js_text ''a'']"
    by (simp_all add: memory_ok_def create_memory_def sb_initialize_def js_text_def wf_path_def proper_path_def
        object_prototype_def proto_name_def)
  from contexts_exact [OF this] obtain xs where
    xs: "sb_contexts ?s [js_text ''a''] = Inr xs" "set xs = {x. \<exists>rest. [js_text ''a''] @ x # rest \<in> stored_paths ?s}" by blast
  have "[js_text ''a''] @ js_text ''b'' # [js_text ''c''] \<in> stored_paths ?s"
    by (simp add: stored_paths_def create_memory_def sb_initialize_def js_text_def wf_path_def proper_path_def
        object_prototype_def proto_name_def)
  with xs show ?thesis by blast
qed

end
