(* ===== verification/SessionManager.thy ===== *)
theory SessionManager
  imports SecureSession BasicSet StorageLaws
begin

text \<open>
  The bookkeeping of sessions, \<^verbatim>\<open>session/SessionManager.ts\<close>.  Secure sessions are objects, found by a reference in
  \<open>mg_objects\<close>; the set of sessions holds references and is indexed by session id.  The maps by node id are
  association lists in order of insertion.  Time, random numbers and key derivation are arguments; the storage is any
  implementation of the interface \<^verbatim>\<open>Storage\<close>.  Asynchronous operations are taken as run to their end.
\<close>

definition UNICAST_UNSECURE_SESSION_ID :: int where "UNICAST_UNSECURE_SESSION_ID = 0"

record ResumptionRecord =
  rr_sharedSecret :: "byte list"
  rr_resumptionId :: "byte list"
  rr_fabric :: Fabric
  rr_peerNodeId :: int
  rr_sessionParameters :: SessionParameters

record ResumptionStorageRecord =
  rs_nodeId :: int
  rs_sharedSecret :: "byte list"
  rs_resumptionId :: "byte list"
  rs_fabricId :: int
  rs_peerNodeId :: int
  rs_sessionParameters :: SessionParameters

record SessionManager =
  mg_insecureSessions :: "(int \<times> InsecureSession) list"
  mg_sessions :: "(nat, int) BasicSet"
  mg_objects :: "nat \<Rightarrow> SecureSession"
  mg_nextRef :: nat
  mg_nextSessionId :: int
  mg_resumptionRecords :: "(int \<times> ResumptionRecord) list"
  mg_globalUnencryptedMessageCounter :: MessageCounter

text \<open>References from \<open>mg_nextRef\<close> on are not allocated; what \<open>mg_objects\<close> holds there is never read.\<close>

definition new_SessionManager :: "int \<Rightarrow> int \<Rightarrow> SessionManager" where
  "new_SessionManager randomUInt16 randomUInt32 =
     \<lparr>mg_insecureSessions = [], mg_sessions = bs_empty, mg_objects = (\<lambda>_. new_SecureSession 0 0 None 0 None 0 0 [] [] []), mg_nextRef = 0,
      mg_nextSessionId = randomUInt16, mg_resumptionRecords = [],
      mg_globalUnencryptedMessageCounter = new_MessageCounter randomUInt32 False ROLLOVER_INFO_DIFFERENCE\<rparr>"

section \<open>Sessions\<close>

text \<open>Session ids never change, so they serve as the indexed field.\<close>

definition id_of :: "SessionManager \<Rightarrow> nat \<Rightarrow> int option" where
  "id_of m ref = Some (ss_id (mg_objects m ref))"

definition getSession :: "int \<Rightarrow> SessionManager \<Rightarrow> nat option \<times> SessionManager" where
  "getSession sessionId m =
     (let (found, sessions) = bs_get (id_of m) sessionId (mg_sessions m)
      in (found, m\<lparr>mg_sessions := sessions\<rparr>))"

definition remove_ref :: "nat \<Rightarrow> SessionManager \<Rightarrow> SessionManager" where
  "remove_ref ref m = m\<lparr>mg_sessions := snd (bs_delete (id_of m) ref (mg_sessions m))\<rparr>"

text \<open>\<^verbatim>\<open>createUnsecureSession\<close>: the node id is the given one, or the first random one that is not in use.\<close>

fun unused_node :: "(int \<times> 'a) list \<Rightarrow> int list \<Rightarrow> int result" where
  "unused_node sessions [] = Inl OutOfFuel"
| "unused_node sessions (n # ns) = (if n \<in> fst ` set sessions then unused_node sessions ns else Inr n)"

definition createUnsecureSession ::
  "int \<Rightarrow> int list \<Rightarrow> int option \<Rightarrow> SessionParameterOptions option \<Rightarrow> bool \<Rightarrow> SessionManager \<Rightarrow> (int \<times> SessionManager) result" where
  "createUnsecureSession now randomNodeIds initiatorNodeId opts isInitiator m =
     (case initiatorNodeId of
        Some n \<Rightarrow>
          if n \<in> fst ` set (mg_insecureSessions m) then Inl MatterFlowError
          else Inr (n, m\<lparr>mg_insecureSessions :=
                 AList.update n (new_InsecureSession now opts (Some n) isInitiator n (mg_nextRef m)) (mg_insecureSessions m),
               mg_nextRef := mg_nextRef m + 1\<rparr>)
      | None \<Rightarrow>
          rbind (unused_node (mg_insecureSessions m) randomNodeIds) (\<lambda>n.
            Inr (n, m\<lparr>mg_insecureSessions :=
              AList.update n (new_InsecureSession now opts None isInitiator n (mg_nextRef m)) (mg_insecureSessions m),
              mg_nextRef := mg_nextRef m + 1\<rparr>)))"

definition end_insecure :: "int \<Rightarrow> SessionManager \<Rightarrow> SessionManager" where
  "end_insecure nodeId m = m\<lparr>mg_insecureSessions := AList.delete nodeId (mg_insecureSessions m)\<rparr>"

definition createSecureSession ::
  "(byte list \<Rightarrow> byte list \<Rightarrow> byte list \<Rightarrow> nat \<Rightarrow> byte list) \<Rightarrow> int \<Rightarrow> int \<Rightarrow> SessionParameterOptions option \<Rightarrow> int \<Rightarrow>
   Fabric option \<Rightarrow> int \<Rightarrow> int \<Rightarrow> byte list \<Rightarrow> byte list \<Rightarrow> bool \<Rightarrow> bool \<Rightarrow> SessionManager \<Rightarrow> nat \<times> SessionManager" where
  "createSecureSession hkdf now randomUInt32 opts sessionId fabric peerNodeId peerSessionId sharedSecret salt isInitiator isResumption m =
     (let session = create_session hkdf now randomUInt32 opts sessionId fabric peerNodeId peerSessionId sharedSecret salt isInitiator isResumption;
          ref = mg_nextRef m;
          m = m\<lparr>mg_objects := (mg_objects m)(ref := session), mg_nextRef := ref + 1\<rparr>
      in (ref, m\<lparr>mg_sessions := bs_add (id_of m) ref (mg_sessions m)\<rparr>))"

definition removeSession :: "int \<Rightarrow> SessionManager \<Rightarrow> SessionManager" where
  "removeSession sessionId m =
     (case getSession sessionId m of
        (None, m) \<Rightarrow> m
      | (Some ref, m) \<Rightarrow> remove_ref ref m)"

text \<open>The session that ends: its subscriptions are cleared and the close callback takes it off the set.\<close>

definition end_ref :: "bool \<Rightarrow> bool \<Rightarrow> nat \<Rightarrow> SessionManager \<Rightarrow> SessionManager" where
  "end_ref sendClose closeAfterExchangeFinished ref m =
     (let ((session, _), callback) = end_session sendClose closeAfterExchangeFinished (mg_objects m ref, []);
          m = m\<lparr>mg_objects := (mg_objects m)(ref := session)\<rparr>
      in if callback then remove_ref ref m else m)"

definition destroy_ref :: "bool \<Rightarrow> bool \<Rightarrow> nat \<Rightarrow> SessionManager \<Rightarrow> SessionManager" where
  "destroy_ref sendClose closeAfterExchangeFinished ref m =
     (let ((session, _), callback) = destroy_session sendClose closeAfterExchangeFinished (mg_objects m ref, []);
          m = m\<lparr>mg_objects := (mg_objects m)(ref := session)\<rparr>
      in if callback then remove_ref ref m else m)"

definition older :: "(nat \<Rightarrow> SecureSession) \<Rightarrow> nat \<Rightarrow> nat option \<Rightarrow> nat option" where
  "older objects ref old =
     (case old of
        None \<Rightarrow> Some ref
      | Some r \<Rightarrow> if s_activeTimestamp (objects ref) < s_activeTimestamp (objects r) then Some ref else old)"

definition oldest :: "(nat \<Rightarrow> SecureSession) \<Rightarrow> nat list \<Rightarrow> nat option" where
  "oldest objects refs = fold (older objects) refs None"

definition findOldestInactiveSession :: "SessionManager \<Rightarrow> nat result" where
  "findOldestInactiveSession m =
     (case oldest (mg_objects m) (bs_entries (mg_sessions m)) of None \<Rightarrow> Inl MatterFlowError | Some ref \<Rightarrow> Inr ref)"

definition advance_id :: "int \<Rightarrow> int" where
  "advance_id n = (let n = js_and (n + 1) 0xffff in if n = 0 then n + 1 else n)"

fun next_id_loop :: "nat \<Rightarrow> SessionManager \<Rightarrow> int option \<times> SessionManager" where
  "next_id_loop 0 m = (None, m)"
| "next_id_loop (Suc i) m =
     (let n = mg_nextSessionId m;
          m = m\<lparr>mg_nextSessionId := advance_id n\<rparr>
      in case getSession n m of
           (None, m) \<Rightarrow> (Some n, m)
         | (Some _, m) \<Rightarrow> next_id_loop i m)"

definition getNextAvailableSessionId :: "SessionManager \<Rightarrow> int result \<times> SessionManager" where
  "getNextAvailableSessionId m =
     (case next_id_loop 0xffff m of
        (Some n, m) \<Rightarrow> (Inr n, m)
      | (None, m) \<Rightarrow>
          (case findOldestInactiveSession m of
             Inl e \<Rightarrow> (Inl e, m)
           | Inr ref \<Rightarrow>
               let sid = ss_id (mg_objects m ref);
                   m = end_ref True False ref m
               in (Inr sid, m\<lparr>mg_nextSessionId := sid + 1\<rparr>)))"

definition getPaseSession :: "SessionManager \<Rightarrow> nat option" where
  "getPaseSession m =
     find (\<lambda>ref. isPase (mg_objects m ref) \<and> \<not> ss_closingAfterExchangeFinished (mg_objects m ref)) (bs_entries (mg_sessions m))"

definition getSessionForNode :: "Fabric \<Rightarrow> int \<Rightarrow> SessionManager \<Rightarrow> nat option" where
  "getSessionForNode fabric nodeId m =
     find (\<lambda>ref. map_option fa_fabricId (ss_fabric (mg_objects m ref)) = Some (fa_fabricId fabric) \<and>
                ss_peerNodeId (mg_objects m ref) = nodeId) (bs_entries (mg_sessions m))"

text \<open>Deleting an item of a set while it is iterated over does not disturb the iteration.\<close>

definition removeAllSessionsForNode :: "int \<Rightarrow> bool \<Rightarrow> SessionManager \<Rightarrow> SessionManager" where
  "removeAllSessionsForNode nodeId sendClose m =
     fold (\<lambda>ref m. if ss_peerNodeId (mg_objects m ref) = nodeId then destroy_ref sendClose False ref m else m)
       (bs_entries (mg_sessions m)) m"

definition getUnsecureSession :: "int option \<Rightarrow> SessionManager \<Rightarrow> InsecureSession option" where
  "getUnsecureSession sourceNodeId m =
     map_of (mg_insecureSessions m) (case sourceNodeId of None \<Rightarrow> UNSPECIFIED_NODE_ID | Some n \<Rightarrow> n)"

definition findGroupSession :: "int \<Rightarrow> int \<Rightarrow> unit result" where
  "findGroupSession groupId groupSessionId = Inl PlainError"

section \<open>Resumption records\<close>

definition findResumptionRecordById :: "byte list \<Rightarrow> SessionManager \<Rightarrow> ResumptionRecord option" where
  "findResumptionRecordById resumptionId m =
     find (\<lambda>record. byte_equals (rr_resumptionId record) resumptionId) (map snd (mg_resumptionRecords m))"

definition findResumptionRecordByNodeId :: "int \<Rightarrow> SessionManager \<Rightarrow> ResumptionRecord option" where
  "findResumptionRecordByNodeId nodeId m = map_of (mg_resumptionRecords m) nodeId"

definition stored_record :: "int \<times> ResumptionRecord \<Rightarrow> ResumptionStorageRecord" where
  "stored_record = (\<lambda>(nodeId, r).
     \<lparr>rs_nodeId = nodeId, rs_sharedSecret = rr_sharedSecret r, rs_resumptionId = rr_resumptionId r,
      rs_fabricId = fa_fabricId (rr_fabric r), rs_peerNodeId = rr_peerNodeId r,
      rs_sessionParameters = rr_sessionParameters r\<rparr>)"

type_synonym 's session_storage = "('s, ResumptionStorageRecord list) Storage"

definition records_key :: jsstring where "records_key = js_text ''resumptionRecords''"

definition storeResumptionRecords :: "'s session_storage \<Rightarrow> path \<Rightarrow> SessionManager \<Rightarrow> 's \<Rightarrow> 's \<times> unit result" where
  "storeResumptionRecords st here m s =
     sc_set st s here records_key (Some (map stored_record (mg_resumptionRecords m)))"

definition saveResumptionRecord ::
  "'s session_storage \<Rightarrow> path \<Rightarrow> ResumptionRecord \<Rightarrow> SessionManager \<Rightarrow> 's \<Rightarrow> SessionManager \<times> 's \<times> unit result" where
  "saveResumptionRecord st here r m s =
     (let m = m\<lparr>mg_resumptionRecords := AList.update (rr_peerNodeId r) r (mg_resumptionRecords m)\<rparr>
      in (m, storeResumptionRecords st here m s))"

definition removeResumptionRecord ::
  "'s session_storage \<Rightarrow> path \<Rightarrow> int \<Rightarrow> SessionManager \<Rightarrow> 's \<Rightarrow> SessionManager \<times> 's \<times> unit result" where
  "removeResumptionRecord st here peerNodeId m s =
     (let m = m\<lparr>mg_resumptionRecords := AList.delete peerNodeId (mg_resumptionRecords m)\<rparr>
      in (m, storeResumptionRecords st here m s))"

definition updateFabricForResumptionRecords ::
  "'s session_storage \<Rightarrow> path \<Rightarrow> Fabric \<Rightarrow> SessionManager \<Rightarrow> 's \<Rightarrow> SessionManager \<times> 's \<times> unit result" where
  "updateFabricForResumptionRecords st here fabric m s =
     (case map_of (mg_resumptionRecords m) (fa_rootNodeId fabric) of
        None \<Rightarrow> (m, s, Inl MatterFlowError)
      | Some record \<Rightarrow>
          let m = m\<lparr>mg_resumptionRecords :=
                AList.update (fa_rootNodeId fabric) (record\<lparr>rr_fabric := fabric\<rparr>) (mg_resumptionRecords m)\<rparr>
          in (m, storeResumptionRecords st here m s))"

definition restore_record :: "Fabric list \<Rightarrow> ResumptionStorageRecord \<Rightarrow> SessionManager \<Rightarrow> SessionManager" where
  "restore_record fabrics r m =
     (case find (\<lambda>f. fa_fabricId f = rs_fabricId r) fabrics of
        None \<Rightarrow> m
      | Some fabric \<Rightarrow>
          m\<lparr>mg_resumptionRecords := AList.update (rs_nodeId r)
             \<lparr>rr_sharedSecret = rs_sharedSecret r, rr_resumptionId = rs_resumptionId r, rr_fabric = fabric,
              rr_peerNodeId = rs_peerNodeId r, rr_sessionParameters = rs_sessionParameters r\<rparr> (mg_resumptionRecords m)\<rparr>)"

definition initFromStorage :: "'s session_storage \<Rightarrow> path \<Rightarrow> Fabric list \<Rightarrow> SessionManager \<Rightarrow> 's \<Rightarrow> SessionManager result" where
  "initFromStorage st here fabrics m s =
     rbind (sc_get st s here records_key (Some [])) (\<lambda>stored. Inr (fold (restore_record fabrics) stored m))"

definition close_manager :: "'s session_storage \<Rightarrow> path \<Rightarrow> SessionManager \<Rightarrow> 's \<Rightarrow> SessionManager \<times> 's \<times> unit result" where
  "close_manager st here m s =
     (case storeResumptionRecords st here m s of
        (s, Inl e) \<Rightarrow> (m, s, Inl e)
      | (s, Inr _) \<Rightarrow>
          let m = fold (\<lambda>ref m. remove_ref ref (end_ref False False ref m)) (bs_entries (mg_sessions m)) m;
              m = fold (\<lambda>(nodeId, _) m. end_insecure nodeId m) (mg_insecureSessions m) m
          in (m, s, Inr ()))"

end
