(* ===== verification/SessionLaws.thy ===== *)
theory SessionLaws
  imports SessionManager
begin

unbundle bit_operations_syntax

text \<open>
  What the session manager promises: session ids are handed out so that no two sessions share one, a free id is
  found whenever there is one, and otherwise the least recently active session gives up its id; resumption records
  survive a restart.  And where it fails: the first id may be the one reserved for unsecured messages, and
  after the last id has been reused an id of seventeen bits is handed out.
\<close>

section \<open>The set of sessions\<close>

definition manager_ok :: "SessionManager \<Rightarrow> bool" where
  "manager_ok m \<longleftrightarrow> bs_ok (id_of m) (mg_sessions m) \<and> (\<forall>ref \<in> set (bs_entries (mg_sessions m)). ref < mg_nextRef m)"

definition used_ids :: "SessionManager \<Rightarrow> int set" where
  "used_ids m = (\<lambda>ref. ss_id (mg_objects m ref)) ` set (bs_entries (mg_sessions m))"

lemma manager_ok_new [inv_intros]: "manager_ok (new_SessionManager n rnd)"
  by (simp add: manager_ok_def new_SessionManager_def bs_ok_empty) (simp add: bs_empty_def)

lemma id_of_simps [simp]: "id_of (m\<lparr>mg_sessions := x\<rparr>) = id_of m" "id_of (m\<lparr>mg_nextSessionId := n\<rparr>) = id_of m"
  by (simp_all add: id_of_def fun_eq_iff)

lemma getSession_ok:
  assumes "manager_ok m" and "getSession n m = (found, m')"
  shows "manager_ok m'" and "mg_objects m' = mg_objects m" and "mg_nextSessionId m' = mg_nextSessionId m"
    and "bs_entries (mg_sessions m') = bs_entries (mg_sessions m)" and "used_ids m' = used_ids m"
    and "found = None \<longleftrightarrow> n \<notin> used_ids m"
    and "found = Some ref \<Longrightarrow> ref \<in> set (bs_entries (mg_sessions m)) \<and> ss_id (mg_objects m ref) = n"
proof -
  obtain b where b: "bs_get (id_of m) n (mg_sessions m) = (found, b)" "m' = m\<lparr>mg_sessions := b\<rparr>"
    using assms(2) by (auto simp: getSession_def split: prod.splits)
  have bo: "bs_ok (id_of m) (mg_sessions m)" using assms(1) by (simp add: manager_ok_def)
  note g = bs_get_ok [OF bo, of n]
  have e: "bs_ok (id_of m) b" "bs_entries b = bs_entries (mg_sessions m)" using g(3,4) b(1) by simp_all
  show "manager_ok m'" "mg_objects m' = mg_objects m" "mg_nextSessionId m' = mg_nextSessionId m"
    "bs_entries (mg_sessions m') = bs_entries (mg_sessions m)" "used_ids m' = used_ids m"
    using assms(1) e b(2) by (simp_all add: manager_ok_def used_ids_def)
  show "found = None \<longleftrightarrow> n \<notin> used_ids m"
    using g(2) b(1) by (auto simp: used_ids_def id_of_def)
  show "found = Some ref \<Longrightarrow> ref \<in> set (bs_entries (mg_sessions m)) \<and> ss_id (mg_objects m ref) = n"
    using g(1) b(1) by (auto simp: id_of_def)
qed

lemma manager_ok_remove [inv_intros]: "manager_ok m \<Longrightarrow> manager_ok (remove_ref ref m)"
  using bs_ok_delete [of "id_of m" "mg_sessions m" ref]
  by (auto simp: manager_ok_def remove_ref_def bs_delete_def)

lemma remove_ref_entries:
  "bs_entries (mg_sessions (remove_ref ref m)) = removeAll ref (bs_entries (mg_sessions m))"
  "mg_objects (remove_ref ref m) = mg_objects m"
  by (auto simp: remove_ref_def bs_delete_def bs_has_def)

text \<open>Ending a session leaves its id and all other sessions.\<close>

lemma cancel_id [simp]: "ss_id (fst (cancel_subscription f x w)) = ss_id (fst w)"
  by (cases w) (simp add: cancel_subscription_def removeSubscription_def)

lemma clear_loop_id [simp]: "ss_id (fst (clear_loop flush i w)) = ss_id (fst w)"
proof (induction flush i w rule: clear_loop.induct)
  case (1 flush i s cancelled)
  then show ?case by (subst clear_loop.simps) (auto simp del: clear_loop.simps)
qed

lemma clearSubscriptions_id [simp]: "ss_id (fst (clearSubscriptions flush w)) = ss_id (fst w)"
  by (simp add: clearSubscriptions_def case_prod_unfold Let_def)

lemma end_session_id [simp]: "ss_id (fst (fst (end_session a b w))) = ss_id (fst w)"
  by (simp add: end_session_def destroy_session_def case_prod_unfold Let_def)

lemma end_session_callback [simp]: "snd (end_session a b w) \<longleftrightarrow> \<not> b"
  by (simp add: end_session_def destroy_session_def case_prod_unfold Let_def)

lemma id_of_update:
  assumes "ss_id s = ss_id (mg_objects m ref)"
  shows "id_of (m\<lparr>mg_objects := (mg_objects m)(ref := s)\<rparr>) = id_of m"
  using assms by (auto simp: id_of_def fun_eq_iff)

lemma end_ref_ok:
  assumes "manager_ok m"
  shows "manager_ok (end_ref sendClose False ref m)"
    and "bs_entries (mg_sessions (end_ref sendClose False ref m)) = removeAll ref (bs_entries (mg_sessions m))"
    and "ss_id (mg_objects (end_ref sendClose False ref m) r) = ss_id (mg_objects m r)"
proof -
  let ?s = "fst (fst (end_session sendClose False (mg_objects m ref, [])))"
  let ?m = "m\<lparr>mg_objects := (mg_objects m)(ref := ?s)\<rparr>"
  have e: "end_ref sendClose False ref m = remove_ref ref ?m"
    by (simp add: end_ref_def case_prod_unfold Let_def)
  have "manager_ok ?m" using assms id_of_update [of ?s m ref] by (simp add: manager_ok_def)
  then show "manager_ok (end_ref sendClose False ref m)" unfolding e by (rule manager_ok_remove)
  show "bs_entries (mg_sessions (end_ref sendClose False ref m)) = removeAll ref (bs_entries (mg_sessions m))"
    "ss_id (mg_objects (end_ref sendClose False ref m) r) = ss_id (mg_objects m r)"
    unfolding e remove_ref_entries by simp_all
qed

section \<open>The cycle of session ids\<close>

lemma advance_id_eq: "0 \<le> n \<Longrightarrow> n \<le> 0xffff \<Longrightarrow> advance_id n = n mod 0xffff + 1"
proof -
  assume n: "0 \<le> n" "n \<le> 0xffff"
  have "(0xffff :: int) = mask 16" by (simp add: mask_eq_exp_minus_1)
  then have "js_and (n + 1) 0xffff = take_bit 16 (n + 1)"
    using n by (simp add: js_and_small take_bit_eq_mask)
  then have "js_and (n + 1) 0xffff = (n + 1) mod 0x10000" by (simp add: take_bit_eq_mod)
  with n show ?thesis
    by (cases "n = 0xffff") (auto simp: advance_id_def Let_def mod_pos_pos_trivial)
qed

lemma advance_cycle:
  assumes "1 \<le> n" "n \<le> 0xffff"
  shows "(advance_id ^^ j) n = (n - 1 + int j) mod 0xffff + 1"
proof (induction j)
  case (Suc j)
  have "(advance_id ^^ Suc j) n = advance_id ((n - 1 + int j) mod 0xffff + 1)" using Suc by simp
  also have "\<dots> = ((n - 1 + int j) mod 0xffff + 1) mod 0xffff + 1" by (rule advance_id_eq) simp_all
  also have "\<dots> = (n - 1 + int (Suc j)) mod 0xffff + 1" by (simp add: mod_simps algebra_simps)
  finally show ?case .
qed (use assms in \<open>simp add: mod_pos_pos_trivial\<close>)

text \<open>Sixty-five thousand five hundred thirty-five steps visit every id.\<close>

lemma advance_visits:
  assumes "1 \<le> n" "n \<le> 0xffff" "1 \<le> f" "f \<le> 0xffff"
  shows "\<exists>j < 0xffff. (advance_id ^^ j) n = f"
proof -
  let ?j = "nat ((f - n) mod 0xffff)"
  have "(n - 1 + (f - n) mod 0xffff) mod 0xffff = (f - 1) mod 0xffff" by (simp add: mod_simps)
  also have "\<dots> = f - 1" using assms by (simp add: mod_pos_pos_trivial)
  finally have "(advance_id ^^ ?j) n = f" using advance_cycle [OF assms(1,2), of ?j] by simp
  moreover have "?j < 0xffff" by (simp add: nat_less_iff)
  ultimately show ?thesis by blast
qed

lemma next_id_loop_ok:
  assumes "manager_ok m" and "next_id_loop i m = (r, m')"
  shows "manager_ok m' \<and> mg_objects m' = mg_objects m \<and> bs_entries (mg_sessions m') = bs_entries (mg_sessions m) \<and>
    (case r of
       None \<Rightarrow> (\<forall>j < i. (advance_id ^^ j) (mg_nextSessionId m) \<in> used_ids m)
     | Some n \<Rightarrow> n \<notin> used_ids m \<and> (\<exists>j < i. n = (advance_id ^^ j) (mg_nextSessionId m) \<and>
         mg_nextSessionId m' = (advance_id ^^ Suc j) (mg_nextSessionId m)))"
  using assms
proof (induction i arbitrary: m)
  case (Suc i)
  let ?n = "mg_nextSessionId m"
  let ?m = "m\<lparr>mg_nextSessionId := advance_id ?n\<rparr>"
  obtain found m1 where g: "getSession ?n ?m = (found, m1)" by (cases "getSession ?n ?m")
  have ok: "manager_ok ?m" using Suc.prems(1) by (simp add: manager_ok_def)
  have u: "used_ids ?m = used_ids m" by (simp add: used_ids_def)
  note g1 = getSession_ok(1-6) [OF ok g]
  show ?case
  proof (cases found)
    case None
    then have "r = Some ?n" "m' = m1" using Suc.prems(2) g by simp_all
    with g1 None u show ?thesis by (auto intro!: exI [of _ 0])
  next
    case (Some ref)
    then have "next_id_loop i m1 = (r, m')" using Suc.prems(2) g by simp
    note IH = Suc.IH [OF g1(1) this]
    have n: "?n \<in> used_ids m" using g1(6) Some u by simp
    have adv: "(advance_id ^^ j) (advance_id ?n) = (advance_id ^^ Suc j) ?n" for j by (simp add: funpow_swap1)
    show ?thesis
    proof (cases r)
      case None
      have "(advance_id ^^ j) ?n \<in> used_ids m" if "j < Suc i" for j
        using that IH None g1 u n adv by (cases j) auto
      with None IH g1 show ?thesis by simp
    next
      case (Some k)
      then obtain j where "j < i" "k = (advance_id ^^ j) (advance_id ?n)"
          "mg_nextSessionId m' = (advance_id ^^ Suc j) (advance_id ?n)"
        using IH g1(3) by auto
      then have "Suc j < Suc i \<and> k = (advance_id ^^ Suc j) ?n \<and> mg_nextSessionId m' = (advance_id ^^ Suc (Suc j)) ?n"
        using adv by simp
      with Some IH g1 u show ?thesis by auto
    qed
  qed
qed simp

lemma oldest_in: "oldest objects refs = Some r \<Longrightarrow> r \<in> set refs"
  and oldest_None: "oldest objects refs = None \<longleftrightarrow> refs = []"
  and oldest_le: "oldest objects refs = Some r \<Longrightarrow> x \<in> set refs \<Longrightarrow> s_activeTimestamp (objects r) \<le> s_activeTimestamp (objects x)"
proof -
  have all: "case oldest objects refs of None \<Rightarrow> refs = []
    | Some r \<Rightarrow> r \<in> set refs \<and> (\<forall>x \<in> set refs. s_activeTimestamp (objects r) \<le> s_activeTimestamp (objects x))"
  proof (induction refs rule: rev_induct)
    case (snoc ref refs)
    have "oldest objects (refs @ [ref]) = older objects ref (oldest objects refs)" by (simp add: oldest_def)
    with snoc show ?case by (auto simp: older_def split: option.splits)
  qed (simp add: oldest_def)
  then show "oldest objects refs = Some r \<Longrightarrow> r \<in> set refs"
    "oldest objects refs = Some r \<Longrightarrow> x \<in> set refs \<Longrightarrow> s_activeTimestamp (objects r) \<le> s_activeTimestamp (objects x)"
    by auto
  show "oldest objects refs = None \<longleftrightarrow> refs = []"
    using all by (cases refs) (auto simp: oldest_def split: option.splits)
qed

text \<open>When all ids are taken the loop finds none and the oldest session gives up its id.\<close>

lemma all_taken:
  assumes "manager_ok m" and "{1..0xffff} \<subseteq> used_ids m" and "1 \<le> mg_nextSessionId m" and "mg_nextSessionId m \<le> 0xffff"
  obtains ref m1 where "oldest (mg_objects m) (bs_entries (mg_sessions m)) = Some ref" "manager_ok m1"
    "mg_objects m1 = mg_objects m" "bs_entries (mg_sessions m1) = bs_entries (mg_sessions m)"
    "getNextAvailableSessionId m = (Inr (ss_id (mg_objects m ref)),
       (end_ref True False ref m1)\<lparr>mg_nextSessionId := ss_id (mg_objects m ref) + 1\<rparr>)"
proof -
  obtain r m1 where l: "next_id_loop 0xffff m = (r, m1)" by (cases "next_id_loop 0xffff m")
  note L = next_id_loop_ok [OF assms(1) l]
  have "(advance_id ^^ j) (mg_nextSessionId m) \<in> used_ids m" for j
    using advance_cycle [OF assms(3,4), of j] by (intro subsetD [OF assms(2)]) simp
  then have r: "r = None" using L by (cases r) auto
  have "bs_entries (mg_sessions m) \<noteq> []" using assms(2) by (auto simp: used_ids_def)
  then obtain ref where ref: "oldest (mg_objects m) (bs_entries (mg_sessions m)) = Some ref"
    using oldest_None [of "mg_objects m" "bs_entries (mg_sessions m)"] by auto
  show thesis
  proof (rule that [OF ref, of m1])
    show "getNextAvailableSessionId m = (Inr (ss_id (mg_objects m ref)),
       (end_ref True False ref m1)\<lparr>mg_nextSessionId := ss_id (mg_objects m ref) + 1\<rparr>)"
      using l r ref L by (simp add: getNextAvailableSessionId_def findOldestInactiveSession_def Let_def)
  qed (use L in simp_all)
qed

lemma reuse_facts:
  assumes "manager_ok m" and "oldest (mg_objects m) (bs_entries (mg_sessions m)) = Some ref" and "manager_ok m1"
    and "mg_objects m1 = mg_objects m" and "bs_entries (mg_sessions m1) = bs_entries (mg_sessions m)"
    and "m' = (end_ref True False ref m1)\<lparr>mg_nextSessionId := n\<rparr>"
  shows "manager_ok m'" "bs_entries (mg_sessions m') = removeAll ref (bs_entries (mg_sessions m))"
    "used_ids m' = used_ids m - {ss_id (mg_objects m ref)}"
proof -
  note e = end_ref_ok [OF assms(3), of True ref]
  show "manager_ok m'" "bs_entries (mg_sessions m') = removeAll ref (bs_entries (mg_sessions m))"
    using e(1,2) assms(5) by (simp_all add: assms(6) manager_ok_def)
  moreover have "ss_id (mg_objects m' r) = ss_id (mg_objects m r)" for r using e(3) assms(4) by (simp add: assms(6))
  moreover have "r = ref" if "r \<in> set (bs_entries (mg_sessions m))" "ss_id (mg_objects m r) = ss_id (mg_objects m ref)" for r
    using assms(1) unique_valuesD [of "id_of m" "bs_entries (mg_sessions m)" r ref] that oldest_in [OF assms(2)]
    by (simp add: manager_ok_def bs_ok_def id_of_def)
  ultimately show "used_ids m' = used_ids m - {ss_id (mg_objects m ref)}" by (auto simp: used_ids_def)
qed

text \<open>C20. With a counter and session ids between 1 and 65535 a session id is always found.  It lies in that range and no remaining session has
  it.  While some id is free no session is touched; when all are taken exactly one session is ended, one that has been
  inactive longest, and its id is reused.\<close>

theorem next_session_id:
  assumes "manager_ok m" and "1 \<le> mg_nextSessionId m" and "mg_nextSessionId m \<le> 0xffff"
    and "used_ids m \<subseteq> {1..0xffff}" and "getNextAvailableSessionId m = (res, m')"
  shows "\<exists>n. res = Inr n \<and> 1 \<le> n \<and> n \<le> 0xffff \<and> n \<notin> used_ids m' \<and> manager_ok m' \<and>
    (if {1..0xffff} \<subseteq> used_ids m
     then \<exists>ref \<in> set (bs_entries (mg_sessions m)). ss_id (mg_objects m ref) = n \<and>
       (\<forall>r \<in> set (bs_entries (mg_sessions m)). s_activeTimestamp (mg_objects m ref) \<le> s_activeTimestamp (mg_objects m r)) \<and>
       bs_entries (mg_sessions m') = removeAll ref (bs_entries (mg_sessions m))
     else bs_entries (mg_sessions m') = bs_entries (mg_sessions m) \<and> mg_objects m' = mg_objects m)"
proof (cases "{1..0xffff} \<subseteq> used_ids m")
  case True
  obtain ref m1 where r: "oldest (mg_objects m) (bs_entries (mg_sessions m)) = Some ref" "manager_ok m1"
    "mg_objects m1 = mg_objects m" "bs_entries (mg_sessions m1) = bs_entries (mg_sessions m)"
    and g: "getNextAvailableSessionId m = (Inr (ss_id (mg_objects m ref)),
       (end_ref True False ref m1)\<lparr>mg_nextSessionId := ss_id (mg_objects m ref) + 1\<rparr>)"
    by (rule all_taken [OF assms(1) True assms(2,3)])
  have "ref \<in> set (bs_entries (mg_sessions m))" using oldest_in [OF r(1)] .
  moreover from this have "ss_id (mg_objects m ref) \<in> {1..0xffff}" using assms(4) by (auto simp: used_ids_def)
  moreover note reuse_facts [OF assms(1) r refl, of "ss_id (mg_objects m ref) + 1"] oldest_le [OF r(1)]
  ultimately show ?thesis using g assms(5) True by auto
next
  case False
  then obtain f where f: "1 \<le> f" "f \<le> 0xffff" "f \<notin> used_ids m" by (meson atLeastAtMost_iff subsetI)
  obtain r m1 where l: "next_id_loop 0xffff m = (r, m1)" by (cases "next_id_loop 0xffff m")
  note L = next_id_loop_ok [OF assms(1) l]
  obtain n where n: "r = Some n" using L f advance_visits [OF assms(2,3) f(1,2)] by (cases r) auto
  then have "n \<in> {1..0xffff}" using L advance_cycle [OF assms(2,3)] by auto
  with n L l False assms(5) show ?thesis by (auto simp: getNextAvailableSessionId_def used_ids_def)
qed

text \<open>A manager with one session, of id 5, and the counter standing at 5.\<close>

definition one_session :: SessionManager where
  "one_session = snd (createSecureSession (\<lambda>_ _ _ n. replicate n 0) 0 7 None 5 None 0 6 [] [] True False (new_SessionManager 5 7))"

lemma one_session_facts:
  "manager_ok one_session" "mg_nextSessionId one_session = 5" "used_ids one_session = {5}"
proof -
  have e: "bs_entries (mg_sessions one_session) = [0]" "mg_nextRef one_session = 1" "bs_index (mg_sessions one_session) = None"
    "ss_id (mg_objects one_session 0) = 5" "mg_nextSessionId one_session = 5"
    by (simp_all add: one_session_def createSecureSession_def new_SessionManager_def bs_empty_def bs_add_def bs_has_def
        create_session_def new_SecureSession_def Let_def Session.defs)
  then show "manager_ok one_session" "mg_nextSessionId one_session = 5" "used_ids one_session = {5}"
    by (simp_all add: manager_ok_def bs_ok_def unique_values_def used_ids_def)
qed

theorem next_session_id_witness:
  "\<exists>n m'. getNextAvailableSessionId one_session = (Inr n, m') \<and> n \<noteq> 5 \<and> 1 \<le> n \<and> n \<notin> used_ids m'"
proof -
  obtain res m' where r: "getNextAvailableSessionId one_session = (res, m')" by (cases "getNextAvailableSessionId one_session")
  have "1 \<in> {1..(0xffff :: int)}" "1 \<notin> used_ids one_session" using one_session_facts(3) by simp_all
  then have "\<not> {1..0xffff} \<subseteq> used_ids one_session" by blast
  with next_session_id [OF one_session_facts(1) _ _ _ r] one_session_facts obtain n where
    n: "res = Inr n" "1 \<le> n" "n \<notin> used_ids m'"
      "bs_entries (mg_sessions m') = bs_entries (mg_sessions one_session) \<and> mg_objects m' = mg_objects one_session"
    by auto
  then have "used_ids m' = {5}" using one_session_facts(3) by (simp add: used_ids_def)
  with n r show ?thesis by auto
qed

section \<open>Ids outside the range\<close>

lemma free_next_id:
  assumes "manager_ok m" "mg_nextSessionId m \<notin> used_ids m"
  shows "fst (getNextAvailableSessionId m) = Inr (mg_nextSessionId m)"
proof -
  let ?m = "m\<lparr>mg_nextSessionId := advance_id (mg_nextSessionId m)\<rparr>"
  obtain found m1 where g: "getSession (mg_nextSessionId m) ?m = (found, m1)" by (cases "getSession (mg_nextSessionId m) ?m")
  have "manager_ok ?m" "used_ids ?m = used_ids m" using assms(1) by (simp_all add: manager_ok_def used_ids_def)
  with getSession_ok(6) [OF _ g] assms(2) have "found = None" by simp
  moreover have "next_id_loop (Suc 0xfffe) m =
      (case getSession (mg_nextSessionId m) ?m of (None, m') \<Rightarrow> (Some (mg_nextSessionId m), m') | (Some _, m') \<Rightarrow> next_id_loop 0xfffe m')"
    by (simp only: next_id_loop.simps Let_def)
  ultimately show ?thesis using g by (simp add: getNextAvailableSessionId_def)
qed

text \<open>A manager whose random start is 0 hands out session id 0, the id reserved for unsecured messages.\<close>

lemma first_id_unsecured: "fst (getNextAvailableSessionId (new_SessionManager 0 rnd)) = Inr UNICAST_UNSECURE_SESSION_ID"
  using free_next_id [OF manager_ok_new [of 0]]
  by (simp add: new_SessionManager_def used_ids_def bs_empty_def UNICAST_UNSECURE_SESSION_ID_def)

text \<open>Once all ids are taken and the session that was inactive longest has given up the id 65535, the next id handed out is
  65536, which does not fit the sixteen bits of a packet header.\<close>

theorem session_id_overflow:
  assumes "manager_ok m" and "1 \<le> mg_nextSessionId m" and "mg_nextSessionId m \<le> 0xffff"
    and "used_ids m = {1..0xffff}" and "getNextAvailableSessionId m = (Inr 0xffff, m')"
  shows "fst (getNextAvailableSessionId m') = Inr 0x10000"
proof -
  obtain ref m1 where r: "oldest (mg_objects m) (bs_entries (mg_sessions m)) = Some ref" "manager_ok m1"
    "mg_objects m1 = mg_objects m" "bs_entries (mg_sessions m1) = bs_entries (mg_sessions m)"
    and g: "getNextAvailableSessionId m = (Inr (ss_id (mg_objects m ref)),
       (end_ref True False ref m1)\<lparr>mg_nextSessionId := ss_id (mg_objects m ref) + 1\<rparr>)"
    by (rule all_taken [OF assms(1) _ assms(2,3)]) (use assms(4) in auto)
  have m': "m' = (end_ref True False ref m1)\<lparr>mg_nextSessionId := ss_id (mg_objects m ref) + 1\<rparr>"
      "ss_id (mg_objects m ref) = 0xffff" using g assms(5) by simp_all
  note facts = reuse_facts [OF assms(1) r m'(1)]
  have "mg_nextSessionId m' = 0x10000" "0x10000 \<notin> used_ids m'" using m' facts(3) assms(4) by auto
  with free_next_id [OF facts(1)] show ?thesis by simp
qed

text \<open>Sixty-five thousand five hundred thirty-five sessions, of which the last has been inactive longest.\<close>

definition full_manager :: SessionManager where
  "full_manager = (new_SessionManager 1 7)\<lparr>
     mg_sessions := \<lparr>bs_entries = [0..<65535], bs_index = None\<rparr>,
     mg_objects := (\<lambda>ref. (mg_objects (new_SessionManager 1 7) ref)\<lparr>ss_id := int ref + 1,
       s_activeTimestamp := (if ref = 65534 then 0 else 1)\<rparr>), mg_nextRef := 65535\<rparr>"

lemma full_manager_facts:
  "manager_ok full_manager" "used_ids full_manager = {1..0xffff}" "mg_nextSessionId full_manager = 1"
  "oldest (mg_objects full_manager) (bs_entries (mg_sessions full_manager)) = Some 65534"
proof -
  show "manager_ok full_manager" "mg_nextSessionId full_manager = 1"
    by (auto simp: manager_ok_def full_manager_def bs_ok_def unique_values_def id_of_def new_SessionManager_def)
  have "(\<lambda>ref. int ref + 1) ` {0..<65535} = {1..0xffff}"
  proof (intro equalityI subsetI)
    fix x :: int
    assume "x \<in> {1..0xffff}"
    then show "x \<in> (\<lambda>ref. int ref + 1) ` {0..<65535}" by (intro image_eqI [of _ _ "nat (x - 1)"]) auto
  qed auto
  then show "used_ids full_manager = {1..0xffff}" by (simp add: used_ids_def full_manager_def)
  let ?o = "mg_objects full_manager" and ?l = "bs_entries (mg_sessions full_manager)"
  have mem: "65534 \<in> set ?l" by (simp add: full_manager_def)
  then obtain r where r: "oldest ?o ?l = Some r" using oldest_None [of ?o ?l] by (cases "oldest ?o ?l") auto
  have "s_activeTimestamp (?o r) \<le> s_activeTimestamp (?o 65534)" by (rule oldest_le [OF r mem])
  then have "r = 65534" by (simp add: full_manager_def split: if_splits)
  with r show "oldest ?o ?l = Some 65534" by simp
qed

theorem session_id_overflow_witness:
  "\<exists>m'. getNextAvailableSessionId full_manager = (Inr 0xffff, m') \<and> fst (getNextAvailableSessionId m') = Inr 0x10000"
proof -
  have u: "{1..0xffff} \<subseteq> used_ids full_manager" "1 \<le> mg_nextSessionId full_manager" "mg_nextSessionId full_manager \<le> 0xffff"
    using full_manager_facts(2,3) by simp_all
  obtain ref m1 where "oldest (mg_objects full_manager) (bs_entries (mg_sessions full_manager)) = Some ref"
    and g: "getNextAvailableSessionId full_manager = (Inr (ss_id (mg_objects full_manager ref)),
       (end_ref True False ref m1)\<lparr>mg_nextSessionId := ss_id (mg_objects full_manager ref) + 1\<rparr>)"
    by (rule all_taken [OF full_manager_facts(1) u])
  then have "ref = 65534" using full_manager_facts(4) by simp
  then have "ss_id (mg_objects full_manager ref) = 0xffff" by (simp add: full_manager_def)
  with g session_id_overflow [OF full_manager_facts(1) u(2,3) full_manager_facts(2)] show ?thesis by auto
qed

section \<open>Resumption records survive a restart\<close>

definition known :: "Fabric list \<Rightarrow> int \<times> ResumptionRecord \<Rightarrow> bool" where
  "known fabrics = (\<lambda>(_, r). fa_fabricId (rr_fabric r) \<in> fa_fabricId ` set fabrics)"

definition fabrics_agree :: "Fabric list \<Rightarrow> (int \<times> ResumptionRecord) list \<Rightarrow> bool" where
  "fabrics_agree fabrics records \<longleftrightarrow>
     (\<forall>(_, r) \<in> set records. \<forall>f \<in> set fabrics. fa_fabricId f = fa_fabricId (rr_fabric r) \<longrightarrow> f = rr_fabric r)"

lemma update_fresh: "k \<notin> fst ` set al \<Longrightarrow> AList.update k v al = al @ [(k, v)]"
  by (induction al) auto

lemma restore_stored:
  assumes "fabrics_agree fabrics [(n, r)]" and "n \<notin> fst ` set (mg_resumptionRecords m)"
  shows "restore_record fabrics (stored_record (n, r)) m =
    m\<lparr>mg_resumptionRecords := mg_resumptionRecords m @ filter (known fabrics) [(n, r)]\<rparr>"
proof (cases "find (\<lambda>f. fa_fabricId f = fa_fabricId (rr_fabric r)) fabrics")
  case None
  then have "\<not> known fabrics (n, r)" by (auto simp: find_None_iff known_def)
  with None show ?thesis by (simp add: restore_record_def stored_record_def)
next
  case (Some f)
  then have f: "f \<in> set fabrics" "fa_fabricId f = fa_fabricId (rr_fabric r)"
    by (auto simp: find_Some_iff)
  then have "f = rr_fabric r" "known fabrics (n, r)" using assms(1) by (auto simp: fabrics_agree_def known_def)
  with Some assms(2) show ?thesis by (simp add: restore_record_def stored_record_def update_fresh)
qed

lemma restore_all:
  assumes "fabrics_agree fabrics records" and "distinct (map fst (mg_resumptionRecords m @ records))"
  shows "fold (restore_record fabrics) (map stored_record records) m =
    m\<lparr>mg_resumptionRecords := mg_resumptionRecords m @ filter (known fabrics) records\<rparr>"
  using assms
proof (induction records arbitrary: m)
  case (Cons nr records)
  obtain n r where nr: "nr = (n, r)" by (cases nr)
  let ?m = "m\<lparr>mg_resumptionRecords := mg_resumptionRecords m @ filter (known fabrics) [nr]\<rparr>"
  have "fold (restore_record fabrics) (map stored_record records) ?m =
      ?m\<lparr>mg_resumptionRecords := mg_resumptionRecords ?m @ filter (known fabrics) records\<rparr>"
    using Cons.prems by (intro Cons.IH) (auto simp: fabrics_agree_def nr)
  moreover have "restore_record fabrics (stored_record nr) m = ?m"
    using Cons.prems unfolding nr by (intro restore_stored) (auto simp: fabrics_agree_def)
  ultimately show ?case by simp
qed simp

locale session_storage = storage st ok view
  for st :: "('s, ResumptionStorageRecord list) Storage" and ok view +
  fixes here :: path
  assumes here: "wf_path here"
begin

lemma records_key_ok [simp]: "wf_key records_key"
  by (simp add: records_key_def wf_key_def object_prototype_def proto_name_def js_text_def)

lemma store_records:
  assumes "ok s"
  shows "\<exists>s'. storeResumptionRecords st here m s = (s', Inr ()) \<and> ok s' \<and>
    view s' here records_key = Some (map stored_record (mg_resumptionRecords m))"
  using set [OF assms here, of records_key "Some (map stored_record (mg_resumptionRecords m))"]
  by (auto simp: storeResumptionRecords_def sc_set_def put_def)

lemma init_records:
  assumes "ok s" and "view s here records_key = Some (map stored_record records)"
  shows "initFromStorage st here fabrics m s = Inr (fold (restore_record fabrics) (map stored_record records) m)"
  using assms get [OF assms(1) here] by (simp add: initFromStorage_def sc_get_def)

lemma restart:
  assumes "ok s" and "distinct (map fst (mg_resumptionRecords m))" and "fabrics_agree fabrics (mg_resumptionRecords m)"
  shows "\<exists>s' m'. storeResumptionRecords st here m s = (s', Inr ()) \<and>
    initFromStorage st here fabrics (new_SessionManager n rnd) s' = Inr m' \<and>
    mg_resumptionRecords m' = filter (known fabrics) (mg_resumptionRecords m)"
proof -
  obtain s' where s': "storeResumptionRecords st here m s = (s', Inr ())" "ok s'"
      "view s' here records_key = Some (map stored_record (mg_resumptionRecords m))"
    using store_records [OF assms(1)] by blast
  have "fold (restore_record fabrics) (map stored_record (mg_resumptionRecords m)) (new_SessionManager n rnd) =
      (new_SessionManager n rnd)\<lparr>mg_resumptionRecords := filter (known fabrics) (mg_resumptionRecords m)\<rparr>"
    using restore_all [OF assms(3), of "new_SessionManager n rnd"] assms(2) by (simp add: new_SessionManager_def)
  with s' init_records [OF s'(2,3)] show ?thesis by simp
qed

end

definition sessions_path :: path where "sessions_path = [js_text ''SessionManager'']"

interpretation memory_sessions: session_storage memory_storage memory_ok memory_view sessions_path
  by unfold_locales (simp add: wf_path_def proper_path_def object_prototype_def proto_name_def sessions_path_def js_text_def)

text \<open>C32. The resumption records a manager has stored are found again after a restart: the new manager has the records of all
  fabrics that still exist, in the same order, and no others.\<close>

theorem resumption_records_survive:
  assumes "memory_ok s" and "distinct (map fst (mg_resumptionRecords m))" and "fabrics_agree fabrics (mg_resumptionRecords m)"
  shows "\<exists>s' m'. storeResumptionRecords memory_storage sessions_path m s = (s', Inr ()) \<and>
    initFromStorage memory_storage sessions_path fabrics (new_SessionManager n rnd) s' = Inr m' \<and>
    mg_resumptionRecords m' = filter (known fabrics) (mg_resumptionRecords m)"
  by (rule memory_sessions.restart [OF assms])

theorem resumption_records_survive_witness:
  "let f = \<lparr>fa_fabricId = 1, fa_nodeId = 2, fa_rootNodeId = 3\<rparr>; g = \<lparr>fa_fabricId = 9, fa_nodeId = 2, fa_rootNodeId = 3\<rparr>;
       rec = (\<lambda>f n. (n, \<lparr>rr_sharedSecret = [1], rr_resumptionId = [2], rr_fabric = f, rr_peerNodeId = n,
                rr_sessionParameters = session_parameters None\<rparr>));
       m = (new_SessionManager 1 7)\<lparr>mg_resumptionRecords := [rec f 7, rec g 8]\<rparr>
   in \<exists>s' m'. storeResumptionRecords memory_storage sessions_path m (create_memory []) = (s', Inr ()) \<and>
        initFromStorage memory_storage sessions_path [f] (new_SessionManager 1 7) s' = Inr m' \<and>
        mg_resumptionRecords m' = [rec f 7]"
proof -
  define f g where "f = \<lparr>fa_fabricId = 1, fa_nodeId = 2, fa_rootNodeId = 3\<rparr>"
    and "g = \<lparr>fa_fabricId = 9, fa_nodeId = 2, fa_rootNodeId = 3\<rparr>"
  define rec where "rec f n = (n, \<lparr>rr_sharedSecret = [1], rr_resumptionId = [2], rr_fabric = f, rr_peerNodeId = n,
    rr_sessionParameters = session_parameters None\<rparr>)" for f and n :: int
  let ?m = "(new_SessionManager 1 7)\<lparr>mg_resumptionRecords := [rec f 7, rec g 8]\<rparr>"
  have "distinct (map fst (mg_resumptionRecords ?m))" "fabrics_agree [f] (mg_resumptionRecords ?m)"
    "filter (known [f]) (mg_resumptionRecords ?m) = [rec f 7]"
    by (simp_all add: rec_def fabrics_agree_def known_def f_def g_def)
  with resumption_records_survive [OF memory_ok_new, of ?m "[f]" 1 7] show ?thesis
    by (simp add: f_def g_def rec_def Let_def)
qed

end
