(* ===== verification/ChannelManager.thy ===== *)
theory ChannelManager
  imports SessionManager
begin

text \<open>
  Message channels and who keeps them: \<^verbatim>\<open>MessageChannel\<close> of \<^verbatim>\<open>protocol/ExchangeManager.ts\<close> and
  \<^verbatim>\<open>protocol/ChannelManager.ts\<close>.  Sessions and channels are objects with references.  Maps are association lists in
  order of insertion; the text \<^verbatim>\<open>fabricId/nodeId\<close> that names a channel is the pair of the two numbers.  The byte channels
  below are numbers; \<open>cm_closes\<close> is the order in which they were asked to close.  Asynchronous operations are taken as
  run to their end.
\<close>

section \<open>Sessions as objects\<close>

text \<open>A session: a secure one by its reference; an insecure one by its reference and the node id it keeps.\<close>

datatype session_ref = SecureRef nat | InsecureRef nat int

fun ref_id :: "SessionManager \<Rightarrow> session_ref \<Rightarrow> int" where
  "ref_id m (SecureRef r) = ss_id (mg_objects m r)"
| "ref_id m (InsecureRef r n) = UNICAST_UNSECURE_SESSION_ID"

fun isSecure :: "session_ref \<Rightarrow> bool" where
  "isSecure (SecureRef r) = True"
| "isSecure (InsecureRef r n) = False"

fun ref_isPase :: "SessionManager \<Rightarrow> session_ref \<Rightarrow> bool" where
  "ref_isPase m (SecureRef r) = isPase (mg_objects m r)"
| "ref_isPase m (InsecureRef r n) = False"

fun ref_closing :: "SessionManager \<Rightarrow> session_ref \<Rightarrow> bool" where
  "ref_closing m (SecureRef r) = ss_closingAfterExchangeFinished (mg_objects m r)"
| "ref_closing m (InsecureRef r n) = False"

fun ref_peerSessionId :: "SessionManager \<Rightarrow> session_ref \<Rightarrow> int" where
  "ref_peerSessionId m (SecureRef r) = ss_peerSessionId (mg_objects m r)"
| "ref_peerSessionId m (InsecureRef r n) = UNICAST_UNSECURE_SESSION_ID"

fun ref_nodeId :: "SessionManager \<Rightarrow> session_ref \<Rightarrow> int" where
  "ref_nodeId m (SecureRef r) = session_nodeId (mg_objects m r)"
| "ref_nodeId m (InsecureRef r n) = n"

fun ref_peerNodeId :: "SessionManager \<Rightarrow> session_ref \<Rightarrow> int option" where
  "ref_peerNodeId m (SecureRef r) = Some (ss_peerNodeId (mg_objects m r))"
| "ref_peerNodeId m (InsecureRef r n) = None"

fun ref_destroy :: "session_ref \<Rightarrow> SessionManager \<Rightarrow> SessionManager" where
  "ref_destroy (SecureRef r) m = destroy_ref False False r m"
| "ref_destroy (InsecureRef r n) m = end_insecure n m"

section \<open>Channels\<close>

type_synonym channel_key = "int \<times> int"

text \<open>The close callbacks a channel is created with.\<close>

datatype close_callback = DeletePase session_ref | RemoveChannel channel_key

record MessageChannel =
  ch_channel :: nat
  ch_session :: session_ref
  ch_closed :: bool
  ch_closeCallback :: "close_callback option"

definition new_MessageChannel :: "nat \<Rightarrow> session_ref \<Rightarrow> close_callback option \<Rightarrow> MessageChannel" where
  "new_MessageChannel channel session closeCallback =
     \<lparr>ch_channel = channel, ch_session = session, ch_closed = False, ch_closeCallback = closeCallback\<rparr>"

record ChannelManager =
  cm_channels :: "(channel_key \<times> nat) list"
  cm_paseChannels :: "(session_ref \<times> nat) list"
  cm_objects :: "nat \<Rightarrow> MessageChannel"
  cm_nextRef :: nat
  cm_closes :: "nat list"

definition new_ChannelManager :: ChannelManager where
  "new_ChannelManager =
     \<lparr>cm_channels = [], cm_paseChannels = [], cm_objects = (\<lambda>_. new_MessageChannel 0 (SecureRef 0) None), cm_nextRef = 0, cm_closes = []\<rparr>"

definition add_channel :: "MessageChannel \<Rightarrow> ChannelManager \<Rightarrow> nat \<times> ChannelManager" where
  "add_channel ch cm =
     (cm_nextRef cm, cm\<lparr>cm_objects := (cm_objects cm)(cm_nextRef cm := ch), cm_nextRef := cm_nextRef cm + 1\<rparr>)"

text \<open>The part of \<^verbatim>\<open>MessageChannel.close\<close> before its callback.\<close>

definition close_bytes :: "nat \<Rightarrow> ChannelManager \<Rightarrow> ChannelManager" where
  "close_bytes ref cm =
     cm\<lparr>cm_objects := (cm_objects cm)(ref := (cm_objects cm ref)\<lparr>ch_closed := True\<rparr>),
        cm_closes := cm_closes cm @ [ch_channel (cm_objects cm ref)]\<rparr>"

function channel_close :: "nat \<Rightarrow> ChannelManager \<Rightarrow> ChannelManager" where
  "channel_close ref cm =
     (let wasAlreadyClosed = ch_closed (cm_objects cm ref); callback = ch_closeCallback (cm_objects cm ref);
          cm' = close_bytes ref cm
      in if wasAlreadyClosed then cm'
         else case callback of
                None \<Rightarrow> cm'
              | Some (DeletePase session) \<Rightarrow> cm'\<lparr>cm_paseChannels := AList.delete session (cm_paseChannels cm')\<rparr>
              | Some (RemoveChannel key) \<Rightarrow>
                  (case map_of (cm_channels cm') key of
                     None \<Rightarrow> cm'
                   | Some r \<Rightarrow> let cm'' = channel_close r cm' in cm''\<lparr>cm_channels := AList.delete key (cm_channels cm'')\<rparr>))"
  by auto

text \<open>Every call on an open channel closes one of the channels a further call can reach.\<close>

definition open_channels :: "nat \<Rightarrow> ChannelManager \<Rightarrow> nat set" where
  "open_channels ref cm = {r \<in> insert ref (snd ` set (cm_channels cm)). \<not> ch_closed (cm_objects cm r)}"

lemma open_channels_decrease:
  assumes "\<not> ch_closed (cm_objects cm ref)" and "map_of (cm_channels cm) key = Some r"
  shows "card (open_channels r (close_bytes ref cm)) < card (open_channels ref cm)"
proof (rule psubset_card_mono)
  show "finite (open_channels ref cm)" by (simp add: open_channels_def)
  have "r \<in> snd ` set (cm_channels cm)" using assms(2) by (force dest: map_of_SomeD)
  then have "open_channels r (close_bytes ref cm) \<subseteq> open_channels ref cm - {ref}"
    by (auto simp: open_channels_def close_bytes_def)
  moreover have "ref \<in> open_channels ref cm" using assms(1) by (simp add: open_channels_def)
  ultimately show "open_channels r (close_bytes ref cm) \<subset> open_channels ref cm" by blast
qed

termination channel_close
  by (relation "measure (\<lambda>(ref, cm). card (open_channels ref cm))")
    (use open_channels_decrease in \<open>auto simp: close_bytes_def\<close>)

declare channel_close.simps [simp del]

definition removeChannel :: "channel_key \<Rightarrow> ChannelManager \<Rightarrow> ChannelManager" where
  "removeChannel key cm =
     (case map_of (cm_channels cm) key of
        None \<Rightarrow> cm
      | Some r \<Rightarrow> let cm = channel_close r cm in cm\<lparr>cm_channels := AList.delete key (cm_channels cm)\<rparr>)"

definition setChannel :: "channel_key \<Rightarrow> nat \<Rightarrow> SessionManager \<times> ChannelManager \<Rightarrow> SessionManager \<times> ChannelManager" where
  "setChannel key channel = (\<lambda>(m, cm).
     let (m, cm) =
       (case map_of (cm_channels cm) key of
          None \<Rightarrow> (m, cm)
        | Some current \<Rightarrow>
            let session = ch_session (cm_objects cm current);
                m = (if ref_id m session \<noteq> ref_id m (ch_session (cm_objects cm channel)) then ref_destroy session m else m)
            in (m, channel_close current cm))
     in (m, cm\<lparr>cm_channels := AList.update key channel (cm_channels cm)\<rparr>))"

definition getChannel :: "channel_key \<Rightarrow> ChannelManager \<Rightarrow> nat result" where
  "getChannel key cm = (case map_of (cm_channels cm) key of None \<Rightarrow> Inl NoChannelError | Some r \<Rightarrow> Inr r)"

text \<open>The key of a session with a fabric.\<close>

fun session_key :: "SessionManager \<Rightarrow> session_ref \<Rightarrow> channel_key option" where
  "session_key m (SecureRef r) =
     map_option (\<lambda>f. (fa_fabricId f, ss_peerNodeId (mg_objects m r))) (ss_fabric (mg_objects m r))"
| "session_key m (InsecureRef r n) = None"

definition getChannelForSession :: "session_ref \<Rightarrow> SessionManager \<Rightarrow> ChannelManager \<Rightarrow> nat option result" where
  "getChannelForSession session m cm =
     (if isSecure session \<and> \<not> ref_isPase m session then
        (case session_key m session of
           None \<Rightarrow> Inr (map_of (cm_paseChannels cm) session)
         | Some key \<Rightarrow>
             rbind (getChannel key cm) (\<lambda>channel.
               Inr (if ref_id m (ch_session (cm_objects cm channel)) \<noteq> ref_id m session then None else Some channel)))
      else Inr (map_of (cm_paseChannels cm) session))"

definition getOrCreateAsPaseChannel :: "nat \<Rightarrow> session_ref \<Rightarrow> ChannelManager \<Rightarrow> nat \<times> ChannelManager" where
  "getOrCreateAsPaseChannel byteArrayChannel session cm =
     (let (ref, cm) = add_channel (new_MessageChannel byteArrayChannel session (Some (DeletePase session))) cm
      in (ref, cm\<lparr>cm_paseChannels := AList.update session ref (cm_paseChannels cm)\<rparr>))"

definition getOrCreateChannel ::
  "nat \<Rightarrow> session_ref \<Rightarrow> SessionManager \<times> ChannelManager \<Rightarrow> nat \<times> SessionManager \<times> ChannelManager" where
  "getOrCreateChannel byteArrayChannel session = (\<lambda>(m, cm).
     case session_key m session of
       None \<Rightarrow> (case getOrCreateAsPaseChannel byteArrayChannel session cm of (r, cm) \<Rightarrow> (r, m, cm))
     | Some key \<Rightarrow>
         let result = map_of (cm_channels cm) key in
         if (case result of None \<Rightarrow> True | Some r \<Rightarrow> ref_id m (ch_session (cm_objects cm r)) \<noteq> ref_id m session) then
           let (r, cm) = add_channel (new_MessageChannel byteArrayChannel session (Some (RemoveChannel key))) cm
           in (r, setChannel key r (m, cm))
         else (the result, m, cm))"

text \<open>A map that loses entries while it is iterated over: what is still there is visited, in the order of the keys.\<close>

definition close_channels :: "ChannelManager \<Rightarrow> ChannelManager" where
  "close_channels cm =
     (let cm = fold (\<lambda>s cm. case map_of (cm_paseChannels cm) s of None \<Rightarrow> cm | Some r \<Rightarrow> channel_close r cm)
                 (map fst (cm_paseChannels cm)) cm;
          cm = cm\<lparr>cm_paseChannels := []\<rparr>;
          cm = fold (\<lambda>k cm. case map_of (cm_channels cm) k of None \<Rightarrow> cm | Some r \<Rightarrow> channel_close r cm)
                 (map fst (cm_channels cm)) cm
      in cm\<lparr>cm_channels := []\<rparr>)"

end
