(* ===== verification/SecureChannelMessages.thy ===== *)
theory SecureChannelMessages
  imports ByteIO
begin

text \<open>
  The status reports of the secure channel: \<^verbatim>\<open>protocol/securechannel/SecureChannelMessages.ts\<close>, their binary form in
  \<^verbatim>\<open>SecureChannelStatusMessageSchema.ts\<close>, what \<^verbatim>\<open>SecureChannelMessenger.ts\<close> does with a report that arrives instead of an answer, and
  what \<^verbatim>\<open>SecureChannelProtocol.ts\<close> does with one that opens an exchange.
\<close>

section \<open>Codes\<close>

definition MessageType_StatusReport :: int where "MessageType_StatusReport = 0x40"
definition ProtocolStatusCode_Success :: int where "ProtocolStatusCode_Success = 0"
definition ProtocolStatusCode_CloseSession :: int where "ProtocolStatusCode_CloseSession = 3"
definition GeneralStatusCode_Success :: int where "GeneralStatusCode_Success = 0"

record StatusMessage =
  sm_generalStatus :: int
  sm_protocolId :: int
  sm_protocolStatus :: int

section \<open>Binary form\<close>

definition status_encode :: "StatusMessage \<Rightarrow> byte list result" where
  "status_encode s =
     written (writeUInt16 (sm_protocolStatus s) (writeUInt32 (sm_protocolId s) (writeUInt16 (sm_generalStatus s) (new_DataWriter Little))))"

definition status_decode :: "byte list \<Rightarrow> StatusMessage result" where
  "status_decode bytes =
     rbind (readUInt16 (new_DataReader bytes Little)) (\<lambda>(generalStatus, r).
     rbind (readUInt32 r) (\<lambda>(protocolId, r).
     rbind (readUInt16 r) (\<lambda>(protocolStatus, r).
       Inr \<lparr>sm_generalStatus = generalStatus, sm_protocolId = protocolId, sm_protocolStatus = protocolStatus\<rparr>)))"

definition status_ok :: "StatusMessage \<Rightarrow> bool" where
  "status_ok s \<longleftrightarrow> uint_valid 2 (sm_generalStatus s) \<and> uint_valid 4 (sm_protocolId s) \<and> uint_valid 2 (sm_protocolStatus s)"

section \<open>Reports that arrive\<close>

text \<open>\<^verbatim>\<open>throwIfErrorStatusReport\<close>: any report but one of success ends the handshake.\<close>

definition throwIfErrorStatusReport :: "int \<Rightarrow> byte list \<Rightarrow> unit result" where
  "throwIfErrorStatusReport messageType payload =
     (if messageType \<noteq> MessageType_StatusReport then Inr ()
      else rbind (status_decode payload) (\<lambda>s.
        rbind (throw_if (sm_generalStatus s \<noteq> GeneralStatusCode_Success) ChannelStatusResponseError) (\<lambda>_.
          throw_if (sm_protocolStatus s \<noteq> ProtocolStatusCode_Success) ChannelStatusResponseError)))"

text \<open>\<^verbatim>\<open>handleInitialStatusReport\<close>, up to the destruction of the session: only a request to close it is accepted.\<close>

definition handleInitialStatusReport :: "int \<Rightarrow> byte list \<Rightarrow> bool \<Rightarrow> unit result" where
  "handleInitialStatusReport messageType payload isSecure =
     rbind (throw_if (messageType \<noteq> MessageType_StatusReport) MatterFlowError) (\<lambda>_.
     rbind (status_decode payload) (\<lambda>s.
     rbind (throw_if (sm_generalStatus s \<noteq> GeneralStatusCode_Success) ChannelStatusResponseError) (\<lambda>_.
     rbind (throw_if (sm_protocolStatus s \<noteq> ProtocolStatusCode_CloseSession) ChannelStatusResponseError) (\<lambda>_.
       throw_if (\<not> isSecure) MatterFlowError))))"

section \<open>Laws\<close>

lemma status_bytes:
  "status_encode s = Inr (le_bytes 2 (toNumber (sm_generalStatus s)) @ le_bytes 4 (toNumber (sm_protocolId s)) @
     le_bytes 2 (toNumber (sm_protocolStatus s)))"
  by (simp add: status_encode_def)

lemma status_roundtrip:
  assumes "status_ok s"
  shows "rbind (status_encode s) status_decode = Inr s"
  using assms
  by (simp add: status_bytes status_decode_def status_ok_def codec_simps toNumber_range le_uint_le_bytes_id)

text \<open>Nothing but the request to close is accepted as the first message of an exchange.\<close>

lemma initial_report_accepted:
  "handleInitialStatusReport t bs sec = Inr () \<longleftrightarrow>
     t = MessageType_StatusReport \<and> sec \<and>
     (\<exists>s. status_decode bs = Inr s \<and> sm_generalStatus s = GeneralStatusCode_Success \<and> sm_protocolStatus s = ProtocolStatusCode_CloseSession)"
  by (auto simp: handleInitialStatusReport_def rbind_eq_Inr throw_if_def split: if_splits)

end
