(* ===== verification/ExchangeManager.thy ===== *)
theory ExchangeManager
  imports ChannelManager Exchange SecureChannelMessages
begin

text \<open>
  Which exchange a message belongs to: \<^verbatim>\<open>protocol/ExchangeManager.ts\<close>.  The manager holds the session and the
  channel manager it was made with.  Exchanges are objects with references; \<open>mx_index\<close> is the index their close
  callback deletes.  The map of exchanges is an association list in order of insertion.

  \<^verbatim>\<open>onMessage\<close> is one definition per section: \<open>onMessage_start\<close> up to the decision what becomes of the message, then, with
  the channel of the session, \<open>accept_exchange\<close> or \<open>refuse_exchange\<close>.  Closing is taken as run to its end.  What the manager does to the
  outside is appended to \<open>em_log\<close>.  Protocol handlers are values of any type, and whether a byte channel fails is not
  visible to the definitions: failures to send are caught wherever they are modelled.  That sending notes the time of the
  last interaction, which only the listing of sessions reads, is left out.
\<close>

section \<open>State\<close>

record ManagedExchange =
  mx_exchange :: MessageExchange
  mx_session :: session_ref
  mx_channel :: nat
  mx_index :: int

datatype 'h manager_event =
    ExchangeEvent nat exchange_output
  | NewExchange 'h nat message
  | ProtocolClosed 'h
  | ListenersClosed nat

record 'h ExchangeManager =
  em_exchangeCounter :: int
  em_exchanges :: "(int \<times> nat) list"
  em_protocols :: "(int \<times> 'h) list"
  em_transportListeners :: nat
  em_closingSessions :: "int set"
  em_objects :: "nat \<Rightarrow> ManagedExchange"
  em_nextRef :: nat
  em_sessionManager :: SessionManager
  em_channelManager :: ChannelManager
  em_log :: "'h manager_event list"

definition new_ExchangeManager :: "int \<Rightarrow> SessionManager \<Rightarrow> ChannelManager \<Rightarrow> 'h ExchangeManager" where
  "new_ExchangeManager randomUInt16 sessionManager channelManager =
     \<lparr>em_exchangeCounter = randomUInt16, em_exchanges = [], em_protocols = [], em_transportListeners = 0,
      em_closingSessions = {},
      em_objects = (\<lambda>_. \<lparr>mx_exchange = new_MessageExchange False 0 None None 0 0, mx_session = SecureRef 0, mx_channel = 0, mx_index = 0\<rparr>),
      em_nextRef = 0, em_sessionManager = sessionManager, em_channelManager = channelManager, em_log = []\<rparr>"

abbreviation exchange_of :: "nat \<Rightarrow> 'h ExchangeManager \<Rightarrow> MessageExchange" where
  "exchange_of ref em \<equiv> mx_exchange (em_objects em ref)"

abbreviation exchange_session :: "nat \<Rightarrow> 'h ExchangeManager \<Rightarrow> session_ref" where
  "exchange_session ref em \<equiv> mx_session (em_objects em ref)"

abbreviation session_id_in :: "'h ExchangeManager \<Rightarrow> session_ref \<Rightarrow> int" where
  "session_id_in em \<equiv> ref_id (em_sessionManager em)"

definition set_exchange :: "nat \<Rightarrow> MessageExchange \<Rightarrow> 'h ExchangeManager \<Rightarrow> 'h ExchangeManager" where
  "set_exchange ref ex em = em\<lparr>em_objects := (em_objects em)(ref := (em_objects em ref)\<lparr>mx_exchange := ex\<rparr>)\<rparr>"

definition add_exchange :: "int \<Rightarrow> ManagedExchange \<Rightarrow> 'h ExchangeManager \<Rightarrow> nat \<times> 'h ExchangeManager" where
  "add_exchange exchangeIndex mx em =
     (em_nextRef em,
      em\<lparr>em_objects := (em_objects em)(em_nextRef em := mx), em_nextRef := em_nextRef em + 1,
         em_exchanges := AList.update exchangeIndex (em_nextRef em) (em_exchanges em)\<rparr>)"

definition log_events :: "'h manager_event list \<Rightarrow> 'h ExchangeManager \<Rightarrow> 'h ExchangeManager" where
  "log_events evs em = em\<lparr>em_log := em_log em @ evs\<rparr>"

section \<open>Protocols and exchanges the node initiates\<close>

definition hasProtocolHandler :: "int \<Rightarrow> 'h ExchangeManager \<Rightarrow> bool" where
  "hasProtocolHandler protocolId em \<longleftrightarrow> map_of (em_protocols em) protocolId \<noteq> None"

definition getProtocolHandler :: "int \<Rightarrow> 'h ExchangeManager \<Rightarrow> 'h option" where
  "getProtocolHandler protocolId em = map_of (em_protocols em) protocolId"

definition addProtocolHandler :: "int \<Rightarrow> 'h \<Rightarrow> 'h ExchangeManager \<Rightarrow> 'h ExchangeManager result" where
  "addProtocolHandler protocolId handler em =
     (if hasProtocolHandler protocolId em then Inl ImplementationError
      else Inr (em\<lparr>em_protocols := AList.update protocolId handler (em_protocols em)\<rparr>))"

definition addTransportInterface :: "'h ExchangeManager \<Rightarrow> 'h ExchangeManager" where
  "addTransportInterface em = em\<lparr>em_transportListeners := em_transportListeners em + 1\<rparr>"

text \<open>The listener of an interface: an oversized UDP message is ignored.\<close>

definition MAX_MESSAGE_SIZE :: nat where "MAX_MESSAGE_SIZE = 1280"

definition accepts_data :: "bool \<Rightarrow> byte list \<Rightarrow> bool" where
  "accepts_data udpInterface data \<longleftrightarrow> \<not> (udpInterface \<and> length data > MAX_MESSAGE_SIZE)"

definition next_exchangeId :: "int \<Rightarrow> int" where
  "next_exchangeId exchangeCounter =
     (let exchangeCounter = exchangeCounter + 1 in if exchangeCounter > 0xffff then 0 else exchangeCounter)"

definition initiateExchangeWithChannel :: "nat \<Rightarrow> int \<Rightarrow> 'h ExchangeManager \<Rightarrow> nat \<times> 'h ExchangeManager" where
  "initiateExchangeWithChannel channel protocolId em =
     (let exchangeId = next_exchangeId (em_exchangeCounter em);
          em = em\<lparr>em_exchangeCounter := exchangeId\<rparr>;
          exchangeIndex = js_or exchangeId 0x10000;
          session = ch_session (cm_objects (em_channelManager em) channel);
          m = em_sessionManager em
      in add_exchange exchangeIndex
           \<lparr>mx_exchange = initiate (ref_peerSessionId m session) (Some (ref_nodeId m session)) (ref_peerNodeId m session) exchangeId protocolId,
            mx_session = session, mx_channel = channel, mx_index = exchangeIndex\<rparr> em)"

definition initiateExchange :: "Fabric \<Rightarrow> int \<Rightarrow> int \<Rightarrow> 'h ExchangeManager \<Rightarrow> (nat \<times> 'h ExchangeManager) result" where
  "initiateExchange fabric nodeId protocolId em =
     rbind (getChannel (fa_fabricId fabric, nodeId) (em_channelManager em)) (\<lambda>channel.
       Inr (initiateExchangeWithChannel channel protocolId em))"

section \<open>Messages that arrive\<close>

text \<open>The session of a packet.\<close>

definition unsecure_ref :: "InsecureSession \<Rightarrow> session_ref" where
  "unsecure_ref s = InsecureRef (is_ref s) (is_initiatorNodeId s)"

definition find_session :: "int \<Rightarrow> DecodedPacketHeader \<Rightarrow> 'h ExchangeManager \<Rightarrow> session_ref result \<times> 'h ExchangeManager" where
  "find_session now header em =
     (let m = em_sessionManager em in
      if ph_sessionId header = UNICAST_UNSECURE_SESSION_ID then
        let initiatorNodeId = (case ph_sourceNodeId header of None \<Rightarrow> UNSPECIFIED_NODE_ID | Some n \<Rightarrow> n) in
        (case getUnsecureSession (Some initiatorNodeId) m of
           Some s \<Rightarrow> (Inr (unsecure_ref s), em)
         | None \<Rightarrow>
             (case createUnsecureSession now [] (Some initiatorNodeId) None False m of
                Inl e \<Rightarrow> (Inl e, em)
              | Inr (n, m') \<Rightarrow> (Inr (InsecureRef (mg_nextRef m) n), em\<lparr>em_sessionManager := m'\<rparr>)))
      else
        (case getSession (ph_sessionId header) m of
           (None, m) \<Rightarrow> (Inl MatterFlowError, em\<lparr>em_sessionManager := m\<rparr>)
         | (Some r, m) \<Rightarrow> (Inr (SecureRef r), em\<lparr>em_sessionManager := m\<rparr>)))"

fun ref_updateMessageCounter :: "int \<Rightarrow> session_ref \<Rightarrow> SessionManager \<Rightarrow> SessionManager result" where
  "ref_updateMessageCounter messageCounter (SecureRef r) m =
     rbind (session_updateMessageCounter messageCounter (mg_objects m r)) (\<lambda>s.
       Inr (m\<lparr>mg_objects := (mg_objects m)(r := s)\<rparr>))"
| "ref_updateMessageCounter messageCounter (InsecureRef r n) m =
     (case map_of (mg_insecureSessions m) n of
        None \<Rightarrow> Inr m
      | Some s \<Rightarrow> rbind (session_updateMessageCounter messageCounter s) (\<lambda>s.
                  Inr (m\<lparr>mg_insecureSessions := AList.update n s (mg_insecureSessions m)\<rparr>)))"

fun ref_decode :: "decipher \<Rightarrow> SessionManager \<Rightarrow> session_ref \<Rightarrow> DecodedPacketHeader Packet \<Rightarrow> byte list \<Rightarrow> DecodedPacketHeader Message result" where
  "ref_decode decrypt m (SecureRef r) packet aad = session_decode decrypt (mg_objects m r) packet aad"
| "ref_decode decrypt m (InsecureRef r n) packet aad = insecure_decode packet"

text \<open>Exchanges take messages with the packet header they send; the decoded one has the security flags besides.\<close>

definition as_message :: "DecodedPacketHeader Message \<Rightarrow> message" where
  "as_message m =
     \<lparr>msg_packetHeader = PacketHeader.truncate (msg_packetHeader m), msg_payloadHeader = msg_payloadHeader m,
      msg_securityExtension = msg_securityExtension m, msg_payload = msg_payload m\<rparr>"

definition exchange_index :: "message \<Rightarrow> int" where
  "exchange_index message =
     (if pl_isInitiatorMessage (msg_payloadHeader message) then pl_exchangeId (msg_payloadHeader message)
      else js_or (pl_exchangeId (msg_payloadHeader message)) 0x10000)"

text \<open>The exchange at the index of a message, unless it is of another session or has the role of the sender.\<close>

definition find_exchange :: "session_ref \<Rightarrow> message \<Rightarrow> 'h ExchangeManager \<Rightarrow> nat option" where
  "find_exchange session message em =
     (case map_of (em_exchanges em) (exchange_index message) of
        None \<Rightarrow> None
      | Some ref \<Rightarrow>
          if session_id_in em (exchange_session ref em) \<noteq> session_id_in em session \<or>
             ex_isInitiator (exchange_of ref em) = pl_isInitiatorMessage (msg_payloadHeader message)
          then None else Some ref)"

datatype 'h decision =
    Deliver nat bool
  | Accept 'h
  | Acknowledge
  | Discard

definition decide :: "session_ref \<Rightarrow> message \<Rightarrow> bool \<Rightarrow> 'h ExchangeManager \<Rightarrow> 'h decision result" where
  "decide session message isDuplicate em =
     (case find_exchange session message em of
        Some ref \<Rightarrow> Inr (Deliver ref isDuplicate)
      | None \<Rightarrow>
          if ref_closing (em_sessionManager em) session then Inl MatterFlowError
          else
            case getProtocolHandler (pl_protocolId (msg_payloadHeader message)) em of
              None \<Rightarrow> if requires_ack message then Inr Acknowledge else Inl MatterFlowError
            | Some handler \<Rightarrow>
                if pl_isInitiatorMessage (msg_payloadHeader message) \<and> \<not> isDuplicate then Inr (Accept handler)
                else if requires_ack message then Inr Acknowledge
                else Inr Discard)"

text \<open>What the first section hands to the next one.\<close>

record 'h arrival =
  ar_session :: session_ref
  ar_message :: message
  ar_decision :: "'h decision"

definition onMessage_dispatch ::
  "decipher \<Rightarrow> byte list \<Rightarrow> DecodedPacketHeader Packet \<Rightarrow> session_ref \<Rightarrow> bool \<Rightarrow> 'h ExchangeManager \<Rightarrow> 'h arrival result" where
  "onMessage_dispatch decrypt messageBytes packet session isDuplicate em =
     (let aad = take (length messageBytes - length (pk_applicationPayload packet)) messageBytes
      in rbind (ref_decode decrypt (em_sessionManager em) session packet aad) (\<lambda>decoded.
           let message = as_message decoded
           in rbind (decide session message isDuplicate em) (\<lambda>decision.
                Inr \<lparr>ar_session = session, ar_message = message, ar_decision = decision\<rparr>)))"

definition onMessage_start ::
  "decipher \<Rightarrow> int \<Rightarrow> byte list \<Rightarrow> 'h ExchangeManager \<Rightarrow> 'h arrival result \<times> 'h ExchangeManager" where
  "onMessage_start decrypt now messageBytes em =
     (case decodePacket messageBytes of
        Inl e \<Rightarrow> (Inl e, em)
      | Inr packet \<Rightarrow>
          let header = pk_header packet in
          if ph_sessionType header = Group then (Inl NotImplementedError, em)
          else
            case find_session now header em of
              (Inl e, em) \<Rightarrow> (Inl e, em)
            | (Inr session, em) \<Rightarrow>
                (case ref_updateMessageCounter (ph_messageId header) session (em_sessionManager em) of
                   Inl e \<Rightarrow>
                     if e = DuplicateMessageError then (onMessage_dispatch decrypt messageBytes packet session True em, em)
                     else (Inl e, em)
                 | Inr m \<Rightarrow>
                     let em = em\<lparr>em_sessionManager := m\<rparr>
                     in (onMessage_dispatch decrypt messageBytes packet session False em, em)))"

text \<open>A message for an exchange: the first section of its \<^verbatim>\<open>onMessageReceived\<close>, which notes the activity of the session.\<close>

fun ref_notifyActivity :: "int \<Rightarrow> bool \<Rightarrow> session_ref \<Rightarrow> SessionManager \<Rightarrow> SessionManager" where
  "ref_notifyActivity now received (SecureRef r) m =
     m\<lparr>mg_objects := (mg_objects m)(r := notifyActivity now received (mg_objects m r))\<rparr>"
| "ref_notifyActivity now received (InsecureRef r n) m =
     (case map_of (mg_insecureSessions m) n of
        None \<Rightarrow> m
      | Some s \<Rightarrow> if is_ref s = r then m\<lparr>mg_insecureSessions := AList.update n (notifyActivity now received s) (mg_insecureSessions m)\<rparr> else m)"

definition deliver :: "int \<Rightarrow> nat \<Rightarrow> message \<Rightarrow> bool \<Rightarrow> 'h ExchangeManager \<Rightarrow> reception \<times> 'h ExchangeManager" where
  "deliver now ref message isDuplicate em =
     (let em = em\<lparr>em_sessionManager := ref_notifyActivity now True (exchange_session ref em) (em_sessionManager em)\<rparr>
      in case onMessageReceived message isDuplicate (exchange_of ref em) of
           (r, outs, ex) \<Rightarrow> (r, log_events (map (ExchangeEvent ref) outs) (set_exchange ref ex em)))"

definition exchange_for :: "nat \<Rightarrow> session_ref \<Rightarrow> message \<Rightarrow> 'h ExchangeManager \<Rightarrow> nat \<times> 'h ExchangeManager" where
  "exchange_for byteArrayChannel session message em =
     (case getOrCreateChannel byteArrayChannel session (em_sessionManager em, em_channelManager em) of
        (channel, m, cm) \<Rightarrow>
          let em = em\<lparr>em_sessionManager := m, em_channelManager := cm\<rparr>;
              session = ch_session (cm_objects cm channel);
              exchangeIndex = exchange_index message
          in add_exchange exchangeIndex
               \<lparr>mx_exchange = fromInitialMessage (ref_id m session) message, mx_session = session, mx_channel = channel,
                mx_index = exchangeIndex\<rparr> em)"

text \<open>A new exchange: the message is delivered to it and its protocol gets to know of it.\<close>

definition accept_exchange ::
  "int \<Rightarrow> nat \<Rightarrow> 'h arrival \<Rightarrow> 'h \<Rightarrow> 'h ExchangeManager \<Rightarrow> nat \<times> reception \<times> 'h ExchangeManager" where
  "accept_exchange now byteArrayChannel a handler em =
     (case exchange_for byteArrayChannel (ar_session a) (ar_message a) em of
        (ref, em) \<Rightarrow>
          (case deliver now ref (ar_message a) False em of
             (r, em) \<Rightarrow> (ref, r, log_events [NewExchange handler ref (ar_message a)] em)))"

section \<open>Sending for an exchange\<close>

text \<open>\<^verbatim>\<open>getIncrementedMessageCounter\<close>: a secure session that comes near the end of its counters ends after its exchanges.\<close>

fun ref_nextCounter :: "session_ref \<Rightarrow> SessionManager \<Rightarrow> int result \<times> SessionManager" where
  "ref_nextCounter (SecureRef r) m =
     (case getIncrementedCounter (ss_messageCounter (mg_objects m r)) of
        (c, rollover, v) \<Rightarrow>
          let m = m\<lparr>mg_objects := (mg_objects m)(r := (mg_objects m r)\<lparr>ss_messageCounter := c\<rparr>)\<rparr>
          in (v, if rollover then end_ref True True r m else m))"
| "ref_nextCounter (InsecureRef r n) m =
     (case getIncrementedCounter (mg_globalUnencryptedMessageCounter m) of
        (c, _, v) \<Rightarrow> (v, m\<lparr>mg_globalUnencryptedMessageCounter := c\<rparr>))"

definition transmit :: "nat \<Rightarrow> nat \<Rightarrow> send_call \<Rightarrow> 'h ExchangeManager \<Rightarrow> 'h ExchangeManager" where
  "transmit call ref c em =
     (case ref_nextCounter (exchange_session ref em) (em_sessionManager em) of
        (Inl e, m) \<Rightarrow> em\<lparr>em_sessionManager := m\<rparr>
      | (Inr messageId, m) \<Rightarrow>
          (case send_transmit call c messageId (exchange_of ref em) of
             (_, outs, ex) \<Rightarrow> log_events (map (ExchangeEvent ref) outs) (set_exchange ref ex (em\<lparr>em_sessionManager := m\<rparr>))))"

definition finish_ack :: "nat \<Rightarrow> reception \<times> MessageExchange \<Rightarrow> 'h ExchangeManager \<Rightarrow> 'h ExchangeManager" where
  "finish_ack ref = (\<lambda>(r, ex) em.
     let em = set_exchange ref ex em
     in case r of Acks c \<Rightarrow> transmit 0 ref c em | _ \<Rightarrow> em)"

text \<open>A message nobody asked for is acknowledged by an exchange that is closed at once.\<close>

definition refuse_exchange :: "nat \<Rightarrow> 'h arrival \<Rightarrow> 'h ExchangeManager \<Rightarrow> nat \<times> 'h ExchangeManager" where
  "refuse_exchange byteArrayChannel a em =
     (case exchange_for byteArrayChannel (ar_session a) (ar_message a) em of
        (ref, em) \<Rightarrow>
          let em = finish_ack ref (sendStandaloneAckForMessage (ar_message a) (exchange_of ref em)) em
          in (ref, finish_ack ref (exchange_close (exchange_of ref em)) em))"

section \<open>Closing\<close>

text \<open>
  \<^verbatim>\<open>deleteExchange\<close> and \<^verbatim>\<open>closeSession\<close> call each other: \<open>close\<close> is the inner call of \<^verbatim>\<open>closeSession\<close>.  No result
  means that the calls are nested deeper than the bound \<open>closeSession\<close> is given.
\<close>

type_synonym 'h closing = "unit result \<times> 'h ExchangeManager"

definition deleteExchange_with ::
  "(nat \<Rightarrow> 'h ExchangeManager \<Rightarrow> 'h closing option) \<Rightarrow> int \<Rightarrow> 'h ExchangeManager \<Rightarrow> 'h ExchangeManager option" where
  "deleteExchange_with close exchangeIndex em =
     (case map_of (em_exchanges em) exchangeIndex of
        None \<Rightarrow> Some em
      | Some ref \<Rightarrow>
          let session = exchange_session ref em in
          map_option (\<lambda>em. em\<lparr>em_exchanges := AList.delete exchangeIndex (em_exchanges em)\<rparr>)
            (case session of
               SecureRef r \<Rightarrow> if ref_closing (em_sessionManager em) session then map_option snd (close r em) else Some em
             | InsecureRef _ _ \<Rightarrow> Some em))"

definition closeInternal_with ::
  "(nat \<Rightarrow> 'h ExchangeManager \<Rightarrow> 'h closing option) \<Rightarrow> nat \<Rightarrow> 'h ExchangeManager \<Rightarrow> 'h ExchangeManager option" where
  "closeInternal_with close ref em =
     (case closeInternal (exchange_of ref em) of
        (outs, ex) \<Rightarrow>
          deleteExchange_with close (mx_index (em_objects em ref))
            (log_events (map (ExchangeEvent ref) outs) (set_exchange ref ex em)))"

definition destroy_with ::
  "(nat \<Rightarrow> 'h ExchangeManager \<Rightarrow> 'h closing option) \<Rightarrow> nat \<Rightarrow> 'h ExchangeManager \<Rightarrow> 'h ExchangeManager option" where
  "destroy_with close ref em = closeInternal_with close ref (finish_ack ref (exchange_destroy (exchange_of ref em)) em)"

text \<open>The timer of a closed exchange fires.\<close>

definition close_timer_fires ::
  "(nat \<Rightarrow> 'h ExchangeManager \<Rightarrow> 'h closing option) \<Rightarrow> nat \<Rightarrow> 'h ExchangeManager \<Rightarrow> 'h ExchangeManager option" where
  "close_timer_fires close ref em =
     (if ex_closeTimer (exchange_of ref em) = Some True then closeInternal_with close ref em else Some em)"

text \<open>The exchanges of a session, visited in the order of the map; what has been deleted meanwhile is skipped.\<close>

fun destroy_all ::
  "(nat \<Rightarrow> 'h ExchangeManager \<Rightarrow> 'h closing option) \<Rightarrow> (ManagedExchange \<Rightarrow> 'h ExchangeManager \<Rightarrow> bool) \<Rightarrow>
   int list \<Rightarrow> 'h ExchangeManager \<Rightarrow> 'h ExchangeManager option" where
  "destroy_all close which [] em = Some em"
| "destroy_all close which (i # is) em =
     (case map_of (em_exchanges em) i of
        None \<Rightarrow> destroy_all close which is em
      | Some ref \<Rightarrow>
          if which (em_objects em ref) em then Option.bind (destroy_with close ref em) (destroy_all close which is)
          else destroy_all close which is em)"

text \<open>The message that closes a session: a report of success with the status \<^verbatim>\<open>CloseSession\<close>.\<close>

definition CloseSession :: StatusMessage where
  "CloseSession =
     \<lparr>sm_generalStatus = GeneralStatusCode_Success, sm_protocolId = SECURE_CHANNEL_PROTOCOL_ID,
      sm_protocolStatus = ProtocolStatusCode_CloseSession\<rparr>"

definition CloseSession_payload :: "byte list" where
  "CloseSession_payload = projr (status_encode CloseSession)"

definition close_options :: ExchangeSendOptions where
  "close_options = \<lparr>so_expectAckOnly = False, so_minimumResponseTimeoutMs = None, so_requiresAck = Some False,
     so_includeAcknowledgeMessageId = None\<rparr>"

text \<open>The close message, over an exchange of its own.\<close>

definition send_close ::
  "(nat \<Rightarrow> 'h ExchangeManager \<Rightarrow> 'h closing option) \<Rightarrow> nat \<Rightarrow> 'h ExchangeManager \<Rightarrow> 'h ExchangeManager option" where
  "send_close close channel em =
     (case initiateExchangeWithChannel channel SECURE_CHANNEL_PROTOCOL_ID em of
        (ref, em) \<Rightarrow>
          let em = (case send_start MessageType_StatusReport CloseSession_payload close_options (exchange_of ref em) of
                      (Inl e, ex) \<Rightarrow> set_exchange ref ex em
                    | (Inr c, ex) \<Rightarrow> transmit 0 ref c (set_exchange ref ex em));
              em = finish_ack ref (exchange_close (exchange_of ref em)) em
          in destroy_with close ref em)"

definition closeSession_with ::
  "(nat \<Rightarrow> 'h ExchangeManager \<Rightarrow> 'h closing option) \<Rightarrow> nat \<Rightarrow> 'h ExchangeManager \<Rightarrow> 'h closing option" where
  "closeSession_with close r em =
     (let sessionId = ss_id (mg_objects (em_sessionManager em) r);
          (found, m) = getSession sessionId (em_sessionManager em);
          em = em\<lparr>em_sessionManager := m\<rparr>
      in if found = None then Some (Inr (), em)
         else if sessionId \<in> em_closingSessions em then Some (Inr (), em)
         else
           let em = em\<lparr>em_closingSessions := insert sessionId (em_closingSessions em)\<rparr> in
           Option.bind (destroy_all close (\<lambda>mx em. session_id_in em (mx_session mx) = sessionId) (map fst (em_exchanges em)) em) (\<lambda>em.
           case (if ss_sendCloseMessageWhenClosing (mg_objects (em_sessionManager em) r)
                 then getChannelForSession (SecureRef r) (em_sessionManager em) (em_channelManager em) else Inr None) of
             Inl e \<Rightarrow> Some (Inl e, em)
           | Inr channel \<Rightarrow>
               Option.bind (case channel of None \<Rightarrow> Some em | Some ch \<Rightarrow> send_close close ch em) (\<lambda>em.
                 let m = em_sessionManager em;
                     m = (if ss_closingAfterExchangeFinished (mg_objects m r) then destroy_ref False False r m else m)
                 in Some (Inr (), em\<lparr>em_sessionManager := removeSession sessionId m,
                                     em_closingSessions := em_closingSessions em - {sessionId}\<rparr>))))"

fun closeSession :: "nat \<Rightarrow> nat \<Rightarrow> 'h ExchangeManager \<Rightarrow> 'h closing option" where
  "closeSession 0 r em = None"
| "closeSession (Suc depth) r em = closeSession_with (closeSession depth) r em"

definition deleteExchange :: "nat \<Rightarrow> int \<Rightarrow> 'h ExchangeManager \<Rightarrow> 'h ExchangeManager option" where
  "deleteExchange depth = deleteExchange_with (closeSession depth)"

definition close_exchanges :: "nat \<Rightarrow> 'h ExchangeManager \<Rightarrow> 'h ExchangeManager option" where
  "close_exchanges depth em =
     (let em = log_events (map (\<lambda>(_, h). ProtocolClosed h) (em_protocols em) @ [ListenersClosed (em_transportListeners em)])
                 (em\<lparr>em_transportListeners := 0\<rparr>)
      in map_option (\<lambda>em. em\<lparr>em_exchanges := []\<rparr>)
           (destroy_all (closeSession depth) (\<lambda>_ _. True) (map fst (em_exchanges em)) em))"

end
