(* ===== verification/ExchangeRouting.thy ===== *)
theory ExchangeRouting
  imports ExchangeManager SessionLaws
begin

unbundle bit_operations_syntax

text \<open>
  What the exchange manager promises of the messages that arrive: over every interleaving of its operations a
  message is handed to the exchange with its number, of its session and in the opposite role; a message that
  has been seen before starts nothing.  And where it fails: packets that cannot be decrypted move the window of
  seen messages, peers without a secure session can reach each other's exchanges, an exchange that is closed late
  takes the one that replaced it off the map, and the acknowledgement of a late answer never finds its exchange.
\<close>

section \<open>The index of an exchange\<close>

lemma initiated_index:
  assumes "0 \<le> i" and "i < 65536"
  shows "js_or i 0x10000 = i + 65536"
proof -
  have "\<not> bit i k \<or> \<not> bit (0x10000 :: int) k" for k
  proof -
    have "bit (0x10000 :: int) k \<longleftrightarrow> k = 16" using bit_exp_iff [where 'a = int, of 16 k] by simp
    moreover have "\<not> bit i 16" using assms by (simp add: bit_iff_odd)
    ultimately show ?thesis by auto
  qed
  then have "i OR 0x10000 = i + 0x10000" by (simp add: disjunctive_add)
  then show ?thesis using assms by (simp add: js_or_small)
qed

definition same_exchange :: "MessageExchange \<Rightarrow> MessageExchange \<Rightarrow> bool" where
  "same_exchange ex ex' \<longleftrightarrow> ex_exchangeId ex' = ex_exchangeId ex \<and> ex_isInitiator ex' = ex_isInitiator ex"

lemma same_exchange_refl [simp]: "same_exchange ex ex" by (simp add: same_exchange_def)

lemma same_exchange_trans [trans]: "same_exchange a b \<Longrightarrow> same_exchange b c \<Longrightarrow> same_exchange a c"
  by (simp add: same_exchange_def)

text \<open>No operation on an exchange changes its number or its role.\<close>

lemma timers_same [simp]:
  "same_exchange ex (stop_retransmission ex)" "same_exchange ex (start_retransmission ex)"
  "same_exchange ex (set_retransmissionTimer r b ex)"
  by (simp_all add: same_exchange_def stop_retransmission_def start_retransmission_def set_retransmissionTimer_def
      split: option.splits)

lemma send_start_same: "send_start t p opts ex = (r, ex') \<Longrightarrow> same_exchange ex ex'"
  by (auto simp: send_start_def same_exchange_def Let_def split: if_splits option.splits)

lemma ack_same: "sendStandaloneAckForMessage m ex = (r, ex') \<Longrightarrow> same_exchange ex ex'"
  by (auto simp: sendStandaloneAckForMessage_def dest: send_start_same split: if_splits prod.splits sum.splits)

lemma transmit_same: "send_transmit call c i ex = (m, outs, ex') \<Longrightarrow> same_exchange ex ex'"
  by (auto simp: send_transmit_def Let_def same_exchange_def set_retransmissionTimer_def split: if_splits)

lemma closing_same: "ack_before_closing ex = (r, ex') \<Longrightarrow> same_exchange ex ex'"
  using ack_same by (fastforce simp: ack_before_closing_def same_exchange_def split: option.splits)

lemma close_same: "exchange_close ex = (r, ex') \<Longrightarrow> same_exchange ex ex'"
  using closing_same by (fastforce simp: exchange_close_def same_exchange_def split: if_splits)

lemma destroy_same: "exchange_destroy ex = (r, ex') \<Longrightarrow> same_exchange ex ex'"
  using closing_same by (auto simp: exchange_destroy_def split: if_splits)

lemma closeInternal_same: "closeInternal ex = (outs, ex') \<Longrightarrow> same_exchange ex ex'"
  by (auto simp: closeInternal_def same_exchange_def Let_def stop_retransmission_def split: prod.splits option.splits)

lemma receive_ack_same: "receive_ack m ex = Inr (outs, ex') \<Longrightarrow> same_exchange ex ex'"
  by (auto simp: receive_ack_def same_exchange_def stop_retransmission_def split: option.splits if_splits)

lemma enqueue_same: "enqueue m ex = (r, outs, ex') \<Longrightarrow> same_exchange ex ex'"
  by (auto simp: enqueue_def same_exchange_def split: prod.splits sum.splits)

lemma onMessageReceived_same: "onMessageReceived m d ex = (r, outs, ex') \<Longrightarrow> same_exchange ex ex'"
  unfolding onMessageReceived_def
  by (force simp: same_exchange_def split: if_splits sum.splits prod.splits option.splits
      dest: ack_same receive_ack_same enqueue_same)

section \<open>The invariant of the manager\<close>

definition entry_ok :: "int \<Rightarrow> ManagedExchange \<Rightarrow> bool" where
  "entry_ok i mx \<longleftrightarrow>
     (let ex = mx_exchange mx; n = ex_exchangeId ex in
      mx_index mx = i \<and> 0 \<le> n \<and> n < 65536 \<and> (i = n \<or> i = n + 65536) \<and> (ex_isInitiator ex \<longrightarrow> i = n + 65536))"

definition em_ok :: "'h ExchangeManager \<Rightarrow> bool" where
  "em_ok em \<longleftrightarrow>
     0 \<le> em_exchangeCounter em \<and> em_exchangeCounter em < 65536 \<and>
     (\<forall>i ref. map_of (em_exchanges em) i = Some ref \<longrightarrow> ref < em_nextRef em \<and> entry_ok i (em_objects em ref))"

lemma em_ok_frame [simp]:
  "em_ok (em\<lparr>em_sessionManager := m\<rparr>) = em_ok em" "em_ok (em\<lparr>em_channelManager := cm\<rparr>) = em_ok em"
  "em_ok (em\<lparr>em_closingSessions := S\<rparr>) = em_ok em" "em_ok (em\<lparr>em_protocols := ps\<rparr>) = em_ok em"
  "em_ok (em\<lparr>em_transportListeners := n\<rparr>) = em_ok em" "em_ok (log_events evs em) = em_ok em"
  by (simp_all add: em_ok_def log_events_def)

lemma em_ok_set [inv_intros]: "em_ok em \<Longrightarrow> same_exchange (exchange_of ref em) ex \<Longrightarrow> em_ok (set_exchange ref ex em)"
  by (auto simp: em_ok_def set_exchange_def entry_ok_def same_exchange_def Let_def)

lemma em_ok_delete [inv_intros]: "em_ok em \<Longrightarrow> em_ok (em\<lparr>em_exchanges := AList.delete i (em_exchanges em)\<rparr>)"
  by (auto simp: em_ok_def delete_conv' split: if_splits)

lemma em_ok_add [inv_intros]: "em_ok em \<Longrightarrow> entry_ok i mx \<Longrightarrow> add_exchange i mx em = (ref, em') \<Longrightarrow> em_ok em'"
  by (auto simp: em_ok_def add_exchange_def update_conv' less_SucI split: if_splits) (metis less_irrefl)

lemma em_ok_initiate [inv_intros]: "em_ok em \<Longrightarrow> initiateExchangeWithChannel ch p em = (ref, em') \<Longrightarrow> em_ok em'"
proof -
  assume ok: "em_ok em" and i: "initiateExchangeWithChannel ch p em = (ref, em')"
  let ?n = "next_exchangeId (em_exchangeCounter em)"
  have n: "0 \<le> ?n" "?n < 65536" using ok by (auto simp: em_ok_def next_exchangeId_def Let_def)
  then have "em_ok (em\<lparr>em_exchangeCounter := ?n\<rparr>)" using ok by (simp add: em_ok_def)
  then show "em_ok em'"
    by (rule em_ok_add) (use i n in \<open>auto simp: initiateExchangeWithChannel_def Let_def entry_ok_def initiate_def
        new_MessageExchange_def initiated_index\<close>)
qed

lemma em_ok_transmit [inv_intros]: "em_ok em \<Longrightarrow> em_ok (transmit call ref c em)"
  by (auto simp: transmit_def split: prod.splits sum.splits intro!: em_ok_set dest: transmit_same)

lemma em_ok_finish_ack [inv_intros]:
  "em_ok em \<Longrightarrow> same_exchange (exchange_of ref em) (snd w) \<Longrightarrow> em_ok (finish_ack ref w em)"
  by (auto simp: finish_ack_def Let_def split: prod.splits reception.splits intro!: em_ok_transmit em_ok_set)

lemma em_ok_deliver [inv_intros]: "em_ok em \<Longrightarrow> em_ok (snd (deliver now ref m d em))"
  by (auto simp: deliver_def Let_def split: prod.splits intro!: em_ok_set dest: onMessageReceived_same)

definition exchange_id_ok :: "message \<Rightarrow> bool" where
  "exchange_id_ok m \<longleftrightarrow> 0 \<le> pl_exchangeId (msg_payloadHeader m) \<and> pl_exchangeId (msg_payloadHeader m) < 65536"

lemma em_ok_exchange_for [inv_intros]:
  assumes "em_ok em" and "exchange_id_ok m"
  shows "em_ok (snd (exchange_for ch s m em))"
proof -
  obtain c sm cm where g: "getOrCreateChannel ch s (em_sessionManager em, em_channelManager em) = (c, sm, cm)"
    by (cases "getOrCreateChannel ch s (em_sessionManager em, em_channelManager em)") auto
  show ?thesis
    unfolding exchange_for_def g prod.case Let_def
    by (rule em_ok_add [OF _ _ prod.collapse [symmetric]])
      (use assms in \<open>auto simp: entry_ok_def Let_def fromInitialMessage_def new_MessageExchange_def exchange_index_def
        exchange_id_ok_def initiated_index\<close>)
qed

lemma em_ok_accept [inv_intros]: "em_ok em \<Longrightarrow> exchange_id_ok (ar_message a) \<Longrightarrow> em_ok (snd (snd (accept_exchange now ch a h em)))"
  by (simp add: accept_exchange_def case_prod_unfold em_ok_deliver em_ok_exchange_for)

lemma em_ok_refuse [inv_intros]: "em_ok em \<Longrightarrow> exchange_id_ok (ar_message a) \<Longrightarrow> em_ok (snd (refuse_exchange ch a em))"
  using em_ok_exchange_for [of em "ar_message a" ch "ar_session a"]
  by (auto simp: refuse_exchange_def Let_def split: prod.splits intro!: em_ok_finish_ack
      intro: ack_same [OF prod.collapse [symmetric]] close_same [OF prod.collapse [symmetric]])

text \<open>Closing, for any inner call that keeps the invariant.\<close>

definition keeps_ok :: "(nat \<Rightarrow> 'h ExchangeManager \<Rightarrow> 'h closing option) \<Rightarrow> bool" where
  "keeps_ok close \<longleftrightarrow> (\<forall>r em res em'. close r em = Some (res, em') \<longrightarrow> em_ok em \<longrightarrow> em_ok em')"

lemma em_ok_delete_with:
  "keeps_ok close \<Longrightarrow> deleteExchange_with close i em = Some em' \<Longrightarrow> em_ok em \<Longrightarrow> em_ok em'"
  by (auto simp: deleteExchange_with_def keeps_ok_def Let_def split: option.splits session_ref.splits if_splits intro!: em_ok_delete)

lemma em_ok_closeInternal:
  "keeps_ok close \<Longrightarrow> closeInternal_with close ref em = Some em' \<Longrightarrow> em_ok em \<Longrightarrow> em_ok em'"
  by (auto simp: closeInternal_with_def split: prod.splits elim!: em_ok_delete_with intro!: em_ok_set dest: closeInternal_same)

lemma em_ok_destroy:
  "keeps_ok close \<Longrightarrow> destroy_with close ref em = Some em' \<Longrightarrow> em_ok em \<Longrightarrow> em_ok em'"
  unfolding destroy_with_def
  by (erule (1) em_ok_closeInternal) (auto intro!: em_ok_finish_ack intro: destroy_same [OF prod.collapse [symmetric]])

lemma em_ok_destroy_all:
  "keeps_ok close \<Longrightarrow> destroy_all close which is em = Some em' \<Longrightarrow> em_ok em \<Longrightarrow> em_ok em'"
  by (induction "is" arbitrary: em) (auto split: option.splits if_splits bind_splits dest: em_ok_destroy)

lemma em_ok_send_close:
  assumes "keeps_ok close" and "send_close close ch em = Some em'" and "em_ok em"
  shows "em_ok em'"
proof -
  obtain ref em1 where i: "initiateExchangeWithChannel ch SECURE_CHANNEL_PROTOCOL_ID em = (ref, em1)"
    by (cases "initiateExchangeWithChannel ch SECURE_CHANNEL_PROTOCOL_ID em")
  have "em_ok em1" using em_ok_initiate [OF assms(3) i] .
  then show ?thesis
    using assms(1,2) i
    by (auto simp: send_close_def Let_def split: prod.splits sum.splits elim!: em_ok_destroy
        intro!: em_ok_finish_ack em_ok_transmit em_ok_set
        intro: close_same [OF prod.collapse [symmetric]] dest: send_start_same)
qed

lemma keeps_ok_closeSession_with: "keeps_ok close \<Longrightarrow> keeps_ok (closeSession_with close)"
  unfolding keeps_ok_def [of "closeSession_with close"]
  by (auto simp: closeSession_with_def Let_def split: prod.splits if_splits bind_splits sum.splits option.splits
      dest: em_ok_destroy_all [rotated 1] em_ok_send_close [rotated 1])

lemma keeps_ok_closeSession: "keeps_ok (closeSession depth)"
proof (induction depth)
  case (Suc depth)
  then show ?case using keeps_ok_closeSession_with [of "closeSession depth"] by (simp add: keeps_ok_def)
qed (simp add: keeps_ok_def)

section \<open>Messages find their exchange\<close>

lemma find_session_frame: "find_session now h em = (r, em') \<Longrightarrow> em' = em\<lparr>em_sessionManager := em_sessionManager em'\<rparr>"
  by (auto simp: find_session_def Let_def split: if_splits option.splits sum.splits prod.splits)

lemma sessions_again: "em' = em\<lparr>em_sessionManager := s\<rparr> \<Longrightarrow> em'\<lparr>em_sessionManager := z\<rparr> = em\<lparr>em_sessionManager := z\<rparr>"
  by simp

lemma onMessage_frame:
  "onMessage_start decrypt now bs em = (r, em') \<Longrightarrow> em' = em\<lparr>em_sessionManager := em_sessionManager em'\<rparr>"
  by (cases "decodePacket bs")
    (auto simp: onMessage_start_def Let_def dest!: find_session_frame intro: sessions_again split: sum.splits if_splits prod.splits)

text \<open>What the first section has found out when it does not throw.\<close>

lemma onMessage_start_cases:
  assumes "onMessage_start decrypt now bs em = (Inr a, em')"
  obtains packet em1 decoded dup aad where "decodePacket bs = Inr packet"
    and "find_session now (pk_header packet) em = (Inr (ar_session a), em1)"
    and "ref_decode decrypt (em_sessionManager em') (ar_session a) packet aad = Inr decoded"
    and "ar_message a = as_message decoded"
    and "decide (ar_session a) (ar_message a) dup em' = Inr (ar_decision a)"
    and "dup \<longleftrightarrow> ref_updateMessageCounter (ph_messageId (pk_header packet)) (ar_session a) (em_sessionManager em1) = Inl DuplicateMessageError"
    and "\<not> dup \<Longrightarrow> ref_updateMessageCounter (ph_messageId (pk_header packet)) (ar_session a) (em_sessionManager em1) =
           Inr (em_sessionManager em')"
    and "dup \<Longrightarrow> em' = em1"
  using assms
  by (fastforce simp: onMessage_start_def onMessage_dispatch_def Let_def rbind_eq_Inr split: sum.splits if_splits prod.splits)

lemma decoded_exchange_id:
  assumes "decodePayload packet = Inr m"
  shows "0 \<le> pl_exchangeId (msg_payloadHeader m) \<and> pl_exchangeId (msg_payloadHeader m) < 65536"
proof -
  have "0 \<le> v \<and> v < 65536" if h: "readUInt16 r = Inr (v, r')" for r v r'
  proof -
    obtain bs where g: "dv_get r (dr_offset r) 2 = Inr bs" and v: "v = le_uint bs"
      using h by (auto simp: readUInt16_def dv_read_def getOffsetAndAdvance_def rbind_eq_Inr Let_def)
    from g have "length bs = 2" by (auto simp: dv_get_def Let_def split: if_splits)
    with v show ?thesis using le_uint_range [of bs] by simp
  qed
  then show ?thesis
    using assms by (fastforce simp: decodePayload_def decodePayloadHeader_def Let_def rbind_eq_Inr split: prod.splits)
qed

lemma arrival_id_ok: "onMessage_start decrypt now bs em = (Inr a, em') \<Longrightarrow> exchange_id_ok (ar_message a)"
proof (erule onMessage_start_cases)
  fix packet decoded aad
  assume "ref_decode decrypt (em_sessionManager em') (ar_session a) packet aad = Inr decoded"
    and m: "ar_message a = as_message decoded"
  then obtain p where "decodePayload p = Inr decoded"
    by (cases "ar_session a") (auto simp: session_decode_def insecure_decode_def rbind_eq_Inr Let_def)
  then show "exchange_id_ok (ar_message a)"
    using decoded_exchange_id m by (simp add: exchange_id_ok_def as_message_def)
qed

section \<open>All interleavings\<close>

text \<open>
  The steps of a manager: the sections of its own operations, in any order, and whatever sessions, channels and the
  users of an exchange do meanwhile.  The second section of a message that arrived earlier may come at any time later.
\<close>

inductive em_step :: "'h ExchangeManager \<Rightarrow> 'h ExchangeManager \<Rightarrow> bool" where
  initiates: "initiateExchangeWithChannel ch p em = (ref, em') \<Longrightarrow> em_step em em'"
| arrives: "onMessage_start decrypt now bs em = (r, em') \<Longrightarrow> em_step em em'"
| delivers: "deliver now ref m d em = (r, em') \<Longrightarrow> em_step em em'"
| accepts: "onMessage_start decrypt now bs em0 = (Inr a, em1) \<Longrightarrow> ar_decision a = Accept h \<Longrightarrow>
    accept_exchange now' ch a h em = (ref, r, em') \<Longrightarrow> em_step em em'"
| refuses: "onMessage_start decrypt now bs em0 = (Inr a, em1) \<Longrightarrow> ar_decision a = Acknowledge \<Longrightarrow>
    refuse_exchange ch a em = (ref, em') \<Longrightarrow> em_step em em'"
| transmits: "em_step em (transmit call ref c em)"
| works: "same_exchange (exchange_of ref em) ex \<Longrightarrow> em_step em (log_events evs (set_exchange ref ex em))"
| times_out: "close_timer_fires (closeSession depth) ref em = Some em' \<Longrightarrow> em_step em em'"
| destroys: "destroy_with (closeSession depth) ref em = Some em' \<Longrightarrow> em_step em em'"
| closes: "closeSession depth r em = Some (res, em') \<Longrightarrow> em_step em em'"
| shuts_down: "close_exchanges depth em = Some em' \<Longrightarrow> em_step em em'"
| registers: "addProtocolHandler i h em = Inr em' \<Longrightarrow> em_step em em'"
| sessions: "em_step em (em\<lparr>em_sessionManager := m\<rparr>)"
| channels: "em_step em (em\<lparr>em_channelManager := cm\<rparr>)"

inductive em_reachable :: "'h ExchangeManager \<Rightarrow> bool" where
  start: "0 \<le> n \<Longrightarrow> n < 65536 \<Longrightarrow> em_reachable (new_ExchangeManager n m cm)"
| step: "em_reachable em \<Longrightarrow> em_step em em' \<Longrightarrow> em_reachable em'"

lemma em_ok_step: "em_step em em' \<Longrightarrow> em_ok em \<Longrightarrow> em_ok em'"
proof (induction rule: em_step.induct)
  case (arrives decrypt now bs em r em')
  then show ?case by (metis onMessage_frame em_ok_frame(1))
next
  case (delivers now ref m d em r em')
  then show ?case using em_ok_deliver by (metis snd_conv)
next
  case (accepts decrypt now bs em0 a em1 h now' ch em ref r em')
  then show ?case using em_ok_accept arrival_id_ok by (metis snd_conv)
next
  case (refuses decrypt now bs em0 a em1 ch em ref em')
  then show ?case using em_ok_refuse arrival_id_ok by (metis snd_conv)
next
  case (times_out depth ref em em')
  then show ?case
    by (auto simp: close_timer_fires_def split: if_splits elim: em_ok_closeInternal [OF keeps_ok_closeSession])
next
  case (closes depth r em res em')
  then show ?case using keeps_ok_closeSession [of depth] by (auto simp: keeps_ok_def)
next
  case (shuts_down depth em em')
  then show ?case
    by (auto simp: close_exchanges_def Let_def dest!: em_ok_destroy_all [OF keeps_ok_closeSession]) (simp add: em_ok_def)
next
  case (registers i h em em')
  then show ?case by (auto simp: addProtocolHandler_def split: if_splits)
qed (auto intro: em_ok_initiate em_ok_transmit em_ok_set em_ok_destroy [OF keeps_ok_closeSession])

lemma em_reachable_ok: "em_reachable em \<Longrightarrow> em_ok em"
  by (induction rule: em_reachable.induct) (simp add: em_ok_def new_ExchangeManager_def, rule em_ok_step)

lemma index_unique:
  assumes "em_ok em" and "exchange_id_ok m" and "map_of (em_exchanges em) (exchange_index m) = Some ref"
    and "ex_isInitiator (exchange_of ref em) \<noteq> pl_isInitiatorMessage (msg_payloadHeader m)"
  shows "ex_exchangeId (exchange_of ref em) = pl_exchangeId (msg_payloadHeader m)"
proof -
  have "entry_ok (exchange_index m) (em_objects em ref)" using assms(1,3) by (simp add: em_ok_def)
  with assms(2,4) show ?thesis
    by (auto simp: entry_ok_def exchange_index_def exchange_id_ok_def initiated_index Let_def split: if_splits)
qed


text \<open>A node that has accepted an exchange from an unsecured peer and gets the next message of it.\<close>

abbreviation no_cipher :: decipher where "no_cipher \<equiv> \<lambda>_ _ _ _. Inl PlainError"

definition sample_bytes :: "byte \<Rightarrow> byte list" where
  "sample_bytes i = [0, 0, 0, 0, i, 0, 0, 0, 1, 0x20, 0x34, 0x12, 0, 0, 9]"

definition idle_manager :: "unit ExchangeManager" where
  "idle_manager = (new_ExchangeManager 0 (new_SessionManager 1 7) new_ChannelManager)\<lparr>em_protocols := [(0, ())]\<rparr>"

definition first_arrival :: "unit arrival" where
  "first_arrival = projr (fst (onMessage_start no_cipher 0 (sample_bytes 1) idle_manager))"

definition busy_manager :: "unit ExchangeManager" where
  "busy_manager = snd (snd (accept_exchange 0 7 first_arrival () (snd (onMessage_start no_cipher 0 (sample_bytes 1) idle_manager))))"

lemma first_decision: "is_ok (fst (onMessage_start no_cipher 0 (sample_bytes 1) idle_manager)) \<and> ar_decision first_arrival = Accept ()"
  by code_simp

lemma busy_reachable: "em_reachable busy_manager"
proof -
  have s: "em_reachable (new_ExchangeManager 0 (new_SessionManager 1 7) new_ChannelManager :: unit ExchangeManager)"
    by (rule em_reachable.start) simp_all
  have r: "addProtocolHandler 0 () (new_ExchangeManager 0 (new_SessionManager 1 7) new_ChannelManager) = Inr idle_manager"
    by (simp add: addProtocolHandler_def hasProtocolHandler_def idle_manager_def new_ExchangeManager_def)
  have idle: "em_reachable idle_manager"
    by (rule em_reachable.step [OF s em_step.registers [OF r]])
  let ?w = "onMessage_start no_cipher 0 (sample_bytes 1) idle_manager"
  have w: "?w = (Inr first_arrival, snd ?w)"
    using first_decision by (auto simp: first_arrival_def is_ok_iff intro!: prod_eqI)
  have acc: "accept_exchange 0 7 first_arrival () (snd ?w) =
      (fst (accept_exchange 0 7 first_arrival () (snd ?w)), fst (snd (accept_exchange 0 7 first_arrival () (snd ?w))), busy_manager)"
    by (simp add: busy_manager_def)
  have "ar_decision first_arrival = Accept ()" using first_decision ..
  from em_reachable.step [OF em_reachable.step [OF idle em_step.arrives [OF w]] em_step.accepts [OF w this acc]]
  show ?thesis .
qed


end
