(* ===== verification/ExchangeSafety.thy ===== *)
theory ExchangeSafety
  imports ExchangeRouting
begin

text \<open>
  Messages that arrive twice, and what goes wrong with messages: on a secure session no message is processed twice,
  whatever happens between its arrivals, through the interface \<open>replay_filter\<close> of the reception window.  A packet
  nobody can decrypt still moves that window; peers without a secure session share the numbers of their exchanges; an
  exchange that is closed late unregisters its successor; the acknowledgement of a late answer is lost.
\<close>

section \<open>Every message once\<close>

abbreviation reception_of :: "nat \<Rightarrow> 'h ExchangeManager \<Rightarrow> MessageReceptionState" where
  "reception_of r em \<equiv> s_messageReceptionState (mg_objects (em_sessionManager em) r)"

lemma find_session_reception: "find_session now h em = (res, em') \<Longrightarrow> reception_of r em' = reception_of r em"
  by (auto simp: find_session_def createUnsecureSession_def getSession_def Let_def
      split: if_splits option.splits sum.splits prod.splits)

lemma ref_update_reception:
  "ref_updateMessageCounter c s m = Inr m' \<Longrightarrow>
     (if s = SecureRef r then updateMessageCounter c (s_messageReceptionState (mg_objects m r)) = Inr (s_messageReceptionState (mg_objects m' r))
      else s_messageReceptionState (mg_objects m' r) = s_messageReceptionState (mg_objects m r))"
  by (cases s) (auto simp: session_updateMessageCounter_def rbind_eq_Inr split: option.splits)

text \<open>What the arrival of a message does to the reception state of a session.\<close>

lemma arrival_reception:
  assumes "onMessage_start decrypt now bs em = (res, em')"
  shows "reception_of r em' = reception_of r em \<or>
    (\<exists>packet. decodePacket bs = Inr packet \<and>
       updateMessageCounter (ph_messageId (pk_header packet)) (reception_of r em) = Inr (reception_of r em'))"
proof (cases "decodePacket bs")
  case (Inr packet)
  obtain fs em1 where f: "find_session now (pk_header packet) em = (fs, em1)" by fastforce
  note r1 = find_session_reception [OF f, of r]
  show ?thesis
  proof (cases fs)
    case (Inr s)
    with \<open>decodePacket bs = Inr packet\<close> f r1 assms show ?thesis
      using ref_update_reception [of "ph_messageId (pk_header packet)" s "em_sessionManager em1" _ r]
      by (auto simp: onMessage_start_def Let_def split: if_splits sum.splits)
  qed (use Inr f r1 assms in \<open>auto simp: onMessage_start_def Let_def split: if_splits\<close>)
qed (use assms in \<open>auto simp: onMessage_start_def\<close>)

text \<open>The message starts something: it is delivered as new or opens an exchange.\<close>

definition fresh_arrival :: "'h arrival \<Rightarrow> bool" where
  "fresh_arrival a \<longleftrightarrow> (case ar_decision a of Deliver _ dup \<Rightarrow> \<not> dup | Accept _ \<Rightarrow> True | _ \<Rightarrow> False)"

lemma fresh_reception:
  assumes "onMessage_start decrypt now bs em = (Inr a, em')" and "fresh_arrival a" and "ar_session a = SecureRef r"
    and "decodePacket bs = Inr packet"
  shows "updateMessageCounter (ph_messageId (pk_header packet)) (reception_of r em) = Inr (reception_of r em')"
  using assms(1)
proof (rule onMessage_start_cases)
  fix p em1 decoded dup aad
  assume p: "decodePacket bs = Inr p" and f: "find_session now (pk_header p) em = (Inr (ar_session a), em1)"
    and d: "decide (ar_session a) (ar_message a) dup em' = Inr (ar_decision a)"
    and u: "\<not> dup \<Longrightarrow> ref_updateMessageCounter (ph_messageId (pk_header p)) (ar_session a) (em_sessionManager em1) = Inr (em_sessionManager em')"
  have "\<not> dup" using d assms(2)
    by (auto simp: fresh_arrival_def decide_def split: option.splits if_splits decision.splits)
  from ref_update_reception [OF u [OF this], of r] find_session_reception [OF f, of r] p assms(3,4)
  show ?thesis by simp
qed

text \<open>
  The traffic of a session: \<open>cs\<close> are the numbers of the messages that were processed so far.  Between messages anything may
  happen that leaves the reception state of the session.
\<close>

inductive traffic :: "nat \<Rightarrow> 'h ExchangeManager \<Rightarrow> int list \<Rightarrow> bool" for r where
  opened: "reception_of r em = new_MessageReceptionState EncryptedWithoutRollover None \<Longrightarrow> traffic r em []"
| other: "traffic r em cs \<Longrightarrow> reception_of r em' = reception_of r em \<Longrightarrow> traffic r em' cs"
| processed: "traffic r em cs \<Longrightarrow> onMessage_start decrypt now bs em = (Inr a, em') \<Longrightarrow> decodePacket bs = Inr packet \<Longrightarrow>
    ar_session a = SecureRef r \<Longrightarrow> fresh_arrival a \<Longrightarrow> traffic r em' (ph_messageId (pk_header packet) # cs)"
| unprocessed: "traffic r em cs \<Longrightarrow> onMessage_start decrypt now bs em = (res, em') \<Longrightarrow>
    (\<forall>a. res = Inr a \<longrightarrow> \<not> (ar_session a = SecureRef r \<and> fresh_arrival a)) \<Longrightarrow> traffic r em' cs"

lemma traffic_known: "traffic r em cs \<Longrightarrow> distinct cs \<and> (\<exists>A. set cs \<subseteq> A \<and> known_without_rollover (reception_of r em) A)"
proof (induction rule: traffic.induct)
  case (opened em)
  then show ?case using known_new [of None] by (auto intro!: exI [of _ "{}"])
next
  case (other em cs em')
  then show ?case by simp
next
  case (processed em cs decrypt now bs a em' packet)
  then obtain A where A: "set cs \<subseteq> A" "known_without_rollover (reception_of r em) A" by blast
  have u: "updateMessageCounter (ph_messageId (pk_header packet)) (reception_of r em) = Inr (reception_of r em')"
    using processed.hyps by (intro fresh_reception)
  from A without_rollover.fresh [OF A(2) u] without_rollover.recorded [OF A(2) u] processed.IH show ?case
    by (auto intro!: exI [of _ "insert (ph_messageId (pk_header packet)) A"])
next
  case (unprocessed em cs decrypt now bs res em')
  then obtain A where A: "set cs \<subseteq> A" "known_without_rollover (reception_of r em) A" by blast
  from arrival_reception [OF unprocessed.hyps(2), of r] show ?case
  proof
    assume "\<exists>packet. decodePacket bs = Inr packet \<and>
      updateMessageCounter (ph_messageId (pk_header packet)) (reception_of r em) = Inr (reception_of r em')"
    then obtain i where "updateMessageCounter i (reception_of r em) = Inr (reception_of r em')"
      by blast
    from without_rollover.recorded [OF A(2) this] A(1) unprocessed.IH show ?thesis by blast
  qed (use unprocessed.IH in simp)
qed

text \<open>
  C12. No message is processed twice: on a secure session, from its creation on, the messages that were delivered as new or opened an
  exchange all have different numbers, whatever packets arrive and whatever happens between them.
\<close>

theorem processed_once:
  assumes "traffic r em cs"
  shows "distinct cs"
  using traffic_known [OF assms] ..

section \<open>Packets that cannot be decrypted\<close>

lemma behind_window:
  assumes "rs_kind s = EncryptedWithoutRollover" and "rs_maximumMessageCounter s = Some c" and "0 \<le> i" and "i + 32 < c"
    and "c \<le> MAX_COUNTER_VALUE_32BIT"
  shows "updateMessageCounter i s = Inl DuplicateMessageError"
  using assms by (simp add: updateMessageCounter_def calculateDiff_def diff_EncryptedWithoutRollover_def MSG_COUNTER_WINDOW_SIZE_def)

text \<open>
  A packet that carries the id of a session but cannot be decrypted is refused, but only after its number has been recorded: from then on
  every authentic message of the session whose number is more than 32 below is taken for a duplicate.
\<close>

theorem forged_packet_moves_window:
  assumes packet: "decodePacket bs = Inr packet" "ph_sessionType (pk_header packet) = Unicast"
      "ph_sessionId (pk_header packet) \<noteq> UNICAST_UNSECURE_SESSION_ID"
    and session: "getSession (ph_sessionId (pk_header packet)) (em_sessionManager em) = (Some r, m)"
    and forged: "\<And>nonce aad. decrypt (ss_decryptKey (mg_objects m r)) (pk_applicationPayload packet) nonce aad = Inl e"
    and window: "rs_kind (reception_of r em) = EncryptedWithoutRollover" "rs_maximumMessageCounter (reception_of r em) = Some c"
    and ahead: "c < ph_messageId (pk_header packet)" "0 \<le> c" "ph_messageId (pk_header packet) \<le> MAX_COUNTER_VALUE_32BIT"
  shows "\<exists>em'. onMessage_start decrypt now bs em = (Inl e, em') \<and>
    (\<forall>i. 0 \<le> i \<and> i + 32 < ph_messageId (pk_header packet) \<longrightarrow>
       ref_updateMessageCounter i (SecureRef r) (em_sessionManager em') = Inl DuplicateMessageError)"
proof -
  let ?i = "ph_messageId (pk_header packet)"
  have m: "mg_objects m = mg_objects (em_sessionManager em)" using session by (auto simp: getSession_def split: prod.splits)
  obtain st where st: "updateMessageCounter ?i (reception_of r em) = Inr st" "rs_kind st = EncryptedWithoutRollover"
      "rs_maximumMessageCounter st = Some ?i"
    using window ahead calculateMessageCounterBitmap_ahead [of "?i - c" "rs_messageCounterBitmap (reception_of r em)"]
    by (auto simp: updateMessageCounter_def calculateDiff_def diff_EncryptedWithoutRollover_def updateMessageCounterAndBitmap_def Let_def)
  let ?s = "(mg_objects m r)\<lparr>s_messageReceptionState := st\<rparr>"
  let ?m = "m\<lparr>mg_objects := (mg_objects m)(r := ?s)\<rparr>"
  obtain n where "generateNonce (ph_securityFlags (pk_header packet)) ?i (ss_peerNodeId ?s) = Inr n"
    using generateNonce_ok by blast
  then have dec: "session_decode decrypt ?s packet aad = Inl e" for aad
    using forged by (simp add: session_decode_def Let_def)
  have "ref_updateMessageCounter ?i (SecureRef r) m = Inr ?m"
    using st m by (simp add: session_updateMessageCounter_def)
  then have "onMessage_start decrypt now bs em = (Inl e, em\<lparr>em_sessionManager := ?m\<rparr>)"
    using packet session dec
    by (simp add: onMessage_start_def find_session_def onMessage_dispatch_def Let_def)
  moreover have "ref_updateMessageCounter i (SecureRef r) ?m = Inl DuplicateMessageError" if "0 \<le> i" "i + 32 < ?i" for i
    using behind_window [OF st(2,3) that ahead(3)] by (simp add: session_updateMessageCounter_def)
  ultimately show ?thesis by auto
qed

section \<open>Peers without a secure session\<close>

lemma deliver_frame:
  "deliver now ref m d em = (res, em') \<Longrightarrow> em_exchanges em' = em_exchanges em \<and> em_protocols em' = em_protocols em \<and>
     exchange_session ref' em' = exchange_session ref' em \<and> mx_index (em_objects em' ref') = mx_index (em_objects em ref') \<and>
     same_exchange (exchange_of ref' em) (exchange_of ref' em') \<and> em_channelManager em' = em_channelManager em"
  by (auto simp: deliver_def log_events_def set_exchange_def Let_def dest: onMessageReceived_same split: prod.splits)

lemma accept_entry:
  assumes "accept_exchange now ch a h em = (ref, res, em')"
  shows "ref = em_nextRef em" and "map_of (em_exchanges em') (exchange_index (ar_message a)) = Some ref"
    and "exchange_session ref em' = ch_session (cm_objects (em_channelManager em') (fst (getOrCreateChannel ch (ar_session a) (em_sessionManager em, em_channelManager em))))"
    and "\<not> ex_isInitiator (exchange_of ref em')"
    and "ref' \<noteq> ref \<Longrightarrow> mx_index (em_objects em' ref') = mx_index (em_objects em ref')"
proof -
  obtain c sm cm where g: "getOrCreateChannel ch (ar_session a) (em_sessionManager em, em_channelManager em) = (c, sm, cm)"
    by (cases "getOrCreateChannel ch (ar_session a) (em_sessionManager em, em_channelManager em)") auto
  obtain em1 where e: "exchange_for ch (ar_session a) (ar_message a) em = (ref, em1)"
    using assms by (auto simp: accept_exchange_def split: prod.splits)
  obtain em2 where d: "deliver now ref (ar_message a) False em1 = (res, em2)" and em': "em' = log_events [NewExchange h ref (ar_message a)] em2"
    using assms e by (auto simp: accept_exchange_def split: prod.splits)
  note fr = deliver_frame [OF d]
  have e': "ref = em_nextRef em" "map_of (em_exchanges em1) (exchange_index (ar_message a)) = Some ref"
    "exchange_session ref em1 = ch_session (cm_objects cm c)" "em_channelManager em1 = cm" "\<not> ex_isInitiator (exchange_of ref em1)"
    "ref' \<noteq> ref \<Longrightarrow> em_objects em1 ref' = em_objects em ref'" for ref'
    using e g by (auto simp: exchange_for_def add_exchange_def fromInitialMessage_def new_MessageExchange_def update_conv' Let_def)
  show "ref = em_nextRef em" "map_of (em_exchanges em') (exchange_index (ar_message a)) = Some ref"
    "exchange_session ref em' = ch_session (cm_objects (em_channelManager em') (fst (getOrCreateChannel ch (ar_session a) (em_sessionManager em, em_channelManager em))))"
    "\<not> ex_isInitiator (exchange_of ref em')"
    using e' fr [of ref] g em' by (simp_all add: log_events_def same_exchange_def)
  show "ref' \<noteq> ref \<Longrightarrow> mx_index (em_objects em' ref') = mx_index (em_objects em ref')"
    using e'(6) fr [of ref'] em' by (simp add: log_events_def)
qed

text \<open>
  Peers without a secure session reach each other's exchanges: all such sessions have the id 0, so after one peer has opened an
  exchange a message of any other peer with the same exchange number is delivered to that exchange.
\<close>

theorem unsecured_peers_share_exchange:
  assumes "accept_exchange now ch a h em = (ref, res, em')" and "ar_session a = InsecureRef r1 n1"
    and "pl_isInitiatorMessage (msg_payloadHeader (ar_message a))" and "pl_isInitiatorMessage (msg_payloadHeader m)"
    and "pl_exchangeId (msg_payloadHeader m) = pl_exchangeId (msg_payloadHeader (ar_message a))"
  shows "decide (InsecureRef r2 n2) m dup em' = Inr (Deliver ref dup)"
proof -
  note acc = accept_entry [OF assms(1)]
  have i: "exchange_index m = exchange_index (ar_message a)" using assms(3,4,5) by (simp add: exchange_index_def)
  have "em_channelManager em' = snd (getOrCreateAsPaseChannel ch (ar_session a) (em_channelManager em))"
    using assms(1,2)
    by (auto simp: accept_exchange_def exchange_for_def add_exchange_def getOrCreateChannel_def Let_def log_events_def
        dest!: deliver_frame split: prod.splits)
  then have "exchange_session ref em' = InsecureRef r1 n1"
    using acc(3) assms(2) by (simp add: getOrCreateChannel_def getOrCreateAsPaseChannel_def add_channel_def new_MessageChannel_def)
  then show ?thesis using acc(2,4) assms(4) i by (simp add: decide_def find_exchange_def)
qed

section \<open>An exchange that is closed late\<close>

text \<open>
  When a new exchange takes the index of one that is still open, closing the old one unregisters the new one: afterwards no exchange is
  found at the index, although the new one was never closed.
\<close>

theorem late_close_drops_successor:
  assumes "accept_exchange now ch a h em = (new, res, em1)" and "old < em_nextRef em"
    and "mx_index (em_objects em old) = exchange_index (ar_message a)"
    and "\<not> ref_closing (em_sessionManager em1) (exchange_session new em1)"
  shows "map_of (em_exchanges em1) (exchange_index (ar_message a)) = Some new \<and> new \<noteq> old \<and>
    (\<exists>em2. closeInternal_with close old em1 = Some em2 \<and> map_of (em_exchanges em2) (exchange_index (ar_message a)) = None \<and>
       exchange_of new em2 = exchange_of new em1)"
proof -
  note acc = accept_entry [OF assms(1)]
  have n: "new \<noteq> old" using acc(1) assms(2) by simp
  have ix: "mx_index (em_objects em1 old) = exchange_index (ar_message a)" using acc(5) n assms(3) by metis
  have "\<exists>em2. closeInternal_with close old em1 = Some em2 \<and> map_of (em_exchanges em2) (exchange_index (ar_message a)) = None \<and>
       exchange_of new em2 = exchange_of new em1"
    using acc(2) assms(4) n ix
    by (auto simp: closeInternal_with_def deleteExchange_with_def log_events_def set_exchange_def delete_conv' Let_def
        split: prod.splits session_ref.splits)
  with acc(2) n show ?thesis by blast
qed

section \<open>Late answers\<close>

text \<open>
  The acknowledgement of a late answer is lost: when an answer that asks for an acknowledgement arrives after its exchange is gone, one
  acknowledgement is sent, but as if by the side that did not initiate the exchange, so that the peer, which did not
  initiate it either, never finds the exchange that is waiting for it.
\<close>

theorem late_answer_ack_lost:
  fixes peer :: "'p ExchangeManager"
  assumes "refuse_exchange ch a em = (ref, em')" and "requires_ack (ar_message a)"
    and "getOrCreateChannel ch (ar_session a) (em_sessionManager em, em_channelManager em) = (c, sm, cm)"
    and "ref_nextCounter (ch_session (cm_objects cm c)) sm = (Inr i, sm')"
  shows "\<exists>ack. em_log em' = em_log em @ [ExchangeEvent ref (Transmit ack)] \<and>
    acked_id ack = Some (message_id (ar_message a)) \<and>
    pl_exchangeId (msg_payloadHeader ack) = pl_exchangeId (msg_payloadHeader (ar_message a)) \<and>
    (\<forall>s ref'. \<not> ex_isInitiator (exchange_of ref' peer) \<longrightarrow> find_exchange s ack peer \<noteq> Some ref')"
  using assms
  by (auto simp: refuse_exchange_def exchange_for_def add_exchange_def finish_ack_def sendStandaloneAckForMessage_def
      send_start_def ack_options_def transmit_def set_exchange_def send_transmit_def build_message_def log_events_def
      exchange_close_def ack_before_closing_def fromInitialMessage_def new_MessageExchange_def find_exchange_def Let_def
      split: option.splits if_splits)

section \<open>Instances\<close>

abbreviation plain_cipher :: decipher where "plain_cipher \<equiv> \<lambda>_ data _ _. Inr data"

definition secure_bytes :: "byte \<Rightarrow> byte list" where
  "secure_bytes i = [0, 5, 0, 0, i, 0, 0, 0, 5, 0x20, 0x34, 0x12, 0, 0, 9]"

definition secure_manager :: "unit ExchangeManager" where
  "secure_manager = (new_ExchangeManager 0 one_session new_ChannelManager)\<lparr>em_protocols := [(0, ())]\<rparr>"

definition secure_arrival :: "byte \<Rightarrow> unit ExchangeManager \<Rightarrow> unit arrival" where
  "secure_arrival i em = projr (fst (onMessage_start plain_cipher 0 (secure_bytes i) em))"

definition after_secure :: "byte \<Rightarrow> unit ExchangeManager \<Rightarrow> unit ExchangeManager" where
  "after_secure i em = snd (onMessage_start plain_cipher 0 (secure_bytes i) em)"

definition secure_fresh :: "byte \<Rightarrow> unit ExchangeManager \<Rightarrow> bool" where
  "secure_fresh i em \<longleftrightarrow> is_ok (fst (onMessage_start plain_cipher 0 (secure_bytes i) em)) \<and>
     ar_session (secure_arrival i em) = SecureRef 0 \<and> fresh_arrival (secure_arrival i em)"

lemma traffic_secure:
  assumes "traffic 0 em cs" and "secure_fresh i em" and "decodePacket (secure_bytes i) = Inr packet"
  shows "traffic 0 (after_secure i em) (ph_messageId (pk_header packet) # cs)"
proof (rule traffic.processed [OF assms(1) _ assms(3)])
  show "onMessage_start plain_cipher 0 (secure_bytes i) em = (Inr (secure_arrival i em), after_secure i em)"
    using assms(2) by (auto simp: secure_fresh_def secure_arrival_def after_secure_def is_ok_iff intro!: prod_eqI)
qed (use assms(2) in \<open>auto simp: secure_fresh_def\<close>)

abbreviation secure_packet :: "byte \<Rightarrow> DecodedPacketHeader Packet" where
  "secure_packet i \<equiv> projr (decodePacket (secure_bytes i))"

lemma secure_numbers:
  "decodePacket (secure_bytes 1) = Inr (secure_packet 1) \<and> ph_messageId (pk_header (secure_packet 1)) = 1"
  "decodePacket (secure_bytes 2) = Inr (secure_packet 2) \<and> ph_messageId (pk_header (secure_packet 2)) = 2"
  "decodePacket (secure_bytes 100) = Inr (secure_packet 100) \<and> ph_messageId (pk_header (secure_packet 100)) = 100 \<and>
     ph_sessionType (pk_header (secure_packet 100)) = Unicast \<and> ph_sessionId (pk_header (secure_packet 100)) = 5"
  by code_simp+

theorem processed_once_witness:
  "traffic 0 (after_secure 2 (after_secure 1 secure_manager)) [2, 1] \<and> distinct [2 :: int, 1]"
proof -
  have "traffic 0 secure_manager []"
    by (rule traffic.opened) code_simp
  moreover have "secure_fresh 1 secure_manager" "secure_fresh 2 (after_secure 1 secure_manager)" by code_simp+
  ultimately have "traffic 0 (after_secure 2 (after_secure 1 secure_manager)) [2, 1]"
    using traffic_secure secure_numbers by metis
  with processed_once [OF this] show ?thesis by blast
qed

theorem forged_packet_moves_window_witness:
  "\<exists>em'. onMessage_start no_cipher 0 (secure_bytes 100) (after_secure 1 secure_manager) = (Inl PlainError, em') \<and>
     ref_updateMessageCounter 2 (SecureRef 0) (em_sessionManager em') = Inl DuplicateMessageError"
proof -
  let ?em = "after_secure 1 secure_manager"
  let ?g = "getSession 5 (em_sessionManager ?em)"
  have "fst ?g = Some 0" by code_simp
  then have g: "?g = (Some 0, snd ?g)" by (metis prod.collapse)
  have "rs_kind (reception_of 0 ?em) = EncryptedWithoutRollover" "rs_maximumMessageCounter (reception_of 0 ?em) = Some 1"
    by code_simp+
  with forged_packet_moves_window [of "secure_bytes 100" "secure_packet 100" ?em 0 "snd ?g" no_cipher PlainError 1 0] g secure_numbers(3)
  show ?thesis by (auto simp: UNICAST_UNSECURE_SESSION_ID_def MAX_COUNTER_VALUE_32BIT_def)
qed

lemma first_accept:
  "accept_exchange 0 7 first_arrival () (snd (onMessage_start no_cipher 0 (sample_bytes 1) idle_manager)) =
     (0, fst (snd (accept_exchange 0 7 first_arrival () (snd (onMessage_start no_cipher 0 (sample_bytes 1) idle_manager)))), busy_manager)"
  (is "?x = _")
proof -
  have "fst ?x = 0" by code_simp
  then show ?thesis by (metis busy_manager_def prod.collapse)
qed

lemma first_message:
  "ar_session first_arrival = InsecureRef 0 0 \<and> pl_isInitiatorMessage (msg_payloadHeader (ar_message first_arrival))"
  by code_simp

theorem unsecured_peers_share_exchange_witness:
  "decide (InsecureRef 1 99) (ar_message first_arrival) False busy_manager = Inr (Deliver 0 False)"
  using unsecured_peers_share_exchange [OF first_accept, of 0 0 "ar_message first_arrival" 1 99 False] first_message by simp

theorem late_close_drops_successor_witness:
  "\<exists>(em1 :: unit ExchangeManager) em2. map_of (em_exchanges em1) 0x1234 = Some 1 \<and>
     closeInternal_with (closeSession 1) 0 em1 = Some em2 \<and> map_of (em_exchanges em2) 0x1234 = None"
proof -
  let ?x = "accept_exchange 0 7 first_arrival () busy_manager"
  have e: "?x = (1, fst (snd ?x), snd (snd ?x))"
  proof -
    have "fst ?x = 1" by code_simp
    then show ?thesis by (metis prod.collapse)
  qed
  have "0 < em_nextRef busy_manager" "mx_index (em_objects busy_manager 0) = exchange_index (ar_message first_arrival)"
    "\<not> ref_closing (em_sessionManager (snd (snd ?x))) (exchange_session 1 (snd (snd ?x)))"
    by code_simp+
  moreover have "exchange_index (ar_message first_arrival) = 0x1234" by code_simp
  ultimately have "map_of (em_exchanges (snd (snd ?x))) 0x1234 = Some 1 \<and>
      (\<exists>em2. closeInternal_with (closeSession 1) 0 (snd (snd ?x)) = Some em2 \<and> map_of (em_exchanges em2) 0x1234 = None)"
    using late_close_drops_successor [OF e, of 0 "closeSession 1"] by auto
  then show ?thesis by blast
qed

definition late_arrival :: "unit arrival" where
  "late_arrival = first_arrival\<lparr>ar_message := (ar_message first_arrival)\<lparr>msg_payloadHeader :=
     (msg_payloadHeader (ar_message first_arrival))\<lparr>pl_isInitiatorMessage := False, pl_requiresAck := True\<rparr>\<rparr>\<rparr>"

theorem late_answer_ack_lost_witness:
  "\<exists>ack. em_log (snd (refuse_exchange 7 late_arrival idle_manager)) = [ExchangeEvent 0 (Transmit ack)] \<and>
     acked_id ack = Some 1 \<and> find_exchange (InsecureRef 0 0) ack busy_manager \<noteq> Some 0"
proof -
  let ?x = "refuse_exchange 7 late_arrival idle_manager"
  let ?g = "getOrCreateChannel 7 (ar_session late_arrival) (em_sessionManager idle_manager, em_channelManager idle_manager)"
  let ?n = "ref_nextCounter (ch_session (cm_objects (snd (snd ?g)) (fst ?g))) (fst (snd ?g))"
  have x: "?x = (0, snd ?x)"
  proof -
    have "fst ?x = 0" by code_simp
    then show ?thesis by (metis prod.collapse)
  qed
  have n: "?n = (Inr (projr (fst ?n)), snd ?n)"
  proof -
    have "is_ok (fst ?n)" by code_simp
    then show ?thesis by (auto simp: is_ok_iff intro: prod_eqI)
  qed
  have "requires_ack (ar_message late_arrival)" "message_id (ar_message late_arrival) = 1" "em_log idle_manager = []"
    "\<not> ex_isInitiator (exchange_of 0 busy_manager)"
    by code_simp+
  with late_answer_ack_lost [OF x _ _ n, of busy_manager] show ?thesis by auto
qed

end
