(* ===== verification/SessionClosing.thy ===== *)
theory SessionClosing
  imports ExchangeRouting
begin

text \<open>
  The end of a session: \<^verbatim>\<open>closeSession\<close> of \<^verbatim>\<open>protocol/ExchangeManager.ts\<close> together with the session and channel managers.  The calls
  of \<^verbatim>\<open>deleteExchange\<close> and \<^verbatim>\<open>closeSession\<close> are nested at most twice; a session that is closed after its exchanges loses all of
  them and is unregistered.  A session that is ended at once is closed in silence, and one whose channel is gone can
  never be closed.
\<close>

section \<open>Ending a session changes little of it\<close>

lemma clear_loop_subscriptions:
  "\<exists>xs. fst (clear_loop flush i w) = (fst w)\<lparr>ss_subscriptions := xs\<rparr>"
proof (induction flush i w rule: clear_loop.induct)
  case (1 flush i s cancelled)
  show ?case
  proof (cases "i < length (ss_subscriptions s)")
    case True
    with 1 obtain xs where "fst (clear_loop flush (i + 1) (cancel_subscription flush (ss_subscriptions s ! i) (s, cancelled))) =
        (fst (cancel_subscription flush (ss_subscriptions s ! i) (s, cancelled)))\<lparr>ss_subscriptions := xs\<rparr>"
      by blast
    with True show ?thesis
      by (subst clear_loop.simps) (auto simp: cancel_subscription_def removeSubscription_def)
  next
    case False
    then show ?thesis by (subst clear_loop.simps) (auto intro: exI [of _ "ss_subscriptions s"])
  qed
qed

lemma clearSubscriptions_eq: "fst (clearSubscriptions flush w) = (fst w)\<lparr>ss_subscriptions := []\<rparr>"
  using clear_loop_subscriptions [of flush 0 w] by (auto simp: clearSubscriptions_def case_prod_unfold Let_def)

lemma destroy_session_eq:
  "fst (fst (destroy_session a b w)) = (fst w)\<lparr>ss_subscriptions := [],
     ss_sendCloseMessageWhenClosing := a \<and> ss_sendCloseMessageWhenClosing (fst w),
     ss_closingAfterExchangeFinished := b \<or> ss_closingAfterExchangeFinished (fst w)\<rparr>"
  "snd (destroy_session a b w) = (\<not> b)"
  using clearSubscriptions_eq [of False w]
  by (auto simp: destroy_session_def case_prod_unfold Let_def)

lemma end_session_eq:
  "fst (fst (end_session a b w)) = (fst w)\<lparr>ss_subscriptions := [],
     ss_sendCloseMessageWhenClosing := a \<and> ss_sendCloseMessageWhenClosing (fst w),
     ss_closingAfterExchangeFinished := b \<or> ss_closingAfterExchangeFinished (fst w)\<rparr>"
  "snd (end_session a b w) = (\<not> b)"
  by (simp_all add: end_session_def destroy_session_eq clearSubscriptions_eq)

text \<open>What the operations of exchanges leave of the sessions.\<close>

definition session_frame :: "SessionManager \<Rightarrow> SessionManager \<Rightarrow> bool" where
  "session_frame m m' \<longleftrightarrow>
     (\<forall>r. ss_id (mg_objects m' r) = ss_id (mg_objects m r) \<and> ss_fabric (mg_objects m' r) = ss_fabric (mg_objects m r) \<and>
        ss_peerNodeId (mg_objects m' r) = ss_peerNodeId (mg_objects m r) \<and>
        ss_sendCloseMessageWhenClosing (mg_objects m' r) = ss_sendCloseMessageWhenClosing (mg_objects m r)) \<and>
     bs_entries (mg_sessions m') = bs_entries (mg_sessions m) \<and> (manager_ok m \<longrightarrow> manager_ok m')"

lemma session_frame_refl [simp]: "session_frame m m" by (simp add: session_frame_def)

lemma session_frame_trans: "session_frame a b \<Longrightarrow> session_frame b c \<Longrightarrow> session_frame a c"
  by (simp add: session_frame_def)

lemma session_frame_ids: "session_frame m m' \<Longrightarrow> ref_id m' s = ref_id m s \<and> used_ids m' = used_ids m"
  by (cases s) (auto simp: session_frame_def used_ids_def)

lemma manager_ok_cong:
  assumes "\<forall>r. ss_id (mg_objects m' r) = ss_id (mg_objects m r)" and "mg_sessions m' = mg_sessions m" and "mg_nextRef m' = mg_nextRef m"
  shows "manager_ok m' = manager_ok m"
proof -
  have "id_of m' = id_of m" using assms(1) by (simp add: id_of_def fun_eq_iff)
  with assms(2,3) show ?thesis by (simp add: manager_ok_def)
qed

lemma session_frame_objects:
  assumes "\<forall>r. ss_id (mg_objects m' r) = ss_id (mg_objects m r) \<and> ss_fabric (mg_objects m' r) = ss_fabric (mg_objects m r) \<and>
        ss_peerNodeId (mg_objects m' r) = ss_peerNodeId (mg_objects m r) \<and>
        ss_sendCloseMessageWhenClosing (mg_objects m' r) = ss_sendCloseMessageWhenClosing (mg_objects m r)"
    and "mg_sessions m' = mg_sessions m" and "mg_nextRef m' = mg_nextRef m"
  shows "session_frame m m'"
  using assms manager_ok_cong [of m' m] by (auto simp: session_frame_def)

lemma getSession_frame: "manager_ok m \<Longrightarrow> getSession n m = (f, m') \<Longrightarrow> session_frame m m'"
  using getSession_ok [of m n f m'] by (auto simp: session_frame_def)

lemma nextCounter_frame: "session_frame m (snd (ref_nextCounter s m))"
  by (cases s)
    (auto simp: end_ref_def end_session_eq case_prod_unfold Let_def intro!: session_frame_objects split: prod.splits if_splits)

section \<open>Destroying an exchange\<close>

definition em_frame :: "'h ExchangeManager \<Rightarrow> 'h ExchangeManager \<Rightarrow> bool" where
  "em_frame em em' \<longleftrightarrow>
     em_channelManager em' = em_channelManager em \<and> em_closingSessions em' = em_closingSessions em \<and>
     em_protocols em' = em_protocols em \<and> (\<forall>ref. exchange_session ref em' = exchange_session ref em) \<and>
     (\<forall>ref. mx_index (em_objects em' ref) = mx_index (em_objects em ref)) \<and>
     session_frame (em_sessionManager em) (em_sessionManager em')"

lemma em_frame_refl [simp]: "em_frame em em" by (simp add: em_frame_def)

lemma em_frame_trans: "em_frame a b \<Longrightarrow> em_frame b c \<Longrightarrow> em_frame a c"
  using session_frame_trans by (auto simp: em_frame_def)

lemma finish_ack_frame:
  "em_frame em (finish_ack ref w em) \<and> em_exchanges (finish_ack ref w em) = em_exchanges em"
  by (cases "fst w")
    (auto simp: finish_ack_def transmit_def set_exchange_def log_events_def em_frame_def Let_def case_prod_unfold
      nextCounter_frame split: sum.splits)

text \<open>A nested call for a session that is being closed, or is closed already, does nothing.\<close>

lemma nested_close:
  assumes "manager_ok (em_sessionManager em)" and "ss_id (mg_objects (em_sessionManager em) r) \<in> em_closingSessions em"
  shows "\<exists>m. closeSession_with close r em = Some (Inr (), em\<lparr>em_sessionManager := m\<rparr>) \<and> session_frame (em_sessionManager em) m"
  using assms getSession_frame [OF assms(1)]
  by (auto simp: closeSession_with_def Let_def split: prod.splits)

lemma delete_registered:
  assumes "manager_ok (em_sessionManager em)" and "map_of (em_exchanges em) i = Some ref"
    and "session_id_in em (exchange_session ref em) \<in> em_closingSessions em"
  shows "\<exists>em'. deleteExchange_with (closeSession (Suc d)) i em = Some em' \<and> em_frame em em' \<and>
    em_exchanges em' = AList.delete i (em_exchanges em) \<and> em_log em' = em_log em"
proof (cases "exchange_session ref em")
  case (SecureRef r)
  with nested_close [OF assms(1), of r "closeSession d"] assms(2,3) show ?thesis
    by (auto simp: deleteExchange_with_def em_frame_def)
next
  case (InsecureRef r n)
  with assms(2) show ?thesis by (auto simp: deleteExchange_with_def em_frame_def)
qed

lemma destroy_registered:
  assumes ok: "em_ok em" and m: "manager_ok (em_sessionManager em)" and ref: "map_of (em_exchanges em) i = Some ref"
    and closing: "session_id_in em (exchange_session ref em) \<in> em_closingSessions em"
  shows "\<exists>em'. destroy_with (closeSession (Suc d)) ref em = Some em' \<and> em_frame em em' \<and>
    em_exchanges em' = AList.delete i (em_exchanges em)"
proof -
  let ?em1 = "finish_ack ref (exchange_destroy (exchange_of ref em)) em"
  obtain outs ex where c: "closeInternal (exchange_of ref ?em1) = (outs, ex)" by fastforce
  let ?em2 = "log_events (map (ExchangeEvent ref) outs) (set_exchange ref ex ?em1)"
  have f1: "em_frame em ?em1" "em_exchanges ?em1 = em_exchanges em" using finish_ack_frame by blast+
  have "em_frame ?em1 ?em2" "em_exchanges ?em2 = em_exchanges ?em1"
    by (auto simp: em_frame_def log_events_def set_exchange_def)
  with f1 have f2: "em_frame em ?em2" "em_exchanges ?em2 = em_exchanges em" using em_frame_trans by auto
  have i: "mx_index (em_objects ?em1 ref) = i" using ok ref f1(1) by (auto simp: em_ok_def entry_ok_def em_frame_def Let_def)
  have sf: "session_frame (em_sessionManager em) (em_sessionManager ?em2)" using f2(1) by (simp add: em_frame_def)
  have m2: "manager_ok (em_sessionManager ?em2)" using sf m by (simp add: session_frame_def)
  have c2: "session_id_in ?em2 (exchange_session ref ?em2) \<in> em_closingSessions ?em2"
    using f2(1) closing session_frame_ids [OF sf] by (simp add: em_frame_def)
  from delete_registered [OF m2 _ c2, of i d] ref f2
  obtain em' where "deleteExchange_with (closeSession (Suc d)) i ?em2 = Some em'" "em_frame ?em2 em'"
    "em_exchanges em' = AList.delete i (em_exchanges em)"
    by auto
  with c i f2(1) em_frame_trans show ?thesis
    by (auto simp: destroy_with_def closeInternal_with_def)
qed

lemma destroy_all_session:
  assumes "em_ok em" and "manager_ok (em_sessionManager em)" and "sid \<in> em_closingSessions em"
  shows "\<exists>em'. destroy_all (closeSession (Suc d)) (\<lambda>mx em. session_id_in em (mx_session mx) = sid) is em = Some em' \<and>
    em_frame em em' \<and> em_ok em' \<and>
    (\<forall>j ref. map_of (em_exchanges em') j = Some ref \<longleftrightarrow>
       map_of (em_exchanges em) j = Some ref \<and> \<not> (j \<in> set is \<and> session_id_in em (exchange_session ref em) = sid))"
  using assms
proof (induction "is" arbitrary: em)
  case Nil
  then show ?case by simp
next
  case (Cons i "is")
  show ?case
  proof (cases "\<exists>ref. map_of (em_exchanges em) i = Some ref \<and> session_id_in em (exchange_session ref em) = sid")
    case True
    then obtain ref where ref: "map_of (em_exchanges em) i = Some ref" "session_id_in em (exchange_session ref em) = sid" by blast
    then obtain em1 where d: "destroy_with (closeSession (Suc d)) ref em = Some em1" and f: "em_frame em em1"
      and x: "em_exchanges em1 = AList.delete i (em_exchanges em)"
      using destroy_registered [OF Cons.prems(1,2) ref(1), of d] Cons.prems(3) by auto
    have sf: "session_frame (em_sessionManager em) (em_sessionManager em1)" using f by (simp add: em_frame_def)
    have "em_ok em1" using em_ok_destroy [OF keeps_ok_closeSession d Cons.prems(1)] .
    moreover have "manager_ok (em_sessionManager em1)" using sf Cons.prems(2) by (simp add: session_frame_def)
    moreover have "sid \<in> em_closingSessions em1" using f Cons.prems(3) by (simp add: em_frame_def)
    ultimately obtain em' where e: "destroy_all (closeSession (Suc d)) (\<lambda>mx em. session_id_in em (mx_session mx) = sid) is em1 = Some em'"
      "em_frame em1 em'" "em_ok em'"
      "\<forall>j ref. map_of (em_exchanges em') j = Some ref \<longleftrightarrow>
         map_of (em_exchanges em1) j = Some ref \<and> \<not> (j \<in> set is \<and> session_id_in em1 (exchange_session ref em1) = sid)"
      using Cons.IH [of em1] by blast
    have same: "session_id_in em1 (exchange_session ref' em1) = session_id_in em (exchange_session ref' em)" for ref'
      using f session_frame_ids [OF sf] by (simp add: em_frame_def)
    from e d ref have "destroy_all (closeSession (Suc d)) (\<lambda>mx em. session_id_in em (mx_session mx) = sid) (i # is) em = Some em'"
      by simp
    moreover have "\<forall>j ref. map_of (em_exchanges em') j = Some ref \<longleftrightarrow>
       map_of (em_exchanges em) j = Some ref \<and> \<not> (j \<in> set (i # is) \<and> session_id_in em (exchange_session ref em) = sid)"
      using e(4) ref x same by (auto simp: delete_conv')
    ultimately show ?thesis using e(2,3) em_frame_trans [OF f] by blast
  next
    case False
    obtain em' where e: "destroy_all (closeSession (Suc d)) (\<lambda>mx em. session_id_in em (mx_session mx) = sid) is em = Some em'"
      "em_frame em em'" "em_ok em'"
      "\<forall>j ref. map_of (em_exchanges em') j = Some ref \<longleftrightarrow>
         map_of (em_exchanges em) j = Some ref \<and> \<not> (j \<in> set is \<and> session_id_in em (exchange_session ref em) = sid)"
      using Cons.IH [OF Cons.prems] by blast
    from e(1) False have "destroy_all (closeSession (Suc d)) (\<lambda>mx em. session_id_in em (mx_session mx) = sid) (i # is) em = Some em'"
      by (auto split: option.splits)
    moreover have "\<forall>j ref. map_of (em_exchanges em') j = Some ref \<longleftrightarrow>
       map_of (em_exchanges em) j = Some ref \<and> \<not> (j \<in> set (i # is) \<and> session_id_in em (exchange_session ref em) = sid)"
      using e(4) False by auto
    ultimately show ?thesis using e(2,3) by blast
  qed
qed

section \<open>The close message\<close>

text \<open>The peer accepts the close message, on a secure session only.\<close>

lemma close_message_accepted: "handleInitialStatusReport MessageType_StatusReport CloseSession_payload True = Inr ()"
  by code_simp

text \<open>The exchange of the close message is registered and destroyed again.\<close>

lemma send_close_returns:
  assumes "em_ok em" and "manager_ok (em_sessionManager em)"
    and "session_id_in em (ch_session (cm_objects (em_channelManager em) ch)) \<in> em_closingSessions em"
  shows "\<exists>em' j. send_close (closeSession (Suc d)) ch em = Some em' \<and>
    session_frame (em_sessionManager em) (em_sessionManager em') \<and> em_closingSessions em' = em_closingSessions em \<and>
    (\<forall>i ref. map_of (em_exchanges em') i = Some ref \<longleftrightarrow> i \<noteq> j \<and> map_of (em_exchanges em) i = Some ref) \<and>
    (\<forall>ref < em_nextRef em. exchange_session ref em' = exchange_session ref em)"
proof -
  let ?i = "initiateExchangeWithChannel ch SECURE_CHANNEL_PROTOCOL_ID em"
  obtain ref em1 where i: "?i = (ref, em1)" by fastforce
  let ?j = "js_or (next_exchangeId (em_exchangeCounter em)) 0x10000"
  have ok1: "em_ok em1" using em_ok_initiate [OF assms(1) i] .
  have e1: "ref = em_nextRef em" "map_of (em_exchanges em1) = (map_of (em_exchanges em))(?j \<mapsto> ref)"
    "em_sessionManager em1 = em_sessionManager em" "em_closingSessions em1 = em_closingSessions em"
    "em_channelManager em1 = em_channelManager em"
    "exchange_session ref em1 = ch_session (cm_objects (em_channelManager em) ch)"
    "\<forall>r < em_nextRef em. exchange_session r em1 = exchange_session r em"
    using i by (auto simp: initiateExchangeWithChannel_def add_exchange_def update_conv' Let_def)
  define em2 where "em2 = (case send_start MessageType_StatusReport CloseSession_payload close_options (exchange_of ref em1) of
      (Inl e, ex) \<Rightarrow> set_exchange ref ex em1 | (Inr c, ex) \<Rightarrow> transmit 0 ref c (set_exchange ref ex em1))"
  have "em2 = (case send_start MessageType_StatusReport CloseSession_payload close_options (exchange_of ref em1) of
      (Inl e, ex) \<Rightarrow> finish_ack ref (Ends, ex) em1 | (Inr c, ex) \<Rightarrow> finish_ack ref (Acks c, ex) em1)"
    by (simp add: em2_def finish_ack_def split: prod.splits sum.splits)
  then have f2: "em_frame em1 em2" "em_exchanges em2 = em_exchanges em1" "em_ok em2"
    using finish_ack_frame ok1
    by (auto split: prod.splits sum.splits intro!: em_ok_finish_ack dest: send_start_same)
  define em3 where "em3 = finish_ack ref (exchange_close (exchange_of ref em2)) em2"
  have f3: "em_frame em1 em3" "em_exchanges em3 = em_exchanges em1" "em_ok em3"
    using finish_ack_frame [of em2 ref "exchange_close (exchange_of ref em2)"] f2 em_frame_trans [OF f2(1), of em3]
    by (auto simp: em3_def intro!: em_ok_finish_ack intro: close_same [OF prod.collapse [symmetric]])
  have sf: "session_frame (em_sessionManager em1) (em_sessionManager em3)" using f3(1) by (simp add: em_frame_def)
  have m3: "manager_ok (em_sessionManager em3)" using sf assms(2) e1(3) by (simp add: session_frame_def)
  have c3: "session_id_in em3 (exchange_session ref em3) \<in> em_closingSessions em3"
    using f3(1) session_frame_ids [OF sf] assms(3) e1 by (simp add: em_frame_def)
  obtain em4 where d: "destroy_with (closeSession (Suc d)) ref em3 = Some em4" "em_frame em3 em4"
    "em_exchanges em4 = AList.delete ?j (em_exchanges em3)"
    using destroy_registered [OF f3(3) m3 _ c3, of ?j d] f3(2) e1(2) by auto
  have "send_close (closeSession (Suc d)) ch em = Some em4"
    using d(1) by (simp add: send_close_def i em2_def em3_def Let_def)
  moreover have "em_frame em1 em4" using em_frame_trans [OF f3(1) d(2)] .
  ultimately show ?thesis
    using e1 d(3) f3(2) by (intro exI [of _ em4] exI [of _ ?j]) (auto simp: em_frame_def delete_conv')
qed

lemma close_message_returns:
  assumes "em_ok em" and "manager_ok (em_sessionManager em)"
    and "\<forall>c. channel = Some c \<longrightarrow> session_id_in em (ch_session (cm_objects (em_channelManager em) c)) \<in> em_closingSessions em"
  obtains em' where "(case channel of None \<Rightarrow> Some em | Some c \<Rightarrow> send_close (closeSession (Suc d)) c em) = Some em'"
    and "session_frame (em_sessionManager em) (em_sessionManager em')" and "em_closingSessions em' = em_closingSessions em"
    and "\<And>i ref. map_of (em_exchanges em') i = Some ref \<Longrightarrow> map_of (em_exchanges em) i = Some ref"
    and "\<And>ref. ref < em_nextRef em \<Longrightarrow> exchange_session ref em' = exchange_session ref em"
proof (cases channel)
  case None
  show thesis by (rule that [of em]) (simp_all add: None)
next
  case (Some c)
  with send_close_returns [OF assms(1,2), of c d] assms(3) that show thesis by auto
qed

section \<open>The end of a session\<close>

lemma destroy_ref_ok:
  assumes "manager_ok m"
  shows "manager_ok (destroy_ref sendClose False ref m)"
    and "bs_entries (mg_sessions (destroy_ref sendClose False ref m)) = removeAll ref (bs_entries (mg_sessions m))"
    and "ss_id (mg_objects (destroy_ref sendClose False ref m) r) = ss_id (mg_objects m r)"
proof -
  let ?s = "fst (fst (destroy_session sendClose False (mg_objects m ref, [])))"
  let ?m = "m\<lparr>mg_objects := (mg_objects m)(ref := ?s)\<rparr>"
  have e: "destroy_ref sendClose False ref m = remove_ref ref ?m"
    by (simp add: destroy_ref_def destroy_session_eq case_prod_unfold Let_def)
  have "manager_ok ?m" using assms manager_ok_cong [of ?m m] by (simp add: destroy_session_eq)
  then show "manager_ok (destroy_ref sendClose False ref m)" unfolding e by (rule manager_ok_remove)
  show "bs_entries (mg_sessions (destroy_ref sendClose False ref m)) = removeAll ref (bs_entries (mg_sessions m))"
    "ss_id (mg_objects (destroy_ref sendClose False ref m) r) = ss_id (mg_objects m r)"
    unfolding e remove_ref_entries by (simp_all add: destroy_session_eq)
qed

text \<open>No two registered sessions share an id, so taking one off frees its id.\<close>

lemma id_free:
  assumes "manager_ok m" and "ref \<in> set (bs_entries (mg_sessions m))"
    and "bs_entries (mg_sessions m') = removeAll ref (bs_entries (mg_sessions m))"
    and "\<And>r. ss_id (mg_objects m' r) = ss_id (mg_objects m r)"
  shows "ss_id (mg_objects m ref) \<notin> used_ids m'"
proof
  assume "ss_id (mg_objects m ref) \<in> used_ids m'"
  then obtain r where "r \<in> set (bs_entries (mg_sessions m'))" "ss_id (mg_objects m ref) = ss_id (mg_objects m' r)"
    by (auto simp: used_ids_def)
  with assms(3,4) have r: "r \<in> set (bs_entries (mg_sessions m))" "r \<noteq> ref" "ss_id (mg_objects m r) = ss_id (mg_objects m ref)"
    by auto
  have "unique_values (id_of m) (bs_entries (mg_sessions m))" using assms(1) by (simp add: manager_ok_def bs_ok_def)
  from unique_valuesD [OF this r(1) assms(2)] r(2,3) show False by (simp add: id_of_def)
qed

lemma removeSession_free:
  assumes "manager_ok m"
  shows "sid \<notin> used_ids (removeSession sid m) \<and> (\<forall>r. ss_id (mg_objects (removeSession sid m) r) = ss_id (mg_objects m r))"
proof -
  obtain found m' where g: "getSession sid m = (found, m')" by fastforce
  note ok = getSession_ok [OF assms g]
  show ?thesis
  proof (cases found)
    case None
    with g ok show ?thesis by (simp add: removeSession_def)
  next
    case (Some ref)
    then have ref: "ref \<in> set (bs_entries (mg_sessions m'))" "ss_id (mg_objects m' ref) = sid" using ok by auto
    from id_free [OF ok(1) ref(1), of "remove_ref ref m'"] ref(2) ok(2) g Some show ?thesis
      by (simp add: removeSession_def remove_ref_entries)
  qed
qed

text \<open>The last part of \<^verbatim>\<open>closeSession\<close>.\<close>

lemma unregister:
  assumes "manager_ok m"
  shows "sid \<notin> used_ids (removeSession sid (if closing then destroy_ref False False r m else m)) \<and>
    ref_id (removeSession sid (if closing then destroy_ref False False r m else m)) s = ref_id m s"
  using removeSession_free [OF assms] removeSession_free [OF destroy_ref_ok(1) [OF assms, of False r]] destroy_ref_ok(3) [OF assms, of False r]
  by (cases s) auto

text \<open>The channels of sessions without a fabric are kept under their session.\<close>

definition pase_ok :: "ChannelManager \<Rightarrow> bool" where
  "pase_ok cm \<longleftrightarrow> (\<forall>s c. map_of (cm_paseChannels cm) s = Some c \<longrightarrow> ch_session (cm_objects cm c) = s)"

lemma channel_of_session:
  assumes "pase_ok cm" and "getChannelForSession s m cm = Inr (Some c)"
  shows "ref_id m (ch_session (cm_objects cm c)) = ref_id m s"
  using assms by (auto simp: getChannelForSession_def pase_ok_def rbind_eq_Inr split: if_splits option.splits)

lemma getChannelForSession_frame:
  assumes "session_frame m m'"
  shows "getChannelForSession (SecureRef r) m' cm = getChannelForSession (SecureRef r) m cm"
proof -
  have "session_key m' (SecureRef r) = session_key m (SecureRef r)" "isPase (mg_objects m' r) = isPase (mg_objects m r)"
    using assms by (simp_all add: session_frame_def isPase_def)
  moreover have "ref_id m' = ref_id m" using session_frame_ids [OF assms] by blast
  ultimately show ?thesis by (simp only: getChannelForSession_def ref_isPase.simps)
qed

text \<open>What \<^verbatim>\<open>closeSession\<close> does to a registered session that is not being closed yet, up to the lookup of its channel.\<close>

lemma closing_exchanges:
  assumes "em_ok em" and "manager_ok (em_sessionManager em)" and "r \<in> set (bs_entries (mg_sessions (em_sessionManager em)))"
    and "sid = ss_id (mg_objects (em_sessionManager em) r)"
  obtains m em1 where "getSession sid (em_sessionManager em) = (Some r, m)"
    and "destroy_all (closeSession (Suc d)) (\<lambda>mx em. session_id_in em (mx_session mx) = sid) (map fst (em_exchanges em))
        (em\<lparr>em_sessionManager := m, em_closingSessions := insert sid (em_closingSessions em)\<rparr>) = Some em1"
    and "em_ok em1" and "manager_ok (em_sessionManager em1)" and "em_closingSessions em1 = insert sid (em_closingSessions em)"
    and "session_frame (em_sessionManager em) (em_sessionManager em1)" and "em_channelManager em1 = em_channelManager em"
    and "\<And>i ref. map_of (em_exchanges em1) i = Some ref \<longleftrightarrow>
      map_of (em_exchanges em) i = Some ref \<and> session_id_in em (exchange_session ref em) \<noteq> sid"
    and "\<And>ref. exchange_session ref em1 = exchange_session ref em"
proof -
  let ?m0 = "em_sessionManager em"
  obtain found m where g: "getSession sid ?m0 = (found, m)" by fastforce
  note gs = getSession_ok [OF assms(2) g]
  have "sid \<in> used_ids ?m0" using assms(3,4) by (auto simp: used_ids_def)
  then obtain r' where "found = Some r'" using gs(6) by (cases found) auto
  moreover have "unique_values (id_of ?m0) (bs_entries (mg_sessions ?m0))" using assms(2) by (simp add: manager_ok_def bs_ok_def)
  ultimately have found: "found = Some r"
    using gs(7) [of r'] assms(3,4) unique_valuesD [of "id_of ?m0" _ r' r sid] by (auto simp: id_of_def)
  have sf: "session_frame ?m0 m" using getSession_frame [OF assms(2) g] .
  let ?em0 = "em\<lparr>em_sessionManager := m, em_closingSessions := insert sid (em_closingSessions em)\<rparr>"
  have "em_ok ?em0" "manager_ok (em_sessionManager ?em0)" "sid \<in> em_closingSessions ?em0"
    using assms(1) gs(1) by simp_all
  from destroy_all_session [OF this, of d "map fst (em_exchanges em)"]
  obtain em1 where d: "destroy_all (closeSession (Suc d)) (\<lambda>mx em. session_id_in em (mx_session mx) = sid) (map fst (em_exchanges em)) ?em0 = Some em1"
    and f: "em_frame ?em0 em1" and ok: "em_ok em1"
    and x: "\<And>j ref. map_of (em_exchanges em1) j = Some ref \<longleftrightarrow>
       map_of (em_exchanges ?em0) j = Some ref \<and> \<not> (j \<in> set (map fst (em_exchanges em)) \<and> session_id_in ?em0 (exchange_session ref ?em0) = sid)"
    by blast
  have ids: "ref_id m s = ref_id ?m0 s" for s using session_frame_ids [OF sf] by blast
  show thesis
  proof (rule that [OF _ d ok])
    show "getSession sid ?m0 = (Some r, m)" using g found by simp
    show "manager_ok (em_sessionManager em1)" "em_closingSessions em1 = insert sid (em_closingSessions em)"
      "em_channelManager em1 = em_channelManager em"
      using f gs(1) by (simp_all add: em_frame_def session_frame_def)
    show "session_frame ?m0 (em_sessionManager em1)"
      using session_frame_trans [OF sf] f by (simp add: em_frame_def)
    show "map_of (em_exchanges em1) i = Some ref \<longleftrightarrow> map_of (em_exchanges em) i = Some ref \<and> session_id_in em (exchange_session ref em) \<noteq> sid" for i ref
      using x [of i ref] ids by (force dest: map_of_SomeD)
    show "exchange_session ref em1 = exchange_session ref em" for ref
      using f by (simp add: em_frame_def)
  qed
qed

text \<open>The channel over which the close message is to go, if one is to be sent.\<close>

definition closing_channel :: "nat \<Rightarrow> 'h ExchangeManager \<Rightarrow> nat option result" where
  "closing_channel r em =
     (if ss_sendCloseMessageWhenClosing (mg_objects (em_sessionManager em) r)
      then getChannelForSession (SecureRef r) (em_sessionManager em) (em_channelManager em) else Inr None)"

lemma closing_channel_frame:
  "session_frame (em_sessionManager em) (em_sessionManager em1) \<Longrightarrow> em_channelManager em1 = em_channelManager em \<Longrightarrow>
   closing_channel r em1 = closing_channel r em"
  using getChannelForSession_frame by (simp add: closing_channel_def session_frame_def)

lemma close_session_channel:
  assumes "em_reachable em" and "manager_ok (em_sessionManager em)" and "pase_ok (em_channelManager em)"
    and "r \<in> set (bs_entries (mg_sessions (em_sessionManager em)))"
    and "sid = ss_id (mg_objects (em_sessionManager em) r)" and "sid \<notin> em_closingSessions em"
    and "closing_channel r em = Inr sending"
  shows "\<exists>em'. closeSession (Suc (Suc d)) r em = Some (Inr (), em') \<and>
    sid \<notin> used_ids (em_sessionManager em') \<and> em_closingSessions em' = em_closingSessions em \<and>
    (\<forall>i ref. map_of (em_exchanges em') i = Some ref \<longrightarrow> session_id_in em' (exchange_session ref em') \<noteq> sid)"
proof -
  obtain m em1 where g: "getSession sid (em_sessionManager em) = (Some r, m)"
    and d: "destroy_all (closeSession (Suc d)) (\<lambda>mx em. session_id_in em (mx_session mx) = sid) (map fst (em_exchanges em))
        (em\<lparr>em_sessionManager := m, em_closingSessions := insert sid (em_closingSessions em)\<rparr>) = Some em1"
    and ok: "em_ok em1" and m1: "manager_ok (em_sessionManager em1)" and c1: "em_closingSessions em1 = insert sid (em_closingSessions em)"
    and sf: "session_frame (em_sessionManager em) (em_sessionManager em1)" and ch: "em_channelManager em1 = em_channelManager em"
    and x: "\<And>i ref. map_of (em_exchanges em1) i = Some ref \<longleftrightarrow>
      map_of (em_exchanges em) i = Some ref \<and> session_id_in em (exchange_session ref em) \<noteq> sid"
    and es: "\<And>ref. exchange_session ref em1 = exchange_session ref em"
    using closing_exchanges [OF em_reachable_ok [OF assms(1)] assms(2,4,5), of d] by blast
  have ids: "ref_id (em_sessionManager em1) s = ref_id (em_sessionManager em) s" for s using session_frame_ids [OF sf] by blast
  have look: "closing_channel r em1 = Inr sending"
    using assms(7) closing_channel_frame [OF sf ch] by simp
  have "\<forall>c. sending = Some c \<longrightarrow> session_id_in em1 (ch_session (cm_objects (em_channelManager em1) c)) \<in> em_closingSessions em1"
    using channel_of_session [OF assms(3)] assms(5,7) ids c1 ch by (auto simp: closing_channel_def split: if_splits)
  from close_message_returns [OF ok m1 this] obtain em2 where s: "(case sending of None \<Rightarrow> Some em1 | Some c \<Rightarrow> send_close (closeSession (Suc d)) c em1) = Some em2"
    and sf2: "session_frame (em_sessionManager em1) (em_sessionManager em2)" and c2: "em_closingSessions em2 = em_closingSessions em1"
    and x2: "\<And>i ref. map_of (em_exchanges em2) i = Some ref \<Longrightarrow> map_of (em_exchanges em1) i = Some ref"
    and es2: "\<And>ref. ref < em_nextRef em1 \<Longrightarrow> exchange_session ref em2 = exchange_session ref em1"
    by blast
  define m' where "m' = removeSession sid (if ss_closingAfterExchangeFinished (mg_objects (em_sessionManager em2) r)
    then destroy_ref False False r (em_sessionManager em2) else em_sessionManager em2)"
  have "manager_ok (em_sessionManager em2)" using sf2 m1 by (simp add: session_frame_def)
  from unregister [OF this] have u: "sid \<notin> used_ids m'" "\<And>s. ref_id m' s = ref_id (em_sessionManager em2) s"
    unfolding m'_def by blast+
  let ?em' = "em2\<lparr>em_sessionManager := m', em_closingSessions := em_closingSessions em2 - {sid}\<rparr>"
  have "closeSession (Suc (Suc d)) r em = Some (Inr (), ?em')"
    using g d look s assms(5,6) by (simp add: closeSession_with_def closing_channel_def m'_def Let_def)
  moreover have "session_id_in ?em' (exchange_session ref ?em') \<noteq> sid" if "map_of (em_exchanges ?em') i = Some ref" for i ref
  proof -
    from that have "map_of (em_exchanges em1) i = Some ref" using x2 by simp
    moreover from this have "ref < em_nextRef em1" using ok by (simp add: em_ok_def)
    ultimately show ?thesis using x u(2) es es2 session_frame_ids [OF sf2] ids by simp
  qed
  ultimately show ?thesis using u(1) c1 c2 assms(6) by (intro exI [of _ ?em']) auto
qed

lemma close_session_lost:
  assumes "em_reachable em" and "manager_ok (em_sessionManager em)"
    and "r \<in> set (bs_entries (mg_sessions (em_sessionManager em)))"
    and "sid = ss_id (mg_objects (em_sessionManager em) r)" and "sid \<notin> em_closingSessions em"
    and "closing_channel r em = Inl e"
  obtains em1 where "closeSession (Suc (Suc d)) r em = Some (Inl e, em1)"
    and "manager_ok (em_sessionManager em1)" and "sid = ss_id (mg_objects (em_sessionManager em1) r)"
    and "sid \<in> used_ids (em_sessionManager em1)" and "em_closingSessions em1 = insert sid (em_closingSessions em)"
    and "\<forall>i ref. map_of (em_exchanges em1) i = Some ref \<longrightarrow> session_id_in em1 (exchange_session ref em1) \<noteq> sid"
proof -
  obtain m em1 where g: "getSession sid (em_sessionManager em) = (Some r, m)"
    and d: "destroy_all (closeSession (Suc d)) (\<lambda>mx em. session_id_in em (mx_session mx) = sid) (map fst (em_exchanges em))
        (em\<lparr>em_sessionManager := m, em_closingSessions := insert sid (em_closingSessions em)\<rparr>) = Some em1"
    and ok: "em_ok em1" and m1: "manager_ok (em_sessionManager em1)" and c1: "em_closingSessions em1 = insert sid (em_closingSessions em)"
    and sf: "session_frame (em_sessionManager em) (em_sessionManager em1)" and ch: "em_channelManager em1 = em_channelManager em"
    and x: "\<And>i ref. map_of (em_exchanges em1) i = Some ref \<longleftrightarrow>
      map_of (em_exchanges em) i = Some ref \<and> session_id_in em (exchange_session ref em) \<noteq> sid"
    and es: "\<And>ref. exchange_session ref em1 = exchange_session ref em"
    using closing_exchanges [OF em_reachable_ok [OF assms(1)] assms(2,3,4), of d] by blast
  have sid: "sid = ss_id (mg_objects (em_sessionManager em1) r)" using sf assms(4) by (simp add: session_frame_def)
  show thesis
  proof (rule that)
    show "closeSession (Suc (Suc d)) r em = Some (Inl e, em1)"
      using g d assms(4-6) closing_channel_frame [OF sf ch, of r] by (simp add: closeSession_with_def closing_channel_def Let_def)
    show "sid \<in> used_ids (em_sessionManager em1)" using sf assms(3) sid by (auto simp: used_ids_def session_frame_def)
    show "\<forall>i ref. map_of (em_exchanges em1) i = Some ref \<longrightarrow> session_id_in em1 (exchange_session ref em1) \<noteq> sid"
      using x es session_frame_ids [OF sf] by auto
  qed (rule m1 sid c1)+
qed

text \<open>
  C21. Closing a registered session that is not being closed yet ends, and nested calls go no deeper than two.  In every reachable state with consistent
  session and channel tables, and when no other operation runs before the close has ended, no exchange of the session is
  registered afterwards; unless the lookup of the channel for the close message throws, the session is unregistered, and it is not marked as being closed
  any more.  If the lookup throws, the call fails with its error, and the session stays registered and marked as being closed.
\<close>

theorem close_session_complete:
  assumes "em_reachable em" and "manager_ok (em_sessionManager em)" and "pase_ok (em_channelManager em)"
    and "r \<in> set (bs_entries (mg_sessions (em_sessionManager em)))"
    and "sid = ss_id (mg_objects (em_sessionManager em) r)" and "sid \<notin> em_closingSessions em"
  shows "\<exists>res em'. closeSession (Suc (Suc d)) r em = Some (res, em') \<and>
    (\<forall>i ref. map_of (em_exchanges em') i = Some ref \<longrightarrow> session_id_in em' (exchange_session ref em') \<noteq> sid) \<and>
    (case closing_channel r em of
       Inr _ \<Rightarrow> res = Inr () \<and> sid \<notin> used_ids (em_sessionManager em') \<and> em_closingSessions em' = em_closingSessions em
     | Inl e \<Rightarrow> res = Inl e \<and> sid \<in> used_ids (em_sessionManager em') \<and> em_closingSessions em' = insert sid (em_closingSessions em))"
proof (cases "closing_channel r em")
  case (Inl e)
  obtain em1 where 1: "closeSession (Suc (Suc d)) r em = Some (Inl e, em1)"
    "manager_ok (em_sessionManager em1)" "sid = ss_id (mg_objects (em_sessionManager em1) r)" "sid \<in> used_ids (em_sessionManager em1)"
    "em_closingSessions em1 = insert sid (em_closingSessions em)"
    "\<forall>i ref. map_of (em_exchanges em1) i = Some ref \<longrightarrow> session_id_in em1 (exchange_session ref em1) \<noteq> sid"
    by (rule close_session_lost [OF assms(1,2,4,5,6) Inl, of d])
  show ?thesis unfolding Inl sum.case by (rule exI [of _ "Inl e"], rule exI [of _ em1]) (simp del: closeSession.simps add: 1(1,4-))
next
  case (Inr channel)
  obtain em' where 1: "closeSession (Suc (Suc d)) r em = Some (Inr (), em')" "sid \<notin> used_ids (em_sessionManager em')"
    "em_closingSessions em' = em_closingSessions em"
    "\<forall>i ref. map_of (em_exchanges em') i = Some ref \<longrightarrow> session_id_in em' (exchange_session ref em') \<noteq> sid"
    using close_session_channel [OF assms Inr, of d] by (elim exE conjE)
  show ?thesis unfolding Inr sum.case by (rule exI [of _ "Inr ()"], rule exI [of _ em']) (simp del: closeSession.simps add: 1)
qed

text \<open>
  A session that is ended at once is closed in silence: the close callback takes the session off the manager before
  \<^verbatim>\<open>closeSession\<close> is called for it, which then finds no session and returns; no close message is sent and none of the session's exchanges is
  destroyed.
\<close>

theorem immediate_end_is_silent:
  assumes "manager_ok (em_sessionManager em)" and "r \<in> set (bs_entries (mg_sessions (em_sessionManager em)))"
  shows "\<exists>m. closeSession (Suc d) r (em\<lparr>em_sessionManager := end_ref True False r (em_sessionManager em)\<rparr>) =
    Some (Inr (), em\<lparr>em_sessionManager := m\<rparr>)"
proof -
  let ?m = "end_ref True False r (em_sessionManager em)"
  note e = end_ref_ok [OF assms(1), of True r]
  obtain found m' where g: "getSession (ss_id (mg_objects ?m r)) ?m = (found, m')" by fastforce
  have "ss_id (mg_objects ?m r) \<notin> used_ids ?m" using id_free [OF assms e(2,3)] e(3) by simp
  then have "found = None" using getSession_ok(6) [OF e(1) g] by simp
  with g show ?thesis by (intro exI [of _ m']) (simp add: closeSession_with_def)
qed

text \<open>
  A session whose channel is gone is never closed: the lookup of the channel throws after the session has been marked as being
  closed, the mark stays, and every later attempt returns at once, leaving the session registered.
\<close>

theorem lost_channel_blocks_closing:
  assumes "em_reachable em" and "manager_ok (em_sessionManager em)"
    and "r \<in> set (bs_entries (mg_sessions (em_sessionManager em)))"
    and "sid = ss_id (mg_objects (em_sessionManager em) r)" and "sid \<notin> em_closingSessions em"
    and "ss_sendCloseMessageWhenClosing (mg_objects (em_sessionManager em) r)"
    and "getChannelForSession (SecureRef r) (em_sessionManager em) (em_channelManager em) = Inl NoChannelError"
  shows "\<exists>em' em''. closeSession (Suc (Suc d)) r em = Some (Inl NoChannelError, em') \<and>
    closeSession (Suc (Suc d)) r em' = Some (Inr (), em'') \<and> sid \<in> used_ids (em_sessionManager em'')"
proof -
  have lost: "closing_channel r em = Inl NoChannelError" using assms(6,7) by (simp add: closing_channel_def)
  obtain em1 where 1: "closeSession (Suc (Suc d)) r em = Some (Inl NoChannelError, em1)"
    "manager_ok (em_sessionManager em1)" "sid = ss_id (mg_objects (em_sessionManager em1) r)"
    "sid \<in> used_ids (em_sessionManager em1)" "em_closingSessions em1 = insert sid (em_closingSessions em)"
    "\<forall>i ref. map_of (em_exchanges em1) i = Some ref \<longrightarrow> session_id_in em1 (exchange_session ref em1) \<noteq> sid"
    by (rule close_session_lost [OF assms(1-5) lost, of d])
  from nested_close [OF 1(2), of r "closeSession (Suc d)"] 1(3,5) obtain m2 where
    "closeSession (Suc (Suc d)) r em1 = Some (Inr (), em1\<lparr>em_sessionManager := m2\<rparr>)" "session_frame (em_sessionManager em1) m2"
    by auto
  with 1(1,4) session_frame_ids show ?thesis by auto
qed

section \<open>Instances\<close>

lemma bs_ok_cong:
  assumes "\<And>x. x \<in> set (bs_entries s) \<Longrightarrow> fld x = fld' x"
  shows "bs_ok fld s = bs_ok fld' s"
proof -
  have "unique_values fld (bs_entries s) = unique_values fld' (bs_entries s)" using assms by (simp add: unique_values_def)
  moreover have "index_ok fld (bs_entries s) index = index_ok fld' (bs_entries s) index" for index
    using assms by (auto simp: index_ok_def)
  ultimately show ?thesis by (simp add: bs_ok_def split: option.splits)
qed

lemma createSecureSession_ok [inv_intros]:
  assumes "manager_ok m" and "sid \<notin> used_ids m"
  shows "manager_ok (snd (createSecureSession hkdf now rnd opts sid f pn ps secret salt i res m))"
proof -
  define s where "s = create_session hkdf now rnd opts sid f pn ps secret salt i res"
  let ?m = "m\<lparr>mg_objects := (mg_objects m)(mg_nextRef m := s), mg_nextRef := mg_nextRef m + 1\<rparr>"
  have s: "ss_id s = sid" by (simp add: s_def create_session_def new_SecureSession_def Let_def Session.defs)
  have same: "id_of ?m x = id_of m x" if "x \<in> set (bs_entries (mg_sessions m))" for x
    using that assms(1) by (auto simp: id_of_def manager_ok_def)
  have "bs_ok (id_of ?m) (mg_sessions m)" using bs_ok_cong [of "mg_sessions m" "id_of ?m" "id_of m"] same assms(1) by (simp add: manager_ok_def)
  then have "bs_ok (id_of ?m) (bs_add (id_of ?m) (mg_nextRef m) (mg_sessions m))"
    by (rule bs_ok_add) (use same assms(2) s in \<open>auto simp: id_of_def used_ids_def\<close>)
  then show ?thesis
    using assms(1) by (auto simp: createSecureSession_def manager_ok_def s_def bs_add_def Let_def id_of_def less_SucI)
qed

text \<open>A node with a session to a peer in its fabric and an exchange over it.\<close>

definition fabric_session :: SessionManager where
  "fabric_session = snd (createSecureSession (\<lambda>_ _ _ n. replicate n 0) 0 7 None 5
     (Some \<lparr>fa_fabricId = 1, fa_nodeId = 2, fa_rootNodeId = 3\<rparr>) 77 6 [] [] True False (new_SessionManager 5 7))"

definition connected :: "unit ExchangeManager" where
  "connected = snd (initiateExchangeWithChannel 0 1
     (new_ExchangeManager 0 fabric_session (snd (snd (getOrCreateChannel 7 (SecureRef 0) (fabric_session, new_ChannelManager))))))"

lemma fabric_session_ok: "manager_ok fabric_session \<and> bs_entries (mg_sessions fabric_session) = [0] \<and> ss_id (mg_objects fabric_session 0) = 5"
proof -
  have "manager_ok fabric_session"
    unfolding fabric_session_def
    by (rule createSecureSession_ok [OF manager_ok_new]) (simp add: used_ids_def new_SessionManager_def bs_empty_def)
  moreover have "bs_entries (mg_sessions fabric_session) = [0] \<and> ss_id (mg_objects fabric_session 0) = 5" by code_simp
  ultimately show ?thesis by blast
qed

lemma connected_facts:
  "em_reachable connected" "em_sessionManager connected = fabric_session" "em_closingSessions connected = {}"
  "pase_ok (em_channelManager connected)" "map_of (em_exchanges connected) 65537 = Some 0"
  "exchange_session 0 connected = SecureRef 0"
  "getChannelForSession (SecureRef 0) (em_sessionManager connected) (em_channelManager connected) = Inr (Some 0)"
proof -
  let ?em = "new_ExchangeManager 0 fabric_session (snd (snd (getOrCreateChannel 7 (SecureRef 0) (fabric_session, new_ChannelManager)))) :: unit ExchangeManager"
  have "em_reachable ?em" by (rule em_reachable.start) simp_all
  then show "em_reachable connected"
    unfolding connected_def by (rule em_reachable.step [OF _ em_step.initiates [OF prod.collapse [symmetric]]])
  show "em_sessionManager connected = fabric_session" "em_closingSessions connected = {}"
    by (simp_all add: connected_def initiateExchangeWithChannel_def add_exchange_def new_ExchangeManager_def Let_def)
  have "cm_paseChannels (em_channelManager connected) = []" by code_simp
  then show "pase_ok (em_channelManager connected)" by (simp add: pase_ok_def)
  show "map_of (em_exchanges connected) 65537 = Some 0" "exchange_session 0 connected = SecureRef 0"
    "getChannelForSession (SecureRef 0) (em_sessionManager connected) (em_channelManager connected) = Inr (Some 0)"
    by code_simp+
qed

theorem close_session_complete_witness:
  "\<exists>em'. closeSession 2 0 connected = Some (Inr (), em') \<and> map_of (em_exchanges connected) 65537 = Some 0 \<and>
     5 \<notin> used_ids (em_sessionManager em') \<and>
     (\<forall>i ref. map_of (em_exchanges em') i = Some ref \<longrightarrow> session_id_in em' (exchange_session ref em') \<noteq> 5)"
proof -
  have "\<exists>c. closing_channel 0 connected = Inr c" using connected_facts(7) by (simp add: closing_channel_def)
  with close_session_complete [OF connected_facts(1) _ connected_facts(4), of 0 5 0] fabric_session_ok connected_facts(2,3,5)
  show ?thesis by (auto simp: numeral_2_eq_2)
qed

theorem immediate_end_is_silent_witness:
  "\<exists>m. closeSession 1 0 (connected\<lparr>em_sessionManager := end_ref True False 0 fabric_session\<rparr>) =
     Some (Inr (), connected\<lparr>em_sessionManager := m\<rparr>)"
  using immediate_end_is_silent [of connected 0 0] fabric_session_ok connected_facts(2) by auto

theorem lost_channel_blocks_closing_witness:
  "\<exists>em' em''. closeSession 2 0 (new_ExchangeManager 0 fabric_session new_ChannelManager :: unit ExchangeManager) = Some (Inl NoChannelError, em') \<and>
     closeSession 2 0 em' = Some (Inr (), em'') \<and> 5 \<in> used_ids (em_sessionManager em'')"
proof -
  let ?em = "new_ExchangeManager 0 fabric_session new_ChannelManager :: unit ExchangeManager"
  have "em_reachable ?em" by (rule em_reachable.start) simp_all
  moreover have "ss_sendCloseMessageWhenClosing (mg_objects (em_sessionManager ?em) 0)"
    "getChannelForSession (SecureRef 0) (em_sessionManager ?em) (em_channelManager ?em) = Inl NoChannelError"
    by code_simp+
  moreover have "em_sessionManager ?em = fabric_session" "em_closingSessions ?em = {}" by (simp_all add: new_ExchangeManager_def)
  ultimately show ?thesis
    using lost_channel_blocks_closing [of ?em 0 5 0] fabric_session_ok by (auto simp: numeral_2_eq_2)
qed

end
