(* ===== verification/ChannelLaws.thy ===== *)
theory ChannelLaws
  imports SessionClosing
begin

text \<open>
  What the channel manager promises: a channel that is registered is open, is registered once, and when it has a close callback it unregisters itself; the
  channel of a session is found again; a channel that replaces another leaves the old one closed.
\<close>

text \<open>
  Most registered channels have a close callback that unregisters them; \<^verbatim>\<open>MatterController.ts\<close> registers one without a callback.
\<close>

definition registered_ok :: "ChannelManager \<Rightarrow> channel_key \<Rightarrow> nat \<Rightarrow> bool" where
  "registered_ok cm k c \<longleftrightarrow> c < cm_nextRef cm \<and> \<not> ch_closed (cm_objects cm c) \<and>
     (ch_closeCallback (cm_objects cm c) = None \<or> ch_closeCallback (cm_objects cm c) = Some (RemoveChannel k))"

definition pase_registered_ok :: "ChannelManager \<Rightarrow> session_ref \<Rightarrow> nat \<Rightarrow> bool" where
  "pase_registered_ok cm s c \<longleftrightarrow> c < cm_nextRef cm \<and> \<not> ch_closed (cm_objects cm c) \<and>
     ch_closeCallback (cm_objects cm c) = Some (DeletePase s) \<and> ch_session (cm_objects cm c) = s"

definition cm_ok :: "ChannelManager \<Rightarrow> bool" where
  "cm_ok cm \<longleftrightarrow>
     (\<forall>k c. map_of (cm_channels cm) k = Some c \<longrightarrow> registered_ok cm k c) \<and>
     (\<forall>k k' c. map_of (cm_channels cm) k = Some c \<and> map_of (cm_channels cm) k' = Some c \<longrightarrow> k = k') \<and>
     (\<forall>s c. map_of (cm_paseChannels cm) s = Some c \<longrightarrow> pase_registered_ok cm s c)"

lemma cm_ok_new: "cm_ok new_ChannelManager"
  by (simp add: cm_ok_def new_ChannelManager_def)

lemma cm_okI:
  assumes "\<And>k c. map_of (cm_channels cm) k = Some c \<Longrightarrow> registered_ok cm k c"
    and "\<And>k k' c. map_of (cm_channels cm) k = Some c \<Longrightarrow> map_of (cm_channels cm) k' = Some c \<Longrightarrow> k = k'"
    and "\<And>s c. map_of (cm_paseChannels cm) s = Some c \<Longrightarrow> pase_registered_ok cm s c"
  shows "cm_ok cm"
  using assms unfolding cm_ok_def by blast

lemma cm_okD: "cm_ok cm \<Longrightarrow> map_of (cm_channels cm) k = Some c \<Longrightarrow> registered_ok cm k c"
  unfolding cm_ok_def by blast

lemma cm_okD_once: "cm_ok cm \<Longrightarrow> map_of (cm_channels cm) k = Some c \<Longrightarrow> map_of (cm_channels cm) k' = Some c \<Longrightarrow> k' = k"
  unfolding cm_ok_def by blast

lemma cm_okD_pase: "cm_ok cm \<Longrightarrow> map_of (cm_paseChannels cm) s = Some c \<Longrightarrow> pase_registered_ok cm s c"
  unfolding cm_ok_def by blast

text \<open>Only what the tables map to what matters.\<close>

lemma cm_ok_cong:
  assumes "cm_ok cm" and "map_of (cm_channels cm') = map_of (cm_channels cm)" and "cm_paseChannels cm' = cm_paseChannels cm"
    and "cm_objects cm' = cm_objects cm" and "cm_nextRef cm' = cm_nextRef cm"
  shows "cm_ok cm'"
  using assms by (simp add: cm_ok_def registered_ok_def pase_registered_ok_def)

lemma cm_ok_pase: "cm_ok cm \<Longrightarrow> pase_ok cm"
  by (simp add: cm_ok_def pase_ok_def pase_registered_ok_def)

lemma close_closed: "ch_closed (cm_objects cm ref) \<Longrightarrow> channel_close ref cm = close_bytes ref cm"
  by (simp add: channel_close.simps)

lemma close_bytes_simps [simp]:
  "cm_channels (close_bytes ref cm) = cm_channels cm" "cm_paseChannels (close_bytes ref cm) = cm_paseChannels cm"
  "cm_nextRef (close_bytes ref cm) = cm_nextRef cm" "ch_closed (cm_objects (close_bytes ref cm) ref)"
  "ch_session (cm_objects (close_bytes ref cm) x) = ch_session (cm_objects cm x)"
  "ch_closeCallback (cm_objects (close_bytes ref cm) x) = ch_closeCallback (cm_objects cm x)"
  "x \<noteq> ref \<Longrightarrow> cm_objects (close_bytes ref cm) x = cm_objects cm x"
  by (auto simp: close_bytes_def)

text \<open>Closing a channel that is not registered, and taking a channel off the tables, keep the invariant.\<close>

lemma cm_ok_close_bytes:
  assumes "cm_ok cm" and "\<forall>k. map_of (cm_channels cm) k \<noteq> Some ref" and "\<forall>s. map_of (cm_paseChannels cm) s \<noteq> Some ref"
  shows "cm_ok (close_bytes ref cm)"
proof (rule cm_okI)
  show "registered_ok (close_bytes ref cm) k c" if "map_of (cm_channels (close_bytes ref cm)) k = Some c" for k c
    using cm_okD [OF assms(1), of k c] that assms(2) by (cases "c = ref") (auto simp: registered_ok_def)
  show "k = k'" if "map_of (cm_channels (close_bytes ref cm)) k = Some c" "map_of (cm_channels (close_bytes ref cm)) k' = Some c" for k k' c
    using cm_okD_once [OF assms(1)] that by simp
  show "pase_registered_ok (close_bytes ref cm) s c" if "map_of (cm_paseChannels (close_bytes ref cm)) s = Some c" for s c
    using cm_okD_pase [OF assms(1), of s c] that assms(3) by (cases "c = ref") (auto simp: pase_registered_ok_def)
qed

lemma cm_ok_unregister:
  assumes "cm_ok cm"
  shows "cm_ok (cm\<lparr>cm_channels := AList.delete k (cm_channels cm)\<rparr>)" and "cm_ok (cm\<lparr>cm_paseChannels := AList.delete s (cm_paseChannels cm)\<rparr>)"
  using assms by (auto simp: cm_ok_def registered_ok_def pase_registered_ok_def delete_conv' split: if_splits)

lemma registered_once:
  assumes "cm_ok cm" and "map_of (cm_channels cm) k = Some c"
  shows "\<forall>k'. map_of (AList.delete k (cm_channels cm)) k' \<noteq> Some c" and "\<forall>s. map_of (cm_paseChannels cm) s \<noteq> Some c"
proof -
  show "\<forall>k'. map_of (AList.delete k (cm_channels cm)) k' \<noteq> Some c"
    using cm_okD_once [OF assms] by (simp add: delete_conv') blast
  show "\<forall>s. map_of (cm_paseChannels cm) s \<noteq> Some c"
    using cm_okD_pase [OF assms(1)] cm_okD [OF assms] by (force simp: registered_ok_def pase_registered_ok_def)
qed

lemma close_bytes_delete:
  "(close_bytes c cm)\<lparr>cm_channels := AList.delete k (cm_channels cm)\<rparr> = close_bytes c (cm\<lparr>cm_channels := AList.delete k (cm_channels cm)\<rparr>)"
  "(close_bytes c cm)\<lparr>cm_paseChannels := AList.delete s (cm_paseChannels cm)\<rparr> = close_bytes c (cm\<lparr>cm_paseChannels := AList.delete s (cm_paseChannels cm)\<rparr>)"
  by (simp_all add: close_bytes_def)

text \<open>
  Closing a registered channel unregisters it, when it has a callback, and closes its byte channel twice then.  The callers take a channel
  without a callback off the table themselves.
\<close>

lemma close_registered:
  assumes "map_of (cm_channels cm) k = Some c" and "registered_ok cm k c"
  shows "channel_close c cm = close_bytes c cm \<or>
    channel_close c cm = (close_bytes c (close_bytes c cm))\<lparr>cm_channels := AList.delete k (cm_channels cm)\<rparr>"
  using assms by (subst (1 2) channel_close.simps) (auto simp: registered_ok_def close_closed Let_def)

lemma cm_ok_close_registered:
  assumes "cm_ok cm" and "map_of (cm_channels cm) k = Some c"
  shows "cm_ok ((channel_close c cm)\<lparr>cm_channels := AList.delete k (cm_channels (channel_close c cm))\<rparr>)"
proof -
  let ?cm = "cm\<lparr>cm_channels := AList.delete k (cm_channels cm)\<rparr>"
  have "cm_ok (close_bytes c ?cm)" "cm_ok (close_bytes c (close_bytes c ?cm))"
    using registered_once [OF assms] cm_ok_unregister(1) [OF assms(1), of k] by (intro cm_ok_close_bytes; simp)+
  moreover have "(channel_close c cm)\<lparr>cm_channels := AList.delete k (cm_channels (channel_close c cm))\<rparr> \<in>
      {close_bytes c ?cm, close_bytes c (close_bytes c ?cm)}"
    using close_registered [OF assms(2) cm_okD [OF assms]] by (auto simp: close_bytes_def delete_idem)
  ultimately show ?thesis by auto
qed

lemma cm_ok_remove [inv_intros]: "cm_ok cm \<Longrightarrow> cm_ok (removeChannel key cm)"
  by (auto simp: removeChannel_def Let_def split: option.splits intro!: cm_ok_close_registered)

text \<open>Closing any other channel, or a registered one with a callback, keeps the invariant.\<close>

lemma cm_ok_close [inv_intros]:
  assumes "cm_ok cm" and "\<forall>k. map_of (cm_channels cm) k = Some ref \<longrightarrow> ch_closeCallback (cm_objects cm ref) \<noteq> None"
  shows "cm_ok (channel_close ref cm)"
proof (cases "\<exists>k. map_of (cm_channels cm) k = Some ref")
  case True
  then obtain k where k: "map_of (cm_channels cm) k = Some ref" by blast
  have "channel_close ref cm = (close_bytes ref (close_bytes ref cm))\<lparr>cm_channels := AList.delete k (cm_channels cm)\<rparr>"
    using k assms(2) [rule_format, OF k] cm_okD [OF assms(1) k] by (subst channel_close.simps) (auto simp: registered_ok_def close_closed Let_def)
  then have "channel_close ref cm = (channel_close ref cm)\<lparr>cm_channels := AList.delete k (cm_channels (channel_close ref cm))\<rparr>"
    by (simp add: delete_idem)
  with cm_ok_close_registered [OF assms(1) k] show ?thesis by simp
next
  case False
  then have no: "\<forall>k. map_of (cm_channels cm) k \<noteq> Some ref" by blast
  show ?thesis
  proof (cases "ch_closed (cm_objects cm ref) \<or> ch_closeCallback (cm_objects cm ref) = None")
    case True
    then have "\<forall>s. map_of (cm_paseChannels cm) s \<noteq> Some ref" using cm_okD_pase [OF assms(1)] by (force simp: pase_registered_ok_def)
    with True cm_ok_close_bytes [OF assms(1) no] show ?thesis by (subst channel_close.simps) (auto simp: Let_def)
  next
    case False
    then obtain cb where cb: "ch_closeCallback (cm_objects cm ref) = Some cb" "\<not> ch_closed (cm_objects cm ref)" by blast
    show ?thesis
    proof (cases cb)
      case (DeletePase s)
      let ?cm = "cm\<lparr>cm_paseChannels := AList.delete s (cm_paseChannels cm)\<rparr>"
      have "\<forall>s'. map_of (cm_paseChannels ?cm) s' \<noteq> Some ref"
        using cm_okD_pase [OF assms(1), of _ ref] cb DeletePase by (auto simp: delete_conv' pase_registered_ok_def)
      with cm_ok_close_bytes [of ?cm ref] cm_ok_unregister(2) [OF assms(1), of s] no cb DeletePase
      show ?thesis by (subst channel_close.simps) (simp add: Let_def close_bytes_delete)
    next
      case (RemoveChannel k)
      then have "\<forall>s. map_of (cm_paseChannels cm) s \<noteq> Some ref" using cm_okD_pase [OF assms(1)] cb by (force simp: pase_registered_ok_def)
      then have ok: "cm_ok (close_bytes ref cm)" using cm_ok_close_bytes [OF assms(1) no] by blast
      show ?thesis
      proof (cases "map_of (cm_channels cm) k")
        case None
        with ok cb RemoveChannel show ?thesis by (subst channel_close.simps) (simp add: Let_def)
      next
        case (Some r)
        with cm_ok_close_registered [OF ok, of k r] cb RemoveChannel show ?thesis
          by (subst channel_close.simps) (simp add: Let_def)
      qed
    qed
  qed
qed

lemma add_channel_simps:
  assumes "add_channel ch cm = (r, cm')"
  shows "r = cm_nextRef cm" and "cm_objects cm' r = ch" and "cm_channels cm' = cm_channels cm"
    and "cm_paseChannels cm' = cm_paseChannels cm" and "cm_nextRef cm' = Suc r" and "x \<noteq> r \<Longrightarrow> cm_objects cm' x = cm_objects cm x"
  using assms by (auto simp: add_channel_def)

lemma cm_ok_add [inv_intros]:
  assumes "cm_ok cm" and "add_channel ch cm = (r, cm')"
  shows "cm_ok cm'"
proof (rule cm_okI)
  note a = add_channel_simps [OF assms(2)]
  show "registered_ok cm' k c" if "map_of (cm_channels cm') k = Some c" for k c
    using cm_okD [OF assms(1), of k c] that a(1,3,5) a(6) [of c] by (simp add: registered_ok_def)
  show "k = k'" if "map_of (cm_channels cm') k = Some c" "map_of (cm_channels cm') k' = Some c" for k k' c
    using cm_okD_once [OF assms(1)] that a(3) by simp
  show "pase_registered_ok cm' s c" if "map_of (cm_paseChannels cm') s = Some c" for s c
    using cm_okD_pase [OF assms(1), of s c] that a(1,4,5) a(6) [of c] by (simp add: pase_registered_ok_def)
qed

lemma registered_ok_update [simp]:
  "registered_ok (cm\<lparr>cm_channels := x\<rparr>) k c = registered_ok cm k c" "registered_ok (cm\<lparr>cm_paseChannels := y\<rparr>) k c = registered_ok cm k c"
  "pase_registered_ok (cm\<lparr>cm_channels := x\<rparr>) s c = pase_registered_ok cm s c"
  "pase_registered_ok (cm\<lparr>cm_paseChannels := y\<rparr>) s c = pase_registered_ok cm s c"
  by (simp_all add: registered_ok_def pase_registered_ok_def)

lemma cm_ok_register:
  assumes "cm_ok cm"
  shows "registered_ok cm k c \<Longrightarrow> \<forall>k'. map_of (cm_channels cm) k' \<noteq> Some c \<Longrightarrow> cm_ok (cm\<lparr>cm_channels := AList.update k c (cm_channels cm)\<rparr>)"
    and "pase_registered_ok cm s c \<Longrightarrow> cm_ok (cm\<lparr>cm_paseChannels := AList.update s c (cm_paseChannels cm)\<rparr>)"
  using assms by (auto simp: cm_ok_def update_conv' split: if_splits)

text \<open>Destroying a session changes nothing its channel is found by.\<close>

lemma ref_destroy_keys:
  "session_key (ref_destroy s m) t = session_key m t" "ref_id (ref_destroy s m) t = ref_id m t"
  "ref_isPase (ref_destroy s m) t = ref_isPase m t"
  by (cases s; cases t; simp add: destroy_ref_def end_insecure_def remove_ref_def destroy_session_eq isPase_def case_prod_unfold Let_def)+

lemma setChannel_registers:
  assumes "cm_ok cm" and "registered_ok cm k c" and "\<forall>k'. map_of (cm_channels cm) k' \<noteq> Some c"
    and "setChannel k c (m, cm) = (m', cm')"
  shows "cm_ok cm'" and "map_of (cm_channels cm') k = Some c" and "cm_objects cm' c = cm_objects cm c"
    and "cm_paseChannels cm' = cm_paseChannels cm"
    and "session_key m' t = session_key m t" and "ref_id m' t = ref_id m t" and "ref_isPase m' t = ref_isPase m t"
proof -
  have "cm_ok cm' \<and> map_of (cm_channels cm') k = Some c \<and> cm_objects cm' c = cm_objects cm c \<and> cm_paseChannels cm' = cm_paseChannels cm \<and>
    session_key m' t = session_key m t \<and> ref_id m' t = ref_id m t \<and> ref_isPase m' t = ref_isPase m t"
  proof (cases "map_of (cm_channels cm) k")
    case None
    with assms(4) have e: "m' = m" "cm' = cm\<lparr>cm_channels := AList.update k c (cm_channels cm)\<rparr>"
      by (auto simp: setChannel_def)
    with cm_ok_register(1) [OF assms(1-3)] show ?thesis by (simp add: update_conv')
  next
    case (Some old)
    then have n: "old \<noteq> c" using assms(3) by blast
    let ?cm = "channel_close old cm"
    let ?del = "?cm\<lparr>cm_channels := AList.delete k (cm_channels ?cm)\<rparr>"
    have cl: "?cm = close_bytes old cm \<or> ?cm = (close_bytes old (close_bytes old cm))\<lparr>cm_channels := AList.delete k (cm_channels cm)\<rparr>"
      by (rule close_registered [OF Some cm_okD [OF assms(1) Some]])
    then have c: "cm_nextRef ?cm = cm_nextRef cm" "cm_objects ?cm c = cm_objects cm c" "cm_paseChannels ?cm = cm_paseChannels cm"
      "\<forall>k'. k' \<noteq> k \<longrightarrow> map_of (cm_channels ?cm) k' = map_of (cm_channels cm) k'"
      using n by (auto simp: delete_conv')
    have e: "cm' = ?cm\<lparr>cm_channels := AList.update k c (cm_channels ?cm)\<rparr>" "m' = m \<or> (\<exists>s. m' = ref_destroy s m)"
      using assms(4) Some by (auto simp: setChannel_def Let_def split: if_splits)
    have "registered_ok ?del k c" "\<forall>k'. map_of (cm_channels ?del) k' \<noteq> Some c"
      using assms(2,3) c by (auto simp: registered_ok_def delete_conv')
    from cm_ok_register(1) [OF cm_ok_close_registered [OF assms(1) Some] this]
    have "cm_ok cm'" by (rule cm_ok_cong) (simp_all add: e(1) update_conv' delete_conv' fun_eq_iff)
    moreover have "session_key m' t = session_key m t \<and> ref_id m' t = ref_id m t \<and> ref_isPase m' t = ref_isPase m t"
      using e(2) ref_destroy_keys by auto
    ultimately show ?thesis using e(1) c(2,3) by (simp add: update_conv')
  qed
  then show "cm_ok cm'" "map_of (cm_channels cm') k = Some c" "cm_objects cm' c = cm_objects cm c" "cm_paseChannels cm' = cm_paseChannels cm"
    "session_key m' t = session_key m t" "ref_id m' t = ref_id m t" "ref_isPase m' t = ref_isPase m t"
    by blast+
qed

text \<open>
  C39. The channel of a session is found again: the channel that \<^verbatim>\<open>getOrCreateChannel\<close> returned is open and belongs to a session with that id,
  it is the one \<^verbatim>\<open>getChannelForSession\<close> finds, and every registered channel is still open.  The one exception is a PASE session that has got a fabric:
  its channel is registered under the fabric and the node, but looked up in the table of PASE channels, which has not changed.
\<close>

theorem channel_found_again:
  assumes "cm_ok cm" and "getOrCreateChannel b s (m, cm) = (c, m', cm')"
  shows "cm_ok cm' \<and> \<not> ch_closed (cm_objects cm' c) \<and> ref_id m' (ch_session (cm_objects cm' c)) = ref_id m' s \<and>
    getChannelForSession s m' cm' =
      Inr (if ref_isPase m s \<and> session_key m s \<noteq> None then map_of (cm_paseChannels cm) s else Some c)"
proof (cases "session_key m s")
  case None
  obtain cm1 where a: "add_channel (new_MessageChannel b s (Some (DeletePase s))) cm = (c, cm1)"
    and e: "cm' = cm1\<lparr>cm_paseChannels := AList.update s c (cm_paseChannels cm1)\<rparr>" "m' = m"
    using assms(2) None by (auto simp: getOrCreateChannel_def getOrCreateAsPaseChannel_def Let_def split: prod.splits)
  note a' = add_channel_simps [OF a]
  have "cm_ok cm'" unfolding e(1)
    by (rule cm_ok_register(2) [OF cm_ok_add [OF assms(1) a]]) (use a' in \<open>simp add: new_MessageChannel_def pase_registered_ok_def\<close>)
  with None e a' show ?thesis by (simp add: getChannelForSession_def update_conv' new_MessageChannel_def)
next
  case (Some k)
  then have sec: "isSecure s" by (cases s) simp_all
  show ?thesis
  proof (cases "\<exists>r. map_of (cm_channels cm) k = Some r \<and> ref_id m (ch_session (cm_objects cm r)) = ref_id m s")
    case True
    then have e: "m' = m" "cm' = cm" "map_of (cm_channels cm) k = Some c" "ref_id m (ch_session (cm_objects cm c)) = ref_id m s"
      using assms(2) Some by (auto simp: getOrCreateChannel_def Let_def)
    with cm_okD [OF assms(1) e(3)] assms(1) Some sec show ?thesis by (simp add: getChannelForSession_def getChannel_def registered_ok_def)
  next
    case False
    then obtain cm1 where a: "add_channel (new_MessageChannel b s (Some (RemoveChannel k))) cm = (c, cm1)"
      and e: "setChannel k c (m, cm1) = (m', cm')"
      using assms(2) Some by (auto simp: getOrCreateChannel_def Let_def split: prod.splits option.splits if_splits)
    note a' = add_channel_simps [OF a]
    have n: "\<forall>k'. map_of (cm_channels cm1) k' \<noteq> Some c" using cm_okD [OF assms(1), of _ c] a'(1,3) by (auto simp: registered_ok_def)
    have r: "registered_ok cm1 k c" by (simp add: registered_ok_def a'(2,5) new_MessageChannel_def)
    note f = setChannel_registers [OF cm_ok_add [OF assms(1) a] r n e]
    have "\<not> ch_closed (cm_objects cm' c)" "ch_session (cm_objects cm' c) = s" using f(3) a'(2) by (simp_all add: new_MessageChannel_def)
    with f(1,2,4-) a'(4) Some sec show ?thesis by (simp add: getChannelForSession_def getChannel_def)
  qed
qed

theorem channel_found_again_witness:
  "let (c, m', cm') = getOrCreateChannel 7 (SecureRef 0) (fabric_session, new_ChannelManager)
   in c = 0 \<and> getChannelForSession (SecureRef 0) m' cm' = Inr (Some c)"
proof -
  let ?g = "getOrCreateChannel 7 (SecureRef 0) (fabric_session, new_ChannelManager)"
  have g: "?g = (0, fst (snd ?g), snd (snd ?g))"
  proof -
    have "fst ?g = 0" by code_simp
    then show ?thesis by (metis prod.collapse)
  qed
  have "\<not> ref_isPase fabric_session (SecureRef 0)" by code_simp
  with channel_found_again [OF cm_ok_new g] have "getChannelForSession (SecureRef 0) (fst (snd ?g)) (snd (snd ?g)) = Inr (Some 0)"
    by (simp del: split_paired_All)
  then show ?thesis by (subst g) (simp add: case_prod_unfold)
qed

end
