(* ===== verification/SessionNonces.thy ===== *)
theory SessionNonces
  imports SessionClosing
begin

text \<open>
  The nonces of a secure session: the counter of the session, \<^verbatim>\<open>protocol/MessageCounter.ts\<close>, numbers its messages, and every
  nonce of \<^verbatim>\<open>SecureSession.generateNonce\<close> contains the number.  No nonce is used twice with the key of a session until the counter has
  run through all its values; then the session, whose counter may roll over, starts to repeat them.
\<close>

lemma nonce_number:
  assumes "generateNonce flags i node = Inr nonce" and "0 \<le> i" and "i < 2 ^ 32"
  shows "le_uint (take 4 (drop 1 nonce)) = i"
  using assms le_uint_le_bytes_id [of i 4] by (auto simp: generateNonce_def toNumber_range)

abbreviation counter_of :: "nat \<Rightarrow> SessionManager \<Rightarrow> MessageCounter" where
  "counter_of r m \<equiv> ss_messageCounter (mg_objects m r)"

text \<open>
  A run of a session: \<open>ns\<close> are the nonces of the messages sent so far, the last one first.  Between two messages anything may happen that
  leaves the counter of the session.
\<close>

inductive nonces :: "nat \<Rightarrow> SessionManager \<Rightarrow> byte list list \<Rightarrow> bool" for r where
  created: "counter_of r m = new_MessageCounter rnd True ROLLOVER_INFO_DIFFERENCE \<Longrightarrow> nonces r m []"
| other: "nonces r m ns \<Longrightarrow> counter_of r m' = counter_of r m \<Longrightarrow> nonces r m' ns"
| sent: "nonces r m ns \<Longrightarrow> ref_nextCounter (SecureRef r) m = (Inr i, m') \<Longrightarrow> generateNonce flags i node = Inr nonce \<Longrightarrow>
    nonces r m' (nonce # ns)"

abbreviation numbers :: "nat" where "numbers \<equiv> 0xffffffff"

lemma end_ref_counter: "counter_of r (end_ref a b ref m) = counter_of r m"
  by (simp add: end_ref_def end_session_eq remove_ref_def case_prod_unfold Let_def)

lemma nextCounter_counter:
  assumes "ref_nextCounter (SecureRef r) m = (v, m')"
  obtains rollover where "getIncrementedCounter (counter_of r m) = (counter_of r m', rollover, v)"
  using assms end_ref_counter by (auto simp: Let_def split: prod.splits if_splits)

lemma next_number:
  assumes "getIncrementedCounter c = (c', b, v)" and "mc_hasCallback c" and "0 \<le> mc_messageCounter c"
    and "mc_messageCounter c \<le> MAX_COUNTER_VALUE_32BIT"
  shows "v = Inr ((mc_messageCounter c + 1) mod int numbers) \<and> mc_messageCounter c' = (mc_messageCounter c + 1) mod int numbers \<and>
    mc_hasCallback c'"
  using assms by (auto simp: getIncrementedCounter_def MAX_COUNTER_VALUE_32BIT_def Let_def split: if_splits)

text \<open>The numbers in the nonces are consecutive, modulo the range of the counter.\<close>

lemma nonces_numbers:
  assumes "nonces r m ns"
  shows "\<exists>c. 0 \<le> c \<and> map (\<lambda>n. le_uint (take 4 (drop 1 n))) ns = map (\<lambda>j. (c + 1 + int j) mod int numbers) (rev [0..<length ns]) \<and>
    mc_hasCallback (counter_of r m) \<and> mc_messageCounter (counter_of r m) = (c + int (length ns)) mod int numbers"
  using assms
proof (induction rule: nonces.induct)
  case (created m rnd)
  then show ?case
    using new_MessageCounter_range [of rnd True ROLLOVER_INFO_DIFFERENCE]
    by (intro exI [of _ "mc_messageCounter (counter_of r m)"]) (auto simp: new_MessageCounter_def)
next
  case (other m ns m')
  then show ?case by simp
next
  case (sent m ns i m' flags node nonce)
  then obtain c where c: "0 \<le> c" "map (\<lambda>n. le_uint (take 4 (drop 1 n))) ns = map (\<lambda>j. (c + 1 + int j) mod int numbers) (rev [0..<length ns])"
    and cb: "mc_hasCallback (counter_of r m)" and v: "mc_messageCounter (counter_of r m) = (c + int (length ns)) mod int numbers" by blast
  obtain b where g: "getIncrementedCounter (counter_of r m) = (counter_of r m', b, Inr i)"
    using sent.hyps(2) by (rule nextCounter_counter)
  have "i = (mc_messageCounter (counter_of r m) + 1) mod int numbers" "mc_messageCounter (counter_of r m') = i" "mc_hasCallback (counter_of r m')"
    using next_number [OF g cb] v by (auto simp: MAX_COUNTER_VALUE_32BIT_def)
  then have i: "i = (c + 1 + int (length ns)) mod int numbers" "mc_messageCounter (counter_of r m') = i" "mc_hasCallback (counter_of r m')"
    unfolding v by (simp_all add: mod_simps algebra_simps)
  then have "le_uint (take 4 (drop 1 nonce)) = i"
    by (intro nonce_number [OF sent.hyps(3)]) simp_all
  with c i show ?case by (intro exI [of _ c]) (simp add: algebra_simps)
qed

lemma distinct_mod_range: "n \<le> N \<Longrightarrow> distinct (map (\<lambda>j. (c + int j) mod int N) [0..<n])"
proof (induction n)
  case (Suc n)
  have "(c + int j) mod int N \<noteq> (c + int n) mod int N" if "j < n" for j
  proof
    assume "(c + int j) mod int N = (c + int n) mod int N"
    then have "int N dvd int n - int j" by (simp add: mod_eq_dvd_iff algebra_simps) (metis dvd_minus_iff minus_diff_eq)
    with that Suc.prems show False by (auto dest: zdvd_imp_le)
  qed
  then have "(c + int n) mod int N \<notin> (\<lambda>j. (c + int j) mod int N) ` {0..<n}" by force
  with Suc show ?case by simp
qed simp

text \<open>
  C13. No nonce is used twice: whatever a secure session does between its messages, the nonces of its first 4294967295 messages are pairwise
  different, whatever flags and node ids go into them.
\<close>

theorem nonce_never_reused:
  assumes "nonces r m ns" and "length ns \<le> 0xffffffff"
  shows "distinct ns"
proof -
  obtain c where "map (\<lambda>n. le_uint (take 4 (drop 1 n))) ns = rev (map (\<lambda>j. (c + 1 + int j) mod int numbers) [0..<length ns])"
    using nonces_numbers [OF assms(1)] by (auto simp: rev_map)
  moreover have "distinct (map (\<lambda>j. (c + 1 + int j) mod int numbers) [0..<length ns])"
    using distinct_mod_range [of "length ns" numbers "c + 1"] assms(2) by simp
  ultimately show ?thesis by (metis distinct_map distinct_rev)
qed

text \<open>
  After that the nonces repeat: the counter of a secure session starts over instead of refusing to go on, so that the message
  after the 4294967295 that have been sent gets the nonce of the first of them again.
\<close>

theorem nonce_reused_after_rollover:
  assumes "nonces r m ns" and "length ns = 0xffffffff" and "ref_nextCounter (SecureRef r) m = (v, m')"
  shows "v = Inr (le_uint (take 4 (drop 1 (last ns))))"
proof -
  obtain c where c: "map (\<lambda>n. le_uint (take 4 (drop 1 n))) ns = map (\<lambda>j. (c + 1 + int j) mod int numbers) (rev [0..<length ns])"
    and cb: "mc_hasCallback (counter_of r m)" and v: "mc_messageCounter (counter_of r m) = (c + int (length ns)) mod int numbers"
    using nonces_numbers [OF assms(1)] by blast
  obtain b where g: "getIncrementedCounter (counter_of r m) = (counter_of r m', b, v)"
    using assms(3) by (rule nextCounter_counter)
  have "v = Inr ((c + int (length ns) + 1) mod int numbers)"
    using next_number [OF g cb] v by (auto simp: MAX_COUNTER_VALUE_32BIT_def mod_simps)
  moreover have "(c + int (length ns) + 1) mod int numbers = (c + 1) mod int numbers"
    unfolding assms(2) using mod_add_self2 [of "c + 1" "int numbers"] by (simp add: algebra_simps)
  moreover have ne: "ns \<noteq> []"
  proof
    assume "ns = []"
    with assms(2) show False by simp
  qed
  then have "le_uint (take 4 (drop 1 (last ns))) = (c + 1) mod int numbers"
  proof -
    have "last (map (\<lambda>n. le_uint (take 4 (drop 1 n))) ns) = last (map (\<lambda>j. (c + 1 + int j) mod int numbers) (rev [0..<length ns]))"
      using c by simp
    with ne show ?thesis by (simp add: last_map last_rev hd_map hd_upt)
  qed
  ultimately show ?thesis by simp
qed

text \<open>A session can send any number of messages.\<close>

lemma nonces_exist: "\<exists>m ns. nonces 0 m ns \<and> length ns = k"
proof (induction k)
  case 0
  have "counter_of 0 one_session = new_MessageCounter 7 True ROLLOVER_INFO_DIFFERENCE"
    by (simp add: one_session_def createSecureSession_def create_session_def new_SecureSession_def new_SessionManager_def
        Session.defs Let_def)
  then show ?case using nonces.created [where r = 0 and m = one_session and rnd = 7] by auto
next
  case (Suc k)
  then obtain m ns where n: "nonces 0 m ns" "length ns = k" by blast
  obtain v m' where g: "ref_nextCounter (SecureRef 0) m = (v, m')" by fastforce
  then obtain b where "getIncrementedCounter (counter_of 0 m) = (counter_of 0 m', b, v)" by (rule nextCounter_counter)
  with nonces_numbers [OF n(1)] obtain i where v: "v = Inr i"
    by (auto simp: getIncrementedCounter_def Let_def split: if_splits)
  obtain nonce where "generateNonce 0 i 0 = Inr nonce" using generateNonce_ok by blast
  from nonces.sent [OF n(1) g [unfolded v] this] n(2) show ?case
    by (intro exI [of _ m'] exI [of _ "nonce # ns"]) simp
qed

theorem nonce_never_reused_witness: "\<exists>m ns. nonces 0 m ns \<and> length ns = 5 \<and> distinct ns"
  using nonces_exist [of 5] nonce_never_reused by fastforce

theorem nonce_reused_after_rollover_witness:
  "\<exists>m ns. nonces 0 m ns \<and> length ns = 0xffffffff \<and>
     fst (ref_nextCounter (SecureRef 0) m) = Inr (le_uint (take 4 (drop 1 (last ns))))"
proof -
  obtain m ns where n: "nonces 0 m ns" "length ns = 0xffffffff" using nonces_exist by blast
  from nonce_reused_after_rollover [OF this prod.collapse [symmetric]] n show ?thesis by blast
qed

end
