(* ===== verification/EventHandler.thy ===== *)
theory EventHandler
  imports StorageLaws
begin

text \<open>
  The events a node keeps for its subscribers: \<^verbatim>\<open>protocol/interaction/EventHandler.ts\<close>.  Events are numbered; the last number is
  stored, so that numbers go on increasing after a restart.  There is one list of events per priority.  The storage is any
  implementation of the interface \<^verbatim>\<open>Storage\<close> that answers at once.
\<close>

section \<open>State and operations\<close>

definition MAX_EVENTS :: int where "MAX_EVENTS = 10000"

datatype EventPriority = Debug | Info | Critical

record 'd EventData =
  ev_endpointId :: int
  ev_clusterId :: int
  ev_eventId :: int
  ev_epochTimestamp :: int
  ev_priority :: EventPriority
  ev_data :: 'd

record 'd EventStorageData = "'d EventData" +
  ev_eventNumber :: int

record 'd EventHandler =
  eh_eventNumber :: int
  eh_storedEventCount :: int
  eh_events :: "EventPriority \<Rightarrow> 'd EventStorageData list"

text \<open>Of an event path and an event filter, what is looked at.\<close>

record EventPath =
  ep_endpointId :: "int option"
  ep_clusterId :: "int option"
  ep_eventId :: "int option"

type_synonym event_filter = "int option"

definition lastEventNumber_key :: jsstring where "lastEventNumber_key = js_text ''lastEventNumber''"

definition create_handler :: "('s, int) Storage \<Rightarrow> path \<Rightarrow> 's \<Rightarrow> 'd EventHandler result" where
  "create_handler st here s =
     rbind (sc_get st s here lastEventNumber_key (Some 0)) (\<lambda>n.
       Inr \<lparr>eh_eventNumber = n, eh_storedEventCount = 0, eh_events = (\<lambda>_. [])\<rparr>)"

definition passes :: "event_filter list \<Rightarrow> 'd EventStorageData \<Rightarrow> bool" where
  "passes filters event \<longleftrightarrow>
     (if filters \<noteq> [] then \<exists>f \<in> set filters. (case f of None \<Rightarrow> False | Some eventMin \<Rightarrow> ev_eventNumber event \<ge> eventMin) else True)"

definition on_path :: "EventPath \<Rightarrow> ('d, 'm) EventData_scheme \<Rightarrow> bool" where
  "on_path eventPath event \<longleftrightarrow>
     ep_endpointId eventPath = Some (ev_endpointId event) \<and> ep_clusterId eventPath = Some (ev_clusterId event) \<and>
     ep_eventId eventPath = Some (ev_eventId event)"

definition getEvents :: "EventPath \<Rightarrow> event_filter list \<Rightarrow> 'd EventHandler \<Rightarrow> 'd EventStorageData list" where
  "getEvents eventPath filters h =
     concat (map (\<lambda>priority. filter (\<lambda>event. passes filters event \<and> on_path eventPath event) (eh_events h priority))
       [Critical, Info, Debug])"

text \<open>\<^verbatim>\<open>splice(0, n)\<close> takes the first \<open>n\<close> elements off, none when \<open>n\<close> is negative.\<close>

definition trim :: "EventPriority \<Rightarrow> int \<Rightarrow> 'd EventHandler \<Rightarrow> 'd EventHandler" where
  "trim priority eventsToDelete h =
     (let events = eh_events h priority
      in h\<lparr>eh_events := (eh_events h)(priority := drop (nat (int (length events) - eventsToDelete)) events)\<rparr>)"

fun trim_first :: "EventPriority list \<Rightarrow> int \<Rightarrow> 'd EventHandler \<Rightarrow> 'd EventHandler" where
  "trim_first [] eventsToDelete h = h"
| "trim_first (priority # priorities) eventsToDelete h =
     (if length (eh_events h priority) > 0 then trim priority eventsToDelete h else trim_first priorities eventsToDelete h)"

definition cleanUpEvents :: "'d EventHandler \<Rightarrow> 'd EventHandler" where
  "cleanUpEvents h =
     (if eh_storedEventCount h < MAX_EVENTS then h
      else trim_first [Debug, Info, Critical] (eh_storedEventCount h - MAX_EVENTS) h)"

definition record_event :: "'d EventData \<Rightarrow> 'd EventHandler \<Rightarrow> 'd EventStorageData \<times> 'd EventHandler" where
  "record_event event h =
     (let number = eh_eventNumber h + 1;
          eventData = EventData.extend event \<lparr>ev_eventNumber = number\<rparr>
      in (eventData,
          h\<lparr>eh_eventNumber := number, eh_storedEventCount := eh_storedEventCount h + 1,
            eh_events := (eh_events h)(ev_priority event := eh_events h (ev_priority event) @ [eventData])\<rparr>))"

definition pushEvent ::
  "('s, int) Storage \<Rightarrow> path \<Rightarrow> 'd EventData \<Rightarrow> 'd EventHandler \<times> 's \<Rightarrow> 'd EventStorageData result \<times> 'd EventHandler \<times> 's" where
  "pushEvent st here event = (\<lambda>(h, s).
     let (eventData, h) = record_event event h
     in case sc_set st s here lastEventNumber_key (Some (eh_eventNumber h)) of
          (s, Inl e) \<Rightarrow> (Inl e, h, s)
        | (s, Inr _) \<Rightarrow> (Inr eventData, cleanUpEvents h, s))"

fun push_all ::
  "('s, int) Storage \<Rightarrow> path \<Rightarrow> 'd EventData list \<Rightarrow> 'd EventHandler \<times> 's \<Rightarrow> 'd EventStorageData result list \<times> 'd EventHandler \<times> 's" where
  "push_all st here [] w = ([], w)"
| "push_all st here (e # es) w =
     (case pushEvent st here e w of (r, w) \<Rightarrow> (case push_all st here es w of (rs, w) \<Rightarrow> (r # rs, w)))"

section \<open>Event numbers\<close>

fun number_of_result :: "'d EventStorageData result \<Rightarrow> int result" where
  "number_of_result (Inl e) = Inl e"
| "number_of_result (Inr event) = Inr (ev_eventNumber event)"

lemma trim_first_simps [simp]:
  "eh_eventNumber (trim_first ps k h) = eh_eventNumber h" "eh_storedEventCount (trim_first ps k h) = eh_storedEventCount h"
  "set (eh_events (trim_first ps k h) p) \<subseteq> set (eh_events h p)"
  by (induction ps) (auto simp: trim_def Let_def dest: in_set_dropD)

lemma cleanUp_simps [simp]:
  "eh_eventNumber (cleanUpEvents h) = eh_eventNumber h" "eh_storedEventCount (cleanUpEvents h) = eh_storedEventCount h"
  "set (eh_events (cleanUpEvents h) p) \<subseteq> set (eh_events h p)"
  by (simp_all add: cleanUpEvents_def del: trim_first.simps)

lemma record_event_simps [simp]:
  "eh_eventNumber (snd (record_event e h)) = eh_eventNumber h + 1"
  "eh_storedEventCount (snd (record_event e h)) = eh_storedEventCount h + 1"
  "ev_eventNumber (fst (record_event e h)) = eh_eventNumber h + 1"
  by (simp_all add: record_event_def Let_def EventData.defs)

text \<open>What the handler needs of its storage: the storage contract and a place of its own.\<close>

locale event_storage = storage st ok view
  for st :: "('s, int) Storage" and ok view +
  fixes here :: path
  assumes here: "wf_path here"
begin

lemma key_ok [simp]: "wf_key lastEventNumber_key"
  by (simp add: lastEventNumber_key_def wf_key_def object_prototype_def proto_name_def js_text_def)

lemma push_stores:
  assumes "ok s"
  shows "\<exists>s'. pushEvent st here e (h, s) = (Inr (fst (record_event e h)), cleanUpEvents (snd (record_event e h)), s') \<and> ok s' \<and>
    view s' here lastEventNumber_key = Some (eh_eventNumber h + 1)"
  using set [OF assms here key_ok, of "Some (eh_eventNumber h + 1)"]
  by (auto simp: pushEvent_def sc_set_def case_prod_unfold Let_def put_def)

lemma push_all_numbers:
  assumes "ok s"
  shows "\<exists>rs h' s'. push_all st here es (h, s) = (rs, h', s') \<and> ok s' \<and> eh_eventNumber h' = eh_eventNumber h + int (length es) \<and>
    map number_of_result rs = map (\<lambda>i. Inr (eh_eventNumber h + 1 + int i)) [0..<length es] \<and>
    (es \<noteq> [] \<longrightarrow> view s' here lastEventNumber_key = Some (eh_eventNumber h'))"
  using assms
proof (induction es arbitrary: h s)
  case (Cons e es)
  obtain s1 where p: "pushEvent st here e (h, s) = (Inr (fst (record_event e h)), cleanUpEvents (snd (record_event e h)), s1)"
    "ok s1" "view s1 here lastEventNumber_key = Some (eh_eventNumber h + 1)"
    using push_stores [OF Cons.prems] by blast
  obtain rs h' s' where r: "push_all st here es (cleanUpEvents (snd (record_event e h)), s1) = (rs, h', s')" "ok s'"
    "eh_eventNumber h' = eh_eventNumber h + 1 + int (length es)"
    "map number_of_result rs = map (\<lambda>i. Inr (eh_eventNumber h + 1 + 1 + int i)) [0..<length es]"
    "es \<noteq> [] \<longrightarrow> view s' here lastEventNumber_key = Some (eh_eventNumber h')"
    using Cons.IH [OF p(2), of "cleanUpEvents (snd (record_event e h))"] by auto
  have "view s' here lastEventNumber_key = Some (eh_eventNumber h')"
    using p r by (cases es) auto
  with p r show ?case by (simp add: map_upt_Suc algebra_simps del: upt_Suc)
qed simp

lemma restart_number:
  assumes "ok s" and "view s here lastEventNumber_key = Some n"
  shows "create_handler st here s = Inr \<lparr>eh_eventNumber = n, eh_storedEventCount = 0, eh_events = (\<lambda>_. [])\<rparr>"
  using assms get [OF assms(1) here key_ok] by (simp add: create_handler_def sc_get_def)

lemma numbers_increase:
  assumes "ok s" and "es \<noteq> []"
  shows "\<exists>rs h' s'. push_all st here es (h, s) = (rs, h', s') \<and>
    map number_of_result rs = map (\<lambda>i. Inr (eh_eventNumber h + 1 + int i)) [0..<length es] \<and>
    create_handler st here s' =
      Inr \<lparr>eh_eventNumber = eh_eventNumber h + int (length es), eh_storedEventCount = 0, eh_events = (\<lambda>_. [])\<rparr>"
  using push_all_numbers [OF assms(1), of es h] restart_number assms(2) by fastforce

end

definition events_path :: path where "events_path = [js_text ''EventHandler'']"

interpretation memory_events: event_storage memory_storage memory_ok memory_view events_path
  by unfold_locales (simp add: wf_path_def proper_path_def object_prototype_def proto_name_def events_path_def js_text_def)

text \<open>
  C36. Event numbers increase by one from event to event and go on doing so after a restart: the handler that is created from the storage
  starts after the last event that was recorded.
\<close>

theorem event_numbers_increase:
  assumes "memory_ok s" and "es \<noteq> []"
  shows "\<exists>rs h' s'. push_all memory_storage events_path es (h, s) = (rs, h', s') \<and>
    map number_of_result rs = map (\<lambda>i. Inr (eh_eventNumber h + 1 + int i)) [0..<length es] \<and>
    create_handler memory_storage events_path s' =
      Inr \<lparr>eh_eventNumber = eh_eventNumber h + int (length es), eh_storedEventCount = 0, eh_events = (\<lambda>_. [])\<rparr>"
  by (rule memory_events.numbers_increase [OF assms])

definition sample_event :: "unit EventData" where
  "sample_event = \<lparr>ev_endpointId = 1, ev_clusterId = 2, ev_eventId = 3, ev_epochTimestamp = 4, ev_priority = Debug, ev_data = ()\<rparr>"

definition empty_handler :: "unit EventHandler" where
  "empty_handler = \<lparr>eh_eventNumber = 0, eh_storedEventCount = 0, eh_events = (\<lambda>_. [])\<rparr>"

theorem event_numbers_increase_witness:
  "\<exists>rs h' s'. push_all memory_storage events_path [sample_event, sample_event] (empty_handler, create_memory []) = (rs, h', s') \<and>
     map number_of_result rs = [Inr 1, Inr 2] \<and>
     create_handler memory_storage events_path s' = Inr (empty_handler\<lparr>eh_eventNumber := 2\<rparr>)"
  using event_numbers_increase [OF memory_ok_new, of "[sample_event, sample_event]" empty_handler]
  by (simp add: empty_handler_def upt_rec)

section \<open>The limit on the number of events\<close>

lemma push_memory:
  assumes "memory_ok s"
  shows "fst (snd (pushEvent memory_storage events_path e (h, s))) = cleanUpEvents (snd (record_event e h)) \<and>
    memory_ok (snd (snd (pushEvent memory_storage events_path e (h, s))))"
  using memory_events.push_stores [OF assms, of e h] by auto

text \<open>
  The event that fills the store empties it: with the ten thousandth event that is recorded all events of the lowest priority that has
  any are discarded, not the surplus; an event of that priority is lost itself.
\<close>

theorem full_store_discards_priority:
  assumes "memory_ok s" and "eh_storedEventCount h = MAX_EVENTS - 1" and "eh_events h Debug \<noteq> [] \<or> ev_priority e = Debug"
  shows "eh_events (fst (snd (pushEvent memory_storage events_path e (h, s)))) Debug = []"
proof -
  have "eh_events (snd (record_event e h)) Debug \<noteq> []"
    using assms(3) by (auto simp: record_event_def Let_def)
  with assms(2) show ?thesis by (simp add: push_memory [OF assms(1)] cleanUpEvents_def trim_def Let_def)
qed

theorem full_store_discards_priority_witness:
  "eh_events (fst (snd (pushEvent memory_storage events_path sample_event (empty_handler\<lparr>eh_storedEventCount := 9999\<rparr>, create_memory [])))) Debug = []"
  by (rule full_store_discards_priority [OF memory_ok_new]) (simp_all add: MAX_EVENTS_def sample_event_def)

text \<open>Recording events of one priority.\<close>

lemma record_debug:
  assumes "ev_priority e = Debug"
  shows "eh_events (snd (record_event e h)) Debug = eh_events h Debug @ [fst (record_event e h)]"
  using assms by (simp add: record_event_def Let_def)

lemma debug_events_after:
  assumes "ev_priority e = Debug" and "eh_storedEventCount h \<ge> MAX_EVENTS"
    and "int (length (eh_events h Debug)) = eh_storedEventCount h - MAX_EVENTS"
  shows "int (length (eh_events (cleanUpEvents (snd (record_event e h))) Debug)) = eh_storedEventCount h + 1 - MAX_EVENTS"
  using assms record_debug [OF assms(1), of h] by (simp add: cleanUpEvents_def trim_def Let_def)

lemma push_debug_events:
  assumes "memory_ok s" and "eh_storedEventCount h \<ge> MAX_EVENTS"
    and "int (length (eh_events h Debug)) = eh_storedEventCount h - MAX_EVENTS" and "\<forall>e \<in> set es. ev_priority e = Debug"
  shows "int (length (eh_events (fst (snd (push_all memory_storage events_path es (h, s)))) Debug)) =
    eh_storedEventCount h + int (length es) - MAX_EVENTS"
  using assms
proof (induction es arbitrary: h s)
  case (Cons e es)
  let ?w = "snd (pushEvent memory_storage events_path e (h, s))"
  have p: "fst ?w = cleanUpEvents (snd (record_event e h))" "memory_ok (snd ?w)" using push_memory [OF Cons.prems(1)] by blast+
  have "int (length (eh_events (fst (snd (push_all memory_storage events_path es (fst ?w, snd ?w)))) Debug)) =
      eh_storedEventCount (fst ?w) + int (length es) - MAX_EVENTS"
    using Cons.prems debug_events_after [of e h] p by (intro Cons.IH) simp_all
  then show ?case unfolding prod.collapse using p(1) by (simp add: case_prod_unfold)
qed simp

text \<open>
  There is no limit: the number of recorded events is never reduced, and once it has passed the limit every further event of the
  lowest priority is kept, so that any number of events can be in the store.
\<close>

theorem event_store_unbounded:
  assumes "memory_ok s" and "eh_storedEventCount h = MAX_EVENTS" and "eh_events h Debug = []" and "ev_priority e = Debug"
  shows "length (eh_events (fst (snd (push_all memory_storage events_path (replicate n e) (h, s)))) Debug) = n"
  using push_debug_events [OF assms(1), of h "replicate n e"] assms(2-4) by simp

theorem event_store_unbounded_witness:
  "length (eh_events (fst (snd (push_all memory_storage events_path (replicate 20000 sample_event)
     (empty_handler\<lparr>eh_storedEventCount := 10000\<rparr>, create_memory [])))) Debug) = 20000"
  by (rule event_store_unbounded [OF memory_ok_new]) (simp_all add: MAX_EVENTS_def empty_handler_def sample_event_def)

section \<open>Queries\<close>

text \<open>A query returns exactly the recorded events of its path with a number no filter excludes.\<close>

lemma getEvents_exact:
  "event \<in> set (getEvents path filters h) \<longleftrightarrow>
     (\<exists>p. event \<in> set (eh_events h p)) \<and> on_path path event \<and> (filters = [] \<or> (\<exists>n. Some n \<in> set filters \<and> n \<le> ev_eventNumber event))"
proof -
  have "(\<exists>p. event \<in> set (eh_events h p)) \<longleftrightarrow> (\<exists>p \<in> {Critical, Info, Debug}. event \<in> set (eh_events h p))"
    by (metis EventPriority.exhaust insertCI)
  moreover have "passes filters event \<longleftrightarrow> filters = [] \<or> (\<exists>n. Some n \<in> set filters \<and> n \<le> ev_eventNumber event)"
    by (force simp: passes_def split: option.splits)
  ultimately show ?thesis by (auto simp: getEvents_def)
qed

end
