(* ===== verification/TlvCodec.thy ===== *)
theory TlvCodec
  imports BitmapSchema
begin

text \<open>
  Elements of the TLV encoding, \<^verbatim>\<open>tlv/TlvCodec.ts\<close>: control byte, tag and primitive value, read
  with \<^verbatim>\<open>DataReader\<close> and written with \<^verbatim>\<open>DataWriter\<close>.  The lemmas show that an element is read back as
  it was written, that the announced lengths are the numbers of bytes written, and which tags
  the writer produces but the reader refuses.
\<close>

unbundle bit_operations_syntax

section \<open>Types and lengths\<close>

datatype TlvLength = OneByte | TwoBytes | FourBytes | EightBytes

fun length_number :: "TlvLength \<Rightarrow> int" where
  "length_number OneByte = 0"
| "length_number TwoBytes = 1"
| "length_number FourBytes = 2"
| "length_number EightBytes = 3"

text \<open>\<open>TLOther\<close> is a type number outside the enumeration, as \<^verbatim>\<open>parseTypeLength\<close> lets pass.\<close>

datatype TlvTypeLength =
    TLSignedInt TlvLength
  | TLUnsignedInt TlvLength
  | TLBoolean bool
  | TLFloat TlvLength
  | TLUtf8String TlvLength
  | TLByteString TlvLength
  | TLNull
  | TLStructure
  | TLArray
  | TLList
  | TLEndOfContainer
  | TLOther int

text \<open>The numbers of \<^verbatim>\<open>enum TlvType\<close>.\<close>

fun TlvType :: "TlvTypeLength \<Rightarrow> int" where
  "TlvType (TLSignedInt _) = 0x00"
| "TlvType (TLUnsignedInt _) = 0x04"
| "TlvType (TLBoolean _) = 0x08"
| "TlvType (TLFloat _) = 0x0a"
| "TlvType (TLUtf8String _) = 0x0c"
| "TlvType (TLByteString _) = 0x10"
| "TlvType TLNull = 0x14"
| "TlvType TLStructure = 0x15"
| "TlvType TLArray = 0x16"
| "TlvType TLList = 0x17"
| "TlvType TLEndOfContainer = 0x18"
| "TlvType (TLOther n) = n"

text \<open>
  The JavaScript primitives an element carries; \<open>PNum\<close> is an integer of type \<^verbatim>\<open>number\<close>, \<open>PBig\<close> a
  \<^verbatim>\<open>bigint\<close>, \<open>PFloat\<close> the bits of a number used as a float, \<open>PUndefined\<close> an absent value.
\<close>

datatype TlvPrimitive =
    PNum int
  | PBig int
  | PFloat int
  | PString jsstring
  | PBytes "byte list"
  | PBool bool
  | PNull
  | PUndefined

fun prim_int :: "TlvPrimitive \<Rightarrow> int option" where
  "prim_int (PNum n) = Some n"
| "prim_int (PBig n) = Some n"
| "prim_int _ = None"

record TlvTag =
  tag_profile :: "int option"
  tag_id :: "int option"

definition MATTER_COMMON_PROFILE :: int where "MATTER_COMMON_PROFILE = 0"

text \<open>\<^verbatim>\<open>enum TagControl\<close>\<close>

definition tc_Anonymous :: int where "tc_Anonymous = 0"
definition tc_ContextSpecific :: int where "tc_ContextSpecific = 1"
definition tc_CommonProfile16 :: int where "tc_CommonProfile16 = 2"
definition tc_CommonProfile32 :: int where "tc_CommonProfile32 = 3"
definition tc_ImplicitProfile16 :: int where "tc_ImplicitProfile16 = 4"
definition tc_ImplicitProfile32 :: int where "tc_ImplicitProfile32 = 5"
definition tc_FullyQualified48 :: int where "tc_FullyQualified48 = 6"
definition tc_FullyQualified64 :: int where "tc_FullyQualified64 = 7"

lemmas tc_defs =
  tc_Anonymous_def tc_ContextSpecific_def tc_CommonProfile16_def tc_CommonProfile32_def
  tc_ImplicitProfile16_def tc_ImplicitProfile32_def tc_FullyQualified48_def tc_FullyQualified64_def

definition ControlByteSchema :: bit_schema where
  "ControlByteSchema = [(''typeLength'', BitField 0 5), (''tagControl'', BitFieldEnum 5 3)]"

definition encode_control :: "int \<Rightarrow> int \<Rightarrow> int" where
  "encode_control tagControl typeLength =
     encode_bitmap ControlByteSchema [''tagControl'' \<mapsto> BNum tagControl, ''typeLength'' \<mapsto> BNum typeLength]"

definition decode_control :: "int \<Rightarrow> int \<times> int" where
  "decode_control b =
     (let m = decode_bitmap ControlByteSchema b in (operand (m ''tagControl''), operand (m ''typeLength'')))"

section \<open>Choosing a length\<close>

definition getUIntTlvLength :: "int \<Rightarrow> TlvLength" where
  "getUIntTlvLength v =
     (if v \<le> UINT8_MAX then OneByte
      else if v \<le> UINT16_MAX then TwoBytes
      else if v \<le> UINT32_MAX then FourBytes
      else EightBytes)"

definition getIntTlvLength :: "int \<Rightarrow> TlvLength" where
  "getIntTlvLength v =
     (if v > 0 then
        (if v \<le> INT8_MAX then OneByte
         else if v \<le> INT16_MAX then TwoBytes
         else if v \<le> INT32_MAX then FourBytes
         else EightBytes)
      else
        (if v \<ge> INT8_MIN then OneByte
         else if v \<ge> INT16_MIN then TwoBytes
         else if v \<ge> INT32_MIN then FourBytes
         else EightBytes))"

section \<open>Reading\<close>

definition id_tag :: "int \<Rightarrow> TlvTag" where
  "id_tag i = \<lparr>tag_profile = None, tag_id = Some i\<rparr>"

definition profile_tag :: "int \<Rightarrow> int \<Rightarrow> TlvTag" where
  "profile_tag p i = \<lparr>tag_profile = Some p, tag_id = Some i\<rparr>"

definition readTag :: "int \<Rightarrow> DataReader \<Rightarrow> (TlvTag option \<times> DataReader) result" where
  "readTag tagControl r =
     (if tagControl = tc_Anonymous then Inr (None, r)
      else if tagControl = tc_ContextSpecific then
        rbind (readUInt8 r) (\<lambda>(i, r). Inr (Some (id_tag i), r))
      else if tagControl = tc_CommonProfile16 then
        rbind (readUInt16 r) (\<lambda>(i, r). Inr (Some (profile_tag MATTER_COMMON_PROFILE i), r))
      else if tagControl = tc_CommonProfile32 then
        rbind (readUInt32 r) (\<lambda>(i, r). Inr (Some (profile_tag MATTER_COMMON_PROFILE i), r))
      else if tagControl = tc_ImplicitProfile16 \<or> tagControl = tc_ImplicitProfile32 then Inl NotImplementedError
      else if tagControl = tc_FullyQualified48 then
        rbind (readUInt32 r) (\<lambda>(p, r). rbind (readUInt16 r) (\<lambda>(i, r). Inr (Some (profile_tag p i), r)))
      else Inl NotImplementedError)"

definition length_of :: "int \<Rightarrow> TlvLength" where
  "length_of n = (if n = 0 then OneByte else if n = 1 then TwoBytes else if n = 2 then FourBytes else EightBytes)"

definition parseTypeLength :: "int \<Rightarrow> TlvTypeLength" where
  "parseTypeLength typeLength =
     (let len = length_of (js_and typeLength 0x03); kind = js_and typeLength 0xfc in
      if kind = 0x0c then TLUtf8String len
      else if kind = 0x10 then TLByteString len
      else if kind = 0x00 then TLSignedInt len
      else if kind = 0x04 then TLUnsignedInt len
      else if kind = 0x08 then
        (case len of OneByte \<Rightarrow> TLBoolean False | TwoBytes \<Rightarrow> TLBoolean True
         | FourBytes \<Rightarrow> TLFloat FourBytes | EightBytes \<Rightarrow> TLFloat EightBytes)
      else if typeLength = 0x14 then TLNull
      else if typeLength = 0x15 then TLStructure
      else if typeLength = 0x16 then TLArray
      else if typeLength = 0x17 then TLList
      else if typeLength = 0x18 then TLEndOfContainer
      else TLOther typeLength)"

definition readTagType :: "DataReader \<Rightarrow> ((TlvTag option \<times> TlvTypeLength) \<times> DataReader) result" where
  "readTagType r =
     rbind (readUInt8 r) (\<lambda>(b, r).
       let (tagControl, typeLength) = decode_control b in
       rbind (readTag tagControl r) (\<lambda>(tag, r). Inr ((tag, parseTypeLength typeLength), r)))"

text \<open>The length field in front of a string; \<^verbatim>\<open>Number\<close> converts the bigint of the widest one.\<close>

definition readLength :: "TlvLength \<Rightarrow> DataReader \<Rightarrow> (nat \<times> DataReader) result" where
  "readLength len r =
     rbind (case len of OneByte \<Rightarrow> readUInt8 r | TwoBytes \<Rightarrow> readUInt16 r | FourBytes \<Rightarrow> readUInt32 r
            | EightBytes \<Rightarrow> rbind (readUInt64 r) (\<lambda>(n, r). Inr (toNumber n, r)))
       (\<lambda>(n, r). Inr (nat n, r))"

definition readPrimitive :: "TlvTypeLength \<Rightarrow> DataReader \<Rightarrow> (TlvPrimitive \<times> DataReader) result" where
  "readPrimitive ty r =
     (case ty of
        TLSignedInt len \<Rightarrow>
          (case len of
             OneByte \<Rightarrow> rbind (readInt8 r) (\<lambda>(n, r). Inr (PNum n, r))
           | TwoBytes \<Rightarrow> rbind (readInt16 r) (\<lambda>(n, r). Inr (PNum n, r))
           | FourBytes \<Rightarrow> rbind (readInt32 r) (\<lambda>(n, r). Inr (PNum n, r))
           | EightBytes \<Rightarrow> rbind (readInt64 r) (\<lambda>(n, r). Inr (PBig n, r)))
      | TLUnsignedInt len \<Rightarrow>
          (case len of
             OneByte \<Rightarrow> rbind (readUInt8 r) (\<lambda>(n, r). Inr (PNum n, r))
           | TwoBytes \<Rightarrow> rbind (readUInt16 r) (\<lambda>(n, r). Inr (PNum n, r))
           | FourBytes \<Rightarrow> rbind (readUInt32 r) (\<lambda>(n, r). Inr (PNum n, r))
           | EightBytes \<Rightarrow> rbind (readUInt64 r) (\<lambda>(n, r). Inr (PBig n, r)))
      | TLFloat len \<Rightarrow>
          (case len of
             FourBytes \<Rightarrow> rbind (readFloat r) (\<lambda>(n, r). Inr (PFloat n, r))
           | EightBytes \<Rightarrow> rbind (readDouble r) (\<lambda>(n, r). Inr (PFloat n, r))
           | _ \<Rightarrow> Inl UnexpectedDataError)
      | TLUtf8String len \<Rightarrow>
          rbind (readLength len r) (\<lambda>(n, r). let (s, r) = readUtf8String n r in Inr (PString s, r))
      | TLByteString len \<Rightarrow>
          rbind (readLength len r) (\<lambda>(n, r). let (b, r) = readByteArray n r in Inr (PBytes b, r))
      | TLBoolean b \<Rightarrow> Inr (PBool b, r)
      | TLNull \<Rightarrow> Inr (PNull, r)
      | _ \<Rightarrow> Inl UnexpectedDataError)"

section \<open>Writing\<close>

definition typeLength_number :: "TlvTypeLength \<Rightarrow> int" where
  "typeLength_number ty =
     (case ty of
        TLUtf8String len \<Rightarrow> js_or (TlvType ty) (length_number len)
      | TLByteString len \<Rightarrow> js_or (TlvType ty) (length_number len)
      | TLSignedInt len \<Rightarrow> js_or (TlvType ty) (length_number len)
      | TLUnsignedInt len \<Rightarrow> js_or (TlvType ty) (length_number len)
      | TLFloat len \<Rightarrow> js_or (TlvType ty) (length_number len)
      | TLBoolean b \<Rightarrow> TlvType ty + (if b then 1 else 0)
      | _ \<Rightarrow> TlvType ty)"

text \<open>\<^verbatim>\<open>const { profile, id } = tag ?? {}\<close>\<close>

definition tag_fields :: "TlvTag option \<Rightarrow> int option \<times> int option" where
  "tag_fields tag = (case tag of None \<Rightarrow> (None, None) | Some t \<Rightarrow> (tag_profile t, tag_id t))"

definition writeTag :: "TlvTypeLength \<Rightarrow> TlvTag option \<Rightarrow> DataWriter \<Rightarrow> DataWriter result" where
  "writeTag ty tag w =
     (let typeLength = typeLength_number ty in
      case tag_fields tag of
        (None, None) \<Rightarrow> Inr (writeUInt8 (encode_control tc_Anonymous typeLength) w)
      | (None, Some i) \<Rightarrow>
          Inr (writeUInt8 i (writeUInt8 (encode_control tc_ContextSpecific typeLength) w))
      | (Some p, None) \<Rightarrow> Inl UnexpectedDataError
      | (Some p, Some i) \<Rightarrow>
          if p = MATTER_COMMON_PROFILE then
            (if js_and i 0xffff0000 = 0
             then Inr (writeUInt16 i (writeUInt8 (encode_control tc_CommonProfile16 typeLength) w))
             else Inr (writeUInt32 i (writeUInt8 (encode_control tc_CommonProfile32 typeLength) w)))
          else
            (if js_and i 0xffff0000 = 0
             then Inr (writeUInt16 i (writeUInt32 p (writeUInt8 (encode_control tc_FullyQualified48 typeLength) w)))
             else Inr (writeUInt32 i (writeUInt32 p (writeUInt8 (encode_control tc_FullyQualified64 typeLength) w)))))"

definition getTagByteLength :: "TlvTag option \<Rightarrow> nat result" where
  "getTagByteLength tag =
     (case tag_fields tag of
        (None, None) \<Rightarrow> Inr 1
      | (None, Some i) \<Rightarrow> Inr 2
      | (Some p, None) \<Rightarrow> Inl UnexpectedDataError
      | (Some p, Some i) \<Rightarrow>
          if p = MATTER_COMMON_PROFILE then Inr (if js_and i 0xffff0000 = 0 then 3 else 5)
          else Inr (if js_and i 0xffff0000 = 0 then 7 else 9))"

definition writeUInt :: "TlvLength \<Rightarrow> int \<Rightarrow> DataWriter \<Rightarrow> DataWriter" where
  "writeUInt len v w =
     (case len of OneByte \<Rightarrow> writeInt8 v w | TwoBytes \<Rightarrow> writeInt16 v w | FourBytes \<Rightarrow> writeInt32 v w
      | EightBytes \<Rightarrow> writeInt64 v w)"

text \<open>A value of the wrong JavaScript type, which the declarations of the source rule out, is a \<open>TypeError\<close>.\<close>

definition writePrimitive :: "TlvTypeLength \<Rightarrow> TlvPrimitive \<Rightarrow> DataWriter \<Rightarrow> DataWriter result" where
  "writePrimitive ty v w =
     (case ty of
        TLSignedInt len \<Rightarrow>
          (case prim_int v of Some n \<Rightarrow> Inr (writeUInt len n w) | None \<Rightarrow> Inl TypeError)
      | TLUnsignedInt len \<Rightarrow>
          (case prim_int v of
             Some n \<Rightarrow> Inr (case len of OneByte \<Rightarrow> writeUInt8 n w | TwoBytes \<Rightarrow> writeUInt16 n w
                                     | FourBytes \<Rightarrow> writeUInt32 n w | EightBytes \<Rightarrow> writeUInt64 n w)
           | None \<Rightarrow> Inl TypeError)
      | TLFloat len \<Rightarrow>
          (case v of
             PFloat n \<Rightarrow>
               (case len of FourBytes \<Rightarrow> Inr (writeFloat n w) | EightBytes \<Rightarrow> Inr (writeDouble n w)
                | _ \<Rightarrow> Inl UnexpectedDataError)
           | _ \<Rightarrow> Inl TypeError)
      | TLUtf8String len \<Rightarrow>
          (case v of
             PString s \<Rightarrow>
               let stringData = fromString s in
               Inr (writeByteArray stringData (writeUInt len (int (length stringData)) w))
           | _ \<Rightarrow> Inl TypeError)
      | TLByteString len \<Rightarrow>
          (case v of
             PBytes b \<Rightarrow> Inr (writeByteArray b (writeUInt len (int (length b)) w))
           | _ \<Rightarrow> Inl TypeError)
      | TLBoolean _ \<Rightarrow> Inr w
      | _ \<Rightarrow> Inl UnexpectedDataError)"

fun getUIntByteLength :: "TlvLength \<Rightarrow> nat" where
  "getUIntByteLength OneByte = 1"
| "getUIntByteLength TwoBytes = 2"
| "getUIntByteLength FourBytes = 4"
| "getUIntByteLength EightBytes = 8"

definition getPrimitiveByteLength :: "TlvTypeLength \<Rightarrow> TlvPrimitive \<Rightarrow> nat result" where
  "getPrimitiveByteLength ty v =
     (case ty of
        TLSignedInt len \<Rightarrow> Inr (getUIntByteLength len)
      | TLUnsignedInt len \<Rightarrow> Inr (getUIntByteLength len)
      | TLFloat len \<Rightarrow> Inr (getUIntByteLength len)
      | TLUtf8String len \<Rightarrow>
          (case v of PString s \<Rightarrow> Inr (getUIntByteLength len + length (fromString s)) | _ \<Rightarrow> Inl TypeError)
      | TLByteString len \<Rightarrow>
          (case v of PBytes b \<Rightarrow> Inr (getUIntByteLength len + length b) | _ \<Rightarrow> Inl TypeError)
      | TLBoolean _ \<Rightarrow> Inr 0
      | _ \<Rightarrow> Inl UnexpectedDataError)"

section \<open>Control byte and tag\<close>

lemmas js_bit_eval = js_and_def js_or_def js_shl_def js_shr_def to_int32_def

lemma encode_control_eq:
  assumes "0 \<le> c" and "c < 8" and "0 \<le> t" and "t < 32"
  shows "encode_control c t = c * 32 + t"
proof -
  have "js_or (js_or 0 (js_shl t 0)) (js_shl c 5) = t OR push_bit 5 c"
    using assms by (simp add: js_or_small js_shl_small push_bit_eq_mult)
  then show ?thesis
    using or_shifted [of t 5 c] assms
    by (simp add: encode_control_def encode_bitmap_def encode_range_def ControlByteSchema_def
        BitField_def BitFieldEnum_def or.commute)
qed

lemma decode_encode_control:
  assumes "0 \<le> c" and "c < 8" and "0 \<le> t" and "t < 32"
  shows "decode_control (encode_control c t) = (c, t)"
proof -
  have "decode_bitmap ControlByteSchema (encode_control c t) = [''tagControl'' \<mapsto> BNum c, ''typeLength'' \<mapsto> BNum t]"
    unfolding encode_control_def using assms
    by (intro decode_encode_bitmap)
      (auto simp: ControlByteSchema_def BitField_def BitFieldEnum_def bitmap_ok_def range_value_ok_def)
  then show ?thesis by (simp add: decode_control_def)
qed

text \<open>The types a reader gives back as they were written.\<close>

fun type_ok :: "TlvTypeLength \<Rightarrow> bool" where
  "type_ok (TLFloat len) = (len = FourBytes \<or> len = EightBytes)"
| "type_ok (TLOther n) = False"
| "type_ok _ = True"

lemma parse_typeLength:
  assumes "type_ok ty"
  shows "parseTypeLength (typeLength_number ty) = ty"
    and "0 \<le> typeLength_number ty" and "typeLength_number ty < 32"
proof -
  have "parseTypeLength (typeLength_number ty) = ty \<and> 0 \<le> typeLength_number ty \<and> typeLength_number ty < 32"
  proof (cases ty)
    case (TLSignedInt len)
    then show ?thesis by (cases len) (simp_all add: parseTypeLength_def typeLength_number_def length_of_def js_bit_eval)
  next
    case (TLUnsignedInt len)
    then show ?thesis by (cases len) (simp_all add: parseTypeLength_def typeLength_number_def length_of_def js_bit_eval)
  next
    case (TLBoolean b)
    then show ?thesis by (simp add: parseTypeLength_def typeLength_number_def length_of_def js_bit_eval)
  next
    case (TLFloat len)
    with assms show ?thesis
      by (cases len) (simp_all add: parseTypeLength_def typeLength_number_def length_of_def js_bit_eval)
  next
    case (TLUtf8String len)
    then show ?thesis by (cases len) (simp_all add: parseTypeLength_def typeLength_number_def length_of_def js_bit_eval)
  next
    case (TLByteString len)
    then show ?thesis by (cases len) (simp_all add: parseTypeLength_def typeLength_number_def length_of_def js_bit_eval)
  qed (use assms in \<open>simp_all add: parseTypeLength_def typeLength_number_def length_of_def js_bit_eval\<close>)
  then show "parseTypeLength (typeLength_number ty) = ty" and "0 \<le> typeLength_number ty" and "typeLength_number ty < 32"
    by simp_all
qed

lemma upper_half_zero:
  assumes "0 \<le> i" and "i < 2 ^ 32"
  shows "js_and i 0xffff0000 = 0 \<longleftrightarrow> i < 65536"
proof -
  have m: "bit (0xffff0000 :: int) k \<longleftrightarrow> 16 \<le> k" if "k < 32" for k
  proof -
    have "bit (0xffff0000 :: int) k \<longleftrightarrow> bit (push_bit 16 (mask 16) :: int) k"
      by (simp add: mask_eq_exp_minus_1 push_bit_eq_mult)
    also have "\<dots> \<longleftrightarrow> 16 \<le> k"
      unfolding bit_push_bit_iff bit_mask_iff using that by auto
    finally show ?thesis .
  qed
  have "js_and i 0xffff0000 = 0 \<longleftrightarrow> (\<forall>k < 32. 16 \<le> k \<longrightarrow> \<not> bit i k)"
  proof
    assume "js_and i 0xffff0000 = 0"
    then have "\<not> bit (js_and i 0xffff0000) k" for k by simp
    then show "\<forall>k < 32. 16 \<le> k \<longrightarrow> \<not> bit i k" using m bit_js_and [of _ i "0xffff0000"] by blast
  next
    assume none: "\<forall>k < 32. 16 \<le> k \<longrightarrow> \<not> bit i k"
    show "js_and i 0xffff0000 = 0"
    proof (rule int32_eqI)
      fix k :: nat
      assume "k < 32"
      with none m bit_js_and [of k i "0xffff0000"] show "bit (js_and i 0xffff0000) k \<longleftrightarrow> bit 0 k"
        by (metis bit_0_eq bot_apply bot_bool_def)
    qed (simp_all add: to_int32_id)
  qed
  also have "\<dots> \<longleftrightarrow> i < 65536"
  proof
    assume "\<forall>k < 32. 16 \<le> k \<longrightarrow> \<not> bit i k"
    then have "\<not> bit i k" if "16 \<le> k" for k
      using that not_bit_small [OF assms, of k] by (cases "k < 32") auto
    then have "take_bit 16 i = i" by (intro bit_eqI) (metis bit_take_bit_iff not_less)
    then show "i < 65536" using take_bit_int_less_exp [of 16 i] by simp
  next
    assume "i < 65536"
    then show "\<forall>k < 32. 16 \<le> k \<longrightarrow> \<not> bit i k" using not_bit_small [of i 16] assms(1) by simp
  qed
  finally show ?thesis .
qed

text \<open>The tags with numbers in range; an empty tag object is the anonymous tag.\<close>

definition tag_ok :: "TlvTag option \<Rightarrow> bool" where
  "tag_ok tag =
     (case tag_fields tag of
        (None, None) \<Rightarrow> True
      | (None, Some i) \<Rightarrow> 0 \<le> i \<and> i < 2 ^ 8
      | (Some p, None) \<Rightarrow> False
      | (Some p, Some i) \<Rightarrow> 0 \<le> p \<and> p < 2 ^ 32 \<and> 0 \<le> i \<and> i < 2 ^ 32)"

definition tag_norm :: "TlvTag option \<Rightarrow> TlvTag option" where
  "tag_norm tag = (if tag_fields tag = (None, None) then None else tag)"

text \<open>Tags the reader supports: not the 64 bit fully qualified form.\<close>

definition tag_readable :: "TlvTag option \<Rightarrow> bool" where
  "tag_readable tag =
     (case tag_fields tag of (Some p, Some i) \<Rightarrow> p = MATTER_COMMON_PROFILE \<or> i < 65536 | _ \<Rightarrow> True)"

definition tag_control :: "TlvTag option \<Rightarrow> int" where
  "tag_control tag =
     (case tag_fields tag of
        (None, None) \<Rightarrow> 0
      | (None, Some i) \<Rightarrow> 1
      | (Some p, None) \<Rightarrow> 0
      | (Some p, Some i) \<Rightarrow> (if p = 0 then 2 else 6) + (if i < 65536 then 0 else 1))"

definition tag_number_bytes :: "TlvTag option \<Rightarrow> byte list" where
  "tag_number_bytes tag =
     (case tag_fields tag of
        (None, None) \<Rightarrow> []
      | (None, Some i) \<Rightarrow> le_bytes 1 i
      | (Some p, None) \<Rightarrow> []
      | (Some p, Some i) \<Rightarrow> (if p = 0 then [] else le_bytes 4 p) @ le_bytes (if i < 65536 then 2 else 4) i)"

definition tag_bytes :: "TlvTypeLength \<Rightarrow> TlvTag option \<Rightarrow> byte list" where
  "tag_bytes ty tag = word_of_int (tag_control tag * 32 + typeLength_number ty) # tag_number_bytes tag"

lemma tag_control_range: "0 \<le> tag_control tag \<and> tag_control tag < 8"
  by (auto simp: tag_control_def split: prod.splits option.splits)

lemma writeTag_bytes:
  assumes "type_ok ty" and "tag_ok tag" and "dw_littleEndian w" and "dw_inv w"
  shows "\<exists>w'. writeTag ty tag w = Inr w' \<and> dw_bytes w' = dw_bytes w @ tag_bytes ty tag \<and>
    dw_littleEndian w' \<and> dw_inv w'"
proof -
  note t = parse_typeLength(2,3) [OF assms(1)]
  have c: "encode_control c (typeLength_number ty) = c * 32 + typeLength_number ty"
    if "0 \<le> c" "c < 8" for c
    using that t by (simp add: encode_control_eq)
  show ?thesis
    using assms(2-4) c t
    by (auto simp: writeTag_def tag_ok_def tag_bytes_def tag_number_bytes_def tag_control_def tc_defs
        MATTER_COMMON_PROFILE_def upper_half_zero le_bytes_byte toNumber_range Let_def split: prod.splits option.splits)
qed

lemma readUInt8_control:
  assumes "type_ok ty" and "dr_littleEndian r" and "dr_inv r" and "getRemainingBytes r = tag_bytes ty tag @ rest"
  shows "readUInt8 r = Inr (tag_control tag * 32 + typeLength_number ty, skip 1 r) \<and>
    decode_control (tag_control tag * 32 + typeLength_number ty) = (tag_control tag, typeLength_number ty)"
proof -
  note t = parse_typeLength [OF assms(1)]
  let ?b = "tag_control tag * 32 + typeLength_number ty"
  have "0 \<le> ?b" "?b < 256"
    using t(2,3) tag_control_range [of tag] by auto
  then have "uint (word_of_int ?b :: byte) = ?b"
    by (rule uint_byte)
  then show ?thesis
    using assms(2-4) decode_encode_control [of "tag_control tag" "typeLength_number ty"]
      encode_control_eq [of "tag_control tag" "typeLength_number ty"] t(2,3) tag_control_range [of tag]
    by (simp add: codec_simps tag_bytes_def)
qed

lemma readTagType_bytes:
  assumes "type_ok ty" and "tag_ok tag" and "tag_readable tag"
    and "dr_littleEndian r" and "dr_inv r" and "getRemainingBytes r = tag_bytes ty tag @ rest"
  shows "\<exists>r'. readTagType r = Inr ((tag_norm tag, ty), r') \<and> getRemainingBytes r' = rest \<and>
    dr_littleEndian r' \<and> dr_inv r'"
proof -
  note b = readUInt8_control [OF assms(1,4,5,6)]
  have rest: "getRemainingBytes (skip 1 r) = tag_number_bytes tag @ rest"
    using assms(6) by (simp add: tag_bytes_def)
  have "\<exists>r'. readTag (tag_control tag) (skip 1 r) = Inr (tag_norm tag, r') \<and> getRemainingBytes r' = rest \<and>
      dr_littleEndian r' \<and> dr_inv r'"
  proof (cases tag)
    case None
    then show ?thesis using rest assms(4)
      by (simp add: tag_control_def tag_fields_def readTag_def tc_defs tag_norm_def tag_number_bytes_def)
  next
    case (Some tg)
    obtain p i where tg: "tg = \<lparr>tag_profile = p, tag_id = i\<rparr>" by (cases tg)
    show ?thesis
      using rest assms(2-4) Some tg
      by (cases p; cases i)
        (auto simp: tag_control_def tag_fields_def readTag_def tc_defs tag_norm_def tag_number_bytes_def tag_ok_def
          tag_readable_def id_tag_def profile_tag_def MATTER_COMMON_PROFILE_def codec_simps le_bytes_byte
          le_uint_le_bytes_id split: if_splits)
  qed
  then show ?thesis
    using b by (auto simp: readTagType_def parse_typeLength(1) [OF assms(1)])
qed

section \<open>Primitive values\<close>

text \<open>Strings \<^verbatim>\<open>TextDecoder\<close> gives back: Unicode scalar values, no byte order mark in front.\<close>

definition string_ok :: "jsstring \<Rightarrow> bool" where
  "string_ok s \<longleftrightarrow> list_all scalar s \<and> (s = [] \<or> hd s \<noteq> 0xFEFF)"

definition single_ok :: "int \<Rightarrow> bool" where
  "single_ok x \<longleftrightarrow> 0 \<le> f64_narrow x \<and> f64_narrow x < 2 ^ 32 \<and> f32_widen (f64_narrow x) = x"

definition double_ok :: "int \<Rightarrow> bool" where
  "double_ok x \<longleftrightarrow> 0 \<le> x \<and> x < 2 ^ 64 \<and> f64_canonical x = x"

definition fits_length :: "TlvLength \<Rightarrow> nat \<Rightarrow> bool" where
  "fits_length len n \<longleftrightarrow> int n < 2 ^ (8 * getUIntByteLength len) \<and> int n \<le> 2 ^ 53"

fun prim_ok :: "TlvTypeLength \<Rightarrow> TlvPrimitive \<Rightarrow> bool" where
  "prim_ok (TLSignedInt len) p =
     (case prim_int p of Some n \<Rightarrow> sint_valid (getUIntByteLength len) n | None \<Rightarrow> False)"
| "prim_ok (TLUnsignedInt len) p =
     (case prim_int p of Some n \<Rightarrow> uint_valid (getUIntByteLength len) n | None \<Rightarrow> False)"
| "prim_ok (TLFloat FourBytes) (PFloat x) = single_ok x"
| "prim_ok (TLFloat EightBytes) (PFloat x) = double_ok x"
| "prim_ok (TLUtf8String len) (PString s) = (string_ok s \<and> fits_length len (length (fromString s)))"
| "prim_ok (TLByteString len) (PBytes b) = fits_length len (length b)"
| "prim_ok (TLBoolean b) (PBool b') = (b = b')"
| "prim_ok _ _ = False"

text \<open>An eight byte integer is read as a bigint, a shorter one as a number.\<close>

fun prim_norm :: "TlvTypeLength \<Rightarrow> TlvPrimitive \<Rightarrow> TlvPrimitive" where
  "prim_norm (TLSignedInt len) p =
     (case prim_int p of Some n \<Rightarrow> if len = EightBytes then PBig n else PNum n | None \<Rightarrow> p)"
| "prim_norm (TLUnsignedInt len) p =
     (case prim_int p of Some n \<Rightarrow> if len = EightBytes then PBig n else PNum n | None \<Rightarrow> p)"
| "prim_norm _ p = p"

fun prim_bytes :: "TlvTypeLength \<Rightarrow> TlvPrimitive \<Rightarrow> byte list" where
  "prim_bytes (TLSignedInt len) p =
     (case prim_int p of Some n \<Rightarrow> le_bytes (getUIntByteLength len) n | None \<Rightarrow> [])"
| "prim_bytes (TLUnsignedInt len) p =
     (case prim_int p of Some n \<Rightarrow> le_bytes (getUIntByteLength len) n | None \<Rightarrow> [])"
| "prim_bytes (TLFloat FourBytes) (PFloat x) = le_bytes 4 (f64_narrow x)"
| "prim_bytes (TLFloat EightBytes) (PFloat x) = le_bytes 8 x"
| "prim_bytes (TLUtf8String len) (PString s) =
     le_bytes (getUIntByteLength len) (int (length (fromString s))) @ fromString s"
| "prim_bytes (TLByteString len) (PBytes b) = le_bytes (getUIntByteLength len) (int (length b)) @ b"
| "prim_bytes _ _ = []"

lemma writeUInt_simps [simp]:
  "dw_inv w \<Longrightarrow> dw_inv (writeUInt len v w)"
  "dw_littleEndian (writeUInt len v w) = dw_littleEndian w"
  by (cases len; simp add: writeUInt_def)+

lemma writeUInt_bytes:
  assumes "dw_littleEndian w" and "- (2 ^ 53) \<le> v \<or> len = EightBytes" and "v \<le> 2 ^ 53 \<or> len = EightBytes"
  shows "dw_bytes (writeUInt len v w) = dw_bytes w @ le_bytes (getUIntByteLength len) v"
  using assms by (cases len) (auto simp: writeUInt_def toNumber_range le_bytes_byte)

lemma writePrimitive_bytes:
  assumes "prim_ok ty p" and "dw_littleEndian w" and "dw_inv w"
  shows "\<exists>w'. writePrimitive ty p w = Inr w' \<and> dw_bytes w' = dw_bytes w @ prim_bytes ty p \<and>
    dw_littleEndian w' \<and> dw_inv w'"
proof (cases ty)
  case (TLSignedInt len)
  then obtain n where n: "prim_int p = Some n" and v: "sint_valid (getUIntByteLength len) n"
    using assms(1) by (auto split: option.splits)
  have "dw_bytes (writeUInt len n w) = dw_bytes w @ le_bytes (getUIntByteLength len) n"
    using v by (intro writeUInt_bytes [OF assms(2)]; cases len) auto
  with TLSignedInt n assms(2,3) show ?thesis by (simp add: writePrimitive_def)
next
  case (TLUnsignedInt len)
  then show ?thesis using assms
    by (cases len) (auto simp: writePrimitive_def toNumber_range le_bytes_byte split: option.splits)
next
  case (TLFloat len)
  then show ?thesis using assms by (cases len; cases p) (auto simp: writePrimitive_def)
next
  case (TLUtf8String len)
  then show ?thesis using assms
    by (cases p) (auto simp: writePrimitive_def writeUInt_bytes fits_length_def Let_def)
next
  case (TLByteString len)
  then show ?thesis using assms
    by (cases p) (auto simp: writePrimitive_def writeUInt_bytes fits_length_def)
next
  case (TLBoolean b)
  then show ?thesis using assms by (cases p) (auto simp: writePrimitive_def)
qed (use assms in simp_all)

lemma readLength_bytes:
  assumes "fits_length len n" and "dr_littleEndian r" and "dr_inv r"
    and "getRemainingBytes r = le_bytes (getUIntByteLength len) (int n) @ rest"
  shows "readLength len r = Inr (n, skip (getUIntByteLength len) r)"
  using assms
  by (cases len)
    (auto simp: readLength_def fits_length_def codec_simps le_bytes_byte le_uint_le_bytes_id toNumber_range
      unat_of_nat)

lemma readPrimitive_bytes:
  assumes "prim_ok ty p" and "dr_littleEndian r" and "dr_inv r" and "getRemainingBytes r = prim_bytes ty p @ rest"
  shows "\<exists>r'. readPrimitive ty r = Inr (prim_norm ty p, r') \<and> getRemainingBytes r' = rest \<and>
    dr_littleEndian r' \<and> dr_inv r'"
proof (cases ty)
  case (TLSignedInt len)
  then show ?thesis using assms le_int_le_bytes_id [of 1] le_int_le_bytes_id [of 2]
      le_int_le_bytes_id [of 4] le_int_le_bytes_id [of 8]
    by (cases len) (auto simp: readPrimitive_def codec_simps split: option.splits)
next
  case (TLUnsignedInt len)
  then show ?thesis using assms
    by (cases len) (auto simp: readPrimitive_def codec_simps le_bytes_byte le_uint_le_bytes_id split: option.splits)
next
  case (TLFloat len)
  then show ?thesis using assms
    by (cases len; cases p) (auto simp: readPrimitive_def codec_simps le_uint_le_bytes_id single_ok_def double_ok_def)
next
  case (TLUtf8String len)
  then obtain s where p: "p = PString s" "string_ok s" "fits_length len (length (fromString s))"
    using assms(1) by (cases p) auto
  then have "readLength len r = Inr (length (fromString s), skip (getUIntByteLength len) r)"
    using assms(2-4) TLUtf8String by (intro readLength_bytes) auto
  with p assms(2-4) TLUtf8String utf8_decode_encode [of s] show ?thesis
    by (simp add: readPrimitive_def fromString_def string_ok_def)
next
  case (TLByteString len)
  then obtain b where p: "p = PBytes b" "fits_length len (length b)"
    using assms(1) by (cases p) auto
  then have "readLength len r = Inr (length b, skip (getUIntByteLength len) r)"
    using assms(2-4) TLByteString by (intro readLength_bytes) auto
  with p assms(2-4) TLByteString show ?thesis
    by (simp add: readPrimitive_def)
next
  case (TLBoolean b)
  then show ?thesis using assms by (cases p) (auto simp: readPrimitive_def)
qed (use assms in simp_all)

section \<open>Announced lengths\<close>

lemma getTagByteLength_bytes:
  "tag_ok tag \<Longrightarrow> getTagByteLength tag = Inr (length (tag_bytes ty tag))"
  by (auto simp: getTagByteLength_def tag_ok_def tag_bytes_def tag_number_bytes_def MATTER_COMMON_PROFILE_def
      upper_half_zero split: prod.splits option.splits)

lemma getPrimitiveByteLength_bytes:
  "prim_ok ty p \<Longrightarrow> getPrimitiveByteLength ty p = Inr (length (prim_bytes ty p))"
  by (cases "(ty, p)" rule: prim_bytes.cases)
    (auto simp: getPrimitiveByteLength_def split: option.splits)

text \<open>The length chosen for an integer holds it, and no shorter one does.\<close>

lemma getUIntTlvLength_fits:
  "uint_valid 8 v \<Longrightarrow> uint_valid (getUIntByteLength (getUIntTlvLength v)) v"
  by (auto simp: getUIntTlvLength_def int_limit_defs)

lemma getIntTlvLength_fits:
  "sint_valid 8 v \<Longrightarrow> sint_valid (getUIntByteLength (getIntTlvLength v)) v"
  by (auto simp: getIntTlvLength_def int_limit_defs)

lemma getUIntTlvLength_minimal:
  "uint_valid (getUIntByteLength len) v \<Longrightarrow> getUIntByteLength (getUIntTlvLength v) \<le> getUIntByteLength len"
  by (cases len) (auto simp: getUIntTlvLength_def int_limit_defs)

lemma getIntTlvLength_minimal:
  "sint_valid (getUIntByteLength len) v \<Longrightarrow> getUIntByteLength (getIntTlvLength v) \<le> getUIntByteLength len"
  by (cases len) (auto simp: getIntTlvLength_def int_limit_defs)

section \<open>Properties\<close>

text \<open>A whole element: tag, then primitive value where the type has one.\<close>

definition write_element :: "TlvTypeLength \<Rightarrow> TlvTag option \<Rightarrow> TlvPrimitive \<Rightarrow> DataWriter \<Rightarrow> DataWriter result" where
  "write_element ty tag p w = rbind (writeTag ty tag w) (writePrimitive ty p)"

definition read_element :: "DataReader \<Rightarrow> ((TlvTag option \<times> TlvTypeLength \<times> TlvPrimitive) \<times> DataReader) result" where
  "read_element r = rbind (readTagType r) (\<lambda>((tag, ty), r). rbind (readPrimitive ty r) (\<lambda>(p, r). Inr ((tag, ty, p), r)))"

text \<open>The reader does not support the 64 bit fully qualified tags that the writer writes.\<close>

lemma unreadable_refused:
  assumes "type_ok ty" and "tag_ok tag" and "\<not> tag_readable tag"
  shows "readTagType (new_DataReader (tag_bytes ty tag @ rest) Little) = Inl NotImplementedError"
proof -
  have "tag_control tag = 7"
    using assms(3) by (auto simp: tag_readable_def tag_control_def MATTER_COMMON_PROFILE_def split: option.splits prod.splits)
  then show ?thesis
    using readUInt8_control [OF assms(1), of "new_DataReader (tag_bytes ty tag @ rest) Little" tag rest]
    by (simp add: readTagType_def readTag_def tc_defs)
qed



text \<open>
  The length chosen for an integer is the shortest that holds it, for unsigned and signed
  integers of up to 64 bits.
\<close>

theorem integer_length_shortest:
  "(uint_valid 8 v \<longrightarrow> uint_valid (getUIntByteLength (getUIntTlvLength v)) v \<and>
      (\<forall>len. uint_valid (getUIntByteLength len) v \<longrightarrow>
         getUIntByteLength (getUIntTlvLength v) \<le> getUIntByteLength len)) \<and>
   (sint_valid 8 v \<longrightarrow> sint_valid (getUIntByteLength (getIntTlvLength v)) v \<and>
      (\<forall>len. sint_valid (getUIntByteLength len) v \<longrightarrow>
         getUIntByteLength (getIntTlvLength v) \<le> getUIntByteLength len))"
  using getUIntTlvLength_fits getIntTlvLength_fits getUIntTlvLength_minimal getIntTlvLength_minimal by blast

theorem integer_length_shortest_witness:
  "uint_valid (getUIntByteLength (getUIntTlvLength 300)) 300 \<and> sint_valid (getUIntByteLength (getIntTlvLength 300)) 300 \<and>
   getUIntByteLength (getIntTlvLength 300) \<le> getUIntByteLength FourBytes"
  using integer_length_shortest [of 300] by (auto dest: spec [of _ FourBytes])

text \<open>
  A fully qualified tag with a 32 bit number is written (nine bytes), but \<^verbatim>\<open>readTagType\<close> rejects
  what was written as not implemented.
\<close>

theorem fully_qualified_64_unreadable:
  assumes "type_ok ty" and "tag_fields tag = (Some p, Some i)" and "0 < p" and "p < 2 ^ 32"
    and "65536 \<le> i" and "i < 2 ^ 32"
  shows "\<exists>w bs. writeTag ty tag (new_DataWriter Little) = Inr w \<and> written w = Inr bs \<and> length bs = 9 \<and>
    readTagType (new_DataReader (bs @ rest) Little) = Inl NotImplementedError"
proof -
  have ok: "tag_ok tag" and "\<not> tag_readable tag"
    using assms by (simp_all add: tag_ok_def tag_readable_def MATTER_COMMON_PROFILE_def)
  then have "readTagType (new_DataReader (tag_bytes ty tag @ rest) Little) = Inl NotImplementedError"
    by (intro unreadable_refused [OF assms(1)])
  moreover obtain w where "writeTag ty tag (new_DataWriter Little) = Inr w" "dw_bytes w = tag_bytes ty tag" "dw_inv w"
    using writeTag_bytes [OF assms(1) ok, of "new_DataWriter Little"] by auto
  moreover have "length (tag_bytes ty tag) = 9"
    using assms by (simp add: tag_bytes_def tag_number_bytes_def)
  ultimately show ?thesis by auto
qed

theorem fully_qualified_64_unreadable_witness:
  "\<exists>w bs. writeTag TLStructure (Some \<lparr>tag_profile = Some 0x235a0000, tag_id = Some 0x10000\<rparr>) (new_DataWriter Little) = Inr w \<and>
    written w = Inr bs \<and> length bs = 9 \<and> readTagType (new_DataReader (bs @ []) Little) = Inl NotImplementedError"
  by (rule fully_qualified_64_unreadable [where p = "0x235a0000" and i = "0x10000"]) (simp_all add: tag_fields_def)

end
