(* ===== verification/TlvSchemas.thy ===== *)
theory TlvSchemas
  imports TlvCodec
begin

text \<open>
  The TLV schemas of \<^verbatim>\<open>tlv/TlvSchema.ts\<close>, \<^verbatim>\<open>TlvNumber.ts\<close>, \<^verbatim>\<open>TlvString.ts\<close>, \<^verbatim>\<open>TlvBoolean.ts\<close>, \<^verbatim>\<open>TlvNullable.ts\<close>,
  \<^verbatim>\<open>TlvArray.ts\<close>, \<^verbatim>\<open>TlvObject.ts\<close>, \<^verbatim>\<open>TlvAny.ts\<close>, \<^verbatim>\<open>TlvVoid.ts\<close>, \<^verbatim>\<open>TlvNoArguments.ts\<close> and \<^verbatim>\<open>TlvWrapper.ts\<close>: one
  constructor of \<open>tlv_schema\<close> per class, one equation per method and class.  The interfaces
  \<^verbatim>\<open>TlvWriter\<close> and \<^verbatim>\<open>TlvReader\<close> are records of operations, so that the schemas are written once for
  the element stream and the byte array transport.
\<close>

section \<open>Readers and writers\<close>

record TlvElement =
  el_tag :: "TlvTag option"
  el_type :: TlvTypeLength
  el_value :: TlvPrimitive

type_synonym TlvStream = "TlvElement list"

record 'w TlvWriter =
  wr_writeTag :: "TlvTypeLength \<Rightarrow> TlvTag option \<Rightarrow> 'w \<Rightarrow> 'w result"
  wr_writePrimitive :: "TlvTypeLength \<Rightarrow> TlvPrimitive \<Rightarrow> 'w \<Rightarrow> 'w result"

text \<open>\<open>rd_left\<close> counts what a reader has left; it bounds the loops of the decoders.\<close>

record 'r TlvReader =
  rd_readTagType :: "'r \<Rightarrow> ((TlvTag option \<times> TlvTypeLength) \<times> 'r) result"
  rd_readPrimitive :: "TlvTypeLength \<Rightarrow> 'r \<Rightarrow> (TlvPrimitive \<times> 'r) result"
  rd_left :: "'r \<Rightarrow> nat"

definition array_writeTag :: "TlvTypeLength \<Rightarrow> TlvTag option \<Rightarrow> TlvStream \<Rightarrow> TlvStream result" where
  "array_writeTag ty tag es = Inr (es @ [\<lparr>el_tag = tag, el_type = ty, el_value = PUndefined\<rparr>])"

definition array_writePrimitive :: "TlvTypeLength \<Rightarrow> TlvPrimitive \<Rightarrow> TlvStream \<Rightarrow> TlvStream result" where
  "array_writePrimitive ty v es =
     (if es = [] then Inl TypeError else Inr (butlast es @ [(last es)\<lparr>el_value := v\<rparr>]))"

definition TlvArrayWriter :: "TlvStream TlvWriter" where
  "TlvArrayWriter = \<lparr>wr_writeTag = array_writeTag, wr_writePrimitive = array_writePrimitive\<rparr>"

text \<open>\<open>ar_next\<close> is \<^verbatim>\<open>index + 1\<close>.  An element past the end is \<^verbatim>\<open>undefined\<close>, which no caller can take apart.\<close>

record TlvArrayReader =
  ar_elements :: TlvStream
  ar_next :: nat

definition array_readElement :: "TlvArrayReader \<Rightarrow> TlvElement option \<times> TlvArrayReader" where
  "array_readElement r =
     (if ar_next r < length (ar_elements r) then Some (ar_elements r ! ar_next r) else None,
      r\<lparr>ar_next := ar_next r + 1\<rparr>)"

definition array_readTagType :: "TlvArrayReader \<Rightarrow> ((TlvTag option \<times> TlvTypeLength) \<times> TlvArrayReader) result" where
  "array_readTagType r =
     (case array_readElement r of
        (None, r) \<Rightarrow> Inl TypeError
      | (Some e, r) \<Rightarrow> Inr ((el_tag e, el_type e), r))"

definition array_readPrimitive :: "TlvTypeLength \<Rightarrow> TlvArrayReader \<Rightarrow> (TlvPrimitive \<times> TlvArrayReader) result" where
  "array_readPrimitive ty r =
     (if ar_next r = 0 \<or> length (ar_elements r) < ar_next r then Inl TypeError
      else Inr (el_value (ar_elements r ! (ar_next r - 1)), r))"

definition ArrayReader :: "TlvArrayReader TlvReader" where
  "ArrayReader = \<lparr>rd_readTagType = array_readTagType, rd_readPrimitive = array_readPrimitive,
     rd_left = \<lambda>r. length (ar_elements r) - ar_next r\<rparr>"

definition new_TlvArrayReader :: "TlvStream \<Rightarrow> TlvArrayReader" where
  "new_TlvArrayReader es = \<lparr>ar_elements = es, ar_next = 0\<rparr>"

definition TlvByteArrayWriter :: "DataWriter TlvWriter" where
  "TlvByteArrayWriter = \<lparr>wr_writeTag = writeTag, wr_writePrimitive = writePrimitive\<rparr>"

definition TlvByteArrayReader :: "DataReader TlvReader" where
  "TlvByteArrayReader = \<lparr>rd_readTagType = readTagType, rd_readPrimitive = readPrimitive,
     rd_left = \<lambda>r. length (getRemainingBytes r)\<rparr>"

section \<open>Values and schemas\<close>

text \<open>
  JavaScript values: primitives, arrays, objects as the list of their properties in insertion
  order, and raw element streams.  A number used with a float schema is given by its bits.
\<close>

datatype tlv_value =
    VPrim TlvPrimitive
  | VArray "tlv_value list"
  | VObject "(string \<times> tlv_value) list"
  | VStream TlvStream

abbreviation VUndefined :: tlv_value where "VUndefined \<equiv> VPrim PUndefined"
abbreviation VNull :: tlv_value where "VNull \<equiv> VPrim PNull"

datatype num_class = NumberSchema | LongNumberSchema
datatype num_kind = KUnsignedInt | KSignedInt | KFloat | KDouble
datatype string_kind = KUtf8String | KByteString
datatype object_kind = KStructure | KList

datatype tlv_schema =
    NumericSchema num_class num_kind "int option" "int option"
  | StringSchema string_kind int int
  | BooleanSchema
  | NullableSchema tlv_schema
  | ArraySchema tlv_schema int int
  | ObjectSchema object_kind "tlv_field list"
  | AnySchema
  | VoidSchema
  | NoArgumentsSchema
  | WrapperSchema tlv_schema "tlv_value \<Rightarrow> tlv_value result" "tlv_value \<Rightarrow> tlv_value result"
and tlv_field =
    Field (f_name: string) (f_id: int) (f_schema: tlv_schema) (f_optional: bool) (f_repeated: bool)
      (f_fallback: "tlv_value option") (f_minLength: "int option") (f_maxLength: "int option")

text \<open>The constructors of \<^verbatim>\<open>TlvObject.ts\<close>.\<close>

definition TlvField :: "string \<Rightarrow> int \<Rightarrow> tlv_schema \<Rightarrow> tlv_value option \<Rightarrow> tlv_field" where
  "TlvField name i s fallback = Field name i s False False fallback None None"

definition TlvOptionalField :: "string \<Rightarrow> int \<Rightarrow> tlv_schema \<Rightarrow> tlv_field" where
  "TlvOptionalField name i s = Field name i s True False None None None"

definition TlvRepeatedField :: "string \<Rightarrow> int \<Rightarrow> tlv_schema \<Rightarrow> int option \<Rightarrow> int option \<Rightarrow> int option \<Rightarrow> tlv_field" where
  "TlvRepeatedField name i s minLength maxLength len =
     Field name i s False True None (if len \<noteq> None then len else minLength) (if len \<noteq> None then len else maxLength)"

definition TlvOptionalRepeatedField :: "string \<Rightarrow> int \<Rightarrow> tlv_schema \<Rightarrow> int option \<Rightarrow> tlv_field" where
  "TlvOptionalRepeatedField name i s maxLength = Field name i s True True None (Some 0) maxLength"

text \<open>\<^verbatim>\<open>new ObjectSchema(...)\<close>: repeated fields are for lists only.\<close>

definition new_ObjectSchema :: "tlv_field list \<Rightarrow> object_kind \<Rightarrow> tlv_schema result" where
  "new_ObjectSchema fs kind =
     (if list_ex f_repeated fs \<and> kind \<noteq> KList then Inl PlainError else Inr (ObjectSchema kind fs))"

text \<open>The number schemas of \<^verbatim>\<open>TlvNumber.ts\<close>; the limits of \<^verbatim>\<open>TlvFloat\<close> are the bits of \<^verbatim>\<open>FLOAT32_MIN\<close> and \<^verbatim>\<open>FLOAT32_MAX\<close>.\<close>

definition TlvFloat :: tlv_schema where
  "TlvFloat = NumericSchema NumberSchema KFloat (Some 0xc7efffffe0000000) (Some 0x47efffffe0000000)"
definition TlvDouble :: tlv_schema where "TlvDouble = NumericSchema NumberSchema KDouble None None"
definition TlvInt8 :: tlv_schema where "TlvInt8 = NumericSchema NumberSchema KSignedInt (Some INT8_MIN) (Some INT8_MAX)"
definition TlvInt16 :: tlv_schema where "TlvInt16 = NumericSchema NumberSchema KSignedInt (Some INT16_MIN) (Some INT16_MAX)"
definition TlvInt32 :: tlv_schema where "TlvInt32 = NumericSchema NumberSchema KSignedInt (Some INT32_MIN) (Some INT32_MAX)"
definition TlvInt64 :: tlv_schema where "TlvInt64 = NumericSchema LongNumberSchema KSignedInt (Some INT64_MIN) (Some INT64_MAX)"
definition TlvUInt8 :: tlv_schema where "TlvUInt8 = NumericSchema NumberSchema KUnsignedInt (Some 0) (Some UINT8_MAX)"
definition TlvUInt16 :: tlv_schema where "TlvUInt16 = NumericSchema NumberSchema KUnsignedInt (Some 0) (Some UINT16_MAX)"
definition TlvUInt24 :: tlv_schema where "TlvUInt24 = NumericSchema NumberSchema KUnsignedInt (Some 0) (Some UINT24_MAX)"
definition TlvUInt32 :: tlv_schema where "TlvUInt32 = NumericSchema NumberSchema KUnsignedInt (Some 0) (Some UINT32_MAX)"
definition TlvUInt64 :: tlv_schema where "TlvUInt64 = NumericSchema LongNumberSchema KUnsignedInt (Some 0) (Some UINT64_MAX)"

text \<open>\<^verbatim>\<open>bound\<close> of numbers and strings narrows the range.\<close>

fun numeric_bound :: "int option \<Rightarrow> int option \<Rightarrow> tlv_schema \<Rightarrow> tlv_schema" where
  "numeric_bound mn mx (NumericSchema c k lo hi) = NumericSchema c k (maxValue mn lo) (minValue mx hi)"
| "numeric_bound mn mx s = s"

fun string_bound :: "int option \<Rightarrow> int option \<Rightarrow> int option \<Rightarrow> tlv_schema \<Rightarrow> tlv_schema" where
  "string_bound minLength maxLength len (StringSchema k lo hi) =
     (case len of
        Some l \<Rightarrow> StringSchema k l l
      | None \<Rightarrow> StringSchema k (case minLength of None \<Rightarrow> lo | Some m \<Rightarrow> if lo > m then lo else m)
                              (case maxLength of None \<Rightarrow> hi | Some m \<Rightarrow> if hi < m then hi else m))"
| "string_bound minLength maxLength len s = s"

definition TlvByteString :: tlv_schema where "TlvByteString = StringSchema KByteString 0 1024"
definition TlvString :: tlv_schema where "TlvString = StringSchema KUtf8String 0 1024"

section \<open>Properties of objects\<close>

definition get_prop :: "(string \<times> tlv_value) list \<Rightarrow> string \<Rightarrow> tlv_value" where
  "get_prop kvs name = (case map_of kvs name of None \<Rightarrow> VUndefined | Some v \<Rightarrow> v)"

fun set_prop :: "(string \<times> tlv_value) list \<Rightarrow> string \<Rightarrow> tlv_value \<Rightarrow> (string \<times> tlv_value) list" where
  "set_prop [] name v = [(name, v)]"
| "set_prop ((k, u) # kvs) name v = (if k = name then (k, v) # kvs else (k, u) # set_prop kvs name v)"

definition delete_prop :: "(string \<times> tlv_value) list \<Rightarrow> string \<Rightarrow> (string \<times> tlv_value) list" where
  "delete_prop kvs name = filter (\<lambda>(k, _). k \<noteq> name) kvs"

text \<open>Reading a property of any value: \<^verbatim>\<open>null\<close> and \<^verbatim>\<open>undefined\<close> have none.\<close>

definition prop_of :: "tlv_value \<Rightarrow> string \<Rightarrow> tlv_value result" where
  "prop_of v name =
     (case v of
        VObject kvs \<Rightarrow> Inr (get_prop kvs name)
      | VPrim PUndefined \<Rightarrow> Inl TypeError
      | VPrim PNull \<Rightarrow> Inl TypeError
      | _ \<Rightarrow> Inr VUndefined)"

section \<open>Validation\<close>

text \<open>The order of doubles on their bits; a NaN is not comparable.\<close>

definition is_nan :: "int \<Rightarrow> bool" where
  "is_nan x \<longleftrightarrow> x div 2 ^ 52 mod 2 ^ 11 = 2047 \<and> x mod 2 ^ 52 \<noteq> 0"

definition float_key :: "int \<Rightarrow> int" where
  "float_key x = (if 2 ^ 63 \<le> x then - (x - 2 ^ 63) else x)"

definition float_less :: "int \<Rightarrow> int \<Rightarrow> bool" where
  "float_less x y \<longleftrightarrow> \<not> is_nan x \<and> \<not> is_nan y \<and> float_key x < float_key y"

definition num_less :: "num_kind \<Rightarrow> int \<Rightarrow> int \<Rightarrow> bool" where
  "num_less k x y = (case k of KFloat \<Rightarrow> float_less x y | KDouble \<Rightarrow> float_less x y | _ \<Rightarrow> x < y)"

definition num_of :: "tlv_value \<Rightarrow> int option" where
  "num_of v = (case v of VPrim (PNum n) \<Rightarrow> Some n | VPrim (PBig n) \<Rightarrow> Some n | VPrim (PFloat x) \<Rightarrow> Some x | _ \<Rightarrow> None)"

definition validateBoundaries :: "num_kind \<Rightarrow> int option \<Rightarrow> int option \<Rightarrow> int \<Rightarrow> unit result" where
  "validateBoundaries k mn mx n =
     rbind (throw_if (case mn of None \<Rightarrow> False | Some m \<Rightarrow> num_less k n m) ValidationError) (\<lambda>_.
       throw_if (case mx of None \<Rightarrow> False | Some m \<Rightarrow> num_less k m n) ValidationError)"

definition validate_number :: "num_class \<Rightarrow> num_kind \<Rightarrow> int option \<Rightarrow> int option \<Rightarrow> tlv_value \<Rightarrow> unit result" where
  "validate_number c k mn mx v =
     (case num_of v of
        None \<Rightarrow> Inl ValidationError
      | Some n \<Rightarrow>
          if c = NumberSchema \<and> (case v of VPrim (PBig _) \<Rightarrow> True | _ \<Rightarrow> False) then Inl ValidationError
          else validateBoundaries k mn mx n)"

definition string_length :: "string_kind \<Rightarrow> tlv_value \<Rightarrow> nat option" where
  "string_length k v =
     (case k of
        KUtf8String \<Rightarrow> (case v of VPrim (PString s) \<Rightarrow> Some (js_length s) | _ \<Rightarrow> None)
      | KByteString \<Rightarrow> (case v of VPrim (PBytes b) \<Rightarrow> Some (length b) | _ \<Rightarrow> None))"

definition validate_length :: "int \<Rightarrow> int \<Rightarrow> nat \<Rightarrow> unit result" where
  "validate_length mn mx n =
     rbind (throw_if (int n > mx) ValidationError) (\<lambda>_. throw_if (int n < mn) ValidationError)"

definition each :: "('a \<Rightarrow> unit result) \<Rightarrow> 'a list \<Rightarrow> unit result" where
  "each f xs = rfold (\<lambda>x _. f x) xs ()"

lemma each_cong [fundef_cong]: "xs = ys \<Longrightarrow> (\<And>x. x \<in> set ys \<Longrightarrow> f x = g x) \<Longrightarrow> each f xs = each g ys"
  unfolding each_def by (rule rfold_cong) simp_all

fun validate :: "tlv_schema \<Rightarrow> tlv_value \<Rightarrow> unit result"
and validate_field :: "tlv_field \<Rightarrow> tlv_value \<Rightarrow> unit result" where
  "validate (NumericSchema c k mn mx) v = validate_number c k mn mx v"
| "validate (StringSchema k mn mx) v =
     (case string_length k v of None \<Rightarrow> Inl ValidationError | Some n \<Rightarrow> validate_length mn mx n)"
| "validate BooleanSchema v = (case v of VPrim (PBool _) \<Rightarrow> Inr () | _ \<Rightarrow> Inl ValidationError)"
| "validate (NullableSchema s) v = (if v = VNull then Inr () else validate s v)"
| "validate (ArraySchema s mn mx) v =
     (case v of
        VArray vs \<Rightarrow> rbind (validate_length mn mx (length vs)) (\<lambda>_. each (\<lambda>x. validate s x) vs)
      | _ \<Rightarrow> Inl ValidationError)"
| "validate (ObjectSchema k fs) v = each (\<lambda>f. validate_field f v) fs"
| "validate AnySchema v = (case v of VStream _ \<Rightarrow> Inr () | _ \<Rightarrow> Inl ValidationError)"
| "validate VoidSchema v = (if v = VUndefined then Inr () else Inl ValidationError)"
| "validate NoArgumentsSchema v = (if v = VUndefined then Inr () else Inl ValidationError)"
| "validate (WrapperSchema s wrap unwrap) v = rbind (wrap v) (\<lambda>u. validate s u)"
| "validate_field (Field name i s opt rep fb mn mx) v =
     rbind (prop_of v name) (\<lambda>d.
       if d = VUndefined then (if opt then Inr () else Inl ValidationError)
       else if rep then
         (case d of
            VArray ds \<Rightarrow>
              rbind (validate_length (case mn of None \<Rightarrow> 2 | Some m \<Rightarrow> m) (case mx of None \<Rightarrow> 65535 | Some m \<Rightarrow> m) (length ds))
                (\<lambda>_. each (\<lambda>x. validate s x) ds)
          | _ \<Rightarrow> Inl ValidationError)
       else validate s d)"

section \<open>Encoding\<close>

text \<open>\<^verbatim>\<open>Globals.FabricIndex.id\<close>\<close>

definition FabricIndex_id :: int where "FabricIndex_id = 0xfe"

text \<open>Whether an element of a type carries a primitive value.\<close>

fun has_value :: "TlvTypeLength \<Rightarrow> bool" where
  "has_value (TLUnsignedInt _) = True"
| "has_value (TLSignedInt _) = True"
| "has_value (TLFloat _) = True"
| "has_value (TLUtf8String _) = True"
| "has_value (TLByteString _) = True"
| "has_value _ = False"

text \<open>\<^verbatim>\<open>AnySchema.encodeTlvInternal\<close>: the assigned tag replaces that of the first element.\<close>

definition encode_any_element :: "'w TlvWriter \<Rightarrow> TlvElement \<Rightarrow> 'w \<Rightarrow> 'w result" where
  "encode_any_element W e w =
     (case el_type e of
        TLOther _ \<Rightarrow> Inr w
      | ty \<Rightarrow>
          rbind (wr_writeTag W ty (el_tag e) w) (\<lambda>w.
            if has_value ty then wr_writePrimitive W ty (el_value e) w else Inr w))"

fun assign_tag :: "TlvTag option \<Rightarrow> TlvStream \<Rightarrow> TlvStream" where
  "assign_tag None es = es"
| "assign_tag (Some t) [] = []"
| "assign_tag (Some t) (e # es) = e\<lparr>el_tag := Some t\<rparr> # es"

definition encode_any :: "'w TlvWriter \<Rightarrow> TlvStream \<Rightarrow> TlvTag option \<Rightarrow> 'w \<Rightarrow> 'w result" where
  "encode_any W es tag w = rfold (encode_any_element W) (assign_tag tag es) w"

definition numeric_typeLength :: "num_kind \<Rightarrow> TlvPrimitive \<Rightarrow> TlvTypeLength option" where
  "numeric_typeLength k p =
     (case k of
        KUnsignedInt \<Rightarrow> map_option (\<lambda>n. TLUnsignedInt (getUIntTlvLength n)) (prim_int p)
      | KSignedInt \<Rightarrow> map_option (\<lambda>n. TLSignedInt (getIntTlvLength n)) (prim_int p)
      | KFloat \<Rightarrow> Some (TLFloat FourBytes)
      | KDouble \<Rightarrow> Some (TLFloat EightBytes))"

definition string_typeLength :: "string_kind \<Rightarrow> nat \<Rightarrow> TlvTypeLength" where
  "string_typeLength k n =
     (case k of KUtf8String \<Rightarrow> TLUtf8String (getUIntTlvLength (int n)) | KByteString \<Rightarrow> TLByteString (getUIntTlvLength (int n)))"

definition object_typeLength :: "object_kind \<Rightarrow> TlvTypeLength" where
  "object_typeLength k = (case k of KStructure \<Rightarrow> TLStructure | KList \<Rightarrow> TLList)"

definition write_value :: "'w TlvWriter \<Rightarrow> TlvTypeLength \<Rightarrow> TlvTag option \<Rightarrow> TlvPrimitive \<Rightarrow> 'w \<Rightarrow> 'w result" where
  "write_value W ty tag p w = rbind (wr_writeTag W ty tag w) (wr_writePrimitive W ty p)"

text \<open>
  \<^verbatim>\<open>encodeTlvInternal\<close> of every schema, and \<^verbatim>\<open>#encodeEntryToTlv\<close> of an object's field.  Values that the
  declared types rule out are a \<open>TypeError\<close>.
\<close>

fun encodeTlvInternal ::
  "'w TlvWriter \<Rightarrow> tlv_schema \<Rightarrow> tlv_value \<Rightarrow> TlvTag option \<Rightarrow> bool \<Rightarrow> 'w \<Rightarrow> 'w result"
and encodeEntryToTlv ::
  "'w TlvWriter \<Rightarrow> tlv_field \<Rightarrow> (string \<times> tlv_value) list \<Rightarrow> bool \<Rightarrow> 'w \<Rightarrow> 'w result" where
  "encodeTlvInternal W (NumericSchema c k mn mx) v tag fw w =
     (case v of
        VPrim p \<Rightarrow> (case numeric_typeLength k p of None \<Rightarrow> Inl TypeError | Some ty \<Rightarrow> write_value W ty tag p w)
      | _ \<Rightarrow> Inl TypeError)"
| "encodeTlvInternal W (StringSchema k mn mx) v tag fw w =
     (case string_length k v of
        None \<Rightarrow> Inl TypeError
      | Some n \<Rightarrow> (case v of VPrim p \<Rightarrow> write_value W (string_typeLength k n) tag p w | _ \<Rightarrow> Inl TypeError))"
| "encodeTlvInternal W BooleanSchema v tag fw w =
     (case v of VPrim (PBool b) \<Rightarrow> wr_writeTag W (TLBoolean b) tag w | _ \<Rightarrow> Inl TypeError)"
| "encodeTlvInternal W (NullableSchema s) v tag fw w =
     (if v = VNull then wr_writeTag W TLNull tag w else encodeTlvInternal W s v tag fw w)"
| "encodeTlvInternal W (ArraySchema s mn mx) v tag fw w =
     (case v of
        VArray vs \<Rightarrow>
          rbind (wr_writeTag W TLArray tag w) (\<lambda>w.
          rbind (rfold (\<lambda>x w. encodeTlvInternal W s x None fw w) vs w) (\<lambda>w.
          wr_writeTag W TLEndOfContainer None w))
      | _ \<Rightarrow> Inl TypeError)"
| "encodeTlvInternal W (ObjectSchema k fs) v tag fw w =
     (case v of
        VObject kvs \<Rightarrow>
          rbind (wr_writeTag W (object_typeLength k) tag w) (\<lambda>w.
          rbind
            (if k = KStructure then rfold (\<lambda>f w. encodeEntryToTlv W f kvs fw w) fs w
             else
               (let entries = map (\<lambda>f. (f_name f, \<lambda>w. encodeEntryToTlv W f kvs fw w)) fs; names = map fst kvs in
                rbind (rfold (\<lambda>name w. case map_of entries name of None \<Rightarrow> Inl TypeError | Some e \<Rightarrow> e w) names w) (\<lambda>w.
                rfold (\<lambda>f w. if f_name f \<in> set names then Inr w else encodeEntryToTlv W f kvs fw w) fs w)))
            (\<lambda>w. wr_writeTag W TLEndOfContainer None w))
      | _ \<Rightarrow> Inl TypeError)"
| "encodeTlvInternal W AnySchema v tag fw w = (case v of VStream es \<Rightarrow> encode_any W es tag w | _ \<Rightarrow> Inl TypeError)"
| "encodeTlvInternal W VoidSchema v tag fw w = Inr w"
| "encodeTlvInternal W NoArgumentsSchema v tag fw w =
     (if v \<noteq> VUndefined then Inl UnexpectedDataError
      else rbind (wr_writeTag W TLStructure tag w) (wr_writeTag W TLEndOfContainer None))"
| "encodeTlvInternal W (WrapperSchema s wrap unwrap) v tag fw w =
     rbind (wrap v) (\<lambda>u. encodeTlvInternal W s u tag fw w)"
| "encodeEntryToTlv W (Field name i s opt rep fb mn mx) kvs fw w =
     (let v = get_prop kvs name in
      if v = VUndefined then
        (if \<not> opt then (if fw \<and> i = FabricIndex_id then Inr w else Inl ValidationError) else Inr w)
      else if rep then
        (case v of
           VArray vs \<Rightarrow> rfold (\<lambda>x w. encodeTlvInternal W s x (Some (id_tag i)) fw w) vs w
         | _ \<Rightarrow> Inl ValidationError)
      else encodeTlvInternal W s v (Some (id_tag i)) fw w)"

section \<open>Decoding\<close>

text \<open>
  The loops of the decoders end when the reader does; they are given a bound \<open>n\<close> on the number of
  elements, and \<open>OutOfFuel\<close> when it is exceeded.  The entry points below bound them by what the
  reader has left, which is always enough (shown in the theory \<open>TlvRoundtrip\<close>).
\<close>

fun decodeTlvValueRec ::
  "'r TlvReader \<Rightarrow> nat \<Rightarrow> TlvTypeLength \<Rightarrow> TlvStream \<Rightarrow> TlvTag option \<Rightarrow> 'r \<Rightarrow> (TlvStream \<times> 'r) result"
and decode_any_loop ::
  "'r TlvReader \<Rightarrow> nat \<Rightarrow> TlvStream \<Rightarrow> 'r \<Rightarrow> (TlvStream \<times> 'r) result" where
  "decodeTlvValueRec R n ty es tag r =
     (case ty of
        TLNull \<Rightarrow> Inr (es @ [\<lparr>el_tag = tag, el_type = ty, el_value = PNull\<rparr>], r)
      | TLArray \<Rightarrow> decode_any_loop R n (es @ [\<lparr>el_tag = tag, el_type = ty, el_value = PUndefined\<rparr>]) r
      | TLStructure \<Rightarrow> decode_any_loop R n (es @ [\<lparr>el_tag = tag, el_type = ty, el_value = PUndefined\<rparr>]) r
      | TLList \<Rightarrow> decode_any_loop R n (es @ [\<lparr>el_tag = tag, el_type = ty, el_value = PUndefined\<rparr>]) r
      | TLEndOfContainer \<Rightarrow> Inr (es @ [\<lparr>el_tag = tag, el_type = ty, el_value = PUndefined\<rparr>], r)
      | TLOther _ \<Rightarrow> Inr (es, r)
      | _ \<Rightarrow> rbind (rd_readPrimitive R ty r) (\<lambda>(p, r). Inr (es @ [\<lparr>el_tag = tag, el_type = ty, el_value = p\<rparr>], r)))"
| "decode_any_loop R 0 es r = Inl OutOfFuel"
| "decode_any_loop R (Suc n) es r =
     rbind (rd_readTagType R r) (\<lambda>((tag, ty), r).
       rbind (decodeTlvValueRec R n ty es tag r) (\<lambda>(es, r).
         if ty = TLEndOfContainer then Inr (es, r) else decode_any_loop R n es r))"

definition decode_any :: "'r TlvReader \<Rightarrow> nat \<Rightarrow> TlvTypeLength \<Rightarrow> 'r \<Rightarrow> (TlvStream \<times> 'r) result" where
  "decode_any R n ty r = decodeTlvValueRec R n ty [] None r"

fun decode_array_loop ::
  "'r TlvReader \<Rightarrow> (TlvTypeLength \<Rightarrow> 'r \<Rightarrow> (tlv_value \<times> 'r) result) \<Rightarrow> nat \<Rightarrow> tlv_value list \<Rightarrow> 'r \<Rightarrow>
     (tlv_value list \<times> 'r) result" where
  "decode_array_loop R elem 0 acc r = Inl OutOfFuel"
| "decode_array_loop R elem (Suc n) acc r =
     rbind (rd_readTagType R r) (\<lambda>((tag, ty), r).
       if tag \<noteq> None then Inl UnexpectedDataError
       else if ty = TLEndOfContainer then Inr (acc, r)
       else rbind (elem ty r) (\<lambda>(v, r). decode_array_loop R elem n (acc @ [v]) r))"

text \<open>A field as the decoder looks it up: its name, whether it repeats, and how its value is decoded.\<close>

type_synonym 'r field_decoder = "string \<times> bool \<times> (TlvTypeLength \<Rightarrow> 'r \<Rightarrow> (tlv_value \<times> 'r) result)"

definition store_field :: "string \<Rightarrow> bool \<Rightarrow> tlv_value \<Rightarrow> (string \<times> tlv_value) list \<Rightarrow> (string \<times> tlv_value) list result" where
  "store_field name rep v result =
     (if rep then
        (case get_prop result name of
           VPrim PUndefined \<Rightarrow> Inr (set_prop result name (VArray [v]))
         | VArray vs \<Rightarrow> Inr (set_prop result name (VArray (vs @ [v])))
         | _ \<Rightarrow> Inl TypeError)
      else Inr (set_prop result name v))"

fun decode_object_loop ::
  "'r TlvReader \<Rightarrow> (int \<rightharpoonup> 'r field_decoder) \<Rightarrow> nat \<Rightarrow> (string \<times> tlv_value) list \<Rightarrow> 'r \<Rightarrow>
     ((string \<times> tlv_value) list \<times> 'r) result" where
  "decode_object_loop R fieldById 0 result r = Inl OutOfFuel"
| "decode_object_loop R fieldById (Suc n) result r =
     rbind (rd_readTagType R r) (\<lambda>((tag, ty), r).
       if ty = TLEndOfContainer then Inr (result, r)
       else
         case tag_fields tag of
           (Some _, _) \<Rightarrow> Inl UnexpectedDataError
         | (None, None) \<Rightarrow> Inl UnexpectedDataError
         | (None, Some i) \<Rightarrow>
             (case fieldById i of
                None \<Rightarrow> rbind (decode_any R n ty r) (\<lambda>(_, r). decode_object_loop R fieldById n result r)
              | Some (name, rep, dec) \<Rightarrow>
                  rbind (dec ty r) (\<lambda>(v, r).
                    rbind (store_field name rep v result) (\<lambda>result. decode_object_loop R fieldById n result r))))"

definition apply_fallback :: "tlv_field \<Rightarrow> (string \<times> tlv_value) list \<Rightarrow> (string \<times> tlv_value) list" where
  "apply_fallback f result =
     (if f_optional f \<or> get_prop result (f_name f) \<noteq> VUndefined then result
      else case f_fallback f of
             None \<Rightarrow> result
           | Some fb \<Rightarrow> set_prop result (f_name f) (if f_repeated f then VArray [fb] else fb))"

definition numeric_type :: "num_kind \<Rightarrow> int" where
  "numeric_type k = (case k of KUnsignedInt \<Rightarrow> 0x04 | KSignedInt \<Rightarrow> 0x00 | KFloat \<Rightarrow> 0x0a | KDouble \<Rightarrow> 0x0a)"

definition string_type :: "string_kind \<Rightarrow> int" where
  "string_type k = (case k of KUtf8String \<Rightarrow> 0x0c | KByteString \<Rightarrow> 0x10)"

text \<open>\<^verbatim>\<open>TlvNumberSchema\<close> turns a bigint into a number.\<close>

definition decode_number_value :: "num_class \<Rightarrow> TlvPrimitive \<Rightarrow> TlvPrimitive" where
  "decode_number_value c p =
     (case c of NumberSchema \<Rightarrow> (case p of PBig n \<Rightarrow> PNum (toNumber n) | _ \<Rightarrow> p) | LongNumberSchema \<Rightarrow> p)"

text \<open>Whether a nullable schema takes an empty value for null.\<close>

fun empty_is_null :: "tlv_schema \<Rightarrow> bool" where
  "empty_is_null (ArraySchema s mn mx) = (mn > 0)"
| "empty_is_null (StringSchema k mn mx) = (mn > 0)"
| "empty_is_null _ = False"

fun value_empty :: "tlv_value \<Rightarrow> bool result" where
  "value_empty (VArray vs) = Inr (vs = [])"
| "value_empty (VPrim (PString s)) = Inr (s = [])"
| "value_empty (VPrim (PBytes b)) = Inr (b = [])"
| "value_empty (VPrim PUndefined) = Inl TypeError"
| "value_empty _ = Inr False"

fun decodeTlvInternalValue :: "'r TlvReader \<Rightarrow> nat \<Rightarrow> tlv_schema \<Rightarrow> TlvTypeLength \<Rightarrow> 'r \<Rightarrow> (tlv_value \<times> 'r) result"
and field_decoder :: "'r TlvReader \<Rightarrow> nat \<Rightarrow> tlv_field \<Rightarrow> TlvTypeLength \<Rightarrow> 'r \<Rightarrow> (tlv_value \<times> 'r) result" where
  "decodeTlvInternalValue R n (NumericSchema c k mn mx) ty r =
     (if TlvType ty \<noteq> numeric_type k then Inl UnexpectedDataError
      else rbind (rd_readPrimitive R ty r) (\<lambda>(p, r). Inr (VPrim (decode_number_value c p), r)))"
| "decodeTlvInternalValue R n (StringSchema k mn mx) ty r =
     (if TlvType ty \<noteq> string_type k then Inl UnexpectedDataError
      else rbind (rd_readPrimitive R ty r) (\<lambda>(p, r). Inr (VPrim p, r)))"
| "decodeTlvInternalValue R n BooleanSchema ty r =
     (case ty of TLBoolean b \<Rightarrow> Inr (VPrim (PBool b), r) | _ \<Rightarrow> Inl UnexpectedDataError)"
| "decodeTlvInternalValue R n (NullableSchema s) ty r =
     (if ty = TLNull then Inr (VNull, r)
      else rbind (decodeTlvInternalValue R n s ty r) (\<lambda>(v, r).
        if v \<noteq> VNull \<and> empty_is_null s
        then rbind (value_empty v) (\<lambda>e. Inr (if e then VNull else v, r))
        else Inr (v, r)))"
| "decodeTlvInternalValue R n (ArraySchema s mn mx) ty r =
     (if ty \<noteq> TLArray then Inl UnexpectedDataError
      else rbind (decode_array_loop R (\<lambda>ty r. decodeTlvInternalValue R n s ty r) n [] r) (\<lambda>(vs, r). Inr (VArray vs, r)))"
| "decodeTlvInternalValue R n (ObjectSchema k fs) ty r =
     (if ty \<noteq> object_typeLength k then Inl UnexpectedDataError
      else
        let fieldById = map_of (rev (map (\<lambda>f. (f_id f, f_name f, f_repeated f, \<lambda>ty r. field_decoder R n f ty r)) fs))
        in rbind (decode_object_loop R fieldById n [] r) (\<lambda>(result, r). Inr (VObject (fold apply_fallback fs result), r)))"
| "decodeTlvInternalValue R n AnySchema ty r = rbind (decode_any R n ty r) (\<lambda>(es, r). Inr (VStream es, r))"
| "decodeTlvInternalValue R n VoidSchema ty r = Inl InternalError"
| "decodeTlvInternalValue R n NoArgumentsSchema ty r = Inl InternalError"
| "decodeTlvInternalValue R n (WrapperSchema s wrap unwrap) ty r =
     rbind (decodeTlvInternalValue R n s ty r) (\<lambda>(v, r). rbind (unwrap v) (\<lambda>u. Inr (u, r)))"
| "field_decoder R n (Field name i s opt rep fb mn mx) ty r = decodeTlvInternalValue R n s ty r"

definition decodeTlvInternal :: "'r TlvReader \<Rightarrow> tlv_schema \<Rightarrow> 'r \<Rightarrow> ((tlv_value \<times> TlvTag option) \<times> 'r) result" where
  "decodeTlvInternal R s r0 =
     rbind (rd_readTagType R r0) (\<lambda>((tag, ty), r).
       rbind (decodeTlvInternalValue R (Suc (rd_left R r0)) s ty r) (\<lambda>(v, r). Inr ((v, tag), r)))"

section \<open>Entry points\<close>

definition encodeTlv :: "tlv_schema \<Rightarrow> tlv_value \<Rightarrow> bool \<Rightarrow> TlvStream result" where
  "encodeTlv s v forWriteInteraction = encodeTlvInternal TlvArrayWriter s v None forWriteInteraction []"

definition is_void :: "tlv_schema \<Rightarrow> bool" where
  "is_void s = (case s of VoidSchema \<Rightarrow> True | NoArgumentsSchema \<Rightarrow> True | _ \<Rightarrow> False)"

definition decodeTlv :: "tlv_schema \<Rightarrow> TlvStream \<Rightarrow> tlv_value result" where
  "decodeTlv s es =
     (if is_void s then Inr VUndefined
      else rbind (decodeTlvInternal ArrayReader s (new_TlvArrayReader es)) (\<lambda>((v, _), _). Inr v))"

text \<open>\<^verbatim>\<open>Schema.encode\<close> and \<^verbatim>\<open>Schema.decode\<close> with the byte array transport.\<close>

definition schema_encode :: "tlv_schema \<Rightarrow> tlv_value \<Rightarrow> byte list result" where
  "schema_encode s v =
     rbind (validate s v) (\<lambda>_.
       rbind (encodeTlvInternal TlvByteArrayWriter s v None False (new_DataWriter Little)) written)"

definition schema_decode :: "tlv_schema \<Rightarrow> byte list \<Rightarrow> bool \<Rightarrow> tlv_value result" where
  "schema_decode s bs doValidate =
     rbind (decodeTlvInternal TlvByteArrayReader s (new_DataReader bs Little)) (\<lambda>((v, _), _).
       if doValidate then rbind (validate s v) (\<lambda>_. Inr v) else Inr v)"

text \<open>\<^verbatim>\<open>AnySchema.getEncodedByteLength\<close>\<close>

definition element_byte_length :: "TlvElement \<Rightarrow> nat result" where
  "element_byte_length e =
     (case el_type e of
        TLOther _ \<Rightarrow> Inr 0
      | ty \<Rightarrow>
          rbind (getTagByteLength (el_tag e)) (\<lambda>n.
            if has_value ty then rbind (getPrimitiveByteLength ty (el_value e)) (\<lambda>m. Inr (n + m)) else Inr n))"

definition getEncodedByteLength :: "TlvStream \<Rightarrow> nat result" where
  "getEncodedByteLength es = rfold (\<lambda>e n. rbind (element_byte_length e) (\<lambda>m. Inr (n + m))) es 0"

end
