(* ===== verification/TlvRoundtrip.thy ===== *)
theory TlvRoundtrip
  imports TlvSchemas
begin

text \<open>
  What the TLV schemas promise.  \<open>elements\<close> is the reference meaning of a value: the sequence of TLV
  elements it stands for.  The locale \<open>tlv_transport\<close> states what the schemas need from a writer and
  a reader; within it, encoding writes exactly \<open>elements\<close> and decoding gives the value back.  Both
  transports of the source, element streams and byte arrays, are instances.  The locale
  \<open>tlv_source\<close> states what makes every decoder end.
\<close>

section \<open>The elements of a value\<close>

definition mk :: "TlvTag option \<Rightarrow> TlvTypeLength \<Rightarrow> TlvPrimitive \<Rightarrow> TlvElement" where
  "mk tag ty p = \<lparr>el_tag = tag, el_type = ty, el_value = p\<rparr>"

lemma mk_simps [simp]: "el_tag (mk tag ty p) = tag" "el_type (mk tag ty p) = ty" "el_value (mk tag ty p) = p"
  by (simp_all add: mk_def)

text \<open>An element of a raw stream as it is written: where its type needs no value, the value is not looked at.\<close>

definition strip :: "TlvElement \<Rightarrow> TlvElement" where
  "strip e = (if has_value (el_type e) then e else e\<lparr>el_value := PUndefined\<rparr>)"

lemma strip_simps [simp]: "el_tag (strip e) = el_tag e" "el_type (strip e) = el_type e"
  "has_value (el_type e) \<Longrightarrow> el_value (strip e) = el_value e"
  by (simp_all add: strip_def)

fun elements :: "tlv_schema \<Rightarrow> tlv_value \<Rightarrow> TlvTag option \<Rightarrow> TlvStream"
and value_elements :: "tlv_field \<Rightarrow> tlv_value \<Rightarrow> TlvStream" where
  "elements (NumericSchema c k mn mx) v tag =
     (case v of VPrim p \<Rightarrow> (case numeric_typeLength k p of Some ty \<Rightarrow> [mk tag ty p] | None \<Rightarrow> []) | _ \<Rightarrow> [])"
| "elements (StringSchema k mn mx) v tag =
     (case string_length k v of
        Some n \<Rightarrow> (case v of VPrim p \<Rightarrow> [mk tag (string_typeLength k n) p] | _ \<Rightarrow> [])
      | None \<Rightarrow> [])"
| "elements BooleanSchema v tag = (case v of VPrim (PBool b) \<Rightarrow> [mk tag (TLBoolean b) PUndefined] | _ \<Rightarrow> [])"
| "elements (NullableSchema s) v tag = (if v = VNull then [mk tag TLNull PUndefined] else elements s v tag)"
| "elements (ArraySchema s mn mx) v tag =
     (case v of
        VArray vs \<Rightarrow> mk tag TLArray PUndefined # concat (map (\<lambda>x. elements s x None) vs) @ [mk None TLEndOfContainer PUndefined]
      | _ \<Rightarrow> [])"
| "elements (ObjectSchema k fs) v tag =
     (case v of
        VObject kvs \<Rightarrow>
          (let entries = map_of (map (\<lambda>f. (f_name f, \<lambda>v. value_elements f v)) fs) in
           mk tag (object_typeLength k) PUndefined #
           concat (map (\<lambda>(name, v). case entries name of None \<Rightarrow> [] | Some g \<Rightarrow> g v) kvs) @
           [mk None TLEndOfContainer PUndefined])
      | _ \<Rightarrow> [])"
| "elements AnySchema v tag = (case v of VStream es \<Rightarrow> map strip (assign_tag tag es) | _ \<Rightarrow> [])"
| "elements VoidSchema v tag = []"
| "elements NoArgumentsSchema v tag = []"
| "elements (WrapperSchema s wrap unwrap) v tag = (case wrap v of Inr u \<Rightarrow> elements s u tag | Inl e \<Rightarrow> [])"
| "value_elements (Field name i s opt rep fb mn mx) v =
     (if rep then (case v of VArray vs \<Rightarrow> concat (map (\<lambda>x. elements s x (Some (id_tag i))) vs) | _ \<Rightarrow> [])
      else elements s v (Some (id_tag i)))"

section \<open>Values that are given back\<close>

text \<open>
  A number is in canonical form: of type \<^verbatim>\<open>number\<close> where the schema or its size asks for one, a
  bigint otherwise.
\<close>

fun number_fits :: "num_class \<Rightarrow> num_kind \<Rightarrow> TlvPrimitive \<Rightarrow> bool" where
  "number_fits NumberSchema KUnsignedInt (PNum n) = (0 \<le> n \<and> n \<le> 2 ^ 53)"
| "number_fits LongNumberSchema KUnsignedInt (PNum n) = (0 \<le> n \<and> n < 2 ^ 32)"
| "number_fits LongNumberSchema KUnsignedInt (PBig n) = (2 ^ 32 \<le> n \<and> n < 2 ^ 64)"
| "number_fits NumberSchema KSignedInt (PNum n) = (- (2 ^ 53) \<le> n \<and> n \<le> 2 ^ 53)"
| "number_fits LongNumberSchema KSignedInt (PNum n) = (- (2 ^ 31) \<le> n \<and> n < 2 ^ 31)"
| "number_fits LongNumberSchema KSignedInt (PBig n) =
     (- (2 ^ 63) \<le> n \<and> n < 2 ^ 63 \<and> \<not> (- (2 ^ 31) \<le> n \<and> n < 2 ^ 31))"
| "number_fits _ KFloat (PFloat x) = single_ok x"
| "number_fits _ KDouble (PFloat x) = double_ok x"
| "number_fits _ _ _ = False"

definition string_fits :: "string_kind \<Rightarrow> tlv_value \<Rightarrow> bool" where
  "string_fits k v =
     (case k of
        KUtf8String \<Rightarrow> (case v of
            VPrim (PString s) \<Rightarrow> string_ok s \<and> fits_length (getUIntTlvLength (int (js_length s))) (length (fromString s))
          | _ \<Rightarrow> False)
      | KByteString \<Rightarrow> (case v of VPrim (PBytes b) \<Rightarrow> int (length b) \<le> 2 ^ 53 | _ \<Rightarrow> False))"

definition fields_ok :: "tlv_field list \<Rightarrow> bool" where
  "fields_ok fs \<longleftrightarrow> distinct (map f_name fs) \<and> distinct (map f_id fs) \<and> list_all (\<lambda>f. 0 \<le> f_id f \<and> f_id f < 256) fs"

text \<open>An object lists its properties in the order of the field definitions (any order, for a list).\<close>

definition in_field_order :: "tlv_field list \<Rightarrow> (string \<times> tlv_value) list \<Rightarrow> bool" where
  "in_field_order fs kvs \<longleftrightarrow>
     kvs = concat (map (\<lambda>f. case map_of kvs (f_name f) of None \<Rightarrow> [] | Some v \<Rightarrow> [(f_name f, v)]) fs)"

definition object_ok :: "object_kind \<Rightarrow> tlv_field list \<Rightarrow> (string \<times> tlv_value) list \<Rightarrow> bool" where
  "object_ok k fs kvs \<longleftrightarrow> fields_ok fs \<and> distinct (map fst kvs) \<and>
     list_all (\<lambda>(name, v). v \<noteq> VUndefined \<and> name \<in> f_name ` set fs) kvs \<and>
     (k = KStructure \<longrightarrow> in_field_order fs kvs)"

text \<open>
  A wrapped number need not be in canonical form when \<open>unwrap\<close> makes up for it: a node id is a bigint, a small one is read as
  a number and made a bigint again.
\<close>

fun number_wrapped :: "tlv_schema \<Rightarrow> (tlv_value \<Rightarrow> tlv_value result) \<Rightarrow> tlv_value \<Rightarrow> tlv_value \<Rightarrow> bool" where
  "number_wrapped (NumericSchema c k mn mx) unwrap (VPrim p) v =
     (case numeric_typeLength k p of
        Some ty \<Rightarrow> has_value ty \<and> type_ok ty \<and> prim_ok ty p \<and> TlvType ty = numeric_type k \<and>
          unwrap (VPrim (decode_number_value c p)) = Inr v \<and> unwrap (VPrim (decode_number_value c (prim_norm ty p))) = Inr v
      | None \<Rightarrow> False)"
| "number_wrapped _ _ _ _ = False"

lemma number_wrappedE:
  assumes "number_wrapped s unwrap u v"
  obtains c k mn mx p ty where "s = NumericSchema c k mn mx" "u = VPrim p" "numeric_typeLength k p = Some ty" "has_value ty" "type_ok ty"
    "prim_ok ty p" "TlvType ty = numeric_type k" "\<And>p'. p' = p \<or> p' = prim_norm ty p \<Longrightarrow> unwrap (VPrim (decode_number_value c p')) = Inr v"
    "\<And>tag. elements s u tag = [mk tag ty p]"
  using assms by (cases "(s, unwrap, u, v)" rule: number_wrapped.cases) (auto split: option.splits)

text \<open>
  \<open>K\<close> says which raw element streams are allowed as values of \<^verbatim>\<open>TlvAny\<close>.
\<close>

fun fits_with :: "(TlvStream \<Rightarrow> bool) \<Rightarrow> tlv_schema \<Rightarrow> tlv_value \<Rightarrow> bool"
and fits_field_with :: "(TlvStream \<Rightarrow> bool) \<Rightarrow> tlv_field \<Rightarrow> tlv_value option \<Rightarrow> bool" where
  "fits_with K (NumericSchema c k mn mx) v = (case v of VPrim p \<Rightarrow> number_fits c k p | _ \<Rightarrow> False)"
| "fits_with K (StringSchema k mn mx) v = string_fits k v"
| "fits_with K BooleanSchema v = (case v of VPrim (PBool _) \<Rightarrow> True | _ \<Rightarrow> False)"
| "fits_with K (NullableSchema s) v =
     (v = VNull \<or> (fits_with K s v \<and> el_type (hd (elements s v None)) \<noteq> TLNull \<and>
        (empty_is_null s \<longrightarrow> value_empty v = Inr False)))"
| "fits_with K (ArraySchema s mn mx) v = (case v of VArray vs \<Rightarrow> list_all (\<lambda>x. fits_with K s x) vs | _ \<Rightarrow> False)"
| "fits_with K (ObjectSchema k fs) v =
     (case v of VObject kvs \<Rightarrow> object_ok k fs kvs \<and> list_all (\<lambda>f. fits_field_with K f (map_of kvs (f_name f))) fs | _ \<Rightarrow> False)"
| "fits_with K AnySchema v = (case v of VStream es \<Rightarrow> K es | _ \<Rightarrow> False)"
| "fits_with K VoidSchema v = False"
| "fits_with K NoArgumentsSchema v = False"
| "fits_with K (WrapperSchema s wrap unwrap) v =
     (case wrap v of
        Inr u \<Rightarrow> fits_with K s u \<and> unwrap u = Inr v \<or> number_wrapped s unwrap u v
      | Inl _ \<Rightarrow> False)"
| "fits_field_with K (Field name i s opt rep fb mn mx) vo =
     (case vo of
        None \<Rightarrow> opt
      | Some v \<Rightarrow> if rep then (case v of VArray vs \<Rightarrow> vs \<noteq> [] \<and> list_all (\<lambda>x. fits_with K s x) vs | _ \<Rightarrow> False) else fits_with K s v)"

subsection \<open>Elements of fitting values\<close>

definition otag_ok :: "TlvTag option \<Rightarrow> bool" where
  "otag_ok tag \<longleftrightarrow> tag_ok tag \<and> tag_readable tag \<and> tag_norm tag = tag"

lemma otag_ok_None [simp]: "otag_ok None"
  by (simp add: otag_ok_def tag_ok_def tag_readable_def tag_norm_def tag_fields_def)

lemma otag_ok_id [simp]: "0 \<le> i \<Longrightarrow> i < 256 \<Longrightarrow> otag_ok (Some (id_tag i))"
  by (simp add: otag_ok_def tag_ok_def tag_readable_def tag_norm_def tag_fields_def id_tag_def)

definition elem_ok :: "TlvElement \<Rightarrow> bool" where
  "elem_ok e \<longleftrightarrow> type_ok (el_type e) \<and> otag_ok (el_tag e) \<and>
     (if has_value (el_type e) then prim_ok (el_type e) (el_value e) else el_value e = PUndefined)"

text \<open>
  The raw streams that are given back: the elements of one value, as a decoder produces them.
\<close>

fun container :: "TlvTypeLength \<Rightarrow> bool" where
  "container TLArray = True"
| "container TLStructure = True"
| "container TLList = True"
| "container _ = False"

lemma container_iff: "container ty \<longleftrightarrow> ty = TLArray \<or> ty = TLStructure \<or> ty = TLList"
  by (cases ty) simp_all

inductive tlv_item :: "TlvStream \<Rightarrow> bool" and tlv_items :: "TlvStream \<Rightarrow> bool" where
  item_single: "\<not> container (el_type e) \<Longrightarrow> el_type e \<noteq> TLEndOfContainer \<Longrightarrow> tlv_item [e]"
| item_container: "container (el_type e) \<Longrightarrow> tlv_items es \<Longrightarrow> el_type c = TLEndOfContainer \<Longrightarrow> tlv_item (e # es @ [c])"
| items_Nil: "tlv_items []"
| items_Cons: "tlv_item as \<Longrightarrow> tlv_items bs \<Longrightarrow> tlv_items (as @ bs)"

lemma tlv_item_nonempty: "tlv_item es \<Longrightarrow> es \<noteq> []"
  by (cases es rule: tlv_item.cases) auto

definition decoded_value :: "TlvElement \<Rightarrow> TlvPrimitive" where
  "decoded_value e =
     (case el_type e of
        TLNull \<Rightarrow> PNull
      | TLBoolean b \<Rightarrow> PBool b
      | ty \<Rightarrow> if has_value ty then prim_norm ty (el_value e) else PUndefined)"

definition elem_given :: "TlvElement \<Rightarrow> bool" where
  "elem_given e \<longleftrightarrow> elem_ok (strip e) \<and> el_value e = decoded_value e"

definition any_ok :: "TlvStream \<Rightarrow> bool" where
  "any_ok es \<longleftrightarrow> tlv_item es \<and> el_tag (hd es) = None \<and> list_all elem_given es"

text \<open>For writing the form of the values does not matter.\<close>

definition raw_ok :: "TlvStream \<Rightarrow> bool" where
  "raw_ok es \<longleftrightarrow> tlv_item es \<and> el_tag (hd es) = None \<and> list_all elem_ok (map strip es)"

lemma any_raw: "any_ok es \<Longrightarrow> raw_ok es"
  by (auto simp: any_ok_def raw_ok_def elem_given_def list_all_iff)

text \<open>An element stream does not keep the values of booleans apart from their type.\<close>

definition stream_kept :: "TlvStream \<Rightarrow> bool" where
  "stream_kept es \<longleftrightarrow> any_ok es \<and> list_all (\<lambda>e. \<forall>b. el_type e \<noteq> TLBoolean b) es"

abbreviation fits :: "tlv_schema \<Rightarrow> tlv_value \<Rightarrow> bool" where "fits \<equiv> fits_with stream_kept"

abbreviation fits_raw :: "tlv_schema \<Rightarrow> tlv_value \<Rightarrow> bool" where "fits_raw \<equiv> fits_with raw_ok"

abbreviation fits_bytes :: "tlv_schema \<Rightarrow> tlv_value \<Rightarrow> bool" where "fits_bytes \<equiv> fits_with any_ok"

lemma assign_tag_ok:
  assumes "raw_ok es" and "otag_ok tag"
  shows "list_all elem_ok (map strip (assign_tag tag es))"
proof (cases es)
  case (Cons e es')
  with assms have "elem_ok (strip e)" "list_all elem_ok (map strip es')" by (simp_all add: raw_ok_def)
  moreover from this(1) assms(2) have "elem_ok (strip (e\<lparr>el_tag := Some t\<rparr>))" if "tag = Some t" for t
    using that by (auto simp: elem_ok_def strip_def)
  ultimately show ?thesis using Cons by (cases tag) simp_all
qed (cases tag; simp)

lemma number_elem_ok:
  assumes "number_fits c k p"
  shows "\<exists>ty. numeric_typeLength k p = Some ty \<and> has_value ty \<and> type_ok ty \<and> prim_ok ty p \<and>
    TlvType ty = numeric_type k \<and> ty \<noteq> TLNull \<and> ty \<noteq> TLEndOfContainer \<and>
    (\<forall>p'. p' = p \<or> p' = prim_norm ty p \<longrightarrow> decode_number_value c p' = p)"
  using assms
  by (cases "(c, k, p)" rule: number_fits.cases)
    (auto simp: numeric_typeLength_def numeric_type_def decode_number_value_def toNumber_range
      getUIntTlvLength_def getIntTlvLength_def int_limit_defs split: if_splits num_class.splits)

lemma fits_length_bytes: "int n \<le> 2 ^ 53 \<Longrightarrow> fits_length (getUIntTlvLength (int n)) n"
  using getUIntTlvLength_fits [of "int n"] by (simp add: fits_length_def)

lemma string_elem_ok:
  assumes "string_fits k v"
  shows "\<exists>n p. string_length k v = Some n \<and> v = VPrim p \<and> has_value (string_typeLength k n) \<and>
    type_ok (string_typeLength k n) \<and> prim_ok (string_typeLength k n) p \<and> prim_norm (string_typeLength k n) p = p \<and>
    TlvType (string_typeLength k n) = string_type k \<and> string_typeLength k n \<noteq> TLNull \<and>
    string_typeLength k n \<noteq> TLEndOfContainer"
proof (cases k)
  case KUtf8String
  then obtain t where "v = VPrim (PString t)" "string_ok t"
      "fits_length (getUIntTlvLength (int (js_length t))) (length (fromString t))"
    using assms by (auto simp: string_fits_def split: tlv_value.splits TlvPrimitive.splits)
  with KUtf8String show ?thesis
    by (simp add: string_length_def string_typeLength_def string_type_def)
next
  case KByteString
  then obtain b where "v = VPrim (PBytes b)" "fits_length (getUIntTlvLength (int (length b))) (length b)"
    using assms fits_length_bytes by (auto simp: string_fits_def split: tlv_value.splits TlvPrimitive.splits)
  with KByteString show ?thesis
    by (simp add: string_length_def string_typeLength_def string_type_def)
qed

lemma assign_tag_type: "el_type (hd (map strip (assign_tag tag es))) = el_type (hd (map strip es))"
  by (cases tag; cases es) simp_all

lemma elements_first_type:
  "el_type (hd (elements s v tag)) = el_type (hd (elements s v None))"
  by (induction s arbitrary: v rule: tlv_schema.induct [where ?P2.0 = "\<lambda>_. True"])
    (auto simp: Let_def assign_tag_type split: tlv_value.splits TlvPrimitive.splits option.splits sum.splits)

lemma map_of_fields:
  assumes "distinct (map f_name fs)" and "f \<in> set fs"
  shows "map_of (map (\<lambda>f. (f_name f, g f)) fs) (f_name f) = Some (g f)"
  using assms by (induction fs) (auto simp: image_iff)

lemma map_of_ids:
  assumes "distinct (map f_id fs)" and "f \<in> set fs"
  shows "map_of (rev (map (\<lambda>f. (f_id f, g f)) fs)) (f_id f) = Some (g f)"
  using assms by (intro map_of_is_SomeI) (auto simp: rev_map [symmetric] comp_def)

text \<open>The entry of a property, as a property of the field it belongs to.\<close>

lemma field_of_name:
  assumes "object_ok k fs kvs" and "(name, v) \<in> set kvs"
  obtains f where "f \<in> set fs" "f_name f = name" "map_of kvs (f_name f) = Some v" "v \<noteq> VUndefined"
proof -
  from assms obtain f where "f \<in> set fs" "f_name f = name" "v \<noteq> VUndefined"
    by (auto simp: object_ok_def list_all_iff)
  moreover have "map_of kvs name = Some v"
    using assms by (auto simp: object_ok_def intro: map_of_is_SomeI)
  ultimately show thesis using that by blast
qed

text \<open>The elements inside an object, property by property.\<close>

definition prop_elements :: "tlv_field list \<Rightarrow> string \<times> tlv_value \<Rightarrow> TlvStream" where
  "prop_elements fs nv =
     (case nv of (name, v) \<Rightarrow>
        (case map_of (map (\<lambda>f. (f_name f, \<lambda>v. value_elements f v)) fs) name of None \<Rightarrow> [] | Some g \<Rightarrow> g v))"

lemma elements_object:
  "elements (ObjectSchema k fs) (VObject kvs) tag =
     mk tag (object_typeLength k) PUndefined # concat (map (prop_elements fs) kvs) @ [mk None TLEndOfContainer PUndefined]"
  by (simp add: prop_elements_def [abs_def] Let_def)

lemma prop_elements_field:
  "fields_ok fs \<Longrightarrow> f \<in> set fs \<Longrightarrow> prop_elements fs (f_name f, v) = value_elements f v"
  using map_of_fields [of fs f "\<lambda>f v. value_elements f v"] by (simp add: prop_elements_def fields_ok_def)

lemma elements_in_field_order:
  assumes "fields_ok fs" and "in_field_order fs kvs"
  shows "concat (map (prop_elements fs) kvs) =
    concat (map (\<lambda>f. case map_of kvs (f_name f) of None \<Rightarrow> [] | Some v \<Rightarrow> value_elements f v) fs)"
proof -
  have "concat (map (prop_elements fs) (concat (map (\<lambda>f. case m (f_name f) of None \<Rightarrow> [] | Some v \<Rightarrow> [(f_name f, v)]) gs))) =
      concat (map (\<lambda>f. case m (f_name f) of None \<Rightarrow> [] | Some v \<Rightarrow> value_elements f v) gs)"
    if "set gs \<subseteq> set fs" for m :: "string \<Rightarrow> tlv_value option" and gs
    using that assms(1) by (induction gs) (auto simp: prop_elements_field split: option.splits)
  from this [of fs "map_of kvs"] show ?thesis
    using assms(2) unfolding in_field_order_def by simp
qed

lemma assign_tag_nonempty: "raw_ok es \<Longrightarrow> assign_tag tag es \<noteq> []"
  by (cases tag; cases es) (auto simp: raw_ok_def dest: tlv_item_nonempty)

lemma elements_nonempty: "fits_raw s v \<Longrightarrow> elements s v tag \<noteq> []"
proof (induction s arbitrary: v rule: tlv_schema.induct [where ?P2.0 = "\<lambda>_. True"])
  case (NumericSchema c k mn mx)
  then show ?case using number_elem_ok by (fastforce split: tlv_value.splits)
next
  case (StringSchema k mn mx)
  then show ?case using string_elem_ok [of k v] by auto
qed (auto simp: Let_def assign_tag_nonempty elim!: number_wrappedE split: tlv_value.splits TlvPrimitive.splits sum.splits)

text \<open>More streams, more values.\<close>

lemma fits_with_mono:
  assumes "\<And>es. K es \<Longrightarrow> K' es"
  shows "fits_with K s v \<Longrightarrow> fits_with K' s v"
proof (induction s arbitrary: v rule: tlv_schema.induct
    [where ?P2.0 = "\<lambda>f. \<forall>vo. fits_field_with K f vo \<longrightarrow> fits_field_with K' f vo"])
  case (ObjectSchema k fs)
  then show ?case by (auto simp: list_all_iff split: tlv_value.splits)
next
  case (Field name i s opt rep fb mn mx)
  then show ?case by (auto simp: list_all_iff split: tlv_value.splits option.splits)
qed (auto simp: assms list_all_iff split: tlv_value.splits sum.splits)

lemma fits_fits_bytes: "fits s v \<Longrightarrow> fits_bytes s v"
  by (erule fits_with_mono [rotated]) (simp add: stream_kept_def)

lemma fits_bytes_raw: "fits_bytes s v \<Longrightarrow> fits_raw s v"
  by (erule fits_with_mono [rotated]) (rule any_raw)

lemma fits_fits_raw: "fits s v \<Longrightarrow> fits_raw s v"
  by (rule fits_bytes_raw [OF fits_fits_bytes])

lemma length_concat_nonempty: "(\<And>x. x \<in> set xs \<Longrightarrow> g x \<noteq> []) \<Longrightarrow> length xs \<le> length (concat (map g xs))"
proof (induction xs)
  case (Cons x xs)
  obtain y ys where "g x = y # ys" using Cons.prems [of x] by (cases "g x") auto
  with Cons show ?case by simp
qed simp

text \<open>Properties of objects under construction.\<close>

lemma set_prop_append: "name \<notin> fst ` set kvs \<Longrightarrow> set_prop kvs name v = kvs @ [(name, v)]"
  by (induction kvs) auto

lemma set_prop_last: "name \<notin> fst ` set kvs \<Longrightarrow> set_prop (kvs @ [(name, u)]) name v = kvs @ [(name, v)]"
  by (induction kvs) auto

lemma get_prop_last: "name \<notin> fst ` set kvs \<Longrightarrow> get_prop (kvs @ [(name, u)]) name = u"
  by (simp add: get_prop_def map_add_def map_of_eq_None_iff [symmetric] del: not_None_eq)

lemma get_prop_absent: "name \<notin> fst ` set kvs \<Longrightarrow> get_prop kvs name = VUndefined"
  by (simp add: get_prop_def map_of_eq_None_iff [symmetric])

lemma apply_fallback_id:
  assumes "\<And>f. f \<in> set fs \<Longrightarrow> f_optional f \<or> get_prop kvs (f_name f) \<noteq> VUndefined"
  shows "fold apply_fallback fs kvs = kvs"
  using assms by (induction fs) (auto simp: apply_fallback_def)

section \<open>What a transport provides\<close>

locale tlv_transport =
  fixes W :: "'w TlvWriter"
    and R :: "'r TlvReader"
    and wrote :: "'w \<Rightarrow> TlvStream \<Rightarrow> bool"
    and delivers :: "'r \<Rightarrow> TlvStream \<Rightarrow> bool"
    and kept :: "TlvStream \<Rightarrow> bool"
  assumes write_tag: "wrote w es \<Longrightarrow> elem_ok e \<Longrightarrow> \<not> has_value (el_type e) \<Longrightarrow>
      \<exists>w'. wr_writeTag W (el_type e) (el_tag e) w = Inr w' \<and> wrote w' (es @ [e])"
    and write_prim: "wrote w es \<Longrightarrow> elem_ok e \<Longrightarrow> has_value (el_type e) \<Longrightarrow>
      \<exists>w' w''. wr_writeTag W (el_type e) (el_tag e) w = Inr w' \<and>
        wr_writePrimitive W (el_type e) (el_value e) w' = Inr w'' \<and> wrote w'' (es @ [e])"
    and read_tag: "delivers r (e # es) \<Longrightarrow> elem_ok e \<Longrightarrow> \<not> has_value (el_type e) \<Longrightarrow>
      \<exists>r'. rd_readTagType R r = Inr ((el_tag e, el_type e), r') \<and> delivers r' es"
    and read_prim: "delivers r (e # es) \<Longrightarrow> elem_ok e \<Longrightarrow> has_value (el_type e) \<Longrightarrow>
      \<exists>r' p r''. rd_readTagType R r = Inr ((el_tag e, el_type e), r') \<and>
        rd_readPrimitive R (el_type e) r' = Inr (p, r'') \<and>
        (p = el_value e \<or> p = prim_norm (el_type e) (el_value e)) \<and> delivers r'' es"
    and left_bound: "delivers r es \<Longrightarrow> length es \<le> rd_left R r"
    and kept_ok: "kept ks \<Longrightarrow> any_ok ks"
    and read_bool: "kept ks \<Longrightarrow> k \<in> set ks \<Longrightarrow> el_type k = TLBoolean b \<Longrightarrow> delivers r (e # es) \<Longrightarrow> elem_ok e \<Longrightarrow>
      el_type e = TLBoolean b \<Longrightarrow> \<exists>r' r''. rd_readTagType R r = Inr ((el_tag e, el_type e), r') \<and>
        rd_readPrimitive R (el_type e) r' = Inr (PBool b, r'') \<and> delivers r'' es"
begin

lemma write_tag_mk:
  assumes "wrote w es" and "otag_ok tag" and "type_ok ty" and "\<not> has_value ty"
  shows "\<exists>w'. wr_writeTag W ty tag w = Inr w' \<and> wrote w' (es @ [mk tag ty PUndefined])"
  using write_tag [OF assms(1), of "mk tag ty PUndefined"] assms(2-4) by (simp add: elem_ok_def)

lemma write_value_mk:
  assumes "wrote w es" and "otag_ok tag" and "type_ok ty" and "has_value ty" and "prim_ok ty p"
  shows "\<exists>w'. write_value W ty tag p w = Inr w' \<and> wrote w' (es @ [mk tag ty p])"
  using write_prim [OF assms(1), of "mk tag ty p"] assms(2-5) by (auto simp: elem_ok_def write_value_def)

lemma read_tag_mk:
  assumes "delivers r (mk tag ty PUndefined # es)" and "otag_ok tag" and "type_ok ty" and "\<not> has_value ty"
  shows "\<exists>r'. rd_readTagType R r = Inr ((tag, ty), r') \<and> delivers r' es"
  using read_tag [OF assms(1)] assms(2-4) by (simp add: elem_ok_def)

lemma read_value_mk:
  assumes "delivers r (mk tag ty p # es)" and "otag_ok tag" and "type_ok ty" and "has_value ty" and "prim_ok ty p"
  shows "\<exists>r' p' r''. rd_readTagType R r = Inr ((tag, ty), r') \<and> rd_readPrimitive R ty r' = Inr (p', r'') \<and>
    (p' = p \<or> p' = prim_norm ty p) \<and> delivers r'' es"
  using read_prim [OF assms(1)] assms(2-5) by (simp add: elem_ok_def)

lemma nonempty: "fits_with kept s v \<Longrightarrow> elements s v tag \<noteq> []"
  by (rule elements_nonempty [OF fits_with_mono [OF any_raw [OF kept_ok]]])

subsection \<open>Encoding\<close>

lemma rfold_writes:
  assumes "\<And>x w es. x \<in> set xs \<Longrightarrow> wrote w es \<Longrightarrow> \<exists>w'. f x w = Inr w' \<and> wrote w' (es @ g x)" and "wrote w es"
  shows "\<exists>w'. rfold f xs w = Inr w' \<and> wrote w' (es @ concat (map g xs))"
  using assms
proof (induction xs arbitrary: w es)
  case Nil
  then show ?case by simp
next
  case (Cons x xs)
  obtain w1 where "f x w = Inr w1" "wrote w1 (es @ g x)" using Cons.prems(1) [of x w es] Cons.prems(2) by auto
  moreover obtain w2 where "rfold f xs w1 = Inr w2" "wrote w2 ((es @ g x) @ concat (map g xs))"
    using Cons.IH [OF _ \<open>wrote w1 (es @ g x)\<close>] Cons.prems(1) by auto
  ultimately show ?case by simp
qed

text \<open>An entry of an object, given the claim for the schema of its field.\<close>

lemma encode_entry:
  assumes "\<And>v tag fw w es. fits_raw (f_schema f) v \<Longrightarrow> otag_ok tag \<Longrightarrow> wrote w es \<Longrightarrow>
      \<exists>w'. encodeTlvInternal W (f_schema f) v tag fw w = Inr w' \<and> wrote w' (es @ elements (f_schema f) v tag)"
    and "0 \<le> f_id f" and "f_id f < 256" and "fits_field_with raw_ok f (map_of kvs (f_name f))"
    and "map_of kvs (f_name f) \<noteq> Some VUndefined" and "wrote w es"
  shows "\<exists>w'. encodeEntryToTlv W f kvs fw w = Inr w' \<and>
    wrote w' (es @ (case map_of kvs (f_name f) of None \<Rightarrow> [] | Some v \<Rightarrow> value_elements f v))"
proof -
  obtain name i s opt rep fb mn mx where f: "f = Field name i s opt rep fb mn mx" by (cases f)
  have tag: "otag_ok (Some (id_tag i))" using assms(2,3) f by simp
  show ?thesis
  proof (cases "map_of kvs name")
    case None
    with assms(4,6) f show ?thesis by (simp add: get_prop_def)
  next
    case (Some v)
    show ?thesis
    proof (cases rep)
      case True
      then obtain vs where v: "v = VArray vs" "list_all (\<lambda>x. fits_raw s x) vs"
        using assms(4) Some f by (auto split: tlv_value.splits)
      have "\<exists>w'. rfold (\<lambda>x w. encodeTlvInternal W s x (Some (id_tag i)) fw w) vs w = Inr w' \<and>
          wrote w' (es @ concat (map (\<lambda>x. elements s x (Some (id_tag i))) vs))"
        using assms(1) [OF _ tag] v(2) f by (intro rfold_writes [OF _ assms(6)]) (auto simp: list_all_iff)
      with True Some v(1) f show ?thesis by (simp add: get_prop_def)
    next
      case False
      with assms(1) [OF _ tag assms(6), of v fw] assms(4,5) Some f show ?thesis by (simp add: get_prop_def)
    qed
  qed
qed

lemma encode_properties:
  assumes "\<And>f v tag fw w es. f \<in> set fs \<Longrightarrow> fits_raw (f_schema f) v \<Longrightarrow> otag_ok tag \<Longrightarrow> wrote w es \<Longrightarrow>
      \<exists>w'. encodeTlvInternal W (f_schema f) v tag fw w = Inr w' \<and> wrote w' (es @ elements (f_schema f) v tag)"
    and ok: "object_ok k fs kvs" and fits: "list_all (\<lambda>f. fits_field_with raw_ok f (map_of kvs (f_name f))) fs" and "wrote w es"
  shows "\<exists>w'. (if k = KStructure then rfold (\<lambda>f w. encodeEntryToTlv W f kvs fw w) fs w
      else let entries = map (\<lambda>f. (f_name f, \<lambda>w. encodeEntryToTlv W f kvs fw w)) fs; names = map fst kvs in
        rbind (rfold (\<lambda>name w. case map_of entries name of None \<Rightarrow> Inl TypeError | Some e \<Rightarrow> e w) names w) (\<lambda>w.
        rfold (\<lambda>f w. if f_name f \<in> set names then Inr w else encodeEntryToTlv W f kvs fw w) fs w)) = Inr w' \<and>
    wrote w' (es @ concat (map (prop_elements fs) kvs))"
proof -
  have fs: "fields_ok fs" using ok by (simp add: object_ok_def)
  have defined: "map_of kvs n \<noteq> Some VUndefined" for n
    using ok by (auto simp: object_ok_def list_all_iff dest: map_of_SomeD)
  have entry: "\<exists>w'. encodeEntryToTlv W f kvs fw w = Inr w' \<and>
      wrote w' (es @ (case map_of kvs (f_name f) of None \<Rightarrow> [] | Some v \<Rightarrow> value_elements f v))"
    if "f \<in> set fs" "wrote w es" for f w es
    using that fits fs defined assms(1) [OF that(1)]
    by (intro encode_entry) (auto simp: fields_ok_def list_all_iff)
  show ?thesis
  proof (cases "k = KStructure")
    case True
    then have "in_field_order fs kvs" using ok by (simp add: object_ok_def)
    with True rfold_writes [OF entry assms(4)] show ?thesis
      by (simp add: elements_in_field_order [OF fs])
  next
    case False
    let ?entries = "map (\<lambda>f. (f_name f, \<lambda>w. encodeEntryToTlv W f kvs fw w)) fs"
    let ?step = "\<lambda>name w. case map_of ?entries name of None \<Rightarrow> Inl TypeError | Some e \<Rightarrow> e w"
    have step: "\<exists>w'. rfold ?step (map fst kvs) w = Inr w' \<and>
        wrote w' (es @ concat (map (\<lambda>n. prop_elements fs (n, the (map_of kvs n))) (map fst kvs)))"
    proof (rule rfold_writes [OF _ assms(4)])
      fix n w es
      assume "n \<in> set (map fst kvs)" and w: "wrote w es"
      then obtain v where "(n, v) \<in> set kvs" by auto
      then obtain f where f: "f \<in> set fs" "f_name f = n" "map_of kvs n = Some v"
        using field_of_name [OF ok] by metis
      have "map_of ?entries n = Some (\<lambda>w. encodeEntryToTlv W f kvs fw w)"
        using map_of_fields [of fs f] f fs by (auto simp: fields_ok_def)
      with entry [OF f(1) w] f prop_elements_field [OF fs f(1), of v]
      show "\<exists>w'. ?step n w = Inr w' \<and> wrote w' (es @ prop_elements fs (n, the (map_of kvs n)))" by simp
    qed
    have names: "map (\<lambda>n. prop_elements fs (n, the (map_of kvs n))) (map fst kvs) = map (prop_elements fs) kvs"
      using ok by (auto simp: object_ok_def intro: map_of_is_SomeI)
    obtain w1 where w1: "rfold ?step (map fst kvs) w = Inr w1" "wrote w1 (es @ concat (map (prop_elements fs) kvs))"
      using step unfolding names by blast
    have "\<exists>w'. rfold (\<lambda>f w. if f_name f \<in> set (map fst kvs) then Inr w else encodeEntryToTlv W f kvs fw w) fs w1 = Inr w' \<and>
        wrote w' ((es @ concat (map (prop_elements fs) kvs)) @ concat (map (\<lambda>_. []) fs))"
    proof (rule rfold_writes [OF _ w1(2)])
      fix f w es
      assume "f \<in> set fs" "wrote w es"
      then show "\<exists>w'. (if f_name f \<in> set (map fst kvs) then Inr w else encodeEntryToTlv W f kvs fw w) = Inr w' \<and>
          wrote w' (es @ [])"
        using entry [of f w es] map_of_eq_None_iff [of kvs "f_name f"]
        by (cases "f_name f \<in> set (map fst kvs)") auto
    qed
    moreover have "concat (map (\<lambda>_. []) fs) = ([] :: TlvStream)"
      by (induction fs) auto
    ultimately show ?thesis using False w1(1) by simp
  qed
qed

text \<open>A raw stream, element by element.\<close>

lemma encode_any_element_writes:
  assumes "elem_ok (strip e)" and "wrote w es"
  shows "\<exists>w'. encode_any_element W e w = Inr w' \<and> wrote w' (es @ [strip e])"
  using write_tag [OF assms(2,1)] write_prim [OF assms(2,1)] assms(1)
  by (cases "el_type e") (auto simp: encode_any_element_def elem_ok_def)

lemma encode_any_writes:
  assumes "list_all elem_ok (map strip ks)" and "wrote w es"
  shows "\<exists>w'. rfold (encode_any_element W) ks w = Inr w' \<and> wrote w' (es @ map strip ks)"
  using rfold_writes [OF encode_any_element_writes assms(2), of ks] assms(1) by (simp add: list_all_iff concat_map_singleton)

lemma encode_elements:
  "fits_raw s v \<Longrightarrow> otag_ok tag \<Longrightarrow> wrote w es \<Longrightarrow>
     \<exists>w'. encodeTlvInternal W s v tag fw w = Inr w' \<and> wrote w' (es @ elements s v tag)"
proof (induction s arbitrary: v tag fw w es
    rule: tlv_schema.induct [where ?P2.0 = "\<lambda>f. \<forall>v tag fw w es. fits_raw (f_schema f) v \<longrightarrow> otag_ok tag \<longrightarrow> wrote w es \<longrightarrow>
      (\<exists>w'. encodeTlvInternal W (f_schema f) v tag fw w = Inr w' \<and> wrote w' (es @ elements (f_schema f) v tag))"])
  case (NumericSchema c k mn mx)
  then obtain p where p: "v = VPrim p" "number_fits c k p" by (auto split: tlv_value.splits)
  with number_elem_ok [OF p(2)] write_value_mk [OF NumericSchema.prems(3,2)] show ?case by fastforce
next
  case (StringSchema k mn mx)
  with string_elem_ok [of k v] write_value_mk [OF StringSchema.prems(3,2)] show ?case by fastforce
next
  case BooleanSchema
  with write_tag_mk [OF BooleanSchema(3,2)] show ?case
    by (auto split: tlv_value.splits TlvPrimitive.splits)
next
  case (NullableSchema s)
  with write_tag_mk [OF NullableSchema.prems(3,2), of TLNull] show ?case by auto
next
  case (ArraySchema s mn mx)
  then obtain vs where v: "v = VArray vs" "list_all (\<lambda>x. fits_raw s x) vs" by (auto split: tlv_value.splits)
  obtain w1 where w1: "wr_writeTag W TLArray tag w = Inr w1" "wrote w1 (es @ [mk tag TLArray PUndefined])"
    using write_tag_mk [OF ArraySchema.prems(3,2), of TLArray] by auto
  obtain w2 where w2: "rfold (\<lambda>x w. encodeTlvInternal W s x None fw w) vs w1 = Inr w2"
      "wrote w2 ((es @ [mk tag TLArray PUndefined]) @ concat (map (\<lambda>x. elements s x None) vs))"
    using rfold_writes [OF _ w1(2), of vs "\<lambda>x w. encodeTlvInternal W s x None fw w" "\<lambda>x. elements s x None"]
      ArraySchema.IH v(2) by (auto simp: list_all_iff)
  show ?case
    using write_tag_mk [OF w2(2), of None TLEndOfContainer] v(1) w1(1) w2(1) by auto
next
  case (ObjectSchema k fs)
  then obtain kvs where v: "v = VObject kvs" "object_ok k fs kvs" "list_all (\<lambda>f. fits_field_with raw_ok f (map_of kvs (f_name f))) fs"
    by (auto split: tlv_value.splits)
  have ty: "type_ok (object_typeLength k)" "\<not> has_value (object_typeLength k)"
    by (simp_all add: object_typeLength_def split: object_kind.split)
  obtain w1 where w1: "wr_writeTag W (object_typeLength k) tag w = Inr w1"
      "wrote w1 (es @ [mk tag (object_typeLength k) PUndefined])"
    using write_tag_mk [OF ObjectSchema.prems(3,2) ty] by auto
  obtain w2 where w2: "(if k = KStructure then rfold (\<lambda>f w. encodeEntryToTlv W f kvs fw w) fs w1
      else let entries = map (\<lambda>f. (f_name f, \<lambda>w. encodeEntryToTlv W f kvs fw w)) fs; names = map fst kvs in
        rbind (rfold (\<lambda>name w. case map_of entries name of None \<Rightarrow> Inl TypeError | Some e \<Rightarrow> e w) names w1) (\<lambda>w.
        rfold (\<lambda>f w. if f_name f \<in> set names then Inr w else encodeEntryToTlv W f kvs fw w) fs w)) = Inr w2"
      "wrote w2 ((es @ [mk tag (object_typeLength k) PUndefined]) @ concat (map (prop_elements fs) kvs))"
    using encode_properties [OF _ v(2,3) w1(2), of fw] ObjectSchema.hyps by blast
  obtain w3 where w3: "wr_writeTag W TLEndOfContainer None w2 = Inr w3"
      "wrote w3 (((es @ [mk tag (object_typeLength k) PUndefined]) @ concat (map (prop_elements fs) kvs)) @
        [mk None TLEndOfContainer PUndefined])"
    using write_tag_mk [OF w2(2), of None TLEndOfContainer] by auto
  have "encodeTlvInternal W (ObjectSchema k fs) v tag fw w = Inr w3"
    unfolding v(1) encodeTlvInternal.simps tlv_value.case w1(1) rbind.simps w2(1) w3(1) ..
  with w3(2) show ?case
    unfolding v(1) elements_object by simp
next
  case (WrapperSchema s wrap unwrap)
  then obtain u where u: "wrap v = Inr u" "fits_raw s u \<or> number_wrapped s unwrap u v" by (auto split: sum.splits)
  from u(2) show ?case
  proof
    assume "number_wrapped s unwrap u v"
    then show ?thesis
      using u(1) write_value_mk [OF WrapperSchema.prems(3,2)] by (elim number_wrappedE) simp
  qed (use WrapperSchema u(1) in auto)
next
  case AnySchema
  then obtain ks where "v = VStream ks" "raw_ok ks" by (auto split: tlv_value.splits)
  with AnySchema(2,3) encode_any_writes [OF assign_tag_ok] show ?case by (simp add: encode_any_def)
qed (auto)

subsection \<open>Decoding\<close>

text \<open>
  What decoding a value is to achieve: its tag and type come first, and its schema takes the
  rest of its elements.
\<close>

definition decodes :: "tlv_schema \<Rightarrow> tlv_value \<Rightarrow> bool" where
  "decodes s v \<longleftrightarrow> (\<forall>tag r rest n. otag_ok tag \<longrightarrow> delivers r (elements s v tag @ rest) \<longrightarrow>
     length (elements s v tag) \<le> n \<longrightarrow>
     (\<exists>r1 ty r2. rd_readTagType R r = Inr ((tag, ty), r1) \<and> ty = el_type (hd (elements s v None)) \<and>
        ty \<noteq> TLEndOfContainer \<and> decodeTlvInternalValue R n s ty r1 = Inr (v, r2) \<and> delivers r2 rest))"

lemma decodesD:
  assumes "decodes s v" and "otag_ok tag" and "delivers r (elements s v tag @ rest)" and "length (elements s v tag) \<le> n"
  obtains r1 ty r2 where "rd_readTagType R r = Inr ((tag, ty), r1)" "ty = el_type (hd (elements s v None))"
    "ty \<noteq> TLEndOfContainer" "decodeTlvInternalValue R n s ty r1 = Inr (v, r2)" "delivers r2 rest"
  using assms unfolding decodes_def by blast

lemma decode_array_elements:
  assumes "list_all (decodes s) vs"
    and "delivers r (concat (map (\<lambda>x. elements s x None) vs) @ mk None TLEndOfContainer PUndefined # rest)"
    and "length (concat (map (\<lambda>x. elements s x None) vs)) \<le> n" and "length vs < m"
  shows "\<exists>r'. decode_array_loop R (\<lambda>ty r. decodeTlvInternalValue R n s ty r) m acc r = Inr (acc @ vs, r') \<and> delivers r' rest"
  using assms
proof (induction vs arbitrary: acc r m)
  case Nil
  then obtain m' where "m = Suc m'" by (cases m) auto
  with read_tag_mk [of r None TLEndOfContainer rest] Nil.prems(2) show ?case by auto
next
  case (Cons v vs)
  then obtain m' where m: "m = Suc m'" by (cases m) auto
  let ?tail = "concat (map (\<lambda>x. elements s x None) vs) @ mk None TLEndOfContainer PUndefined # rest"
  have v: "decodes s v" and del: "delivers r (elements s v None @ ?tail)" and len: "length (elements s v None) \<le> n"
    using Cons.prems by simp_all
  obtain r1 ty r2 where r: "rd_readTagType R r = Inr ((None, ty), r1)" "ty \<noteq> TLEndOfContainer"
      "decodeTlvInternalValue R n s ty r1 = Inr (v, r2)" "delivers r2 ?tail"
    using decodesD [OF v otag_ok_None del len] by metis
  from Cons.IH [OF _ r(4), of m' "acc @ [v]"] Cons.prems m r show ?case by auto
qed

text \<open>The occurrences of a repeated field, one after the other.\<close>

lemma decode_repeated:
  assumes "list_all (decodes s) vs" and "otag_ok (Some (id_tag i))"
    and dec: "fieldById i = Some (name, True, \<lambda>ty r. decodeTlvInternalValue R n s ty r)"
    and "name \<notin> fst ` set done"
    and "delivers r (concat (map (\<lambda>x. elements s x (Some (id_tag i))) vs) @ rest)"
    and "length (concat (map (\<lambda>x. elements s x (Some (id_tag i))) vs)) \<le> n"
  shows "\<exists>r'. delivers r' rest \<and>
    (\<forall>m. decode_object_loop R fieldById (length vs + m) (done @ [(name, VArray us)]) r =
       decode_object_loop R fieldById m (done @ [(name, VArray (us @ vs))]) r')"
  using assms(1,5,6)
proof (induction vs arbitrary: us r)
  case Nil
  then show ?case by auto
next
  case (Cons v vs)
  let ?tail = "concat (map (\<lambda>x. elements s x (Some (id_tag i))) vs) @ rest"
  have "decodes s v" "delivers r (elements s v (Some (id_tag i)) @ ?tail)" "length (elements s v (Some (id_tag i))) \<le> n"
    using Cons.prems by simp_all
  then obtain r1 ty r2 where r: "rd_readTagType R r = Inr ((Some (id_tag i), ty), r1)" "ty \<noteq> TLEndOfContainer"
      "decodeTlvInternalValue R n s ty r1 = Inr (v, r2)" "delivers r2 ?tail"
    using decodesD [OF _ assms(2)] by metis
  have "decode_object_loop R fieldById (Suc (length vs + m)) (done @ [(name, VArray us)]) r =
      decode_object_loop R fieldById (length vs + m) (done @ [(name, VArray (us @ [v]))]) r2" for m
    using r assms(4) dec
    by (simp add: tag_fields_def id_tag_def store_field_def get_prop_last set_prop_last)
  with Cons.IH [OF _ r(4), of "us @ [v]"] Cons.prems show ?case by simp
qed

text \<open>The elements of one property.\<close>

lemma decode_property:
  assumes "f \<in> set fs" and "fields_ok fs" and "v \<noteq> VUndefined" and "fits_field_with kept f (Some v)"
    and "\<And>v. fits_with kept (f_schema f) v \<Longrightarrow> decodes (f_schema f) v"
    and fb: "fieldById = map_of (rev (map (\<lambda>f. (f_id f, f_name f, f_repeated f, \<lambda>ty r. field_decoder R n f ty r)) fs))"
    and "f_name f \<notin> fst ` set done" and "delivers r (value_elements f v @ rest)" and "length (value_elements f v) \<le> n"
  shows "\<exists>r' j. 0 < j \<and> j \<le> length (value_elements f v) \<and> delivers r' rest \<and>
    (\<forall>m. decode_object_loop R fieldById (j + m) done r = decode_object_loop R fieldById m (done @ [(f_name f, v)]) r')"
proof -
  obtain name i s opt rep fbk mn mx where f: "f = Field name i s opt rep fbk mn mx" by (cases f)
  have tag: "otag_ok (Some (id_tag i))" using assms(1,2) f by (auto simp: fields_ok_def list_all_iff)
  have look: "fieldById i = Some (name, rep, \<lambda>ty r. decodeTlvInternalValue R n s ty r)"
    using map_of_ids [of fs f "\<lambda>f. (f_name f, f_repeated f, \<lambda>ty r. field_decoder R n f ty r)"] assms(1,2) f
    unfolding fb fields_ok_def by (simp add: fun_eq_iff)
  show ?thesis
  proof (cases rep)
    case False
    then have "decodes s v" using assms(4,5) f by simp
    then obtain r1 ty r2 where r: "rd_readTagType R r = Inr ((Some (id_tag i), ty), r1)" "ty \<noteq> TLEndOfContainer"
        "decodeTlvInternalValue R n s ty r1 = Inr (v, r2)" "delivers r2 rest"
      using decodesD [OF _ tag, of s v r rest n] assms(8,9) f False by simp metis
    have "0 < length (value_elements f v)"
      using nonempty [of s v "Some (id_tag i)"] assms(4) f False by simp
    with r look False assms(7) f show ?thesis
      by (intro exI [of _ r2] exI [of _ 1]) (simp add: tag_fields_def id_tag_def store_field_def set_prop_append Suc_le_eq)
  next
    case True
    then obtain u vs where v: "v = VArray (u # vs)" "list_all (fits_with kept s) (u # vs)"
      using assms(4) f by (auto simp: neq_Nil_conv split: tlv_value.splits)
    then have d: "list_all (decodes s) (u # vs)"
      using assms(5) f by (auto simp: list_all_iff)
    let ?g = "\<lambda>x. elements s x (Some (id_tag i))"
    have "decodes s u" "delivers r (?g u @ concat (map ?g vs) @ rest)" "length (?g u) \<le> n" "length (concat (map ?g vs)) \<le> n"
      using d assms(8,9) f True v(1) by simp_all
    then obtain r1 ty r2 where r: "rd_readTagType R r = Inr ((Some (id_tag i), ty), r1)" "ty \<noteq> TLEndOfContainer"
        "decodeTlvInternalValue R n s ty r1 = Inr (u, r2)" "delivers r2 (concat (map ?g vs) @ rest)"
      using decodesD [OF _ tag] by metis
    have first: "decode_object_loop R fieldById (Suc m) done r = decode_object_loop R fieldById m (done @ [(name, VArray [u])]) r2" for m
      using r look True assms(7) f
      by (simp add: tag_fields_def id_tag_def store_field_def get_prop_absent set_prop_append)
    obtain r' where "delivers r' rest" "\<And>m. decode_object_loop R fieldById (length vs + m) (done @ [(name, VArray [u])]) r2 =
        decode_object_loop R fieldById m (done @ [(name, VArray ([u] @ vs))]) r'"
      using decode_repeated [of s vs i fieldById name n "done" r2 rest "[u]"] d tag look True assms(7) f r(4)
        \<open>length (concat (map ?g vs)) \<le> n\<close> by auto
    moreover have "Suc (length vs) \<le> length (value_elements f v)"
      using length_concat_nonempty [of "u # vs" ?g] nonempty [of s] v True f by (auto simp: list_all_iff)
    ultimately show ?thesis
      using first v(1) f by (intro exI [of _ r'] exI [of _ "Suc (length vs)"]) simp
  qed
qed

lemma decode_properties:
  assumes "\<And>f v. f \<in> set fs \<Longrightarrow> fits_with kept (f_schema f) v \<Longrightarrow> decodes (f_schema f) v" and "fields_ok fs"
    and "\<And>name v. (name, v) \<in> set kvs \<Longrightarrow> \<exists>f \<in> set fs. f_name f = name \<and> v \<noteq> VUndefined \<and> fits_field_with kept f (Some v)"
    and "distinct (map fst (done @ kvs))"
    and fb: "fieldById = map_of (rev (map (\<lambda>f. (f_id f, f_name f, f_repeated f, \<lambda>ty r. field_decoder R n f ty r)) fs))"
    and "delivers r (concat (map (prop_elements fs) kvs) @ mk None TLEndOfContainer PUndefined # rest)"
    and "length (concat (map (prop_elements fs) kvs)) \<le> n" and "length (concat (map (prop_elements fs) kvs)) < m"
  shows "\<exists>r'. decode_object_loop R fieldById m done r = Inr (done @ kvs, r') \<and> delivers r' rest"
  using assms(3,4,6-8)
proof (induction kvs arbitrary: "done" r m)
  case Nil
  then obtain m' where "m = Suc m'" by (cases m) auto
  with read_tag_mk [of r None TLEndOfContainer rest] Nil.prems(3) show ?case by auto
next
  case (Cons nv kvs)
  obtain name v where nv: "nv = (name, v)" by (cases nv)
  from Cons.prems(1) [of name v] obtain f where f: "f \<in> set fs" "f_name f = name" "v \<noteq> VUndefined" "fits_field_with kept f (Some v)"
    by (auto simp: nv)
  have pe: "prop_elements fs nv = value_elements f v"
    using prop_elements_field [OF assms(2) f(1)] f(2) nv by simp
  have "f_name f \<notin> fst ` set done"
    using Cons.prems(2) f(2) nv by auto
  moreover have "delivers r (value_elements f v @ concat (map (prop_elements fs) kvs) @ mk None TLEndOfContainer PUndefined # rest)"
    and "length (value_elements f v) \<le> n"
    using Cons.prems(3,4) pe by simp_all
  ultimately obtain r' j where j: "0 < j" "j \<le> length (value_elements f v)"
      "delivers r' (concat (map (prop_elements fs) kvs) @ mk None TLEndOfContainer PUndefined # rest)"
      "\<And>m. decode_object_loop R fieldById (j + m) done r = decode_object_loop R fieldById m (done @ [(f_name f, v)]) r'"
    using decode_property [OF f(1) assms(2) f(3,4) assms(1) [OF f(1)] fb] by metis
  have "j \<le> m" "length (concat (map (prop_elements fs) kvs)) < m - j"
    using j(2) Cons.prems(5) pe by simp_all
  with Cons.IH [of "done @ [nv]" r' "m - j"] Cons.prems(1,2,4) j(3) j(4) [of "m - j"] f(2) nv show ?case
    by (simp add: ball_Un)
qed

lemma decode_any_primitive:
  assumes "has_value ty"
  shows "decodeTlvValueRec R n ty es tag r =
    rbind (rd_readPrimitive R ty r) (\<lambda>(p, r). Inr (es @ [\<lparr>el_tag = tag, el_type = ty, el_value = p\<rparr>], r))"
  using assms by (cases ty) simp_all

text \<open>A raw stream: the recursion follows the nesting of its containers.\<close>

definition bools_kept :: "TlvStream \<Rightarrow> bool" where
  "bools_kept es \<longleftrightarrow> (\<forall>e \<in> set es. \<forall>b. el_type e = TLBoolean b \<longrightarrow> (\<exists>ks. kept ks \<and> (\<exists>k \<in> set ks. el_type k = TLBoolean b)))"

lemma bools_kept_simps [simp]:
  "bools_kept (as @ bs) \<longleftrightarrow> bools_kept as \<and> bools_kept bs" "bools_kept (e # as @ [c]) \<longleftrightarrow> bools_kept [e] \<and> bools_kept as \<and> bools_kept [c]"
  by (auto simp: bools_kept_def)

lemma decode_single:
  assumes "elem_given e" and "bools_kept [e]" and "\<not> container (el_type e)" and "el_type e \<noteq> TLEndOfContainer" and "otag_ok tag"
    and del: "delivers r (strip (e\<lparr>el_tag := tag\<rparr>) # rest)"
  shows "\<exists>r1 r2. rd_readTagType R r = Inr ((tag, el_type e), r1) \<and>
    decodeTlvValueRec R n (el_type e) acc t r1 = Inr (acc @ [e\<lparr>el_tag := t\<rparr>], r2) \<and> delivers r2 rest"
proof -
  have ok: "elem_ok (strip (e\<lparr>el_tag := tag\<rparr>))" and val: "el_value e = decoded_value e"
    using assms(1,5) by (auto simp: elem_given_def elem_ok_def strip_def)
  have same: "\<lparr>el_tag = t, el_type = el_type e, el_value = el_value e\<rparr> = e\<lparr>el_tag := t\<rparr>" by (cases e) simp
  show ?thesis
  proof (cases "has_value (el_type e)")
    case True
    then have norm: "prim_norm (el_type e) (el_value e) = el_value e"
      using val by (cases "el_type e") (simp_all add: decoded_value_def)
    have "strip (e\<lparr>el_tag := tag\<rparr>) = e\<lparr>el_tag := tag\<rparr>" using True by (simp add: strip_def)
    with read_prim [OF del ok] True norm obtain r1 r2 where "rd_readTagType R r = Inr ((tag, el_type e), r1)"
      "rd_readPrimitive R (el_type e) r1 = Inr (el_value e, r2)" "delivers r2 rest"
      by auto
    with same show ?thesis by (simp add: decode_any_primitive [OF True] del: decodeTlvValueRec.simps)
  next
    case False
    show ?thesis
    proof (cases "el_type e")
      case (TLBoolean b)
      then show ?thesis
        using assms(2) read_bool [OF _ _ _ del ok] val same by (fastforce simp: bools_kept_def decoded_value_def)
    next
      case TLNull
      then show ?thesis using read_tag [OF del ok] val same by (auto simp: decoded_value_def)
    qed (use False assms(3,4) ok in \<open>auto simp: elem_ok_def\<close>)
  qed
qed

lemma decode_items:
  "tlv_item es \<Longrightarrow> \<forall>r rest n acc tag t. list_all elem_given es \<longrightarrow> bools_kept es \<longrightarrow> otag_ok tag \<longrightarrow> length es \<le> n \<longrightarrow>
     delivers r (map strip ((hd es)\<lparr>el_tag := tag\<rparr> # tl es) @ rest) \<longrightarrow>
     (\<exists>r1 r2. rd_readTagType R r = Inr ((tag, el_type (hd es)), r1) \<and> el_type (hd es) \<noteq> TLEndOfContainer \<and>
        decodeTlvValueRec R n (el_type (hd es)) acc t r1 = Inr (acc @ (hd es)\<lparr>el_tag := t\<rparr> # tl es, r2) \<and> delivers r2 rest)"
  "tlv_items es \<Longrightarrow> \<forall>r rest n acc c. list_all elem_given (es @ [c]) \<longrightarrow> bools_kept es \<longrightarrow> el_type c = TLEndOfContainer \<longrightarrow>
     length es < n \<longrightarrow> delivers r (map strip (es @ [c]) @ rest) \<longrightarrow>
     (\<exists>r'. decode_any_loop R n acc r = Inr (acc @ es @ [c], r') \<and> delivers r' rest)"
proof (induction rule: tlv_item_tlv_items.inducts)
  case (item_single e)
  then show ?case using decode_single by simp
next
  case (item_container e es c)
  show ?case
  proof (intro allI impI)
    fix r rest n acc tag t
    assume given: "list_all elem_given (e # es @ [c])" and b: "bools_kept (e # es @ [c])" and tag: "otag_ok tag"
      and n: "length (e # es @ [c]) \<le> n"
      and del: "delivers r (map strip ((hd (e # es @ [c]))\<lparr>el_tag := tag\<rparr> # tl (e # es @ [c])) @ rest)"
    have ok: "elem_ok (strip (e\<lparr>el_tag := tag\<rparr>))" "\<not> has_value (el_type e)" "el_value e = PUndefined"
      using given tag item_container(1) by (auto simp: elem_given_def elem_ok_def strip_def container_iff decoded_value_def)
    obtain r1 where r1: "rd_readTagType R r = Inr ((tag, el_type e), r1)" "delivers r1 (map strip (es @ [c]) @ rest)"
      using read_tag [OF _ ok(1)] del ok(2) by force
    have "e\<lparr>el_tag := t\<rparr> = \<lparr>el_tag = t, el_type = el_type e, el_value = PUndefined\<rparr>" using ok(3) by (cases e) simp
    moreover obtain r2 where "decode_any_loop R n (acc @ [e\<lparr>el_tag := t\<rparr>]) r1 = Inr ((acc @ [e\<lparr>el_tag := t\<rparr>]) @ es @ [c], r2)"
      "delivers r2 rest"
      using item_container.IH [rule_format, where c = c and n = n and r = r1 and rest = rest and acc = "acc @ [e\<lparr>el_tag := t\<rparr>]"] given b item_container(3) n r1(2)
      by auto
    ultimately show "\<exists>r1 r2. rd_readTagType R r = Inr ((tag, el_type (hd (e # es @ [c]))), r1) \<and>
        el_type (hd (e # es @ [c])) \<noteq> TLEndOfContainer \<and>
        decodeTlvValueRec R n (el_type (hd (e # es @ [c]))) acc t r1 =
          Inr (acc @ (hd (e # es @ [c]))\<lparr>el_tag := t\<rparr> # tl (e # es @ [c]), r2) \<and> delivers r2 rest"
      using r1(1) item_container(1) by (auto simp: container_iff)
  qed
next
  case items_Nil
  show ?case
  proof (intro allI impI)
    fix r rest n acc c
    assume given: "list_all elem_given ([] @ [c])" and c: "el_type c = TLEndOfContainer" and n: "length [] < n"
      and del: "delivers r (map strip ([] @ [c]) @ rest)"
    have "elem_ok (strip c)" "el_value c = PUndefined" using given c by (auto simp: elem_given_def decoded_value_def)
    with read_tag [of r "strip c" rest] del c n
    show "\<exists>r'. decode_any_loop R n acc r = Inr (acc @ [] @ [c], r') \<and> delivers r' rest"
      by (cases c; cases n) auto
  qed
next
  case (items_Cons as bs)
  show ?case
  proof (intro allI impI)
    fix r rest n acc c
    assume given: "list_all elem_given ((as @ bs) @ [c])" and b: "bools_kept (as @ bs)" and c: "el_type c = TLEndOfContainer"
      and n: "length (as @ bs) < n" and del: "delivers r (map strip ((as @ bs) @ [c]) @ rest)"
    obtain a as' where as: "as = a # as'" using tlv_item_nonempty [OF items_Cons(1)] by (cases as) auto
    obtain n' where n': "n = Suc n'" "length as \<le> n'" "length bs < n'" using n as by (cases n) auto
    have bs: "bools_kept as" "bools_kept bs" using b by simp_all
    have "otag_ok (el_tag a)" using given as by (simp add: elem_given_def elem_ok_def)
    then obtain r1 r2 where r: "rd_readTagType R r = Inr ((el_tag a, el_type a), r1)" "el_type a \<noteq> TLEndOfContainer"
      "decodeTlvValueRec R n' (el_type a) acc (el_tag a) r1 = Inr (acc @ as, r2)" "delivers r2 (map strip (bs @ [c]) @ rest)"
      using items_Cons.IH(1) [rule_format, where tag = "el_tag a" and n = n' and r = r and rest = "map strip (bs @ [c]) @ rest"
          and acc = acc and t = "el_tag a"] given bs(1) del n'(2) as
      by (auto simp del: decodeTlvValueRec.simps)
    with items_Cons.IH(2) [rule_format, where c = c and n = n' and r = r2 and rest = rest and acc = "acc @ as"] given bs(2) c n'(1,3)
    show "\<exists>r'. decode_any_loop R n acc r = Inr (acc @ (as @ bs) @ [c], r') \<and> delivers r' rest"
      by (auto simp del: decodeTlvValueRec.simps)
  qed
qed

lemma decodes_any:
  assumes "kept es"
  shows "decodes AnySchema (VStream es)"
proof -
  have ok: "tlv_item es" "list_all elem_given es" "el_tag (hd es) = None" using kept_ok [OF assms] by (simp_all add: any_ok_def)
  then obtain e es' where es: "es = e # es'" "el_tag e = None" using tlv_item_nonempty by (cases es) auto
  then have none: "e\<lparr>el_tag := None\<rparr> = e" by (cases e) simp
  have assign: "assign_tag tag es = e\<lparr>el_tag := tag\<rparr> # es'" for tag using es none by (cases tag) simp_all
  have "bools_kept es" using assms by (auto simp: bools_kept_def)
  note read = decode_items(1) [OF ok(1), rule_format, OF ok(2) this, where acc = "[]" and t = None]
  show ?thesis
    unfolding decodes_def
  proof (intro allI impI)
    fix tag r rest n
    assume "otag_ok tag" "delivers r (elements AnySchema (VStream es) tag @ rest)" "length (elements AnySchema (VStream es) tag) \<le> n"
    then obtain r1 r2 where "rd_readTagType R r = Inr ((tag, el_type e), r1)" "el_type e \<noteq> TLEndOfContainer"
      "decodeTlvValueRec R n (el_type e) [] None r1 = Inr (es, r2)" "delivers r2 rest"
      using read [of tag n r rest] es(1) none assign [of tag] by (auto simp del: decodeTlvValueRec.simps)
    then show "\<exists>r1 ty r2. rd_readTagType R r = Inr ((tag, ty), r1) \<and> ty = el_type (hd (elements AnySchema (VStream es) None)) \<and>
        ty \<noteq> TLEndOfContainer \<and> decodeTlvInternalValue R n AnySchema ty r1 = Inr (VStream es, r2) \<and> delivers r2 rest"
      using es(1) by (simp add: decode_any_def del: decodeTlvValueRec.simps)
  qed
qed

lemma decodes_wrapped_number:
  assumes "number_wrapped s unwrap u v" and "wrap v = Inr u"
  shows "decodes (WrapperSchema s wrap unwrap) v"
proof -
  obtain c k mn mx p ty where w: "s = NumericSchema c k mn mx" "u = VPrim p" "numeric_typeLength k p = Some ty" "has_value ty" "type_ok ty"
    "prim_ok ty p" "TlvType ty = numeric_type k" "\<And>p'. p' = p \<or> p' = prim_norm ty p \<Longrightarrow> unwrap (VPrim (decode_number_value c p')) = Inr v"
    using assms(1) by (elim number_wrappedE) blast
  have "ty \<noteq> TLEndOfContainer" using w(4) by auto
  with w assms(2) show ?thesis
    unfolding decodes_def using read_value_mk [of _ _ ty p] by fastforce
qed

lemma fits_decodes: "fits_with kept s v \<Longrightarrow> decodes s v"
proof (induction s arbitrary: v rule: tlv_schema.induct
    [where ?P2.0 = "\<lambda>f. \<forall>v. fits_with kept (f_schema f) v \<longrightarrow> decodes (f_schema f) v"])
  case (NumericSchema c k mn mx)
  then obtain p ty where p: "v = VPrim p" "numeric_typeLength k p = Some ty" "has_value ty" "type_ok ty" "prim_ok ty p"
      "TlvType ty = numeric_type k" "ty \<noteq> TLEndOfContainer"
      "\<And>p'. p' = p \<or> p' = prim_norm ty p \<Longrightarrow> decode_number_value c p' = p"
    using number_elem_ok by (auto split: tlv_value.splits) metis
  show ?case
    unfolding decodes_def using read_value_mk [of _ _ ty p] p by fastforce
next
  case (StringSchema k mn mx)
  then obtain n p where p: "string_length k v = Some n" "v = VPrim p" "has_value (string_typeLength k n)"
      "type_ok (string_typeLength k n)" "prim_ok (string_typeLength k n) p" "prim_norm (string_typeLength k n) p = p"
      "TlvType (string_typeLength k n) = string_type k" "string_typeLength k n \<noteq> TLEndOfContainer"
    using string_elem_ok [of k v] by auto
  show ?case
    unfolding decodes_def using read_value_mk [of _ _ "string_typeLength k n" p] p by fastforce
next
  case BooleanSchema
  then obtain b where "v = VPrim (PBool b)" by (auto split: tlv_value.splits TlvPrimitive.splits)
  then show ?case
    unfolding decodes_def using read_tag_mk [of _ _ "TLBoolean b"] by fastforce
next
  case (WrapperSchema s wrap unwrap)
  then obtain u where u: "wrap v = Inr u" "fits_with kept s u \<and> unwrap u = Inr v \<or> number_wrapped s unwrap u v"
    by (auto split: sum.splits)
  from u(2) show ?case
  proof
    assume "fits_with kept s u \<and> unwrap u = Inr v"
    with WrapperSchema.IH [of u] u(1) show ?thesis
      unfolding decodes_def by fastforce
  next
    assume "number_wrapped s unwrap u v"
    then show ?thesis using u(1) by (rule decodes_wrapped_number)
  qed
next
  case (NullableSchema s)
  show ?case
  proof (cases "v = VNull")
    case True
    then show ?thesis
      unfolding decodes_def using read_tag_mk [of _ _ TLNull] by fastforce
  next
    case False
    with NullableSchema show ?thesis
      unfolding decodes_def by fastforce
  qed
next
  case (ArraySchema s mn mx)
  then obtain vs where v: "v = VArray vs" "list_all (decodes s) vs" "list_all (fits_with kept s) vs"
    by (auto simp: list_all_iff split: tlv_value.splits)
  have len: "length vs \<le> length (concat (map (\<lambda>x. elements s x None) vs))"
    using length_concat_nonempty [of vs "\<lambda>x. elements s x None"] nonempty v(3) by (auto simp: list_all_iff)
  show ?case
    unfolding decodes_def
  proof (intro allI impI)
    fix tag r rest n
    assume tag: "otag_ok tag" and del: "delivers r (elements (ArraySchema s mn mx) v tag @ rest)"
      and n: "length (elements (ArraySchema s mn mx) v tag) \<le> n"
    obtain r1 where r1: "rd_readTagType R r = Inr ((tag, TLArray), r1)"
        "delivers r1 (concat (map (\<lambda>x. elements s x None) vs) @ mk None TLEndOfContainer PUndefined # rest)"
      using read_tag_mk [of r tag TLArray] del tag v(1) by auto
    from decode_array_elements [OF v(2) r1(2), of n n "[]"] n len v(1) r1(1)
    show "\<exists>r1 ty r2. rd_readTagType R r = Inr ((tag, ty), r1) \<and> ty = el_type (hd (elements (ArraySchema s mn mx) v None)) \<and>
        ty \<noteq> TLEndOfContainer \<and> decodeTlvInternalValue R n (ArraySchema s mn mx) ty r1 = Inr (v, r2) \<and> delivers r2 rest"
      by auto
  qed
next
  case (ObjectSchema k fs)
  then obtain kvs where v: "v = VObject kvs" "object_ok k fs kvs" "list_all (\<lambda>f. fits_field_with kept f (map_of kvs (f_name f))) fs"
    by (auto split: tlv_value.splits)
  have ty: "type_ok (object_typeLength k)" "\<not> has_value (object_typeLength k)" "object_typeLength k \<noteq> TLEndOfContainer"
    by (simp_all add: object_typeLength_def split: object_kind.split)
  have fs: "fields_ok fs" "distinct (map fst kvs)" using v(2) by (simp_all add: object_ok_def)
  have props: "\<exists>f \<in> set fs. f_name f = name \<and> u \<noteq> VUndefined \<and> fits_field_with kept f (Some u)" if "(name, u) \<in> set kvs" for name u
    using field_of_name [OF v(2) that] v(3) by (metis list_all_iff)
  have present: "f_optional f \<or> get_prop kvs (f_name f) \<noteq> VUndefined" if "f \<in> set fs" for f
  proof (cases "map_of kvs (f_name f)")
    case None
    then show ?thesis using v(3) that by (cases f) (auto simp: list_all_iff)
  next
    case (Some u)
    then have "(f_name f, u) \<in> set kvs" by (rule map_of_SomeD)
    then show ?thesis using Some v(2) by (auto simp: get_prop_def object_ok_def list_all_iff)
  qed
  show ?case
    unfolding decodes_def
  proof (intro allI impI)
    fix tag r rest n
    assume tag: "otag_ok tag" and del: "delivers r (elements (ObjectSchema k fs) v tag @ rest)"
      and n: "length (elements (ObjectSchema k fs) v tag) \<le> n"
    obtain r1 where r1: "rd_readTagType R r = Inr ((tag, object_typeLength k), r1)"
        "delivers r1 (concat (map (prop_elements fs) kvs) @ mk None TLEndOfContainer PUndefined # rest)"
      using read_tag_mk [of r tag "object_typeLength k"] del tag ty
      unfolding v(1) elements_object by auto
    have n': "length (concat (map (prop_elements fs) kvs)) < n"
      using n unfolding v(1) elements_object by simp
    obtain r2 where r2: "decode_object_loop R (map_of (rev (map (\<lambda>f. (f_id f, f_name f, f_repeated f, \<lambda>ty r. field_decoder R n f ty r)) fs)))
        n [] r1 = Inr (kvs, r2)" "delivers r2 rest"
      using decode_properties [of fs kvs "[]" _ n r1 rest n, OF _ fs(1) props _ refl r1(2)] ObjectSchema.hyps fs(2) n' by auto
    show "\<exists>r1 ty r2. rd_readTagType R r = Inr ((tag, ty), r1) \<and> ty = el_type (hd (elements (ObjectSchema k fs) v None)) \<and>
        ty \<noteq> TLEndOfContainer \<and> decodeTlvInternalValue R n (ObjectSchema k fs) ty r1 = Inr (v, r2) \<and> delivers r2 rest"
      using r1(1) r2 ty(3) apply_fallback_id [OF present] unfolding v(1) elements_object by simp
  qed
next
  case AnySchema
  then show ?case using decodes_any by (auto split: tlv_value.splits)
qed auto

text \<open>Whatever is read next after a value is untouched, and the bound of the entry point is enough.\<close>

lemma decode_delivered:
  assumes "fits_with kept s v" and "delivers r (elements s v None @ rest)"
  shows "\<exists>r'. decodeTlvInternal R s r = Inr ((v, None), r') \<and> delivers r' rest"
proof -
  have "length (elements s v None) \<le> Suc (rd_left R r)"
    using left_bound [OF assms(2)] by simp
  then obtain r1 ty r2 where "rd_readTagType R r = Inr ((None, ty), r1)"
      "decodeTlvInternalValue R (Suc (rd_left R r)) s ty r1 = Inr (v, r2)" "delivers r2 rest"
    using decodesD [OF fits_decodes [OF assms(1)] otag_ok_None assms(2)] by metis
  then show ?thesis
    by (simp add: decodeTlvInternal_def)
qed

end

section \<open>Element streams\<close>

definition array_delivers :: "TlvArrayReader \<Rightarrow> TlvStream \<Rightarrow> bool" where
  "array_delivers r es \<longleftrightarrow> drop (ar_next r) (ar_elements r) = es"

lemma array_readTagType_delivers:
  assumes "array_delivers r (e # es)"
  shows "array_readTagType r = Inr ((el_tag e, el_type e), r\<lparr>ar_next := ar_next r + 1\<rparr>) \<and>
    array_delivers (r\<lparr>ar_next := ar_next r + 1\<rparr>) es \<and>
    array_readPrimitive ty (r\<lparr>ar_next := ar_next r + 1\<rparr>) = Inr (el_value e, r\<lparr>ar_next := ar_next r + 1\<rparr>)"
proof -
  have d: "drop (ar_next r) (ar_elements r) = e # es" using assms by (simp add: array_delivers_def)
  then have "ar_next r < length (ar_elements r)"
    by (cases "ar_next r < length (ar_elements r)") simp_all
  moreover from d have "ar_elements r ! ar_next r = e"
    by (rule nth_via_drop)
  moreover have "drop (Suc (ar_next r)) (ar_elements r) = es"
    using arg_cong [OF d, of "drop 1"] by simp
  ultimately show ?thesis
    by (simp add: array_readTagType_def array_readElement_def array_delivers_def array_readPrimitive_def)
qed

interpretation stream: tlv_transport TlvArrayWriter ArrayReader "\<lambda>w es. w = es" array_delivers stream_kept
proof
  fix w es and e :: TlvElement
  show "w = es \<Longrightarrow> elem_ok e \<Longrightarrow> \<not> has_value (el_type e) \<Longrightarrow>
      \<exists>w'. wr_writeTag TlvArrayWriter (el_type e) (el_tag e) w = Inr w' \<and> w' = es @ [e]"
    by (cases e) (simp add: TlvArrayWriter_def array_writeTag_def elem_ok_def)
  show "w = es \<Longrightarrow> elem_ok e \<Longrightarrow> has_value (el_type e) \<Longrightarrow>
      \<exists>w' w''. wr_writeTag TlvArrayWriter (el_type e) (el_tag e) w = Inr w' \<and>
        wr_writePrimitive TlvArrayWriter (el_type e) (el_value e) w' = Inr w'' \<and> w'' = es @ [e]"
    by (cases e) (simp add: TlvArrayWriter_def array_writeTag_def array_writePrimitive_def)
next
  fix r es and e :: TlvElement
  show "array_delivers r (e # es) \<Longrightarrow> elem_ok e \<Longrightarrow> \<not> has_value (el_type e) \<Longrightarrow>
      \<exists>r'. rd_readTagType ArrayReader r = Inr ((el_tag e, el_type e), r') \<and> array_delivers r' es"
    using array_readTagType_delivers by (auto simp: ArrayReader_def)
  show "array_delivers r (e # es) \<Longrightarrow> elem_ok e \<Longrightarrow> has_value (el_type e) \<Longrightarrow>
      \<exists>r' p r''. rd_readTagType ArrayReader r = Inr ((el_tag e, el_type e), r') \<and>
        rd_readPrimitive ArrayReader (el_type e) r' = Inr (p, r'') \<and>
        (p = el_value e \<or> p = prim_norm (el_type e) (el_value e)) \<and> array_delivers r'' es"
    using array_readTagType_delivers by (auto simp: ArrayReader_def)
  show "array_delivers r es \<Longrightarrow> length es \<le> rd_left ArrayReader r"
    by (auto simp: array_delivers_def ArrayReader_def)
next
  fix ks :: TlvStream and k b
  show "stream_kept ks \<Longrightarrow> any_ok ks" by (simp add: stream_kept_def)
  show "stream_kept ks \<Longrightarrow> k \<in> set ks \<Longrightarrow> el_type k = TLBoolean b \<Longrightarrow>
      \<exists>r' r''. rd_readTagType ArrayReader r = Inr ((el_tag e, el_type e), r') \<and>
        rd_readPrimitive ArrayReader (el_type e) r' = Inr (PBool b, r'') \<and> array_delivers r'' es" for r e es
    by (auto simp: stream_kept_def list_all_iff)
qed

section \<open>Byte arrays\<close>

definition elem_bytes :: "TlvElement \<Rightarrow> byte list" where
  "elem_bytes e = tag_bytes (el_type e) (el_tag e) @ (if has_value (el_type e) then prim_bytes (el_type e) (el_value e) else [])"

definition bytes_wrote :: "DataWriter \<Rightarrow> TlvStream \<Rightarrow> bool" where
  "bytes_wrote w es \<longleftrightarrow> dw_littleEndian w \<and> dw_inv w \<and> dw_bytes w = concat (map elem_bytes es)"

definition bytes_delivers :: "DataReader \<Rightarrow> TlvStream \<Rightarrow> bool" where
  "bytes_delivers r es \<longleftrightarrow> dr_littleEndian r \<and> dr_inv r \<and> getRemainingBytes r = concat (map elem_bytes es)"

lemma length_elem_bytes: "length es \<le> length (concat (map elem_bytes es))"
  by (rule length_concat_nonempty) (simp add: elem_bytes_def tag_bytes_def)

interpretation bytes: tlv_transport TlvByteArrayWriter TlvByteArrayReader bytes_wrote bytes_delivers any_ok
proof
  fix w es e
  show "bytes_wrote w es \<Longrightarrow> elem_ok e \<Longrightarrow> \<not> has_value (el_type e) \<Longrightarrow>
      \<exists>w'. wr_writeTag TlvByteArrayWriter (el_type e) (el_tag e) w = Inr w' \<and> bytes_wrote w' (es @ [e])"
    using writeTag_bytes [of "el_type e" "el_tag e" w]
    by (auto simp: TlvByteArrayWriter_def bytes_wrote_def elem_bytes_def elem_ok_def otag_ok_def)
  show "bytes_wrote w es \<Longrightarrow> elem_ok e \<Longrightarrow> has_value (el_type e) \<Longrightarrow>
      \<exists>w' w''. wr_writeTag TlvByteArrayWriter (el_type e) (el_tag e) w = Inr w' \<and>
        wr_writePrimitive TlvByteArrayWriter (el_type e) (el_value e) w' = Inr w'' \<and> bytes_wrote w'' (es @ [e])"
  proof -
    assume w: "bytes_wrote w es" and e: "elem_ok e" "has_value (el_type e)"
    then obtain w' where w': "writeTag (el_type e) (el_tag e) w = Inr w'"
        "dw_bytes w' = concat (map elem_bytes es) @ tag_bytes (el_type e) (el_tag e)" "dw_littleEndian w'" "dw_inv w'"
      using writeTag_bytes [of "el_type e" "el_tag e" w] by (auto simp: bytes_wrote_def elem_ok_def otag_ok_def)
    with writePrimitive_bytes [of "el_type e" "el_value e" w'] e show ?thesis
      by (auto simp: TlvByteArrayWriter_def bytes_wrote_def elem_bytes_def elem_ok_def)
  qed
next
  fix r es e
  assume r: "bytes_delivers r (e # es)" and e: "elem_ok e"
  obtain r' where r': "readTagType r = Inr ((el_tag e, el_type e), r')" "dr_littleEndian r'" "dr_inv r'"
      "getRemainingBytes r' = (if has_value (el_type e) then prim_bytes (el_type e) (el_value e) else []) @ concat (map elem_bytes es)"
    using readTagType_bytes [of "el_type e" "el_tag e" r] r e
    by (auto simp: bytes_delivers_def elem_bytes_def elem_ok_def otag_ok_def)
  show "\<not> has_value (el_type e) \<Longrightarrow>
      \<exists>r'. rd_readTagType TlvByteArrayReader r = Inr ((el_tag e, el_type e), r') \<and> bytes_delivers r' es"
    using r' by (auto simp: TlvByteArrayReader_def bytes_delivers_def)
  show "has_value (el_type e) \<Longrightarrow>
      \<exists>r' p r''. rd_readTagType TlvByteArrayReader r = Inr ((el_tag e, el_type e), r') \<and>
        rd_readPrimitive TlvByteArrayReader (el_type e) r' = Inr (p, r'') \<and>
        (p = el_value e \<or> p = prim_norm (el_type e) (el_value e)) \<and> bytes_delivers r'' es"
    using r' readPrimitive_bytes [of "el_type e" "el_value e" r' "concat (map elem_bytes es)"] e
    by (auto simp: TlvByteArrayReader_def bytes_delivers_def elem_ok_def)
next
  fix r es
  show "bytes_delivers r es \<Longrightarrow> length es \<le> rd_left TlvByteArrayReader r"
    using length_elem_bytes [of es] by (simp add: bytes_delivers_def TlvByteArrayReader_def)
next
  fix r e es b
  assume r: "bytes_delivers r (e # es)" and e: "elem_ok e" "el_type e = TLBoolean b"
  then obtain r' where "readTagType r = Inr ((el_tag e, el_type e), r')" "dr_littleEndian r'" "dr_inv r'"
      "getRemainingBytes r' = concat (map elem_bytes es)"
    using readTagType_bytes [of "el_type e" "el_tag e" r]
    by (auto simp: bytes_delivers_def elem_bytes_def elem_ok_def otag_ok_def)
  with e(2) show "\<exists>r' r''. rd_readTagType TlvByteArrayReader r = Inr ((el_tag e, el_type e), r') \<and>
      rd_readPrimitive TlvByteArrayReader (el_type e) r' = Inr (PBool b, r'') \<and> bytes_delivers r'' es"
    by (simp add: TlvByteArrayReader_def bytes_delivers_def readPrimitive_def)
qed simp

section \<open>Decoding ends\<close>

text \<open>
  What makes the loops end: reading a tag uses something up, and reading a value gives nothing
  back.  \<open>rinv\<close> is the invariant of the reader.
\<close>

fun unwraps_ok :: "tlv_schema \<Rightarrow> bool" and unwraps_ok_field :: "tlv_field \<Rightarrow> bool" where
  "unwraps_ok (NullableSchema s) = unwraps_ok s"
| "unwraps_ok (ArraySchema s mn mx) = unwraps_ok s"
| "unwraps_ok (ObjectSchema k fs) = list_all (\<lambda>f. unwraps_ok_field f) fs"
| "unwraps_ok (WrapperSchema s wrap unwrap) =
     (unwraps_ok s \<and> (\<forall>v. wrap v \<noteq> Inl OutOfFuel \<and> unwrap v \<noteq> Inl OutOfFuel))"
| "unwraps_ok _ = True"
| "unwraps_ok_field (Field name i s opt rep fb mn mx) = unwraps_ok s"

lemma unwraps_ok_field_iff [simp]: "unwraps_ok_field f = unwraps_ok (f_schema f)"
  by (cases f) simp

locale tlv_source =
  fixes R :: "'r TlvReader"
    and rinv :: "'r \<Rightarrow> bool"
  assumes tag_progress: "rinv r \<Longrightarrow> rd_readTagType R r = Inr (x, r') \<Longrightarrow> rinv r' \<and> rd_left R r' < rd_left R r"
    and prim_progress: "rinv r \<Longrightarrow> rd_readPrimitive R ty r = Inr (p, r') \<Longrightarrow> rinv r' \<and> rd_left R r' \<le> rd_left R r"
    and tag_fuel: "rinv r \<Longrightarrow> rd_readTagType R r \<noteq> Inl OutOfFuel"
    and prim_fuel: "rinv r \<Longrightarrow> rd_readPrimitive R ty r \<noteq> Inl OutOfFuel"
begin

definition ends :: "'r \<Rightarrow> ('a \<times> 'r) result \<Rightarrow> bool" where
  "ends r x \<longleftrightarrow> (case x of Inl e \<Rightarrow> e \<noteq> OutOfFuel | Inr (_, r') \<Rightarrow> rinv r' \<and> rd_left R r' \<le> rd_left R r)"

lemma ends_Inr [simp]: "ends r (Inr (v, r')) \<longleftrightarrow> rinv r' \<and> rd_left R r' \<le> rd_left R r"
  by (simp add: ends_def)

lemma ends_Inl [simp]: "ends r (Inl e) \<longleftrightarrow> e \<noteq> OutOfFuel"
  by (simp add: ends_def)

lemma ends_bind:
  assumes "ends r x" and "\<And>v r'. x = Inr (v, r') \<Longrightarrow> rinv r' \<Longrightarrow> rd_left R r' \<le> rd_left R r \<Longrightarrow> ends r' (f (v, r'))"
  shows "ends r (rbind x f)"
proof (cases x)
  case (Inl e)
  with assms(1) show ?thesis by simp
next
  case (Inr y)
  then obtain v r' where "x = Inr (v, r')" by (cases y) simp
  with assms have "rinv r'" "rd_left R r' \<le> rd_left R r" "ends r' (f (v, r'))" by simp_all
  with \<open>x = Inr (v, r')\<close> show ?thesis
    by (auto simp: ends_def split: sum.splits)
qed

lemma ends_tag:
  assumes "rinv r" and "\<And>tag ty r'. rinv r' \<Longrightarrow> rd_left R r' < rd_left R r \<Longrightarrow> ends r' (f ((tag, ty), r'))"
  shows "ends r (rbind (rd_readTagType R r) f)"
proof (cases "rd_readTagType R r")
  case (Inl e)
  with tag_fuel [OF assms(1)] show ?thesis by auto
next
  case (Inr y)
  then obtain tag ty r' where y: "rd_readTagType R r = Inr ((tag, ty), r')" by (cases y) auto
  with tag_progress [OF assms(1) y] assms(2) have "rd_left R r' < rd_left R r" "ends r' (f ((tag, ty), r'))" by simp_all
  with y show ?thesis
    by (auto simp: ends_def split: sum.splits)
qed

lemma ends_prim:
  assumes "rinv r"
  shows "ends r (rd_readPrimitive R ty r)"
  using prim_fuel [OF assms] prim_progress [OF assms]
  by (cases "rd_readPrimitive R ty r") (auto simp: ends_def)

lemma value_rec_ends:
  assumes "rinv r" and "\<And>es. ends r (decode_any_loop R n es r)"
  shows "ends r (decodeTlvValueRec R n ty es tag r)"
  using assms by (cases ty) (auto intro!: ends_bind ends_prim)

lemma any_loop_ends: "rinv r \<Longrightarrow> rd_left R r < n \<Longrightarrow> ends r (decode_any_loop R n es r)"
proof (induction n arbitrary: r es)
  case 0
  then show ?case by simp
next
  case (Suc n)
  show ?case
    unfolding decode_any_loop.simps
  proof (rule ends_tag [OF Suc.prems(1)])
    fix tag ty r'
    assume r': "rinv r'" "rd_left R r' < rd_left R r"
    have "ends r' (decodeTlvValueRec R n ty es tag r')"
      using Suc r' by (intro value_rec_ends) auto
    then show "ends r' ((\<lambda>((tag, ty), r). rbind (decodeTlvValueRec R n ty es tag r) (\<lambda>(es, r).
        if ty = TLEndOfContainer then Inr (es, r) else decode_any_loop R n es r)) ((tag, ty), r'))"
      using Suc r' by (auto intro!: ends_bind)
  qed
qed

lemma decode_any_ends: "rinv r \<Longrightarrow> rd_left R r < n \<Longrightarrow> ends r (decode_any R n ty r)"
  unfolding decode_any_def by (intro value_rec_ends any_loop_ends)

lemma array_loop_ends:
  assumes "\<And>ty r. rinv r \<Longrightarrow> rd_left R r < n \<Longrightarrow> ends r (elem ty r)"
  shows "rinv r \<Longrightarrow> rd_left R r < m \<Longrightarrow> m \<le> n \<Longrightarrow> ends r (decode_array_loop R elem m acc r)"
proof (induction m arbitrary: r acc)
  case 0
  then show ?case by simp
next
  case (Suc m)
  show ?case
    unfolding decode_array_loop.simps
    by (rule ends_tag [OF Suc.prems(1)]) (use Suc assms in \<open>auto intro!: ends_bind\<close>)
qed

lemma object_loop_ends:
  assumes "\<And>i name rep dec ty r. fieldById i = Some (name, rep, dec) \<Longrightarrow> rinv r \<Longrightarrow> rd_left R r < n \<Longrightarrow> ends r (dec ty r)"
  shows "rinv r \<Longrightarrow> rd_left R r < m \<Longrightarrow> m \<le> n \<Longrightarrow> ends r (decode_object_loop R fieldById m result r)"
proof (induction m arbitrary: r result)
  case 0
  then show ?case by simp
next
  case (Suc m)
  have store: "store_field name rep v result \<noteq> Inl OutOfFuel" for name rep v result
    by (auto simp: store_field_def split: tlv_value.splits TlvPrimitive.splits)
  show ?case
    unfolding decode_object_loop.simps
  proof (rule ends_tag [OF Suc.prems(1)], clarify)
    fix tag ty r'
    assume r': "rinv r'" "rd_left R r' < rd_left R r"
    have any: "ends r' (rbind (decode_any R m ty r') (\<lambda>(_, r). decode_object_loop R fieldById m result r))"
      using Suc r' decode_any_ends [of r' m ty] by (auto intro!: ends_bind)
    have field: "ends r' (rbind (dec ty r') (\<lambda>(v, r). rbind (store_field name rep v result)
        (\<lambda>result. decode_object_loop R fieldById m result r)))" if "fieldById i = Some (name, rep, dec)" for i name rep dec
    proof (rule ends_bind)
      show "ends r' (dec ty r')" using assms [OF that] r' Suc.prems by auto
      fix v r''
      assume "rinv r''" "rd_left R r'' \<le> rd_left R r'"
      then have "ends r'' (decode_object_loop R fieldById m result' r'')" for result'
        using Suc r' by auto
      with store [of name rep v result]
      show "ends r'' ((\<lambda>(v, r). rbind (store_field name rep v result) (\<lambda>result. decode_object_loop R fieldById m result r)) (v, r''))"
        by (cases "store_field name rep v result") auto
    qed
    show "ends r' (if ty = TLEndOfContainer then Inr (result, r') else
        case tag_fields tag of (Some _, _) \<Rightarrow> Inl UnexpectedDataError | (None, None) \<Rightarrow> Inl UnexpectedDataError
        | (None, Some i) \<Rightarrow> (case fieldById i of
            None \<Rightarrow> rbind (decode_any R m ty r') (\<lambda>(_, r). decode_object_loop R fieldById m result r)
          | Some (name, rep, dec) \<Rightarrow> rbind (dec ty r') (\<lambda>(v, r). rbind (store_field name rep v result)
              (\<lambda>result. decode_object_loop R fieldById m result r))))"
      using r' any field by (auto split: prod.splits option.splits)
  qed
qed

text \<open>The functions of wrappers are given; they are asked not to report an exhausted bound themselves.\<close>

lemma value_decoder_ends:
  "unwraps_ok s \<Longrightarrow> rinv r \<Longrightarrow> rd_left R r < n \<Longrightarrow> ends r (decodeTlvInternalValue R n s ty r)"
proof (induction s arbitrary: ty r rule: tlv_schema.induct [where ?P2.0 = "\<lambda>f. \<forall>ty r. unwraps_ok (f_schema f) \<longrightarrow>
    rinv r \<longrightarrow> rd_left R r < n \<longrightarrow> ends r (field_decoder R n f ty r)"])
  case (NullableSchema s)
  have "value_empty v \<noteq> Inl OutOfFuel" for v by (cases v rule: value_empty.cases) auto
  then have "ends r' (rbind (value_empty v) (\<lambda>e. Inr (if e then VNull else v, r')))" if "rinv r'" for v r'
    using that by (cases "value_empty v") auto
  with NullableSchema show ?case by (auto intro!: ends_bind)
next
  case (ArraySchema s mn mx)
  then have "ends r (decode_array_loop R (\<lambda>ty r. decodeTlvInternalValue R n s ty r) n [] r)"
    by (intro array_loop_ends [of n]) auto
  then show ?case using ArraySchema.prems by (auto intro!: ends_bind)
next
  case (ObjectSchema k fs)
  let ?fb = "map_of (rev (map (\<lambda>f. (f_id f, f_name f, f_repeated f, \<lambda>ty r. field_decoder R n f ty r)) fs))"
  have "ends r (dec ty r)" if "?fb i = Some (name, rep, dec)" "rinv r" "rd_left R r < n" for i name rep dec ty r
    using map_of_SomeD [OF that(1)] that(2,3) ObjectSchema.hyps ObjectSchema.prems(1) by (auto simp: list_all_iff)
  then have "ends r (decode_object_loop R ?fb n [] r)"
    using ObjectSchema.prems by (intro object_loop_ends [of _ n]) auto
  then show ?case using ObjectSchema.prems by (auto simp: Let_def intro!: ends_bind)
next
  case AnySchema
  then show ?case using decode_any_ends [of r n ty] by (auto intro!: ends_bind)
next
  case (WrapperSchema s wrap unwrap)
  have "ends r' (rbind (unwrap v) (\<lambda>u. Inr (u, r')))" if "rinv r'" for v r'
    using that WrapperSchema.prems(1) by (cases "unwrap v") auto
  with WrapperSchema show ?case by (auto intro!: ends_bind)
next
  case (Field name i s opt rep fb mn mx)
  then show ?case by simp
qed (auto intro!: ends_bind ends_prim split: TlvTypeLength.splits)

lemma decode_ends:
  assumes "unwraps_ok s" and "rinv r"
  shows "decodeTlvInternal R s r \<noteq> Inl OutOfFuel"
proof -
  have "ends r (decodeTlvInternal R s r)"
    unfolding decodeTlvInternal_def
    by (rule ends_tag [OF assms(2)]) (use value_decoder_ends [OF assms(1)] in \<open>auto intro!: ends_bind\<close>)
  then show ?thesis by auto
qed

end

interpretation stream_source: tlv_source ArrayReader "\<lambda>_. True"
  by unfold_locales
    (auto simp: ArrayReader_def array_readTagType_def array_readElement_def array_readPrimitive_def split: if_splits)

lemma readTag_skips:
  assumes "dr_littleEndian r" and "dr_inv r"
  shows "readTag c r = Inr (x, r') \<Longrightarrow> \<exists>k. r' = skip k r" and "readTag c r \<noteq> Inl OutOfFuel"
proof -
  have "skip 0 r = r"
    using assms(2) by (cases r) (simp add: skip_def getOffsetAndAdvance_def dr_inv_def)
  then show "readTag c r = Inr (x, r') \<Longrightarrow> \<exists>k. r' = skip k r"
    using assms by (auto simp: readTag_def codec_simps rbind_eq_Inr split: if_splits) metis
  show "readTag c r \<noteq> Inl OutOfFuel"
    using assms by (auto simp: readTag_def codec_simps rbind_eq_Inl split: if_splits)
qed

lemma readPrimitive_skips:
  assumes "dr_littleEndian r" and "dr_inv r"
  shows "readPrimitive ty r = Inr (p, r') \<Longrightarrow> \<exists>k. r' = skip k r" and "readPrimitive ty r \<noteq> Inl OutOfFuel"
proof -
  have 0: "skip 0 r = r"
    using assms(2) by (cases r) (simp add: skip_def getOffsetAndAdvance_def dr_inv_def)
  have len: "readLength len r = Inr (n, r') \<Longrightarrow> \<exists>k. r' = skip k r" "readLength len r \<noteq> Inl OutOfFuel" for len n r'
    using assms by (cases len; auto simp: readLength_def codec_simps rbind_eq_Inr rbind_eq_Inl split: if_splits)+
  show "readPrimitive ty r = Inr (p, r') \<Longrightarrow> \<exists>k. r' = skip k r"
    using assms 0 by (cases ty)
      (auto simp: readPrimitive_def codec_simps rbind_eq_Inr dest!: len(1) split: TlvLength.splits if_splits, metis+)
  show "readPrimitive ty r \<noteq> Inl OutOfFuel"
    using assms len(2) by (cases ty) (auto simp: readPrimitive_def codec_simps rbind_eq_Inl split: TlvLength.splits if_splits)
qed

interpretation bytes_source: tlv_source TlvByteArrayReader "\<lambda>r. dr_littleEndian r \<and> dr_inv r"
proof
  fix r x r' ty p
  assume r: "dr_littleEndian r \<and> dr_inv r"
  show "rd_readTagType TlvByteArrayReader r = Inr (x, r') \<Longrightarrow> (dr_littleEndian r' \<and> dr_inv r') \<and>
      rd_left TlvByteArrayReader r' < rd_left TlvByteArrayReader r"
  proof -
    assume "rd_readTagType TlvByteArrayReader r = Inr (x, r')"
    then obtain c tag where "getRemainingBytes r \<noteq> []" "readTag c (skip 1 r) = Inr (tag, r')"
      using r by (auto simp: TlvByteArrayReader_def readTagType_def codec_simps rbind_eq_Inr split: if_splits prod.splits)
    with readTag_skips(1) [of "skip 1 r" c tag r'] r show ?thesis
      by (auto simp: TlvByteArrayReader_def)
  qed
  show "rd_readPrimitive TlvByteArrayReader ty r = Inr (p, r') \<Longrightarrow> (dr_littleEndian r' \<and> dr_inv r') \<and>
      rd_left TlvByteArrayReader r' \<le> rd_left TlvByteArrayReader r"
    using r readPrimitive_skips(1) [of r ty p r'] by (auto simp: TlvByteArrayReader_def)
  show "rd_readTagType TlvByteArrayReader r \<noteq> Inl OutOfFuel"
    using r readTag_skips(2) [of "skip 1 r"]
    by (auto simp: TlvByteArrayReader_def readTagType_def codec_simps rbind_eq_Inl split: if_splits prod.splits)
  show "rd_readPrimitive TlvByteArrayReader ty r \<noteq> Inl OutOfFuel"
    using r readPrimitive_skips(2) [of r ty] by (simp add: TlvByteArrayReader_def)
qed

section \<open>Properties\<close>

lemma encode_bytes:
  assumes "fits_raw s v"
  shows "\<exists>w. encodeTlvInternal TlvByteArrayWriter s v None fw (new_DataWriter Little) = Inr w \<and>
    written w = Inr (concat (map elem_bytes (elements s v None)))"
proof -
  have "bytes_wrote (new_DataWriter Little) []" by (simp add: bytes_wrote_def)
  from bytes.encode_elements [OF assms otag_ok_None this, of fw] show ?thesis
    by (auto simp: bytes_wrote_def)
qed

lemma encode_stream:
  assumes "fits_raw s v"
  shows "encodeTlv s v fw = Inr (elements s v None)"
  using stream.encode_elements [OF assms otag_ok_None, of "[]" "[]" fw] by (simp add: encodeTlv_def)

lemma decode_bytes:
  assumes "fits_bytes s v"
  shows "\<exists>r. decodeTlvInternal TlvByteArrayReader s (new_DataReader (concat (map elem_bytes (elements s v None))) Little) =
    Inr ((v, None), r)"
  using bytes.decode_delivered [OF assms, of "new_DataReader (concat (map elem_bytes (elements s v None))) Little" "[]"]
  by (auto simp: bytes_delivers_def)

text \<open>
  C1. \<^verbatim>\<open>schema.decode(schema.encode(value))\<close> gives back the value, for every schema built from the
  schema classes and every valid value of it in canonical form: nested arrays, structures and
  lists with optional and repeated fields, nullable values, wrappers and raw element streams included.
\<close>

theorem tlv_bytes_roundtrip:
  assumes "fits_bytes s v" and "validate s v = Inr ()"
  shows "\<exists>bs. schema_encode s v = Inr bs \<and> schema_decode s bs True = Inr v"
  using encode_bytes [OF fits_bytes_raw [OF assms(1)], of False] decode_bytes [OF assms(1)] assms(2)
  by (auto simp: schema_encode_def schema_decode_def)

definition sample_schema :: tlv_schema where
  "sample_schema =
     ObjectSchema KStructure
       [TlvField ''id'' 0 TlvUInt64 None,
        TlvOptionalField ''label'' 1 (NullableSchema (StringSchema KUtf8String 1 32)),
        TlvField ''on'' 2 BooleanSchema None,
        TlvField ''list'' 3 (ArraySchema (ObjectSchema KList [TlvRepeatedField ''x'' 7 TlvInt16 None None None]) 0 65535) None,
        TlvField ''data'' 4 AnySchema None,
        TlvOptionalField ''skipped'' 254 TlvUInt8]"

definition sample_stream :: TlvStream where
  "sample_stream =
     [mk None TLStructure PUndefined, mk (Some (id_tag 1)) TLNull PNull,
      mk (Some (id_tag 2)) (TLUnsignedInt OneByte) (PNum 7), mk None TLEndOfContainer PUndefined]"

definition sample_value :: tlv_value where
  "sample_value =
     VObject
       [(''id'', VPrim (PBig 5000000000)),
        (''label'', VNull),
        (''on'', VPrim (PBool True)),
        (''list'', VArray [VObject [(''x'', VArray [VPrim (PNum (- 5)), VPrim (PNum 1000)])]]),
        (''data'', VStream sample_stream)]"

lemmas sample_defs =
  sample_schema_def sample_value_def TlvField_def TlvOptionalField_def TlvRepeatedField_def
  TlvUInt64_def TlvUInt8_def TlvInt16_def

lemma sample_stream_kept: "stream_kept sample_stream"
proof -
  have "tlv_items ([mk (Some (id_tag 1)) TLNull PNull] @ [mk (Some (id_tag 2)) (TLUnsignedInt OneByte) (PNum 7)] @ [])"
    by (intro tlv_item_tlv_items.intros) simp_all
  from item_container [OF _ this, of "mk None TLStructure PUndefined" "mk None TLEndOfContainer PUndefined"]
  have "tlv_item sample_stream" by (simp add: sample_stream_def)
  then show ?thesis
    by (simp add: stream_kept_def any_ok_def sample_stream_def elem_given_def decoded_value_def elem_ok_def strip_def)
qed

lemma sample_fits: "fits sample_schema sample_value"
  by (simp add: sample_defs object_ok_def fields_ok_def in_field_order_def sample_stream_kept)

lemma sample_valid: "validate sample_schema sample_value = Inr ()"
  by (simp add: sample_defs each_def prop_of_def get_prop_def validate_number_def num_of_def validateBoundaries_def
      num_less_def validate_length_def int_limit_defs)

theorem tlv_bytes_roundtrip_witness:
  "\<exists>bs. schema_encode sample_schema sample_value = Inr bs \<and> schema_decode sample_schema bs True = Inr sample_value"
  by (rule tlv_bytes_roundtrip [OF fits_fits_bytes [OF sample_fits] sample_valid])

lemma strip_elem_ok [simp]: "elem_ok e \<Longrightarrow> strip e = e"
  by (cases e) (auto simp: strip_def elem_ok_def)

lemma encode_any_elements:
  assumes "list_all elem_ok es" and "bytes_wrote w es0"
  shows "\<exists>w'. rfold (encode_any_element TlvByteArrayWriter) es w = Inr w' \<and> bytes_wrote w' (es0 @ es)"
proof -
  have "map strip es = es" using assms(1) by (induction es) simp_all
  with bytes.encode_any_writes [of es w es0] assms show ?thesis by simp
qed

lemma getEncodedByteLength_elements:
  "list_all elem_ok es \<Longrightarrow> getEncodedByteLength es = Inr (length (concat (map elem_bytes es)))"
proof -
  have "element_byte_length e = Inr (length (elem_bytes e))" if "elem_ok e" for e
    using that getTagByteLength_bytes [of "el_tag e" "el_type e"] getPrimitiveByteLength_bytes [of "el_type e" "el_value e"]
    by (cases "el_type e") (auto simp: element_byte_length_def elem_bytes_def elem_ok_def otag_ok_def)
  then have "rfold (\<lambda>e n. rbind (element_byte_length e) (\<lambda>m. Inr (n + m))) es k = Inr (k + length (concat (map elem_bytes es)))"
    if "list_all elem_ok es" for k
    using that by (induction es arbitrary: k) auto
  then show "list_all elem_ok es \<Longrightarrow> ?thesis" by (simp add: getEncodedByteLength_def)
qed

lemma list_all_concat: "list_all P (concat (map g xs)) \<longleftrightarrow> (\<forall>x \<in> set xs. list_all P (g x))"
  by (induction xs) auto

lemma elem_ok_mk: "elem_ok (mk tag ty p) \<longleftrightarrow> type_ok ty \<and> otag_ok tag \<and> (if has_value ty then prim_ok ty p else p = PUndefined)"
  by (simp add: elem_ok_def)

lemma value_elements_ok:
  assumes "\<And>v tag. fits_raw (f_schema f) v \<Longrightarrow> otag_ok tag \<Longrightarrow> list_all elem_ok (elements (f_schema f) v tag)"
    and "fits_field_with raw_ok f (Some v)" and "0 \<le> f_id f" and "f_id f < 256"
  shows "list_all elem_ok (value_elements f v)"
proof -
  obtain name i s opt rep fb mn mx where f: "f = Field name i s opt rep fb mn mx" by (cases f)
  have "list_all elem_ok (elements s u (Some (id_tag i)))" if "fits_raw s u" for u
    using assms(1) [of u "Some (id_tag i)"] assms(3,4) that f by simp
  then show ?thesis
    using assms(2) f by (auto simp: list_all_concat list_all_iff split: if_splits tlv_value.splits)
qed

lemma elements_ok: "fits_raw s v \<Longrightarrow> otag_ok tag \<Longrightarrow> list_all elem_ok (elements s v tag)"
proof (induction s arbitrary: v tag rule: tlv_schema.induct [where ?P2.0 = "\<lambda>f. \<forall>v tag. fits_raw (f_schema f) v \<longrightarrow>
    otag_ok tag \<longrightarrow> list_all elem_ok (elements (f_schema f) v tag)"])
  case (NumericSchema c k mn mx)
  then show ?case using number_elem_ok by (fastforce simp: elem_ok_mk split: tlv_value.splits)
next
  case (StringSchema k mn mx)
  then show ?case using string_elem_ok [of k v] by (auto simp: elem_ok_mk)
next
  case (ArraySchema s mn mx)
  then obtain vs where "v = VArray vs" "\<forall>x \<in> set vs. fits_raw s x"
    by (auto simp: list_all_iff split: tlv_value.splits)
  with ArraySchema.IH [OF _ otag_ok_None] ArraySchema.prems(2) show ?case
    by (simp add: elem_ok_mk list_all_concat)
next
  case (ObjectSchema k fs)
  then obtain kvs where v: "v = VObject kvs" "object_ok k fs kvs" "list_all (\<lambda>f. fits_field_with raw_ok f (map_of kvs (f_name f))) fs"
    by (auto split: tlv_value.splits)
  have "list_all elem_ok (prop_elements fs nv)" if mem: "nv \<in> set kvs" for nv
  proof -
    obtain name u where nv: "nv = (name, u)" by (cases nv)
    with mem have "(name, u) \<in> set kvs" by simp
    from field_of_name [OF v(2) this] obtain f where
      f: "f \<in> set fs" "f_name f = name" "map_of kvs (f_name f) = Some u" .
    have "fields_ok fs" using v(2) by (simp add: object_ok_def)
    then have "0 \<le> f_id f" "f_id f < 256" using f(1) by (auto simp: fields_ok_def list_all_iff)
    moreover have "fits_field_with raw_ok f (Some u)" using v(3) f by (auto simp: list_all_iff)
    ultimately show ?thesis
      using value_elements_ok [of f u] ObjectSchema.hyps f(1) prop_elements_field [OF \<open>fields_ok fs\<close> f(1), of u] nv f(2)
      by simp
  qed
  then show ?case
    using ObjectSchema.prems(2) unfolding v(1) elements_object
    by (simp add: elem_ok_mk list_all_concat object_typeLength_def split: object_kind.splits)
next
  case AnySchema
  then show ?case using assign_tag_ok by (auto split: tlv_value.splits)
qed (auto simp: elem_ok_mk elim!: number_wrappedE split: tlv_value.splits TlvPrimitive.splits sum.splits)

lemma decode_stream: "fits s v \<Longrightarrow> decodeTlv s (elements s v None) = Inr v"
  using stream.decode_delivered [of s v "new_TlvArrayReader (elements s v None)" "[]"]
  by (cases s) (auto simp: decodeTlv_def is_void_def array_delivers_def new_TlvArrayReader_def)

text \<open>
  C8. The two writers agree: the element stream \<^verbatim>\<open>encodeTlv\<close> produces decodes to the value, its
  announced byte length is that of the bytes \<^verbatim>\<open>encode\<close> produces, and writing the stream with \<^verbatim>\<open>TlvAny\<close>
  produces these bytes.
\<close>

theorem stream_and_bytes_agree:
  assumes "fits s v" and "validate s v = Inr ()"
  shows "\<exists>es bs w. encodeTlv s v False = Inr es \<and> decodeTlv s es = Inr v \<and> schema_encode s v = Inr bs \<and>
    getEncodedByteLength es = Inr (length bs) \<and>
    encodeTlvInternal TlvByteArrayWriter AnySchema (VStream es) None False (new_DataWriter Little) = Inr w \<and>
    written w = Inr bs"
proof -
  let ?es = "elements s v None"
  have ok: "list_all elem_ok ?es" using elements_ok [OF fits_fits_raw [OF assms(1)]] by simp
  have "bytes_wrote (new_DataWriter Little) []" by (simp add: bytes_wrote_def)
  from encode_any_elements [OF ok this] obtain w where
    "rfold (encode_any_element TlvByteArrayWriter) ?es (new_DataWriter Little) = Inr w" "bytes_wrote w ?es" by auto
  then have "encodeTlvInternal TlvByteArrayWriter AnySchema (VStream ?es) None False (new_DataWriter Little) = Inr w"
    and "written w = Inr (concat (map elem_bytes ?es))"
    by (simp_all add: encode_any_def bytes_wrote_def)
  moreover have "schema_encode s v = Inr (concat (map elem_bytes ?es))"
    using encode_bytes [OF fits_fits_raw [OF assms(1)], of False] assms(2) by (auto simp: schema_encode_def)
  ultimately show ?thesis
    using encode_stream [OF fits_fits_raw [OF assms(1)]] decode_stream [OF assms(1)] getEncodedByteLength_elements [OF ok] by blast
qed

theorem stream_and_bytes_agree_witness:
  "\<exists>es bs w. encodeTlv sample_schema sample_value False = Inr es \<and> decodeTlv sample_schema es = Inr sample_value \<and>
    schema_encode sample_schema sample_value = Inr bs \<and> getEncodedByteLength es = Inr (length bs) \<and>
    encodeTlvInternal TlvByteArrayWriter AnySchema (VStream es) None False (new_DataWriter Little) = Inr w \<and>
    written w = Inr bs"
  by (rule stream_and_bytes_agree [OF sample_fits sample_valid])

text \<open>
  C9. Decoding ends on every input, well formed or not: the loops of the decoders stay within
  the bound given by the length of the input, for byte arrays and for element streams.
\<close>

theorem decoding_ends:
  assumes "unwraps_ok s"
  shows "schema_decode s bs False \<noteq> Inl OutOfFuel \<and> decodeTlv s es \<noteq> Inl OutOfFuel"
proof -
  have "decodeTlvInternal TlvByteArrayReader s (new_DataReader bs Little) \<noteq> Inl OutOfFuel"
    using bytes_source.decode_ends [OF assms] by simp
  moreover have "decodeTlvInternal ArrayReader s (new_TlvArrayReader es) \<noteq> Inl OutOfFuel"
    using stream_source.decode_ends [OF assms] by simp
  ultimately show ?thesis
    by (auto simp: schema_decode_def decodeTlv_def rbind_eq_Inl)
qed

theorem decoding_ends_witness:
  "schema_decode sample_schema [0x15, 0x36, 0x03] False \<noteq> Inl OutOfFuel \<and>
   decodeTlv sample_schema [\<lparr>el_tag = None, el_type = TLStructure, el_value = PUndefined\<rparr>] \<noteq> Inl OutOfFuel"
  by (rule decoding_ends) (simp add: sample_defs)

subsection \<open>Strings longer than their length field\<close>

lemma utf8_encode_replicate: "utf8_encode (replicate n c) = concat (replicate n (utf8_encode [c]))"
  by (induction n) (simp_all add: utf8_encode_def)

lemma take_utf8_replicate:
  assumes "m \<le> n"
  shows "take (2 * m) (utf8_encode (replicate n 0xE9)) = utf8_encode (replicate m 0xE9)"
proof -
  have "utf8_encode (replicate n 0xE9) = utf8_encode (replicate m 0xE9) @ utf8_encode (replicate (n - m) 0xE9)"
    using assms by (simp add: utf8_encode_def flip: map_append concat_append replicate_add)
  moreover have "length (utf8_encode (replicate k 0xE9)) = 2 * k" for k
    by (induction k) (simp_all add: utf8_encode_def utf8_units_def)
  ultimately show ?thesis by simp
qed

text \<open>
  \<^verbatim>\<open>StringSchema\<close> chooses the size of the length field by the number of UTF-16 units, but the field
  holds the number of UTF-8 bytes: a string of 128 to 255 two byte characters is encoded
  without complaint and decodes to a string that is 128 characters shorter.
\<close>

theorem long_string_truncated:
  assumes "128 \<le> n" and "n \<le> 255"
  shows "\<exists>bs. schema_encode TlvString (VPrim (PString (replicate n 0xE9))) = Inr bs \<and>
    schema_decode TlvString bs True = Inr (VPrim (PString (replicate (n - 128) 0xE9)))"
proof -
  let ?s = "replicate n (0xE9 :: nat)" and ?t = "replicate (n - 128) (0xE9 :: nat)"
  let ?ty = "TLUtf8String OneByte"
  have len: "length (utf8_encode ?s) = 2 * n"
    by (induction n) (simp_all add: utf8_encode_def utf8_units_def)
  have units: "js_length (replicate k 0xE9) = k" for k
    by (induction k) (simp_all add: js_length_def utf16_units_def)
  have ty: "string_typeLength KUtf8String (js_length ?s) = ?ty"
    using assms by (simp add: string_typeLength_def units getUIntTlvLength_def int_limit_defs)
  have valid: "validate TlvString (VPrim (PString (replicate k 0xE9))) = Inr ()" if "k \<le> 1024" for k
    using that by (simp add: TlvString_def string_length_def units validate_length_def)
  obtain w1 where w1: "writeTag ?ty None (new_DataWriter Little) = Inr w1" "dw_bytes w1 = tag_bytes ?ty None"
      "dw_littleEndian w1" "dw_inv w1"
    using writeTag_bytes [of ?ty None "new_DataWriter Little"] by (auto simp: tag_ok_def tag_fields_def)
  let ?bs = "tag_bytes ?ty None @ le_bytes 1 (2 * int n) @ utf8_encode ?s"
  have enc: "schema_encode TlvString (VPrim (PString ?s)) = Inr ?bs"
    using assms valid [of n] ty w1
    by (simp add: schema_encode_def TlvString_def string_length_def write_value_def TlvByteArrayWriter_def
        writePrimitive_def fromString_def len writeUInt_def toNumber_range le_bytes_byte del: validate.simps)
  obtain r1 where r1: "readTagType (new_DataReader ?bs Little) = Inr ((None, ?ty), r1)"
      "getRemainingBytes r1 = le_bytes 1 (2 * int n) @ utf8_encode ?s" "dr_littleEndian r1" "dr_inv r1"
    using readTagType_bytes [of ?ty None "new_DataReader ?bs Little"]
    by (auto simp: tag_ok_def tag_readable_def tag_norm_def tag_fields_def)
  have "uint (word_of_int (2 * int n) :: byte) = 2 * int n - 256"
  proof -
    have "2 * int n mod 256 = 2 * int n - 256"
      using assms by (intro int_mod_pos_eq [where q = 1]) auto
    then show ?thesis by (subst uint_word_of_int) simp
  qed
  then have "readLength OneByte r1 = Inr (2 * (n - 128), skip 1 r1)"
    using r1 assms by (simp add: readLength_def codec_simps le_bytes_byte nat_diff_distrib nat_mult_distrib)
  moreover have "utf8_decode (take (2 * (n - 128)) (utf8_encode ?s)) = ?t"
  proof -
    have "?t = [] \<or> hd ?t \<noteq> 0xFEFF"
      by (cases "n - 128") auto
    then have "utf8_decode (utf8_encode ?t) = ?t"
      by (intro utf8_decode_encode) (auto simp: list_all_iff scalar_def)
    then show ?thesis
      using take_utf8_replicate [of "n - 128" n] by simp
  qed
  ultimately have "\<exists>r2. readPrimitive ?ty r1 = Inr (PString ?t, r2)"
    using r1 by (simp add: readPrimitive_def)
  then have "schema_decode TlvString ?bs True = Inr (VPrim (PString ?t))"
    using r1(1) valid [of "n - 128"] assms
    by (auto simp: schema_decode_def decodeTlvInternal_def TlvByteArrayReader_def TlvString_def string_type_def
        simp del: validate.simps)
  with enc show ?thesis by blast
qed

theorem long_string_truncated_witness:
  "\<exists>bs. schema_encode TlvString (VPrim (PString (replicate 200 0xE9))) = Inr bs \<and>
    schema_decode TlvString bs True = Inr (VPrim (PString (replicate (200 - 128) 0xE9)))"
  by (rule long_string_truncated) simp_all

end
