(* ===== verification/TlvFields.thy ===== *)
theory TlvFields
  imports TlvRoundtrip
begin

text \<open>
  Operations on values by schema: \<^verbatim>\<open>injectField\<close> and \<^verbatim>\<open>removeField\<close>, with which servers and clients set
  and drop the fabric index of fabric scoped structures, and the chunked transfer of lists,
  \<^verbatim>\<open>encodeAsChunkedArray\<close> and \<^verbatim>\<open>decodeFromChunkedArray\<close>.
\<close>

section \<open>Injecting and removing fields\<close>

text \<open>
  \<^verbatim>\<open>(value as any)[name] = x\<close>.  A named property of an array is not represented; on a primitive the
  assignment throws.
\<close>

definition set_prop_of :: "tlv_value \<Rightarrow> string \<Rightarrow> tlv_value \<Rightarrow> tlv_value result" where
  "set_prop_of v name x =
     (case v of
        VObject kvs \<Rightarrow> Inr (VObject (set_prop kvs name x))
      | VArray vs \<Rightarrow> Inr v
      | VStream es \<Rightarrow> Inr v
      | VPrim _ \<Rightarrow> Inl TypeError)"

definition delete_prop_of :: "tlv_value \<Rightarrow> string \<Rightarrow> tlv_value" where
  "delete_prop_of v name = (case v of VObject kvs \<Rightarrow> VObject (delete_prop kvs name) | _ \<Rightarrow> v)"

fun rmap :: "('a \<Rightarrow> 'b result) \<Rightarrow> 'a list \<Rightarrow> 'b list result" where
  "rmap f [] = Inr []"
| "rmap f (x # xs) = rbind (f x) (\<lambda>y. rbind (rmap f xs) (\<lambda>ys. Inr (y # ys)))"

lemma rmap_cong [fundef_cong]: "xs = ys \<Longrightarrow> (\<And>x. x \<in> set ys \<Longrightarrow> f x = g x) \<Longrightarrow> rmap f xs = rmap g ys"
proof (induction ys arbitrary: xs)
  case Nil
  then show ?case by simp
next
  case (Cons y ys)
  have "rmap f ys = rmap g ys" using Cons.prems(2) by (intro Cons.IH) auto
  with Cons.prems show ?case by simp
qed

fun injectField :: "tlv_schema \<Rightarrow> tlv_value \<Rightarrow> int \<Rightarrow> tlv_value \<Rightarrow> (tlv_value \<Rightarrow> bool) \<Rightarrow> tlv_value result"
and inject_entry :: "tlv_field \<Rightarrow> int \<Rightarrow> tlv_value \<Rightarrow> (tlv_value \<Rightarrow> bool) \<Rightarrow> tlv_value \<Rightarrow> tlv_value result" where
  "injectField (NullableSchema s) v fieldId fieldValue check =
     (if v \<noteq> VNull then injectField s v fieldId fieldValue check else Inr v)"
| "injectField (ArraySchema s mn mx) v fieldId fieldValue check =
     (case v of
        VArray vs \<Rightarrow> rbind (rmap (\<lambda>x. injectField s x fieldId fieldValue check) vs) (\<lambda>vs. Inr (VArray vs))
      | _ \<Rightarrow> Inr v)"
| "injectField (ObjectSchema k fs) v fieldId fieldValue check =
     rfold (\<lambda>f v. inject_entry f fieldId fieldValue check v) fs v"
| "injectField _ v fieldId fieldValue check = Inr v"
| "inject_entry (Field name i s opt rep fb mn mx) fieldId fieldValue check v =
     rbind (prop_of v name) (\<lambda>d.
       if i = fieldId then
         (if check d then rbind (validate s fieldValue) (\<lambda>_. set_prop_of v name fieldValue) else Inr v)
       else rbind (injectField s d fieldId fieldValue check) (\<lambda>d. set_prop_of v name d))"

fun removeField :: "tlv_schema \<Rightarrow> tlv_value \<Rightarrow> int \<Rightarrow> (tlv_value \<Rightarrow> bool) \<Rightarrow> tlv_value result"
and remove_entry :: "tlv_field \<Rightarrow> int \<Rightarrow> (tlv_value \<Rightarrow> bool) \<Rightarrow> tlv_value \<Rightarrow> tlv_value result" where
  "removeField (NullableSchema s) v fieldId check = (if v \<noteq> VNull then removeField s v fieldId check else Inr v)"
| "removeField (ArraySchema s mn mx) v fieldId check =
     (case v of
        VArray vs \<Rightarrow> rbind (rmap (\<lambda>x. removeField s x fieldId check) vs) (\<lambda>vs. Inr (VArray vs))
      | _ \<Rightarrow> Inr v)"
| "removeField (ObjectSchema k fs) v fieldId check = rfold (\<lambda>f v. remove_entry f fieldId check v) fs v"
| "removeField _ v fieldId check = Inr v"
| "remove_entry (Field name i s opt rep fb mn mx) fieldId check v =
     rbind (prop_of v name) (\<lambda>d.
       if i = fieldId then (if d \<noteq> VUndefined \<and> check d then Inr (delete_prop_of v name) else Inr v)
       else rbind (removeField s d fieldId check) (\<lambda>d. set_prop_of v name d))"

subsection \<open>What injection does to an object\<close>

text \<open>Schemas without structure below: injection and removal leave their values alone.\<close>

fun leaf :: "tlv_schema \<Rightarrow> bool" where
  "leaf (NullableSchema s) = leaf s"
| "leaf (ArraySchema s mn mx) = False"
| "leaf (ObjectSchema k fs) = False"
| "leaf _ = True"

lemma leaf_inject: "leaf s \<Longrightarrow> injectField s v i x c = Inr v"
  by (induction s rule: leaf.induct) auto

lemma leaf_remove: "leaf s \<Longrightarrow> removeField s v i c = Inr v"
  by (induction s rule: leaf.induct) auto

lemma get_set_prop [simp]: "get_prop (set_prop kvs name x) n = (if n = name then x else get_prop kvs n)"
  by (induction kvs) (auto simp: get_prop_def)

lemma get_delete_prop [simp]: "get_prop (delete_prop kvs name) n = (if n = name then VUndefined else get_prop kvs n)"
  by (induction kvs) (auto simp: get_prop_def delete_prop_def)

definition leaf_fields :: "int \<Rightarrow> tlv_field list \<Rightarrow> bool" where
  "leaf_fields fieldId fs \<longleftrightarrow> distinct (map f_name fs) \<and> distinct (map f_id fs) \<and>
     list_all (\<lambda>f. f_id f = fieldId \<or> leaf (f_schema f)) fs"

lemma inject_entry_leaf:
  assumes "f_id f \<noteq> i" and "leaf (f_schema f)"
  shows "inject_entry f i x c (VObject kvs) = Inr (VObject (set_prop kvs (f_name f) (get_prop kvs (f_name f))))"
  using assms by (cases f) (simp add: prop_of_def leaf_inject set_prop_of_def)

lemma inject_others:
  assumes "list_all (\<lambda>f. f_id f \<noteq> i \<and> leaf (f_schema f)) fs"
  shows "\<exists>kvs'. rfold (\<lambda>f v. inject_entry f i x c v) fs (VObject kvs) = Inr (VObject kvs') \<and>
    (\<forall>n. get_prop kvs' n = get_prop kvs n)"
  using assms
proof (induction fs arbitrary: kvs)
  case Nil
  then show ?case by simp
next
  case (Cons f fs)
  from Cons.IH [of "set_prop kvs (f_name f) (get_prop kvs (f_name f))"] Cons.prems show ?case
    by (auto simp: inject_entry_leaf)
qed

lemma remove_entry_leaf:
  assumes "f_id f \<noteq> i" and "leaf (f_schema f)"
  shows "remove_entry f i c (VObject kvs) = Inr (VObject (set_prop kvs (f_name f) (get_prop kvs (f_name f))))"
  using assms by (cases f) (simp add: prop_of_def leaf_remove set_prop_of_def)

lemma remove_others:
  assumes "list_all (\<lambda>f. f_id f \<noteq> i \<and> leaf (f_schema f)) fs"
  shows "\<exists>kvs'. rfold (\<lambda>f v. remove_entry f i c v) fs (VObject kvs) = Inr (VObject kvs') \<and>
    (\<forall>n. get_prop kvs' n = get_prop kvs n)"
  using assms
proof (induction fs arbitrary: kvs)
  case Nil
  then show ?case by simp
next
  case (Cons f fs)
  from Cons.IH [of "set_prop kvs (f_name f) (get_prop kvs (f_name f))"] Cons.prems show ?case
    by (auto simp: remove_entry_leaf)
qed

text \<open>The field with the given id splits the list of fields.\<close>

lemma split_fields:
  assumes "leaf_fields i fs" and "f \<in> set fs" and "f_id f = i"
  obtains as bs where "fs = as @ f # bs" "list_all (\<lambda>f. f_id f \<noteq> i \<and> leaf (f_schema f)) as"
    "list_all (\<lambda>f. f_id f \<noteq> i \<and> leaf (f_schema f)) bs"
proof -
  from assms(2) obtain as bs where fs: "fs = as @ f # bs" by (meson split_list)
  have "f_id g \<noteq> i" if "g \<in> set as \<union> set bs" for g
    using assms(1,3) that unfolding fs leaf_fields_def by (auto simp: image_iff eq_commute)
  then have "list_all (\<lambda>f. f_id f \<noteq> i \<and> leaf (f_schema f)) as" "list_all (\<lambda>f. f_id f \<noteq> i \<and> leaf (f_schema f)) bs"
    using assms(1) unfolding fs leaf_fields_def by (auto simp: list_all_iff)
  with fs show thesis by (rule that)
qed

lemma inject_sets:
  assumes "leaf_fields i fs" and "f \<in> set fs" and "f_id f = i" and "validate (f_schema f) x = Inr ()"
  shows "\<exists>kvs'. injectField (ObjectSchema k fs) (VObject kvs) i x c = Inr (VObject kvs') \<and>
    (\<forall>n. get_prop kvs' n = (if n = f_name f \<and> c (get_prop kvs (f_name f)) then x else get_prop kvs n))"
proof -
  obtain as bs where fs: "fs = as @ f # bs" and as: "list_all (\<lambda>f. f_id f \<noteq> i \<and> leaf (f_schema f)) as"
      and bs: "list_all (\<lambda>f. f_id f \<noteq> i \<and> leaf (f_schema f)) bs"
    using split_fields [OF assms(1-3)] .
  obtain kvs1 where k1: "rfold (\<lambda>f v. inject_entry f i x c v) as (VObject kvs) = Inr (VObject kvs1)"
      "\<forall>n. get_prop kvs1 n = get_prop kvs n"
    using inject_others [OF as] by metis
  let ?kvs2 = "if c (get_prop kvs (f_name f)) then set_prop kvs1 (f_name f) x else kvs1"
  have k2: "inject_entry f i x c (VObject kvs1) = Inr (VObject ?kvs2)"
    using assms(3,4) k1(2) by (cases f) (simp add: prop_of_def set_prop_of_def)
  obtain kvs3 where k3: "rfold (\<lambda>f v. inject_entry f i x c v) bs (VObject ?kvs2) = Inr (VObject kvs3)"
      "\<forall>n. get_prop kvs3 n = get_prop ?kvs2 n"
    using inject_others [OF bs] by metis
  show ?thesis
    using k1 k2 k3 by (simp add: fs rfold_append)
qed

lemma remove_deletes:
  assumes "leaf_fields i fs" and "f \<in> set fs" and "f_id f = i"
  shows "\<exists>kvs'. removeField (ObjectSchema k fs) (VObject kvs) i c = Inr (VObject kvs') \<and>
    (\<forall>n. get_prop kvs' n = (if n = f_name f \<and> c (get_prop kvs (f_name f)) then VUndefined else get_prop kvs n))"
proof -
  obtain as bs where fs: "fs = as @ f # bs" and as: "list_all (\<lambda>f. f_id f \<noteq> i \<and> leaf (f_schema f)) as"
      and bs: "list_all (\<lambda>f. f_id f \<noteq> i \<and> leaf (f_schema f)) bs"
    using split_fields [OF assms] .
  obtain kvs1 where k1: "rfold (\<lambda>f v. remove_entry f i c v) as (VObject kvs) = Inr (VObject kvs1)"
      "\<forall>n. get_prop kvs1 n = get_prop kvs n"
    using remove_others [OF as] by metis
  let ?kvs2 = "if get_prop kvs (f_name f) \<noteq> VUndefined \<and> c (get_prop kvs (f_name f)) then delete_prop kvs1 (f_name f) else kvs1"
  have k2: "remove_entry f i c (VObject kvs1) = Inr (VObject ?kvs2)"
    using assms(3) k1(2) by (cases f) (simp add: prop_of_def delete_prop_of_def)
  obtain kvs3 where k3: "rfold (\<lambda>f v. remove_entry f i c v) bs (VObject ?kvs2) = Inr (VObject kvs3)"
      "\<forall>n. get_prop kvs3 n = get_prop ?kvs2 n"
    using remove_others [OF bs] by metis
  show ?thesis
    using k1 k2 k3 by (auto simp: fs rfold_append)
qed

text \<open>
  What a client does with a fabric scoped structure before it is sent: a placeholder is
  injected where the fabric index is missing, so that validation passes, and removed again.
  Afterwards every property has the value it had at the start.
\<close>

theorem inject_remove_roundtrip:
  assumes "leaf_fields i fs" and "f \<in> set fs" and "f_id f = i" and "validate (f_schema f) x = Inr ()"
    and "get_prop kvs (f_name f) \<noteq> x"
  shows "\<exists>v kvs'. injectField (ObjectSchema k fs) (VObject kvs) i x (\<lambda>d. d = VUndefined) = Inr v \<and>
    removeField (ObjectSchema k fs) v i (\<lambda>d. d = x) = Inr (VObject kvs') \<and>
    (\<forall>n. get_prop kvs' n = get_prop kvs n)"
proof -
  obtain kvs1 where k1: "injectField (ObjectSchema k fs) (VObject kvs) i x (\<lambda>d. d = VUndefined) = Inr (VObject kvs1)"
      "\<forall>n. get_prop kvs1 n = (if n = f_name f \<and> get_prop kvs (f_name f) = VUndefined then x else get_prop kvs n)"
    using inject_sets [OF assms(1-4), of k kvs "\<lambda>d. d = VUndefined"] by blast
  obtain kvs2 where k2: "removeField (ObjectSchema k fs) (VObject kvs1) i (\<lambda>d. d = x) = Inr (VObject kvs2)"
      "\<forall>n. get_prop kvs2 n = (if n = f_name f \<and> get_prop kvs1 (f_name f) = x then VUndefined else get_prop kvs1 n)"
    using remove_deletes [OF assms(1-3), of k kvs1 "\<lambda>d. d = x"] by blast
  show ?thesis
    using k1 k2 assms(5) by auto
qed

theorem inject_remove_roundtrip_witness:
  "\<exists>v kvs'. injectField (ObjectSchema KStructure [TlvField ''group'' 1 TlvUInt16 None, TlvField ''fabricIndex'' 254 TlvUInt8 None])
      (VObject [(''group'', VPrim (PNum 5))]) 254 (VPrim (PNum 0)) (\<lambda>d. d = VUndefined) = Inr v \<and>
    removeField (ObjectSchema KStructure [TlvField ''group'' 1 TlvUInt16 None, TlvField ''fabricIndex'' 254 TlvUInt8 None])
      v 254 (\<lambda>d. d = VPrim (PNum 0)) = Inr (VObject kvs') \<and>
    (\<forall>n. get_prop kvs' n = get_prop [(''group'', VPrim (PNum 5))] n)"
  by (rule inject_remove_roundtrip [where f = "TlvField ''fabricIndex'' 254 TlvUInt8 None"])
    (simp_all add: leaf_fields_def TlvField_def TlvUInt8_def TlvUInt16_def validate_number_def num_of_def
      validateBoundaries_def num_less_def get_prop_def int_limit_defs)

text \<open>
  Injection does not expect an optional structure to be absent: when a field that is not there
  has an object schema with at least one field, \<^verbatim>\<open>injectField\<close> reads a property of \<^verbatim>\<open>undefined\<close> and throws.
\<close>

theorem inject_absent_structure_throws:
  assumes "distinct (map f_name fs)" and "f \<in> set fs" and "f_id f \<noteq> i" and "f_schema f = ObjectSchema k' (g # gs)"
    and "get_prop kvs (f_name f) = VUndefined"
    and "list_all (\<lambda>h. f_id h \<noteq> i \<and> (h = f \<or> leaf (f_schema h))) fs"
  shows "injectField (ObjectSchema k fs) (VObject kvs) i x c = Inl TypeError"
proof -
  from assms(2) obtain as bs where fs: "fs = as @ f # bs" by (meson split_list)
  have "f \<notin> set as" using assms(1) unfolding fs by auto
  then have "list_all (\<lambda>h. f_id h \<noteq> i \<and> leaf (f_schema h)) as"
    using assms(6) unfolding fs by (auto simp: list_all_iff)
  from inject_others [OF this] obtain kvs1 where
    k1: "rfold (\<lambda>f v. inject_entry f i x c v) as (VObject kvs) = Inr (VObject kvs1)" "\<forall>n. get_prop kvs1 n = get_prop kvs n"
    by metis
  have "inject_entry f i x c (VObject kvs1) = Inl TypeError"
    using assms(3-5) k1(2) by (cases f; cases g) (simp add: prop_of_def)
  with k1(1) show ?thesis by (simp add: fs rfold_append)
qed

text \<open>The request of \<^verbatim>\<open>ApplicationLauncher.stopApp\<close> without its optional \<^verbatim>\<open>application\<close>.\<close>

theorem inject_absent_structure_throws_witness:
  "injectField
     (ObjectSchema KStructure
        [TlvOptionalField ''application'' 0
           (ObjectSchema KStructure
              [TlvField ''catalogVendorId'' 0 TlvUInt16 None, TlvField ''applicationId'' 1 TlvString None])])
     (VObject []) FabricIndex_id (VPrim (PNum 1)) (\<lambda>d. d = VUndefined) = Inl TypeError"
  by (rule inject_absent_structure_throws [where f = "TlvOptionalField ''application'' 0
           (ObjectSchema KStructure
              [TlvField ''catalogVendorId'' 0 TlvUInt16 None, TlvField ''applicationId'' 1 TlvString None])"])
    (simp_all add: TlvOptionalField_def FabricIndex_id_def get_prop_def)

section \<open>Chunked lists\<close>

datatype list_index = LUndefined | LNull | LIndex nat

type_synonym ArrayAsChunked = "(list_index \<times> TlvStream) list"

text \<open>\<^verbatim>\<open>array[i] = v\<close> past the end extends the array with holes.\<close>

definition assign_index :: "tlv_value list \<Rightarrow> nat \<Rightarrow> tlv_value \<Rightarrow> tlv_value list" where
  "assign_index vs i v = (if i < length vs then vs[i := v] else vs @ replicate (i - length vs) VUndefined @ [v])"

definition splice_out :: "tlv_value list \<Rightarrow> nat \<Rightarrow> tlv_value list" where
  "splice_out vs i = take i vs @ drop (i + 1) vs"

definition apply_chunk :: "tlv_schema \<Rightarrow> int \<Rightarrow> int \<Rightarrow> list_index \<times> TlvStream \<Rightarrow> tlv_value list \<Rightarrow> tlv_value list result" where
  "apply_chunk s mn mx chunk currentValue =
     (case chunk of (listIndex, element) \<Rightarrow>
        (case listIndex of
           LUndefined \<Rightarrow>
             rbind (decodeTlv (ArraySchema s mn mx) element) (\<lambda>v. case v of VArray vs \<Rightarrow> Inr vs | _ \<Rightarrow> Inl TypeError)
         | LNull \<Rightarrow> rbind (decodeTlv s element) (\<lambda>v. Inr (currentValue @ [v]))
         | LIndex i \<Rightarrow>
             (case element of
                [] \<Rightarrow> Inl TypeError
              | e # _ \<Rightarrow>
                  if el_type e = TLNull then Inr (splice_out currentValue i)
                  else rbind (decodeTlv s element) (\<lambda>v. Inr (assign_index currentValue i v)))))"

definition decodeFromChunkedArray ::
  "tlv_schema \<Rightarrow> int \<Rightarrow> int \<Rightarrow> ArrayAsChunked \<Rightarrow> tlv_value list option \<Rightarrow> tlv_value list result" where
  "decodeFromChunkedArray s mn mx chunks currentValue =
     (case currentValue of
        None \<Rightarrow>
          (case chunks of
             [] \<Rightarrow> Inl TypeError
           | (listIndex, _) # _ \<Rightarrow>
               if listIndex \<noteq> LUndefined then Inl UnexpectedDataError else rfold (apply_chunk s mn mx) chunks [])
      | Some vs \<Rightarrow> rfold (apply_chunk s mn mx) chunks vs)"

definition encodeAsChunkedArray :: "tlv_schema \<Rightarrow> int \<Rightarrow> int \<Rightarrow> tlv_value list \<Rightarrow> ArrayAsChunked result" where
  "encodeAsChunkedArray s mn mx value =
     rbind (encodeTlv (ArraySchema s mn mx) (VArray []) False) (\<lambda>first.
     rbind (rmap (\<lambda>x. rbind (encodeTlv s x False) (\<lambda>es. Inr (LNull, es))) value) (\<lambda>rest.
     Inr ((LUndefined, first) # rest)))"

lemma rmap_map: "(\<And>x. x \<in> set xs \<Longrightarrow> f x = Inr (g x)) \<Longrightarrow> rmap f xs = Inr (map g xs)"
  by (induction xs) auto

lemma append_chunks:
  "list_all (fits s) vs \<Longrightarrow>
     rfold (apply_chunk s mn mx) (map (\<lambda>x. (LNull, elements s x None)) vs) us = Inr (us @ vs)"
  by (induction vs arbitrary: us) (simp_all add: apply_chunk_def decode_stream)

text \<open>
  A list sent in chunks, an empty list followed by one appended element at a time, arrives as
  it was, whatever the receiver had before.
\<close>

theorem chunked_array_roundtrip:
  assumes "list_all (fits s) vs"
  shows "\<exists>chunks. encodeAsChunkedArray s mn mx vs = Inr chunks \<and> length chunks = Suc (length vs) \<and>
    decodeFromChunkedArray s mn mx chunks currentValue = Inr vs"
proof -
  let ?chunks = "(LUndefined, elements (ArraySchema s mn mx) (VArray []) None) # map (\<lambda>x. (LNull, elements s x None)) vs"
  have "encodeAsChunkedArray s mn mx vs = Inr ?chunks"
    using assms encode_stream [of "ArraySchema s mn mx" "VArray []" False]
      rmap_map [of vs "\<lambda>x. rbind (encodeTlv s x False) (\<lambda>es. Inr (LNull, es))" "\<lambda>x. (LNull, elements s x None)"]
    by (simp add: encodeAsChunkedArray_def encode_stream [OF fits_fits_raw] list_all_iff)
  moreover have "rfold (apply_chunk s mn mx) ?chunks us = Inr vs" for us
    using append_chunks [OF assms, of mn mx "[]"] decode_stream [of "ArraySchema s mn mx" "VArray []"]
    by (simp add: apply_chunk_def del: elements.simps)
  ultimately show ?thesis
    by (auto simp: decodeFromChunkedArray_def split: option.splits)
qed

theorem chunked_array_roundtrip_witness:
  "\<exists>chunks. encodeAsChunkedArray TlvUInt16 0 10 [VPrim (PNum 7), VPrim (PNum 300)] = Inr chunks \<and>
    length chunks = Suc (length [VPrim (PNum 7), VPrim (PNum 300)]) \<and>
    decodeFromChunkedArray TlvUInt16 0 10 chunks (Some [VPrim (PNum 1)]) = Inr [VPrim (PNum 7), VPrim (PNum 300)]"
  by (rule chunked_array_roundtrip) (simp add: TlvUInt16_def)

end
