(* ===== verification/TlvStreams.thy ===== *)
theory TlvStreams
  imports TlvFields
begin

text \<open>
  Values inside raw streams.  The interaction model carries the value of an attribute in a field of the schema \<^verbatim>\<open>TlvAny\<close>: the sender puts
  the elements of the value there, \<^verbatim>\<open>schema.encodeTlv(value)\<close>, and the receiver, who gets them back in the form the byte decoder gives
  them, applies \<^verbatim>\<open>schema.decodeTlv\<close>.  The two forms differ in the values of elements; the theory shows that the value arrives.
\<close>

section \<open>Streams as the byte decoder gives them\<close>

definition given :: "TlvElement \<Rightarrow> TlvElement" where
  "given e = e\<lparr>el_value := decoded_value e\<rparr>"

lemma given_simps [simp]: "el_tag (given e) = el_tag e" "el_type (given e) = el_type e" "el_value (given e) = decoded_value e"
  by (simp_all add: given_def)

lemma prim_norm_ok: "prim_ok ty p \<Longrightarrow> prim_ok ty (prim_norm ty p)"
  by (cases "(ty, p)" rule: prim_ok.cases) (auto split: option.splits)

lemma prim_norm_norm [simp]: "prim_norm ty (prim_norm ty p) = prim_norm ty p"
  by (cases ty) (auto split: option.splits)

lemma prim_norm_bytes [simp]: "prim_bytes ty (prim_norm ty p) = prim_bytes ty p"
  by (cases ty) (auto split: option.splits)

lemma decoded_value_value: "has_value (el_type e) \<Longrightarrow> decoded_value e = prim_norm (el_type e) (el_value e)"
  by (cases "el_type e") (simp_all add: decoded_value_def)

lemma given_idem: "decoded_value (given e) = decoded_value e"
  by (cases "el_type e") (simp_all add: decoded_value_def del: prim_norm.simps)

lemma given_given: "elem_ok e \<Longrightarrow> elem_given (given e)"
  using prim_norm_ok
  by (cases "has_value (el_type e)") (auto simp: elem_given_def elem_ok_def strip_def given_idem decoded_value_value)

lemma given_bytes: "elem_ok e \<Longrightarrow> elem_bytes (strip (given e)) = elem_bytes e"
  by (auto simp: elem_bytes_def strip_def decoded_value_value)

text \<open>What a value consists of is one item, whatever its schema.\<close>

lemma item_of_types:
  "tlv_item es \<Longrightarrow> \<forall>es'. map el_type es' = map el_type es \<longrightarrow> tlv_item es'"
  "tlv_items es \<Longrightarrow> \<forall>es'. map el_type es' = map el_type es \<longrightarrow> tlv_items es'"
proof (induction rule: tlv_item_tlv_items.inducts)
  case (item_single e)
  then show ?case by (auto intro: tlv_item_tlv_items.intros)
next
  case (item_container e es c)
  show ?case
  proof (intro allI impI)
    fix es' :: TlvStream
    assume "map el_type es' = map el_type (e # es @ [c])"
    then obtain e' us c' where "es' = e' # us @ [c']" "el_type e' = el_type e" "map el_type us = map el_type es" "el_type c' = el_type c"
      by (auto simp: map_eq_Cons_conv map_eq_append_conv)
    with item_container show "tlv_item es'" by (auto intro!: tlv_item_tlv_items.item_container)
  qed
next
  case items_Nil
  then show ?case by (auto intro: tlv_item_tlv_items.intros)
next
  case (items_Cons as bs)
  then show ?case by (auto simp: map_eq_append_conv intro!: tlv_item_tlv_items.items_Cons)
qed

lemma items_concat: "(\<And>x. x \<in> set xs \<Longrightarrow> tlv_item (g x)) \<Longrightarrow> tlv_items (concat (map g xs))"
  by (induction xs) (auto intro: items_Nil items_Cons)

lemma items_append: "tlv_items as \<Longrightarrow> tlv_items bs \<Longrightarrow> tlv_items (as @ bs)"
  by (induction as rule: tlv_item_tlv_items.inducts(2) [where ?P1.0 = "\<lambda>_. True"]) (auto intro: items_Cons simp: append_assoc)

lemma assign_tag_types: "map el_type (map strip (assign_tag tag es)) = map el_type es"
  by (cases tag; cases es) simp_all

lemma items_of_value:
  assumes "\<And>v tag. fits_raw (f_schema f) v \<Longrightarrow> tlv_item (elements (f_schema f) v tag)" and "fits_field_with raw_ok f (Some v)"
  shows "tlv_items (value_elements f v)"
proof -
  have single: "tlv_items es" if "tlv_item es" for es using items_Cons [OF that items_Nil] by simp
  obtain name i s opt rep fb mn mx where "f = Field name i s opt rep fb mn mx" by (cases f)
  with assms show ?thesis
    by (cases rep) (auto simp: list_all_iff intro: items_concat single split: tlv_value.splits)
qed

lemma items_of_object:
  assumes "\<And>f v. f \<in> set fs \<Longrightarrow> fits_field_with raw_ok f (Some v) \<Longrightarrow> tlv_items (value_elements f v)"
    and "object_ok k fs kvs" and "list_all (\<lambda>f. fits_field_with raw_ok f (map_of kvs (f_name f))) fs" and "set props \<subseteq> set kvs"
  shows "tlv_items (concat (map (prop_elements fs) props))"
  using assms(4)
proof (induction props)
  case (Cons nv props)
  obtain name u where nv: "nv = (name, u)" by (cases nv)
  with Cons.prems have "(name, u) \<in> set kvs" by simp
  from field_of_name [OF assms(2) this] obtain f where f: "f \<in> set fs" "f_name f = name" "map_of kvs (f_name f) = Some u" .
  have "fields_ok fs" using assms(2) by (simp add: object_ok_def)
  then have "prop_elements fs nv = value_elements f u" using prop_elements_field f nv by metis
  moreover have "tlv_items (value_elements f u)" using assms(1) [OF f(1), of u] assms(3) f(1,3) by (auto simp: list_all_iff)
  ultimately show ?case using Cons items_append by simp
qed (simp add: items_Nil)

lemma value_item: "has_value (el_type e) \<Longrightarrow> tlv_item [e]"
  by (rule item_single) (cases "el_type e"; simp)+

lemma item_of_value: "fits_raw s v \<Longrightarrow> tlv_item (elements s v tag)"
proof (induction s arbitrary: v tag rule: tlv_schema.induct [where ?P2.0 = "\<lambda>f. \<forall>v tag. fits_raw (f_schema f) v \<longrightarrow>
    tlv_item (elements (f_schema f) v tag)"])
  case (NumericSchema c k mn mx)
  then obtain p where p: "v = VPrim p" "number_fits c k p" by (auto split: tlv_value.splits)
  from number_elem_ok [OF p(2)] obtain ty where "numeric_typeLength k p = Some ty" "has_value ty" by blast
  with p(1) value_item [of "mk tag ty p"] show ?case by simp
next
  case (StringSchema k mn mx)
  with string_elem_ok [of k v] value_item show ?case by fastforce
next
  case (ArraySchema s mn mx)
  then obtain vs where v: "v = VArray vs" "list_all (fits_raw s) vs" by (auto split: tlv_value.splits)
  have "tlv_items (concat (map (\<lambda>x. elements s x None) vs))"
    using ArraySchema.IH v(2) by (auto simp: list_all_iff intro: items_concat)
  then show ?case using v(1) by (auto intro: item_container)
next
  case (ObjectSchema k fs)
  then obtain kvs where v: "v = VObject kvs" "object_ok k fs kvs" "list_all (\<lambda>f. fits_field_with raw_ok f (map_of kvs (f_name f))) fs"
    by (auto split: tlv_value.splits)
  have "tlv_items (concat (map (prop_elements fs) kvs))"
    using items_of_object [OF items_of_value v(2,3), of kvs] ObjectSchema.hyps by auto
  then show ?case
    unfolding v(1) elements_object
    by (auto intro: item_container simp: object_typeLength_def split: object_kind.splits)
next
  case AnySchema
  then obtain es where "v = VStream es" "tlv_item es" by (auto simp: raw_ok_def split: tlv_value.splits)
  with item_of_types(1) assign_tag_types show ?case by fastforce
next
  case (WrapperSchema s wrap unwrap)
  then show ?case by (auto elim!: number_wrappedE intro!: value_item split: sum.splits)
qed (auto intro!: item_single split: tlv_value.splits TlvPrimitive.splits sum.splits)

lemma assign_tag_first: "raw_ok es \<Longrightarrow> el_tag (hd (map strip (assign_tag tag es))) = tag"
  by (cases tag; cases es) (auto simp: raw_ok_def dest: tlv_item_nonempty)

lemma elements_first_tag: "fits_raw s v \<Longrightarrow> el_tag (hd (elements s v tag)) = tag"
proof (induction s arbitrary: v rule: tlv_schema.induct [where ?P2.0 = "\<lambda>_. True"])
  case (NumericSchema c k mn mx)
  then show ?case using number_elem_ok by (fastforce split: tlv_value.splits)
next
  case (StringSchema k mn mx)
  then show ?case using string_elem_ok [of k v] by auto
qed (auto simp: Let_def assign_tag_first elim!: number_wrappedE split: tlv_value.splits TlvPrimitive.splits sum.splits)

lemma given_any_ok:
  assumes "fits_raw s v"
  shows "any_ok (map given (elements s v None))"
proof -
  let ?es = "elements s v None"
  have "tlv_item (map given ?es)" using item_of_types(1) [OF item_of_value [OF assms], rule_format, of "map given ?es" None] by (simp add: comp_def)
  moreover have "list_all elem_given (map given ?es)"
    using elements_ok [OF assms otag_ok_None] given_given by (auto simp: list_all_iff)
  moreover have "el_tag (hd ?es) = None"
    using elements_first_tag [OF assms] by blast
  ultimately show ?thesis
    using elements_nonempty [OF assms, of None] by (simp add: any_ok_def hd_map)
qed

section \<open>Reading such a stream\<close>

text \<open>An array reader over the elements of a value in the form the byte decoder gives them is a third transport.\<close>

definition given_delivers :: "TlvArrayReader \<Rightarrow> TlvStream \<Rightarrow> bool" where
  "given_delivers r es \<longleftrightarrow> array_delivers r (map given es)"

interpretation received: tlv_transport TlvArrayWriter ArrayReader "\<lambda>w es. w = es" given_delivers any_ok
proof
  fix w es and e :: TlvElement
  show "w = es \<Longrightarrow> elem_ok e \<Longrightarrow> \<not> has_value (el_type e) \<Longrightarrow>
      \<exists>w'. wr_writeTag TlvArrayWriter (el_type e) (el_tag e) w = Inr w' \<and> w' = es @ [e]"
    by (rule stream.write_tag)
  show "w = es \<Longrightarrow> elem_ok e \<Longrightarrow> has_value (el_type e) \<Longrightarrow>
      \<exists>w' w''. wr_writeTag TlvArrayWriter (el_type e) (el_tag e) w = Inr w' \<and>
        wr_writePrimitive TlvArrayWriter (el_type e) (el_value e) w' = Inr w'' \<and> w'' = es @ [e]"
    by (rule stream.write_prim)
next
  fix r es b and e :: TlvElement
  assume "given_delivers r (e # es)"
  note read = array_readTagType_delivers [of r "given e" "map given es", OF this [unfolded given_delivers_def list.map]]
  show "\<exists>r'. rd_readTagType ArrayReader r = Inr ((el_tag e, el_type e), r') \<and> given_delivers r' es"
    using read by (simp add: ArrayReader_def given_delivers_def)
  show "has_value (el_type e) \<Longrightarrow> \<exists>r' p r''. rd_readTagType ArrayReader r = Inr ((el_tag e, el_type e), r') \<and>
      rd_readPrimitive ArrayReader (el_type e) r' = Inr (p, r'') \<and>
      (p = el_value e \<or> p = prim_norm (el_type e) (el_value e)) \<and> given_delivers r'' es"
    using read by (simp add: ArrayReader_def given_delivers_def decoded_value_value)
  show "el_type e = TLBoolean b \<Longrightarrow> \<exists>r' r''. rd_readTagType ArrayReader r = Inr ((el_tag e, el_type e), r') \<and>
      rd_readPrimitive ArrayReader (el_type e) r' = Inr (PBool b, r'') \<and> given_delivers r'' es"
    using read by (simp add: ArrayReader_def given_delivers_def decoded_value_def)
next
  fix r es
  show "given_delivers r es \<Longrightarrow> length es \<le> rd_left ArrayReader r"
    using stream.left_bound [of r "map given es"] by (simp add: given_delivers_def)
qed simp

lemma decode_given: "fits_bytes s v \<Longrightarrow> decodeTlv s (map given (elements s v None)) = Inr v"
  using received.decode_delivered [of s v "new_TlvArrayReader (map given (elements s v None))" "[]"]
  by (cases s) (auto simp: decodeTlv_def is_void_def given_delivers_def array_delivers_def new_TlvArrayReader_def)

text \<open>The bytes of a stream do not depend on the form of its values.\<close>

lemma bytes_of_given:
  assumes "list_all elem_ok es"
  shows "concat (map elem_bytes (map strip (map given es))) = concat (map elem_bytes es)"
  using assms by (induction es) (simp_all add: given_bytes)

text \<open>
  C15. A valid canonical value inside a raw stream arrives: what \<^verbatim>\<open>schema.encodeTlv\<close> gives for it is written by \<^verbatim>\<open>TlvAny\<close>, read by \<^verbatim>\<open>TlvAny\<close> and decoded with
  \<^verbatim>\<open>schema.decodeTlv\<close> to the same value, although the stream that is read is not in general the one that was written.
\<close>

theorem any_carries_value:
  assumes "fits_bytes s v"
  shows "\<exists>es bs es'. encodeTlv s v fw = Inr es \<and> schema_encode AnySchema (VStream es) = Inr bs \<and>
    schema_decode AnySchema bs True = Inr (VStream es') \<and> decodeTlv s es' = Inr v"
proof -
  let ?es = "elements s v None"
  have raw: "fits_raw s v" by (rule fits_bytes_raw [OF assms])
  have ok: "list_all elem_ok ?es" by (rule elements_ok [OF raw otag_ok_None])
  have "bytes_wrote (new_DataWriter Little) []" by (simp add: bytes_wrote_def)
  from encode_any_elements [OF ok this] have enc: "schema_encode AnySchema (VStream ?es) = Inr (concat (map elem_bytes ?es))"
    by (auto simp: schema_encode_def encode_any_def bytes_wrote_def)
  have "fits_bytes AnySchema (VStream (map given ?es))" using given_any_ok [OF raw] by simp
  from decode_bytes [OF this] have "schema_decode AnySchema (concat (map elem_bytes ?es)) True = Inr (VStream (map given ?es))"
    using bytes_of_given [OF ok] by (auto simp: schema_decode_def)
  with enc encode_stream [OF raw] decode_given [OF assms] show ?thesis by blast
qed

theorem any_carries_value_witness:
  "\<exists>es bs es'. encodeTlv sample_schema sample_value False = Inr es \<and> schema_encode AnySchema (VStream es) = Inr bs \<and>
    schema_decode AnySchema bs True = Inr (VStream es') \<and> decodeTlv sample_schema es' = Inr sample_value"
  by (rule any_carries_value [OF fits_fits_bytes [OF sample_fits]])

section \<open>Values without a schema\<close>

text \<open>
  \<^verbatim>\<open>decodeAnyTlvStream\<close> turns a stream into arrays and objects.  The properties of an object are the numbers of tags; \<^verbatim>\<open>Object.keys\<close> gives them
  in increasing order.  The loops have as fuel the number of elements of the stream.
\<close>

datatype generic_value = GPrim TlvPrimitive | GArray "generic_value list" | GStruct "(int \<times> generic_value) list"

fun put_key :: "int \<Rightarrow> 'v \<Rightarrow> (int \<times> 'v) list \<Rightarrow> (int \<times> 'v) list" where
  "put_key k v [] = [(k, v)]"
| "put_key k v ((k', v') # kvs) = (if k < k' then (k, v) # (k', v') # kvs else if k = k' then (k, v) # kvs else (k', v') # put_key k v kvs)"

fun decodeGenericElement :: "nat \<Rightarrow> TlvElement \<Rightarrow> bool \<Rightarrow> TlvArrayReader \<Rightarrow> (generic_value \<times> TlvArrayReader) result"
and decodeGenericArrayOrList :: "nat \<Rightarrow> generic_value list \<Rightarrow> TlvArrayReader \<Rightarrow> (generic_value \<times> TlvArrayReader) result"
and decodeGenericStructure :: "nat \<Rightarrow> (int \<times> generic_value) list \<Rightarrow> TlvArrayReader \<Rightarrow> (generic_value \<times> TlvArrayReader) result" where
  "decodeGenericElement n element allowTag r =
     (case el_type element of
        TLArray \<Rightarrow> decodeGenericArrayOrList n [] r
      | TLList \<Rightarrow> decodeGenericArrayOrList n [] r
      | TLStructure \<Rightarrow> decodeGenericStructure n [] r
      | TLEndOfContainer \<Rightarrow> Inl UnexpectedDataError
      | TLOther _ \<Rightarrow> Inl UnexpectedDataError
      | ty \<Rightarrow>
          if el_tag element \<noteq> None \<and> \<not> allowTag then Inl UnexpectedDataError
          else rbind (array_readPrimitive ty r) (\<lambda>(p, r). Inr (GPrim p, r)))"
| "decodeGenericArrayOrList 0 acc r = Inl OutOfFuel"
| "decodeGenericArrayOrList (Suc n) acc r =
     (case array_readElement r of
        (None, r) \<Rightarrow> Inl TypeError
      | (Some element, r) \<Rightarrow>
          if el_type element = TLEndOfContainer then Inr (GArray acc, r)
          else if el_tag element \<noteq> None then Inl UnexpectedDataError
          else rbind (decodeGenericElement n element False r) (\<lambda>(v, r). decodeGenericArrayOrList n (acc @ [v]) r))"
| "decodeGenericStructure 0 acc r = Inl OutOfFuel"
| "decodeGenericStructure (Suc n) acc r =
     (case array_readElement r of
        (None, r) \<Rightarrow> Inl TypeError
      | (Some element, r) \<Rightarrow>
          if el_type element = TLEndOfContainer then Inr (GStruct acc, r)
          else case snd (tag_fields (el_tag element)) of
                 None \<Rightarrow> Inl UnexpectedDataError
               | Some i \<Rightarrow>
                   rbind (decodeGenericElement n element True r) (\<lambda>(v, r). decodeGenericStructure n (put_key i v acc) r))"

definition decodeAnyTlvStream :: "TlvStream \<Rightarrow> generic_value result" where
  "decodeAnyTlvStream encoded =
     (if encoded = [] then Inr (GPrim PUndefined)
      else case array_readElement (new_TlvArrayReader encoded) of
             (None, r) \<Rightarrow> Inl TypeError
           | (Some element, r) \<Rightarrow>
               rbind (decodeGenericElement (length encoded) element False r) (\<lambda>(result, r).
                 case array_readElement r of (None, _) \<Rightarrow> Inr result | (Some _, _) \<Rightarrow> Inl UnexpectedDataError))"

text \<open>
  The rules of \<open>tlv_source\<close> for the end of a decoder apply to the reader of streams.
\<close>

lemma element_read:
  "array_readElement r = (x, r') \<Longrightarrow> x \<noteq> None \<Longrightarrow> rd_left ArrayReader r' < rd_left ArrayReader r"
  by (auto simp: array_readElement_def ArrayReader_def split: if_splits)

lemma ends_before:
  "stream_source.ends r' x \<Longrightarrow> rd_left ArrayReader r' < rd_left ArrayReader r \<Longrightarrow> stream_source.ends r x"
  by (auto simp: stream_source.ends_def split: sum.splits)

lemma generic_ends:
  "rd_left ArrayReader r < n \<Longrightarrow> stream_source.ends r (decodeGenericElement n element allowTag r)"
  "rd_left ArrayReader r < n \<Longrightarrow> stream_source.ends r (decodeGenericArrayOrList n acc r)"
  "rd_left ArrayReader r < n \<Longrightarrow> stream_source.ends r (decodeGenericStructure n kvs r)"
proof (induction n element allowTag r and n acc r and n kvs r rule: decodeGenericElement_decodeGenericArrayOrList_decodeGenericStructure.induct)
  case (1 n element allowTag r)
  have "stream_source.ends r (rbind (array_readPrimitive ty r) (\<lambda>(p, r). Inr (GPrim p, r)))" for ty
    by (auto simp: array_readPrimitive_def)
  with 1 show ?case by (cases "el_type element") auto
next
  case (3 n acc r)
  obtain x r1 where x: "array_readElement r = (x, r1)" by fastforce
  show ?case
  proof (cases x)
    case (Some element)
    then have left: "rd_left ArrayReader r1 < rd_left ArrayReader r" using element_read [OF x] by simp
    show ?thesis
    proof (cases "el_type element = TLEndOfContainer \<or> el_tag element \<noteq> None")
      case False
      then have "stream_source.ends r1 (decodeGenericElement n element False r1)" using 3 x Some left by simp
      then have "stream_source.ends r1 (rbind (decodeGenericElement n element False r1) (\<lambda>(v, r). decodeGenericArrayOrList n (acc @ [v]) r))"
        using 3(2) [OF x [symmetric] Some] False 3(3) left by (intro stream_source.ends_bind) auto
      from ends_before [OF this left] show ?thesis using x Some False by (simp del: decodeGenericElement.simps)
    qed (use x Some left in auto)
  qed (simp add: x)
next
  case (5 n kvs r)
  obtain x r1 where x: "array_readElement r = (x, r1)" by fastforce
  show ?case
  proof (cases x)
    case (Some element)
    then have left: "rd_left ArrayReader r1 < rd_left ArrayReader r" using element_read [OF x] by simp
    show ?thesis
    proof (cases "el_type element = TLEndOfContainer \<or> snd (tag_fields (el_tag element)) = None")
      case False
      then obtain i where i: "el_type element \<noteq> TLEndOfContainer" "snd (tag_fields (el_tag element)) = Some i" by auto
      then have "stream_source.ends r1 (decodeGenericElement n element True r1)" using 5 x Some left by simp
      then have "stream_source.ends r1 (rbind (decodeGenericElement n element True r1) (\<lambda>(v, r). decodeGenericStructure n (put_key i v kvs) r))"
        using 5(2) [OF x [symmetric] Some] i 5(3) left by (intro stream_source.ends_bind) auto
      from ends_before [OF this left] show ?thesis using x Some i by (simp del: decodeGenericElement.simps)
    qed (use x Some left in auto)
  qed (simp add: x)
qed auto

text \<open>
  The decoder without a schema ends on every stream: it gives a value or refuses the stream, and never runs out of fuel.
\<close>

theorem generic_decoding_ends: "decodeAnyTlvStream es \<noteq> Inl OutOfFuel"
proof (cases es)
  case (Cons e es')
  have read: "array_readElement (new_TlvArrayReader es) = (Some e, \<lparr>ar_elements = es, ar_next = 1\<rparr>)"
    using Cons by (simp add: array_readElement_def new_TlvArrayReader_def)
  have "stream_source.ends \<lparr>ar_elements = es, ar_next = 1\<rparr> (decodeGenericElement (length es) e False \<lparr>ar_elements = es, ar_next = 1\<rparr>)"
    using Cons by (intro generic_ends) (simp add: ArrayReader_def)
  moreover have "decodeAnyTlvStream es = rbind (decodeGenericElement (length es) e False \<lparr>ar_elements = es, ar_next = 1\<rparr>) (\<lambda>(result, r).
      case array_readElement r of (None, _) \<Rightarrow> Inr result | (Some _, _) \<Rightarrow> Inl UnexpectedDataError)"
    unfolding decodeAnyTlvStream_def read using Cons by (simp del: decodeGenericElement.simps)
  ultimately show ?thesis
    by (cases "decodeGenericElement (length es) e False \<lparr>ar_elements = es, ar_next = 1\<rparr>")
      (auto simp del: decodeGenericElement.simps split: option.splits prod.splits)
qed (simp add: decodeAnyTlvStream_def)

end
