(* ===== verification/AttributeData.thy ===== *)
theory AttributeData
  imports TlvStreams "HOL-Library.AList"
begin

text \<open>
  Attribute reports: \<^verbatim>\<open>protocol/interaction/AttributeDataEncoder.ts\<close> and \<^verbatim>\<open>AttributeDataDecoder.ts\<close>.  A report names an attribute by its path
  and carries its value as a raw stream.  To save space a path may leave out what it shares with the last complete one (tag compression), and a
  list may be sent in chunks, an empty list and one report per element.  The decoder completes the paths, groups the reports of a path and puts
  lists together again.  The definitions of the clusters, which say what schema an attribute has, are an argument.
\<close>

section \<open>Paths and reports\<close>

record AttributePath =
  ap_enableTagCompression :: "bool option"
  ap_nodeId :: "int option"
  ap_endpointId :: "int option"
  ap_clusterId :: "int option"
  ap_attributeId :: "int option"
  ap_listIndex :: list_index

record AttributeDataPayload =
  adp_path :: AttributePath
  adp_schema :: tlv_schema
  adp_payload :: tlv_value
  adp_dataVersion :: "int option"

record AttributeStatus =
  ats_path :: AttributePath
  ats_status :: "int option"
  ats_clusterStatus :: "int option"

record AttributeReportPayload =
  rp_attributeData :: "AttributeDataPayload option"
  rp_attributeStatus :: "AttributeStatus option"

text \<open>\<^verbatim>\<open>TlvAttributeData\<close>: a report as it is received.\<close>

record AttributeData =
  atd_path :: AttributePath
  atd_data :: TlvStream
  atd_dataVersion :: "int option"

section \<open>Chunks\<close>

definition canAttributePayloadBeChunked :: "AttributeReportPayload \<Rightarrow> bool" where
  "canAttributePayloadBeChunked attributePayload =
     (case rp_attributeData attributePayload of
        None \<Rightarrow> False
      | Some d \<Rightarrow>
          (case (adp_schema d, adp_payload d) of
             (ArraySchema _ _ _, VArray vs) \<Rightarrow> length vs > 0 \<and> ap_listIndex (adp_path d) = LUndefined
           | _ \<Rightarrow> False))"

definition chunkAttributePayload :: "AttributeReportPayload \<Rightarrow> AttributeReportPayload list result" where
  "chunkAttributePayload attributePayload =
     (case rp_attributeData attributePayload of
        None \<Rightarrow> Inl MatterFlowError
      | Some d \<Rightarrow>
          (case (adp_schema d, adp_payload d) of
             (ArraySchema elementSchema mn mx, VArray payload) \<Rightarrow>
               Inr (\<lparr>rp_attributeData = Some (d\<lparr>adp_path := (adp_path d)\<lparr>ap_listIndex := LUndefined\<rparr>, adp_payload := VArray []\<rparr>),
                     rp_attributeStatus = None\<rparr> #
                    map (\<lambda>element.
                      \<lparr>rp_attributeData = Some (d\<lparr>adp_schema := elementSchema, adp_path := (adp_path d)\<lparr>ap_listIndex := LNull\<rparr>,
                         adp_payload := element\<rparr>),
                       rp_attributeStatus = None\<rparr>) payload)
           | _ \<Rightarrow> Inl MatterFlowError))"

section \<open>Tag compression\<close>

text \<open>
  \<^verbatim>\<open>Array.prototype.sort\<close> is stable.  For a consistent comparison there is one result; it is the one insertion gives.
\<close>

fun insert_by :: "('a \<Rightarrow> 'a \<Rightarrow> int) \<Rightarrow> 'a \<Rightarrow> 'a list \<Rightarrow> 'a list" where
  "insert_by cmp x [] = [x]"
| "insert_by cmp x (y # ys) = (if cmp x y \<le> 0 then x # y # ys else y # insert_by cmp x ys)"

definition js_sort :: "('a \<Rightarrow> 'a \<Rightarrow> int) \<Rightarrow> 'a list \<Rightarrow> 'a list" where
  "js_sort cmp xs = foldr (insert_by cmp) xs []"

definition report_path :: "AttributeReportPayload \<Rightarrow> AttributePath option" where
  "report_path data =
     (case rp_attributeData data of
        Some d \<Rightarrow> Some (adp_path d)
      | None \<Rightarrow> map_option ats_path (rp_attributeStatus data))"

fun compare_field :: "int option \<Rightarrow> int option \<Rightarrow> int \<Rightarrow> int" where
  "compare_field (Some a) (Some b) otherwise = (if a \<noteq> b then (if a < b then - 1 else 1) else otherwise)"
| "compare_field _ _ otherwise = otherwise"

definition sortAttributeDataByPath :: "AttributeReportPayload \<Rightarrow> AttributeReportPayload \<Rightarrow> int" where
  "sortAttributeDataByPath data1 data2 =
     (let path1 = report_path data1; path2 = report_path data2;
          field = (\<lambda>f. compare_field (Option.bind path1 f) (Option.bind path2 f))
      in field ap_nodeId (field ap_endpointId (field ap_clusterId (field ap_attributeId 0))))"

record FullAttributePath =
  fp_nodeId :: "int option"
  fp_endpointId :: int
  fp_clusterId :: int
  fp_attributeId :: int
  fp_dataVersion :: "int option"

definition compressPath ::
  "AttributePath \<Rightarrow> int option \<Rightarrow> FullAttributePath option \<Rightarrow> AttributePath \<times> FullAttributePath option" where
  "compressPath path dataVersion lastFullPath =
     (case (ap_endpointId path, ap_clusterId path, ap_attributeId path) of
        (Some endpointId, Some clusterId, Some attributeId) \<Rightarrow>
          (let newFullPath =
             (path\<lparr>ap_enableTagCompression := None\<rparr>,
              Some \<lparr>fp_nodeId = ap_nodeId path, fp_endpointId = endpointId, fp_clusterId = clusterId,
                fp_attributeId = attributeId, fp_dataVersion = dataVersion\<rparr>)
           in case lastFullPath of
                None \<Rightarrow> newFullPath
              | Some lastFull \<Rightarrow>
                  if dataVersion \<noteq> None \<and> dataVersion \<noteq> fp_dataVersion lastFull then newFullPath
                  else
                    let sameEndpoint = (endpointId = fp_endpointId lastFull);
                        sameNode = (ap_nodeId path = fp_nodeId lastFull \<and> ap_nodeId path \<noteq> None);
                        compressedPath = path\<lparr>ap_enableTagCompression := Some True\<rparr>;
                        compressedPath = (if sameEndpoint then compressedPath\<lparr>ap_endpointId := None\<rparr> else compressedPath);
                        compressedPath = (if sameNode then compressedPath\<lparr>ap_nodeId := None\<rparr> else compressedPath)
                    in if \<not> sameEndpoint \<and> \<not> sameNode then newFullPath else (compressedPath, lastFullPath))
      | _ \<Rightarrow> (path, lastFullPath))"

definition compress_report ::
  "AttributeReportPayload \<Rightarrow> FullAttributePath option \<Rightarrow> AttributeReportPayload \<times> FullAttributePath option" where
  "compress_report report lastFull =
     (let (data, lastFull) =
        (case rp_attributeData report of
           None \<Rightarrow> (None, lastFull)
         | Some d \<Rightarrow>
             (let (path, lastFull) = compressPath (adp_path d) (adp_dataVersion d) lastFull
              in (Some (d\<lparr>adp_path := path,
                     adp_dataVersion := (if ap_enableTagCompression path = Some True then None else adp_dataVersion d)\<rparr>), lastFull)));
          (status, lastFull) =
        (case rp_attributeStatus report of
           None \<Rightarrow> (None, lastFull)
         | Some st \<Rightarrow> (let (path, lastFull) = compressPath (ats_path st) None lastFull in (Some (st\<lparr>ats_path := path\<rparr>), lastFull)))
      in (\<lparr>rp_attributeData = data, rp_attributeStatus = status\<rparr>, lastFull))"

fun compress_all :: "AttributeReportPayload list \<Rightarrow> FullAttributePath option \<Rightarrow> AttributeReportPayload list" where
  "compress_all [] lastFull = []"
| "compress_all (report # reports) lastFull = (case compress_report report lastFull of (r, lastFull) \<Rightarrow> r # compress_all reports lastFull)"

definition compressAttributeDataReportTags :: "AttributeReportPayload list \<Rightarrow> AttributeReportPayload list" where
  "compressAttributeDataReportTags data = compress_all (js_sort sortAttributeDataByPath data) None"

section \<open>Completing paths and grouping\<close>

definition complete_path :: "AttributePath \<Rightarrow> bool" where
  "complete_path path \<longleftrightarrow> ap_endpointId path \<noteq> None \<and> ap_clusterId path \<noteq> None \<and> ap_attributeId path \<noteq> None"

definition or_last :: "'a option \<Rightarrow> 'a option \<Rightarrow> 'a option" where
  "or_last a b = (if a = None then b else a)"

definition fill_path :: "FullAttributePath \<Rightarrow> AttributeData \<Rightarrow> AttributeData" where
  "fill_path lastPath value =
     (let path = atd_path value
      in value\<lparr>atd_path := path\<lparr>ap_nodeId := or_last (ap_nodeId path) (fp_nodeId lastPath),
             ap_endpointId := or_last (ap_endpointId path) (Some (fp_endpointId lastPath)),
             ap_clusterId := or_last (ap_clusterId path) (Some (fp_clusterId lastPath)),
             ap_attributeId := or_last (ap_attributeId path) (Some (fp_attributeId lastPath))\<rparr>,
           atd_dataVersion := or_last (atd_dataVersion value) (fp_dataVersion lastPath)\<rparr>)"

definition full_path_of :: "AttributeData \<Rightarrow> FullAttributePath" where
  "full_path_of value =
     (let path = atd_path value
      in \<lparr>fp_nodeId = ap_nodeId path, fp_endpointId = the (ap_endpointId path), fp_clusterId = the (ap_clusterId path),
          fp_attributeId = the (ap_attributeId path), fp_dataVersion = atd_dataVersion value\<rparr>)"

fun resolve_tags :: "bool \<Rightarrow> FullAttributePath option \<Rightarrow> AttributeData list \<Rightarrow> AttributeData list result" where
  "resolve_tags acceptWildcardPaths lastPath [] = Inr []"
| "resolve_tags acceptWildcardPaths lastPath (value # values) =
     (if ap_enableTagCompression (atd_path value) = Some True then
        (case lastPath of
           None \<Rightarrow> Inl UnexpectedDataError
         | Some lastFull \<Rightarrow>
             rbind (resolve_tags acceptWildcardPaths lastPath values) (\<lambda>rest. Inr (fill_path lastFull value # rest)))
      else if complete_path (atd_path value) then
        rbind (resolve_tags acceptWildcardPaths (Some (full_path_of value)) values) (\<lambda>rest. Inr (value # rest))
      else if \<not> acceptWildcardPaths then Inl UnexpectedDataError
      else rbind (resolve_tags acceptWildcardPaths lastPath values) (\<lambda>rest. Inr (value # rest)))"

text \<open>The key of a group is the text of the four numbers; the numbers stand for it.\<close>

type_synonym path_key = "int option \<times> int option \<times> int option \<times> int option"

definition map_id :: "AttributeData \<Rightarrow> path_key" where
  "map_id value = (let path = atd_path value in (ap_nodeId path, ap_endpointId path, ap_clusterId path, ap_attributeId path))"

definition add_to_group :: "AttributeData \<Rightarrow> (path_key \<times> AttributeData list) list \<Rightarrow> (path_key \<times> AttributeData list) list" where
  "add_to_group value responseList =
     (let list = (case map_of responseList (map_id value) of None \<Rightarrow> [] | Some vs \<Rightarrow> vs)
      in AList.update (map_id value) (list @ [value]) responseList)"

definition group_by_path :: "AttributeData list \<Rightarrow> AttributeData list list" where
  "group_by_path data = map snd (fold add_to_group data [])"

definition normalizeAttributeData :: "AttributeData list \<Rightarrow> bool \<Rightarrow> AttributeData list list result" where
  "normalizeAttributeData data acceptWildcardPaths =
     rbind (resolve_tags acceptWildcardPaths None data) (\<lambda>data. Inr (group_by_path data))"

section \<open>Decoding values\<close>

definition as_chunks :: "AttributeData list \<Rightarrow> ArrayAsChunked" where
  "as_chunks values = map (\<lambda>v. (ap_listIndex (atd_path v), atd_data v)) values"

definition single_value :: "AttributeData list \<Rightarrow> AttributeData option" where
  "single_value values = (case values of [v] \<Rightarrow> if ap_listIndex (atd_path v) = LUndefined then Some v else None | _ \<Rightarrow> None)"

definition decodeAttributeValueWithSchema :: "tlv_schema \<Rightarrow> AttributeData list \<Rightarrow> tlv_value \<Rightarrow> tlv_value result" where
  "decodeAttributeValueWithSchema schema values defaultValue =
     (if values = [] then Inr defaultValue
      else case single_value values of
             Some v \<Rightarrow> decodeTlv schema (atd_data v)
           | None \<Rightarrow>
               (case schema of
                  ArraySchema s mn mx \<Rightarrow>
                    rbind (decodeFromChunkedArray s mn mx (as_chunks values) None) (\<lambda>vs. Inr (VArray vs))
                | _ \<Rightarrow> Inl UnexpectedDataError))"

text \<open>The definition of an attribute in a cluster.\<close>

record Attribute =
  at_id :: int
  at_schema :: tlv_schema
  at_optional :: bool
  at_default :: tlv_value

definition decodeValueForAttribute :: "Attribute \<Rightarrow> AttributeData list \<Rightarrow> tlv_value result" where
  "decodeValueForAttribute attribute values =
     (if values = [] then
        (if at_optional attribute then Inr VUndefined
         else if at_default attribute = VUndefined then Inl AttributeError
         else Inr (at_default attribute))
      else decodeAttributeValueWithSchema (at_schema attribute) values VUndefined)"

text \<open>The element streams of the chunks of an unknown attribute, from \<^verbatim>\<open>new ArraySchema(TlvAny)\<close>, whose maximum length is 65535.\<close>

definition stream_of :: "tlv_value \<Rightarrow> TlvStream result" where
  "stream_of v = (case v of VStream es \<Rightarrow> Inr es | _ \<Rightarrow> Inl TypeError)"

definition decodeUnknownAttributeValue :: "AttributeData list \<Rightarrow> generic_value result" where
  "decodeUnknownAttributeValue values =
     (if values = [] then Inr (GPrim PUndefined)
      else case single_value values of
             Some v \<Rightarrow> rbind (decodeTlv AnySchema (atd_data v)) (\<lambda>t. rbind (stream_of t) decodeAnyTlvStream)
           | None \<Rightarrow>
               rbind (decodeFromChunkedArray AnySchema 0 65535 (as_chunks values) None) (\<lambda>vs.
                 rbind (rmap (\<lambda>v. rbind (stream_of v) decodeAnyTlvStream) vs) (\<lambda>gs. Inr (GArray gs))))"

datatype attribute_value = Known tlv_value | Generic generic_value

text \<open>The name of an attribute that is not defined is made from its number.\<close>

datatype attribute_name = AttributeName string | UnknownAttribute int

record DecodedAttributeValue =
  dav_nodeId :: "int option"
  dav_endpointId :: int
  dav_clusterId :: int
  dav_attributeId :: int
  dav_attributeName :: attribute_name
  dav_version :: "int option"
  dav_value :: attribute_value

text \<open>
  \<open>attributes\<close> gives the attributes a cluster defines, with their names; an unknown cluster defines those every cluster has.
\<close>

definition getClusterAttributeById :: "(string \<times> Attribute) list \<Rightarrow> int \<Rightarrow> (string \<times> Attribute) option" where
  "getClusterAttributeById attributes attributeId = map_of (rev (map (\<lambda>(name, a). (at_id a, (name, a))) attributes)) attributeId"

definition decode_group :: "(int \<Rightarrow> (string \<times> Attribute) list) \<Rightarrow> AttributeData list \<Rightarrow> DecodedAttributeValue list result" where
  "decode_group attributes values =
     (case values of
        [] \<Rightarrow> Inl TypeError
      | first # _ \<Rightarrow>
          (let path = atd_path first
           in case (ap_endpointId path, ap_clusterId path, ap_attributeId path) of
                (Some endpointId, Some clusterId, Some attributeId) \<Rightarrow>
                  (let result = (\<lambda>name value.
                         \<lparr>dav_nodeId = ap_nodeId path, dav_endpointId = endpointId, dav_clusterId = clusterId,
                          dav_attributeId = attributeId, dav_attributeName = name, dav_version = atd_dataVersion first, dav_value = value\<rparr>)
                   in case getClusterAttributeById (attributes clusterId) attributeId of
                        None \<Rightarrow>
                          (case decodeUnknownAttributeValue values of
                             Inl _ \<Rightarrow> Inr []
                           | Inr v \<Rightarrow> Inr [result (UnknownAttribute attributeId) (Generic v)])
                      | Some (name, attribute) \<Rightarrow>
                          (case decodeValueForAttribute attribute values of
                             Inl _ \<Rightarrow> Inr []
                           | Inr v \<Rightarrow> Inr [result (AttributeName name) (Known v)]))
              | _ \<Rightarrow> Inl UnexpectedDataError))"

definition normalizeAndDecodeAttributeData ::
  "(int \<Rightarrow> (string \<times> Attribute) list) \<Rightarrow> AttributeData list \<Rightarrow> DecodedAttributeValue list result" where
  "normalizeAndDecodeAttributeData attributes data =
     rbind (normalizeAttributeData data False) (\<lambda>responseList.
       rbind (rmap (decode_group attributes) responseList) (\<lambda>rs. Inr (concat rs)))"

record AttributeReport =
  ar_attributeStatus :: "AttributeStatus option"
  ar_attributeData :: "AttributeData option"

definition normalizeAndDecodeReadAttributeReport ::
  "(int \<Rightarrow> (string \<times> Attribute) list) \<Rightarrow> AttributeReport list \<Rightarrow> DecodedAttributeValue list result" where
  "normalizeAndDecodeReadAttributeReport attributes data = normalizeAndDecodeAttributeData attributes (List.map_filter ar_attributeData data)"

end
