(* ===== verification/AttributeLaws.thy ===== *)
theory AttributeLaws
  imports AttributeData "HOL-Library.Multiset"
begin

text \<open>
  What attribute reports promise: compressed paths are completed to what they were, and the values of attributes arrive, whole or in chunks.
\<close>

section \<open>Tag compression\<close>

lemma insert_by_mset: "mset (insert_by cmp x ys) = add_mset x (mset ys)"
  by (induction ys) auto

lemma js_sort_mset: "mset (js_sort cmp xs) = mset xs"
  by (induction xs) (simp_all add: js_sort_def insert_by_mset)

text \<open>The stream that arrives for a value: see \<open>any_carries_value\<close>.\<close>

definition arrived :: "tlv_schema \<Rightarrow> tlv_value \<Rightarrow> TlvStream" where
  "arrived s v = map given (elements s v None)"

text \<open>A report as it reaches the peer, when \<open>f\<close> gives the stream that arrives for a value.\<close>

definition as_data :: "(tlv_schema \<Rightarrow> tlv_value \<Rightarrow> TlvStream) \<Rightarrow> AttributeDataPayload \<Rightarrow> AttributeData" where
  "as_data f d = \<lparr>atd_path = adp_path d, atd_data = f (adp_schema d) (adp_payload d), atd_dataVersion = adp_dataVersion d\<rparr>"

definition as_report :: "(tlv_schema \<Rightarrow> tlv_value \<Rightarrow> TlvStream) \<Rightarrow> AttributeReportPayload \<Rightarrow> AttributeReport" where
  "as_report f r = \<lparr>ar_attributeStatus = rp_attributeStatus r, ar_attributeData = map_option (as_data f) (rp_attributeData r)\<rparr>"

definition clear :: "AttributeData \<Rightarrow> AttributeData" where
  "clear v = v\<lparr>atd_path := (atd_path v)\<lparr>ap_enableTagCompression := None\<rparr>\<rparr>"

text \<open>The reports the compression is for: complete paths, a data version, and node ids in all of them or in none.\<close>

definition compressible :: "bool \<Rightarrow> AttributeReportPayload \<Rightarrow> bool" where
  "compressible hasNode r \<longleftrightarrow>
     (case rp_attributeData r of
        None \<Rightarrow> True
      | Some d \<Rightarrow> complete_path (adp_path d) \<and> adp_dataVersion d \<noteq> None \<and> (ap_nodeId (adp_path d) \<noteq> None) = hasNode \<and>
          ap_enableTagCompression (adp_path d) \<noteq> Some True)"

text \<open>The last paths of the two sides: the same, unless a status came last, whose path is of no use for data.\<close>

definition agrees :: "bool \<Rightarrow> FullAttributePath option \<Rightarrow> FullAttributePath option \<Rightarrow> bool" where
  "agrees hasNode sender receiver \<longleftrightarrow>
     (\<exists>l. sender = Some l \<and> fp_dataVersion l = None) \<or>
     (sender = receiver \<and> (\<forall>l. sender = Some l \<longrightarrow> (fp_nodeId l \<noteq> None) = hasNode))"

definition full_of :: "AttributePath \<Rightarrow> int option \<Rightarrow> FullAttributePath" where
  "full_of p version = \<lparr>fp_nodeId = ap_nodeId p, fp_endpointId = the (ap_endpointId p), fp_clusterId = the (ap_clusterId p),
     fp_attributeId = the (ap_attributeId p), fp_dataVersion = version\<rparr>"

lemma compressPath_data:
  assumes "complete_path p" and "version \<noteq> None" and "(ap_nodeId p \<noteq> None) = hasNode" and "agrees hasNode lastFull received"
    and "compressPath p version lastFull = (p', lastFull')"
  shows "p' = p\<lparr>ap_enableTagCompression := None\<rparr> \<and> lastFull' = Some (full_of p version) \<or>
    (\<exists>l. lastFull = Some l \<and> received = Some l \<and> lastFull' = lastFull \<and> ap_enableTagCompression p' = Some True \<and>
       version = fp_dataVersion l \<and> ap_clusterId p' = ap_clusterId p \<and> ap_attributeId p' = ap_attributeId p \<and> ap_listIndex p' = ap_listIndex p \<and>
       or_last (ap_nodeId p') (fp_nodeId l) = ap_nodeId p \<and> or_last (ap_endpointId p') (Some (fp_endpointId l)) = ap_endpointId p)"
  using assms
  by (cases lastFull)
    (auto simp: complete_path_def compressPath_def full_of_def agrees_def or_last_def Let_def split: if_splits)

lemma compressPath_status:
  assumes "compressPath p None lastFull = (p', lastFull')" and "agrees hasNode lastFull received"
  shows "agrees hasNode lastFull' received"
  using assms
  by (cases lastFull) (auto simp: compressPath_def agrees_def Let_def split: option.splits if_splits)

lemma fill_path_restores:
  assumes "atd_path v = p'" and "ap_clusterId p' = ap_clusterId p" and "ap_attributeId p' = ap_attributeId p" and "ap_listIndex p' = ap_listIndex p"
    and "or_last (ap_nodeId p') (fp_nodeId l) = ap_nodeId p" and "or_last (ap_endpointId p') (Some (fp_endpointId l)) = ap_endpointId p"
    and "complete_path p" and "atd_dataVersion v = None" and "fp_dataVersion l = version"
  shows "clear (fill_path l v) = clear \<lparr>atd_path = p, atd_data = atd_data v, atd_dataVersion = version\<rparr>"
  using assms
  by (cases v; cases p; cases p') (auto simp: clear_def fill_path_def Let_def or_last_def complete_path_def)

lemma full_data:
  "atd_path (as_data f d) = adp_path d" "atd_dataVersion (as_data f d) = adp_dataVersion d"
  "clear (as_data f (d\<lparr>adp_path := (adp_path d)\<lparr>ap_enableTagCompression := None\<rparr>\<rparr>)) = clear (as_data f d)"
  by (simp_all add: as_data_def clear_def)

lemma compress_resolve:
  assumes "list_all (compressible hasNode) rs" and "agrees hasNode lastFull received"
  shows "\<exists>vs. resolve_tags False received (List.map_filter ar_attributeData (map (as_report f) (compress_all rs lastFull))) = Inr vs \<and>
    map clear vs = map clear (List.map_filter ar_attributeData (map (as_report f) rs))"
  using assms
proof (induction rs arbitrary: lastFull received)
  case Nil
  then show ?case by simp
next
  case (Cons r rs)
  obtain r' last2 where r': "compress_report r lastFull = (r', last2)" by (cases "compress_report r lastFull")
  show ?case
  proof (cases "rp_attributeData r")
    case None
    then have "rp_attributeData r' = None" and "agrees hasNode last2 received"
      using r' compressPath_status Cons.prems(2)
      by (auto simp: compress_report_def Let_def case_prod_unfold split: option.splits)
        (metis prod.collapse)+
    with Cons.IH [of last2 received] Cons.prems(1) r' None show ?thesis
      by (simp add: as_report_def List.map_filter_def)
  next
    case (Some d)
    obtain p' last1 where p': "compressPath (adp_path d) (adp_dataVersion d) lastFull = (p', last1)" by fastforce
    have last2: "agrees hasNode last2 rec" if "agrees hasNode last1 rec" for rec
      using r' Some p' compressPath_status that
      by (auto simp: compress_report_def Let_def case_prod_unfold split: option.splits) (metis prod.collapse)+
    have ok: "complete_path (adp_path d)" "adp_dataVersion d \<noteq> None" "(ap_nodeId (adp_path d) \<noteq> None) = hasNode"
      using Cons.prems(1) Some by (simp_all add: compressible_def)
    have d': "ar_attributeData (as_report f r') = Some (as_data f (d\<lparr>adp_path := p',
        adp_dataVersion := (if ap_enableTagCompression p' = Some True then None else adp_dataVersion d)\<rparr>))"
      using r' Some p' by (auto simp: compress_report_def as_report_def Let_def case_prod_unfold)
    let ?rest = "List.map_filter ar_attributeData (map (as_report f) (compress_all rs last2))"
    have sent: "List.map_filter ar_attributeData (map (as_report f) (compress_all (r # rs) lastFull)) =
        as_data f (d\<lparr>adp_path := p', adp_dataVersion := (if ap_enableTagCompression p' = Some True then None else adp_dataVersion d)\<rparr>) # ?rest"
      using r' d' by (simp add: List.map_filter_def)
    have goal: "map clear (List.map_filter ar_attributeData (map (as_report f) (r # rs))) =
        clear (as_data f d) # map clear (List.map_filter ar_attributeData (map (as_report f) rs))"
      using Some by (simp add: as_report_def List.map_filter_def)
    from compressPath_data [OF ok Cons.prems(2) p'] show ?thesis
    proof (elim disjE conjE exE)
      assume full: "p' = (adp_path d)\<lparr>ap_enableTagCompression := None\<rparr>" "last1 = Some (full_of (adp_path d) (adp_dataVersion d))"
      then have "agrees hasNode last2 last1" using ok by (intro last2) (auto simp: agrees_def full_of_def)
      with Cons.IH [of last2 last1] Cons.prems(1) obtain vs where "resolve_tags False last1 ?rest = Inr vs"
        "map clear vs = map clear (List.map_filter ar_attributeData (map (as_report f) rs))" by auto
      then show ?thesis
        unfolding sent goal using full ok
        by (simp add: full_data full_path_of_def full_of_def complete_path_def)
    next
      fix l
      assume l: "lastFull = Some l" "received = Some l" "last1 = lastFull" "ap_enableTagCompression p' = Some True"
        "adp_dataVersion d = fp_dataVersion l" "ap_clusterId p' = ap_clusterId (adp_path d)" "ap_attributeId p' = ap_attributeId (adp_path d)"
        "ap_listIndex p' = ap_listIndex (adp_path d)" "or_last (ap_nodeId p') (fp_nodeId l) = ap_nodeId (adp_path d)"
        "or_last (ap_endpointId p') (Some (fp_endpointId l)) = ap_endpointId (adp_path d)"
      then have "agrees hasNode last2 received" using Cons.prems(2) by (intro last2) simp
      with Cons.IH [of last2 received] Cons.prems(1) obtain vs where "resolve_tags False received ?rest = Inr vs"
        "map clear vs = map clear (List.map_filter ar_attributeData (map (as_report f) rs))" by auto
      moreover have "clear (fill_path l (as_data f (d\<lparr>adp_path := p', adp_dataVersion := None\<rparr>))) = clear (as_data f d)"
        using fill_path_restores [of "as_data f (d\<lparr>adp_path := p', adp_dataVersion := None\<rparr>)" p' "adp_path d" l "adp_dataVersion d"] l ok
        by (simp add: as_data_def)
      ultimately show ?thesis
        unfolding sent goal using l by (simp add: as_data_def)
    qed
  qed
qed

text \<open>Nothing after the completion of paths looks at the flag.\<close>

lemma clear_simps [simp]:
  "map_id (clear v) = map_id v" "atd_data (clear v) = atd_data v" "atd_dataVersion (clear v) = atd_dataVersion v"
  "ap_listIndex (atd_path (clear v)) = ap_listIndex (atd_path v)" "ap_nodeId (atd_path (clear v)) = ap_nodeId (atd_path v)"
  "ap_endpointId (atd_path (clear v)) = ap_endpointId (atd_path v)" "ap_clusterId (atd_path (clear v)) = ap_clusterId (atd_path v)"
  "ap_attributeId (atd_path (clear v)) = ap_attributeId (atd_path v)"
  by (simp_all add: clear_def map_id_def Let_def)

lemma update_map_snd: "AList.update k (g v) (map (\<lambda>(k, v). (k, g v)) al) = map (\<lambda>(k, v). (k, g v)) (AList.update k v al)"
  by (induction al) auto

lemma add_to_group_clear:
  "add_to_group (clear v) (map (\<lambda>(k, vs). (k, map clear vs)) al) = map (\<lambda>(k, vs). (k, map clear vs)) (add_to_group v al)"
proof -
  have look: "map_of (map (\<lambda>(k, vs). (k, map clear vs)) al) k = map_option (map clear) (map_of al k)" for k
    by (induction al) auto
  show ?thesis
    using update_map_snd [of "map_id v" "map clear" "[v]" al] update_map_snd [of "map_id v" "map clear" "the (map_of al (map_id v)) @ [v]" al]
    by (cases "map_of al (map_id v)") (simp_all add: add_to_group_def look)
qed

lemma group_clear: "group_by_path (map clear vs) = map (map clear) (group_by_path vs)"
proof -
  have "fold add_to_group (map clear vs) (map (\<lambda>(k, vs). (k, map clear vs)) al) = map (\<lambda>(k, vs). (k, map clear vs)) (fold add_to_group vs al)" for al
    by (induction vs arbitrary: al) (simp_all add: add_to_group_clear)
  from this [of "[]"] show ?thesis by (simp add: group_by_path_def case_prod_unfold comp_def)
qed

lemma decode_group_clear: "decode_group attributes (map clear vs) = decode_group attributes vs"
proof -
  have chunks: "as_chunks (map clear vs) = as_chunks vs" by (simp add: as_chunks_def)
  have single: "single_value (map clear vs) = map_option clear (single_value vs)"
    by (auto simp: single_value_def split: list.splits)
  have "decodeValueForAttribute a (map clear vs) = decodeValueForAttribute a vs" for a
    unfolding decodeValueForAttribute_def decodeAttributeValueWithSchema_def chunks single by (cases "single_value vs") simp_all
  moreover have "decodeUnknownAttributeValue (map clear vs) = decodeUnknownAttributeValue vs"
    unfolding decodeUnknownAttributeValue_def chunks single by (cases "single_value vs") simp_all
  ultimately show ?thesis
    by (cases vs) (simp_all add: decode_group_def Let_def split: option.splits prod.splits)
qed

lemma rmap_map_eq: "rmap g (map h xs) = rmap (\<lambda>x. g (h x)) xs"
  by (induction xs) simp_all

lemma decode_same_clear:
  assumes "map clear vs = map clear us"
  shows "rmap (decode_group attributes) (group_by_path vs) = rmap (decode_group attributes) (group_by_path us)"
proof -
  have "rmap (decode_group attributes) (group_by_path ws) = rmap (decode_group attributes) (group_by_path (map clear ws))" for ws
    by (simp add: group_clear rmap_map_eq decode_group_clear)
  then show ?thesis using assms by metis
qed

lemma resolve_plain:
  "list_all (\<lambda>v. complete_path (atd_path v) \<and> ap_enableTagCompression (atd_path v) \<noteq> Some True) vs \<Longrightarrow> resolve_tags w lastFull vs = Inr vs"
  by (induction vs arbitrary: lastFull) simp_all

lemma plain_reports:
  assumes "list_all (compressible hasNode) rs"
  shows "list_all (\<lambda>v. complete_path (atd_path v) \<and> ap_enableTagCompression (atd_path v) \<noteq> Some True)
    (List.map_filter ar_attributeData (map (as_report f) rs))"
  using assms
proof (induction rs)
  case (Cons r rs)
  then show ?case by (cases "rp_attributeData r") (simp_all add: List.map_filter_def as_report_def as_data_def compressible_def)
qed (simp add: List.map_filter_def)

text \<open>
  C29. Tag compression changes nothing for the reader: the decoder gives for the compressed reports, whatever statuses are between them,
  the attribute values, paths and versions it gives for the reports themselves in the order they were sorted into.
\<close>

theorem tag_compression_transparent:
  assumes "\<forall>r \<in> set data. compressible hasNode r"
  shows "normalizeAndDecodeReadAttributeReport attributes (map (as_report f) (compressAttributeDataReportTags data)) =
    normalizeAndDecodeReadAttributeReport attributes (map (as_report f) (js_sort sortAttributeDataByPath data)) \<and>
    mset (js_sort sortAttributeDataByPath data) = mset data"
proof -
  let ?rs = "js_sort sortAttributeDataByPath data"
  let ?vs = "List.map_filter ar_attributeData (map (as_report f) ?rs)"
  have "set ?rs = set data" by (rule mset_eq_setD [OF js_sort_mset])
  then have rs: "list_all (compressible hasNode) ?rs" using assms by (simp add: list_all_iff)
  have "agrees hasNode None None" by (simp add: agrees_def)
  from compress_resolve [OF rs this, of f] obtain us where us: "resolve_tags False None (List.map_filter ar_attributeData (map (as_report f) (compress_all ?rs None))) = Inr us"
    "map clear us = map clear ?vs"
    by blast
  have "resolve_tags False None ?vs = Inr ?vs"
    by (rule resolve_plain [OF plain_reports [OF rs]])
  then have "normalizeAndDecodeReadAttributeReport attributes (map (as_report f) ?rs) =
      rbind (rmap (decode_group attributes) (group_by_path ?vs)) (\<lambda>rs. Inr (concat rs))"
    unfolding normalizeAndDecodeReadAttributeReport_def normalizeAndDecodeAttributeData_def normalizeAttributeData_def by (simp only: rbind.simps)
  moreover have "normalizeAndDecodeReadAttributeReport attributes (map (as_report f) (compressAttributeDataReportTags data)) =
      rbind (rmap (decode_group attributes) (group_by_path us)) (\<lambda>rs. Inr (concat rs))"
    unfolding normalizeAndDecodeReadAttributeReport_def normalizeAndDecodeAttributeData_def normalizeAttributeData_def
      compressAttributeDataReportTags_def by (simp only: us(1) rbind.simps)
  ultimately show ?thesis using decode_same_clear [OF us(2)] js_sort_mset by simp
qed

definition sample_path :: "int option \<Rightarrow> int \<Rightarrow> AttributePath" where
  "sample_path node attribute =
     \<lparr>ap_enableTagCompression = None, ap_nodeId = node, ap_endpointId = Some 1, ap_clusterId = Some 6, ap_attributeId = Some attribute,
      ap_listIndex = LUndefined\<rparr>"

definition sample_data :: "int option \<Rightarrow> int \<Rightarrow> AttributeDataPayload" where
  "sample_data node attribute =
     \<lparr>adp_path = sample_path node attribute, adp_schema = TlvUInt8, adp_payload = VPrim (PNum 1), adp_dataVersion = Some 9\<rparr>"

lemmas sample_data_defs = sample_data_def sample_path_def TlvUInt8_def

definition whole :: "AttributeDataPayload \<Rightarrow> AttributeReportPayload" where
  "whole d = \<lparr>rp_attributeData = Some d, rp_attributeStatus = None\<rparr>"

theorem tag_compression_transparent_witness:
  "normalizeAndDecodeReadAttributeReport (\<lambda>_. [])
     (map (as_report arrived) (compressAttributeDataReportTags [whole (sample_data None 1), whole (sample_data None 0)])) =
   normalizeAndDecodeReadAttributeReport (\<lambda>_. []) (map (as_report arrived) [whole (sample_data None 0), whole (sample_data None 1)]) \<and>
   ap_endpointId (adp_path (the (rp_attributeData
     (compressAttributeDataReportTags [whole (sample_data None 1), whole (sample_data None 0)] ! 1)))) = None"
proof -
  have "js_sort sortAttributeDataByPath [whole (sample_data None 1), whole (sample_data None 0)] =
      [whole (sample_data None 0), whole (sample_data None 1)]"
    by (simp add: js_sort_def sortAttributeDataByPath_def report_path_def whole_def sample_data_defs Let_def)
  moreover have "\<forall>r \<in> set [whole (sample_data None 1), whole (sample_data None 0)]. compressible False r"
    by (simp add: compressible_def whole_def sample_data_defs complete_path_def)
  ultimately show ?thesis
    using tag_compression_transparent [of "[whole (sample_data None 1), whole (sample_data None 0)]" False "\<lambda>_. []" arrived]
    by (simp add: compressAttributeDataReportTags_def compress_report_def compressPath_def whole_def sample_data_defs Let_def)
qed

text \<open>
  A path without a node id that follows one with a node id is given that node id: of two reports with the same endpoint and data
  version, of which only the first names a node, the second arrives as one about the same node.
\<close>

theorem compression_invents_node:
  assumes "adp_path d1 = p1" and "adp_path d2 = p2" and "complete_path p1" and "complete_path p2" and "ap_nodeId p1 = Some n" and "ap_nodeId p2 = None"
    and "ap_endpointId p1 = ap_endpointId p2" and "ap_clusterId p1 = ap_clusterId p2" and "the (ap_attributeId p1) < the (ap_attributeId p2)"
    and "adp_dataVersion d1 = Some version" and "adp_dataVersion d2 = Some version"
  shows "\<exists>vs. resolve_tags False None (List.map_filter ar_attributeData (map (as_report f)
      (compressAttributeDataReportTags [whole d1, whole d2]))) = Inr vs \<and> map (\<lambda>v. ap_nodeId (atd_path v)) vs = [Some n, Some n]"
proof -
  obtain ep cl a1 a2 where p: "ap_endpointId p1 = Some ep" "ap_clusterId p1 = Some cl" "ap_attributeId p1 = Some a1"
    "ap_endpointId p2 = Some ep" "ap_clusterId p2 = Some cl" "ap_attributeId p2 = Some a2" "a1 < a2"
    using assms(3,4,7-9) by (auto simp: complete_path_def)
  have "js_sort sortAttributeDataByPath [whole d1, whole d2] = [whole d1, whole d2]"
    using assms(1,2,5,6) p by (simp add: js_sort_def sortAttributeDataByPath_def report_path_def whole_def Let_def)
  with assms p show ?thesis
    by (simp add: compressAttributeDataReportTags_def compress_report_def compressPath_def whole_def as_report_def as_data_def
        List.map_filter_def complete_path_def full_path_of_def fill_path_def or_last_def Let_def)
qed

theorem compression_invents_node_witness:
  "\<exists>vs. resolve_tags False None (List.map_filter ar_attributeData (map (as_report arrived)
      (compressAttributeDataReportTags [whole (sample_data (Some 77) 0), whole (sample_data None 1)]))) = Inr vs \<and>
    map (\<lambda>v. ap_nodeId (atd_path v)) vs = [Some 77, Some 77]"
  by (rule compression_invents_node [where version = 9 and ?p1.0 = "sample_path (Some 77) 0" and ?p2.0 = "sample_path None 1"]) (simp_all add: sample_data_defs complete_path_def)

section \<open>Values of attributes\<close>

text \<open>An attribute is reported as a whole or in chunks.\<close>

definition reported :: "AttributeDataPayload \<Rightarrow> AttributeReportPayload list \<Rightarrow> bool" where
  "reported d rs \<longleftrightarrow> rs = [whole d] \<or> chunkAttributePayload (whole d) = Inr rs"

definition reportable :: "AttributeDataPayload \<Rightarrow> bool" where
  "reportable d \<longleftrightarrow> complete_path (adp_path d) \<and> ap_enableTagCompression (adp_path d) \<noteq> Some True \<and>
     ap_listIndex (adp_path d) = LUndefined \<and> fits_bytes (adp_schema d) (adp_payload d)"

definition path_of :: "AttributeDataPayload \<Rightarrow> path_key" where
  "path_of d = (ap_nodeId (adp_path d), ap_endpointId (adp_path d), ap_clusterId (adp_path d), ap_attributeId (adp_path d))"

lemma append_arrived:
  "list_all (fits_bytes s) vs \<Longrightarrow> rfold (apply_chunk s mn mx) (map (\<lambda>x. (LNull, arrived s x)) vs) us = Inr (us @ vs)"
  by (induction vs arbitrary: us) (simp_all add: apply_chunk_def arrived_def decode_given)

lemma chunks_arrive:
  assumes "list_all (fits_bytes s) vs"
  shows "decodeFromChunkedArray s mn mx ((LUndefined, arrived (ArraySchema s mn mx) (VArray [])) # map (\<lambda>x. (LNull, arrived s x)) vs) None = Inr vs"
proof -
  have "decodeTlv (ArraySchema s mn mx) (arrived (ArraySchema s mn mx) (VArray [])) = Inr (VArray [])"
    unfolding arrived_def by (rule decode_given) simp
  with append_arrived [OF assms, of mn mx "[]"] show ?thesis
    by (simp add: decodeFromChunkedArray_def apply_chunk_def)
qed

text \<open>The reports of one attribute, as data.\<close>

definition data_of :: "AttributeReportPayload list \<Rightarrow> AttributeData list" where
  "data_of rs = List.map_filter ar_attributeData (map (as_report arrived) rs)"

lemma data_of_simps [simp]:
  "data_of [] = []" "data_of (rs @ rs') = data_of rs @ data_of rs'"
  "data_of [\<lparr>rp_attributeData = Some d, rp_attributeStatus = st\<rparr>] = [as_data arrived d]"
  by (simp_all add: data_of_def List.map_filter_def as_report_def)

lemma reported_cases:
  assumes "reported d rs" and "reportable d"
  obtains "data_of rs = [as_data arrived d]"
  | s mn mx vs where "adp_schema d = ArraySchema s mn mx" "adp_payload d = VArray vs" "vs \<noteq> []" "list_all (fits_bytes s) vs"
      "data_of rs = as_data arrived (d\<lparr>adp_payload := VArray []\<rparr>) #
         map (\<lambda>x. as_data arrived (d\<lparr>adp_schema := s, adp_path := (adp_path d)\<lparr>ap_listIndex := LNull\<rparr>, adp_payload := x\<rparr>)) vs"
proof (cases "rs = [whole d]")
  case True
  then show thesis using that(1) by (simp add: whole_def)
next
  case False
  then have c: "chunkAttributePayload (whole d) = Inr rs" using assms(1) by (simp add: reported_def)
  then obtain s mn mx vs where d: "adp_schema d = ArraySchema s mn mx" "adp_payload d = VArray vs"
    by (auto simp: chunkAttributePayload_def whole_def split: tlv_schema.splits tlv_value.splits)
  have path: "(adp_path d)\<lparr>ap_listIndex := LUndefined\<rparr> = adp_path d" using assms(2) by (simp add: reportable_def)
  have data: "data_of rs = as_data arrived (d\<lparr>adp_payload := VArray []\<rparr>) #
      map (\<lambda>x. as_data arrived (d\<lparr>adp_schema := s, adp_path := (adp_path d)\<lparr>ap_listIndex := LNull\<rparr>, adp_payload := x\<rparr>)) vs"
    using c d path
    by (auto simp: chunkAttributePayload_def whole_def data_of_def List.map_filter_def as_report_def comp_def)
  show thesis
  proof (cases vs)
    case Nil
    with data d(2) have "data_of rs = [as_data arrived d]" by (cases d) simp
    then show thesis by (rule that(1))
  next
    case (Cons v vs')
    moreover have "list_all (fits_bytes s) vs" using assms(2) d by (simp add: reportable_def)
    ultimately show thesis using that(2) [OF d] data by simp
  qed
qed

lemma reported_value:
  assumes "reported d rs" and "reportable d"
  shows "decodeAttributeValueWithSchema (adp_schema d) (data_of rs) dflt = Inr (adp_payload d)"
  using assms
proof (cases rule: reported_cases)
  case 1
  with assms(2) show ?thesis
    by (simp add: decodeAttributeValueWithSchema_def single_value_def as_data_def reportable_def arrived_def decode_given)
next
  case (2 s mn mx vs)
  then have single: "single_value (data_of rs) = None" by (cases vs) (simp_all add: single_value_def)
  have "as_chunks (data_of rs) =
      (LUndefined, arrived (ArraySchema s mn mx) (VArray [])) # map (\<lambda>x. (LNull, arrived s x)) vs"
    using 2 assms(2) by (simp add: as_chunks_def as_data_def reportable_def)
  with single chunks_arrive [OF 2(4), of mn mx] 2 show ?thesis
    by (simp add: decodeAttributeValueWithSchema_def)
qed

lemma reported_data:
  assumes "reported d rs" and "reportable d"
  shows "data_of rs \<noteq> []" and "\<forall>v \<in> set (data_of rs). map_id v = path_of d \<and> complete_path (atd_path v) \<and>
      ap_enableTagCompression (atd_path v) \<noteq> Some True \<and> atd_dataVersion v = adp_dataVersion d"
  using assms
  by (cases rule: reported_cases; auto simp: as_data_def map_id_def path_of_def reportable_def complete_path_def Let_def)+

text \<open>The reports of different attributes end up in different groups, in the order in which they came.\<close>

lemma group_same:
  assumes "\<forall>v \<in> set vs. map_id v = k" and "k \<notin> fst ` set al"
  shows "fold add_to_group vs (al @ [(k, us)]) = al @ [(k, us @ vs)]"
  using assms
proof (induction vs arbitrary: us)
  case (Cons v vs)
  have upd: "AList.update k ws (al @ [(k, us)]) = al @ [(k, ws)]" for ws
    using Cons.prems(2) by (induction al) auto
  have "map_of (al @ [(k, us)]) k = Some us"
    using Cons.prems(2) by (simp add: map_add_def map_of_eq_None_iff [symmetric] split: option.splits)
  with upd Cons show ?case by (simp add: add_to_group_def)
qed simp

lemma group_new:
  assumes "\<forall>v \<in> set vs. map_id v = k" and "k \<notin> fst ` set al" and "vs \<noteq> []"
  shows "fold add_to_group vs al = al @ [(k, vs)]"
proof -
  obtain v vs' where vs: "vs = v # vs'" using assms(3) by (cases vs) auto
  have "AList.update k ws al = al @ [(k, ws)]" for ws :: "AttributeData list"
    using assms(2) by (induction al) auto
  moreover have "map_of al k = None" using assms(2) by (simp add: map_of_eq_None_iff)
  ultimately have "add_to_group v al = al @ [(k, [v])]" using assms(1) vs by (simp add: add_to_group_def)
  with group_same [of vs' k al "[v]"] assms(1,2) vs show ?thesis by simp
qed

lemma group_reports:
  assumes "list_all2 (\<lambda>k g. g \<noteq> [] \<and> (\<forall>v \<in> set g. map_id v = k)) ks gs" and "distinct (map fst al @ ks)"
  shows "fold add_to_group (concat gs) al = al @ zip ks gs"
  using assms
proof (induction ks gs arbitrary: al rule: list_all2_induct)
  case (Cons k ks g gs)
  then have "fold add_to_group g al = al @ [(k, g)]" by (intro group_new) auto
  with Cons.IH [of "al @ [(k, g)]"] Cons.prems show ?case by simp
qed simp

text \<open>What the decoder is to say about an attribute.\<close>

definition decoded_as :: "string \<Rightarrow> AttributeDataPayload \<Rightarrow> DecodedAttributeValue" where
  "decoded_as name d =
     \<lparr>dav_nodeId = ap_nodeId (adp_path d), dav_endpointId = the (ap_endpointId (adp_path d)), dav_clusterId = the (ap_clusterId (adp_path d)),
      dav_attributeId = the (ap_attributeId (adp_path d)), dav_attributeName = AttributeName name, dav_version = adp_dataVersion d,
      dav_value = Known (adp_payload d)\<rparr>"

definition is_defined :: "(int \<Rightarrow> (string \<times> Attribute) list) \<Rightarrow> string \<Rightarrow> AttributeDataPayload \<Rightarrow> bool" where
  "is_defined attributes name d \<longleftrightarrow>
     (\<exists>a. getClusterAttributeById (attributes (the (ap_clusterId (adp_path d)))) (the (ap_attributeId (adp_path d))) = Some (name, a) \<and>
        at_schema a = adp_schema d)"

lemma decode_reported:
  assumes "reported d rs" and "reportable d" and "is_defined attributes name d"
  shows "decode_group attributes (data_of rs) = Inr [decoded_as name d]"
proof -
  obtain v vs where g: "data_of rs = v # vs" using reported_data(1) [OF assms(1,2)] by (cases "data_of rs") auto
  obtain a where a: "getClusterAttributeById (attributes (the (ap_clusterId (adp_path d)))) (the (ap_attributeId (adp_path d))) = Some (name, a)"
    "at_schema a = adp_schema d" using assms(3) by (auto simp: is_defined_def)
  have "map_id v = path_of d" "complete_path (adp_path d)" "atd_dataVersion v = adp_dataVersion d"
    using reported_data(2) [OF assms(1,2)] g assms(2) by (simp_all add: reportable_def)
  moreover have "decodeValueForAttribute a (v # vs) = Inr (adp_payload d)"
    using reported_value [OF assms(1,2)] a(2) g by (simp add: decodeValueForAttribute_def)
  ultimately show ?thesis
    using a(1) unfolding g
    by (auto simp: decode_group_def map_id_def path_of_def complete_path_def decoded_as_def Let_def)
qed

lemma data_of_concat: "data_of (concat rss) = concat (map data_of rss)"
  by (induction rss) simp_all

lemma values_arrive:
  assumes "\<forall>(name, d) \<in> set nds. reportable d \<and> is_defined attributes name d" and "distinct (map (path_of \<circ> snd) nds)"
    and "list_all2 (\<lambda>(name, d) rs. reported d rs) nds rss"
  shows "normalizeAndDecodeReadAttributeReport attributes (map (as_report arrived) (concat rss)) =
    Inr (map (\<lambda>(name, d). decoded_as name d) nds)"
proof -
  let ?gs = "map data_of rss"
  have len: "length nds = length rss" using assms(3) by (rule list_all2_lengthD)
  have grouped: "list_all2 (\<lambda>k g. g \<noteq> [] \<and> (\<forall>v \<in> set g. map_id v = k)) (map (path_of \<circ> snd) nds) ?gs"
    using assms(3,1)
  proof (induction rule: list_all2_induct)
    case (Cons nd nds rs rss)
    then show ?case using reported_data [of "snd nd" rs] by (cases nd) auto
  qed simp
  have plain: "list_all (\<lambda>v. complete_path (atd_path v) \<and> ap_enableTagCompression (atd_path v) \<noteq> Some True) (concat ?gs)"
    using assms(3,1)
  proof (induction rule: list_all2_induct)
    case (Cons nd nds rs rss)
    then show ?case using reported_data(2) [of "snd nd" rs] by (cases nd) (auto simp: list_all_iff)
  qed simp
  have decode: "rmap (decode_group attributes) ?gs = Inr (map (\<lambda>(name, d). [decoded_as name d]) nds)"
    using assms(3,1)
  proof (induction rule: list_all2_induct)
    case (Cons nd nds rs rss)
    then show ?case using decode_reported by (cases nd) auto
  qed simp
  have "normalizeAttributeData (concat ?gs) False = Inr ?gs"
  proof -
    have "resolve_tags False None (concat ?gs) = Inr (concat ?gs)"
      by (rule resolve_plain [OF plain])
    then show ?thesis
      using group_reports [OF grouped, of "[]"] assms(2) len
      by (simp add: normalizeAttributeData_def group_by_path_def)
  qed
  moreover have "List.map_filter ar_attributeData (map (as_report arrived) (concat rss)) = concat ?gs"
    using data_of_concat by (simp add: data_of_def)
  moreover have "concat (map (\<lambda>(name, d). [decoded_as name d]) nds) = map (\<lambda>(name, d). decoded_as name d) nds"
    by (induction nds) auto
  ultimately show ?thesis
    unfolding normalizeAndDecodeReadAttributeReport_def normalizeAndDecodeAttributeData_def by (simp add: decode)
qed


definition sample_list :: AttributeDataPayload where
  "sample_list = (sample_data None 2)\<lparr>adp_schema := ArraySchema TlvUInt8 0 65535, adp_payload := VArray [VPrim (PNum 7), VPrim (PNum 8)]\<rparr>"

definition sample_attributes :: "int \<Rightarrow> (string \<times> Attribute) list" where
  "sample_attributes c =
     [(''onOff'', \<lparr>at_id = 0, at_schema = TlvUInt8, at_optional = False, at_default = VUndefined\<rparr>),
      (''list'', \<lparr>at_id = 2, at_schema = ArraySchema TlvUInt8 0 65535, at_optional = True, at_default = VUndefined\<rparr>)]"


end
