(* ===== verification/InteractionProtocol.thy ===== *)
theory InteractionProtocol
  imports AttributeLaws
begin

text \<open>
  The messages of the interaction model: \<^verbatim>\<open>protocol/interaction/InteractionProtocol.ts\<close> and the schemas of the identifiers they use,
  \<^verbatim>\<open>datatype/\<close>.  An identifier is a number; node ids and event numbers are bigints in the program.
\<close>

section \<open>Identifiers\<close>

definition same :: "tlv_value \<Rightarrow> tlv_value result" where "same v = Inr v"

text \<open>\<^verbatim>\<open>BigInt(value)\<close>\<close>

definition to_bigint :: "tlv_value \<Rightarrow> tlv_value result" where
  "to_bigint v = (case v of VPrim (PNum n) \<Rightarrow> Inr (VPrim (PBig n)) | VPrim (PBig n) \<Rightarrow> Inr v | _ \<Rightarrow> Inl TypeError)"

definition TlvNodeId :: tlv_schema where "TlvNodeId = WrapperSchema TlvUInt64 same to_bigint"
definition TlvEndpointNumber :: tlv_schema where "TlvEndpointNumber = WrapperSchema TlvUInt16 same same"
definition TlvClusterId :: tlv_schema where "TlvClusterId = WrapperSchema TlvUInt32 same same"
definition TlvAttributeId :: tlv_schema where "TlvAttributeId = WrapperSchema TlvUInt32 same same"
definition TlvEventId :: tlv_schema where "TlvEventId = WrapperSchema TlvUInt32 same same"
definition TlvCommandId :: tlv_schema where "TlvCommandId = WrapperSchema TlvUInt32 same same"
definition TlvEventNumber :: tlv_schema where "TlvEventNumber = WrapperSchema TlvUInt64 same to_bigint"
definition TlvEnum :: tlv_schema where "TlvEnum = TlvUInt32"

definition TlvArray :: "tlv_schema \<Rightarrow> tlv_schema" where "TlvArray s = ArraySchema s 0 65535"

section \<open>Messages and their parts\<close>

definition TlvAttributePath :: tlv_schema where
  "TlvAttributePath =
     ObjectSchema KList
       [TlvOptionalField ''enableTagCompression'' 0 BooleanSchema,
        TlvOptionalField ''nodeId'' 1 TlvNodeId,
        TlvOptionalField ''endpointId'' 2 TlvEndpointNumber,
        TlvOptionalField ''clusterId'' 3 TlvClusterId,
        TlvOptionalField ''attributeId'' 4 TlvAttributeId,
        TlvOptionalField ''listIndex'' 5 (NullableSchema TlvUInt16)]"

definition TlvEventPath :: tlv_schema where
  "TlvEventPath =
     ObjectSchema KList
       [TlvOptionalField ''nodeId'' 0 TlvNodeId,
        TlvOptionalField ''endpointId'' 1 TlvEndpointNumber,
        TlvOptionalField ''clusterId'' 2 TlvClusterId,
        TlvOptionalField ''eventId'' 3 TlvEventId,
        TlvOptionalField ''isUrgent'' 4 BooleanSchema]"

definition TlvEventData :: tlv_schema where
  "TlvEventData =
     ObjectSchema KStructure
       [TlvField ''path'' 0 TlvEventPath None,
        TlvField ''eventNumber'' 1 TlvEventNumber None,
        TlvField ''priority'' 2 TlvEnum None,
        TlvOptionalField ''epochTimestamp'' 3 TlvUInt64,
        TlvOptionalField ''systemTimestamp'' 4 TlvUInt64,
        TlvOptionalField ''deltaEpochTimestamp'' 5 TlvUInt64,
        TlvOptionalField ''deltaSystemTimestamp'' 6 TlvUInt64,
        TlvOptionalField ''data'' 7 AnySchema]"

definition TlvEventFilter :: tlv_schema where
  "TlvEventFilter =
     ObjectSchema KStructure
       [TlvOptionalField ''nodeId'' 0 TlvNodeId,
        TlvField ''eventMin'' 1 TlvUInt64 None]"

definition TlvClusterPath :: tlv_schema where
  "TlvClusterPath =
     ObjectSchema KList
       [TlvOptionalField ''nodeId'' 0 TlvNodeId,
        TlvField ''endpointId'' 1 TlvEndpointNumber None,
        TlvField ''clusterId'' 2 TlvClusterId None]"

definition TlvDataVersionFilter :: tlv_schema where
  "TlvDataVersionFilter =
     ObjectSchema KStructure
       [TlvField ''path'' 0 TlvClusterPath None,
        TlvField ''dataVersion'' 1 TlvUInt32 None]"

definition TlvStatus :: tlv_schema where
  "TlvStatus =
     ObjectSchema KStructure
       [TlvOptionalField ''status'' 0 TlvEnum,
        TlvOptionalField ''clusterStatus'' 1 TlvEnum]"

definition TlvAttributeStatus :: tlv_schema where
  "TlvAttributeStatus =
     ObjectSchema KStructure
       [TlvField ''path'' 0 TlvAttributePath None,
        TlvField ''status'' 1 TlvStatus None]"

definition TlvAttributeData :: tlv_schema where
  "TlvAttributeData =
     ObjectSchema KStructure
       [TlvOptionalField ''dataVersion'' 0 TlvUInt32,
        TlvField ''path'' 1 TlvAttributePath None,
        TlvField ''data'' 2 AnySchema None]"

definition TlvAttributeReportData :: tlv_schema where
  "TlvAttributeReportData =
     ObjectSchema KStructure
       [TlvOptionalField ''dataVersion'' 0 TlvUInt32,
        TlvField ''path'' 1 TlvAttributePath None,
        TlvField ''data'' 2 AnySchema None]"

definition TlvAttributeReport :: tlv_schema where
  "TlvAttributeReport =
     ObjectSchema KStructure
       [TlvOptionalField ''attributeStatus'' 0 TlvAttributeStatus,
        TlvOptionalField ''attributeData'' 1 TlvAttributeReportData]"

definition TlvEventStatus :: tlv_schema where
  "TlvEventStatus =
     ObjectSchema KStructure
       [TlvField ''path'' 0 TlvEventPath None,
        TlvField ''status'' 1 TlvStatus None]"

definition TlvEventReport :: tlv_schema where
  "TlvEventReport =
     ObjectSchema KStructure
       [TlvOptionalField ''eventStatus'' 0 TlvEventStatus,
        TlvOptionalField ''eventData'' 1 TlvEventData]"

definition TlvCommandPath :: tlv_schema where
  "TlvCommandPath =
     ObjectSchema KList
       [TlvOptionalField ''endpointId'' 0 TlvEndpointNumber,
        TlvField ''clusterId'' 1 TlvClusterId None,
        TlvField ''commandId'' 2 TlvCommandId None]"

definition TlvCommandData :: tlv_schema where
  "TlvCommandData =
     ObjectSchema KStructure
       [TlvField ''commandPath'' 0 TlvCommandPath None,
        TlvOptionalField ''commandFields'' 1 AnySchema]"

definition TlvCommandStatus :: tlv_schema where
  "TlvCommandStatus =
     ObjectSchema KStructure
       [TlvField ''commandPath'' 0 TlvCommandPath None,
        TlvField ''status'' 1 TlvStatus None]"

definition TlvInvokeResponseData :: tlv_schema where
  "TlvInvokeResponseData =
     ObjectSchema KStructure
       [TlvOptionalField ''command'' 0 TlvCommandData,
        TlvOptionalField ''status'' 1 TlvCommandStatus]"

definition TlvStatusResponse :: tlv_schema where
  "TlvStatusResponse =
     ObjectSchema KStructure
       [TlvField ''status'' 0 TlvEnum None,
        TlvField ''interactionModelRevision'' 255 TlvUInt8 None]"

definition TlvReadRequest :: tlv_schema where
  "TlvReadRequest =
     ObjectSchema KStructure
       [TlvOptionalField ''attributeRequests'' 0 (TlvArray TlvAttributePath),
        TlvOptionalField ''eventRequests'' 1 (TlvArray TlvEventPath),
        TlvOptionalField ''eventFilters'' 2 (TlvArray TlvEventFilter),
        TlvField ''isFabricFiltered'' 3 BooleanSchema None,
        TlvOptionalField ''dataVersionFilters'' 4 (TlvArray TlvDataVersionFilter),
        TlvField ''interactionModelRevision'' 255 TlvUInt8 None]"

definition TlvDataReport :: tlv_schema where
  "TlvDataReport =
     ObjectSchema KStructure
       [TlvOptionalField ''subscriptionId'' 0 TlvUInt32,
        TlvOptionalField ''attributeReports'' 1 (TlvArray TlvAttributeReport),
        TlvOptionalField ''eventReports'' 2 (TlvArray TlvEventReport),
        TlvOptionalField ''moreChunkedMessages'' 3 BooleanSchema,
        TlvOptionalField ''suppressResponse'' 4 BooleanSchema,
        TlvField ''interactionModelRevision'' 255 TlvUInt8 None]"

definition TlvDataReportForSend :: tlv_schema where
  "TlvDataReportForSend =
     ObjectSchema KStructure
       [TlvOptionalField ''subscriptionId'' 0 TlvUInt32,
        TlvOptionalField ''attributeReports'' 1 (TlvArray AnySchema),
        TlvOptionalField ''eventReports'' 2 (TlvArray AnySchema),
        TlvOptionalField ''moreChunkedMessages'' 3 BooleanSchema,
        TlvOptionalField ''suppressResponse'' 4 BooleanSchema,
        TlvField ''interactionModelRevision'' 255 TlvUInt8 None]"

definition TlvSubscribeRequest :: tlv_schema where
  "TlvSubscribeRequest =
     ObjectSchema KStructure
       [TlvField ''keepSubscriptions'' 0 BooleanSchema None,
        TlvField ''minIntervalFloorSeconds'' 1 TlvUInt16 None,
        TlvField ''maxIntervalCeilingSeconds'' 2 TlvUInt16 None,
        TlvOptionalField ''attributeRequests'' 3 (TlvArray TlvAttributePath),
        TlvOptionalField ''eventRequests'' 4 (TlvArray TlvEventPath),
        TlvOptionalField ''eventFilters'' 5 (TlvArray TlvEventFilter),
        TlvField ''isFabricFiltered'' 7 BooleanSchema None,
        TlvOptionalField ''dataVersionFilters'' 8 (TlvArray TlvDataVersionFilter),
        TlvField ''interactionModelRevision'' 255 TlvUInt8 None]"

definition TlvSubscribeResponse :: tlv_schema where
  "TlvSubscribeResponse =
     ObjectSchema KStructure
       [TlvField ''subscriptionId'' 0 TlvUInt32 None,
        TlvField ''maxInterval'' 2 TlvUInt16 None,
        TlvField ''interactionModelRevision'' 255 TlvUInt8 None]"

definition TlvInvokeRequest :: tlv_schema where
  "TlvInvokeRequest =
     ObjectSchema KStructure
       [TlvField ''suppressResponse'' 0 BooleanSchema None,
        TlvField ''timedRequest'' 1 BooleanSchema None,
        TlvField ''invokeRequests'' 2 (TlvArray TlvCommandData) None,
        TlvField ''interactionModelRevision'' 255 TlvUInt8 None]"

definition TlvInvokeResponse :: tlv_schema where
  "TlvInvokeResponse =
     ObjectSchema KStructure
       [TlvField ''suppressResponse'' 0 BooleanSchema None,
        TlvField ''invokeResponses'' 1 (TlvArray TlvInvokeResponseData) None,
        TlvField ''interactionModelRevision'' 255 TlvUInt8 None]"

definition TlvTimedRequest :: tlv_schema where
  "TlvTimedRequest =
     ObjectSchema KStructure
       [TlvField ''timeout'' 0 TlvUInt16 None,
        TlvField ''interactionModelRevision'' 255 TlvUInt8 None]"

definition TlvWriteRequest :: tlv_schema where
  "TlvWriteRequest =
     ObjectSchema KStructure
       [TlvOptionalField ''suppressResponse'' 0 BooleanSchema,
        TlvField ''timedRequest'' 1 BooleanSchema None,
        TlvField ''writeRequests'' 2 (TlvArray TlvAttributeData) None,
        TlvOptionalField ''moreChunkedMessages'' 3 BooleanSchema,
        TlvField ''interactionModelRevision'' 255 TlvUInt8 None]"

definition TlvWriteResponse :: tlv_schema where
  "TlvWriteResponse =
     ObjectSchema KStructure
       [TlvField ''writeResponses'' 0 (TlvArray TlvAttributeStatus) None,
        TlvField ''interactionModelRevision'' 255 TlvUInt8 None]"

lemmas interaction_schemas =
  TlvNodeId_def TlvEndpointNumber_def TlvClusterId_def TlvAttributeId_def TlvEventId_def TlvCommandId_def TlvEventNumber_def
  TlvEnum_def TlvArray_def TlvAttributePath_def TlvEventPath_def TlvEventData_def TlvEventFilter_def TlvClusterPath_def
  TlvDataVersionFilter_def TlvStatus_def TlvAttributeStatus_def TlvAttributeData_def TlvAttributeReportData_def TlvAttributeReport_def
  TlvEventStatus_def TlvEventReport_def TlvCommandPath_def TlvCommandData_def TlvCommandStatus_def TlvInvokeResponseData_def
  TlvStatusResponse_def TlvReadRequest_def TlvDataReport_def TlvDataReportForSend_def TlvSubscribeRequest_def TlvSubscribeResponse_def
  TlvInvokeRequest_def TlvInvokeResponse_def TlvTimedRequest_def TlvWriteRequest_def TlvWriteResponse_def
  TlvField_def TlvOptionalField_def TlvUInt8_def TlvUInt16_def TlvUInt32_def TlvUInt64_def

definition interaction_messages :: "tlv_schema list" where
  "interaction_messages =
     [TlvStatusResponse, TlvReadRequest, TlvDataReport, TlvSubscribeRequest, TlvSubscribeResponse, TlvInvokeRequest, TlvInvokeResponse,
      TlvTimedRequest, TlvWriteRequest, TlvWriteResponse]"

section \<open>Typed values\<close>

text \<open>Fields with distinct names and tags, on every level.\<close>

fun schema_ok :: "tlv_schema \<Rightarrow> bool" and field_ok :: "tlv_field \<Rightarrow> bool" where
  "schema_ok (NullableSchema s) = schema_ok s"
| "schema_ok (ArraySchema s mn mx) = schema_ok s"
| "schema_ok (ObjectSchema k fs) = (fields_ok fs \<and> list_all (\<lambda>f. field_ok f) fs)"
| "schema_ok (WrapperSchema s wrap unwrap) = schema_ok s"
| "schema_ok _ = True"
| "field_ok (Field name i s opt rep fb mn mx) = schema_ok s"

lemma field_ok_schema [simp]: "field_ok f = schema_ok (f_schema f)"
  by (cases f) simp

lemma messages_ok: "list_all schema_ok interaction_messages"
  by (simp add: interaction_messages_def interaction_schemas fields_ok_def)

text \<open>A value is of the type of a schema: every property belongs to a field and has the field's type, and no mandatory field is missing.\<close>

fun typed :: "tlv_schema \<Rightarrow> tlv_value \<Rightarrow> bool" and typed_field :: "tlv_field \<Rightarrow> tlv_value option \<Rightarrow> bool" where
  "typed (NullableSchema s) v =
     (v = VNull \<or> (typed s v \<and> el_type (hd (elements s v None)) \<noteq> TLNull \<and> (empty_is_null s \<longrightarrow> value_empty v = Inr False)))"
| "typed (ArraySchema s mn mx) v = (case v of VArray vs \<Rightarrow> list_all (\<lambda>x. typed s x) vs | _ \<Rightarrow> False)"
| "typed (ObjectSchema k fs) v =
     (case v of
        VObject kvs \<Rightarrow>
          distinct (map fst kvs) \<and> list_all (\<lambda>(name, u). u \<noteq> VUndefined \<and> name \<in> f_name ` set fs) kvs \<and>
          (k = KStructure \<longrightarrow> in_field_order fs kvs) \<and> list_all (\<lambda>f. typed_field f (map_of kvs (f_name f))) fs
      | _ \<Rightarrow> False)"
| "typed (WrapperSchema s wrap unwrap) v =
     (case wrap v of Inr u \<Rightarrow> typed s u \<and> unwrap u = Inr v \<or> number_wrapped s unwrap u v | Inl _ \<Rightarrow> False)"
| "typed s v = fits_bytes s v"
| "typed_field (Field name i s opt rep fb mn mx) vo =
     (case vo of
        None \<Rightarrow> opt
      | Some v \<Rightarrow> if rep then (case v of VArray vs \<Rightarrow> vs \<noteq> [] \<and> list_all (\<lambda>x. typed s x) vs | _ \<Rightarrow> False) else typed s v)"

lemma typed_fits: "schema_ok s \<Longrightarrow> typed s v \<Longrightarrow> fits_bytes s v"
proof (induction s arbitrary: v rule: tlv_schema.induct
    [where ?P2.0 = "\<lambda>f. schema_ok (f_schema f) \<longrightarrow> (\<forall>vo. typed_field f vo \<longrightarrow> fits_field_with any_ok f vo)"])
  case (ObjectSchema k fs)
  then show ?case by (auto simp: list_all_iff object_ok_def split: tlv_value.splits)
next
  case (Field name i s opt rep fb mn mx)
  then show ?case by (auto simp: list_all_iff split: tlv_value.splits option.splits)
qed (auto simp: list_all_iff split: tlv_value.splits sum.splits)

text \<open>
  C22. Every typed and valid message of the interaction model can be encoded, and the peer decodes it to the same message.
\<close>

theorem interaction_messages_typed:
  assumes "m \<in> set interaction_messages" and "typed m v" and "validate m v = Inr ()"
  shows "\<exists>bs. schema_encode m v = Inr bs \<and> schema_decode m bs True = Inr v"
proof -
  have fits: "fits_bytes m v" using messages_ok assms(1,2) typed_fits by (auto simp: list_all_iff)
  show ?thesis
    using encode_bytes [OF fits_bytes_raw [OF fits], of False] decode_bytes [OF fits] assms(3)
    by (auto simp: schema_encode_def schema_decode_def)
qed

definition sample_request :: tlv_value where
  "sample_request =
     VObject
       [(''attributeRequests'', VArray [VObject [(''nodeId'', VPrim (PBig 5)), (''clusterId'', VPrim (PNum 6)), (''listIndex'', VNull)]]),
        (''eventFilters'', VArray [VObject [(''eventMin'', VPrim (PNum 12))]]),
        (''isFabricFiltered'', VPrim (PBool True)),
        (''interactionModelRevision'', VPrim (PNum 11))]"

theorem interaction_messages_typed_witness:
  "\<exists>bs. schema_encode TlvReadRequest sample_request = Inr bs \<and> schema_decode TlvReadRequest bs True = Inr sample_request"
proof (rule interaction_messages_typed)
  show "TlvReadRequest \<in> set interaction_messages" by (simp add: interaction_messages_def)
  show "typed TlvReadRequest sample_request"
    by (simp add: interaction_schemas sample_request_def in_field_order_def same_def to_bigint_def numeric_typeLength_def
        getUIntTlvLength_def int_limit_defs numeric_type_def decode_number_value_def)
  show "validate TlvReadRequest sample_request = Inr ()"
    by (simp add: interaction_schemas sample_request_def same_def each_def prop_of_def get_prop_def validate_number_def num_of_def
        validateBoundaries_def num_less_def validate_length_def int_limit_defs)
qed

end
