(* ===== verification/DataReports.thy ===== *)
theory DataReports
  imports InteractionProtocol
begin

text \<open>
  Data reports: \<^verbatim>\<open>sendDataReport\<close> and \<^verbatim>\<open>readDataReport\<close> of \<^verbatim>\<open>protocol/interaction/InteractionMessenger.ts\<close>, with the encoding of reports from
  \<^verbatim>\<open>AttributeDataEncoder.ts\<close>.  The reports are collected into messages of at most 1024 bytes; a list that does not fit is sent in chunks.
  The sender is modelled as the sequence of messages it hands to the exchange, each confirmed by the peer before the next; the reader as a function of
  the messages it gets.
\<close>

section \<open>Reports as values\<close>

text \<open>An object of properties some of which may be undefined.\<close>

definition opt_props :: "(string \<times> tlv_value option) list \<Rightarrow> (string \<times> tlv_value) list" where
  "opt_props nvs = List.map_filter (\<lambda>(name, vo). map_option (\<lambda>v. (name, v)) vo) nvs"

abbreviation num_value :: "int \<Rightarrow> tlv_value" where "num_value n \<equiv> VPrim (PNum n)"

fun list_index_value :: "list_index \<Rightarrow> tlv_value option" where
  "list_index_value LUndefined = None"
| "list_index_value LNull = Some VNull"
| "list_index_value (LIndex n) = Some (num_value (int n))"

definition path_value :: "AttributePath \<Rightarrow> tlv_value" where
  "path_value p =
     VObject (opt_props
       [(''enableTagCompression'', map_option (\<lambda>b. VPrim (PBool b)) (ap_enableTagCompression p)),
        (''nodeId'', map_option (\<lambda>n. VPrim (PBig n)) (ap_nodeId p)),
        (''endpointId'', map_option num_value (ap_endpointId p)),
        (''clusterId'', map_option num_value (ap_clusterId p)),
        (''attributeId'', map_option num_value (ap_attributeId p)),
        (''listIndex'', list_index_value (ap_listIndex p))])"

definition attribute_data_value :: "AttributeData \<Rightarrow> tlv_value" where
  "attribute_data_value d =
     VObject (opt_props
       [(''dataVersion'', map_option num_value (atd_dataVersion d)), (''path'', Some (path_value (atd_path d))),
        (''data'', Some (VStream (atd_data d)))])"

definition status_value :: "int option \<Rightarrow> int option \<Rightarrow> tlv_value" where
  "status_value st clusterStatus =
     VObject (opt_props [(''status'', map_option num_value st), (''clusterStatus'', map_option num_value clusterStatus)])"

definition attribute_status_value :: "AttributeStatus \<Rightarrow> tlv_value" where
  "attribute_status_value s =
     VObject (opt_props [(''path'', Some (path_value (ats_path s))), (''status'', Some (status_value (ats_status s) (ats_clusterStatus s)))])"

definition report_value :: "AttributeReport \<Rightarrow> tlv_value" where
  "report_value r =
     VObject (opt_props
       [(''attributeStatus'', map_option attribute_status_value (ar_attributeStatus r)),
        (''attributeData'', map_option attribute_data_value (ar_attributeData r))])"

definition encodeAttributePayload :: "AttributeReportPayload \<Rightarrow> TlvStream result" where
  "encodeAttributePayload attributePayload =
     (case rp_attributeData attributePayload of
        None \<Rightarrow>
          encodeTlv TlvAttributeReport
            (report_value \<lparr>ar_attributeStatus = rp_attributeStatus attributePayload, ar_attributeData = None\<rparr>) False
      | Some d \<Rightarrow>
          rbind (encodeTlv (adp_schema d) (adp_payload d) False) (\<lambda>data.
            encodeTlv TlvAttributeReport
              (report_value \<lparr>ar_attributeStatus = None,
                 ar_attributeData = Some \<lparr>atd_path = adp_path d, atd_data = data, atd_dataVersion = adp_dataVersion d\<rparr>\<rparr>) False))"

record EventReportPath =
  erp_nodeId :: "int option"
  erp_endpointId :: "int option"
  erp_clusterId :: "int option"
  erp_eventId :: "int option"
  erp_isUrgent :: "bool option"

record EventDataPayload =
  edp_path :: EventReportPath
  edp_schema :: tlv_schema
  edp_payload :: tlv_value
  edp_eventNumber :: int
  edp_priority :: int
  edp_epochTimestamp :: "TlvPrimitive option"
  edp_systemTimestamp :: "TlvPrimitive option"
  edp_deltaEpochTimestamp :: "TlvPrimitive option"
  edp_deltaSystemTimestamp :: "TlvPrimitive option"

record EventStatusPayload =
  esp_path :: EventReportPath
  esp_status :: "int option"
  esp_clusterStatus :: "int option"

record EventReportPayload =
  erp_eventData :: "EventDataPayload option"
  erp_eventStatus :: "EventStatusPayload option"

definition event_path_value :: "EventReportPath \<Rightarrow> tlv_value" where
  "event_path_value p =
     VObject (opt_props
       [(''nodeId'', map_option (\<lambda>n. VPrim (PBig n)) (erp_nodeId p)),
        (''endpointId'', map_option num_value (erp_endpointId p)),
        (''clusterId'', map_option num_value (erp_clusterId p)),
        (''eventId'', map_option num_value (erp_eventId p)),
        (''isUrgent'', map_option (\<lambda>b. VPrim (PBool b)) (erp_isUrgent p))])"

definition event_report_value :: "tlv_value option \<Rightarrow> tlv_value option \<Rightarrow> tlv_value" where
  "event_report_value eventStatus eventData = VObject (opt_props [(''eventStatus'', eventStatus), (''eventData'', eventData)])"

definition encodeEventPayload :: "EventReportPayload \<Rightarrow> TlvStream result" where
  "encodeEventPayload eventPayload =
     (case erp_eventData eventPayload of
        None \<Rightarrow>
          encodeTlv TlvEventReport
            (event_report_value (map_option (\<lambda>s. VObject (opt_props [(''path'', Some (event_path_value (esp_path s))),
               (''status'', Some (status_value (esp_status s) (esp_clusterStatus s)))])) (erp_eventStatus eventPayload)) None) False
      | Some d \<Rightarrow>
          rbind (encodeTlv (edp_schema d) (edp_payload d) False) (\<lambda>data.
            encodeTlv TlvEventReport
              (event_report_value None (Some (VObject (opt_props
                 [(''path'', Some (event_path_value (edp_path d))),
                  (''eventNumber'', Some (VPrim (PBig (edp_eventNumber d)))),
                  (''priority'', Some (num_value (edp_priority d))),
                  (''epochTimestamp'', map_option VPrim (edp_epochTimestamp d)),
                  (''systemTimestamp'', map_option VPrim (edp_systemTimestamp d)),
                  (''deltaEpochTimestamp'', map_option VPrim (edp_deltaEpochTimestamp d)),
                  (''deltaSystemTimestamp'', map_option VPrim (edp_deltaSystemTimestamp d)),
                  (''data'', Some (VStream data))])))) False))"

section \<open>Sending\<close>

definition MAX_SPDU_LENGTH :: nat where "MAX_SPDU_LENGTH = 1024"

record DataReportPayload =
  drp_subscriptionId :: "int option"
  drp_attributeReportsPayload :: "AttributeReportPayload list option"
  drp_eventReportsPayload :: "EventReportPayload list option"
  drp_suppressResponse :: "bool option"
  drp_interactionModelRevision :: int

text \<open>The report under construction, \<^verbatim>\<open>dataReport\<close>, and the variables of the loop.\<close>

record report_state =
  rs_attributeReports :: "TlvStream list option"
  rs_eventReports :: "TlvStream list option"
  rs_messageSize :: nat
  rs_firstAttributeAdded :: bool
  rs_firstEventAdded :: bool

definition bool_value :: "bool \<Rightarrow> tlv_value" where "bool_value b = VPrim (PBool b)"

definition streams_value :: "TlvStream list \<Rightarrow> tlv_value" where "streams_value ess = VArray (map VStream ess)"

definition data_report_value ::
  "DataReportPayload \<Rightarrow> tlv_value option \<Rightarrow> tlv_value option \<Rightarrow> bool option \<Rightarrow> tlv_value" where
  "data_report_value p attributeReports eventReports moreChunkedMessages =
     VObject (opt_props
       [(''subscriptionId'', map_option num_value (drp_subscriptionId p)),
        (''attributeReports'', attributeReports),
        (''eventReports'', eventReports),
        (''moreChunkedMessages'', map_option bool_value moreChunkedMessages),
        (''suppressResponse'', map_option bool_value (drp_suppressResponse p)),
        (''interactionModelRevision'', Some (num_value (drp_interactionModelRevision p)))])"

definition encode_report :: "DataReportPayload \<Rightarrow> TlvStream list option \<Rightarrow> TlvStream list option \<Rightarrow> bool option \<Rightarrow> byte list result" where
  "encode_report p attributeReports eventReports moreChunkedMessages =
     schema_encode TlvDataReportForSend
       (data_report_value p (map_option streams_value attributeReports) (map_option streams_value eventReports) moreChunkedMessages)"

definition sendDataReportMessage ::
  "DataReportPayload \<Rightarrow> TlvStream list option \<Rightarrow> TlvStream list option \<Rightarrow> bool option \<Rightarrow> byte list result" where
  "sendDataReportMessage p attributeReports eventReports moreChunkedMessages =
     rbind (encode_report p attributeReports eventReports moreChunkedMessages) (\<lambda>encodedMessage.
       if length encodedMessage > MAX_SPDU_LENGTH then Inl MatterFlowError else Inr encodedMessage)"

definition sendAndResetReport :: "DataReportPayload \<Rightarrow> nat \<Rightarrow> report_state \<Rightarrow> (byte list \<times> report_state) result" where
  "sendAndResetReport p emptyLength st =
     rbind (sendDataReportMessage p (rs_attributeReports st) (rs_eventReports st) (Some True)) (\<lambda>message.
       Inr (message, \<lparr>rs_attributeReports = None, rs_eventReports = None, rs_messageSize = emptyLength,
                      rs_firstAttributeAdded = False, rs_firstEventAdded = False\<rparr>))"

definition open_attributes :: "report_state \<Rightarrow> report_state" where
  "open_attributes st =
     (if rs_firstAttributeAdded st then st else st\<lparr>rs_firstAttributeAdded := True, rs_messageSize := rs_messageSize st + 3\<rparr>)"

definition open_events :: "report_state \<Rightarrow> report_state" where
  "open_events st =
     (if rs_firstEventAdded st then st else st\<lparr>rs_firstEventAdded := True, rs_messageSize := rs_messageSize st + 3\<rparr>)"

definition add_attribute :: "TlvStream \<Rightarrow> nat \<Rightarrow> report_state \<Rightarrow> report_state" where
  "add_attribute encodedAttribute n st =
     st\<lparr>rs_messageSize := rs_messageSize st + n,
        rs_attributeReports := Some ((case rs_attributeReports st of None \<Rightarrow> [] | Some ess \<Rightarrow> ess) @ [encodedAttribute])\<rparr>"

definition add_event :: "TlvStream \<Rightarrow> nat \<Rightarrow> report_state \<Rightarrow> report_state" where
  "add_event encodedEvent n st =
     st\<lparr>rs_messageSize := rs_messageSize st + n,
        rs_eventReports := Some ((case rs_eventReports st of None \<Rightarrow> [] | Some ess \<Rightarrow> ess) @ [encodedEvent])\<rparr>"

text \<open>A report with its stream and the length of that in bytes.\<close>

definition measured :: "TlvStream result \<Rightarrow> (TlvStream \<times> nat) result" where
  "measured r = rbind r (\<lambda>es. rbind (getEncodedByteLength es) (\<lambda>n. Inr (es, n)))"

text \<open>How many rounds of the loop a report can take.\<close>

definition rounds :: "AttributeReportPayload \<Rightarrow> nat" where
  "rounds a =
     (if canAttributePayloadBeChunked a then
        (case rp_attributeData a of Some d \<Rightarrow> (case adp_payload d of VArray vs \<Rightarrow> length vs + 2 | _ \<Rightarrow> 1) | None \<Rightarrow> 1)
      else 1)"

lemma chunks_not_chunkable:
  assumes "chunkAttributePayload a = Inr cs" and "c \<in> set cs"
  shows "\<not> canAttributePayloadBeChunked c"
  using assms
  by (auto simp: chunkAttributePayload_def canAttributePayloadBeChunked_def split: option.splits tlv_schema.splits tlv_value.splits)

lemma rounds_pos: "0 < rounds a"
  by (auto simp: rounds_def split: option.splits tlv_value.splits)

lemma rounds_single: "\<forall>c \<in> set cs. \<not> canAttributePayloadBeChunked c \<Longrightarrow> sum_list (map rounds cs) = length cs"
  by (induction cs) (simp_all add: rounds_def)

lemma chunks_rounds:
  assumes "chunkAttributePayload a = Inr cs" and "canAttributePayloadBeChunked a"
  shows "sum_list (map rounds cs) < rounds a"
proof -
  obtain d s mn mx vs where a: "rp_attributeData a = Some d" "adp_schema d = ArraySchema s mn mx" "adp_payload d = VArray vs"
    using assms(2) by (auto simp: canAttributePayloadBeChunked_def split: option.splits tlv_schema.splits tlv_value.splits)
  then have "length cs = length vs + 1" using assms(1) by (auto simp: chunkAttributePayload_def)
  moreover have "sum_list (map rounds cs) = length cs"
    using chunks_not_chunkable [OF assms(1)] rounds_single by blast
  ultimately show ?thesis using a assms(2) by (simp add: rounds_def)
qed

function send_loop ::
  "DataReportPayload \<Rightarrow> nat \<Rightarrow> AttributeReportPayload list \<Rightarrow> EventReportPayload list \<Rightarrow> report_state \<Rightarrow>
     byte list list \<Rightarrow> byte list list \<times> report_state result" where
  "send_loop p emptyLength (a # as) es st sent =
     (let st = open_attributes st in
      case measured (encodeAttributePayload a) of
        Inl e \<Rightarrow> (sent, Inl e)
      | Inr (encodedAttribute, n) \<Rightarrow>
          if rs_messageSize st + n > MAX_SPDU_LENGTH then
            if canAttributePayloadBeChunked a then
              (case chunkAttributePayload a of
                 Inl e \<Rightarrow> (sent, Inl e)
               | Inr chunks \<Rightarrow> send_loop p emptyLength (chunks @ as) es st sent)
            else
              (case sendAndResetReport p emptyLength st of
                 Inl e \<Rightarrow> (sent, Inl e)
               | Inr (message, st) \<Rightarrow> send_loop p emptyLength as es (add_attribute encodedAttribute n st) (sent @ [message]))
          else send_loop p emptyLength as es (add_attribute encodedAttribute n st) sent)"
| "send_loop p emptyLength [] (e # es) st sent =
     (let st = open_events st in
      case measured (encodeEventPayload e) of
        Inl err \<Rightarrow> (sent, Inl err)
      | Inr (encodedEvent, n) \<Rightarrow>
          if rs_messageSize st + n > MAX_SPDU_LENGTH then
            (case sendAndResetReport p emptyLength st of
               Inl err \<Rightarrow> (sent, Inl err)
             | Inr (message, st) \<Rightarrow> send_loop p emptyLength [] es (add_event encodedEvent n st) (sent @ [message]))
          else send_loop p emptyLength [] es (add_event encodedEvent n st) sent)"
| "send_loop p emptyLength [] [] st sent = (sent, Inr st)"
  by pat_completeness auto
termination
  by (relation "measure (\<lambda>(p, n, as, es, st, sent). sum_list (map rounds as) + length es)")
    (auto simp: chunks_rounds rounds_pos)

text \<open>The messages that are handed to the exchange, and how the operation ends.\<close>

definition sendDataReport :: "DataReportPayload \<Rightarrow> byte list list \<times> unit result" where
  "sendDataReport p =
     (if drp_attributeReportsPayload p = None \<and> drp_eventReportsPayload p = None then
        (case sendDataReportMessage p None None None of Inl e \<Rightarrow> ([], Inl e) | Inr message \<Rightarrow> ([message], Inr ()))
      else
        case encode_report p None None (Some True) of
          Inl e \<Rightarrow> ([], Inl e)
        | Inr emptyDataReportBytes \<Rightarrow>
            (let emptyLength = length emptyDataReportBytes;
                 as = (case drp_attributeReportsPayload p of None \<Rightarrow> [] | Some as \<Rightarrow> as);
                 es = (case drp_eventReportsPayload p of None \<Rightarrow> [] | Some es \<Rightarrow> es);
                 st = \<lparr>rs_attributeReports = None, rs_eventReports = None, rs_messageSize = emptyLength,
                       rs_firstAttributeAdded = False, rs_firstEventAdded = False\<rparr>
             in case send_loop p emptyLength as es st [] of
                  (sent, Inl e) \<Rightarrow> (sent, Inl e)
                | (sent, Inr st) \<Rightarrow>
                    (case sendDataReportMessage p (rs_attributeReports st) (rs_eventReports st) None of
                       Inl e \<Rightarrow> (sent, Inl e)
                     | Inr message \<Rightarrow> (sent @ [message], Inr ()))))"

section \<open>Reading\<close>

text \<open>What \<^verbatim>\<open>readDataReport\<close> takes from a decoded message.\<close>

definition array_prop :: "(string \<times> tlv_value) list \<Rightarrow> string \<Rightarrow> tlv_value list" where
  "array_prop kvs name = (case get_prop kvs name of VArray vs \<Rightarrow> vs | _ \<Rightarrow> [])"

text \<open>
  The subscription id and the reports read so far; the result is \<open>None\<close> while the reader waits for a message.
\<close>

fun readDataReport ::
  "byte list list \<Rightarrow> tlv_value \<Rightarrow> tlv_value list \<Rightarrow> tlv_value list \<Rightarrow> (tlv_value \<times> tlv_value list \<times> tlv_value list) option result" where
  "readDataReport [] subscriptionId attributeValues eventValues = Inr None"
| "readDataReport (message # messages) subscriptionId attributeValues eventValues =
     rbind (schema_decode TlvDataReport message True) (\<lambda>report.
       case report of
         VObject kvs \<Rightarrow>
           (let reportSubscriptionId = get_prop kvs ''subscriptionId'';
                attributeValues' = attributeValues @ array_prop kvs ''attributeReports'';
                eventValues' = eventValues @ array_prop kvs ''eventReports'';
                continue = (\<lambda>subscriptionId.
                  if get_prop kvs ''moreChunkedMessages'' \<noteq> VPrim (PBool True)
                  then Inr (Some (reportSubscriptionId, attributeValues', eventValues'))
                  else readDataReport messages subscriptionId attributeValues' eventValues')
            in if subscriptionId = VUndefined \<and> reportSubscriptionId \<noteq> VUndefined then continue reportSubscriptionId
               else if (subscriptionId \<noteq> VUndefined \<or> reportSubscriptionId \<noteq> VUndefined) \<and> reportSubscriptionId \<noteq> subscriptionId
               then Inl UnexpectedDataError
               else continue subscriptionId)
       | _ \<Rightarrow> Inl TypeError)"

end
