(* ===== verification/ReportDelivery.thy ===== *)
theory ReportDelivery
  imports DataReports
begin

text \<open>
  What data reports promise: the messages stay within the limit, and a reader of the messages gets the values of all attributes.
\<close>

section \<open>Objects with optional properties\<close>

lemma opt_props_simps [simp]:
  "opt_props [] = []" "opt_props ((name, None) # nvs) = opt_props nvs" "opt_props ((name, Some v) # nvs) = (name, v) # opt_props nvs"
  by (simp_all add: opt_props_def List.map_filter_def)

lemma opt_props_set: "(name, v) \<in> set (opt_props nvs) \<longleftrightarrow> (name, Some v) \<in> set nvs"
proof (induction nvs)
  case (Cons nv nvs)
  then show ?case by (cases nv; cases "snd nv") auto
qed simp

lemma opt_props_names: "fst ` set (opt_props nvs) \<subseteq> fst ` set nvs"
  by (force simp: opt_props_set)

lemma opt_props_distinct: "distinct (map fst nvs) \<Longrightarrow> distinct (map fst (opt_props nvs))"
proof (induction nvs)
  case (Cons nv nvs)
  then show ?case using opt_props_names [of nvs] by (cases nv; cases "snd nv") auto
qed simp

lemma map_of_opt_props:
  "distinct (map fst nvs) \<Longrightarrow> (name, vo) \<in> set nvs \<Longrightarrow> map_of (opt_props nvs) name = vo"
proof (induction nvs)
  case (Cons nv nvs)
  obtain n w where nv: "nv = (n, w)" by (cases nv)
  have "map_of (opt_props nvs) n = None" using Cons.prems(1) opt_props_names [of nvs] nv by (auto simp: map_of_eq_None_iff)
  with Cons nv show ?case by (cases w) (auto simp: image_iff)
qed simp

text \<open>A value and the field it is for.\<close>

definition field_pairs :: "tlv_field list \<Rightarrow> (string \<times> tlv_value option) list \<Rightarrow> bool" where
  "field_pairs fs nvs \<longleftrightarrow> map f_name fs = map fst nvs \<and> fields_ok fs"

lemma field_pairsD:
  assumes "field_pairs fs nvs"
  shows "map f_name fs = map fst nvs" and "fields_ok fs" and "distinct (map fst nvs)" and "length fs = length nvs"
proof -
  show names: "map f_name fs = map fst nvs" and "fields_ok fs" using assms by (simp_all add: field_pairs_def)
  then show "distinct (map fst nvs)" by (simp add: fields_ok_def)
  show "length fs = length nvs" using names by (metis length_map)
qed

lemma in_field_order_props:
  assumes "distinct (map fst nvs)" and "map f_name fs = map fst nvs"
  shows "in_field_order fs (opt_props nvs)"
proof -
  have "concat (map (\<lambda>f. case map_of kvs (f_name f) of None \<Rightarrow> [] | Some v \<Rightarrow> [(f_name f, v)]) gs) = opt_props ws"
    if "map f_name gs = map fst ws" "\<forall>(n, vo) \<in> set ws. map_of kvs n = vo" for gs ws and kvs :: "(string \<times> tlv_value) list"
    using that
  proof (induction gs arbitrary: ws)
    case (Cons g gs)
    then obtain n vo ws' where "ws = (n, vo) # ws'" "f_name g = n" "map f_name gs = map fst ws'" by (cases ws) auto
    with Cons show ?case by (cases vo) auto
  qed simp
  from this [OF assms(2), of "opt_props nvs"] map_of_opt_props [OF assms(1)] show ?thesis
    unfolding in_field_order_def by (metis (mono_tags, lifting) case_prodI2)
qed

lemma object_of_props:
  assumes "field_pairs fs nvs" and "list_all2 (\<lambda>f (name, vo). vo \<noteq> Some VUndefined \<and> fits_field_with K f vo) fs nvs"
  shows "fits_with K (ObjectSchema k fs) (VObject (opt_props nvs))"
proof -
  note names = field_pairsD(1,2) [OF assms(1)] and dist = field_pairsD(3) [OF assms(1)]
  have "fits_field_with K f (map_of (opt_props nvs) (f_name f))" if "f \<in> set fs" for f
  proof -
    from that obtain i where i: "i < length fs" "f = fs ! i" by (auto simp: in_set_conv_nth)
    then have "f_name f = fst (nvs ! i)" "i < length nvs" using names(1) by (metis nth_map length_map)+
    with i assms(2) map_of_opt_props [OF dist, of "fst (nvs ! i)" "snd (nvs ! i)"] show ?thesis
      by (auto simp: list_all2_conv_all_nth case_prod_unfold)
  qed
  moreover have "list_all (\<lambda>(name, v). v \<noteq> VUndefined \<and> name \<in> f_name ` set fs) (opt_props nvs)"
  proof -
    have "v \<noteq> VUndefined" if "(name, v) \<in> set (opt_props nvs)" for name v
    proof -
      have "(name, Some v) \<in> set nvs" using that by (simp add: opt_props_set)
      then obtain i where "i < length nvs" "nvs ! i = (name, Some v)" by (auto simp: in_set_conv_nth)
      with assms(2) show ?thesis by (auto simp: list_all2_conv_all_nth)
    qed
    moreover have "fst ` set (opt_props nvs) \<subseteq> f_name ` set fs"
      using opt_props_names [of nvs] arg_cong [OF names(1), of set] by simp
    ultimately show ?thesis by (force simp: list_all_iff)
  qed
  ultimately show ?thesis
    using names(2) opt_props_distinct [OF dist] in_field_order_props [OF dist names(1)]
    by (simp add: object_ok_def list_all_iff)
qed

lemma field_look:
  assumes "field_pairs fs nvs" and "i < length fs"
  shows "map_of (opt_props nvs) (f_name (fs ! i)) = snd (nvs ! i)"
proof -
  note names = field_pairsD(1,3) [OF assms(1)]
  then have "f_name (fs ! i) = fst (nvs ! i)" "i < length nvs" using assms(2) by (metis nth_map length_map)+
  with map_of_opt_props [OF names(2), of "fst (nvs ! i)" "snd (nvs ! i)"] show ?thesis by simp
qed

lemma elements_of_props:
  assumes "field_pairs fs nvs"
  shows "elements (ObjectSchema k fs) (VObject (opt_props nvs)) tag =
    mk tag (object_typeLength k) PUndefined #
    concat (map (\<lambda>(f, vo). case vo of None \<Rightarrow> [] | Some v \<Rightarrow> value_elements f v) (zip fs (map snd nvs))) @ [mk None TLEndOfContainer PUndefined]"
proof -
  note names = field_pairsD(1-3) [OF assms] and len = field_pairsD(4) [OF assms]
  have "map (\<lambda>f. case map_of (opt_props nvs) (f_name f) of None \<Rightarrow> [] | Some v \<Rightarrow> value_elements f v) fs =
      map (\<lambda>(f, vo). case vo of None \<Rightarrow> [] | Some v \<Rightarrow> value_elements f v) (zip fs (map snd nvs))"
    using field_look [OF assms] len by (auto intro!: nth_equalityI split: option.splits)
  then show ?thesis
    using elements_in_field_order [OF names(2) in_field_order_props [OF names(3,1)]] by (simp only: elements_object)
qed

lemma each_ok: "(\<And>x. x \<in> set xs \<Longrightarrow> g x = Inr ()) \<Longrightarrow> each g xs = Inr ()"
  unfolding each_def by (induction xs) auto

lemma validate_props:
  assumes "field_pairs fs nvs"
    and "list_all2 (\<lambda>f (name, vo). \<not> f_repeated f \<and>
      (case vo of None \<Rightarrow> f_optional f | Some v \<Rightarrow> v \<noteq> VUndefined \<and> validate (f_schema f) v = Inr ())) fs nvs"
  shows "validate (ObjectSchema k fs) (VObject (opt_props nvs)) = Inr ()"
  unfolding validate.simps
proof (rule each_ok)
  fix f
  assume "f \<in> set fs"
  then obtain i where i: "i < length fs" "f = fs ! i" by (auto simp: in_set_conv_nth)
  obtain name j s opt rep fb mn mx where f: "f = Field name j s opt rep fb mn mx" by (cases f)
  have "\<not> f_repeated f \<and> (case snd (nvs ! i) of None \<Rightarrow> f_optional f | Some v \<Rightarrow> v \<noteq> VUndefined \<and> validate (f_schema f) v = Inr ())"
    using list_all2_nthD [OF assms(2) i(1)] unfolding i(2) by (simp add: case_prod_unfold)
  then have "\<not> rep" "case snd (nvs ! i) of None \<Rightarrow> opt | Some v \<Rightarrow> v \<noteq> VUndefined \<and> validate s v = Inr ()"
    unfolding f tlv_field.sel by simp_all
  moreover have "map_of (opt_props nvs) name = snd (nvs ! i)" using field_look [OF assms(1) i(1)] unfolding i(2) [symmetric] f by simp
  ultimately show "validate_field f (VObject (opt_props nvs)) = Inr ()"
    unfolding f by (auto simp: prop_of_def get_prop_def split: option.splits)
qed

section \<open>Reports on the wire\<close>

text \<open>Numbers in the range of their schemas.\<close>

definition within :: "int \<Rightarrow> int option \<Rightarrow> bool" where
  "within mx no \<longleftrightarrow> (\<forall>n. no = Some n \<longrightarrow> 0 \<le> n \<and> n \<le> mx)"

definition path_ok :: "AttributePath \<Rightarrow> bool" where
  "path_ok p \<longleftrightarrow> within UINT64_MAX (ap_nodeId p) \<and> within UINT16_MAX (ap_endpointId p) \<and> within UINT32_MAX (ap_clusterId p) \<and>
     within UINT32_MAX (ap_attributeId p) \<and> (\<forall>i. ap_listIndex p = LIndex i \<longrightarrow> int i \<le> UINT16_MAX)"

text \<open>A field is typed and valid; \<open>K\<close> are the raw streams that are allowed.\<close>

definition good :: "(TlvStream \<Rightarrow> bool) \<Rightarrow> tlv_schema \<Rightarrow> tlv_value \<Rightarrow> bool" where
  "good K s v \<longleftrightarrow> fits_with K s v \<and> validate s v = Inr () \<and> v \<noteq> VUndefined"

definition good_field :: "(TlvStream \<Rightarrow> bool) \<Rightarrow> tlv_field \<Rightarrow> tlv_value option \<Rightarrow> bool" where
  "good_field K f vo \<longleftrightarrow> \<not> f_repeated f \<and> (case vo of None \<Rightarrow> f_optional f | Some v \<Rightarrow> good K (f_schema f) v)"

lemma good_object:
  assumes "field_pairs fs nvs" and "list_all2 (\<lambda>f (name, vo). good_field K f vo) fs nvs"
  shows "good K (ObjectSchema k fs) (VObject (opt_props nvs))"
proof -
  have "vo \<noteq> Some VUndefined \<and> fits_field_with K f vo" if "good_field K f vo" for f vo
    using that by (cases f; cases vo) (auto simp: good_field_def good_def)
  then have "fits_with K (ObjectSchema k fs) (VObject (opt_props nvs))"
    using assms(2) by (intro object_of_props [OF assms(1)]) (auto elim!: list_all2_mono)
  moreover have "validate (ObjectSchema k fs) (VObject (opt_props nvs)) = Inr ()"
    using assms(2) by (intro validate_props [OF assms(1)]) (auto elim!: list_all2_mono simp: good_field_def good_def split: option.splits)
  ultimately show ?thesis by (simp add: good_def)
qed

lemma good_optional: "(\<And>v. vo = Some v \<Longrightarrow> good K s v) \<Longrightarrow> good_field K (TlvOptionalField name i s) vo"
  by (cases vo) (simp_all add: good_field_def TlvOptionalField_def)

lemma good_mandatory: "good K s v \<Longrightarrow> good_field K (TlvField name i s None) (Some v)"
  by (simp add: good_field_def TlvField_def)

lemma good_number:
  assumes "0 \<le> n" and "n \<le> mx" and "mx \<le> UINT32_MAX"
  shows "good K (NumericSchema NumberSchema KUnsignedInt (Some 0) (Some mx)) (num_value n)"
    and "good K (WrapperSchema (NumericSchema NumberSchema KUnsignedInt (Some 0) (Some mx)) same same) (num_value n)"
  using assms by (auto simp: good_def same_def validate_number_def num_of_def validateBoundaries_def num_less_def int_limit_defs)

lemma good_numbers:
  assumes "within mx no" and "mx \<le> UINT32_MAX" and "map_option num_value no = Some v"
  shows "good K (NumericSchema NumberSchema KUnsignedInt (Some 0) (Some mx)) v"
    and "good K (WrapperSchema (NumericSchema NumberSchema KUnsignedInt (Some 0) (Some mx)) same same) v"
  using assms good_number by (auto simp: within_def)

lemma good_node_id:
  assumes "0 \<le> n" and "n \<le> UINT64_MAX"
  shows "good K TlvNodeId (VPrim (PBig n))"
proof -
  have "uint_valid (getUIntByteLength (getUIntTlvLength n)) n"
    using assms by (intro getUIntTlvLength_fits) (simp add: int_limit_defs)
  with assms show ?thesis
    by (auto simp: good_def interaction_schemas same_def to_bigint_def numeric_typeLength_def numeric_type_def decode_number_value_def
        validate_number_def num_of_def validateBoundaries_def num_less_def int_limit_defs)
qed

lemma good_bool: "good K BooleanSchema (VPrim (PBool b))"
  by (simp add: good_def)

lemma good_list_index:
  assumes "\<forall>i. li = LIndex i \<longrightarrow> int i \<le> UINT16_MAX" and "list_index_value li = Some v"
  shows "good K (NullableSchema TlvUInt16) v"
  using assms
  by (cases li) (auto simp: good_def TlvUInt16_def numeric_typeLength_def validate_number_def num_of_def validateBoundaries_def num_less_def
      int_limit_defs)

lemma good_path:
  assumes "path_ok p"
  shows "good K TlvAttributePath (path_value p)"
proof -
  have p: "within UINT64_MAX (ap_nodeId p)" "within UINT16_MAX (ap_endpointId p)" "within UINT32_MAX (ap_clusterId p)"
    "within UINT32_MAX (ap_attributeId p)" "\<forall>i. ap_listIndex p = LIndex i \<longrightarrow> int i \<le> UINT16_MAX"
    using assms by (simp_all add: path_ok_def)
  have "good_field K (TlvOptionalField ''enableTagCompression'' 0 BooleanSchema) (map_option (\<lambda>b. VPrim (PBool b)) (ap_enableTagCompression p))"
    by (rule good_optional) (auto simp: good_bool)
  moreover have "good_field K (TlvOptionalField ''nodeId'' 1 TlvNodeId) (map_option (\<lambda>n. VPrim (PBig n)) (ap_nodeId p))"
    using p(1) by (intro good_optional) (auto simp: within_def good_node_id)
  moreover have "good_field K (TlvOptionalField ''endpointId'' 2 TlvEndpointNumber) (map_option num_value (ap_endpointId p))"
    unfolding TlvEndpointNumber_def TlvUInt16_def by (rule good_optional, rule good_numbers(2) [OF p(2)]) (simp add: int_limit_defs)
  moreover have "good_field K (TlvOptionalField ''clusterId'' 3 TlvClusterId) (map_option num_value (ap_clusterId p))"
    unfolding TlvClusterId_def TlvUInt32_def by (rule good_optional, rule good_numbers(2) [OF p(3)]) simp
  moreover have "good_field K (TlvOptionalField ''attributeId'' 4 TlvAttributeId) (map_option num_value (ap_attributeId p))"
    unfolding TlvAttributeId_def TlvUInt32_def by (rule good_optional, rule good_numbers(2) [OF p(4)]) simp
  moreover have "good_field K (TlvOptionalField ''listIndex'' 5 (NullableSchema TlvUInt16)) (list_index_value (ap_listIndex p))"
    by (rule good_optional, rule good_list_index [OF p(5)])
  ultimately show ?thesis
    unfolding TlvAttributePath_def path_value_def
    by (intro good_object) (simp_all add: field_pairs_def fields_ok_def TlvOptionalField_def)
qed

definition data_ok :: "(TlvStream \<Rightarrow> bool) \<Rightarrow> AttributeData \<Rightarrow> bool" where
  "data_ok K d \<longleftrightarrow> path_ok (atd_path d) \<and> within UINT32_MAX (atd_dataVersion d) \<and> K (atd_data d)"

definition status_ok :: "AttributeStatus \<Rightarrow> bool" where
  "status_ok s \<longleftrightarrow> path_ok (ats_path s) \<and> within UINT32_MAX (ats_status s) \<and> within UINT32_MAX (ats_clusterStatus s)"

definition report_ok :: "(TlvStream \<Rightarrow> bool) \<Rightarrow> AttributeReport \<Rightarrow> bool" where
  "report_ok K r \<longleftrightarrow> (\<forall>d. ar_attributeData r = Some d \<longrightarrow> data_ok K d) \<and> (\<forall>s. ar_attributeStatus r = Some s \<longrightarrow> status_ok s)"

lemma good_data:
  assumes "data_ok K d"
  shows "good K TlvAttributeReportData (attribute_data_value d)"
proof -
  have "good K AnySchema (VStream (atd_data d))" using assms by (simp add: good_def data_ok_def)
  then have "good_field K (TlvField ''data'' 2 AnySchema None) (Some (VStream (atd_data d)))" by (rule good_mandatory)
  moreover have "good_field K (TlvField ''path'' 1 TlvAttributePath None) (Some (path_value (atd_path d)))"
    using assms by (intro good_mandatory good_path) (simp add: data_ok_def)
  moreover have "good_field K (TlvOptionalField ''dataVersion'' 0 TlvUInt32) (map_option num_value (atd_dataVersion d))"
    unfolding TlvUInt32_def using assms by (intro good_optional good_numbers(1)) (auto simp: data_ok_def)
  ultimately show ?thesis
    unfolding TlvAttributeReportData_def attribute_data_value_def
    by (intro good_object) (simp_all add: field_pairs_def fields_ok_def TlvOptionalField_def TlvField_def)
qed

lemma good_status:
  assumes "status_ok s"
  shows "good K TlvAttributeStatus (attribute_status_value s)"
proof -
  have "good_field K (TlvOptionalField ''status'' 0 TlvEnum) (map_option num_value (ats_status s))"
    "good_field K (TlvOptionalField ''clusterStatus'' 1 TlvEnum) (map_option num_value (ats_clusterStatus s))"
    unfolding TlvEnum_def TlvUInt32_def using assms by (intro good_optional good_numbers(1); auto simp: status_ok_def)+
  then have "good K TlvStatus (status_value (ats_status s) (ats_clusterStatus s))"
    unfolding TlvStatus_def status_value_def
    by (intro good_object) (simp_all add: field_pairs_def fields_ok_def TlvOptionalField_def)
  then have "good_field K (TlvField ''status'' 1 TlvStatus None) (Some (status_value (ats_status s) (ats_clusterStatus s)))"
    by (rule good_mandatory)
  moreover have "good_field K (TlvField ''path'' 0 TlvAttributePath None) (Some (path_value (ats_path s)))"
    using assms by (intro good_mandatory good_path) (simp add: status_ok_def)
  ultimately show ?thesis
    unfolding TlvAttributeStatus_def attribute_status_value_def
    by (intro good_object) (simp_all add: field_pairs_def fields_ok_def TlvField_def)
qed

lemma good_report:
  assumes "report_ok K r"
  shows "good K TlvAttributeReport (report_value r)"
proof -
  have "good_field K (TlvOptionalField ''attributeStatus'' 0 TlvAttributeStatus) (map_option attribute_status_value (ar_attributeStatus r))"
    using assms by (intro good_optional) (auto simp: report_ok_def good_status)
  moreover have "good_field K (TlvOptionalField ''attributeData'' 1 TlvAttributeReportData) (map_option attribute_data_value (ar_attributeData r))"
    using assms by (intro good_optional) (auto simp: report_ok_def good_data)
  ultimately show ?thesis
    unfolding TlvAttributeReport_def report_value_def
    by (intro good_object) (simp_all add: field_pairs_def fields_ok_def TlvOptionalField_def)
qed

text \<open>What the reader gets for a report.\<close>

definition received_data :: "AttributeData \<Rightarrow> AttributeData" where
  "received_data d = d\<lparr>atd_data := map given (atd_data d)\<rparr>"

definition received_report :: "AttributeReport \<Rightarrow> AttributeReport" where
  "received_report r = r\<lparr>ar_attributeData := map_option received_data (ar_attributeData r)\<rparr>"

lemma given_strip [simp]: "given (strip e) = given e"
  by (cases "el_type e") (simp_all add: given_def strip_def decoded_value_def)

lemma raw_any: "raw_ok es \<Longrightarrow> any_ok (map given es)"
  using item_of_types(1) [of es] tlv_item_nonempty [of es] given_given [of "strip _"]
  by (auto simp: raw_ok_def any_ok_def list_all_iff hd_map comp_def)

lemma received_ok: "report_ok raw_ok r \<Longrightarrow> report_ok any_ok (received_report r)"
  by (auto simp: report_ok_def received_report_def received_data_def data_ok_def raw_any)

definition wire :: "tlv_schema \<Rightarrow> tlv_value \<Rightarrow> TlvTag option \<Rightarrow> byte list" where
  "wire s v tag = concat (map elem_bytes (elements s v tag))"

lemma strip_given_bytes: "elem_bytes (strip (given e)) = elem_bytes (strip e)"
  by (simp add: elem_bytes_def strip_def decoded_value_value)

lemma wire_given: "wire AnySchema (VStream (map given es)) tag = wire AnySchema (VStream es) tag"
proof -
  have first: "(given e)\<lparr>el_tag := t\<rparr> = given (e\<lparr>el_tag := t\<rparr>)" for e t
    by (cases "el_type e") (simp_all add: given_def decoded_value_def)
  have "assign_tag tag (map given es) = map given (assign_tag tag es)"
    by (cases tag; cases es) (simp_all add: first)
  then show ?thesis by (simp add: wire_def comp_def strip_given_bytes)
qed

lemma wire_value: "concat (map elem_bytes (value_elements (TlvField name i s fb) v)) = wire s v (Some (id_tag i))"
  "concat (map elem_bytes (value_elements (TlvOptionalField name i s) v)) = wire s v (Some (id_tag i))"
  by (simp_all add: TlvField_def TlvOptionalField_def wire_def)

lemma wire_props:
  assumes "field_pairs fs nvs"
  shows "wire (ObjectSchema k fs) (VObject (opt_props nvs)) tag =
    elem_bytes (mk tag (object_typeLength k) PUndefined) @
    concat (map (\<lambda>(f, vo). case vo of None \<Rightarrow> [] | Some v \<Rightarrow> concat (map elem_bytes (value_elements f v))) (zip fs (map snd nvs))) @
    elem_bytes (mk None TLEndOfContainer PUndefined)"
proof -
  have "concat (map elem_bytes (concat (map (\<lambda>(f, vo). case vo of None \<Rightarrow> [] | Some v \<Rightarrow> value_elements f v) fvs))) =
      concat (map (\<lambda>(f, vo). case vo of None \<Rightarrow> [] | Some v \<Rightarrow> concat (map elem_bytes (value_elements f v))) fvs)" for fvs
    by (induction fvs) (auto split: option.splits)
  then show ?thesis unfolding wire_def elements_of_props [OF assms] by simp
qed

lemma wire_data: "wire TlvAttributeReportData (attribute_data_value (received_data d)) tag = wire TlvAttributeReportData (attribute_data_value d) tag"
proof -
  have pairs: "field_pairs [TlvOptionalField ''dataVersion'' 0 TlvUInt32, TlvField ''path'' 1 TlvAttributePath None, TlvField ''data'' 2 AnySchema None]
      [(''dataVersion'', a), (''path'', b), (''data'', c)]" for a b c
    by (simp add: field_pairs_def fields_ok_def TlvOptionalField_def TlvField_def)
  show ?thesis
    unfolding TlvAttributeReportData_def attribute_data_value_def wire_props [OF pairs]
    by (simp add: received_data_def wire_value wire_given split: option.splits)
qed

lemma wire_report: "wire TlvAttributeReport (report_value (received_report r)) tag = wire TlvAttributeReport (report_value r) tag"
proof -
  have pairs: "field_pairs [TlvOptionalField ''attributeStatus'' 0 TlvAttributeStatus, TlvOptionalField ''attributeData'' 1 TlvAttributeReportData]
      [(''attributeStatus'', a), (''attributeData'', b)]" for a b
    by (simp add: field_pairs_def fields_ok_def TlvOptionalField_def)
  show ?thesis
    unfolding TlvAttributeReport_def report_value_def wire_props [OF pairs]
    by (simp add: received_report_def wire_value wire_data split: option.splits)
qed

text \<open>The stream that is sent for a report, and a message with such streams: its bytes are those of the typed message.\<close>

definition report_stream :: "AttributeReport \<Rightarrow> TlvStream" where
  "report_stream r = elements TlvAttributeReport (report_value r) None"

lemma report_stream_ok:
  assumes "report_ok raw_ok r"
  shows "raw_ok (report_stream r)" and "list_all elem_ok (report_stream r)"
proof -
  have fits: "fits_raw TlvAttributeReport (report_value r)" using good_report [OF assms] by (simp add: good_def)
  show ok: "list_all elem_ok (report_stream r)" unfolding report_stream_def by (rule elements_ok [OF fits otag_ok_None])
  then show "raw_ok (report_stream r)"
    using item_of_value [OF fits] elements_first_tag [OF fits] by (auto simp: raw_ok_def report_stream_def list_all_iff)
qed

lemma wire_reports:
  assumes "list_all (report_ok raw_ok) rs"
  shows "wire (TlvArray TlvAttributeReport) (VArray (map (\<lambda>r. report_value (received_report r)) rs)) tag =
    wire (TlvArray AnySchema) (streams_value (map report_stream rs)) tag"
proof -
  have "concat (map elem_bytes (concat (map (\<lambda>r. elements TlvAttributeReport (report_value (received_report r)) None) rs))) =
      concat (map elem_bytes (concat (map (\<lambda>r. map strip (report_stream r)) rs)))"
    using assms
  proof (induction rs)
    case (Cons r rs)
    have "map strip (report_stream r) = report_stream r"
      using report_stream_ok(2) [of r] Cons.prems by (simp add: list_all_iff map_idI)
    moreover have "concat (map elem_bytes (elements TlvAttributeReport (report_value (received_report r)) None)) = concat (map elem_bytes (report_stream r))"
      using wire_report [of r None] by (simp add: wire_def report_stream_def)
    ultimately show ?case using Cons by simp
  qed simp
  then show ?thesis by (simp add: wire_def TlvArray_def streams_value_def comp_def)
qed

section \<open>Messages\<close>

definition payload_ok :: "DataReportPayload \<Rightarrow> bool" where
  "payload_ok p \<longleftrightarrow> within UINT32_MAX (drp_subscriptionId p) \<and> 0 \<le> drp_interactionModelRevision p \<and> drp_interactionModelRevision p \<le> UINT8_MAX"

definition report_fields :: "tlv_schema \<Rightarrow> tlv_schema \<Rightarrow> tlv_field list" where
  "report_fields attributes events =
     [TlvOptionalField ''subscriptionId'' 0 TlvUInt32, TlvOptionalField ''attributeReports'' 1 (TlvArray attributes),
      TlvOptionalField ''eventReports'' 2 (TlvArray events), TlvOptionalField ''moreChunkedMessages'' 3 BooleanSchema,
      TlvOptionalField ''suppressResponse'' 4 BooleanSchema, TlvField ''interactionModelRevision'' 255 TlvUInt8 None]"

lemma report_schemas:
  "TlvDataReport = ObjectSchema KStructure (report_fields TlvAttributeReport TlvEventReport)"
  "TlvDataReportForSend = ObjectSchema KStructure (report_fields AnySchema AnySchema)"
  by (simp_all add: TlvDataReport_def TlvDataReportForSend_def report_fields_def)

lemma report_pairs:
  "field_pairs (report_fields a e)
     [(''subscriptionId'', v0), (''attributeReports'', v1), (''eventReports'', v2), (''moreChunkedMessages'', v3), (''suppressResponse'', v4),
      (''interactionModelRevision'', v5)]"
  by (simp add: field_pairs_def fields_ok_def report_fields_def TlvOptionalField_def TlvField_def)

lemma good_array:
  assumes "\<forall>v \<in> set vs. good K s v" and "length vs \<le> 65535"
  shows "good K (TlvArray s) (VArray vs)"
  using assms by (auto simp: good_def TlvArray_def list_all_iff validate_length_def intro: each_ok)

lemma good_data_report:
  assumes "payload_ok p" and "\<And>v. attributeReports = Some v \<Longrightarrow> good K (TlvArray a) v" and "\<And>v. eventReports = Some v \<Longrightarrow> good K (TlvArray e) v"
  shows "good K (ObjectSchema KStructure (report_fields a e)) (data_report_value p attributeReports eventReports chunked)"
proof -
  have "good_field K (TlvOptionalField ''subscriptionId'' 0 TlvUInt32) (map_option num_value (drp_subscriptionId p))"
    unfolding TlvUInt32_def using assms(1) by (intro good_optional good_numbers(1)) (auto simp: payload_ok_def)
  moreover have "good_field K (TlvOptionalField ''attributeReports'' 1 (TlvArray a)) attributeReports"
    "good_field K (TlvOptionalField ''eventReports'' 2 (TlvArray e)) eventReports"
    using assms(2,3) by (auto intro: good_optional)
  moreover have "good_field K (TlvOptionalField name i BooleanSchema) (map_option bool_value b)" for name i b
    by (rule good_optional) (auto simp: good_bool bool_value_def)
  moreover have "good_field K (TlvField ''interactionModelRevision'' 255 TlvUInt8 None) (Some (num_value (drp_interactionModelRevision p)))"
    unfolding TlvUInt8_def using assms(1) by (intro good_mandatory good_number(1)) (auto simp: payload_ok_def int_limit_defs)
  ultimately have "list_all2 (\<lambda>f (name, vo). good_field K f vo) (report_fields a e)
      [(''subscriptionId'', map_option num_value (drp_subscriptionId p)), (''attributeReports'', attributeReports),
       (''eventReports'', eventReports), (''moreChunkedMessages'', map_option bool_value chunked),
       (''suppressResponse'', map_option bool_value (drp_suppressResponse p)),
       (''interactionModelRevision'', Some (num_value (drp_interactionModelRevision p)))]"
    by (simp add: report_fields_def)
  then show ?thesis unfolding data_report_value_def by (rule good_object [OF report_pairs])
qed

lemma wire_message:
  assumes "list_all (report_ok raw_ok) rs"
  shows "wire TlvDataReport (data_report_value p (Some (VArray (map (\<lambda>r. report_value (received_report r)) rs))) None chunked) None =
    wire TlvDataReportForSend (data_report_value p (Some (streams_value (map report_stream rs))) None chunked) None"
    and "wire TlvDataReport (data_report_value p None None chunked) None = wire TlvDataReportForSend (data_report_value p None None chunked) None"
  unfolding report_schemas data_report_value_def wire_props [OF report_pairs]
  by (simp_all add: report_fields_def wire_value wire_reports [OF assms] split: option.splits)

text \<open>A message that is sent is read as the typed report.\<close>

definition report_values :: "AttributeReport list \<Rightarrow> tlv_value" where
  "report_values rs = VArray (map (\<lambda>r. report_value (received_report r)) rs)"

lemma encoded_good:
  assumes "good raw_ok s v"
  shows "schema_encode s v = Inr (wire s v None)"
  using encode_bytes [of s v False] assms by (auto simp: schema_encode_def good_def wire_def)

lemma decoded_good:
  assumes "good any_ok s v"
  shows "schema_decode s (wire s v None) True = Inr v"
  using decode_bytes [of s v] assms by (auto simp: schema_decode_def good_def wire_def)

lemma each_all: "each g xs = Inr () \<Longrightarrow> x \<in> set xs \<Longrightarrow> g x = Inr ()"
  unfolding each_def by (induction xs) (auto simp: rbind_eq_Inr)

lemma message_count:
  assumes "sendDataReportMessage p (Some ess) eventReports chunked = Inr m"
  shows "length ess \<le> 65535"
proof -
  let ?nvs = "[(''subscriptionId'', map_option num_value (drp_subscriptionId p)), (''attributeReports'', Some (streams_value ess)),
       (''eventReports'', map_option streams_value eventReports), (''moreChunkedMessages'', map_option bool_value chunked),
       (''suppressResponse'', map_option bool_value (drp_suppressResponse p)),
       (''interactionModelRevision'', Some (num_value (drp_interactionModelRevision p)))]"
  let ?f = "TlvOptionalField ''attributeReports'' 1 (TlvArray AnySchema)"
  have "validate TlvDataReportForSend (VObject (opt_props ?nvs)) = Inr ()"
    using assms by (auto simp: sendDataReportMessage_def encode_report_def data_report_value_def schema_encode_def rbind_eq_Inr)
  then have "validate_field ?f (VObject (opt_props ?nvs)) = Inr ()"
    unfolding report_schemas validate.simps by (rule each_all) (simp add: report_fields_def)
  moreover have "map_of (opt_props ?nvs) ''attributeReports'' = Some (streams_value ess)"
    using field_look [OF report_pairs, of 1 AnySchema AnySchema] by (simp add: report_fields_def TlvOptionalField_def)
  ultimately show ?thesis
    by (auto simp: TlvOptionalField_def TlvArray_def streams_value_def prop_of_def get_prop_def rbind_eq_Inr validate_length_def split: if_splits)
qed

lemma good_streams:
  assumes "payload_ok p" and "\<And>rs. rso = Some rs \<Longrightarrow> list_all (report_ok raw_ok) rs" and "\<And>rs. rso = Some rs \<Longrightarrow> length rs \<le> 65535"
  shows "good raw_ok TlvDataReportForSend (data_report_value p (map_option streams_value (map_option (map report_stream) rso)) None chunked)"
  unfolding report_schemas
proof (rule good_data_report [OF assms(1)])
  fix v
  assume "map_option streams_value (map_option (map report_stream) rso) = Some v"
  then obtain rs where rs: "rso = Some rs" "v = VArray (map VStream (map report_stream rs))" by (auto simp: streams_value_def)
  have "good raw_ok AnySchema (VStream (report_stream r))" if "r \<in> set rs" for r
    using assms(2) [OF rs(1)] that report_stream_ok(1) by (simp add: good_def list_all_iff)
  then show "good raw_ok (TlvArray AnySchema) v" using assms(3) [OF rs(1)] unfolding rs(2) by (intro good_array) auto
qed simp

lemma message_decodes:
  assumes "payload_ok p" and "\<And>rs. rso = Some rs \<Longrightarrow> list_all (report_ok raw_ok) rs"
    and "sendDataReportMessage p (map_option (map report_stream) rso) None chunked = Inr m"
  shows "schema_decode TlvDataReport m True = Inr (data_report_value p (map_option report_values rso) None chunked)"
    and "length m \<le> MAX_SPDU_LENGTH"
proof -
  let ?v1 = "data_report_value p (map_option streams_value (map_option (map report_stream) rso)) None chunked"
  let ?v2 = "data_report_value p (map_option report_values rso) None chunked"
  have count: "length rs \<le> 65535" if "rso = Some rs" for rs
    using message_count [of p "map report_stream rs" None chunked m] assms(3) that by simp
  have good1: "good raw_ok TlvDataReportForSend ?v1" using good_streams [OF assms(1,2) count] by simp
  have good2: "good any_ok TlvDataReport ?v2"
    unfolding report_schemas
  proof (rule good_data_report [OF assms(1)])
    fix v
    assume "map_option report_values rso = Some v"
    then obtain rs where rs: "rso = Some rs" "v = VArray (map (\<lambda>r. report_value (received_report r)) rs)" by (auto simp: report_values_def)
    then show "good any_ok (TlvArray TlvAttributeReport) v"
      using assms(2) [OF rs(1)] count [OF rs(1)] good_report [OF received_ok] unfolding rs(2) by (intro good_array) (auto simp: list_all_iff)
  qed simp
  have "wire TlvDataReport ?v2 None = wire TlvDataReportForSend ?v1 None"
    using wire_message(1) wire_message(2) [of "[]"] assms(2) by (cases rso) (auto simp: report_values_def)
  moreover have "m = wire TlvDataReportForSend ?v1 None" "length m \<le> MAX_SPDU_LENGTH"
    using assms(3) encoded_good [OF good1] by (auto simp: sendDataReportMessage_def encode_report_def split: if_splits)
  ultimately show "schema_decode TlvDataReport m True = Inr ?v2" and "length m \<le> MAX_SPDU_LENGTH"
    using decoded_good [OF good2] by simp_all
qed

end
