(* ===== verification/ReportLaws.thy ===== *)
theory ReportLaws
  imports ReportDelivery
begin

text \<open>
  The loop of \<^verbatim>\<open>sendDataReport\<close>: which reports its messages carry, and what \<^verbatim>\<open>readDataReport\<close> finds in one of them.
\<close>

section \<open>The messages of a report\<close>

definition contents :: "'a list option \<Rightarrow> 'a list" where
  "contents xo = (case xo of None \<Rightarrow> [] | Some xs \<Rightarrow> xs)"

lemma contents_simps [simp]: "contents None = []" "contents (Some xs) = xs"
  by (simp_all add: contents_def)

text \<open>What becomes of a report in the queue.\<close>

definition expands :: "AttributeReportPayload \<Rightarrow> AttributeReportPayload list \<Rightarrow> bool" where
  "expands a rs \<longleftrightarrow> rs = [a] \<or> (canAttributePayloadBeChunked a \<and> chunkAttributePayload a = Inr rs)"

lemma chunks_stay:
  assumes "chunkAttributePayload a = Inr cs" and "list_all2 expands (cs @ as) rss"
  shows "\<exists>rss'. list_all2 expands as rss' \<and> concat rss = cs @ concat rss'"
proof -
  obtain rss1 rss2 where r: "rss = rss1 @ rss2" "list_all2 expands cs rss1" "list_all2 expands as rss2"
    using assms(2) by (auto simp: list_all2_append1)
  have "rss1 = map (\<lambda>c. [c]) cs"
    using r(2) chunks_not_chunkable [OF assms(1)]
    by (auto simp: list_all2_conv_all_nth expands_def intro!: nth_equalityI)
  with r show ?thesis by auto
qed

definition sendable :: "(AttributeReportPayload \<Rightarrow> TlvStream) \<Rightarrow> AttributeReportPayload \<Rightarrow> bool" where
  "sendable E a \<longleftrightarrow> (\<forall>rs. expands a rs \<longrightarrow> (\<forall>r \<in> set rs. encodeAttributePayload r = Inr (E r)))"

lemma sendable_self: "sendable E a \<Longrightarrow> encodeAttributePayload a = Inr (E a)"
  by (auto simp: sendable_def expands_def)

lemma sendable_chunks:
  assumes "sendable E a" and "canAttributePayloadBeChunked a" and "chunkAttributePayload a = Inr cs" and "c \<in> set cs"
  shows "sendable E c"
  using assms chunks_not_chunkable [OF assms(3,4)] by (auto simp: sendable_def expands_def)

lemma open_attributes_simps [simp]:
  "rs_attributeReports (open_attributes st) = rs_attributeReports st" "rs_eventReports (open_attributes st) = rs_eventReports st"
  by (simp_all add: open_attributes_def)

lemma add_attribute_simps [simp]:
  "rs_attributeReports (add_attribute es n st) = Some (contents (rs_attributeReports st) @ [es])"
  "rs_eventReports (add_attribute es n st) = rs_eventReports st"
  by (simp_all add: add_attribute_def contents_def)

lemma contents_map [simp]: "contents (map_option (map f) xo) = map f (contents xo)"
  by (cases xo) simp_all

text \<open>The groups of reports that the messages carry, in order, are the reports of the queue, some of them in chunks.\<close>

lemma send_loop_messages:
  assumes "send_loop p n as es st sent = (sent', Inr st')" and "es = []" and "\<forall>a \<in> set as. sendable E a"
    and "rs_attributeReports st = map_option (map E) rso" and "rs_eventReports st = None"
  shows "\<exists>rss gs ms rso'. list_all2 expands as rss \<and> sent' = sent @ ms \<and>
    list_all2 (\<lambda>g m. sendDataReportMessage p (map_option (map E) g) None (Some True) = Inr m) gs ms \<and>
    rs_attributeReports st' = map_option (map E) rso' \<and> rs_eventReports st' = None \<and>
    concat (map contents gs) @ contents rso' = contents rso @ concat rss"
  using assms
proof (induction p n as es st sent arbitrary: rso rule: send_loop.induct)
  case (1 p n a as es st sent)
  let ?st = "open_attributes st"
  have enc: "encodeAttributePayload a = Inr (E a)" using 1(6) sendable_self by simp
  obtain k where k: "measured (encodeAttributePayload a) = Inr (E a, k)"
    using 1(4) enc by (cases "getEncodedByteLength (E a)") (auto simp: measured_def Let_def)
  have add: "\<exists>rss gs ms rso'. list_all2 expands (a # as) rss \<and> sent' = sent @ ms \<and>
      list_all2 (\<lambda>g m. sendDataReportMessage p (map_option (map E) g) None (Some True) = Inr m) gs ms \<and>
      rs_attributeReports st' = map_option (map E) rso' \<and> rs_eventReports st' = None \<and>
      concat (map contents gs) @ contents rso' = contents rso @ concat rss"
    if "list_all2 expands as rss" "sent' = sent @ ms0 @ ms"
      "list_all2 (\<lambda>g m. sendDataReportMessage p (map_option (map E) g) None (Some True) = Inr m) (gs0 @ gs) (ms0 @ ms)"
      "rs_attributeReports st' = map_option (map E) rso'" "rs_eventReports st' = None"
      "concat (map contents (gs0 @ gs)) @ contents rso' = contents rso @ a # concat rss" for rss gs0 gs ms0 ms rso'
    using that by (intro exI [of _ "[a] # rss"] exI [of _ "gs0 @ gs"] exI [of _ "ms0 @ ms"] exI [of _ rso']) (simp add: expands_def)
  consider (chunk) cs where "rs_messageSize ?st + k > MAX_SPDU_LENGTH" "canAttributePayloadBeChunked a" "chunkAttributePayload a = Inr cs"
    | (reset) m st2 where "rs_messageSize ?st + k > MAX_SPDU_LENGTH" "\<not> canAttributePayloadBeChunked a"
        "sendAndResetReport p n ?st = Inr (m, st2)"
    | (fits) "\<not> rs_messageSize ?st + k > MAX_SPDU_LENGTH"
    using 1(4) k by (auto simp: Let_def split: if_splits sum.splits)
  then show ?case
  proof cases
    case chunk
    have "send_loop p n (cs @ as) es ?st sent = (sent', Inr st')" using 1(4) k chunk by (simp add: Let_def)
    moreover have "\<forall>c \<in> set (cs @ as). sendable E c" using 1(6) sendable_chunks [OF _ chunk(2,3)] by auto
    ultimately obtain rss gs ms rso' where r: "list_all2 expands (cs @ as) rss" "sent' = sent @ ms"
        "list_all2 (\<lambda>g m. sendDataReportMessage p (map_option (map E) g) None (Some True) = Inr m) gs ms"
        "rs_attributeReports st' = map_option (map E) rso'" "rs_eventReports st' = None"
        "concat (map contents gs) @ contents rso' = contents rso @ concat rss"
      using 1(1) [OF refl k refl chunk(1,2,3), of rso] 1(5,7,8) by auto
    obtain rss' where "list_all2 expands as rss'" "concat rss = cs @ concat rss'" using chunks_stay [OF chunk(3) r(1)] by blast
    moreover have "expands a cs" using chunk(2,3) by (simp add: expands_def)
    ultimately show ?thesis
      using r by (intro exI [of _ "cs # rss'"] exI [of _ gs] exI [of _ ms] exI [of _ rso']) simp
  next
    case reset
    have st2: "sendDataReportMessage p (map_option (map E) rso) None (Some True) = Inr m" "rs_attributeReports st2 = None" "rs_eventReports st2 = None"
      using reset(3) 1(7,8) by (auto simp: sendAndResetReport_def rbind_eq_Inr)
    have "send_loop p n as es (add_attribute (E a) k st2) (sent @ [m]) = (sent', Inr st')" using 1(4) k reset by (simp add: Let_def)
    then obtain rss gs ms rso' where r: "list_all2 expands as rss" "sent' = (sent @ [m]) @ ms"
        "list_all2 (\<lambda>g m. sendDataReportMessage p (map_option (map E) g) None (Some True) = Inr m) gs ms"
        "rs_attributeReports st' = map_option (map E) rso'" "rs_eventReports st' = None"
        "concat (map contents gs) @ contents rso' = contents (Some [a]) @ concat rss"
      using 1(2) [OF refl k refl reset(1,2,3) refl, of "Some [a]"] 1(5,6) st2(2,3) by auto
    with st2(1) show ?thesis by (intro add [of rss "[m]" ms "[rso]" gs rso']) simp_all
  next
    case fits
    have "send_loop p n as es (add_attribute (E a) k ?st) sent = (sent', Inr st')" using 1(4) k fits by (simp add: Let_def)
    then obtain rss gs ms rso' where r: "list_all2 expands as rss" "sent' = sent @ ms"
        "list_all2 (\<lambda>g m. sendDataReportMessage p (map_option (map E) g) None (Some True) = Inr m) gs ms"
        "rs_attributeReports st' = map_option (map E) rso'" "rs_eventReports st' = None"
        "concat (map contents gs) @ contents rso' = contents (Some (contents rso @ [a])) @ concat rss"
      using 1(3) [OF refl k refl fits, of "Some (contents rso @ [a])"] 1(5-8) by auto
    then show ?thesis by (intro add [of rss "[]" ms "[]" gs rso']) simp_all
  qed
next
  case (3 p n st sent)
  then show ?case by (intro exI [of _ "[]"] exI [of _ rso]) simp
qed simp

section \<open>Reports of attributes\<close>

definition raw :: "tlv_schema \<Rightarrow> tlv_value \<Rightarrow> TlvStream" where
  "raw s v = elements s v None"

definition sent_stream :: "AttributeReportPayload \<Rightarrow> TlvStream" where
  "sent_stream r = report_stream (as_report raw r)"

definition deliverable :: "AttributeDataPayload \<Rightarrow> bool" where
  "deliverable d \<longleftrightarrow> path_ok (adp_path d) \<and> within UINT32_MAX (adp_dataVersion d) \<and> fits_bytes (adp_schema d) (adp_payload d)"

lemma raw_stream_ok: "fits_raw s v \<Longrightarrow> raw_ok (raw s v)"
  using item_of_value [of s v None] elements_ok [of s v None] elements_first_tag [of s v None]
  by (auto simp: raw_ok_def raw_def list_all_iff)

lemma deliverable_report:
  assumes "deliverable d"
  shows "report_ok raw_ok (as_report raw (whole d))" and "encodeAttributePayload (whole d) = Inr (sent_stream (whole d))"
proof -
  have fits: "fits_raw (adp_schema d) (adp_payload d)" using assms fits_bytes_raw by (simp add: deliverable_def)
  show ok: "report_ok raw_ok (as_report raw (whole d))"
    using assms raw_stream_ok [OF fits] by (simp add: report_ok_def as_report_def as_data_def whole_def data_ok_def deliverable_def)
  have "fits_raw TlvAttributeReport (report_value (as_report raw (whole d)))" using good_report [OF ok] by (simp add: good_def)
  from encode_stream [OF this, of False] encode_stream [OF fits, of False]
  show "encodeAttributePayload (whole d) = Inr (sent_stream (whole d))"
    by (simp add: encodeAttributePayload_def whole_def as_report_def as_data_def raw_def sent_stream_def report_stream_def)
qed

lemma received_arrived: "received_report (as_report raw r) = as_report arrived r"
  by (cases "rp_attributeData r") (simp_all add: received_report_def received_data_def as_report_def as_data_def arrived_def raw_def)

text \<open>The chunks of a deliverable list are deliverable.\<close>

lemma expands_whole:
  assumes "deliverable d" and "expands (whole d) rs" and "r \<in> set rs"
  shows "\<exists>d'. r = whole d' \<and> deliverable d'"
proof (cases "rs = [whole d]")
  case True
  then show ?thesis using assms(1,3) by auto
next
  case False
  then have "chunkAttributePayload (whole d) = Inr rs" using assms(2) by (simp add: expands_def)
  then obtain s mn mx vs where d: "adp_schema d = ArraySchema s mn mx" "adp_payload d = VArray vs"
    and rs: "rs = whole (d\<lparr>adp_path := (adp_path d)\<lparr>ap_listIndex := LUndefined\<rparr>, adp_payload := VArray []\<rparr>) #
      map (\<lambda>x. whole (d\<lparr>adp_schema := s, adp_path := (adp_path d)\<lparr>ap_listIndex := LNull\<rparr>, adp_payload := x\<rparr>)) vs"
    by (auto simp: chunkAttributePayload_def whole_def split: tlv_schema.splits tlv_value.splits)
  have "list_all (fits_bytes s) vs" using assms(1) d by (simp add: deliverable_def)
  with assms(1,3) d rs show ?thesis
    by (auto simp: deliverable_def path_ok_def list_all_iff)
qed

lemma sendable_whole: "deliverable d \<Longrightarrow> sendable sent_stream (whole d)"
  unfolding sendable_def using expands_whole deliverable_report(2) by metis

lemma expands_reported: "expands (whole d) rs \<Longrightarrow> reported d rs"
  by (auto simp: expands_def reported_def)

section \<open>Reading the messages\<close>

definition sub_value :: "DataReportPayload \<Rightarrow> tlv_value" where
  "sub_value p = (case drp_subscriptionId p of None \<Rightarrow> VUndefined | Some n \<Rightarrow> num_value n)"

definition report_props :: "DataReportPayload \<Rightarrow> AttributeReport list option \<Rightarrow> bool option \<Rightarrow> (string \<times> tlv_value) list" where
  "report_props p rso chunked =
     opt_props
       [(''subscriptionId'', map_option num_value (drp_subscriptionId p)), (''attributeReports'', map_option report_values rso),
        (''eventReports'', None), (''moreChunkedMessages'', map_option bool_value chunked),
        (''suppressResponse'', map_option bool_value (drp_suppressResponse p)),
        (''interactionModelRevision'', Some (num_value (drp_interactionModelRevision p)))]"

lemma report_props_value: "data_report_value p (map_option report_values rso) None chunked = VObject (report_props p rso chunked)"
  by (simp add: data_report_value_def report_props_def)

lemma report_props_look:
  "get_prop (report_props p rso chunked) ''subscriptionId'' = sub_value p"
  "array_prop (report_props p rso chunked) ''attributeReports'' = map (\<lambda>r. report_value (received_report r)) (contents rso)"
  "array_prop (report_props p rso chunked) ''eventReports'' = []"
  "get_prop (report_props p rso chunked) ''moreChunkedMessages'' = (case chunked of None \<Rightarrow> VUndefined | Some b \<Rightarrow> VPrim (PBool b))"
proof -
  have "map_of (report_props p rso chunked) ''subscriptionId'' = map_option num_value (drp_subscriptionId p)"
    "map_of (report_props p rso chunked) ''attributeReports'' = map_option report_values rso"
    "map_of (report_props p rso chunked) ''eventReports'' = None"
    "map_of (report_props p rso chunked) ''moreChunkedMessages'' = map_option bool_value chunked"
    unfolding report_props_def
    using field_look [OF report_pairs, of 0 TlvAttributeReport TlvEventReport] field_look [OF report_pairs, of 1 TlvAttributeReport TlvEventReport]
      field_look [OF report_pairs, of 2 TlvAttributeReport TlvEventReport] field_look [OF report_pairs, of 3 TlvAttributeReport TlvEventReport]
    by (simp_all add: report_fields_def TlvOptionalField_def TlvField_def numeral_2_eq_2 numeral_3_eq_3)
  then show "get_prop (report_props p rso chunked) ''subscriptionId'' = sub_value p"
    "array_prop (report_props p rso chunked) ''attributeReports'' = map (\<lambda>r. report_value (received_report r)) (contents rso)"
    "array_prop (report_props p rso chunked) ''eventReports'' = []"
    "get_prop (report_props p rso chunked) ''moreChunkedMessages'' = (case chunked of None \<Rightarrow> VUndefined | Some b \<Rightarrow> VPrim (PBool b))"
    by (auto simp: get_prop_def array_prop_def sub_value_def report_values_def bool_value_def contents_def split: option.splits)
qed

end
