(* ===== verification/ReportSending.thy ===== *)
theory ReportSending
  imports ReportLaws
begin

text \<open>
  A data report from end to end: if every piece of it fits into a message of its own, \<^verbatim>\<open>sendDataReport\<close> succeeds, no message exceeds the limit,
  and \<^verbatim>\<open>readDataReport\<close> and the decoder give the values of all attributes.
\<close>

section \<open>Sizes\<close>

definition stream_size :: "TlvStream \<Rightarrow> nat" where
  "stream_size es = length (concat (map elem_bytes es))"

definition message_bytes :: "DataReportPayload \<Rightarrow> AttributeReport list option \<Rightarrow> bool option \<Rightarrow> byte list" where
  "message_bytes p rso chunked =
     wire TlvDataReportForSend (data_report_value p (map_option streams_value (map_option (map report_stream) rso)) None chunked) None"

definition reports_size :: "AttributeReport list option \<Rightarrow> nat" where
  "reports_size rso = (case rso of None \<Rightarrow> 0 | Some rs \<Rightarrow> 3 + sum_list (map (\<lambda>r. stream_size (report_stream r)) rs))"

lemma array_size:
  assumes "list_all (report_ok raw_ok) rs"
  shows "length (wire (TlvArray AnySchema) (streams_value (map report_stream rs)) (Some (id_tag 1))) = reports_size (Some rs)"
proof -
  have "length (concat (map elem_bytes (concat (map (\<lambda>r. map strip (report_stream r)) rs)))) = sum_list (map (\<lambda>r. stream_size (report_stream r)) rs)"
    using assms
  proof (induction rs)
    case (Cons r rs)
    have "map strip (report_stream r) = report_stream r"
      using report_stream_ok(2) [of r] Cons.prems by (simp add: list_all_iff map_idI)
    with Cons show ?case by (simp add: stream_size_def)
  qed simp
  then show ?thesis
    by (simp add: wire_def TlvArray_def streams_value_def comp_def reports_size_def elem_bytes_def tag_bytes_def id_tag_def tag_number_bytes_def tag_fields_def)
qed

lemma message_size:
  assumes "\<And>rs. rso = Some rs \<Longrightarrow> list_all (report_ok raw_ok) rs"
  shows "length (message_bytes p rso chunked) = length (message_bytes p None chunked) + reports_size rso"
proof (cases rso)
  case (Some rs)
  then show ?thesis
    using array_size [OF assms [OF Some]]
    unfolding message_bytes_def report_schemas data_report_value_def wire_props [OF report_pairs]
    by (simp add: report_fields_def wire_value)
qed (simp add: reports_size_def)

lemma last_message_size: "length (message_bytes p rso None) \<le> length (message_bytes p rso (Some True))"
  unfolding message_bytes_def report_schemas data_report_value_def wire_props [OF report_pairs]
  by (simp add: report_fields_def)

lemma stream_size_pos: "report_ok raw_ok r \<Longrightarrow> 0 < stream_size (report_stream r)"
  using report_stream_ok(1) [of r] length_elem_bytes [of "report_stream r"] tlv_item_nonempty [of "report_stream r"]
  unfolding stream_size_def raw_ok_def by (metis length_greater_0_conv less_le_trans)

lemma reports_count:
  assumes "list_all (report_ok raw_ok) rs"
  shows "length rs \<le> reports_size (Some rs)"
  using assms stream_size_pos by (induction rs) (fastforce simp: reports_size_def)+

section \<open>Messages that are sent\<close>

lemma message_encoded:
  assumes "payload_ok p" and "\<And>rs. rso = Some rs \<Longrightarrow> list_all (report_ok raw_ok) rs" and "\<And>rs. rso = Some rs \<Longrightarrow> length rs \<le> 65535"
  shows "encode_report p (map_option (map report_stream) rso) None chunked = Inr (message_bytes p rso chunked)"
  using encoded_good [OF good_streams [OF assms]] by (simp add: encode_report_def message_bytes_def)

lemma message_fits:
  assumes "payload_ok p" and "\<And>rs. rso = Some rs \<Longrightarrow> list_all (report_ok raw_ok) rs"
    and "length (message_bytes p None (Some True)) + reports_size rso \<le> MAX_SPDU_LENGTH" and "chunked = None \<or> chunked = Some True"
  shows "\<exists>m. sendDataReportMessage p (map_option (map report_stream) rso) None chunked = Inr m"
proof -
  have "length rs \<le> 65535" if "rso = Some rs" for rs
    using reports_count [OF assms(2) [OF that]] assms(3) that by (simp add: MAX_SPDU_LENGTH_def)
  moreover have "length (message_bytes p rso chunked) \<le> MAX_SPDU_LENGTH"
    using message_size [OF assms(2), where p = p] last_message_size [of p rso] assms(3,4) by (metis order_trans)
  ultimately show ?thesis using message_encoded [OF assms(1,2)] by (simp add: sendDataReportMessage_def)
qed

text \<open>The pieces into which a report may be cut, and that one of them fits into a message.\<close>

definition pieces :: "AttributeReportPayload \<Rightarrow> AttributeReportPayload list" where
  "pieces a = (if canAttributePayloadBeChunked a then (case chunkAttributePayload a of Inr cs \<Rightarrow> cs | Inl _ \<Rightarrow> [a]) else [a])"

definition sent_alone :: "DataReportPayload \<Rightarrow> AttributeReportPayload \<Rightarrow> bool" where
  "sent_alone p r \<longleftrightarrow> is_ok (rbind (encodeAttributePayload r) (\<lambda>es. sendDataReportMessage p (Some [es]) None (Some True)))"

lemma pieces_of_chunk: "chunkAttributePayload a = Inr cs \<Longrightarrow> c \<in> set cs \<Longrightarrow> pieces c = [c]"
  using chunks_not_chunkable by (simp add: pieces_def)

lemma sent_alone_size:
  assumes "sent_alone p r" and "payload_ok p" and "report_ok raw_ok (as_report raw r)" and "encodeAttributePayload r = Inr (sent_stream r)"
  shows "length (message_bytes p None (Some True)) + 3 + stream_size (sent_stream r) \<le> MAX_SPDU_LENGTH"
proof -
  let ?rs = "[as_report raw r]"
  have "encode_report p (Some [sent_stream r]) None (Some True) = Inr (message_bytes p (Some ?rs) (Some True))"
    using message_encoded [OF assms(2), of "Some ?rs" "Some True"] assms(3) by (simp add: sent_stream_def)
  then have "length (message_bytes p (Some ?rs) (Some True)) \<le> MAX_SPDU_LENGTH"
    using assms(1,4) by (auto simp: sent_alone_def sendDataReportMessage_def is_ok_iff split: if_splits)
  with message_size [of "Some ?rs" p "Some True"] assms(3) show ?thesis by (simp add: reports_size_def sent_stream_def)
qed

section \<open>The loop\<close>

text \<open>The contents of the report under construction, and its size.\<close>

definition room :: "nat \<Rightarrow> AttributeReportPayload list option \<Rightarrow> bool" where
  "room b rso \<longleftrightarrow> b + (case rso of None \<Rightarrow> 0 | Some rs \<Rightarrow> 3 + sum_list (map (\<lambda>r. stream_size (sent_stream r)) rs)) \<le> MAX_SPDU_LENGTH"

definition counted :: "nat \<Rightarrow> AttributeReportPayload list option \<Rightarrow> report_state \<Rightarrow> bool" where
  "counted b rso st \<longleftrightarrow> rs_attributeReports st = map_option (map sent_stream) rso \<and> rs_eventReports st = None \<and>
     rs_messageSize st = b + (if rs_firstAttributeAdded st then 3 else 0) + sum_list (map (\<lambda>r. stream_size (sent_stream r)) (contents rso)) \<and>
     list_all (\<lambda>r. report_ok raw_ok (as_report raw r)) (contents rso) \<and> room b rso"

text \<open>A report of the queue: all it may expand to can be encoded, and its pieces fit into messages of their own.\<close>

definition queued :: "nat \<Rightarrow> AttributeReportPayload \<Rightarrow> bool" where
  "queued b a \<longleftrightarrow> (\<forall>rs. expands a rs \<longrightarrow> (\<forall>r \<in> set rs. report_ok raw_ok (as_report raw r) \<and> encodeAttributePayload r = Inr (sent_stream r))) \<and>
     (\<forall>r \<in> set (pieces a). room b (Some [r]))"

lemma queued_self:
  assumes "queued b a"
  shows "measured (encodeAttributePayload a) = Inr (sent_stream a, stream_size (sent_stream a))" and "report_ok raw_ok (as_report raw a)"
proof -
  have "expands a [a]" by (simp add: expands_def)
  with assms show "report_ok raw_ok (as_report raw a)" and "measured (encodeAttributePayload a) = Inr (sent_stream a, stream_size (sent_stream a))"
    using report_stream_ok(2) [of "as_report raw a"]
    by (auto simp: queued_def measured_def getEncodedByteLength_elements sent_stream_def stream_size_def)
qed

lemma queued_chunks:
  assumes "queued b a" and "canAttributePayloadBeChunked a" and "chunkAttributePayload a = Inr cs" and "c \<in> set cs"
  shows "queued b c"
proof -
  have "expands a cs" using assms(2,3) by (simp add: expands_def)
  then have ok: "report_ok raw_ok (as_report raw c) \<and> encodeAttributePayload c = Inr (sent_stream c)"
    using assms(1,4) unfolding queued_def by blast
  have single: "rs = [c]" if "expands c rs" for rs using that chunks_not_chunkable [OF assms(3,4)] by (simp add: expands_def)
  have "room b (Some [c])" using assms by (simp add: queued_def pieces_def)
  with ok show ?thesis unfolding queued_def pieces_of_chunk [OF assms(3,4)] by (auto dest: single)
qed

lemma counted_message:
  assumes "counted b rso st" and "payload_ok p" and "b = length (message_bytes p None (Some True))" and "chunked = None \<or> chunked = Some True"
  shows "\<exists>m. sendDataReportMessage p (rs_attributeReports st) (rs_eventReports st) chunked = Inr m"
proof -
  let ?rso = "map_option (map (as_report raw)) rso"
  have "\<exists>m. sendDataReportMessage p (map_option (map report_stream) ?rso) None chunked = Inr m"
  proof (rule message_fits [OF assms(2) _ _ assms(4)])
    show "length (message_bytes p None (Some True)) + reports_size ?rso \<le> MAX_SPDU_LENGTH"
      using assms(1,3) by (cases rso) (simp_all add: counted_def room_def reports_size_def sent_stream_def comp_def)
  qed (use assms(1) in \<open>auto simp: counted_def list_all_iff\<close>)
  then show ?thesis
    using assms(1) by (cases rso) (simp_all add: counted_def sent_stream_def [abs_def] comp_def)
qed

lemma counted_reset:
  assumes "counted b rso st" and "payload_ok p" and "b = length (message_bytes p None (Some True))"
  shows "\<exists>m st'. sendAndResetReport p b st = Inr (m, st') \<and> counted b None st' \<and> \<not> rs_firstAttributeAdded st'"
proof -
  obtain m where "sendDataReportMessage p (rs_attributeReports st) (rs_eventReports st) (Some True) = Inr m"
    using counted_message [OF assms] by blast
  moreover have "b \<le> MAX_SPDU_LENGTH" using assms(1) by (cases rso) (auto simp: counted_def room_def)
  ultimately show ?thesis
    by (intro exI [of _ m] exI [of _ "\<lparr>rs_attributeReports = None, rs_eventReports = None, rs_messageSize = b,
          rs_firstAttributeAdded = False, rs_firstEventAdded = False\<rparr>"]) (simp add: sendAndResetReport_def counted_def room_def)
qed

lemma send_loop_returns:
  assumes "\<forall>a \<in> set as. queued b a" and "es = []" and "counted b rso st" and "payload_ok p" and "b = length (message_bytes p None (Some True))"
  shows "\<exists>sent' st' rso'. send_loop p b as es st sent = (sent', Inr st') \<and> counted b rso' st'"
  using assms
proof (induction p b as es st sent arbitrary: rso rule: send_loop.induct)
  case (1 p b a as es st sent)
  let ?st = "open_attributes st" and ?k = "stream_size (sent_stream a)"
  have a: "measured (encodeAttributePayload a) = Inr (sent_stream a, ?k)" "report_ok raw_ok (as_report raw a)" "queued b a"
    using queued_self [of b a] 1(4) by simp_all
  have open_st: "counted b rso ?st" "rs_firstAttributeAdded ?st" using 1(6) by (auto simp: counted_def open_attributes_def)
  show ?case
  proof (cases "rs_messageSize ?st + ?k > MAX_SPDU_LENGTH")
    case False
    then have "counted b (Some (contents rso @ [a])) (add_attribute (sent_stream a) ?k ?st)"
      using open_st a(2) by (auto simp: counted_def room_def add_attribute_def contents_def split: option.splits)
    from 1(3) [OF refl a(1) refl False _ 1(5) this 1(7,8)] 1(4) a(1) False show ?thesis by (simp add: Let_def)
  next
    case big: True
    show ?thesis
    proof (cases "canAttributePayloadBeChunked a")
      case True
      obtain cs where cs: "chunkAttributePayload a = Inr cs"
        using True by (auto simp: canAttributePayloadBeChunked_def chunkAttributePayload_def split: option.splits tlv_schema.splits tlv_value.splits)
      have "\<forall>c \<in> set (cs @ as). queued b c" using queued_chunks [OF a(3) True cs] 1(4) by auto
      from 1(1) [OF refl a(1) refl big True cs this 1(5) open_st(1) 1(7,8)] a(1) big True cs show ?thesis by (simp add: Let_def)
    next
      case False
      obtain m st' where r: "sendAndResetReport p b ?st = Inr (m, st')" "counted b None st'" "\<not> rs_firstAttributeAdded st'"
        using counted_reset [OF open_st(1) 1(7,8)] by blast
      have "room b (Some [a])" using a(3) False by (simp add: queued_def pieces_def)
      then have "counted b (Some [a]) (add_attribute (sent_stream a) ?k st')"
        using r(2,3) a(2) by (simp add: counted_def add_attribute_def)
      from 1(2) [OF refl a(1) refl big False r(1) refl _ 1(5) this 1(7,8)] 1(4) a(1) big False r(1) show ?thesis by (simp add: Let_def)
    qed
  qed
next
  case (3 p b st sent)
  then show ?case by auto
qed simp

section \<open>Reading\<close>

lemma read_message:
  assumes "payload_ok p" and "\<And>rs. rso = Some rs \<Longrightarrow> list_all (report_ok raw_ok) rs"
    and "sendDataReportMessage p (map_option (map report_stream) rso) None chunked = Inr m" and "sub = VUndefined \<or> sub = sub_value p"
  shows "readDataReport (m # ms) sub as es =
    (if chunked = Some True then readDataReport ms (sub_value p) (as @ map (\<lambda>r. report_value (received_report r)) (contents rso)) es
     else Inr (Some (sub_value p, as @ map (\<lambda>r. report_value (received_report r)) (contents rso), es)))"
  using message_decodes(1) [OF assms(1-3)] assms(4)
  by (auto simp: report_props_value report_props_look Let_def split: option.splits)

text \<open>The values of attributes that a payload comes to.\<close>

definition arrived_value :: "AttributeReportPayload \<Rightarrow> tlv_value" where
  "arrived_value r = report_value (as_report arrived r)"

lemma read_group:
  assumes "payload_ok p" and "list_all (\<lambda>r. report_ok raw_ok (as_report raw r)) (contents g)"
    and "sendDataReportMessage p (map_option (map sent_stream) g) None chunked = Inr m" and "sub = VUndefined \<or> sub = sub_value p"
  shows "readDataReport (m # ms) sub as es =
    (if chunked = Some True then readDataReport ms (sub_value p) (as @ map arrived_value (contents g)) es
     else Inr (Some (sub_value p, as @ map arrived_value (contents g), es)))"
    and "length m \<le> MAX_SPDU_LENGTH"
proof -
  let ?rso = "map_option (map (as_report raw)) g"
  have ok: "list_all (report_ok raw_ok) rs" if "?rso = Some rs" for rs using assms(2) that by (auto simp: list_all_iff)
  have sent: "sendDataReportMessage p (map_option (map report_stream) ?rso) None chunked = Inr m"
    using assms(3) by (cases g) (simp_all add: sent_stream_def [abs_def] comp_def)
  have vals: "map (\<lambda>r. report_value (received_report r)) (contents ?rso) = map arrived_value (contents g)"
    by (simp add: received_arrived arrived_value_def)
  from read_message [OF assms(1) ok sent assms(4), unfolded vals] show "readDataReport (m # ms) sub as es =
    (if chunked = Some True then readDataReport ms (sub_value p) (as @ map arrived_value (contents g)) es
     else Inr (Some (sub_value p, as @ map arrived_value (contents g), es)))" by blast
  show "length m \<le> MAX_SPDU_LENGTH" by (rule message_decodes(2) [OF assms(1) ok sent])
qed

lemma read_groups:
  assumes "list_all2 (\<lambda>g m. sendDataReportMessage p (map_option (map sent_stream) g) None (Some True) = Inr m) gs ms"
    and "payload_ok p" and "list_all (\<lambda>r. report_ok raw_ok (as_report raw r)) (concat (map contents gs) @ contents g)"
    and "sendDataReportMessage p (map_option (map sent_stream) g) None None = Inr m" and "sub = VUndefined \<or> sub = sub_value p"
  shows "readDataReport (ms @ [m]) sub as es = Inr (Some (sub_value p, as @ map arrived_value (concat (map contents gs) @ contents g), es))"
    and "\<forall>m' \<in> set (ms @ [m]). length m' \<le> MAX_SPDU_LENGTH"
  using assms
proof (induction gs ms arbitrary: sub as rule: list_all2_induct)
  case Nil
  { case 1 then show ?case using read_group(1) [of p g None m sub "[]"] by simp next
    case 2 then show ?case using read_group(2) [of p g None m sub] by simp }
next
  case (Cons g' gs m' ms)
  { case 1
    then show ?case using Cons.IH(1) [of "sub_value p"] read_group(1) [of p g' "Some True" m' sub] Cons.hyps by simp
  next
    case 2
    then show ?case using Cons.IH(2) [of "sub_value p"] read_group(2) [of p g' "Some True" m' sub] Cons.hyps by auto }
qed

section \<open>Data reports\<close>

lemma small_sizes:
  "length (wire (NumericSchema c KUnsignedInt mn mx) (num_value n) (Some (id_tag i))) \<le> 10"
  "length (wire BooleanSchema (bool_value b) (Some (id_tag i))) \<le> 2"
proof -
  have tag: "length (tag_number_bytes (Some (id_tag i))) \<le> 1"
    by (simp add: tag_number_bytes_def tag_fields_def id_tag_def)
  then show "length (wire BooleanSchema (bool_value b) (Some (id_tag i))) \<le> 2"
    by (simp add: wire_def elem_bytes_def tag_bytes_def bool_value_def)
  have "getUIntByteLength (getUIntTlvLength n) \<le> 8" by (cases "getUIntTlvLength n") simp_all
  with tag show "length (wire (NumericSchema c KUnsignedInt mn mx) (num_value n) (Some (id_tag i))) \<le> 10"
    by (simp add: wire_def elem_bytes_def tag_bytes_def numeric_typeLength_def)
qed

lemma empty_message_size: "length (message_bytes p None (Some True)) \<le> MAX_SPDU_LENGTH"
proof -
  have "length (elem_bytes (mk None ty PUndefined)) = 1" if "ty = TLStructure \<or> ty = TLEndOfContainer" for ty
    using that by (auto simp: elem_bytes_def tag_bytes_def tag_number_bytes_def tag_fields_def)
  then have "length (message_bytes p None (Some True)) \<le> 26"
    unfolding message_bytes_def report_schemas data_report_value_def wire_props [OF report_pairs]
    using small_sizes(1) [of NumberSchema "Some 0" "Some UINT32_MAX" "the (drp_subscriptionId p)" 0]
      small_sizes(1) [of NumberSchema "Some 0" "Some UINT8_MAX" "drp_interactionModelRevision p" 255]
      small_sizes(2) [of True 3] small_sizes(2) [of "the (drp_suppressResponse p)" 4]
    by (auto simp: report_fields_def wire_value TlvUInt32_def TlvUInt8_def object_typeLength_def split: option.splits)
  then show ?thesis by (simp add: MAX_SPDU_LENGTH_def)
qed

lemma deliverable_queued:
  assumes "deliverable d" and "payload_ok p" and "\<forall>r \<in> set (pieces (whole d)). sent_alone p r"
  shows "queued (length (message_bytes p None (Some True))) (whole d)"
proof -
  have ok: "report_ok raw_ok (as_report raw r) \<and> encodeAttributePayload r = Inr (sent_stream r)" if "expands (whole d) rs" "r \<in> set rs" for rs r
    using expands_whole [OF assms(1) that] deliverable_report by blast
  have "expands (whole d) (pieces (whole d))" by (simp add: expands_def pieces_def split: sum.splits)
  then have "room (length (message_bytes p None (Some True))) (Some [r])" if "r \<in> set (pieces (whole d))" for r
    using sent_alone_size [of p r] assms(2,3) that ok by (simp add: room_def)
  with ok show ?thesis unfolding queued_def by blast
qed

lemma report_messages:
  assumes "payload_ok p" and "drp_attributeReportsPayload p = Some (map whole ds)" and "contents (drp_eventReportsPayload p) = []"
    and "\<forall>d \<in> set ds. deliverable d \<and> (\<forall>r \<in> set (pieces (whole d)). sent_alone p r)"
  shows "\<exists>messages rss. sendDataReport p = (messages, Inr ()) \<and> (\<forall>m \<in> set messages. length m \<le> MAX_SPDU_LENGTH) \<and>
    list_all2 expands (map whole ds) rss \<and>
    readDataReport messages VUndefined [] [] = Inr (Some (sub_value p, map arrived_value (concat rss), []))"
proof -
  let ?b = "length (message_bytes p None (Some True))" and ?as = "map whole ds"
  let ?st = "\<lparr>rs_attributeReports = None, rs_eventReports = None, rs_messageSize = ?b, rs_firstAttributeAdded = False, rs_firstEventAdded = False\<rparr>"
  have queue: "\<forall>a \<in> set ?as. queued ?b a" "\<forall>a \<in> set ?as. sendable sent_stream a"
    using deliverable_queued assms(1,4) sendable_whole by auto
  have "counted ?b None ?st" using empty_message_size by (simp add: counted_def room_def)
  then obtain sent st' rso where loop: "send_loop p ?b ?as [] ?st [] = (sent, Inr st')" "counted ?b rso st'"
    using send_loop_returns [OF queue(1) refl _ assms(1) refl] by blast
  obtain m where m: "sendDataReportMessage p (rs_attributeReports st') (rs_eventReports st') None = Inr m"
    using counted_message [OF loop(2) assms(1) refl] by blast
  obtain rss gs ms g where r: "list_all2 expands ?as rss" "sent = ms"
      "list_all2 (\<lambda>g m. sendDataReportMessage p (map_option (map sent_stream) g) None (Some True) = Inr m) gs ms"
      "rs_attributeReports st' = map_option (map sent_stream) g" "rs_eventReports st' = None"
      "concat (map contents gs) @ contents g = concat rss"
    using send_loop_messages [OF loop(1) refl queue(2), of None] by auto
  have "list_all (\<lambda>r. report_ok raw_ok (as_report raw r)) (concat rss)"
    using r(1) queue(1)
  proof (induction rule: list_all2_induct)
    case (Cons a as rs rss)
    then have "\<forall>r \<in> set rs. report_ok raw_ok (as_report raw r)" unfolding queued_def by auto
    with Cons show ?case by (auto simp: list_all_iff)
  qed simp
  then have ok: "list_all (\<lambda>r. report_ok raw_ok (as_report raw r)) (concat (map contents gs) @ contents g)" by (simp add: r(6))
  have read: "readDataReport (ms @ [m]) VUndefined [] [] = Inr (Some (sub_value p, map arrived_value (concat rss), []))"
    "\<forall>m' \<in> set (ms @ [m]). length m' \<le> MAX_SPDU_LENGTH"
    using read_groups(1) [OF r(3) assms(1) ok, where m = m and sub = VUndefined and as = "[]" and es = "[]"]
      read_groups(2) [OF r(3) assms(1) ok, where m = m and sub = VUndefined] m r(4,5,6) by simp_all
  have "encode_report p None None (Some True) = Inr (message_bytes p None (Some True))"
    using message_encoded [OF assms(1), of None] by simp
  moreover have "(case drp_eventReportsPayload p of None \<Rightarrow> [] | Some es \<Rightarrow> es) = []" using assms(3) by (simp add: contents_def)
  ultimately have "sendDataReport p = (ms @ [m], Inr ())"
    using loop(1) m r(2) assms(2) by (simp add: sendDataReport_def Let_def)
  with read r(1) show ?thesis by blast
qed

text \<open>
  C7. Data reports of attributes are delivered: when the report has no events, its fields are in range, its attributes have distinct paths, defined
  values and are known to the decoder, and every attribute, or every piece of a list that may be cut, fits into a message of its own, then sending
  succeeds, no message exceeds the limit, reading the messages ends with the subscription id and reports that the decoder turns into the paths,
  versions and values of all attributes, in order.
\<close>

theorem reports_delivered:
  assumes "payload_ok p" and "drp_attributeReportsPayload p = Some (map (whole \<circ> snd) nds)" and "contents (drp_eventReportsPayload p) = []"
    and "\<forall>(name, d) \<in> set nds. reportable d \<and> deliverable d \<and> is_defined attributes name d" and "distinct (map (path_of \<circ> snd) nds)"
    and "\<forall>(name, d) \<in> set nds. \<forall>r \<in> set (pieces (whole d)). sent_alone p r"
  shows "\<exists>messages reports. sendDataReport p = (messages, Inr ()) \<and> (\<forall>m \<in> set messages. length m \<le> MAX_SPDU_LENGTH) \<and>
    readDataReport messages VUndefined [] [] = Inr (Some (sub_value p, map report_value reports, [])) \<and>
    normalizeAndDecodeReadAttributeReport attributes reports = Inr (map (\<lambda>(name, d). decoded_as name d) nds)"
proof -
  have "\<forall>d \<in> set (map snd nds). deliverable d \<and> (\<forall>r \<in> set (pieces (whole d)). sent_alone p r)" using assms(4,6) by auto
  then obtain messages rss where r: "sendDataReport p = (messages, Inr ())" "\<forall>m \<in> set messages. length m \<le> MAX_SPDU_LENGTH"
      "list_all2 expands (map whole (map snd nds)) rss"
      "readDataReport messages VUndefined [] [] = Inr (Some (sub_value p, map arrived_value (concat rss), []))"
    using report_messages [OF assms(1) _ assms(3), of "map snd nds"] assms(2) by auto
  have "list_all2 (\<lambda>(name, d) rs. reported d rs) nds rss"
    using r(3) expands_reported by (auto simp: list_all2_map1 elim!: list_all2_mono)
  then have "normalizeAndDecodeReadAttributeReport attributes (map (as_report arrived) (concat rss)) = Inr (map (\<lambda>(name, d). decoded_as name d) nds)"
    using values_arrive [of nds attributes rss] assms(4,5) by auto
  moreover have "map arrived_value (concat rss) = map report_value (map (as_report arrived) (concat rss))" by (simp add: arrived_value_def)
  ultimately show ?thesis using r by metis
qed

definition sample_report :: DataReportPayload where
  "sample_report = \<lparr>drp_subscriptionId = Some 5, drp_attributeReportsPayload = Some [whole (sample_data None 0), whole sample_list],
     drp_eventReportsPayload = None, drp_suppressResponse = None, drp_interactionModelRevision = 11\<rparr>"

lemma sample_pieces_sent: "list_all (\<lambda>d. list_all (sent_alone sample_report) (pieces (whole d))) [sample_data None 0, sample_list]"
  by code_simp

theorem reports_delivered_witness:
  "\<exists>messages reports. sendDataReport sample_report = (messages, Inr ()) \<and> (\<forall>m \<in> set messages. length m \<le> MAX_SPDU_LENGTH) \<and>
    readDataReport messages VUndefined [] [] = Inr (Some (sub_value sample_report, map report_value reports, [])) \<and>
    normalizeAndDecodeReadAttributeReport sample_attributes reports =
      Inr [decoded_as ''onOff'' (sample_data None 0), decoded_as ''list'' sample_list]"
proof -
  let ?nds = "[(''onOff'', sample_data None 0), (''list'', sample_list)]"
  have "payload_ok sample_report" by (simp add: payload_ok_def sample_report_def within_def int_limit_defs)
  moreover have "drp_attributeReportsPayload sample_report = Some (map (whole \<circ> snd) ?nds)" "contents (drp_eventReportsPayload sample_report) = []"
    by (simp_all add: sample_report_def)
  moreover have "\<forall>(name, d) \<in> set ?nds. reportable d \<and> deliverable d \<and> is_defined sample_attributes name d" "distinct (map (path_of \<circ> snd) ?nds)"
    by (simp_all add: reportable_def deliverable_def path_ok_def within_def int_limit_defs is_defined_def path_of_def sample_list_def sample_data_defs
        sample_attributes_def complete_path_def getClusterAttributeById_def)
  moreover have "\<forall>(name, d) \<in> set ?nds. \<forall>r \<in> set (pieces (whole d)). sent_alone sample_report r"
    using sample_pieces_sent by (simp add: list_all_iff)
  ultimately show ?thesis using reports_delivered [of sample_report ?nds sample_attributes] by simp
qed

end
