(* ===== verification/Spec2Isabelle.thy ===== *)
theory Spec2Isabelle
  imports MessageCounters BtpLimits PairingCodes TxLocks ExchangeDelivery DnsLimits SessionLaws
    ExchangeSafety ChannelLaws SessionNonces EventHandler ReportSending
begin

text \<open>
  A verification development of matter.js, a TypeScript implementation of the Matter protocol.  Paths below
  are relative to \<^verbatim>\<open>src/packages/matter.js/src\<close>.

  \<^bold>\<open>The program.\<close>  A node talks to its peers in messages.  A message carries a payload in the
  TLV encoding, which \<^verbatim>\<open>tlv/\<close> reads and writes by schema; \<^verbatim>\<open>codec/MessageCodec.ts\<close> puts headers in front of it and a session,
  \<^verbatim>\<open>session/\<close>, encrypts it; \<^verbatim>\<open>protocol/MessageCounter.ts\<close> numbers the messages and \<^verbatim>\<open>protocol/MessageReceptionState.ts\<close> recognises
  repeated ones; \<^verbatim>\<open>protocol/MessageExchange.ts\<close> acknowledges and retransmits them, and \<^verbatim>\<open>protocol/ExchangeManager.ts\<close>
  finds the session and the exchange of a message that arrives.  Attributes and events are reported in the messages of
  \<^verbatim>\<open>protocol/interaction/\<close>.  Over Bluetooth a message is cut into packets by the
  transport of \<^verbatim>\<open>ble/BtpSessionHandler.ts\<close> with the packet format of \<^verbatim>\<open>codec/BtpCodec.ts\<close>.  A device announces itself with the
  codes of \<^verbatim>\<open>schema/\<close> and in the DNS messages of \<^verbatim>\<open>codec/DnsCodec.ts\<close>.  What has to survive a restart is kept in
  \<^verbatim>\<open>storage/\<close>.  Inside a node, changes of state are transactions, \<^verbatim>\<open>behavior/state/transaction/\<close>: participants
  commit in two phases and resources are locked.

  \<^bold>\<open>Conventions.\<close>  An operation that may throw returns a \<open>result\<close>, a sum of an error and a value; an
  operation that changes an object returns the new record; when an exception leaves earlier assignments in
  place the state is returned beside the error.  Numbers that hold integers are \<open>int\<close>, with the 32 bit
  conversions of the bitwise operators written out; bytes are \<open>8 word\<close>.  Objects that are compared or shared are
  references into a store.  Asynchronous operations are one
  function per section between two \<^verbatim>\<open>await\<close>s, and a step relation interleaves the sections; where an operation is taken
  as run to its end its theory says so.  Random numbers, time, cryptography, callbacks and participants are arguments.

  \<^bold>\<open>Theories.\<close>
  \<^item> \<open>Prelude\<close>: errors, results, bytes, shared list lemmas.  \<open>JsNumber\<close>, \<open>JsFloat\<close>, \<open>Utf8\<close>, \<open>JsText\<close>: the arithmetic, the
    floating point formats, the text encoding and the strings of the language, and \<^verbatim>\<open>util/Number.ts\<close>.
  \<^item> \<open>ByteIO\<close>: \<^verbatim>\<open>util/ByteArray.ts\<close>, \<^verbatim>\<open>DataReader.ts\<close>, \<^verbatim>\<open>DataWriter.ts\<close>.  The locale \<open>field_codec\<close> is what every format
    relies on: reading gives back what was written and consumes exactly that.  \<open>BigEndian\<close>: the same for the
    fields of DNS messages.
  \<^item> \<open>MessageCounters\<close>: counters, persisted counters and the three variants of the reception window.  The locale
    \<open>replay_filter\<close> is refined by the window without rollover and, on unrolled counters, with rollover: no message
    is accepted twice, and messages in order are all accepted.  Persisted counters never repeat after a restart.
  \<^item> \<open>MessageQueue\<close>: \<^verbatim>\<open>util/Queue.ts\<close>, first in, first out as long as no read times out.  \<open>Exchange\<close>:
    \<^verbatim>\<open>protocol/MessageExchange.ts\<close>, sending, receiving, retransmission and closing of an exchange.
    \<open>ExchangeDelivery\<close>: with the reception window, through the interface \<open>replay_filter\<close>, no message is delivered
    twice; delivered messages are acknowledged; retransmission ends; and how a message can be acknowledged
    and lost.
  \<^item> \<open>SecureSession\<close>: \<^verbatim>\<open>session/Session.ts\<close>, \<^verbatim>\<open>SecureSession.ts\<close>, \<^verbatim>\<open>InsecureSession.ts\<close>; a message sent over one end of a session is what the other
    end receives.  \<open>BasicSet\<close>: \<^verbatim>\<open>util/Set.ts\<close>.  \<open>SessionManager\<close>, \<open>SessionLaws\<close>: \<^verbatim>\<open>session/SessionManager.ts\<close>; session ids
    are unique and found whenever one is free, resumption records survive a restart.
  \<^item> \<open>ChannelManager\<close>, \<open>ChannelLaws\<close>: \<^verbatim>\<open>protocol/ChannelManager.ts\<close>; the channel of a session is found again and open, except that of a PASE session
    that has got a fabric.
    \<open>SecureChannelMessages\<close>: status reports.
    \<open>ExchangeManager\<close>: the state and the operations of \<^verbatim>\<open>protocol/ExchangeManager.ts\<close>.  \<open>ExchangeRouting\<close>: its steps in any
    order, an invariant of the map of exchanges, and that messages reach their exchange.  \<open>ExchangeSafety\<close>: no message of a
    secure session is processed twice, through \<open>replay_filter\<close>, and four ways in which the dispatch goes wrong.
    \<open>SessionClosing\<close>: closing a session, taken as run to its end in one step, ends and closes all of it unless the lookup of its channel
    throws, and two ways in which it goes wrong.
    \<open>SessionNonces\<close>: no nonce is used twice before the counter rolls over.
  \<^item> \<open>MessageCodec\<close>: packet and payload headers, packets, messages.  Decoding inverts encoding; group
    destinations and vendor protocols are where it does not.
  \<^item> \<open>BitmapSchema\<close>: \<^verbatim>\<open>schema/BitmapSchema.ts\<close>, in a number and in a byte array, with its round trip.
  \<^item> \<open>TlvCodec\<close>: \<^verbatim>\<open>tlv/TlvCodec.ts\<close>, one element: round trip, announced lengths, shortest integer form.
    \<open>TlvSchemas\<close>: the schema classes over an abstract writer and reader.  \<open>TlvRoundtrip\<close>: the locale
    \<open>tlv_transport\<close>, instantiated by element streams and by byte arrays, gives one proof that decoding inverts
    encoding and that the two transports agree; the locale \<open>tlv_source\<close> gives the end of every decoder.
    \<open>TlvFields\<close>: field injection and removal, chunked lists.  \<open>TlvStreams\<close>: values carried as raw streams by
    \<^verbatim>\<open>tlv/TlvAny.ts\<close>, and the decoder without a schema; raw streams after a transport interpret \<open>tlv_transport\<close> once more.
  \<^item> \<open>BtpCodec\<close>, \<open>BtpSession\<close>: packets and the session's operations.  \<open>BtpDelivery\<close>: the specification of
    a connection as numbered packets whose segments form messages; every reachable sender implements it and
    a receiver reassembles it, so that messages arrive complete and in order.  \<open>BtpLimits\<close>: the
    negotiated bounds, the end of the send loop, and the behaviour at a full window and at the wrap of the
    sequence numbers.
  \<^item> \<open>Base38\<close>, \<open>Verhoeff\<close>, \<open>PairingCodes\<close>: \<^verbatim>\<open>schema/Base38Schema.ts\<close>, \<^verbatim>\<open>math/Verhoeff.ts\<close>,
    \<^verbatim>\<open>schema/PairingCodeSchema.ts\<close>: round trips, and the typing errors the check digit finds.
  \<^item> \<open>IpAddress\<close>: \<^verbatim>\<open>util/Ip.ts\<close>.  \<open>DnsCodec\<close>: \<^verbatim>\<open>codec/DnsCodec.ts\<close>.  \<open>DnsRoundtrip\<close>, \<open>DnsMessages\<close>: records and whole messages are decoded to what was
    encoded.  \<open>DnsLimits\<close>: every input is decoded or refused, compression loops are refused, and the names and
    addresses that cannot be encoded.
  \<^item> \<open>Storage\<close>: \<^verbatim>\<open>storage/Storage.ts\<close>, \<^verbatim>\<open>StorageBackendMemory.ts\<close>, \<^verbatim>\<open>StorageContext.ts\<close>, \<^verbatim>\<open>StorageManager.ts\<close>.  \<open>StorageLaws\<close>: the locale \<open>storage\<close> is the
    contract of a backend as a map from paths, for names that are not members of \<^verbatim>\<open>Object.prototype\<close> (where the program would get such a
    member, the model has the outcome \<open>ObjectPrototypeMember\<close>), interpreted by the one in memory; sessions use it through \<open>session_storage\<close>,
    events through \<open>event_storage\<close>.
  \<^item> \<open>EventHandler\<close>: \<^verbatim>\<open>protocol/interaction/EventHandler.ts\<close>; event numbers go on increasing after a restart, and what
    happens at the limit on the number of events.
  \<^item> \<open>AttributeData\<close>: \<^verbatim>\<open>protocol/interaction/AttributeDataEncoder.ts\<close> and \<^verbatim>\<open>AttributeDataDecoder.ts\<close>, the chunks of lists, compressed paths
    and the decoding of reports.  \<open>AttributeLaws\<close>: compression changes nothing for the reader where all or no paths have a node
    id, invents a node id where some have, and values arrive whole or in chunks.  \<open>InteractionProtocol\<close>: the schemas of
    \<^verbatim>\<open>InteractionProtocol.ts\<close>; every typed message is decoded to itself.  \<open>DataReports\<close>: \<^verbatim>\<open>sendDataReport\<close> and \<^verbatim>\<open>readDataReport\<close> of
    \<^verbatim>\<open>InteractionMessenger.ts\<close>.  \<open>ReportDelivery\<close>, \<open>ReportLaws\<close>: the messages of a report, how they are read, and which reports they
    carry.  \<open>ReportSending\<close>: a report without events whose pieces fit into messages of their own is sent and read completely.
  \<^item> \<open>Transactions\<close>: \<^verbatim>\<open>Tx.ts\<close>, \<^verbatim>\<open>ResourceSet.ts\<close>, \<^verbatim>\<open>Status.ts\<close>.  The locale \<open>quiet_participants\<close> is what the commit needs
    of its participants to end; for participants that keep to their own data a commit refines \<open>commit_spec\<close>, two
    phases with rollback.  \<open>TxLocks\<close>: the asynchronous \<^verbatim>\<open>begin\<close> and \<^verbatim>\<open>addResources\<close>, deadlock detection
    as reachability in the wait graph, and two invariants of interleavings in which a transaction has one suspended operation at a time: waiting transactions form no
    cycle, and, unless a commit fails in its pre-commit phase under a suspended begin (\<open>orderly_step\<close>), exclusive transactions hold their locks.

  \<^bold>\<open>Fuel and bounds.\<close>  The TLV decoders take as fuel the number of elements or bytes their reader has
  left; \<open>decoding_ends\<close> shows that they never run out of it.  The loop over the labels of a DNS name has as fuel
  the bytes that are left and one more, and its recursion through pointers the size of the call stack, a
  parameter; \<open>dns_decoding_ends\<close>.  The decoder without a schema has as fuel the elements of the stream;
  \<open>generic_decoding_ends\<close>.  The mutual calls of \<^verbatim>\<open>deleteExchange\<close> and
  \<^verbatim>\<open>closeSession\<close> are bounded by a depth of which two are enough, \<open>close_session_complete\<close>.  Loops over participants and the
  deadlock search are partial functions; that they return is proved where it is used (\<open>for_participants_run\<close>,
  \<open>preCommit_loop_settled\<close>, \<open>detectDeadlock_exact\<close>).  Everything else is total.

  \<^bold>\<open>Not modelled.\<close>  Fabrics, the handshakes of PASE and CASE and, of the interaction model, the server, the client,
  subscriptions and the other messages of the messenger are not modelled.
  Of exchanges the back-off times are left out: a running timer
  may fire at any time.  Cryptography, certificates, network and Bluetooth drivers, and the drivers of MDNS are external
  libraries or I/O.  The text form of stored values relies on JSON with replacer functions.  Cluster definitions and the device model
  are generated data.  Of storage the asynchronous branches, of sessions the observables and the list of sessions a
  fabric keeps are left out.  Of transactions, participants
  that return promises and the listeners of \<^verbatim>\<open>onClose\<close> are left out, and the iteration over a set assumes that the
  participant callbacks remove nothing from it.
\<close>

end
